(* ===== verification/Prelude.thy ===== *)
theory Prelude
  imports Main "HOL-Library.Word"
begin

text \<open>
  Shared vocabulary of the development: Go's signed 64-bit arithmetic, Go's truncating
  division, decimal printing, and the loop shapes and list/map facts that several
  components use. Times are integers (nanoseconds since an arbitrary origin), peer
  identifiers are byte strings, and a Go map is a partial function, or a list with
  distinct entries where its size or an enumeration of it is needed.
\<close>

named_theorems rc_simps \<open>unfolding rules of the resource-manager operations\<close>
named_theorems inv_intros \<open>preservation of component invariants\<close>
named_theorems frame_simps \<open>what an operation leaves unchanged\<close>

type_synonym bytes = "8 word list"
type_synonym peer_id = string
type_synonym time = int

section \<open>Signed 64-bit integers\<close>

definition MaxInt64 :: int where
  "MaxInt64 = 2 ^ 63 - 1"

definition MinInt64 :: int where
  "MinInt64 = - (2 ^ 63)"

definition in64 :: "int \<Rightarrow> bool" where
  "in64 x \<longleftrightarrow> MinInt64 \<le> x \<and> x \<le> MaxInt64"

definition wrap64 :: "int \<Rightarrow> int" where
  "wrap64 x = signed_take_bit 63 x"

abbreviation add64 :: "int \<Rightarrow> int \<Rightarrow> int" where
  "add64 a b \<equiv> wrap64 (a + b)"

abbreviation sub64 :: "int \<Rightarrow> int \<Rightarrow> int" where
  "sub64 a b \<equiv> wrap64 (a - b)"

lemmas int64_defs = in64_def MaxInt64_def MinInt64_def

lemma wrap64_alt: "wrap64 x = (x + 2 ^ 63) mod 2 ^ 64 - 2 ^ 63"
  by (simp add: wrap64_def signed_take_bit_eq_take_bit_shift take_bit_eq_mod)

lemma wrap64_id [simp]: "in64 x \<Longrightarrow> wrap64 x = x"
  by (simp add: wrap64_alt int64_defs)

lemma wrap64_in64 [simp]: "in64 (wrap64 x)"
proof -
  have "0 \<le> (x + 2 ^ 63) mod 2 ^ 64" "(x + 2 ^ 63) mod 2 ^ 64 < (2::int) ^ 64"
    by simp_all
  then show ?thesis by (simp add: wrap64_alt int64_defs)
qed

lemma wrap64_eq_iff: "wrap64 x = x \<longleftrightarrow> in64 x"
  by (metis wrap64_id wrap64_in64)

lemma wrap64_cong: "\<exists>k. wrap64 x = x + k * 2 ^ 64"
proof -
  have "(x + 2 ^ 63) mod 2 ^ 64 = (x + 2 ^ 63) - (x + 2 ^ 63) div 2 ^ 64 * 2 ^ 64"
    by (rule minus_div_mult_eq_mod [symmetric])
  then have "wrap64 x = x + (- ((x + 2 ^ 63) div 2 ^ 64)) * 2 ^ 64"
    by (simp add: wrap64_alt)
  then show ?thesis by blast
qed

lemma wrap64_idem_left: "wrap64 (wrap64 a + b) = wrap64 (a + b)"
proof -
  have "wrap64 a + b + 2 ^ 63 = (a + 2 ^ 63) mod 2 ^ 64 + b"
    by (simp add: wrap64_alt)
  then have "(wrap64 a + b + 2 ^ 63) mod 2 ^ 64 = (a + 2 ^ 63 + b) mod 2 ^ 64"
    by (simp only: mod_add_left_eq)
  moreover have "a + 2 ^ 63 + b = a + b + 2 ^ 63" by simp
  ultimately show ?thesis
    by (simp only: wrap64_alt [of "wrap64 a + b"] wrap64_alt [of "a + b"])
qed

lemma wrap64_shift: "wrap64 (x + k * 2 ^ 64) = wrap64 x"
proof -
  have "x + k * 2 ^ 64 + 2 ^ 63 = x + 2 ^ 63 + k * 2 ^ 64" by simp
  then have "(x + k * 2 ^ 64 + 2 ^ 63) mod 2 ^ 64 = (x + 2 ^ 63) mod 2 ^ 64"
    by (simp only: mod_mult_self1)
  then show ?thesis
    by (simp only: wrap64_alt [of "x + k * 2 ^ 64"] wrap64_alt [of x])
qed

lemma wrap64_sub_add: "wrap64 (wrap64 (a + n) - n) = wrap64 a"
  using wrap64_idem_left [of "a + n" "- n"] by simp

text \<open>Go's division truncates towards zero.\<close>

definition quot :: "int \<Rightarrow> int \<Rightarrow> int" where
  "quot a b = sgn a * sgn b * (\<bar>a\<bar> div \<bar>b\<bar>)"

lemma quot_nonneg: "0 \<le> a \<Longrightarrow> 0 < b \<Longrightarrow> quot a b = a div b"
  by (cases "a = 0") (simp_all add: quot_def)

section \<open>Durations\<close>

definition Millisecond :: int where "Millisecond = 1000000"
definition Second :: int where "Second = 1000 * Millisecond"
definition Minute :: int where "Minute = 60 * Second"

section \<open>Decimal printing\<close>

text \<open>The \<open>%d\<close> verb of Go's \<open>fmt\<close> on a non-negative integer.\<close>

definition digit :: "nat \<Rightarrow> char" where
  "digit n = char_of (48 + n)"

fun itoa :: "nat \<Rightarrow> string" where
  "itoa n = (if n < 10 then [digit n] else itoa (n div 10) @ [digit (n mod 10)])"

declare itoa.simps [simp del]

section \<open>Lists\<close>

lemma distinct_concat_map:
  "distinct xs \<Longrightarrow> (\<And>x. x \<in> set xs \<Longrightarrow> distinct (f x)) \<Longrightarrow>
   (\<And>x y. x \<in> set xs \<Longrightarrow> y \<in> set xs \<Longrightarrow> x \<noteq> y \<Longrightarrow> set (f x) \<inter> set (f y) = {}) \<Longrightarrow>
   distinct (concat (map f xs))"
proof (induction xs)
  case (Cons x xs)
  then have "set (f x) \<inter> set (f y) = {}" if "y \<in> set xs" for y using that by auto
  with Cons show ?case by auto
qed simp

end
