(* ===== verification/Rcmgr_Resources.thy ===== *)
theory Rcmgr_Resources
  imports Prelude
begin

text \<open>
  The counters of one resource scope: \<^verbatim>\<open>BaseLimit\<close> of
  \<^verbatim>\<open>p2p/host/resource-manager/limit.go\<close> and the \<^verbatim>\<open>resources\<close> half of
  \<^verbatim>\<open>scope.go\<close>. Memory is a signed 64-bit quantity and its additions wrap: its amounts
  come from the callers. Stream, connection and descriptor counters are
  mathematical integers: every unit stands for a live object of the process, so they
  cannot reach the width of an \<^verbatim>\<open>int\<close>. Logging and tracing are left out.
\<close>

section \<open>Data\<close>

datatype Direction = DirUnknown | DirInbound | DirOutbound

record BaseLimit =
  Streams :: int
  StreamsInbound :: int
  StreamsOutbound :: int
  Conns :: int
  ConnsInbound :: int
  ConnsOutbound :: int
  FD :: int
  Memory :: int

datatype rc_error =
    ErrResourceScopeClosed
  | ErrNegativeMemory int
  | ErrMemoryLimitExceeded int int int "8 word"
  | ErrStreamOrConnLimitExceeded int int int string
  | ErrOwnerCycle
  | Wrapped string rc_error

record resources =
  limit :: BaseLimit
  nconnsIn :: int
  nconnsOut :: int
  nstreamsIn :: int
  nstreamsOut :: int
  nfd :: int
  memory :: int

record ScopeStat =
  NumStreamsInbound :: int
  NumStreamsOutbound :: int
  NumConnsInbound :: int
  NumConnsOutbound :: int
  NumFD :: int
  StatMemory :: int

definition new_resources :: "BaseLimit \<Rightarrow> resources" where
  "new_resources l = \<lparr>limit = l, nconnsIn = 0, nconnsOut = 0, nstreamsIn = 0,
     nstreamsOut = 0, nfd = 0, memory = 0\<rparr>"

definition zero_stat :: ScopeStat where
  "zero_stat = \<lparr>NumStreamsInbound = 0, NumStreamsOutbound = 0, NumConnsInbound = 0,
     NumConnsOutbound = 0, NumFD = 0, StatMemory = 0\<rparr>"

section \<open>Limits\<close>

definition GetStreamLimit :: "BaseLimit \<Rightarrow> Direction \<Rightarrow> int" where
  "GetStreamLimit l dir = (if dir = DirInbound then StreamsInbound l else StreamsOutbound l)"

definition GetStreamTotalLimit :: "BaseLimit \<Rightarrow> int" where
  "GetStreamTotalLimit l = Streams l"

definition GetConnLimit :: "BaseLimit \<Rightarrow> Direction \<Rightarrow> int" where
  "GetConnLimit l dir = (if dir = DirInbound then ConnsInbound l else ConnsOutbound l)"

definition GetConnTotalLimit :: "BaseLimit \<Rightarrow> int" where
  "GetConnTotalLimit l = Conns l"

definition GetFDLimit :: "BaseLimit \<Rightarrow> int" where
  "GetFDLimit l = FD l"

definition GetMemoryLimit :: "BaseLimit \<Rightarrow> int" where
  "GetMemoryLimit l = Memory l"

text \<open>\<^verbatim>\<open>BaseLimit.Apply\<close> fills the zero fields of a limit from another one.\<close>

definition BaseLimit_Apply :: "BaseLimit \<Rightarrow> BaseLimit \<Rightarrow> BaseLimit" where
  "BaseLimit_Apply l l2 = \<lparr>
     Streams = (if Streams l = 0 then Streams l2 else Streams l),
     StreamsInbound = (if StreamsInbound l = 0 then StreamsInbound l2 else StreamsInbound l),
     StreamsOutbound = (if StreamsOutbound l = 0 then StreamsOutbound l2 else StreamsOutbound l),
     Conns = (if Conns l = 0 then Conns l2 else Conns l),
     ConnsInbound = (if ConnsInbound l = 0 then ConnsInbound l2 else ConnsInbound l),
     ConnsOutbound = (if ConnsOutbound l = 0 then ConnsOutbound l2 else ConnsOutbound l),
     FD = (if FD l = 0 then FD l2 else FD l),
     Memory = (if Memory l = 0 then Memory l2 else Memory l)\<rparr>"

lemmas limit_defs = GetStreamLimit_def GetStreamTotalLimit_def GetConnLimit_def
  GetConnTotalLimit_def GetFDLimit_def GetMemoryLimit_def

section \<open>Checked 64-bit arithmetic\<close>

definition addInt64WithOverflow :: "int \<Rightarrow> int \<Rightarrow> int \<times> bool" where
  "addInt64WithOverflow a b = (let c = add64 a b in (c, (c > a) = (b > 0)))"

definition mulInt64WithOverflow :: "int \<Rightarrow> int \<Rightarrow> int \<times> bool" where
  "mulInt64WithOverflow a b =
     (let mostPositive = 2 ^ 63 - 1; mostNegative = - (mostPositive + 1); c = wrap64 (a * b)
      in if a = 0 \<or> b = 0 \<or> a = 1 \<or> b = 1 then (c, True)
         else if a = mostNegative \<or> b = mostNegative then (c, False)
         else (c, wrap64 (quot c b) = a))"

section \<open>Memory\<close>

definition checkMemory :: "resources \<Rightarrow> int \<Rightarrow> 8 word \<Rightarrow> rc_error option" where
  "checkMemory r rsvp prio =
     (if rsvp < 0 then Some (ErrNegativeMemory rsvp)
      else let lim = GetMemoryLimit (limit r) in
        if lim = MaxInt64 then None
        else let (newmem, addOk) = addInt64WithOverflow (memory r) rsvp;
                 (threshold0, mulOk) = mulInt64WithOverflow (1 + uint prio) lim;
                 threshold = (if \<not> mulOk then wrap64 ((lim * (1 + uint prio)) div 256)
                              else quot threshold0 256)
             in if \<not> addOk \<or> newmem > threshold
                then Some (ErrMemoryLimitExceeded (memory r) rsvp lim prio)
                else None)"

definition reserveMemory :: "resources \<Rightarrow> int \<Rightarrow> 8 word \<Rightarrow> rc_error + resources" where
  "reserveMemory r sz prio =
     (case checkMemory r sz prio of
        Some e \<Rightarrow> Inl e
      | None \<Rightarrow> Inr (r\<lparr>memory := add64 (memory r) sz\<rparr>))"

definition releaseMemory :: "resources \<Rightarrow> int \<Rightarrow> resources" where
  "releaseMemory r sz =
     (let m = sub64 (memory r) sz in r\<lparr>memory := (if m < 0 then 0 else m)\<rparr>)"

section \<open>Streams\<close>

definition addStreams :: "resources \<Rightarrow> int \<Rightarrow> int \<Rightarrow> rc_error + resources" where
  "addStreams r incount outcount =
     (let inlim = GetStreamLimit (limit r) DirInbound;
          outlim = GetStreamLimit (limit r) DirOutbound;
          total = GetStreamTotalLimit (limit r)
      in if incount > 0 \<and> nstreamsIn r + incount > inlim
         then Inl (ErrStreamOrConnLimitExceeded (nstreamsIn r) incount inlim
                     ''cannot reserve inbound stream'')
         else if outcount > 0 \<and> nstreamsOut r + outcount > outlim
         then Inl (ErrStreamOrConnLimitExceeded (nstreamsOut r) outcount outlim
                     ''cannot reserve outbound stream'')
         else if nstreamsIn r + incount + nstreamsOut r + outcount > total
         then Inl (ErrStreamOrConnLimitExceeded (nstreamsIn r + nstreamsOut r)
                     (incount + outcount) total ''cannot reserve stream'')
         else Inr (r\<lparr>nstreamsIn := nstreamsIn r + incount,
                      nstreamsOut := nstreamsOut r + outcount\<rparr>))"

definition addStream :: "resources \<Rightarrow> Direction \<Rightarrow> rc_error + resources" where
  "addStream r dir = (if dir = DirInbound then addStreams r 1 0 else addStreams r 0 1)"

definition removeStreams :: "resources \<Rightarrow> int \<Rightarrow> int \<Rightarrow> resources" where
  "removeStreams r incount outcount =
     (let i = nstreamsIn r - incount; out = nstreamsOut r - outcount
      in r\<lparr>nstreamsIn := (if i < 0 then 0 else i), nstreamsOut := (if out < 0 then 0 else out)\<rparr>)"

definition removeStream :: "resources \<Rightarrow> Direction \<Rightarrow> resources" where
  "removeStream r dir = (if dir = DirInbound then removeStreams r 1 0 else removeStreams r 0 1)"

section \<open>Connections\<close>

definition addConns :: "resources \<Rightarrow> int \<Rightarrow> int \<Rightarrow> int \<Rightarrow> rc_error + resources" where
  "addConns r incount outcount fdcount =
     (let inlim = GetConnLimit (limit r) DirInbound;
          outlim = GetConnLimit (limit r) DirOutbound;
          total = GetConnTotalLimit (limit r);
          fdlim = GetFDLimit (limit r)
      in if incount > 0 \<and> nconnsIn r + incount > inlim
         then Inl (ErrStreamOrConnLimitExceeded (nconnsIn r) incount inlim
                     ''cannot reserve inbound connection'')
         else if outcount > 0 \<and> nconnsOut r + outcount > outlim
         then Inl (ErrStreamOrConnLimitExceeded (nconnsOut r) outcount outlim
                     ''cannot reserve outbound connection'')
         else if nconnsIn r + incount + nconnsOut r + outcount > total
         then Inl (ErrStreamOrConnLimitExceeded (nconnsIn r + nconnsOut r)
                     (incount + outcount) total ''cannot reserve connection'')
         else if fdcount > 0 \<and> nfd r + fdcount > fdlim
         then Inl (ErrStreamOrConnLimitExceeded (nfd r) fdcount fdlim
                     ''cannot reserve file descriptor'')
         else Inr (r\<lparr>nconnsIn := nconnsIn r + incount, nconnsOut := nconnsOut r + outcount,
                      nfd := nfd r + fdcount\<rparr>))"

definition addConn :: "resources \<Rightarrow> Direction \<Rightarrow> bool \<Rightarrow> rc_error + resources" where
  "addConn r dir usefd =
     (let fd = (if usefd then 1 else 0)
      in if dir = DirInbound then addConns r 1 0 fd else addConns r 0 1 fd)"

definition removeConns :: "resources \<Rightarrow> int \<Rightarrow> int \<Rightarrow> int \<Rightarrow> resources" where
  "removeConns r incount outcount fdcount =
     (let i = nconnsIn r - incount; out = nconnsOut r - outcount; fd = nfd r - fdcount
      in r\<lparr>nconnsIn := (if i < 0 then 0 else i), nconnsOut := (if out < 0 then 0 else out),
            nfd := (if fd < 0 then 0 else fd)\<rparr>)"

definition removeConn :: "resources \<Rightarrow> Direction \<Rightarrow> bool \<Rightarrow> resources" where
  "removeConn r dir usefd =
     (let fd = (if usefd then 1 else 0)
      in if dir = DirInbound then removeConns r 1 0 fd else removeConns r 0 1 fd)"

definition stat :: "resources \<Rightarrow> ScopeStat" where
  "stat r = \<lparr>NumStreamsInbound = nstreamsIn r, NumStreamsOutbound = nstreamsOut r,
     NumConnsInbound = nconnsIn r, NumConnsOutbound = nconnsOut r, NumFD = nfd r,
     StatMemory = memory r\<rparr>"

section \<open>Checked arithmetic is exact\<close>

lemma wrap64_add_cases:
  assumes "in64 a" and "in64 b"
  shows "wrap64 (a + b) =
    (if a + b > MaxInt64 then a + b - 2 ^ 64 else if a + b < MinInt64 then a + b + 2 ^ 64 else a + b)"
proof -
  consider "a + b > MaxInt64" | "a + b < MinInt64" | "in64 (a + b)"
    unfolding in64_def by linarith
  then show ?thesis
  proof cases
    case 1
    have "wrap64 (a + b) = wrap64 (a + b - 2 ^ 64)"
      using wrap64_shift [of "a + b" "- 1"] by simp
    with 1 assms show ?thesis by (auto simp: int64_defs)
  next
    case 2
    have "wrap64 (a + b) = wrap64 (a + b + 2 ^ 64)"
      using wrap64_shift [of "a + b" 1] by simp
    with 2 assms show ?thesis by (auto simp: int64_defs)
  next
    case 3
    then show ?thesis by (simp add: in64_def)
  qed
qed

lemma addInt64WithOverflow_exact:
  assumes "in64 a" and "in64 b"
  shows "addInt64WithOverflow a b = (wrap64 (a + b), in64 (a + b))"
  using assms by (auto simp: addInt64WithOverflow_def Let_def wrap64_add_cases int64_defs)

lemma quot_close:
  assumes "b \<noteq> 0"
  shows "\<bar>c - quot c b * b\<bar> < \<bar>b\<bar>"
proof -
  have "quot c b * b = sgn c * (\<bar>c\<bar> div \<bar>b\<bar> * \<bar>b\<bar>)"
    by (simp add: quot_def abs_sgn [of b] algebra_simps)
  moreover have "c = sgn c * \<bar>c\<bar>"
    by (simp add: sgn_mult_abs)
  ultimately have "c - quot c b * b = sgn c * (\<bar>c\<bar> - \<bar>c\<bar> div \<bar>b\<bar> * \<bar>b\<bar>)"
    by (metis right_diff_distrib)
  also have "\<dots> = sgn c * (\<bar>c\<bar> mod \<bar>b\<bar>)"
    by (simp only: minus_div_mult_eq_mod)
  finally have "\<bar>c - quot c b * b\<bar> \<le> \<bar>c\<bar> mod \<bar>b\<bar>"
    using assms by (auto simp: abs_mult sgn_if)
  also have "\<dots> < \<bar>b\<bar>" using assms by simp
  finally show ?thesis .
qed

lemma abs_quot_le:
  assumes "b \<noteq> 0"
  shows "\<bar>quot c b\<bar> \<le> \<bar>c\<bar>"
proof -
  have "\<bar>c\<bar> div \<bar>b\<bar> \<le> \<bar>c\<bar>"
    using assms zdiv_mono2 [of "\<bar>c\<bar>" 1 "\<bar>b\<bar>"] by simp
  moreover have "0 \<le> \<bar>c\<bar> div \<bar>b\<bar>"
    using assms by (simp add: pos_imp_zdiv_nonneg_iff)
  ultimately show ?thesis
    by (simp add: quot_def abs_mult abs_sgn_eq assms)
qed

lemma quot_exact:
  assumes "b \<noteq> 0"
  shows "quot (a * b) b = a"
proof -
  have "quot (a * b) b = sgn a * (sgn b * sgn b) * \<bar>a\<bar>"
    using assms by (simp add: quot_def abs_mult sgn_mult mult.assoc)
  also have "sgn b * sgn b = 1" using assms by (simp add: sgn_if)
  finally show ?thesis by (simp add: sgn_mult_abs)
qed

lemma wrap64_quot_eq_iff:
  assumes "in64 a" and "in64 b" and "b \<noteq> 0" and "a \<noteq> MinInt64"
  shows "wrap64 (quot (wrap64 (a * b)) b) = a \<longleftrightarrow> in64 (a * b)"
proof
  assume "in64 (a * b)"
  then show "wrap64 (quot (wrap64 (a * b)) b) = a"
    using assms by (simp add: quot_exact)
next
  define c where "c = wrap64 (a * b)"
  assume eq: "wrap64 (quot (wrap64 (a * b)) b) = a"
  have c64: "in64 c" by (simp add: c_def)
  have "\<bar>quot c b\<bar> \<le> \<bar>c\<bar>"
    by (rule abs_quot_le [OF assms(3)])
  with c64 have "in64 (quot c b) \<or> quot c b = 2 ^ 63"
    by (auto simp: int64_defs)
  moreover have "wrap64 (2 ^ 63) = MinInt64"
    by (simp add: wrap64_alt MinInt64_def)
  ultimately have "quot c b = a"
    using eq assms(4) by (auto simp flip: c_def)
  then have close: "\<bar>c - a * b\<bar> < \<bar>b\<bar>"
    using quot_close [OF assms(3), of c] by simp
  obtain k where k: "c = a * b + k * 2 ^ 64"
    using wrap64_cong c_def by blast
  with close have "\<bar>k\<bar> * 2 ^ 64 < \<bar>b\<bar>" by (simp add: abs_mult)
  moreover have "\<bar>b\<bar> \<le> 2 ^ 63" using assms(2) by (auto simp: int64_defs)
  ultimately have "k = 0" by auto
  with k c64 show "in64 (a * b)" by simp
qed

lemma mulInt64WithOverflow_exact:
  assumes "in64 a" and "in64 b"
  shows "mulInt64WithOverflow a b = (wrap64 (a * b), in64 (a * b))"
proof -
  consider (triv) "a = 0 \<or> b = 0 \<or> a = 1 \<or> b = 1"
    | (min) "a \<noteq> 0" "b \<noteq> 0" "a \<noteq> 1" "b \<noteq> 1" "a = MinInt64 \<or> b = MinInt64"
    | (gen) "a \<noteq> 0" "b \<noteq> 0" "a \<noteq> 1" "b \<noteq> 1" "a \<noteq> MinInt64" "b \<noteq> MinInt64"
    by blast
  then show ?thesis
  proof cases
    case triv
    then show ?thesis using assms
      by (auto simp: mulInt64WithOverflow_def Let_def int64_defs)
  next
    case min
    have "\<not> in64 (MinInt64 * x)" if "x \<noteq> 0" "x \<noteq> 1" for x
      using that by (auto simp: int64_defs)
    then have "\<not> in64 (a * b)"
      using min by (metis mult.commute)
    with min show ?thesis
      by (auto simp: mulInt64WithOverflow_def Let_def MinInt64_def)
  next
    case gen
    with assms show ?thesis
      by (simp add: mulInt64WithOverflow_def Let_def wrap64_quot_eq_iff MinInt64_def)
  qed
qed

section \<open>The memory check\<close>

text \<open>A priority scales the limit by \<open>(1 + prio) / 256\<close>.\<close>

definition mem_threshold :: "int \<Rightarrow> 8 word \<Rightarrow> int" where
  "mem_threshold lim prio = (1 + uint prio) * lim div 256"

lemma prio_bounds: "1 \<le> 1 + uint (prio :: 8 word)" "1 + uint (prio :: 8 word) \<le> 256"
  using uint_lt2p [of prio] by simp_all

lemma mem_threshold_bounds:
  assumes "0 \<le> lim"
  shows "0 \<le> mem_threshold lim prio" "mem_threshold lim prio \<le> lim"
proof -
  have "(1 + uint prio) * lim \<le> 256 * lim"
    using prio_bounds(2) [of prio] assms by (intro mult_right_mono) auto
  then show "mem_threshold lim prio \<le> lim" by (simp add: mem_threshold_def)
  show "0 \<le> mem_threshold lim prio"
    using assms prio_bounds(1) [of prio] by (simp add: mem_threshold_def pos_imp_zdiv_nonneg_iff)
qed

lemma mem_threshold_max: "mem_threshold lim 255 = lim"
  by (simp add: mem_threshold_def)

lemma checkMemory_None_iff:
  assumes "in64 (memory r)" "in64 rsvp" "0 \<le> rsvp"
    and "0 \<le> Memory (limit r)" "Memory (limit r) < MaxInt64"
  shows "checkMemory r rsvp prio = None \<longleftrightarrow>
    memory r + rsvp \<le> mem_threshold (Memory (limit r)) prio"
proof -
  define lim where "lim = Memory (limit r)"
  have lim64: "in64 lim" and nn: "0 \<le> lim" and p64: "in64 (1 + uint prio)"
    using assms prio_bounds [of prio] by (auto simp: lim_def int64_defs)
  have thr: "in64 (mem_threshold lim prio)"
    using mem_threshold_bounds [OF nn, of prio] lim64 by (auto simp: int64_defs)
  have add: "addInt64WithOverflow (memory r) rsvp =
      (wrap64 (memory r + rsvp), in64 (memory r + rsvp))"
    using assms by (simp add: addInt64WithOverflow_exact)
  have mul: "mulInt64WithOverflow (1 + uint prio) lim =
      (wrap64 ((1 + uint prio) * lim), in64 ((1 + uint prio) * lim))"
    using lim64 p64 by (simp add: mulInt64WithOverflow_exact)
  have th1: "quot (wrap64 ((1 + uint prio) * lim)) 256 = mem_threshold lim prio"
    if "in64 ((1 + uint prio) * lim)"
    using that nn by (simp add: quot_nonneg mem_threshold_def)
  have th2: "wrap64 (lim * (1 + uint prio) div 256) = mem_threshold lim prio"
    using thr by (simp add: mem_threshold_def mult.commute)
  have "checkMemory r rsvp prio = None \<longleftrightarrow>
      in64 (memory r + rsvp) \<and> wrap64 (memory r + rsvp) \<le> mem_threshold lim prio"
    using assms th1 th2 unfolding checkMemory_def
    by (auto simp: Let_def GetMemoryLimit_def add mul simp flip: lim_def)
  also have "\<dots> \<longleftrightarrow> memory r + rsvp \<le> mem_threshold lim prio"
    using thr assms by (auto simp: int64_defs)
  finally show ?thesis by (simp add: lim_def)
qed

section \<open>Invariants of the counters\<close>

text \<open>
  \<^term>\<open>rc_ok\<close>: no counter is negative and none exceeds its limit. The memory part is
  stated for bounded memory limits; the limit \<^term>\<open>MaxInt64\<close> means unlimited and skips
  the check. \<^term>\<open>rc_nn\<close> is the part that makes a release undo a reservation exactly.
\<close>

definition lim_ok :: "BaseLimit \<Rightarrow> bool" where
  "lim_ok l \<longleftrightarrow> 0 \<le> Streams l \<and> 0 \<le> StreamsInbound l \<and> 0 \<le> StreamsOutbound l \<and>
     0 \<le> Conns l \<and> 0 \<le> ConnsInbound l \<and> 0 \<le> ConnsOutbound l \<and> 0 \<le> FD l \<and>
     0 \<le> Memory l \<and> Memory l \<le> MaxInt64"

definition rc_ok :: "resources \<Rightarrow> bool" where
  "rc_ok r \<longleftrightarrow>
     0 \<le> nstreamsIn r \<and> nstreamsIn r \<le> StreamsInbound (limit r) \<and>
     0 \<le> nstreamsOut r \<and> nstreamsOut r \<le> StreamsOutbound (limit r) \<and>
     nstreamsIn r + nstreamsOut r \<le> Streams (limit r) \<and>
     0 \<le> nconnsIn r \<and> nconnsIn r \<le> ConnsInbound (limit r) \<and>
     0 \<le> nconnsOut r \<and> nconnsOut r \<le> ConnsOutbound (limit r) \<and>
     nconnsIn r + nconnsOut r \<le> Conns (limit r) \<and>
     0 \<le> nfd r \<and> nfd r \<le> FD (limit r) \<and>
     in64 (memory r) \<and>
     (Memory (limit r) < MaxInt64 \<longrightarrow> 0 \<le> memory r \<and> memory r \<le> Memory (limit r))"

definition rc_nn :: "resources \<Rightarrow> bool" where
  "rc_nn r \<longleftrightarrow> 0 \<le> nstreamsIn r \<and> 0 \<le> nstreamsOut r \<and> 0 \<le> nconnsIn r \<and> 0 \<le> nconnsOut r \<and>
     0 \<le> nfd r \<and> 0 \<le> memory r \<and> in64 (memory r)"

lemmas rc_defs = rc_ok_def rc_nn_def lim_ok_def

lemma rc_ok_new [inv_intros]: "lim_ok l \<Longrightarrow> rc_ok (new_resources l)"
  by (simp add: rc_defs new_resources_def int64_defs)

lemma rc_nn_new [simp]: "rc_nn (new_resources l)"
  by (simp add: rc_nn_def new_resources_def int64_defs)

subsection \<open>Reservations\<close>

lemma reserveMemory_Inr_iff:
  "reserveMemory r sz prio = Inr r' \<longleftrightarrow>
     checkMemory r sz prio = None \<and> r' = r\<lparr>memory := add64 (memory r) sz\<rparr>"
  by (auto simp: reserveMemory_def split: option.splits)

lemma addStreams_Inr_iff:
  "addStreams r i n = Inr r' \<longleftrightarrow>
     (i > 0 \<longrightarrow> nstreamsIn r + i \<le> StreamsInbound (limit r)) \<and>
     (n > 0 \<longrightarrow> nstreamsOut r + n \<le> StreamsOutbound (limit r)) \<and>
     nstreamsIn r + i + nstreamsOut r + n \<le> Streams (limit r) \<and>
     r' = r\<lparr>nstreamsIn := nstreamsIn r + i, nstreamsOut := nstreamsOut r + n\<rparr>"
  by (auto simp: addStreams_def Let_def limit_defs)

lemma addConns_Inr_iff:
  "addConns r i n f = Inr r' \<longleftrightarrow>
     (i > 0 \<longrightarrow> nconnsIn r + i \<le> ConnsInbound (limit r)) \<and>
     (n > 0 \<longrightarrow> nconnsOut r + n \<le> ConnsOutbound (limit r)) \<and>
     nconnsIn r + i + nconnsOut r + n \<le> Conns (limit r) \<and>
     (f > 0 \<longrightarrow> nfd r + f \<le> FD (limit r)) \<and>
     r' = r\<lparr>nconnsIn := nconnsIn r + i, nconnsOut := nconnsOut r + n, nfd := nfd r + f\<rparr>"
  by (auto simp: addConns_def Let_def limit_defs)

lemma addStream_eq:
  "addStream r dir = addStreams r (if dir = DirInbound then 1 else 0) (if dir = DirInbound then 0 else 1)"
  by (simp add: addStream_def)

lemma removeStream_eq:
  "removeStream r dir =
     removeStreams r (if dir = DirInbound then 1 else 0) (if dir = DirInbound then 0 else 1)"
  by (simp add: removeStream_def)

lemma addConn_eq:
  "addConn r dir usefd = addConns r (if dir = DirInbound then 1 else 0)
     (if dir = DirInbound then 0 else 1) (if usefd then 1 else 0)"
  by (simp add: addConn_def Let_def)

lemma removeConn_eq:
  "removeConn r dir usefd = removeConns r (if dir = DirInbound then 1 else 0)
     (if dir = DirInbound then 0 else 1) (if usefd then 1 else 0)"
  by (simp add: removeConn_def Let_def)

lemma reserveMemory_limit [frame_simps]: "reserveMemory r sz p = Inr r' \<Longrightarrow> limit r' = limit r"
  by (auto simp: reserveMemory_Inr_iff)

lemma addStreams_limit [frame_simps]: "addStreams r i n = Inr r' \<Longrightarrow> limit r' = limit r"
  by (auto simp: addStreams_Inr_iff)

lemma addConns_limit [frame_simps]: "addConns r i n f = Inr r' \<Longrightarrow> limit r' = limit r"
  by (auto simp: addConns_Inr_iff)

lemma release_limit [simp]:
  "limit (releaseMemory r sz) = limit r" "limit (removeStreams r i n) = limit r"
  "limit (removeConns r i n f) = limit r"
  by (simp_all add: releaseMemory_def removeStreams_def removeConns_def Let_def)

subsection \<open>A release undoes its reservation\<close>

lemma release_reserveMemory:
  assumes "rc_nn r" and "reserveMemory r sz p = Inr r'"
  shows "releaseMemory r' sz = r"
proof -
  have r': "r' = r\<lparr>memory := add64 (memory r) sz\<rparr>"
    using assms(2) by (simp add: reserveMemory_Inr_iff)
  have "sub64 (memory r') sz = memory r"
    using assms(1) by (simp add: r' wrap64_sub_add rc_nn_def)
  then show ?thesis
    using assms(1) by (simp add: releaseMemory_def Let_def rc_nn_def r')
qed

lemma remove_addStreams:
  "rc_nn r \<Longrightarrow> addStreams r i n = Inr r' \<Longrightarrow> removeStreams r' i n = r"
  by (auto simp: addStreams_Inr_iff removeStreams_def Let_def rc_nn_def)

lemma remove_addConns:
  "rc_nn r \<Longrightarrow> addConns r i n f = Inr r' \<Longrightarrow> removeConns r' i n f = r"
  by (auto simp: addConns_Inr_iff removeConns_def Let_def rc_nn_def)

subsection \<open>The counters stay within their limits\<close>

lemma reserveMemory_rc_ok [inv_intros]:
  assumes "rc_ok r" "lim_ok (limit r)" "in64 sz" "reserveMemory r sz p = Inr r'"
  shows "rc_ok r'"
proof -
  from assms(4) have chk: "checkMemory r sz p = None" and r': "r' = r\<lparr>memory := add64 (memory r) sz\<rparr>"
    by (simp_all add: reserveMemory_Inr_iff)
  have sz: "0 \<le> sz" using chk by (auto simp: checkMemory_def Let_def split: if_splits)
  show ?thesis
  proof (cases "Memory (limit r) < MaxInt64")
    case True
    have nn: "0 \<le> Memory (limit r)" using assms(2) by (simp add: lim_ok_def)
    have "memory r + sz \<le> mem_threshold (Memory (limit r)) p"
      using chk checkMemory_None_iff [of r sz p] True nn sz assms(1,3) by (simp add: rc_ok_def)
    also have "\<dots> \<le> Memory (limit r)" by (rule mem_threshold_bounds(2) [OF nn])
    finally have le: "memory r + sz \<le> Memory (limit r)" .
    then have "in64 (memory r + sz)" "0 \<le> memory r + sz"
      using assms(1) True sz by (auto simp: rc_ok_def int64_defs)
    with le assms(1) True show ?thesis by (simp add: r' rc_ok_def)
  next
    case False
    with assms(1) show ?thesis by (simp add: r' rc_ok_def)
  qed
qed

lemma addStreams_rc_ok [inv_intros]:
  "rc_ok r \<Longrightarrow> 0 \<le> i \<Longrightarrow> 0 \<le> n \<Longrightarrow> addStreams r i n = Inr r' \<Longrightarrow> rc_ok r'"
  by (auto simp: rc_ok_def addStreams_Inr_iff)

lemma addConns_rc_ok [inv_intros]:
  "rc_ok r \<Longrightarrow> 0 \<le> i \<Longrightarrow> 0 \<le> n \<Longrightarrow> 0 \<le> f \<Longrightarrow> addConns r i n f = Inr r' \<Longrightarrow> rc_ok r'"
  by (auto simp: rc_ok_def addConns_Inr_iff)

lemma releaseMemory_rc_ok [inv_intros]:
  assumes "rc_ok r" "lim_ok (limit r)" "0 \<le> sz" "in64 sz"
  shows "rc_ok (releaseMemory r sz)"
proof (cases "Memory (limit r) < MaxInt64")
  case True
  then have "in64 (memory r - sz)"
    using assms by (auto simp: rc_ok_def int64_defs)
  with assms True show ?thesis
    by (auto simp: rc_ok_def releaseMemory_def Let_def lim_ok_def int64_defs)
next
  case False
  have "in64 0" by (simp add: int64_defs)
  with assms False show ?thesis by (auto simp: rc_ok_def releaseMemory_def Let_def)
qed

lemma removeStreams_rc_ok [inv_intros]:
  "rc_ok r \<Longrightarrow> 0 \<le> i \<Longrightarrow> 0 \<le> n \<Longrightarrow> rc_ok (removeStreams r i n)"
  by (auto simp: rc_ok_def removeStreams_def Let_def)

lemma removeConns_rc_ok [inv_intros]:
  "rc_ok r \<Longrightarrow> 0 \<le> i \<Longrightarrow> 0 \<le> n \<Longrightarrow> 0 \<le> f \<Longrightarrow> rc_ok (removeConns r i n f)"
  by (auto simp: rc_ok_def removeConns_def Let_def)

section \<open>Properties\<close>

text \<open>
  C16. For a bounded memory limit the check accepts a reservation exactly when the memory in
  use plus the request stays within the fraction (1 + prio) / 256 of the limit, computed
  without overflow although the code works with 64-bit products.
\<close>
theorem checkMemory_exact:
  assumes "in64 (memory r)" and "in64 rsvp" and "0 \<le> rsvp"
    and "0 \<le> Memory (limit r)" and "Memory (limit r) < MaxInt64"
  shows "checkMemory r rsvp prio = None \<longleftrightarrow>
    memory r + rsvp \<le> (1 + uint prio) * Memory (limit r) div 256"
  using checkMemory_None_iff [OF assms] by (simp add: mem_threshold_def)

theorem checkMemory_exact_witness:
  "let r = new_resources \<lparr>Streams = 0, StreamsInbound = 0, StreamsOutbound = 0, Conns = 0, ConnsInbound = 0,
       ConnsOutbound = 0, FD = 0, Memory = 9223372036854775806\<rparr>
   in in64 (memory r) \<and> in64 4611686018427387903 \<and> Memory (limit r) < MaxInt64 \<and>
      checkMemory r 4611686018427387903 127 = None \<and> checkMemory r 4611686018427387904 127 \<noteq> None"
  using checkMemory_exact [of "new_resources \<lparr>Streams = 0, StreamsInbound = 0, StreamsOutbound = 0, Conns = 0,
       ConnsInbound = 0, ConnsOutbound = 0, FD = 0, Memory = 9223372036854775806\<rparr>" 4611686018427387903 127]
    checkMemory_exact [of "new_resources \<lparr>Streams = 0, StreamsInbound = 0, StreamsOutbound = 0, Conns = 0,
       ConnsInbound = 0, ConnsOutbound = 0, FD = 0, Memory = 9223372036854775806\<rparr>" 4611686018427387904 127]
  by (simp add: new_resources_def int64_defs Let_def)

end
