(* ===== verification/Rcmgr_Scope.thy ===== *)
theory Rcmgr_Scope
  imports Rcmgr_Resources
begin

text \<open>
  Resource scopes (\<^verbatim>\<open>resourceScope\<close> of \<^verbatim>\<open>p2p/host/resource-manager/scope.go\<close>). The
  scopes live in a store from scope identifiers to records, because a scope is shared:
  it is an edge of many children and the owner of many spans. A public operation runs
  on the scope itself and then either on its owner (a span) or on its linearised
  parents (its edges), undoing the prefix already charged when one of them refuses.

  Every section that Go runs under the mutex of one scope is one atomic update here.
  The recursion of a span to its owner is bounded by the owner's identifier, which is
  smaller because the owner is allocated first; on a cyclic owner chain, which would
  deadlock on the mutex, the model answers \<^term>\<open>ErrOwnerCycle\<close>.
\<close>

section \<open>The store\<close>

type_synonym sid = nat

record resourceScope =
  sdone :: bool
  refCnt :: int
  spanID :: nat
  rc :: resources
  owner :: "sid option"
  edges :: "sid list"
  sname :: string

type_synonym heap = "sid \<Rightarrow> resourceScope"

definition upd_rc :: "heap \<Rightarrow> sid \<Rightarrow> resources \<Rightarrow> heap" where
  "upd_rc h s r = h(s := (h s)\<lparr>rc := r\<rparr>)"

definition IncRef :: "heap \<Rightarrow> sid \<Rightarrow> heap" where
  "IncRef h s = h(s := (h s)\<lparr>refCnt := refCnt (h s) + 1\<rparr>)"

definition DecRef :: "heap \<Rightarrow> sid \<Rightarrow> heap" where
  "DecRef h s = h(s := (h s)\<lparr>refCnt := refCnt (h s) - 1\<rparr>)"

definition newResourceScope :: "heap \<Rightarrow> sid \<Rightarrow> BaseLimit \<Rightarrow> sid list \<Rightarrow> string \<Rightarrow> heap" where
  "newResourceScope h new l es nm =
     (fold (\<lambda>e h. IncRef h e) es h)
       (new := \<lparr>sdone = False, refCnt = 0, spanID = 0, rc = new_resources l, owner = None,
                edges = es, sname = nm\<rparr>)"

definition newResourceScopeSpan :: "heap \<Rightarrow> sid \<Rightarrow> sid \<Rightarrow> nat \<Rightarrow> heap" where
  "newResourceScopeSpan h new ow i =
     h(new := \<lparr>sdone = False, refCnt = 0, spanID = 0, rc = new_resources (limit (rc (h ow))),
               owner = Some ow, edges = [], sname = sname (h ow) @ ''.span-'' @ itoa i\<rparr>)"

definition wrapError :: "heap \<Rightarrow> sid \<Rightarrow> rc_error \<Rightarrow> rc_error" where
  "wrapError h s e = Wrapped (sname (h s)) e"

text \<open>
  The loop over the edges: charge one after the other, stop at the first refusal and
  remember how many were charged; then undo those, in order.
\<close>

fun reserve_edges ::
  "(heap \<Rightarrow> sid \<Rightarrow> heap \<times> ScopeStat \<times> rc_error option) \<Rightarrow> heap \<Rightarrow> sid list \<Rightarrow> nat \<Rightarrow>
   heap \<times> nat \<times> rc_error option" where
  "reserve_edges f h [] n = (h, n, None)"
| "reserve_edges f h (e # es) n =
     (case f h e of
        (h', _, Some err) \<Rightarrow> (h', n, Some err)
      | (h', _, None) \<Rightarrow> reserve_edges f h' es (Suc n))"

definition for_edges ::
  "(heap \<Rightarrow> sid \<Rightarrow> heap \<times> ScopeStat \<times> rc_error option) \<Rightarrow> (heap \<Rightarrow> sid \<Rightarrow> heap) \<Rightarrow>
   heap \<Rightarrow> sid list \<Rightarrow> heap \<times> rc_error option" where
  "for_edges f g h es =
     (case reserve_edges f h es 0 of
        (h', reserved, Some err) \<Rightarrow> (fold (\<lambda>e h. g h e) (List.take reserved es) h', Some err)
      | (h', reserved, None) \<Rightarrow> (h', None))"

section \<open>Memory\<close>

definition ReserveMemoryForChild ::
  "heap \<Rightarrow> sid \<Rightarrow> int \<Rightarrow> 8 word \<Rightarrow> heap \<times> ScopeStat \<times> rc_error option" where
  "ReserveMemoryForChild h s sz prio =
     (if sdone (h s) then (h, stat (rc (h s)), Some (wrapError h s ErrResourceScopeClosed))
      else case reserveMemory (rc (h s)) sz prio of
             Inl e \<Rightarrow> (h, stat (rc (h s)), Some (wrapError h s e))
           | Inr r \<Rightarrow> (upd_rc h s r, zero_stat, None))"

definition ReleaseMemoryForChild :: "heap \<Rightarrow> sid \<Rightarrow> int \<Rightarrow> heap" where
  "ReleaseMemoryForChild h s sz =
     (if sdone (h s) then h else upd_rc h s (releaseMemory (rc (h s)) sz))"

definition reserveMemoryForEdges ::
  "(heap \<Rightarrow> sid \<Rightarrow> heap \<times> rc_error option) \<Rightarrow> heap \<Rightarrow> sid \<Rightarrow> int \<Rightarrow> 8 word \<Rightarrow>
   heap \<times> rc_error option" where
  "reserveMemoryForEdges own h s sz prio =
     (case owner (h s) of
        Some ow \<Rightarrow> own h ow
      | None \<Rightarrow> for_edges (\<lambda>h e. ReserveMemoryForChild h e sz prio)
                  (\<lambda>h e. ReleaseMemoryForChild h e sz) h (edges (h s)))"

function ReserveMemory :: "heap \<Rightarrow> sid \<Rightarrow> int \<Rightarrow> 8 word \<Rightarrow> heap \<times> rc_error option" where
  "ReserveMemory h s sz prio =
     (if sdone (h s) then (h, Some (wrapError h s ErrResourceScopeClosed))
      else case reserveMemory (rc (h s)) sz prio of
             Inl e \<Rightarrow> (h, Some (wrapError h s e))
           | Inr r \<Rightarrow>
               (case reserveMemoryForEdges
                       (\<lambda>h' ow. if ow < s then ReserveMemory h' ow sz prio
                                else (h', Some ErrOwnerCycle))
                       (upd_rc h s r) s sz prio of
                  (h2, Some e) \<Rightarrow>
                    (upd_rc h2 s (releaseMemory (rc (h2 s)) sz), Some (wrapError h2 s e))
                | (h2, None) \<Rightarrow> (h2, None)))"
  by pat_completeness auto
termination
  by (relation "measure (\<lambda>(h, s, sz, prio). s)") auto

definition releaseMemoryForEdges ::
  "(heap \<Rightarrow> sid \<Rightarrow> heap) \<Rightarrow> heap \<Rightarrow> sid \<Rightarrow> int \<Rightarrow> heap" where
  "releaseMemoryForEdges own h s sz =
     (case owner (h s) of
        Some ow \<Rightarrow> own h ow
      | None \<Rightarrow> fold (\<lambda>e h. ReleaseMemoryForChild h e sz) (edges (h s)) h)"

function ReleaseMemory :: "heap \<Rightarrow> sid \<Rightarrow> int \<Rightarrow> heap" where
  "ReleaseMemory h s sz =
     (if sdone (h s) then h
      else releaseMemoryForEdges (\<lambda>h' ow. if ow < s then ReleaseMemory h' ow sz else h')
             (upd_rc h s (releaseMemory (rc (h s)) sz)) s sz)"
  by pat_completeness auto
termination
  by (relation "measure (\<lambda>(h, s, sz). s)") auto

section \<open>Streams\<close>

definition AddStreamForChild ::
  "heap \<Rightarrow> sid \<Rightarrow> Direction \<Rightarrow> heap \<times> ScopeStat \<times> rc_error option" where
  "AddStreamForChild h s dir =
     (if sdone (h s) then (h, stat (rc (h s)), Some (wrapError h s ErrResourceScopeClosed))
      else case addStream (rc (h s)) dir of
             Inl e \<Rightarrow> (h, stat (rc (h s)), Some (wrapError h s e))
           | Inr r \<Rightarrow> (upd_rc h s r, zero_stat, None))"

definition RemoveStreamForChild :: "heap \<Rightarrow> sid \<Rightarrow> Direction \<Rightarrow> heap" where
  "RemoveStreamForChild h s dir =
     (if sdone (h s) then h else upd_rc h s (removeStream (rc (h s)) dir))"

definition addStreamForEdges ::
  "(heap \<Rightarrow> sid \<Rightarrow> heap \<times> rc_error option) \<Rightarrow> heap \<Rightarrow> sid \<Rightarrow> Direction \<Rightarrow>
   heap \<times> rc_error option" where
  "addStreamForEdges own h s dir =
     (case owner (h s) of
        Some ow \<Rightarrow> own h ow
      | None \<Rightarrow> for_edges (\<lambda>h e. AddStreamForChild h e dir)
                  (\<lambda>h e. RemoveStreamForChild h e dir) h (edges (h s)))"

function AddStream :: "heap \<Rightarrow> sid \<Rightarrow> Direction \<Rightarrow> heap \<times> rc_error option" where
  "AddStream h s dir =
     (if sdone (h s) then (h, Some (wrapError h s ErrResourceScopeClosed))
      else case addStream (rc (h s)) dir of
             Inl e \<Rightarrow> (h, Some (wrapError h s e))
           | Inr r \<Rightarrow>
               (case addStreamForEdges
                       (\<lambda>h' ow. if ow < s then AddStream h' ow dir
                                else (h', Some ErrOwnerCycle))
                       (upd_rc h s r) s dir of
                  (h2, Some e) \<Rightarrow>
                    (upd_rc h2 s (removeStream (rc (h2 s)) dir), Some (wrapError h2 s e))
                | (h2, None) \<Rightarrow> (h2, None)))"
  by pat_completeness auto
termination
  by (relation "measure (\<lambda>(h, s, dir). s)") auto

definition removeStreamForEdges ::
  "(heap \<Rightarrow> sid \<Rightarrow> heap) \<Rightarrow> heap \<Rightarrow> sid \<Rightarrow> Direction \<Rightarrow> heap" where
  "removeStreamForEdges own h s dir =
     (case owner (h s) of
        Some ow \<Rightarrow> own h ow
      | None \<Rightarrow> fold (\<lambda>e h. RemoveStreamForChild h e dir) (edges (h s)) h)"

function RemoveStream :: "heap \<Rightarrow> sid \<Rightarrow> Direction \<Rightarrow> heap" where
  "RemoveStream h s dir =
     (if sdone (h s) then h
      else removeStreamForEdges (\<lambda>h' ow. if ow < s then RemoveStream h' ow dir else h')
             (upd_rc h s (removeStream (rc (h s)) dir)) s dir)"
  by pat_completeness auto
termination
  by (relation "measure (\<lambda>(h, s, dir). s)") auto

section \<open>Connections\<close>

definition AddConnForChild ::
  "heap \<Rightarrow> sid \<Rightarrow> Direction \<Rightarrow> bool \<Rightarrow> heap \<times> ScopeStat \<times> rc_error option" where
  "AddConnForChild h s dir usefd =
     (if sdone (h s) then (h, stat (rc (h s)), Some (wrapError h s ErrResourceScopeClosed))
      else case addConn (rc (h s)) dir usefd of
             Inl e \<Rightarrow> (h, stat (rc (h s)), Some (wrapError h s e))
           | Inr r \<Rightarrow> (upd_rc h s r, zero_stat, None))"

definition RemoveConnForChild :: "heap \<Rightarrow> sid \<Rightarrow> Direction \<Rightarrow> bool \<Rightarrow> heap" where
  "RemoveConnForChild h s dir usefd =
     (if sdone (h s) then h else upd_rc h s (removeConn (rc (h s)) dir usefd))"

definition addConnForEdges ::
  "(heap \<Rightarrow> sid \<Rightarrow> heap \<times> rc_error option) \<Rightarrow> heap \<Rightarrow> sid \<Rightarrow> Direction \<Rightarrow> bool \<Rightarrow>
   heap \<times> rc_error option" where
  "addConnForEdges own h s dir usefd =
     (case owner (h s) of
        Some ow \<Rightarrow> own h ow
      | None \<Rightarrow> for_edges (\<lambda>h e. AddConnForChild h e dir usefd)
                  (\<lambda>h e. RemoveConnForChild h e dir usefd) h (edges (h s)))"

function AddConn :: "heap \<Rightarrow> sid \<Rightarrow> Direction \<Rightarrow> bool \<Rightarrow> heap \<times> rc_error option" where
  "AddConn h s dir usefd =
     (if sdone (h s) then (h, Some (wrapError h s ErrResourceScopeClosed))
      else case addConn (rc (h s)) dir usefd of
             Inl e \<Rightarrow> (h, Some (wrapError h s e))
           | Inr r \<Rightarrow>
               (case addConnForEdges
                       (\<lambda>h' ow. if ow < s then AddConn h' ow dir usefd
                                else (h', Some ErrOwnerCycle))
                       (upd_rc h s r) s dir usefd of
                  (h2, Some e) \<Rightarrow>
                    (upd_rc h2 s (removeConn (rc (h2 s)) dir usefd), Some (wrapError h2 s e))
                | (h2, None) \<Rightarrow> (h2, None)))"
  by pat_completeness auto
termination
  by (relation "measure (\<lambda>(h, s, dir, usefd). s)") auto

text \<open>
  \<^verbatim>\<open>removeConnForEdges\<close> has no early return after the owner branch: the edges are
  visited as well, and a span has none.
\<close>

definition removeConnForEdges ::
  "(heap \<Rightarrow> sid \<Rightarrow> heap) \<Rightarrow> heap \<Rightarrow> sid \<Rightarrow> Direction \<Rightarrow> bool \<Rightarrow> heap" where
  "removeConnForEdges own h s dir usefd =
     (let h1 = (case owner (h s) of Some ow \<Rightarrow> own h ow | None \<Rightarrow> h)
      in fold (\<lambda>e h. RemoveConnForChild h e dir usefd) (edges (h1 s)) h1)"

function RemoveConn :: "heap \<Rightarrow> sid \<Rightarrow> Direction \<Rightarrow> bool \<Rightarrow> heap" where
  "RemoveConn h s dir usefd =
     (if sdone (h s) then h
      else removeConnForEdges (\<lambda>h' ow. if ow < s then RemoveConn h' ow dir usefd else h')
             (upd_rc h s (removeConn (rc (h s)) dir usefd)) s dir usefd)"
  by pat_completeness auto
termination
  by (relation "measure (\<lambda>(h, s, dir, usefd). s)") auto

declare ReserveMemory.simps [simp del] ReleaseMemory.simps [simp del]
  AddStream.simps [simp del] RemoveStream.simps [simp del]
  AddConn.simps [simp del] RemoveConn.simps [simp del]

section \<open>Whole statistics, spans and closing\<close>

definition ReserveForChild :: "heap \<Rightarrow> sid \<Rightarrow> ScopeStat \<Rightarrow> heap \<times> rc_error option" where
  "ReserveForChild h s st =
     (if sdone (h s) then (h, Some (wrapError h s ErrResourceScopeClosed))
      else case reserveMemory (rc (h s)) (StatMemory st) 255 of
        Inl e \<Rightarrow> (h, Some (wrapError h s e))
      | Inr r1 \<Rightarrow>
        (case addStreams r1 (NumStreamsInbound st) (NumStreamsOutbound st) of
           Inl e \<Rightarrow> (upd_rc h s (releaseMemory r1 (StatMemory st)), Some (wrapError h s e))
         | Inr r2 \<Rightarrow>
           (case addConns r2 (NumConnsInbound st) (NumConnsOutbound st) (NumFD st) of
              Inl e \<Rightarrow> (upd_rc h s (removeStreams (releaseMemory r2 (StatMemory st))
                                    (NumStreamsInbound st) (NumStreamsOutbound st)),
                        Some (wrapError h s e))
            | Inr r3 \<Rightarrow> (upd_rc h s r3, None))))"

definition release_stat :: "resources \<Rightarrow> ScopeStat \<Rightarrow> resources" where
  "release_stat r st =
     removeConns
       (removeStreams (releaseMemory r (StatMemory st))
         (NumStreamsInbound st) (NumStreamsOutbound st))
       (NumConnsInbound st) (NumConnsOutbound st) (NumFD st)"

definition ReleaseForChild :: "heap \<Rightarrow> sid \<Rightarrow> ScopeStat \<Rightarrow> heap" where
  "ReleaseForChild h s st = (if sdone (h s) then h else upd_rc h s (release_stat (rc (h s)) st))"

function ReleaseResources :: "heap \<Rightarrow> sid \<Rightarrow> ScopeStat \<Rightarrow> heap" where
  "ReleaseResources h s st =
     (if sdone (h s) then h
      else let h1 = upd_rc h s (release_stat (rc (h s)) st)
           in case owner (h1 s) of
                Some ow \<Rightarrow> if ow < s then ReleaseResources h1 ow st else h1
              | None \<Rightarrow> fold (\<lambda>e h. ReleaseForChild h e st) (edges (h1 s)) h1)"
  by pat_completeness auto
termination
  by (relation "measure (\<lambda>(h, s, st). s)") auto

declare ReleaseResources.simps [simp del]

definition BeginSpan :: "heap \<Rightarrow> sid \<Rightarrow> sid \<Rightarrow> heap \<times> (rc_error + sid)" where
  "BeginSpan h s new =
     (if sdone (h s) then (h, Inl (wrapError h s ErrResourceScopeClosed))
      else let i = spanID (h s) + 1;
               h1 = h(s := (h s)\<lparr>refCnt := refCnt (h s) + 1, spanID := i\<rparr>)
           in (newResourceScopeSpan h1 new s i, Inr new))"

definition doneUnlocked :: "heap \<Rightarrow> sid \<Rightarrow> heap" where
  "doneUnlocked h s =
     (if sdone (h s) then h
      else let st = stat (rc (h s));
               h1 = (case owner (h s) of
                       Some ow \<Rightarrow> DecRef (ReleaseResources h ow st) ow
                     | None \<Rightarrow> fold (\<lambda>e h. DecRef (ReleaseForChild h e st) e) (edges (h s)) h)
           in h1(s := (h1 s)\<lparr>rc := (rc (h1 s))\<lparr>nstreamsIn := 0, nstreamsOut := 0, nconnsIn := 0,
                                               nconnsOut := 0, nfd := 0, memory := 0\<rparr>,
                             sdone := True\<rparr>))"

definition IsUnused :: "heap \<Rightarrow> sid \<Rightarrow> bool" where
  "IsUnused h s =
     (if sdone (h s) then True
      else if refCnt (h s) > 0 then False
      else let st = stat (rc (h s))
           in NumStreamsInbound st = 0 \<and> NumStreamsOutbound st = 0 \<and>
              NumConnsInbound st = 0 \<and> NumConnsOutbound st = 0 \<and> NumFD st = 0)"

section \<open>The constraint set of a scope\<close>

text \<open>
  \<^term>\<open>charged h s\<close> lists the scopes an operation on \<open>s\<close> accounts in: the scope, its
  chain of owners and the edges of the root of that chain.
\<close>

function charged :: "heap \<Rightarrow> sid \<Rightarrow> sid list" where
  "charged h s =
     s # (case owner (h s) of
            Some ow \<Rightarrow> if ow < s then charged h ow else []
          | None \<Rightarrow> edges (h s))"
  by pat_completeness auto
termination
  by (relation "measure (\<lambda>(h, s). s)") auto

declare charged.simps [simp del]

text \<open>
  Well-formed stores: a span is younger than its owner and has no edges; a DAG scope has
  distinct edges, none of them itself, all of them DAG scopes.
\<close>

definition wf_scope :: "heap \<Rightarrow> sid \<Rightarrow> bool" where
  "wf_scope h s \<longleftrightarrow>
     (case owner (h s) of
        Some ow \<Rightarrow> ow < s \<and> edges (h s) = []
      | None \<Rightarrow> distinct (s # edges (h s)) \<and> (\<forall>e \<in> set (edges (h s)). owner (h e) = None))"

definition wf_heap :: "heap \<Rightarrow> bool" where
  "wf_heap h \<longleftrightarrow> (\<forall>s. wf_scope h s)"

lemma wf_heapD: "wf_heap h \<Longrightarrow> wf_scope h s"
  by (simp add: wf_heap_def)

lemma upd_rc_simps [simp]:
  "owner (upd_rc h s r t) = owner (h t)" "edges (upd_rc h s r t) = edges (h t)"
  "sdone (upd_rc h s r t) = sdone (h t)" "sname (upd_rc h s r t) = sname (h t)"
  "refCnt (upd_rc h s r t) = refCnt (h t)" "spanID (upd_rc h s r t) = spanID (h t)"
  "rc (upd_rc h s r t) = (if t = s then r else rc (h t))"
  by (simp_all add: upd_rc_def)

lemma wf_scope_cong:
  "(\<And>t. owner (h' t) = owner (h t)) \<Longrightarrow> (\<And>t. edges (h' t) = edges (h t)) \<Longrightarrow>
   wf_scope h' s = wf_scope h s"
  by (simp add: wf_scope_def split: option.split)

lemma wf_heap_cong:
  "(\<And>t. owner (h' t) = owner (h t)) \<Longrightarrow> (\<And>t. edges (h' t) = edges (h t)) \<Longrightarrow>
   wf_heap h' = wf_heap h"
  by (simp add: wf_heap_def wf_scope_cong [of h' h])

lemma wf_upd_rc [simp]: "wf_heap (upd_rc h s r) = wf_heap h"
  by (rule wf_heap_cong) simp_all

lemma charged_cong:
  assumes "\<And>t. owner (h' t) = owner (h t)" and "\<And>t. edges (h' t) = edges (h t)"
  shows "charged h' s = charged h s"
proof (induction s rule: less_induct)
  case (less s)
  then show ?case
    by (simp add: charged.simps [of h'] charged.simps [of h] assms split: option.split)
qed

lemma charged_upd_rc [simp]: "charged (upd_rc h s r) t = charged h t"
  by (rule charged_cong) simp_all

lemma charged_span:
  "wf_heap h \<Longrightarrow> owner (h s) = Some ow \<Longrightarrow> ow < s \<and> charged h s = s # charged h ow"
  using wf_heapD [of h s] by (simp add: wf_scope_def charged.simps [of h s])

lemma charged_dag: "owner (h s) = None \<Longrightarrow> charged h s = s # edges (h s)"
  by (simp add: charged.simps)

lemma charged_members:
  assumes "wf_heap h" and "t \<in> set (charged h s)"
  shows "t \<le> s \<or> owner (h t) = None"
  using assms(2)
proof (induction s rule: less_induct)
  case (less s)
  show ?case
  proof (cases "owner (h s)")
    case None
    with less.prems wf_heapD [OF assms(1), of s] show ?thesis
      by (auto simp: charged_dag wf_scope_def)
  next
    case (Some ow)
    from charged_span [OF assms(1) Some] have "ow < s" "charged h s = s # charged h ow" by auto
    with less show ?thesis by fastforce
  qed
qed

lemma distinct_charged: "wf_heap h \<Longrightarrow> distinct (charged h s)"
proof (induction s rule: less_induct)
  case (less s)
  show ?case
  proof (cases "owner (h s)")
    case None
    with wf_heapD [OF less.prems, of s] show ?thesis
      by (simp add: charged_dag wf_scope_def)
  next
    case (Some ow)
    from charged_span [OF less.prems Some] have ow: "ow < s" "charged h s = s # charged h ow"
      by auto
    then have "s \<notin> set (charged h ow)"
      using charged_members [OF less.prems] Some by fastforce
    with ow less.IH [OF ow(1) less.prems] show ?thesis by simp
  qed
qed

lemma charged_Cons:
  assumes "wf_heap h"
  obtains ts where "charged h s = s # ts" "s \<notin> set ts" "distinct ts"
proof -
  obtain ts where "charged h s = s # ts" using charged.simps [of h s] by blast
  with distinct_charged [OF assms, of s] that show thesis by simp
qed

section \<open>The charging contract\<close>

text \<open>
  What the kinds of reservation and release share. \<^term>\<open>accepts f h t\<close>: the scope is open and its
  counters take the charge. The abstract specification of a public reservation is
  all-or-nothing over the constraint set: \<^term>\<open>charge_all\<close>, or an error and the store
  unchanged.
\<close>

definition accepts :: "(resources \<Rightarrow> rc_error + resources) \<Rightarrow> heap \<Rightarrow> sid \<Rightarrow> bool" where
  "accepts f h t \<longleftrightarrow> \<not> sdone (h t) \<and> \<not> isl (f (rc (h t)))"

definition charge_all ::
  "(resources \<Rightarrow> rc_error + resources) \<Rightarrow> heap \<Rightarrow> sid list \<Rightarrow> heap" where
  "charge_all f h ts = (\<lambda>t. if t \<in> set ts then (h t)\<lparr>rc := projr (f (rc (h t)))\<rparr> else h t)"

definition release_all :: "(resources \<Rightarrow> resources) \<Rightarrow> heap \<Rightarrow> sid list \<Rightarrow> heap" where
  "release_all g h ts = (\<lambda>t. if t \<in> set ts then (h t)\<lparr>rc := g (rc (h t))\<rparr> else h t)"

lemma charge_all_simps [simp]:
  "owner (charge_all f h ts t) = owner (h t)" "edges (charge_all f h ts t) = edges (h t)"
  "sdone (charge_all f h ts t) = sdone (h t)" "sname (charge_all f h ts t) = sname (h t)"
  "charge_all f h [] = h"
  by (simp_all add: charge_all_def)

lemma wf_charge_all [simp]: "wf_heap (charge_all f h ts) = wf_heap h"
  by (rule wf_heap_cong) simp_all

lemma charged_charge_all [simp]: "charged (charge_all f h ts) s = charged h s"
  by (rule charged_cong) simp_all

lemma charge_all_Cons:
  "e \<notin> set es \<Longrightarrow> f (rc (h e)) = Inr r \<Longrightarrow>
   charge_all f (upd_rc h e r) es = charge_all f h (e # es)"
  by (auto simp: charge_all_def upd_rc_def fun_eq_iff)

lemma accepts_upd_rc [simp]: "t \<noteq> s \<Longrightarrow> accepts f (upd_rc h s r) t = accepts f h t"
  by (simp add: accepts_def)

lemma accepts_Inr: "accepts f h t \<Longrightarrow> \<exists>r. f (rc (h t)) = Inr r"
  by (cases "f (rc (h t))") (auto simp: accepts_def)

locale releasing =
  fixes ret :: "resources \<Rightarrow> resources"
    and child_give :: "heap \<Rightarrow> sid \<Rightarrow> heap"
    and scope_give :: "heap \<Rightarrow> sid \<Rightarrow> heap"
  assumes child_give_eq: "child_give h s =
      (if sdone (h s) then h else upd_rc h s (ret (rc (h s))))"
    and scope_give_eq: "wf_heap h \<Longrightarrow> scope_give h s =
      (if sdone (h s) then h
       else case owner (h s) of
              Some ow \<Rightarrow> scope_give (upd_rc h s (ret (rc (h s)))) ow
            | None \<Rightarrow> fold (\<lambda>e h. child_give h e) (edges (h s)) (upd_rc h s (ret (rc (h s)))))"
begin

lemma child_give_fold_open:
  "distinct es \<Longrightarrow> \<forall>e \<in> set es. \<not> sdone (h e) \<Longrightarrow>
   fold (\<lambda>e h. child_give h e) es h = release_all ret h es"
proof (induction es arbitrary: h)
  case Nil
  then show ?case by (simp add: release_all_def)
next
  case (Cons e es)
  have "fold (\<lambda>e h. child_give h e) es (upd_rc h e (ret (rc (h e)))) =
      release_all ret (upd_rc h e (ret (rc (h e)))) es"
    using Cons by simp
  with Cons.prems show ?case
    by (auto simp: child_give_eq release_all_def upd_rc_def fun_eq_iff)
qed

lemma give_spec:
  assumes "wf_heap h" and "\<forall>t \<in> set (charged h s). \<not> sdone (h t)"
  shows "scope_give h s = release_all ret h (charged h s)"
  using assms
proof (induction s arbitrary: h rule: less_induct)
  case (less s)
  define h1 where "h1 = upd_rc h s (ret (rc (h s)))"
  obtain ts where ts: "charged h s = s # ts" "s \<notin> set ts" "distinct ts"
    using charged_Cons [OF less.prems(1)] by metis
  have open1: "\<not> sdone (h s)" "\<forall>t \<in> set ts. \<not> sdone (h1 t)"
    using less.prems(2) ts by (auto simp: h1_def)
  have "scope_give h s = release_all ret h1 ts"
  proof (cases "owner (h s)")
    case None
    then have "edges (h s) = ts" using ts(1) by (simp add: charged_dag)
    with child_give_fold_open [OF ts(3) open1(2)] open1 None less.prems(1) show ?thesis
      by (simp add: scope_give_eq [of h s] h1_def)
  next
    case (Some ow)
    from charged_span [OF less.prems(1) Some] ts(1) have ow: "ow < s" "charged h1 ow = ts"
      by (auto simp: h1_def)
    with less.IH [of ow h1] open1 less.prems(1) Some show ?thesis
      by (simp add: scope_give_eq [of h s] h1_def)
  qed
  also have "release_all ret h1 ts = release_all ret h (charged h s)"
    using ts(1,2) by (auto simp: release_all_def h1_def upd_rc_def fun_eq_iff)
  finally show ?case .
qed

lemma child_give_frame:
  "sdone (child_give h e t) = sdone (h t)" "edges (child_give h e t) = edges (h t)"
  "owner (child_give h e t) = owner (h t)"
  by (simp_all add: child_give_eq)

lemma fold_child_give_frame:
  "sdone (fold (\<lambda>e h. child_give h e) es h t) = sdone (h t)"
  by (induction es arbitrary: h) (simp_all add: child_give_frame)

lemma fold_child_give_rtrancl:
  assumes "\<And>h s. \<not> sdone (h s) \<Longrightarrow> R h (upd_rc h s (ret (rc (h s))))"
  shows "R\<^sup>*\<^sup>* h (fold (\<lambda>e h. child_give h e) es h)"
proof (induction es arbitrary: h)
  case Nil
  then show ?case by simp
next
  case (Cons e es)
  have "R\<^sup>*\<^sup>* h (child_give h e)" using assms by (auto simp: child_give_eq)
  with Cons [of "child_give h e"] show ?case by simp
qed

lemma scope_give_rtrancl:
  assumes give: "\<And>h s. \<not> sdone (h s) \<Longrightarrow> R h (upd_rc h s (ret (rc (h s))))"
  shows "wf_heap h \<Longrightarrow> R\<^sup>*\<^sup>* h (scope_give h s)"
proof (induction s arbitrary: h rule: less_induct)
  case (less s)
  let ?h1 = "upd_rc h s (ret (rc (h s)))"
  have "R\<^sup>*\<^sup>* ?h1 (case owner (h s) of
      Some ow \<Rightarrow> scope_give ?h1 ow | None \<Rightarrow> fold (\<lambda>e h. child_give h e) (edges (h s)) ?h1)"
    using less.IH [of _ ?h1] charged_span [of h s] less.prems fold_child_give_rtrancl [of R ?h1, OF give]
    by (auto split: option.split)
  then show ?case
    using give [of h s] scope_give_eq [OF less.prems, of s]
    by (cases "sdone (h s)") (auto intro: converse_rtranclp_into_rtranclp)
qed

end

locale charge = releasing ret child_give scope_give
  for ret :: "resources \<Rightarrow> resources"
    and child_give :: "heap \<Rightarrow> sid \<Rightarrow> heap"
    and scope_give :: "heap \<Rightarrow> sid \<Rightarrow> heap" +
  fixes chg :: "resources \<Rightarrow> rc_error + resources"
    and child_take :: "heap \<Rightarrow> sid \<Rightarrow> heap \<times> ScopeStat \<times> rc_error option"
    and scope_take :: "heap \<Rightarrow> sid \<Rightarrow> heap \<times> rc_error option"
  assumes ret_chg: "rc_nn r \<Longrightarrow> chg r = Inr r' \<Longrightarrow> ret r' = r"
    and child_take_eq: "child_take h s =
      (if sdone (h s) then (h, stat (rc (h s)), Some (wrapError h s ErrResourceScopeClosed))
       else case chg (rc (h s)) of
              Inl e \<Rightarrow> (h, stat (rc (h s)), Some (wrapError h s e))
            | Inr r \<Rightarrow> (upd_rc h s r, zero_stat, None))"
    and scope_take_eq: "scope_take h s =
      (if sdone (h s) then (h, Some (wrapError h s ErrResourceScopeClosed))
       else case chg (rc (h s)) of
              Inl e \<Rightarrow> (h, Some (wrapError h s e))
            | Inr r \<Rightarrow>
                (case (case owner (h s) of
                         Some ow \<Rightarrow> if ow < s then scope_take (upd_rc h s r) ow
                                    else (upd_rc h s r, Some ErrOwnerCycle)
                       | None \<Rightarrow> for_edges child_take child_give (upd_rc h s r) (edges (h s))) of
                   (h2, Some e) \<Rightarrow> (upd_rc h2 s (ret (rc (h2 s))), Some (wrapError h2 s e))
                 | (h2, None) \<Rightarrow> (h2, None)))"
begin

lemma child_take_accepts:
  "accepts chg h e \<Longrightarrow> \<exists>r. chg (rc (h e)) = Inr r \<and> child_take h e = (upd_rc h e r, zero_stat, None)"
  using accepts_Inr [of chg h e] by (auto simp: child_take_eq accepts_def)

lemma child_take_refuses:
  "\<not> accepts chg h e \<Longrightarrow> \<exists>st err. child_take h e = (h, st, Some err)"
  by (cases "chg (rc (h e))") (auto simp: child_take_eq accepts_def)

lemma reserve_edges_ok:
  "distinct es \<Longrightarrow> \<forall>e \<in> set es. accepts chg h e \<Longrightarrow>
   reserve_edges child_take h es n = (charge_all chg h es, n + length es, None)"
proof (induction es arbitrary: h n)
  case Nil
  then show ?case by simp
next
  case (Cons e es)
  from Cons.prems child_take_accepts [of h e] obtain r
    where r: "chg (rc (h e)) = Inr r" "child_take h e = (upd_rc h e r, zero_stat, None)" by auto
  have "\<forall>x \<in> set es. accepts chg (upd_rc h e r) x"
    using Cons.prems by (metis accepts_upd_rc distinct.simps(2) list.set_intros(2))
  with Cons r show ?case by (simp add: charge_all_Cons)
qed

lemma reserve_edges_fail:
  "distinct es \<Longrightarrow> \<not> (\<forall>e \<in> set es. accepts chg h e) \<Longrightarrow>
   \<exists>pre post err. es = pre @ post \<and> (\<forall>e \<in> set pre. accepts chg h e) \<and>
     reserve_edges child_take h es n = (charge_all chg h pre, n + length pre, Some err)"
proof (induction es arbitrary: h n)
  case Nil
  then show ?case by simp
next
  case (Cons e es)
  show ?case
  proof (cases "accepts chg h e")
    case False
    with child_take_refuses [OF False] show ?thesis
      by (intro exI [of _ "[]"] exI [of _ "e # es"]) auto
  next
    case True
    from child_take_accepts [OF True] obtain r
      where r: "chg (rc (h e)) = Inr r" "child_take h e = (upd_rc h e r, zero_stat, None)" by auto
    have eq: "accepts chg (upd_rc h e r) x = accepts chg h x" if "x \<in> set es" for x
      using that Cons.prems(1) by (metis accepts_upd_rc distinct.simps(2))
    with Cons.prems True have "\<not> (\<forall>x \<in> set es. accepts chg (upd_rc h e r) x)" by auto
    from Cons.IH [OF _ this, of "Suc n"] Cons.prems(1) obtain pre post err
      where pre: "es = pre @ post" "\<forall>x \<in> set pre. accepts chg (upd_rc h e r) x"
        "reserve_edges child_take (upd_rc h e r) es (Suc n) =
           (charge_all chg (upd_rc h e r) pre, Suc n + length pre, Some err)" by auto
    moreover have "charge_all chg (upd_rc h e r) pre = charge_all chg h (e # pre)"
      using pre(1) Cons.prems(1) r by (intro charge_all_Cons) auto
    ultimately show ?thesis
      using True r eq by (intro exI [of _ "e # pre"] exI [of _ post]) auto
  qed
qed

lemma give_back:
  "distinct es \<Longrightarrow> \<forall>e \<in> set es. accepts chg h e \<Longrightarrow> \<forall>e \<in> set es. rc_nn (rc (h e)) \<Longrightarrow>
   fold (\<lambda>e h. child_give h e) es (charge_all chg h es) = h"
proof (induction es)
  case Nil
  then show ?case by simp
next
  case (Cons e es)
  from Cons.prems accepts_Inr [of chg h e] obtain r where r: "chg (rc (h e)) = Inr r" by auto
  have "child_give (charge_all chg h (e # es)) e = charge_all chg h es"
    using Cons.prems r ret_chg [of "rc (h e)" r]
    by (auto simp: child_give_eq accepts_def charge_all_def upd_rc_def fun_eq_iff)
  with Cons show ?case by simp
qed

lemma for_edges_spec:
  assumes "distinct es" and "\<forall>e \<in> set es. rc_nn (rc (h e))"
  shows "if \<forall>e \<in> set es. accepts chg h e
    then for_edges child_take child_give h es = (charge_all chg h es, None)
    else \<exists>err. for_edges child_take child_give h es = (h, Some err)"
proof (cases "\<forall>e \<in> set es. accepts chg h e")
  case True
  with assms show ?thesis by (simp add: for_edges_def reserve_edges_ok)
next
  case False
  from reserve_edges_fail [OF assms(1) False, of 0] obtain pre post err
    where pre: "es = pre @ post" "\<forall>e \<in> set pre. accepts chg h e"
      "reserve_edges child_take h es 0 = (charge_all chg h pre, length pre, Some err)" by auto
  moreover have "fold (\<lambda>e h. child_give h e) pre (charge_all chg h pre) = h"
    using pre assms by (intro give_back) auto
  ultimately show ?thesis using False by (auto simp: for_edges_def)
qed

lemma take_spec:
  assumes "wf_heap h" and "\<forall>t \<in> set (charged h s). rc_nn (rc (h t))"
  shows "if \<forall>t \<in> set (charged h s). accepts chg h t
    then scope_take h s = (charge_all chg h (charged h s), None)
    else \<exists>err. scope_take h s = (h, Some err)"
  using assms
proof (induction s arbitrary: h rule: less_induct)
  case (less s)
  have s_in: "s \<in> set (charged h s)" by (subst charged.simps) simp
  show ?case
  proof (cases "accepts chg h s")
    case False
    then have "\<exists>err. scope_take h s = (h, Some err)"
      by (cases "chg (rc (h s))") (auto simp: scope_take_eq [of h s] accepts_def)
    with False s_in show ?thesis by auto
  next
    case True
    then obtain r where r: "chg (rc (h s)) = Inr r" using accepts_Inr by blast
    define h1 where "h1 = upd_rc h s r"
    have restore: "upd_rc h1 s (ret (rc (h1 s))) = h"
      using ret_chg [OF _ r] less.prems(2) s_in by (simp add: h1_def upd_rc_def)
    obtain ts where ts: "charged h s = s # ts" "s \<notin> set ts" "distinct ts"
      using charged_Cons [OF less.prems(1)] by metis
    have acc: "\<forall>t \<in> set ts. accepts chg h1 t = accepts chg h t"
      using ts(2) by (metis accepts_upd_rc h1_def)
    have nn: "\<forall>t \<in> set ts. rc_nn (rc (h1 t))"
      using less.prems(2) ts by (auto simp: h1_def)
    have chain: "if \<forall>t \<in> set ts. accepts chg h1 t
      then scope_take h s = (charge_all chg h1 ts, None)
      else \<exists>err. scope_take h s = (h, Some err)"
    proof (cases "owner (h s)")
      case None
      then have "edges (h s) = ts" using ts(1) by (simp add: charged_dag)
      with for_edges_spec [OF ts(3) nn] True r None restore show ?thesis
        by (auto simp: scope_take_eq [of h s] accepts_def split: if_splits simp flip: h1_def)
    next
      case (Some ow)
      from charged_span [OF less.prems(1) Some] ts(1) have ow: "ow < s" "charged h1 ow = ts"
        by (auto simp: h1_def)
      with less.IH [of ow h1] nn less.prems(1) True r Some restore show ?thesis
        by (auto simp: scope_take_eq [of h s] accepts_def h1_def split: if_splits)
    qed
    have eq: "charge_all chg h1 ts = charge_all chg h (charged h s)"
      using ts(1,2) r by (simp add: h1_def charge_all_Cons)
    show ?thesis using chain acc True ts(1) by (auto simp: eq)
  qed
qed

lemma give_take:
  assumes "wf_heap h" and "\<forall>t \<in> set (charged h s). rc_nn (rc (h t))"
    and "scope_take h s = (h', None)"
  shows "scope_give h' s = h"
proof -
  from take_spec [OF assms(1,2)] assms(3)
  have acc: "\<forall>t \<in> set (charged h s). accepts chg h t" and h': "h' = charge_all chg h (charged h s)"
    by (auto split: if_splits)
  have "scope_give h' s = release_all ret h' (charged h s)"
    using give_spec [of h' s] acc assms(1) by (auto simp: h' accepts_def)
  also have "\<dots> = h"
  proof
    fix t
    show "release_all ret h' (charged h s) t = h t"
    proof (cases "t \<in> set (charged h s)")
      case True
      then obtain r where "chg (rc (h t)) = Inr r" using acc accepts_Inr by blast
      with True assms(2) ret_chg show ?thesis
        by (simp add: h' release_all_def charge_all_def)
    qed (simp add: h' release_all_def charge_all_def)
  qed
  finally show ?thesis .
qed

end

text \<open>
  A reservation, successful or not, is a sequence of updates of single scopes, whatever
  relation \<open>R\<close> those updates are in: this is what interleaves with other goroutines.
\<close>

context charge begin

lemma reserve_edges_frame:
  "sdone (fst (reserve_edges child_take h es n) t) = sdone (h t)"
  by (induction es arbitrary: h n) (auto simp: child_take_eq split: sum.split)

lemma for_edges_frame: "sdone (fst (for_edges child_take child_give h es) t) = sdone (h t)"
  using reserve_edges_frame [of h es 0 t]
  by (auto simp: for_edges_def fold_child_give_frame split: prod.split option.split)

lemma reserve_edges_rtrancl:
  assumes "\<And>h s r. \<not> sdone (h s) \<Longrightarrow> chg (rc (h s)) = Inr r \<Longrightarrow> R h (upd_rc h s r)"
  shows "R\<^sup>*\<^sup>* h (fst (reserve_edges child_take h es n))"
proof (induction es arbitrary: h n)
  case Nil
  then show ?case by simp
next
  case (Cons e es)
  show ?case
  proof (cases "accepts chg h e")
    case True
    then obtain r where r: "chg (rc (h e)) = Inr r" "child_take h e = (upd_rc h e r, zero_stat, None)"
      using child_take_accepts by blast
    have "R h (upd_rc h e r)" using True r assms by (simp add: accepts_def)
    with Cons.IH [of "upd_rc h e r" "Suc n"] r show ?thesis
      by (simp add: converse_rtranclp_into_rtranclp)
  next
    case False
    then show ?thesis using child_take_refuses [of h e] by auto
  qed
qed

lemma reserve_edges_count:
  "reserve_edges child_take h es n = (h', m, err) \<Longrightarrow> n \<le> m \<and> (n < m \<longrightarrow> (\<exists>r0 r1. chg r0 = Inr r1))"
proof (induction es arbitrary: h n)
  case Nil
  then show ?case by simp
next
  case (Cons e es)
  show ?case
  proof (cases "accepts chg h e")
    case True
    then obtain r where r: "chg (rc (h e)) = Inr r" "child_take h e = (upd_rc h e r, zero_stat, None)"
      using child_take_accepts by blast
    with Cons.IH [of "upd_rc h e r" "Suc n"] Cons.prems show ?thesis by auto
  next
    case False
    then show ?thesis using child_take_refuses [of h e] Cons.prems by auto
  qed
qed

lemma for_edges_rtrancl:
  assumes take: "\<And>h s r. \<not> sdone (h s) \<Longrightarrow> chg (rc (h s)) = Inr r \<Longrightarrow> R h (upd_rc h s r)"
    and give: "\<And>h s r0 r1. chg r0 = Inr r1 \<Longrightarrow> \<not> sdone (h s) \<Longrightarrow> R h (upd_rc h s (ret (rc (h s))))"
  shows "R\<^sup>*\<^sup>* h (fst (for_edges child_take child_give h es))"
proof -
  obtain h' m err where e: "reserve_edges child_take h es 0 = (h', m, err)"
    by (metis prod_cases3)
  have 1: "R\<^sup>*\<^sup>* h h'"
    using reserve_edges_rtrancl [of R h es 0] take e by simp
  have 2: "R\<^sup>*\<^sup>* h' (fold (\<lambda>e h. child_give h e) (List.take m es) h')"
  proof (cases "m = 0")
    case False
    then obtain r0 r1 where "chg r0 = Inr r1" using reserve_edges_count [OF e] by auto
    with give show ?thesis by (intro fold_child_give_rtrancl) blast
  qed simp
  show ?thesis
    using 1 rtranclp_trans [OF 1 2] by (cases err) (simp_all add: for_edges_def e)
qed

lemma scope_take_frame: "sdone (fst (scope_take h s) t) = sdone (h t)"
proof (induction s arbitrary: h rule: less_induct)
  case (less s)
  have "sdone (fst (case owner (h s) of
      Some ow \<Rightarrow> if ow < s then scope_take (upd_rc h s r) ow else (upd_rc h s r, Some ErrOwnerCycle)
    | None \<Rightarrow> for_edges child_take child_give (upd_rc h s r) (edges (h s))) t) = sdone (h t)" for r
    using less [of _ "upd_rc h s r"] for_edges_frame [of "upd_rc h s r" "edges (h s)"]
    by (simp split: option.split)
  then show ?case
    by (subst scope_take_eq) (auto split: sum.split prod.split option.split, (metis fst_conv)+)
qed

lemma scope_take_rtrancl:
  assumes take: "\<And>h s r. \<not> sdone (h s) \<Longrightarrow> chg (rc (h s)) = Inr r \<Longrightarrow> R h (upd_rc h s r)"
    and give: "\<And>h s r0 r1. chg r0 = Inr r1 \<Longrightarrow> \<not> sdone (h s) \<Longrightarrow> R h (upd_rc h s (ret (rc (h s))))"
  shows "R\<^sup>*\<^sup>* h (fst (scope_take h s))"
proof (induction s arbitrary: h rule: less_induct)
  case (less s)
  show ?case
  proof (cases "accepts chg h s")
    case False
    then show ?thesis
      by (cases "chg (rc (h s))") (auto simp: scope_take_eq [of h s] accepts_def)
  next
    case True
    then obtain r where r: "chg (rc (h s)) = Inr r" "\<not> sdone (h s)"
      using accepts_Inr [OF True] by (auto simp: accepts_def)
    define X where "X = (case owner (h s) of
        Some ow \<Rightarrow> if ow < s then scope_take (upd_rc h s r) ow else (upd_rc h s r, Some ErrOwnerCycle)
      | None \<Rightarrow> for_edges child_take child_give (upd_rc h s r) (edges (h s)))"
    have "R h (upd_rc h s r)" using take r by simp
    moreover have "R\<^sup>*\<^sup>* (upd_rc h s r) (fst X)"
      using less [of _ "upd_rc h s r"] for_edges_rtrancl [of R "upd_rc h s r" "edges (h s)", OF take give]
      by (auto simp: X_def split: option.split)
    ultimately have X: "R\<^sup>*\<^sup>* h (fst X)" by (rule converse_rtranclp_into_rtranclp)
    have "\<not> sdone (fst X s)"
      using r(2) scope_take_frame [of "upd_rc h s r"] for_edges_frame [of "upd_rc h s r" "edges (h s)"]
      by (simp add: X_def split: option.split)
    then have "R (fst X) (upd_rc (fst X) s (ret (rc (fst X s))))" using give r(1) by blast
    then have "R\<^sup>*\<^sup>* h (upd_rc (fst X) s (ret (rc (fst X s))))" using X by (rule rtranclp.rtrancl_into_rtrancl [rotated])
    with X show ?thesis
      using r by (cases X; cases "snd X") (simp_all add: scope_take_eq [of h s] flip: X_def)
  qed
qed

end

subsection \<open>Memory, streams and connections satisfy it\<close>

interpretation mem: charge "\<lambda>r. releaseMemory r sz" "\<lambda>h s. ReleaseMemoryForChild h s sz"
  "\<lambda>h s. ReleaseMemory h s sz" "\<lambda>r. reserveMemory r sz prio"
  "\<lambda>h s. ReserveMemoryForChild h s sz prio" "\<lambda>h s. ReserveMemory h s sz prio" for sz prio
proof
  fix h s
  show "ReserveMemory h s sz prio =
    (if sdone (h s) then (h, Some (wrapError h s ErrResourceScopeClosed))
     else case reserveMemory (rc (h s)) sz prio of
            Inl e \<Rightarrow> (h, Some (wrapError h s e))
          | Inr r \<Rightarrow>
              (case (case owner (h s) of
                       Some ow \<Rightarrow> if ow < s then ReserveMemory (upd_rc h s r) ow sz prio
                                  else (upd_rc h s r, Some ErrOwnerCycle)
                     | None \<Rightarrow> for_edges (\<lambda>h s. ReserveMemoryForChild h s sz prio)
                                 (\<lambda>h s. ReleaseMemoryForChild h s sz) (upd_rc h s r) (edges (h s))) of
                 (h2, Some e) \<Rightarrow>
                   (upd_rc h2 s (releaseMemory (rc (h2 s)) sz), Some (wrapError h2 s e))
               | (h2, None) \<Rightarrow> (h2, None)))"
    by (subst ReserveMemory.simps)
       (simp add: reserveMemoryForEdges_def split: sum.split option.split)
  assume "wf_heap h"
  then show "ReleaseMemory h s sz =
    (if sdone (h s) then h
     else case owner (h s) of
            Some ow \<Rightarrow> ReleaseMemory (upd_rc h s (releaseMemory (rc (h s)) sz)) ow sz
          | None \<Rightarrow> fold (\<lambda>e h. ReleaseMemoryForChild h e sz) (edges (h s))
                      (upd_rc h s (releaseMemory (rc (h s)) sz)))"
    using charged_span [of h s]
    by (subst ReleaseMemory.simps) (simp add: releaseMemoryForEdges_def split: option.split)
qed (auto simp: ReserveMemoryForChild_def ReleaseMemoryForChild_def release_reserveMemory)

interpretation strm: charge "\<lambda>r. removeStream r dir" "\<lambda>h s. RemoveStreamForChild h s dir"
  "\<lambda>h s. RemoveStream h s dir" "\<lambda>r. addStream r dir"
  "\<lambda>h s. AddStreamForChild h s dir" "\<lambda>h s. AddStream h s dir" for dir
proof
  fix h s
  show "AddStream h s dir =
    (if sdone (h s) then (h, Some (wrapError h s ErrResourceScopeClosed))
     else case addStream (rc (h s)) dir of
            Inl e \<Rightarrow> (h, Some (wrapError h s e))
          | Inr r \<Rightarrow>
              (case (case owner (h s) of
                       Some ow \<Rightarrow> if ow < s then AddStream (upd_rc h s r) ow dir
                                  else (upd_rc h s r, Some ErrOwnerCycle)
                     | None \<Rightarrow> for_edges (\<lambda>h s. AddStreamForChild h s dir)
                                 (\<lambda>h s. RemoveStreamForChild h s dir) (upd_rc h s r) (edges (h s))) of
                 (h2, Some e) \<Rightarrow>
                   (upd_rc h2 s (removeStream (rc (h2 s)) dir), Some (wrapError h2 s e))
               | (h2, None) \<Rightarrow> (h2, None)))"
    by (subst AddStream.simps)
       (simp add: addStreamForEdges_def split: sum.split option.split)
  assume "wf_heap h"
  then show "RemoveStream h s dir =
    (if sdone (h s) then h
     else case owner (h s) of
            Some ow \<Rightarrow> RemoveStream (upd_rc h s (removeStream (rc (h s)) dir)) ow dir
          | None \<Rightarrow> fold (\<lambda>e h. RemoveStreamForChild h e dir) (edges (h s))
                      (upd_rc h s (removeStream (rc (h s)) dir)))"
    using charged_span [of h s]
    by (subst RemoveStream.simps) (simp add: removeStreamForEdges_def split: option.split)
qed (auto simp: AddStreamForChild_def RemoveStreamForChild_def addStream_eq removeStream_eq
    remove_addStreams split: if_splits)

lemma fold_RemoveConnForChild_frame:
  "edges (fold (\<lambda>e h. RemoveConnForChild h e dir usefd) es h t) = edges (h t)"
  by (induction es arbitrary: h) (simp_all add: RemoveConnForChild_def)

lemma edges_RemoveConn [simp]: "edges (RemoveConn h s dir usefd t) = edges (h t)"
proof (induction h s dir usefd arbitrary: t rule: RemoveConn.induct)
  case (1 h s dir usefd)
  then show ?case
    by (subst RemoveConn.simps)
       (auto simp: removeConnForEdges_def Let_def fold_RemoveConnForChild_frame split: option.split)
qed

interpretation conn: charge "\<lambda>r. removeConn r dir usefd" "\<lambda>h s. RemoveConnForChild h s dir usefd"
  "\<lambda>h s. RemoveConn h s dir usefd" "\<lambda>r. addConn r dir usefd"
  "\<lambda>h s. AddConnForChild h s dir usefd" "\<lambda>h s. AddConn h s dir usefd" for dir usefd
proof
  fix h s
  show "AddConn h s dir usefd =
    (if sdone (h s) then (h, Some (wrapError h s ErrResourceScopeClosed))
     else case addConn (rc (h s)) dir usefd of
            Inl e \<Rightarrow> (h, Some (wrapError h s e))
          | Inr r \<Rightarrow>
              (case (case owner (h s) of
                       Some ow \<Rightarrow> if ow < s then AddConn (upd_rc h s r) ow dir usefd
                                  else (upd_rc h s r, Some ErrOwnerCycle)
                     | None \<Rightarrow> for_edges (\<lambda>h s. AddConnForChild h s dir usefd)
                                 (\<lambda>h s. RemoveConnForChild h s dir usefd) (upd_rc h s r) (edges (h s))) of
                 (h2, Some e) \<Rightarrow>
                   (upd_rc h2 s (removeConn (rc (h2 s)) dir usefd), Some (wrapError h2 s e))
               | (h2, None) \<Rightarrow> (h2, None)))"
    by (subst AddConn.simps)
       (simp add: addConnForEdges_def split: sum.split option.split)
  assume wf: "wf_heap h"
  then have "owner (h s) = Some ow \<Longrightarrow> edges (h s) = []" for ow
    using wf_heapD [of h s] by (simp add: wf_scope_def)
  with wf show "RemoveConn h s dir usefd =
    (if sdone (h s) then h
     else case owner (h s) of
            Some ow \<Rightarrow> RemoveConn (upd_rc h s (removeConn (rc (h s)) dir usefd)) ow dir usefd
          | None \<Rightarrow> fold (\<lambda>e h. RemoveConnForChild h e dir usefd) (edges (h s))
                      (upd_rc h s (removeConn (rc (h s)) dir usefd)))"
    using charged_span [of h s]
    by (subst RemoveConn.simps) (simp add: removeConnForEdges_def Let_def split: option.split)
qed (auto simp: AddConnForChild_def RemoveConnForChild_def addConn_eq removeConn_eq
    remove_addConns split: if_splits)

end
