(* ===== verification/Rcmgr_Interleaving.thy ===== *)
theory Rcmgr_Interleaving
  imports Rcmgr_Scope
begin

text \<open>
  Concurrent use of the scopes of \<^verbatim>\<open>scope.go\<close>: the step relation of the mutex-protected
  sections, the limit invariant along every interleaving, and that each public operation
  is a sequence of such steps. Then the closing of a scope and the transfer of a whole
  statistic between scopes.
\<close>

section \<open>Interleaved execution\<close>

text \<open>
  One step is one mutex-protected section of one scope, so every interleaving of the
  public operations of several goroutines is a sequence of steps. Amounts are 64-bit and,
  for a release, not negative; new scopes have an admissible limit or inherit that of their
  owner. The relation allows more than the code does, and is meant for safety properties:
  \<open>step_book\<close> changes anything of a scope but its counters (reference counts, span
  numbers, edges), and \<open>step_new\<close> and \<open>step_span\<close> put a new scope in any place of the
  store.
\<close>

inductive scope_step :: "heap \<Rightarrow> heap \<Rightarrow> bool" where
  step_reserve: "\<not> sdone (h s) \<Longrightarrow> in64 sz \<Longrightarrow> reserveMemory (rc (h s)) sz prio = Inr r \<Longrightarrow>
    scope_step h (upd_rc h s r)"
| step_release: "\<not> sdone (h s) \<Longrightarrow> in64 sz \<Longrightarrow> 0 \<le> sz \<Longrightarrow>
    scope_step h (upd_rc h s (releaseMemory (rc (h s)) sz))"
| step_addStream: "\<not> sdone (h s) \<Longrightarrow> addStream (rc (h s)) dir = Inr r \<Longrightarrow>
    scope_step h (upd_rc h s r)"
| step_removeStream: "\<not> sdone (h s) \<Longrightarrow>
    scope_step h (upd_rc h s (removeStream (rc (h s)) dir))"
| step_addConn: "\<not> sdone (h s) \<Longrightarrow> addConn (rc (h s)) dir usefd = Inr r \<Longrightarrow>
    scope_step h (upd_rc h s r)"
| step_removeConn: "\<not> sdone (h s) \<Longrightarrow>
    scope_step h (upd_rc h s (removeConn (rc (h s)) dir usefd))"
| step_reserveChild: "in64 (StatMemory st) \<Longrightarrow> ReserveForChild h s st = (h', err) \<Longrightarrow>
    0 \<le> NumStreamsInbound st \<Longrightarrow> 0 \<le> NumStreamsOutbound st \<Longrightarrow> 0 \<le> NumConnsInbound st \<Longrightarrow>
    0 \<le> NumConnsOutbound st \<Longrightarrow> 0 \<le> NumFD st \<Longrightarrow> scope_step h h'"
| step_releaseChild: "in64 (StatMemory st) \<Longrightarrow> 0 \<le> StatMemory st \<Longrightarrow>
    0 \<le> NumStreamsInbound st \<Longrightarrow> 0 \<le> NumStreamsOutbound st \<Longrightarrow> 0 \<le> NumConnsInbound st \<Longrightarrow>
    0 \<le> NumConnsOutbound st \<Longrightarrow> 0 \<le> NumFD st \<Longrightarrow> scope_step h (ReleaseForChild h s st)"
| step_close: "scope_step h (h(s := (h s)\<lparr>rc := new_resources (limit (rc (h s))), sdone := True\<rparr>))"
| step_book: "rc c = rc (h s) \<Longrightarrow> scope_step h (h(s := c))"
| step_new: "lim_ok (limit (rc c)) \<Longrightarrow> rc c = new_resources (limit (rc c)) \<Longrightarrow>
    scope_step h (h(s := c))"
| step_span: "rc c = new_resources (limit (rc (h ow))) \<Longrightarrow> scope_step h (h(s := c))"

definition heap_ok :: "heap \<Rightarrow> bool" where
  "heap_ok h \<longleftrightarrow> (\<forall>s. lim_ok (limit (rc (h s))) \<and> rc_ok (rc (h s)))"

definition stat_nn :: "ScopeStat \<Rightarrow> bool" where
  "stat_nn st \<longleftrightarrow> in64 (StatMemory st) \<and> 0 \<le> StatMemory st \<and>
     0 \<le> NumStreamsInbound st \<and> 0 \<le> NumStreamsOutbound st \<and> 0 \<le> NumConnsInbound st \<and>
     0 \<le> NumConnsOutbound st \<and> 0 \<le> NumFD st"

lemma heap_okI_upd [inv_intros]:
  "heap_ok h \<Longrightarrow> limit r = limit (rc (h s)) \<Longrightarrow> rc_ok r \<Longrightarrow> heap_ok (upd_rc h s r)"
  by (simp add: heap_ok_def)

lemma reserveMemory_nonneg: "reserveMemory r sz prio = Inr r' \<Longrightarrow> 0 \<le> sz"
  by (auto simp: reserveMemory_Inr_iff checkMemory_def Let_def split: if_splits)

lemma release_stat_ok:
  "rc_ok r \<Longrightarrow> lim_ok (limit r) \<Longrightarrow> stat_nn st \<Longrightarrow>
   rc_ok (release_stat r st) \<and> limit (release_stat r st) = limit r"
  unfolding release_stat_def stat_nn_def
  by (intro conjI removeConns_rc_ok removeStreams_rc_ok releaseMemory_rc_ok) simp_all

lemma ReserveForChild_ok:
  assumes h: "heap_ok h" and st: "in64 (StatMemory st)" "0 \<le> NumStreamsInbound st"
    "0 \<le> NumStreamsOutbound st" "0 \<le> NumConnsInbound st" "0 \<le> NumConnsOutbound st" "0 \<le> NumFD st"
    and e: "ReserveForChild h s st = (h', err)"
  shows "heap_ok h'"
proof -
  let ?r = "rc (h s)" and ?m = "StatMemory st"
  have hs: "rc_ok ?r" "lim_ok (limit ?r)" using h by (simp_all add: heap_ok_def)
  have 1: "rc_ok r1 \<and> limit r1 = limit ?r \<and> 0 \<le> ?m" if "reserveMemory ?r ?m 255 = Inr r1" for r1
    using reserveMemory_rc_ok [OF hs st(1) that] reserveMemory_limit [OF that]
      reserveMemory_nonneg [OF that] by simp
  have 2: "rc_ok r2 \<and> limit r2 = limit r1"
    if "rc_ok r1" "addStreams r1 (NumStreamsInbound st) (NumStreamsOutbound st) = Inr r2" for r1 r2
    using addStreams_rc_ok [OF that(1) st(2,3) that(2)] addStreams_limit [OF that(2)] by simp
  have 3: "rc_ok r3 \<and> limit r3 = limit r2"
    if "rc_ok r2" "addConns r2 (NumConnsInbound st) (NumConnsOutbound st) (NumFD st) = Inr r3" for r2 r3
    using addConns_rc_ok [OF that(1) st(4-6) that(2)] addConns_limit [OF that(2)] by simp
  have rel: "rc_ok (releaseMemory r ?m)" if "rc_ok r" "limit r = limit ?r" "0 \<le> ?m" for r
    using that hs(2) st(1) by (simp add: releaseMemory_rc_ok)
  note defs = e [unfolded ReserveForChild_def]
  show ?thesis
  proof (cases "sdone (h s)")
    case True
    then show ?thesis using defs h by simp
  next
    case op: False
    show ?thesis
    proof (cases "reserveMemory ?r ?m 255")
      case (Inl x)
      then show ?thesis using defs h op by simp
    next
      case r1: (Inr r1)
      show ?thesis
      proof (cases "addStreams r1 (NumStreamsInbound st) (NumStreamsOutbound st)")
        case (Inl x)
        then have "h' = upd_rc h s (releaseMemory r1 ?m)" using defs op r1 by simp
        then show ?thesis using 1 [OF r1] rel [of r1] by (simp add: heap_okI_upd [OF h])
      next
        case r2: (Inr r2)
        have k2: "rc_ok r2" "limit r2 = limit ?r" "0 \<le> ?m" using 1 [OF r1] 2 [OF _ r2] by simp_all
        show ?thesis
        proof (cases "addConns r2 (NumConnsInbound st) (NumConnsOutbound st) (NumFD st)")
          case (Inl x)
          then have "h' = upd_rc h s (removeStreams (releaseMemory r2 ?m)
              (NumStreamsInbound st) (NumStreamsOutbound st))" using defs op r1 r2 by simp
          then show ?thesis
            using k2 by (simp add: heap_okI_upd [OF h] removeStreams_rc_ok rel st)
        next
          case (Inr r3)
          then have "h' = upd_rc h s r3" using defs op r1 r2 by simp
          then show ?thesis using 3 [OF k2(1) Inr] k2 by (simp add: heap_okI_upd [OF h])
        qed
      qed
    qed
  qed
qed

lemma addStream_ok:
  "rc_ok r \<Longrightarrow> addStream r dir = Inr r' \<Longrightarrow> rc_ok r' \<and> limit r' = limit r"
  unfolding addStream_eq by (frule addStreams_rc_ok, simp_all add: addStreams_limit)

lemma addConn_ok:
  "rc_ok r \<Longrightarrow> addConn r dir usefd = Inr r' \<Longrightarrow> rc_ok r' \<and> limit r' = limit r"
  unfolding addConn_eq by (frule addConns_rc_ok, simp_all add: addConns_limit)

lemma removeStream_ok:
  "rc_ok r \<Longrightarrow> rc_ok (removeStream r dir) \<and> limit (removeStream r dir) = limit r"
  unfolding removeStream_eq by (simp add: removeStreams_rc_ok)

lemma removeConn_ok:
  "rc_ok r \<Longrightarrow> rc_ok (removeConn r dir usefd) \<and> limit (removeConn r dir usefd) = limit r"
  unfolding removeConn_eq by (simp add: removeConns_rc_ok)

lemma heap_okD: "heap_ok h \<Longrightarrow> rc_ok (rc (h s))" "heap_ok h \<Longrightarrow> lim_ok (limit (rc (h s)))"
  by (simp_all add: heap_ok_def)

lemma scope_step_ok:
  assumes "scope_step h h'" and ok: "heap_ok h"
  shows "heap_ok h'"
  using assms(1)
proof cases
  case (step_reserve s sz prio r)
  with reserveMemory_rc_ok [OF heap_okD [OF ok] step_reserve(3,4)] reserveMemory_limit
  show ?thesis by (simp add: heap_okI_upd [OF ok])
next
  case (step_release s sz)
  with releaseMemory_rc_ok [OF heap_okD [OF ok] step_release(4,3)]
  show ?thesis by (simp add: heap_okI_upd [OF ok])
next
  case (step_addStream s dir r)
  with addStream_ok [OF heap_okD(1) [OF ok] step_addStream(3)]
  show ?thesis by (simp add: heap_okI_upd [OF ok])
next
  case (step_removeStream s dir)
  with removeStream_ok [OF heap_okD(1) [OF ok]]
  show ?thesis by (simp add: heap_okI_upd [OF ok])
next
  case (step_addConn s dir usefd r)
  with addConn_ok [OF heap_okD(1) [OF ok] step_addConn(3)]
  show ?thesis by (simp add: heap_okI_upd [OF ok])
next
  case (step_removeConn s dir usefd)
  with removeConn_ok [OF heap_okD(1) [OF ok]]
  show ?thesis by (simp add: heap_okI_upd [OF ok])
next
  case (step_reserveChild st s err)
  then show ?thesis using ReserveForChild_ok [OF ok] by simp
next
  case (step_releaseChild st s)
  then have "stat_nn st" by (simp add: stat_nn_def)
  with step_releaseChild release_stat_ok [OF heap_okD [OF ok]] show ?thesis
    by (simp add: ReleaseForChild_def heap_okI_upd [OF ok] ok)
next
  case (step_close s)
  have "limit (new_resources l) = l" for l by (simp add: new_resources_def)
  with step_close rc_ok_new [OF heap_okD(2) [OF ok]] ok show ?thesis by (simp add: heap_ok_def)
next
  case (step_book c s)
  with ok show ?thesis by (simp add: heap_ok_def)
next
  case (step_new c s)
  have "rc_ok (rc c)" using rc_ok_new [OF step_new(2)] step_new(3) by simp
  with step_new(1,2) ok show ?thesis by (simp add: heap_ok_def)
next
  case (step_span c ow s)
  have "limit (rc c) = limit (rc (h ow))" by (simp add: step_span(2) new_resources_def)
  moreover have "rc_ok (rc c)" using rc_ok_new [OF heap_okD(2) [OF ok]] step_span(2) by simp
  ultimately show ?thesis using step_span(1) ok by (simp add: heap_ok_def)
qed

lemma scope_steps_ok: "scope_step\<^sup>*\<^sup>* h h' \<Longrightarrow> heap_ok h \<Longrightarrow> heap_ok h'"
  by (induction rule: rtranclp_induct) (auto intro: scope_step_ok)

section \<open>The public operations are sequences of steps\<close>

text \<open>\<^term>\<open>same_shape\<close>: only counters differ.\<close>

definition same_shape :: "heap \<Rightarrow> heap \<Rightarrow> bool" where
  "same_shape h h' \<longleftrightarrow> (\<forall>t. owner (h' t) = owner (h t) \<and> edges (h' t) = edges (h t) \<and>
     sdone (h' t) = sdone (h t) \<and> sname (h' t) = sname (h t))"

lemma same_shape_refl [simp]: "same_shape h h"
  by (simp add: same_shape_def)

lemma same_shape_upd [simp]: "same_shape h (upd_rc h s r)"
  by (simp add: same_shape_def)

lemma same_shape_rtrancl: "same_shape\<^sup>*\<^sup>* h h' \<Longrightarrow> same_shape h h'"
  by (induction rule: rtranclp_induct) (auto simp: same_shape_def)

lemma same_shape_wf: "same_shape h h' \<Longrightarrow> wf_heap h' = wf_heap h"
  by (rule wf_heap_cong) (simp_all add: same_shape_def)

lemma take_shape:
  "same_shape h (fst (ReserveMemory h s sz prio))" "same_shape h (fst (AddStream h s dir))"
  "same_shape h (fst (AddConn h s dir usefd))"
  by (rule same_shape_rtrancl, rule mem.scope_take_rtrancl strm.scope_take_rtrancl
      conn.scope_take_rtrancl; simp)+

lemma give_shape:
  "wf_heap h \<Longrightarrow> same_shape h (ReleaseMemory h s sz)" "wf_heap h \<Longrightarrow> same_shape h (RemoveStream h s dir)"
  "wf_heap h \<Longrightarrow> same_shape h (RemoveConn h s dir usefd)"
  by (rule same_shape_rtrancl, rule mem.scope_give_rtrancl strm.scope_give_rtrancl
      conn.scope_give_rtrancl; simp)+

lemma ReserveMemory_steps: "in64 sz \<Longrightarrow> scope_step\<^sup>*\<^sup>* h (fst (ReserveMemory h s sz prio))"
  by (rule mem.scope_take_rtrancl) (auto intro: step_reserve step_release reserveMemory_nonneg)

lemma AddStream_steps: "scope_step\<^sup>*\<^sup>* h (fst (AddStream h s dir))"
  by (rule strm.scope_take_rtrancl) (auto intro: step_addStream step_removeStream)

lemma AddConn_steps: "scope_step\<^sup>*\<^sup>* h (fst (AddConn h s dir usefd))"
  by (rule conn.scope_take_rtrancl) (auto intro: step_addConn step_removeConn)

lemma ReleaseMemory_steps:
  "wf_heap h \<Longrightarrow> in64 sz \<Longrightarrow> 0 \<le> sz \<Longrightarrow> scope_step\<^sup>*\<^sup>* h (ReleaseMemory h s sz)"
  by (rule mem.scope_give_rtrancl) (auto intro: step_release)

lemma RemoveStream_steps: "wf_heap h \<Longrightarrow> scope_step\<^sup>*\<^sup>* h (RemoveStream h s dir)"
  by (rule strm.scope_give_rtrancl) (auto intro: step_removeStream)

lemma RemoveConn_steps: "wf_heap h \<Longrightarrow> scope_step\<^sup>*\<^sup>* h (RemoveConn h s dir usefd)"
  by (rule conn.scope_give_rtrancl) (auto intro: step_removeConn)

lemma fold_steps:
  assumes "\<And>e h. R\<^sup>*\<^sup>* h (f e h)"
  shows "R\<^sup>*\<^sup>* h (fold f es h)"
proof (induction es arbitrary: h)
  case (Cons e es)
  with rtranclp_trans [OF assms Cons] show ?case by simp
qed simp

lemma ReleaseForChild_step: "stat_nn st \<Longrightarrow> scope_step h (ReleaseForChild h s st)"
  by (simp add: stat_nn_def step_releaseChild)

lemma DecRef_step: "scope_step h (DecRef h s)" and IncRef_step: "scope_step h (IncRef h s)"
  by (simp_all add: DecRef_def IncRef_def step_book)

lemma ReleaseResources_eq:
  "ReleaseResources h s st =
     (if sdone (h s) then h
      else case owner (h s) of
             Some ow \<Rightarrow> if ow < s then ReleaseResources (ReleaseForChild h s st) ow st
                        else ReleaseForChild h s st
           | None \<Rightarrow> fold (\<lambda>e h. ReleaseForChild h e st) (edges (h s)) (ReleaseForChild h s st))"
  by (subst ReleaseResources.simps) (auto simp: ReleaseForChild_def Let_def split: option.split)

lemma ReleaseResources_rtrancl:
  assumes "\<And>h s. R h (ReleaseForChild h s st)"
  shows "R\<^sup>*\<^sup>* h (ReleaseResources h s st)"
proof (induction s arbitrary: h rule: less_induct)
  case (less s)
  have "R\<^sup>*\<^sup>* (ReleaseForChild h s st) (case owner (h s) of
      Some ow \<Rightarrow> if ow < s then ReleaseResources (ReleaseForChild h s st) ow st
                 else ReleaseForChild h s st
    | None \<Rightarrow> fold (\<lambda>e h. ReleaseForChild h e st) (edges (h s)) (ReleaseForChild h s st))"
    using less [of _ "ReleaseForChild h s st"]
      fold_steps [of R "\<lambda>e h. ReleaseForChild h e st", OF r_into_rtranclp [of R, OF assms]]
    by (auto split: option.split)
  with assms [of h s] show ?case
    by (subst ReleaseResources_eq) (auto intro: converse_rtranclp_into_rtranclp)
qed

lemma zero_counters:
  "r\<lparr>nstreamsIn := 0, nstreamsOut := 0, nconnsIn := 0, nconnsOut := 0, nfd := 0, memory := 0\<rparr> =
   new_resources (limit r)"
  by (simp add: new_resources_def)

lemma doneUnlocked_rtrancl:
  assumes rel: "\<And>h e. R h (ReleaseForChild h e (stat (rc (h0 s))))" and dec: "\<And>h e. R h (DecRef h e)"
    and clos: "\<And>h. R h (h(s := (h s)\<lparr>rc := new_resources (limit (rc (h s))), sdone := True\<rparr>))"
  shows "R\<^sup>*\<^sup>* h0 (doneUnlocked h0 s)"
proof (cases "sdone (h0 s)")
  case False
  let ?st = "stat (rc (h0 s))"
  define h1 where "h1 = (case owner (h0 s) of
      Some ow \<Rightarrow> DecRef (ReleaseResources h0 ow ?st) ow
    | None \<Rightarrow> fold (\<lambda>e h. DecRef (ReleaseForChild h e ?st) e) (edges (h0 s)) h0)"
  have one: "R\<^sup>*\<^sup>* h (DecRef (ReleaseForChild h e ?st) e)" for h e
    using rel dec by (meson rtranclp.rtrancl_into_rtrancl r_into_rtranclp)
  have "R\<^sup>*\<^sup>* h0 (DecRef (ReleaseResources h0 ow ?st) ow)" for ow
    using ReleaseResources_rtrancl [of R ?st h0 ow, OF rel] dec [of "ReleaseResources h0 ow ?st" ow]
    by simp
  then have "R\<^sup>*\<^sup>* h0 h1"
    using fold_steps [of R "\<lambda>e h. DecRef (ReleaseForChild h e ?st) e", OF one]
    by (auto simp: h1_def split: option.split)
  moreover have "doneUnlocked h0 s =
      h1(s := (h1 s)\<lparr>rc := new_resources (limit (rc (h1 s))), sdone := True\<rparr>)"
    using False by (simp add: doneUnlocked_def Let_def zero_counters flip: h1_def)
  ultimately show ?thesis using clos by (simp add: rtranclp.rtrancl_into_rtrancl)
qed (simp add: doneUnlocked_def)

section \<open>Runs of the scope API\<close>

text \<open>
  The public operations as data, so that a whole run is a list. \<^term>\<open>op_ok\<close> is what the
  callers guarantee: Go's argument types, no negative release (the interface documents
  sizes), a fresh identifier for a new scope, admissible limits, and, for closing, counters
  that have not wrapped.
\<close>

datatype scope_op =
    OpReserveMemory sid int "8 word"
  | OpReleaseMemory sid int
  | OpAddStream sid Direction
  | OpRemoveStream sid Direction
  | OpAddConn sid Direction bool
  | OpRemoveConn sid Direction bool
  | OpBeginSpan sid sid
  | OpNewScope sid BaseLimit "sid list" string
  | OpDone sid

fun run_op :: "heap \<Rightarrow> scope_op \<Rightarrow> heap" where
  "run_op h (OpReserveMemory s sz prio) = fst (ReserveMemory h s sz prio)"
| "run_op h (OpReleaseMemory s sz) = ReleaseMemory h s sz"
| "run_op h (OpAddStream s dir) = fst (AddStream h s dir)"
| "run_op h (OpRemoveStream s dir) = RemoveStream h s dir"
| "run_op h (OpAddConn s dir usefd) = fst (AddConn h s dir usefd)"
| "run_op h (OpRemoveConn s dir usefd) = RemoveConn h s dir usefd"
| "run_op h (OpBeginSpan s new) = fst (BeginSpan h s new)"
| "run_op h (OpNewScope new l es nm) = newResourceScope h new l es nm"
| "run_op h (OpDone s) = doneUnlocked h s"

fun op_ok :: "heap \<Rightarrow> scope_op \<Rightarrow> bool" where
  "op_ok h (OpReserveMemory s sz prio) = in64 sz"
| "op_ok h (OpReleaseMemory s sz) = (in64 sz \<and> 0 \<le> sz)"
| "op_ok h (OpBeginSpan s new) = (s < new \<and> (\<forall>t. new \<notin> set (edges (h t))))"
| "op_ok h (OpNewScope new l es nm) =
     (lim_ok l \<and> distinct es \<and> new \<notin> set es \<and> (\<forall>e \<in> set es. owner (h e) = None))"
| "op_ok h (OpDone s) = (0 \<le> memory (rc (h s)))"
| "op_ok h _ = True"

lemma stat_nn_stat: "rc_ok r \<Longrightarrow> 0 \<le> memory r \<Longrightarrow> stat_nn (stat r)"
  by (simp add: stat_nn_def stat_def rc_ok_def)

lemma BeginSpan_steps: "scope_step\<^sup>*\<^sup>* h (fst (BeginSpan h s new))"
proof -
  define h1 where "h1 = h(s := (h s)\<lparr>refCnt := refCnt (h s) + 1, spanID := spanID (h s) + 1\<rparr>)"
  have "scope_step h h1" by (simp add: h1_def step_book)
  moreover have "scope_step h1 (newResourceScopeSpan h1 new s (spanID (h s) + 1))"
    unfolding newResourceScopeSpan_def by (rule step_span) simp
  ultimately have "scope_step\<^sup>*\<^sup>* h (newResourceScopeSpan h1 new s (spanID (h s) + 1))"
    by (meson r_into_rtranclp rtranclp.rtrancl_into_rtrancl)
  then show ?thesis by (simp add: BeginSpan_def Let_def h1_def)
qed

lemma newResourceScope_steps:
  assumes "lim_ok l"
  shows "scope_step\<^sup>*\<^sup>* h (newResourceScope h new l es nm)"
proof -
  have "scope_step\<^sup>*\<^sup>* h (fold (\<lambda>e h. IncRef h e) es h)"
    by (rule fold_steps) (rule r_into_rtranclp, rule IncRef_step)
  moreover have "limit (new_resources l) = l" by (simp add: new_resources_def)
  ultimately show ?thesis
    unfolding newResourceScope_def using assms
    by (elim rtranclp.rtrancl_into_rtrancl) (rule step_new, simp_all)
qed

lemma run_op_steps:
  assumes "wf_heap h" "heap_ok h" "op_ok h op"
  shows "scope_step\<^sup>*\<^sup>* h (run_op h op)"
proof (cases op)
  case (OpDone s)
  then have "stat_nn (stat (rc (h s)))"
    using assms heap_okD by (simp add: stat_nn_stat)
  then show ?thesis
    unfolding OpDone run_op.simps
    by (intro doneUnlocked_rtrancl ReleaseForChild_step DecRef_step step_close)
qed (use assms in \<open>simp_all add: ReserveMemory_steps ReleaseMemory_steps AddStream_steps
    RemoveStream_steps AddConn_steps RemoveConn_steps BeginSpan_steps newResourceScope_steps\<close>)

lemma ReleaseForChild_simps [simp]:
  "owner (ReleaseForChild h s st t) = owner (h t)" "edges (ReleaseForChild h s st t) = edges (h t)"
  by (simp_all add: ReleaseForChild_def)

lemma DecRef_simps [simp]:
  "owner (DecRef h s t) = owner (h t)" "edges (DecRef h s t) = edges (h t)"
  "sdone (DecRef h s t) = sdone (h t)" "rc (DecRef h s t) = rc (h t)"
  by (simp_all add: DecRef_def)

lemma IncRef_simps [simp]:
  "owner (IncRef h s t) = owner (h t)" "edges (IncRef h s t) = edges (h t)"
  "sdone (IncRef h s t) = sdone (h t)" "rc (IncRef h s t) = rc (h t)"
  by (simp_all add: IncRef_def)

lemma fold_IncRef_simps [simp]:
  "owner (fold (\<lambda>e h. IncRef h e) es h t) = owner (h t)"
  "edges (fold (\<lambda>e h. IncRef h e) es h t) = edges (h t)"
  by (induction es arbitrary: h) simp_all

definition same_graph :: "heap \<Rightarrow> heap \<Rightarrow> bool" where
  "same_graph h h' \<longleftrightarrow> (\<forall>t. owner (h' t) = owner (h t) \<and> edges (h' t) = edges (h t))"

lemma same_graph_rtrancl: "same_graph\<^sup>*\<^sup>* h h' \<Longrightarrow> same_graph h h'"
  by (induction rule: rtranclp_induct) (auto simp: same_graph_def)

lemma doneUnlocked_graph: "same_graph h (doneUnlocked h s)"
  by (rule same_graph_rtrancl, rule doneUnlocked_rtrancl) (simp_all add: same_graph_def)

lemma run_op_wf:
  assumes wf: "wf_heap h" and ok: "op_ok h op"
  shows "wf_heap (run_op h op)"
proof (cases op)
  case (OpBeginSpan s new)
  have "wf_scope (run_op h op) t" for t
    using wf_heapD [OF wf, of t] ok OpBeginSpan
    by (cases "owner (h t)"; cases "t = new"; cases "t = s")
       (auto simp: BeginSpan_def newResourceScopeSpan_def Let_def wf_scope_def)
  then show ?thesis by (simp add: wf_heap_def)
next
  case (OpNewScope new l es nm)
  have "wf_scope (run_op h op) t" for t
    using wf_heapD [OF wf, of t] ok OpNewScope
    by (cases "owner (h t)"; cases "t = new") (auto simp: newResourceScope_def wf_scope_def)
  then show ?thesis by (simp add: wf_heap_def)
next
  case (OpDone s)
  then show ?thesis
    using wf wf_heap_cong [of "doneUnlocked h s" h] doneUnlocked_graph [of h s]
    by (simp add: same_graph_def)
qed (use wf in \<open>simp_all add: take_shape [THEN same_shape_wf] give_shape [THEN same_shape_wf]\<close>)

fun run_ok :: "heap \<Rightarrow> scope_op list \<Rightarrow> bool" where
  "run_ok h [] = True"
| "run_ok h (x # xs) = (op_ok h x \<and> run_ok (run_op h x) xs)"

lemma run_invariant:
  "wf_heap h \<Longrightarrow> heap_ok h \<Longrightarrow> run_ok h ops \<Longrightarrow>
   wf_heap (foldl run_op h ops) \<and> heap_ok (foldl run_op h ops)"
proof (induction ops arbitrary: h)
  case (Cons x xs)
  then show ?case
    using run_op_wf [of h x] scope_steps_ok [OF run_op_steps, of h x] by simp
qed simp

section \<open>Transferring a whole statistic\<close>

text \<open>
  The scopes a release on \<open>s\<close> reaches: it climbs the chain of owners as far as they are
  open, and at the root of the chain goes on to those edges that are open.
\<close>

function released :: "heap \<Rightarrow> sid \<Rightarrow> sid list" where
  "released h s =
     (if sdone (h s) then []
      else s # (case owner (h s) of
                  Some ow \<Rightarrow> if ow < s then released h ow else []
                | None \<Rightarrow> filter (\<lambda>e. \<not> sdone (h e)) (edges (h s))))"
  by pat_completeness auto
termination
  by (relation "measure (\<lambda>(h, s). s)") auto

declare released.simps [simp del]

lemma released_upd_rc [simp]: "released (upd_rc h s r) t = released h t"
proof (induction t rule: less_induct)
  case (less t)
  then show ?case
    by (simp add: released.simps [of "upd_rc h s r"] released.simps [of h] split: option.split)
qed

lemma released_charged: "set (released h s) \<subseteq> set (charged h s)"
proof (induction s rule: less_induct)
  case (less s)
  then show ?case
    by (auto simp: released.simps [of h s] charged.simps [of h s] split: option.splits)
qed

lemma released_open: "\<forall>t \<in> set (charged h s). \<not> sdone (h t) \<Longrightarrow> released h s = charged h s"
proof (induction s rule: less_induct)
  case (less s)
  then show ?case
    by (auto simp: released.simps [of h s] charged.simps [of h s] split: option.splits)
qed

context releasing
begin

lemma child_give_fold:
  "distinct es \<Longrightarrow>
   fold (\<lambda>e h. child_give h e) es h = release_all ret h (filter (\<lambda>e. \<not> sdone (h e)) es)"
proof (induction es arbitrary: h)
  case Nil
  then show ?case by (simp add: release_all_def)
next
  case (Cons e es)
  have "fold (\<lambda>e h. child_give h e) es (child_give h e) =
      release_all ret (child_give h e) (filter (\<lambda>e. \<not> sdone (h e)) es)"
    using Cons by (simp add: child_give_eq)
  with Cons.prems show ?case
    by (auto simp: child_give_eq release_all_def upd_rc_def fun_eq_iff)
qed

lemma give_released:
  assumes "wf_heap h"
  shows "scope_give h s = release_all ret h (released h s)"
  using assms
proof (induction s arbitrary: h rule: less_induct)
  case (less s)
  define h1 where "h1 = upd_rc h s (ret (rc (h s)))"
  have w1: "wf_heap h1" using less.prems by (simp add: h1_def)
  show ?case
  proof (cases "sdone (h s)")
    case True
    then show ?thesis using less.prems by (simp add: scope_give_eq released.simps [of h s] release_all_def)
  next
    case False
    then obtain ts where ts: "released h s = s # ts" using released.simps [of h s] by auto
    obtain cs where cs: "charged h s = s # cs" "s \<notin> set cs" using charged_Cons [OF less.prems] by metis
    have "scope_give h s = release_all ret h1 ts \<and> s \<notin> set ts"
    proof (cases "owner (h s)")
      case None
      have es: "distinct (edges (h s))" "edges (h s) = cs"
        using wf_heapD [OF less.prems, of s] None cs by (simp_all add: wf_scope_def charged_dag)
      have "ts = filter (\<lambda>e. \<not> sdone (h1 e)) (edges (h s))"
        using ts False None by (simp add: released.simps [of h s] h1_def)
      with child_give_fold [OF es(1), of h1] False None less.prems es(2) cs(2) show ?thesis
        by (simp add: scope_give_eq [of h s] h1_def)
    next
      case (Some ow)
      from charged_span [OF less.prems Some] cs(1) have ow: "ow < s" "charged h ow = cs" by auto
      have t: "ts = released h1 ow" using ts False Some ow(1) by (simp add: released.simps [of h s] h1_def)
      then have "s \<notin> set ts" using released_charged [of h ow] ow(2) cs(2) by (auto simp: h1_def)
      then show ?thesis
        using less.IH [OF ow(1) w1] t False Some less.prems by (simp add: scope_give_eq [of h s] h1_def)
    qed
    then show ?thesis
      using ts by (auto simp: release_all_def h1_def upd_rc_def fun_eq_iff)
  qed
qed

end


interpretation rel: releasing "\<lambda>r. release_stat r st" "\<lambda>h s. ReleaseForChild h s st"
  "\<lambda>h s. ReleaseResources h s st" for st
proof
  fix h :: heap and s
  assume "wf_heap h"
  then show "ReleaseResources h s st =
    (if sdone (h s) then h
     else case owner (h s) of
            Some ow \<Rightarrow> ReleaseResources (upd_rc h s (release_stat (rc (h s)) st)) ow st
          | None \<Rightarrow> fold (\<lambda>e h. ReleaseForChild h e st) (edges (h s))
                      (upd_rc h s (release_stat (rc (h s)) st)))"
    using charged_span [of h s]
    by (subst ReleaseResources_eq) (auto simp: ReleaseForChild_def split: option.split)
qed (simp add: ReleaseForChild_def)

text \<open>
  A statistic is charged to one scope as a unit: \<^term>\<open>stat_fits\<close> is the condition, a
  refusal leaves the scope untouched and \<^term>\<open>release_stat\<close> takes the charge back.
\<close>

definition add_stat :: "resources \<Rightarrow> ScopeStat \<Rightarrow> resources" where
  "add_stat r st = r\<lparr>memory := add64 (memory r) (StatMemory st),
     nstreamsIn := nstreamsIn r + NumStreamsInbound st,
     nstreamsOut := nstreamsOut r + NumStreamsOutbound st,
     nconnsIn := nconnsIn r + NumConnsInbound st, nconnsOut := nconnsOut r + NumConnsOutbound st,
     nfd := nfd r + NumFD st\<rparr>"

definition stat_fits :: "resources \<Rightarrow> ScopeStat \<Rightarrow> bool" where
  "stat_fits r st \<longleftrightarrow> checkMemory r (StatMemory st) 255 = None \<and>
     \<not> isl (addStreams r (NumStreamsInbound st) (NumStreamsOutbound st)) \<and>
     \<not> isl (addConns r (NumConnsInbound st) (NumConnsOutbound st) (NumFD st))"

lemma addStreams_memory: "isl (addStreams (r\<lparr>memory := m\<rparr>) i n) = isl (addStreams r i n)"
  by (simp add: addStreams_def Let_def limit_defs)

lemma addConns_other:
  "isl (addConns (r\<lparr>memory := m, nstreamsIn := a, nstreamsOut := b\<rparr>) i n f) = isl (addConns r i n f)"
  by (simp add: addConns_def Let_def limit_defs)

lemma not_isl_addStreams:
  "\<not> isl (addStreams r i n) \<Longrightarrow>
   addStreams r i n = Inr (r\<lparr>nstreamsIn := nstreamsIn r + i, nstreamsOut := nstreamsOut r + n\<rparr>)"
  by (auto simp: addStreams_def Let_def split: if_splits)

lemma not_isl_addConns:
  "\<not> isl (addConns r i n f) \<Longrightarrow>
   addConns r i n f = Inr (r\<lparr>nconnsIn := nconnsIn r + i, nconnsOut := nconnsOut r + n, nfd := nfd r + f\<rparr>)"
  by (auto simp: addConns_def Let_def split: if_splits)

lemma releaseMemory_streams:
  "releaseMemory (r\<lparr>nstreamsIn := a, nstreamsOut := b\<rparr>) m =
   (releaseMemory r m)\<lparr>nstreamsIn := a, nstreamsOut := b\<rparr>"
  by (simp add: releaseMemory_def Let_def)

lemma removeStreams_restore:
  "0 \<le> nstreamsIn r \<Longrightarrow> 0 \<le> nstreamsOut r \<Longrightarrow>
   removeStreams (r\<lparr>nstreamsIn := nstreamsIn r + i, nstreamsOut := nstreamsOut r + n\<rparr>) i n = r"
  by (simp add: removeStreams_def Let_def)

lemma release_add_stat:
  assumes nn: "rc_nn r" and mem: "reserveMemory r (StatMemory st) 255 = Inr r1"
  shows "release_stat (add_stat r st) st = r"
proof -
  have "releaseMemory r1 (StatMemory st) = r" and r1: "r1 = r\<lparr>memory := add64 (memory r) (StatMemory st)\<rparr>"
    using release_reserveMemory [OF nn mem] mem by (simp_all add: reserveMemory_Inr_iff)
  then have m: "memory (releaseMemory (r\<lparr>memory := add64 (memory r) (StatMemory st)\<rparr>) (StatMemory st)) = memory r"
    by simp
  then show ?thesis
    using nn by (simp add: release_stat_def add_stat_def removeConns_def removeStreams_def Let_def
        releaseMemory_def rc_nn_def)
qed

lemma ReserveForChild_spec:
  assumes nn: "rc_nn (rc (h s))"
  shows "if \<not> sdone (h s) \<and> stat_fits (rc (h s)) st
    then ReserveForChild h s st = (upd_rc h s (add_stat (rc (h s)) st), None)
    else \<exists>err. ReserveForChild h s st = (h, Some err)"
proof -
  let ?r = "rc (h s)"
  let ?r1 = "?r\<lparr>memory := add64 (memory ?r) (StatMemory st)\<rparr>"
  let ?r2 = "?r1\<lparr>nstreamsIn := nstreamsIn ?r + NumStreamsInbound st,
                 nstreamsOut := nstreamsOut ?r + NumStreamsOutbound st\<rparr>"
  have same: "upd_rc h s ?r = h" by (simp add: upd_rc_def)
  consider "sdone (h s)" | e where "\<not> sdone (h s)" "checkMemory ?r (StatMemory st) 255 = Some e"
    | "\<not> sdone (h s)" "checkMemory ?r (StatMemory st) 255 = None" by fastforce
  then show ?thesis
  proof cases
    case 1
    then show ?thesis by (simp add: ReserveForChild_def)
  next
    case 2
    then show ?thesis by (simp add: ReserveForChild_def reserveMemory_def stat_fits_def)
  next
    case 3
    then have r1: "reserveMemory ?r (StatMemory st) 255 = Inr ?r1" by (simp add: reserveMemory_def)
    have back1: "releaseMemory ?r1 (StatMemory st) = ?r" by (rule release_reserveMemory [OF nn r1])
    show ?thesis
    proof (cases "isl (addStreams ?r (NumStreamsInbound st) (NumStreamsOutbound st))")
      case True
      then obtain e where "addStreams ?r1 (NumStreamsInbound st) (NumStreamsOutbound st) = Inl e"
        by (metis addStreams_memory isl_def)
      with True 3 r1 back1 same show ?thesis by (simp add: ReserveForChild_def stat_fits_def)
    next
      case s: False
      then have r2: "addStreams ?r1 (NumStreamsInbound st) (NumStreamsOutbound st) = Inr ?r2"
        using not_isl_addStreams [of ?r1] by (simp add: addStreams_memory)
      have "releaseMemory ?r2 (StatMemory st) = ?r\<lparr>nstreamsIn := nstreamsIn ?r + NumStreamsInbound st,
                 nstreamsOut := nstreamsOut ?r + NumStreamsOutbound st\<rparr>"
        by (simp add: releaseMemory_streams back1 del: resources.update_convs)
      then have back2: "removeStreams (releaseMemory ?r2 (StatMemory st)) (NumStreamsInbound st)
          (NumStreamsOutbound st) = ?r"
        using nn by (simp only: rc_nn_def removeStreams_restore)
      show ?thesis
      proof (cases "isl (addConns ?r (NumConnsInbound st) (NumConnsOutbound st) (NumFD st))")
        case True
        then obtain e where "addConns ?r2 (NumConnsInbound st) (NumConnsOutbound st) (NumFD st) = Inl e"
          by (metis addConns_other isl_def)
        with True 3 r1 r2 back2 same show ?thesis
          by (simp add: ReserveForChild_def stat_fits_def del: resources.update_convs)
      next
        case False
        then have "addConns ?r2 (NumConnsInbound st) (NumConnsOutbound st) (NumFD st) =
            Inr (add_stat ?r st)"
          using not_isl_addConns [of ?r2] by (simp add: addConns_other add_stat_def)
        with False s 3 r1 r2 show ?thesis by (simp add: ReserveForChild_def stat_fits_def)
      qed
    qed
  qed
qed

section \<open>Closing a scope\<close>

definition closed :: "resourceScope \<Rightarrow> resourceScope" where
  "closed c = c\<lparr>rc := new_resources (limit (rc c)), sdone := True\<rparr>"

definition parent_after :: "resourceScope \<Rightarrow> ScopeStat \<Rightarrow> resourceScope" where
  "parent_after c st =
     (if sdone c then c else c\<lparr>rc := release_stat (rc c) st\<rparr>)\<lparr>refCnt := refCnt c - 1\<rparr>"

lemma done_edges:
  "distinct es \<Longrightarrow> fold (\<lambda>e h. DecRef (ReleaseForChild h e st) e) es h =
     (\<lambda>t. if t \<in> set es then parent_after (h t) st else h t)"
proof (induction es arbitrary: h)
  case (Cons e es)
  have "DecRef (ReleaseForChild h e st) e = h(e := parent_after (h e) st)"
    by (auto simp: DecRef_def ReleaseForChild_def parent_after_def upd_rc_def)
  with Cons show ?case by (auto simp: fun_eq_iff)
qed simp

lemma done_dag_spec:
  assumes "wf_heap h" "owner (h s) = None" "\<not> sdone (h s)"
  shows "doneUnlocked h s t =
    (if t = s then closed (h s)
     else if t \<in> set (edges (h s)) then parent_after (h t) (stat (rc (h s))) else h t)"
proof -
  have "distinct (edges (h s))" "s \<notin> set (edges (h s))"
    using wf_heapD [OF assms(1), of s] assms(2) by (simp_all add: wf_scope_def)
  then show ?thesis
    using assms(2,3) by (simp add: doneUnlocked_def Let_def done_edges zero_counters closed_def)
qed

lemma done_span_spec:
  assumes wf: "wf_heap h" and ow: "owner (h s) = Some ow" and s: "\<not> sdone (h s)"
  shows "doneUnlocked h s t =
    (if t = s then closed (h s)
     else let c = (if t \<in> set (released h ow)
                   then (h t)\<lparr>rc := release_stat (rc (h t)) (stat (rc (h s)))\<rparr> else h t)
          in if t = ow then c\<lparr>refCnt := refCnt c - 1\<rparr> else c)"
proof -
  have "ow < s" "charged h s = s # charged h ow" using charged_span [OF wf ow] by auto
  then have "ow \<noteq> s" "s \<notin> set (released h ow)"
    using distinct_charged [OF wf, of s] released_charged [of h ow] by auto
  moreover have "ReleaseResources h ow (stat (rc (h s))) =
      release_all (\<lambda>r. release_stat r (stat (rc (h s)))) h (released h ow)"
    by (rule rel.give_released [OF wf])
  ultimately show ?thesis
    using ow s by (simp add: doneUnlocked_def Let_def zero_counters closed_def DecRef_def release_all_def)
qed

text \<open>
  What is left of counters from which a statistic is taken, counter by counter. The code
  cuts a difference that would be negative to zero; memory does not wrap around, since
  both amounts are non-negative 64-bit numbers.
\<close>

definition stat_minus :: "resources \<Rightarrow> ScopeStat \<Rightarrow> resources" where
  "stat_minus r st = \<lparr>limit = limit r,
     nconnsIn = max 0 (nconnsIn r - NumConnsInbound st), nconnsOut = max 0 (nconnsOut r - NumConnsOutbound st),
     nstreamsIn = max 0 (nstreamsIn r - NumStreamsInbound st), nstreamsOut = max 0 (nstreamsOut r - NumStreamsOutbound st),
     nfd = max 0 (nfd r - NumFD st), memory = max 0 (memory r - StatMemory st)\<rparr>"

lemma release_stat_minus:
  assumes "rc_nn r" and "in64 (StatMemory st)" and "0 \<le> StatMemory st"
  shows "release_stat r st = stat_minus r st"
proof -
  have "in64 (memory r - StatMemory st)" using assms by (auto simp: rc_nn_def int64_defs)
  then show ?thesis
    by (simp add: release_stat_def stat_minus_def removeConns_def removeStreams_def releaseMemory_def Let_def
        max_def)
qed

lemma done_idem: "doneUnlocked (doneUnlocked h s) s = doneUnlocked h s"
  by (simp add: doneUnlocked_def Let_def)

lemma done_sdone: "sdone (doneUnlocked h s s)"
  by (simp add: doneUnlocked_def Let_def)

lemma closed_refuses:
  assumes "sdone (h s)"
  shows "ReserveMemory h s sz prio = (h, Some (wrapError h s ErrResourceScopeClosed))"
    "AddStream h s dir = (h, Some (wrapError h s ErrResourceScopeClosed))"
    "AddConn h s dir usefd = (h, Some (wrapError h s ErrResourceScopeClosed))"
    "ReserveForChild h s st = (h, Some (wrapError h s ErrResourceScopeClosed))"
    "BeginSpan h s new = (h, Inl (wrapError h s ErrResourceScopeClosed))"
    "ReleaseMemory h s sz = h" "RemoveStream h s dir = h" "RemoveConn h s dir usefd = h"
    "ReleaseResources h s st = h" "ReleaseForChild h s st = h"
  using assms
  by (simp_all add: ReserveMemory.simps [of h s] AddStream.simps [of h s] AddConn.simps [of h s]
      ReleaseMemory.simps [of h s] RemoveStream.simps [of h s] RemoveConn.simps [of h s]
      ReleaseResources.simps [of h s] ReserveForChild_def BeginSpan_def ReleaseForChild_def)

section \<open>Properties\<close>

definition small_limit :: BaseLimit where
  "small_limit = \<lparr>Streams = 8, StreamsInbound = 4, StreamsOutbound = 4, Conns = 8, ConnsInbound = 4,
     ConnsOutbound = 4, FD = 4, Memory = 1024\<rparr>"

text \<open>A root scope 0, a scope 1 below it and a span 2 of scope 1.\<close>

definition small_scope :: "sid option \<Rightarrow> sid list \<Rightarrow> resourceScope" where
  "small_scope ow es = \<lparr>sdone = False, refCnt = 1, spanID = 0, rc = new_resources small_limit,
     owner = ow, edges = es, sname = ''s''\<rparr>"

definition small_heap :: heap where
  "small_heap = (\<lambda>_. small_scope None [])(1 := small_scope None [0], 2 := small_scope (Some 1) [])"

lemma small_heap_wf: "wf_heap small_heap"
  by (simp add: wf_heap_def wf_scope_def small_heap_def small_scope_def)

lemma small_heap_rc: "rc (small_heap t) = new_resources small_limit" "\<not> sdone (small_heap t)"
  by (simp_all add: small_heap_def small_scope_def)

lemma small_heap_ok: "heap_ok small_heap"
  by (simp add: heap_ok_def small_heap_rc rc_ok_def lim_ok_def new_resources_def small_limit_def int64_defs)

lemma small_heap_charged: "charged small_heap 2 = [2, 1, 0]"
proof -
  have "owner (small_heap 2) = Some 1" "owner (small_heap 1) = None" "edges (small_heap 1) = [0]"
    by (simp_all add: small_heap_def small_scope_def)
  then show ?thesis by (simp add: charged.simps [of _ 2] charged.simps [of _ 1] del: One_nat_def)
qed

text \<open>
  C9. Whatever the interleaving of goroutines: along every sequence of mutex-protected
  sections, starting from scopes within admissible limits, no scope ever holds more
  streams, connections, descriptors or (bounded) memory than its limit allows, and no
  counter becomes negative.
\<close>
theorem interleavings_respect_limits:
  assumes "heap_ok h" and "scope_step\<^sup>*\<^sup>* h h'"
  shows "let r = rc (h' s) in
     0 \<le> nstreamsIn r \<and> nstreamsIn r \<le> StreamsInbound (limit r) \<and>
     0 \<le> nstreamsOut r \<and> nstreamsOut r \<le> StreamsOutbound (limit r) \<and>
     nstreamsIn r + nstreamsOut r \<le> Streams (limit r) \<and>
     0 \<le> nconnsIn r \<and> nconnsIn r \<le> ConnsInbound (limit r) \<and>
     0 \<le> nconnsOut r \<and> nconnsOut r \<le> ConnsOutbound (limit r) \<and>
     nconnsIn r + nconnsOut r \<le> Conns (limit r) \<and>
     0 \<le> nfd r \<and> nfd r \<le> FD (limit r) \<and>
     (Memory (limit r) < MaxInt64 \<longrightarrow> 0 \<le> memory r \<and> memory r \<le> Memory (limit r))"
  using heap_okD(1) [OF scope_steps_ok [OF assms(2,1)], of s] by (simp add: rc_ok_def Let_def)

theorem interleavings_respect_limits_witness:
  "heap_ok small_heap \<and> scope_step\<^sup>*\<^sup>* small_heap (fst (AddStream small_heap 2 DirInbound)) \<and>
   nstreamsIn (rc (fst (AddStream small_heap 2 DirInbound) 0)) \<le>
   StreamsInbound (limit (rc (fst (AddStream small_heap 2 DirInbound) 0)))"
  using interleavings_respect_limits [OF small_heap_ok AddStream_steps, of 2 DirInbound 0] small_heap_ok
    AddStream_steps [of small_heap 2 DirInbound] by (simp add: Let_def)

text \<open>
  Every public operation on a scope (reserving and releasing memory, streams and
  connections, opening spans and scopes, closing) is a sequence of such mutex-protected
  sections, and leaves the scope graph well formed.
\<close>
lemma operations_are_sections:
  assumes "wf_heap h" and "heap_ok h" and "op_ok h x"
  shows "scope_step\<^sup>*\<^sup>* h (run_op h x) \<and> wf_heap (run_op h x)"
  using run_op_steps [OF assms] run_op_wf [OF assms(1,3)] by simp

text \<open>
  C10. Reserving memory is all-or-nothing: if every scope of the constraint set (the scope,
  its owners, the edges of the root) is open and has room, each of them is charged and
  nothing else changes; otherwise an error is returned and no scope changes.
\<close>
theorem ReserveMemory_all_or_nothing:
  assumes "wf_heap h" and "\<forall>t \<in> set (charged h s). rc_nn (rc (h t))"
  shows "if \<forall>t \<in> set (charged h s). accepts (\<lambda>r. reserveMemory r sz prio) h t
    then ReserveMemory h s sz prio =
      ((\<lambda>t. if t \<in> set (charged h s) then (h t)\<lparr>rc := projr (reserveMemory (rc (h t)) sz prio)\<rparr> else h t), None)
    else \<exists>err. ReserveMemory h s sz prio = (h, Some err)"
  using mem.take_spec [OF assms, of sz prio] by (simp add: charge_all_def)

theorem ReserveMemory_all_or_nothing_witness:
  "wf_heap small_heap \<and> list_all (\<lambda>t. rc_nn (rc (small_heap t))) (charged small_heap 2) \<and>
   (\<exists>err. ReserveMemory small_heap 2 2000 255 = (small_heap, Some err))"
proof -
  have nn: "\<forall>t \<in> set (charged small_heap 2). rc_nn (rc (small_heap t))" by (simp add: small_heap_rc)
  have "\<not> accepts (\<lambda>r. reserveMemory r 2000 255) small_heap 2"
    by (simp add: accepts_def small_heap_rc reserveMemory_def checkMemory_def Let_def addInt64WithOverflow_def
        mulInt64WithOverflow_def limit_defs new_resources_def small_limit_def int64_defs wrap64_alt quot_def)
  with ReserveMemory_all_or_nothing [OF small_heap_wf nn, of 2000 255] nn small_heap_wf
  show ?thesis by (auto simp: small_heap_charged small_heap_rc)
qed

text \<open>
  Adding a connection is all-or-nothing over the constraint set in the same way.
\<close>
lemma AddConn_all_or_nothing:
  assumes "wf_heap h" and "\<forall>t \<in> set (charged h s). rc_nn (rc (h t))"
  shows "if \<forall>t \<in> set (charged h s). accepts (\<lambda>r. addConn r dir usefd) h t
    then AddConn h s dir usefd =
      ((\<lambda>t. if t \<in> set (charged h s) then (h t)\<lparr>rc := projr (addConn (rc (h t)) dir usefd)\<rparr> else h t), None)
    else \<exists>err. AddConn h s dir usefd = (h, Some err)"
  using conn.take_spec [OF assms, of dir usefd] by (simp add: charge_all_def)

text \<open>
  Releasing the memory of a successful reservation restores every scope exactly.
\<close>
lemma ReleaseMemory_undoes_ReserveMemory:
  assumes "wf_heap h" and "\<forall>t \<in> set (charged h s). rc_nn (rc (h t))"
    and "ReserveMemory h s sz prio = (h', None)"
  shows "ReleaseMemory h' s sz = h"
  by (rule mem.give_take [OF assms])

lemma small_reserve: "ReserveMemory small_heap 2 100 255 = (fst (ReserveMemory small_heap 2 100 255), None)"
proof -
  have "\<forall>t \<in> set (charged small_heap 2). accepts (\<lambda>r. reserveMemory r 100 255) small_heap t"
    by (simp add: accepts_def small_heap_rc reserveMemory_def checkMemory_def Let_def addInt64WithOverflow_def
        mulInt64WithOverflow_def limit_defs new_resources_def small_limit_def int64_defs wrap64_alt quot_def)
  with mem.take_spec [OF small_heap_wf, of 2 100 255] show ?thesis by (simp add: small_heap_rc)
qed

text \<open>
  C15. Closing an open scope gives back exactly what it holds. A scope with edges gives it to
  each of its parents that is open, a span to its owner and on along the chain of owners
  and to the edges of the chain's root, as far as these are open: each of them loses, in
  every counter, the amount the closed scope held (never going below zero). The parents,
  or the owner, also lose one reference; the scope itself is empty and closed; no other
  scope changes; closing again changes nothing.
\<close>
theorem Done_returns_holdings:
  assumes "wf_heap h" and "\<forall>t. rc_nn (rc (h t))" and "\<not> sdone (h s)"
  shows "let up = (case owner (h s) of None \<Rightarrow> edges (h s) | Some ow \<Rightarrow> [ow]);
             to = (case owner (h s) of None \<Rightarrow> filter (\<lambda>e. \<not> sdone (h e)) (edges (h s)) | Some ow \<Rightarrow> released h ow);
             d = rc (h s)
    in (\<forall>t. doneUnlocked h s t =
          (if t = s then (h s)\<lparr>rc := new_resources (limit d), sdone := True\<rparr>
           else (h t)\<lparr>refCnt := refCnt (h t) - (if t \<in> set up then 1 else 0),
             rc := (let r = rc (h t) in if t \<notin> set to then r
               else \<lparr>limit = limit r,
                 nconnsIn = max 0 (nconnsIn r - nconnsIn d), nconnsOut = max 0 (nconnsOut r - nconnsOut d),
                 nstreamsIn = max 0 (nstreamsIn r - nstreamsIn d), nstreamsOut = max 0 (nstreamsOut r - nstreamsOut d),
                 nfd = max 0 (nfd r - nfd d), memory = max 0 (memory r - memory d)\<rparr>)\<rparr>)) \<and>
       doneUnlocked (doneUnlocked h s) s = doneUnlocked h s"
proof -
  have st: "release_stat (rc (h t)) (stat (rc (h s))) =
      (let r = rc (h t); d = rc (h s) in \<lparr>limit = limit r,
         nconnsIn = max 0 (nconnsIn r - nconnsIn d), nconnsOut = max 0 (nconnsOut r - nconnsOut d),
         nstreamsIn = max 0 (nstreamsIn r - nstreamsIn d), nstreamsOut = max 0 (nstreamsOut r - nstreamsOut d),
         nfd = max 0 (nfd r - nfd d), memory = max 0 (memory r - memory d)\<rparr>)" for t
    using release_stat_minus [of "rc (h t)" "stat (rc (h s))"] assms(2)
    by (simp add: rc_nn_def stat_def stat_minus_def Let_def)
  show ?thesis
  proof (cases "owner (h s)")
    case None
    show ?thesis
      using done_dag_spec [OF assms(1) None assms(3)] None
      by (auto simp: closed_def parent_after_def done_idem st Let_def
          intro!: resourceScope.equality)
  next
    case (Some ow)
    show ?thesis
      using done_span_spec [OF assms(1) Some assms(3)] Some
      by (auto simp: closed_def done_idem st Let_def intro!: resourceScope.equality)
  qed
qed

text \<open>The span of the example, its owner and the root each hold two inbound streams.\<close>

definition held_heap :: heap where
  "held_heap = (\<lambda>t. (small_heap t)\<lparr>rc := (new_resources small_limit)\<lparr>nstreamsIn := 2\<rparr>\<rparr>)"

lemma held_heap_facts:
  "wf_heap held_heap" "\<forall>t. rc_nn (rc (held_heap t))" "\<not> sdone (held_heap t)"
  "owner (held_heap 2) = Some 1" "released held_heap 1 = [1, 0]"
proof -
  show "wf_heap held_heap"
    using wf_heap_cong [of held_heap small_heap] small_heap_wf by (simp add: held_heap_def)
  show "owner (held_heap 2) = Some 1" "\<not> sdone (held_heap t)"
    by (simp_all add: held_heap_def small_heap_def small_scope_def)
  show "\<forall>t. rc_nn (rc (held_heap t))"
    by (simp add: held_heap_def rc_nn_def new_resources_def int64_defs)
  have "owner (held_heap 1) = None" "edges (held_heap 1) = [0]" "\<not> sdone (held_heap t)" for t
    by (simp_all add: held_heap_def small_heap_def small_scope_def)
  then show "released held_heap 1 = [1, 0]" by (simp add: released.simps [of _ 1] del: One_nat_def)
qed

theorem Done_returns_holdings_witness:
  "wf_heap held_heap \<and> (\<forall>t. rc_nn (rc (held_heap t))) \<and> \<not> sdone (held_heap 2) \<and>
   nstreamsIn (rc (held_heap 1)) = 2 \<and> nstreamsIn (rc (doneUnlocked held_heap 2 1)) = 0 \<and>
   nstreamsIn (rc (doneUnlocked held_heap 2 0)) = 0 \<and> refCnt (doneUnlocked held_heap 2 1) = 0 \<and>
   refCnt (doneUnlocked held_heap 2 0) = 1 \<and> sdone (doneUnlocked held_heap 2 2)"
proof -
  have s: "nstreamsIn (rc (held_heap t)) = 2" "refCnt (held_heap t) = 1" for t
    by (simp_all add: held_heap_def new_resources_def small_heap_def small_scope_def)
  show ?thesis
    using Done_returns_holdings [OF held_heap_facts(1,2) held_heap_facts(3), of 2] held_heap_facts s
    by (simp add: Let_def)
qed

text \<open>
  Charging a whole statistic to a scope (the step that moves a connection or stream to
  another scope) is atomic, and its release is its exact inverse.
\<close>
lemma ReserveForChild_atomic:
  assumes "rc_nn (rc (h s))"
  shows "case ReserveForChild h s st of
      (h', Some err) \<Rightarrow> h' = h
    | (h', None) \<Rightarrow> h' = upd_rc h s (add_stat (rc (h s)) st) \<and> ReleaseForChild h' s st = h"
proof -
  have "release_stat (add_stat (rc (h s)) st) st = rc (h s)" if "stat_fits (rc (h s)) st"
    using that release_add_stat [OF assms] by (auto simp: stat_fits_def reserveMemory_def)
  then show ?thesis
    using ReserveForChild_spec [of h s st] assms
    by (auto simp: ReleaseForChild_def upd_rc_def split: if_splits)
qed

end
