(* ===== verification/Netip.thy ===== *)
theory Netip
  imports Prelude
begin

text \<open>
  The part of Go's \<^verbatim>\<open>net/netip\<close> that the connection limiter, the allowlist and the rate
  limiter use: addresses without zones, prefixes, \<^verbatim>\<open>Addr.Prefix\<close> and \<^verbatim>\<open>Prefix.Contains\<close>.
  The zero \<^verbatim>\<open>Addr\<close> is \<^term>\<open>NoAddr\<close>.
\<close>

unbundle bit_operations_syntax

datatype Addr = NoAddr | IP4 "32 word" | IP6 "128 word"

record Prefix =
  paddr :: Addr
  pbits :: nat

fun IsValid :: "Addr \<Rightarrow> bool" where
  "IsValid NoAddr = False"
| "IsValid _ = True"

fun Is6 :: "Addr \<Rightarrow> bool" where
  "Is6 (IP6 _) = True"
| "Is6 _ = False"

fun Is4 :: "Addr \<Rightarrow> bool" where
  "Is4 (IP4 _) = True"
| "Is4 _ = False"

text \<open>Clear all but the leading \<open>b\<close> bits of a \<open>w\<close>-bit address.\<close>

definition keep_bits :: "nat \<Rightarrow> nat \<Rightarrow> 'a::len word \<Rightarrow> 'a word" where
  "keep_bits w b a = push_bit (w - b) (drop_bit (w - b) a)"

fun Addr_Prefix :: "Addr \<Rightarrow> int \<Rightarrow> Prefix option" where
  "Addr_Prefix NoAddr b = (if b < 0 then None else Some \<lparr>paddr = NoAddr, pbits = 0\<rparr>)"
| "Addr_Prefix (IP4 a) b =
     (if b < 0 \<or> b > 32 then None
      else Some \<lparr>paddr = IP4 (keep_bits 32 (nat b) a), pbits = nat b\<rparr>)"
| "Addr_Prefix (IP6 a) b =
     (if b < 0 \<or> b > 128 then None
      else Some \<lparr>paddr = IP6 (keep_bits 128 (nat b) a), pbits = nat b\<rparr>)"

fun prefix_Contains :: "Prefix \<Rightarrow> Addr \<Rightarrow> bool" where
  "prefix_Contains p (IP4 a) =
     (case paddr p of IP4 q \<Rightarrow> pbits p \<le> 32 \<and> drop_bit (32 - pbits p) (a XOR q) = 0 | _ \<Rightarrow> False)"
| "prefix_Contains p (IP6 a) =
     (case paddr p of IP6 q \<Rightarrow> pbits p \<le> 128 \<and> drop_bit (128 - pbits p) (a XOR q) = 0 | _ \<Rightarrow> False)"
| "prefix_Contains p NoAddr = False"

lemma drop_bit_keep_bits: "drop_bit (w - b) (keep_bits w b a) = drop_bit (w - b) (a :: 'a::len word)"
  by (rule bit_eqI) (auto simp: keep_bits_def bit_simps possible_bit_word dest: bit_imp_le_length)

text \<open>An address is in each of its own prefixes, and two addresses have the same
  \<open>b\<close>-bit prefix iff the prefix of one contains the other.\<close>

lemma drop_bit_xor_eq_0: "drop_bit n (a XOR q) = 0 \<longleftrightarrow> drop_bit n a = drop_bit n (q :: 'a::len word)"
  by (auto simp: bit_eq_iff bit_simps)

lemma keep_bits_eq_iff:
  "keep_bits w b a = keep_bits w b q \<longleftrightarrow> drop_bit (w - b) a = drop_bit (w - b) (q :: 'a::len word)"
  by (metis drop_bit_keep_bits keep_bits_def)

lemma Contains_Addr_Prefix:
  assumes "Addr_Prefix a b = Some p" and "IsValid a"
  shows "prefix_Contains p c \<longleftrightarrow> Addr_Prefix c b = Some p \<and> IsValid c"
  using assms
  by (cases a; cases c)
     (auto simp: drop_bit_xor_eq_0 drop_bit_keep_bits keep_bits_eq_iff
       simp del: drop_bit_xor split: if_splits)

end
