(* ===== verification/Conn_Limiter.thy ===== *)
theory Conn_Limiter
  imports Netip
begin

text \<open>
  The connection limiter per address range (\<^verbatim>\<open>conn_limiter.go\<close> of the resource manager).
  Specific network prefixes take precedence; every other address counts in one subnet per
  configured prefix length. A slice access out of range panics in Go and is \<^term>\<open>None\<close> here.
\<close>

section \<open>Data\<close>

record ConnLimitPerSubnet =
  PrefixLength :: int
  ConnCount :: int

record NetworkPrefixLimit =
  Network :: Prefix
  NPConnCount :: int

type_synonym counts = "Prefix \<Rightarrow> int option"

record connLimiter =
  networkPrefixLimitV4 :: "NetworkPrefixLimit list"
  networkPrefixLimitV6 :: "NetworkPrefixLimit list"
  connsPerNetworkPrefixV4 :: "int list"
  connsPerNetworkPrefixV6 :: "int list"
  connLimitPerSubnetV4 :: "ConnLimitPerSubnet list"
  connLimitPerSubnetV6 :: "ConnLimitPerSubnet list"
  ip4connsPerLimit :: "counts list"
  ip6connsPerLimit :: "counts list"

definition sortNetworkPrefixes :: "NetworkPrefixLimit list \<Rightarrow> NetworkPrefixLimit list" where
  "sortNetworkPrefixes ls = sort_key (\<lambda>l. - int (pbits (Network l))) ls"

definition defaultMaxConcurrentConns :: int where
  "defaultMaxConcurrentConns = 8"

definition defaultIP4Limit :: ConnLimitPerSubnet where
  "defaultIP4Limit = \<lparr>PrefixLength = 32, ConnCount = defaultMaxConcurrentConns\<rparr>"

definition defaultIP6Limits :: "ConnLimitPerSubnet list" where
  "defaultIP6Limits =
     [\<lparr>PrefixLength = 56, ConnCount = defaultMaxConcurrentConns\<rparr>,
      \<lparr>PrefixLength = 48, ConnCount = 8 * defaultMaxConcurrentConns\<rparr>]"

definition DefaultNetworkPrefixLimitV4 :: "NetworkPrefixLimit list" where
  "DefaultNetworkPrefixLimitV4 = sortNetworkPrefixes
     [\<lparr>Network = \<lparr>paddr = IP4 (push_bit 24 127), pbits = 8\<rparr>, NPConnCount = MaxInt64\<rparr>]"

definition DefaultNetworkPrefixLimitV6 :: "NetworkPrefixLimit list" where
  "DefaultNetworkPrefixLimitV6 = sortNetworkPrefixes
     [\<lparr>Network = \<lparr>paddr = IP6 1, pbits = 128\<rparr>, NPConnCount = MaxInt64\<rparr>]"

definition newConnLimiter :: connLimiter where
  "newConnLimiter = \<lparr>networkPrefixLimitV4 = DefaultNetworkPrefixLimitV4,
     networkPrefixLimitV6 = DefaultNetworkPrefixLimitV6,
     connsPerNetworkPrefixV4 = [], connsPerNetworkPrefixV6 = [],
     connLimitPerSubnetV4 = [defaultIP4Limit], connLimitPerSubnetV6 = defaultIP6Limits,
     ip4connsPerLimit = [], ip6connsPerLimit = []\<rparr>"

definition WithNetworkPrefixLimit ::
  "NetworkPrefixLimit list option \<Rightarrow> NetworkPrefixLimit list option \<Rightarrow> connLimiter \<Rightarrow> connLimiter" where
  "WithNetworkPrefixLimit ipv4 ipv6 cl =
     (let cl1 = (case ipv4 of None \<Rightarrow> cl | Some ls \<Rightarrow> cl\<lparr>networkPrefixLimitV4 := sortNetworkPrefixes ls\<rparr>)
      in case ipv6 of None \<Rightarrow> cl1 | Some ls \<Rightarrow> cl1\<lparr>networkPrefixLimitV6 := sortNetworkPrefixes ls\<rparr>)"

definition WithLimitPerSubnet ::
  "ConnLimitPerSubnet list option \<Rightarrow> ConnLimitPerSubnet list option \<Rightarrow> connLimiter \<Rightarrow> connLimiter" where
  "WithLimitPerSubnet ipv4 ipv6 cl =
     (let cl1 = (case ipv4 of None \<Rightarrow> cl | Some ls \<Rightarrow> cl\<lparr>connLimitPerSubnetV4 := ls\<rparr>)
      in case ipv6 of None \<Rightarrow> cl1 | Some ls \<Rightarrow> cl1\<lparr>connLimitPerSubnetV6 := ls\<rparr>)"

definition addNetworkPrefixLimit :: "connLimiter \<Rightarrow> bool \<Rightarrow> NetworkPrefixLimit \<Rightarrow> connLimiter" where
  "addNetworkPrefixLimit cl isIP6 npLimit =
     (if isIP6 then cl\<lparr>networkPrefixLimitV6 := sortNetworkPrefixes (networkPrefixLimitV6 cl @ [npLimit])\<rparr>
      else cl\<lparr>networkPrefixLimitV4 := sortNetworkPrefixes (networkPrefixLimitV4 cl @ [npLimit])\<rparr>)"

section \<open>The locals selected by the address family\<close>

definition networkPrefixLimits :: "connLimiter \<Rightarrow> bool \<Rightarrow> NetworkPrefixLimit list" where
  "networkPrefixLimits cl isIP6 = (if isIP6 then networkPrefixLimitV6 cl else networkPrefixLimitV4 cl)"

definition connsPerNetworkPrefix :: "connLimiter \<Rightarrow> bool \<Rightarrow> int list" where
  "connsPerNetworkPrefix cl isIP6 =
     (if isIP6 then connsPerNetworkPrefixV6 cl else connsPerNetworkPrefixV4 cl)"

definition subnetLimits :: "connLimiter \<Rightarrow> bool \<Rightarrow> ConnLimitPerSubnet list" where
  "subnetLimits cl isIP6 = (if isIP6 then connLimitPerSubnetV6 cl else connLimitPerSubnetV4 cl)"

definition connsPerLimit :: "connLimiter \<Rightarrow> bool \<Rightarrow> counts list" where
  "connsPerLimit cl isIP6 = (if isIP6 then ip6connsPerLimit cl else ip4connsPerLimit cl)"

definition set_np :: "connLimiter \<Rightarrow> bool \<Rightarrow> int list \<Rightarrow> connLimiter" where
  "set_np cl isIP6 xs = (if isIP6 then cl\<lparr>connsPerNetworkPrefixV6 := xs\<rparr>
     else cl\<lparr>connsPerNetworkPrefixV4 := xs\<rparr>)"

definition set_sub :: "connLimiter \<Rightarrow> bool \<Rightarrow> counts list \<Rightarrow> connLimiter" where
  "set_sub cl isIP6 xs = (if isIP6 then cl\<lparr>ip6connsPerLimit := xs\<rparr> else cl\<lparr>ip4connsPerLimit := xs\<rparr>)"

text \<open>A slice of counters is allocated at its first use.\<close>

definition init_slice :: "'a \<Rightarrow> 'a list \<Rightarrow> 'b list \<Rightarrow> 'a list" where
  "init_slice z xs ls = (if length xs = 0 \<and> length ls > 0 then replicate (length ls) z else xs)"

section \<open>Adding a connection\<close>

fun first_match :: "NetworkPrefixLimit list \<Rightarrow> Addr \<Rightarrow> (nat \<times> NetworkPrefixLimit) option" where
  "first_match [] ip = None"
| "first_match (l # ls) ip =
     (if prefix_Contains (Network l) ip then Some (0, l)
      else map_option (\<lambda>(i, m). (Suc i, m)) (first_match ls ip))"

definition count_of :: "counts \<Rightarrow> Prefix \<Rightarrow> int" where
  "count_of c p = (case c p of None \<Rightarrow> 0 | Some n \<Rightarrow> n)"

text \<open>The checking loop inserts a zero entry for every prefix it looks at.\<close>

fun check_subnets :: "ConnLimitPerSubnet list \<Rightarrow> Addr \<Rightarrow> counts list \<Rightarrow> (counts list \<times> bool) option" where
  "check_subnets [] ip cs = Some (cs, True)"
| "check_subnets (l # ls) ip cs =
     (case Addr_Prefix ip (PrefixLength l) of
        None \<Rightarrow> Some (cs, False)
      | Some p \<Rightarrow>
          (case cs of
             [] \<Rightarrow> None
           | c # cs' \<Rightarrow>
               let c' = (if c p = None then c(p \<mapsto> 0) else c)
               in if count_of c p + 1 > ConnCount l then Some (c' # cs', False)
                  else map_option (\<lambda>(r, ok). (c' # r, ok)) (check_subnets ls ip cs')))"

fun bump_subnets :: "ConnLimitPerSubnet list \<Rightarrow> Addr \<Rightarrow> counts list \<Rightarrow> counts list option" where
  "bump_subnets [] ip cs = Some cs"
| "bump_subnets (l # ls) ip [] = None"
| "bump_subnets (l # ls) ip (c # cs) =
     (let p = (case Addr_Prefix ip (PrefixLength l) of Some p \<Rightarrow> p | None \<Rightarrow> \<lparr>paddr = NoAddr, pbits = 0\<rparr>)
      in map_option (\<lambda>r. c(p \<mapsto> count_of c p + 1) # r) (bump_subnets ls ip cs))"

definition cl_addConn :: "connLimiter \<Rightarrow> Addr \<Rightarrow> (connLimiter \<times> bool) option" where
  "cl_addConn cl ip =
     (let isIP6 = Is6 ip;
          npl = networkPrefixLimits cl isIP6;
          np = init_slice 0 (connsPerNetworkPrefix cl isIP6) npl;
          cl1 = set_np cl isIP6 np
      in case first_match npl ip of
           Some (i, l) \<Rightarrow>
             (if i \<ge> length np then None
              else if np ! i + 1 > NPConnCount l then Some (cl1, False)
              else Some (set_np cl isIP6 (np[i := np ! i + 1]), True))
         | None \<Rightarrow>
             (let ls = subnetLimits cl isIP6;
                  cs = init_slice Map.empty (connsPerLimit cl isIP6) ls
              in case check_subnets ls ip cs of
                   None \<Rightarrow> None
                 | Some (cs', False) \<Rightarrow> Some (set_sub cl1 isIP6 cs', False)
                 | Some (cs', True) \<Rightarrow>
                     map_option (\<lambda>cs2. (set_sub cl1 isIP6 cs2, True)) (bump_subnets ls ip cs')))"

section \<open>Removing a connection\<close>

definition drop_count :: "counts \<Rightarrow> Prefix \<Rightarrow> counts" where
  "drop_count c p =
     (if c p = None \<or> c p = Some 0 then c
      else if count_of c p - 1 \<le> 0 then c(p := None)
      else c(p \<mapsto> count_of c p - 1))"

fun drop_subnets :: "ConnLimitPerSubnet list \<Rightarrow> Addr \<Rightarrow> counts list \<Rightarrow> counts list option" where
  "drop_subnets [] ip cs = Some cs"
| "drop_subnets (l # ls) ip cs =
     (case Addr_Prefix ip (PrefixLength l) of
        None \<Rightarrow>
          (case cs of [] \<Rightarrow> drop_subnets ls ip []
           | c # cs' \<Rightarrow> map_option (\<lambda>r. c # r) (drop_subnets ls ip cs'))
      | Some p \<Rightarrow>
          (case cs of
             [] \<Rightarrow> None
           | c # cs' \<Rightarrow>
               map_option (\<lambda>r. drop_count c p # r) (drop_subnets ls ip cs')))"

definition cl_rmConn :: "connLimiter \<Rightarrow> Addr \<Rightarrow> connLimiter option" where
  "cl_rmConn cl ip =
     (let isIP6 = Is6 ip;
          npl = networkPrefixLimits cl isIP6;
          np = init_slice 0 (connsPerNetworkPrefix cl isIP6) npl;
          cl1 = set_np cl isIP6 np
      in case first_match npl ip of
           Some (i, l) \<Rightarrow>
             (if i \<ge> length np then None
              else if np ! i \<le> 0 then Some cl1
              else Some (set_np cl isIP6 (np[i := np ! i - 1])))
         | None \<Rightarrow>
             (let ls = subnetLimits cl isIP6;
                  cs = init_slice Map.empty (connsPerLimit cl isIP6) ls
              in map_option (\<lambda>cs'. set_sub cl1 isIP6 cs') (drop_subnets ls ip cs)))"

section \<open>The loops over the subnets\<close>

text \<open>
  Entries with the value zero and absent entries are the same to the code: what counts is
  \<^term>\<open>count_of\<close>. \<^term>\<open>fits\<close>: every subnet of the address has room for one more.
\<close>

type_synonym view = "Prefix \<Rightarrow> int"

definition fits1 :: "Addr \<Rightarrow> ConnLimitPerSubnet \<Rightarrow> view \<Rightarrow> bool" where
  "fits1 ip l v = (case Addr_Prefix ip (PrefixLength l) of
     None \<Rightarrow> False | Some p \<Rightarrow> v p + 1 \<le> ConnCount l)"

definition shift1 :: "int \<Rightarrow> Addr \<Rightarrow> ConnLimitPerSubnet \<Rightarrow> view \<Rightarrow> view" where
  "shift1 d ip l v = (case Addr_Prefix ip (PrefixLength l) of
     None \<Rightarrow> v | Some p \<Rightarrow> v(p := max 0 (v p + d)))"

definition sub_ok :: "ConnLimitPerSubnet list \<Rightarrow> view list \<Rightarrow> bool" where
  "sub_ok ls vs \<longleftrightarrow> list_all2 (\<lambda>l v. \<forall>p. 0 \<le> v p \<and> v p \<le> max 0 (ConnCount l)) ls vs"

lemma count_of_upd [simp]:
  "count_of (c(p \<mapsto> n)) = (count_of c)(p := n)" "count_of (c(p := None)) = (count_of c)(p := 0)"
  "count_of Map.empty p = 0"
  by (auto simp: count_of_def fun_eq_iff)

lemma count_of_absent: "c p = None \<Longrightarrow> (count_of c)(p := 0) = count_of c"
  by (auto simp: count_of_def fun_eq_iff)

lemma count_of_drop_count:
  "0 \<le> count_of c p \<Longrightarrow> count_of (drop_count c p) = (count_of c)(p := max 0 (count_of c p - 1))"
  by (cases "c p") (auto simp: drop_count_def count_of_def fun_eq_iff)

lemma check_subnets_spec:
  assumes "length cs = length ls"
  shows "\<exists>cs'. check_subnets ls ip cs = Some (cs', list_all2 (fits1 ip) ls (map count_of cs)) \<and>
    map count_of cs' = map count_of cs"
  using assms
proof (induction ls ip cs rule: check_subnets.induct)
  case (2 l ls ip cs)
  then obtain c cs1 where cs: "cs = c # cs1" "length cs1 = length ls" by (cases cs) auto
  show ?case
  proof (cases "Addr_Prefix ip (PrefixLength l)")
    case None
    then show ?thesis by (simp add: cs fits1_def)
  next
    case (Some p)
    with 2(1) [OF Some cs(1)] cs(2) show ?thesis
      by (auto simp: cs fits1_def Let_def count_of_absent)
  qed
qed simp

lemma bump_subnets_spec:
  assumes "list_all2 (fits1 ip) ls (map count_of cs)" and "sub_ok ls (map count_of cs)"
  shows "\<exists>cs'. bump_subnets ls ip cs = Some cs' \<and>
    map count_of cs' = map2 (shift1 1 ip) ls (map count_of cs)"
  using assms
  by (induction ls ip cs rule: bump_subnets.induct)
     (auto simp: fits1_def shift1_def sub_ok_def fun_eq_iff split: option.splits)

lemma drop_subnets_spec:
  assumes "sub_ok ls (map count_of cs)"
  shows "\<exists>cs'. drop_subnets ls ip cs = Some cs' \<and>
    map count_of cs' = map2 (shift1 (- 1) ip) ls (map count_of cs)"
  using assms
proof (induction ls ip cs rule: drop_subnets.induct)
  case (2 l ls ip cs)
  then obtain c cs1 where cs: "cs = c # cs1" "sub_ok ls (map count_of cs1)"
      and c: "\<And>p. 0 \<le> count_of c p"
    by (cases cs) (auto simp: sub_ok_def)
  show ?case
  proof (cases "Addr_Prefix ip (PrefixLength l)")
    case None
    with 2(1,2) cs show ?thesis by (auto simp: shift1_def)
  next
    case (Some p)
    with 2(3) [OF Some cs(1)] cs c [of p] show ?thesis
      by (auto simp: shift1_def count_of_drop_count)
  qed
qed (simp add: sub_ok_def)

section \<open>The limiter as a whole\<close>

definition np_view :: "connLimiter \<Rightarrow> bool \<Rightarrow> int list" where
  "np_view cl f = init_slice 0 (connsPerNetworkPrefix cl f) (networkPrefixLimits cl f)"

definition sub_slice :: "connLimiter \<Rightarrow> bool \<Rightarrow> counts list" where
  "sub_slice cl f = init_slice Map.empty (connsPerLimit cl f) (subnetLimits cl f)"

definition sub_view :: "connLimiter \<Rightarrow> bool \<Rightarrow> (Prefix \<Rightarrow> int) list" where
  "sub_view cl f = map count_of (sub_slice cl f)"

definition has_room :: "connLimiter \<Rightarrow> Addr \<Rightarrow> bool" where
  "has_room cl ip =
     (case first_match (networkPrefixLimits cl (Is6 ip)) ip of
        Some (i, l) \<Rightarrow> np_view cl (Is6 ip) ! i + 1 \<le> NPConnCount l
      | None \<Rightarrow> list_all2 (fits1 ip) (subnetLimits cl (Is6 ip)) (sub_view cl (Is6 ip)))"

definition np_shift :: "int \<Rightarrow> connLimiter \<Rightarrow> Addr \<Rightarrow> bool \<Rightarrow> int list" where
  "np_shift d cl ip f =
     (if f = Is6 ip
      then case first_match (networkPrefixLimits cl f) ip of
             Some (i, l) \<Rightarrow> (np_view cl f)[i := max 0 (np_view cl f ! i + d)]
           | None \<Rightarrow> np_view cl f
      else np_view cl f)"

definition sub_shift :: "int \<Rightarrow> connLimiter \<Rightarrow> Addr \<Rightarrow> bool \<Rightarrow> (Prefix \<Rightarrow> int) list" where
  "sub_shift d cl ip f =
     (if f = Is6 ip \<and> first_match (networkPrefixLimits cl f) ip = None
      then map2 (shift1 d ip) (subnetLimits cl f) (sub_view cl f) else sub_view cl f)"

definition same_limits :: "connLimiter \<Rightarrow> connLimiter \<Rightarrow> bool" where
  "same_limits cl cl' \<longleftrightarrow> (\<forall>f. networkPrefixLimits cl' f = networkPrefixLimits cl f \<and>
     subnetLimits cl' f = subnetLimits cl f)"

lemmas cl_sel_defs = networkPrefixLimits_def connsPerNetworkPrefix_def subnetLimits_def connsPerLimit_def

lemma cl_sel_simps [simp]:
  "networkPrefixLimits (set_np cl f xs) g = networkPrefixLimits cl g"
  "subnetLimits (set_np cl f xs) g = subnetLimits cl g"
  "connsPerNetworkPrefix (set_np cl f xs) g = (if g = f then xs else connsPerNetworkPrefix cl g)"
  "connsPerLimit (set_np cl f xs) g = connsPerLimit cl g"
  "networkPrefixLimits (set_sub cl f cs) g = networkPrefixLimits cl g"
  "subnetLimits (set_sub cl f cs) g = subnetLimits cl g"
  "connsPerNetworkPrefix (set_sub cl f cs) g = connsPerNetworkPrefix cl g"
  "connsPerLimit (set_sub cl f cs) g = (if g = f then cs else connsPerLimit cl g)"
  by (simp_all add: cl_sel_defs set_np_def set_sub_def)

lemma init_slice_full: "length xs = length ls \<Longrightarrow> init_slice z xs ls = xs"
  by (auto simp: init_slice_def)

lemma first_match_SomeD:
  "first_match ls ip = Some (i, l) \<Longrightarrow> i < length ls \<and> ls ! i = l \<and> prefix_Contains (Network l) ip"
  by (induction ls arbitrary: i) (auto split: if_splits)

definition np_ok :: "NetworkPrefixLimit list \<Rightarrow> int list \<Rightarrow> bool" where
  "np_ok npl np \<longleftrightarrow> list_all2 (\<lambda>l n. 0 \<le> n \<and> n \<le> max 0 (NPConnCount l)) npl np"

definition cl_ok :: "connLimiter \<Rightarrow> bool" where
  "cl_ok cl \<longleftrightarrow> (\<forall>f. np_ok (networkPrefixLimits cl f) (np_view cl f) \<and>
     sub_ok (subnetLimits cl f) (sub_view cl f))"

lemma cl_okD:
  assumes "cl_ok cl"
  shows "np_ok (networkPrefixLimits cl f) (np_view cl f)"
    "sub_ok (subnetLimits cl f) (sub_view cl f)"
    "length (np_view cl f) = length (networkPrefixLimits cl f)"
    "length (sub_slice cl f) = length (subnetLimits cl f)"
proof -
  show np: "np_ok (networkPrefixLimits cl f) (np_view cl f)"
    and sub: "sub_ok (subnetLimits cl f) (sub_view cl f)"
    using assms by (simp_all add: cl_ok_def)
  show "length (np_view cl f) = length (networkPrefixLimits cl f)"
    using list_all2_lengthD [OF np [unfolded np_ok_def]] by simp
  show "length (sub_slice cl f) = length (subnetLimits cl f)"
    using list_all2_lengthD [OF sub [unfolded sub_ok_def]] by (simp add: sub_view_def)
qed

lemma view_set [simp]:
  "length xs = length (networkPrefixLimits cl f) \<Longrightarrow>
   np_view (set_np cl f xs) g = (if g = f then xs else np_view cl g)"
  "np_view (set_sub cl f cs) g = np_view cl g"
  "length cs = length (subnetLimits cl f) \<Longrightarrow>
   sub_slice (set_sub cl f cs) g = (if g = f then cs else sub_slice cl g)"
  "sub_slice (set_np cl f xs) g = sub_slice cl g"
  by (auto simp: np_view_def sub_slice_def init_slice_full)

text \<open>One connection more or less keeps every count within its bounds.\<close>

lemma np_shift_ok:
  assumes "cl_ok cl" "d = - 1 \<or> d = 1 \<and> has_room cl ip"
  shows "np_ok (networkPrefixLimits cl f) (np_shift d cl ip f)"
proof -
  let ?npl = "networkPrefixLimits cl f" and ?np = "np_view cl f"
  note a = cl_okD(1) [OF assms(1), of f]
  show ?thesis
  proof (cases "first_match ?npl ip")
    case (Some m)
    obtain i l where m: "m = (i, l)" by (cases m)
    then have i: "i < length ?npl" "?npl ! i = l"
      using Some first_match_SomeD [of ?npl ip i l] by auto
    then have b: "0 \<le> ?np ! i \<and> ?np ! i \<le> max 0 (NPConnCount l)"
      using a by (auto simp: np_ok_def list_all2_conv_all_nth)
    have c: "max 0 (?np ! i + d) \<le> max 0 (NPConnCount l)" if "f = Is6 ip"
      using b assms(2) that Some m by (auto simp: has_room_def)
    have "np_ok (?npl[i := l]) (?np[i := max 0 (?np ! i + d)])"
      if "f = Is6 ip"
      using a c [OF that] unfolding np_ok_def by (intro list_all2_update_cong) auto
    moreover have "?npl[i := l] = ?npl" using i(2) by auto
    ultimately show ?thesis using a Some m by (auto simp: np_shift_def)
  qed (use a in \<open>auto simp: np_shift_def\<close>)
qed

lemma sub_shift_ok:
  assumes "cl_ok cl" "d = - 1 \<or> d = 1 \<and> has_room cl ip"
  shows "sub_ok (subnetLimits cl f) (sub_shift d cl ip f)"
proof (cases "f = Is6 ip \<and> first_match (networkPrefixLimits cl f) ip = None")
  case True
  note ok = cl_okD(2) [OF assms(1), of f]
  have "0 \<le> shift1 d ip l v p \<and> shift1 d ip l v p \<le> max 0 (ConnCount l)"
    if "\<forall>p. 0 \<le> v p \<and> v p \<le> max 0 (ConnCount l)" "d = - 1 \<or> d = 1 \<and> fits1 ip l v" for l v p
    using that by (fastforce simp: shift1_def fits1_def split: option.splits)
  moreover have "d = - 1 \<or> d = 1 \<and> list_all2 (fits1 ip) (subnetLimits cl f) (sub_view cl f)"
    using assms(2) True by (auto simp: has_room_def)
  ultimately have "sub_ok (subnetLimits cl f) (map2 (shift1 d ip) (subnetLimits cl f) (sub_view cl f))"
    using ok unfolding sub_ok_def list_all2_conv_all_nth by auto
  with True show ?thesis by (auto simp: sub_shift_def)
next
  case False
  then have "sub_shift d cl ip f = sub_view cl f" by (simp only: sub_shift_def if_False)
  then show ?thesis using cl_okD(2) [OF assms(1), of f] by simp
qed

lemma cl_ok_shift:
  assumes "cl_ok cl" "same_limits cl cl'" "d = - 1 \<or> d = 1 \<and> has_room cl ip"
    and "\<And>f. np_view cl' f = np_shift d cl ip f" "\<And>f. sub_view cl' f = sub_shift d cl ip f"
  shows "cl_ok cl'"
  using np_shift_ok [OF assms(1,3)] sub_shift_ok [OF assms(1,3)] assms(2)
  by (simp add: cl_ok_def assms(4,5) same_limits_def)

lemma cl_ok_same:
  assumes "cl_ok cl" "same_limits cl cl'"
    and "\<And>f. np_view cl' f = np_view cl f" "\<And>f. sub_view cl' f = sub_view cl f"
  shows "cl_ok cl'"
  using assms(1,2) by (simp add: cl_ok_def assms(3,4) same_limits_def)

lemma same_limits_set:
  "same_limits cl (set_np cl f xs)" "same_limits cl (set_sub (set_np cl f xs) g cs)"
  by (simp_all add: same_limits_def)

text \<open>Adding: the answer is \<^term>\<open>has_room\<close>, and a refusal changes no count.\<close>

lemma addConn_views:
  assumes ok: "cl_ok cl"
  shows "\<exists>cl'. cl_addConn cl ip = Some (cl', has_room cl ip) \<and> same_limits cl cl' \<and>
    (\<forall>f. np_view cl' f = (if has_room cl ip then np_shift 1 cl ip f else np_view cl f)) \<and>
    (\<forall>f. sub_view cl' f = (if has_room cl ip then sub_shift 1 cl ip f else sub_view cl f))"
proof -
  define f where "f = Is6 ip"
  note len = cl_okD(3,4) [OF ok, of f] and sub = cl_okD(2) [OF ok, of f]
  note np = np_view_def [of cl f, symmetric] and sl = sub_slice_def [of cl f, symmetric]
  show ?thesis
  proof (cases "first_match (networkPrefixLimits cl f) ip")
    case (Some m)
    obtain i l where m: "m = (i, l)" by (cases m)
    have i: "i < length (np_view cl f)"
      using first_match_SomeD [of "networkPrefixLimits cl f" ip i l] Some m len by simp
    have nn: "0 \<le> np_view cl f ! i"
      using cl_okD(1) [OF ok, of f] i by (auto simp: np_ok_def list_all2_conv_all_nth)
    have room: "has_room cl ip \<longleftrightarrow> np_view cl f ! i + 1 \<le> NPConnCount l"
      using Some m by (simp add: has_room_def f_def)
    show ?thesis
      using Some m i nn len room
      by (auto simp: cl_addConn_def Let_def np same_limits_set np_shift_def sub_shift_def sub_view_def
          simp flip: f_def)
  next
    case None
    have room: "has_room cl ip \<longleftrightarrow> list_all2 (fits1 ip) (subnetLimits cl f) (sub_view cl f)"
      using None by (simp add: has_room_def f_def)
    obtain cs' where cs': "check_subnets (subnetLimits cl f) ip (sub_slice cl f) =
        Some (cs', has_room cl ip)" "map count_of cs' = sub_view cl f"
      using check_subnets_spec [OF len(2), of ip] by (auto simp: room sub_view_def)
    then have len': "length cs' = length (subnetLimits cl f)"
      by (metis len(2) length_map sub_view_def)
    show ?thesis
    proof (cases "has_room cl ip")
      case True
      then obtain cs2 where "bump_subnets (subnetLimits cl f) ip cs' = Some cs2"
          "map count_of cs2 = map2 (shift1 1 ip) (subnetLimits cl f) (sub_view cl f)"
        using bump_subnets_spec [of ip "subnetLimits cl f" cs'] sub room cs'(2) by auto
      moreover from this have "length cs2 = length (subnetLimits cl f)"
        by (metis len(2) length_map length_zip min.idem sub_view_def)
      ultimately show ?thesis
        using True None cs' len
        by (auto simp: cl_addConn_def Let_def np sl same_limits_set np_shift_def sub_shift_def sub_view_def
            simp flip: f_def)
    next
      case False
      then show ?thesis
        using None cs' len len'
        by (auto simp: cl_addConn_def Let_def np sl same_limits_set np_shift_def sub_shift_def sub_view_def
            simp flip: f_def)
    qed
  qed
qed

lemma rmConn_views:
  assumes ok: "cl_ok cl"
  shows "\<exists>cl'. cl_rmConn cl ip = Some cl' \<and> same_limits cl cl' \<and>
    (\<forall>f. np_view cl' f = np_shift (- 1) cl ip f) \<and> (\<forall>f. sub_view cl' f = sub_shift (- 1) cl ip f)"
proof -
  define f where "f = Is6 ip"
  note len = cl_okD(3,4) [OF ok, of f] and sub = cl_okD(2) [OF ok, of f]
  note np = np_view_def [of cl f, symmetric] and sl = sub_slice_def [of cl f, symmetric]
  show ?thesis
  proof (cases "first_match (networkPrefixLimits cl f) ip")
    case (Some m)
    obtain i l where m: "m = (i, l)" by (cases m)
    have i: "i < length (np_view cl f)"
      using first_match_SomeD [of "networkPrefixLimits cl f" ip i l] Some m len by simp
    have nn: "0 \<le> np_view cl f ! i"
      using cl_okD(1) [OF ok, of f] i by (auto simp: np_ok_def list_all2_conv_all_nth)
    then have "(np_view cl f)[i := max 0 (np_view cl f ! i - 1)] = np_view cl f" if "np_view cl f ! i \<le> 0"
      using that by (metis diff_ge_0_iff_ge int_one_le_iff_zero_less leD list_update_id max.commute
          max.order_iff nle_le order_antisym)
    with Some m i nn len show ?thesis
      by (auto simp: cl_rmConn_def Let_def np same_limits_set np_shift_def sub_shift_def sub_view_def
          simp flip: f_def)
  next
    case None
    obtain cs2 where "drop_subnets (subnetLimits cl f) ip (sub_slice cl f) = Some cs2"
        "map count_of cs2 = map2 (shift1 (- 1) ip) (subnetLimits cl f) (sub_view cl f)"
      using drop_subnets_spec [of "subnetLimits cl f" "sub_slice cl f" ip] sub
      by (auto simp: sub_view_def)
    moreover from this have "length cs2 = length (subnetLimits cl f)"
      by (metis len(2) length_map length_zip min.idem sub_view_def)
    ultimately show ?thesis
      using None len
      by (auto simp: cl_rmConn_def Let_def np sl same_limits_set np_shift_def sub_shift_def sub_view_def
          simp flip: f_def)
  qed
qed

lemma shift1_back:
  "0 \<le> v p' \<Longrightarrow> fits1 ip l v \<Longrightarrow> \<forall>p. 0 \<le> v p \<Longrightarrow> shift1 (- 1) ip l (shift1 1 ip l v) = v"
  by (auto simp: shift1_def fits1_def fun_eq_iff split: option.splits)

lemma sub_shift_back:
  "list_all2 (fits1 ip) ls vs \<Longrightarrow> sub_ok ls vs \<Longrightarrow>
   map2 (shift1 (- 1) ip) ls (map2 (shift1 1 ip) ls vs) = vs"
  by (induction ls vs rule: list_all2_induct) (auto simp: sub_ok_def shift1_back)

lemma rm_add_views:
  assumes ok: "cl_ok cl" and add: "cl_addConn cl ip = Some (cl1, True)"
  shows "\<exists>cl2. cl_rmConn cl1 ip = Some cl2 \<and>
    (\<forall>f. np_view cl2 f = np_view cl f) \<and> (\<forall>f. sub_view cl2 f = sub_view cl f)"
proof -
  from addConn_views [OF ok, of ip] add have room: "has_room cl ip" and lim: "same_limits cl cl1"
    and v1: "\<And>f. np_view cl1 f = np_shift 1 cl ip f" "\<And>f. sub_view cl1 f = sub_shift 1 cl ip f"
    by auto
  have ok1: "cl_ok cl1" using cl_ok_shift [OF ok lim _ v1] room by blast
  from rmConn_views [OF ok1, of ip] obtain cl2 where rm: "cl_rmConn cl1 ip = Some cl2"
    and v2: "\<And>f. np_view cl2 f = np_shift (- 1) cl1 ip f" "\<And>f. sub_view cl2 f = sub_shift (- 1) cl1 ip f"
    by auto
  have lims: "networkPrefixLimits cl1 f = networkPrefixLimits cl f" "subnetLimits cl1 f = subnetLimits cl f" for f
    using lim by (simp_all add: same_limits_def)
  have np: "np_view cl2 f = np_view cl f" for f
  proof (cases "f = Is6 ip")
    case True
    show ?thesis
    proof (cases "first_match (networkPrefixLimits cl f) ip")
      case (Some m)
      obtain i l where m: "m = (i, l)" by (cases m)
      have i: "i < length (np_view cl f)"
        using first_match_SomeD [of "networkPrefixLimits cl f" ip i l] Some m cl_okD(3) [OF ok, of f] by simp
      then have "0 \<le> np_view cl f ! i"
        using cl_okD(1) [OF ok, of f] by (auto simp: np_ok_def list_all2_conv_all_nth)
      with True Some m i show ?thesis by (simp add: v1 v2 np_shift_def lims)
    qed (use True in \<open>auto simp: v1 v2 np_shift_def lims\<close>)
  qed (simp add: v1 v2 np_shift_def)
  have "sub_view cl2 f = sub_view cl f" for f
    using room cl_okD(2) [OF ok, of f] sub_shift_back [of ip "subnetLimits cl f" "sub_view cl f"]
    by (auto simp: v1 v2 sub_shift_def lims has_room_def)
  with rm np show ?thesis by blast
qed

lemma cl_ok_new: "cl_ok newConnLimiter"
  by (auto simp: cl_ok_def np_ok_def sub_ok_def np_view_def sub_view_def sub_slice_def init_slice_def
      newConnLimiter_def cl_sel_defs DefaultNetworkPrefixLimitV4_def DefaultNetworkPrefixLimitV6_def
      sortNetworkPrefixes_def defaultIP6Limits_def list_all2_Cons1)

section \<open>The most specific prefix wins\<close>

lemma first_match_first:
  "first_match ls ip = Some (i, l) \<Longrightarrow> j < i \<Longrightarrow> \<not> prefix_Contains (Network (ls ! j)) ip"
proof (induction ls arbitrary: i j)
  case (Cons a ls)
  then show ?case by (cases j) (auto split: if_splits)
qed simp

lemma first_match_most_specific:
  assumes "first_match (sortNetworkPrefixes ls) ip = Some (i, l)"
    and "m \<in> set ls" and "prefix_Contains (Network m) ip"
  shows "pbits (Network m) \<le> pbits (Network l)"
proof -
  let ?s = "sortNetworkPrefixes ls"
  obtain j where j: "j < length ?s" "?s ! j = m"
    using assms(2) by (metis in_set_conv_nth set_sort sortNetworkPrefixes_def)
  have i: "i < length ?s" "?s ! i = l" using first_match_SomeD [OF assms(1)] by auto
  have "\<not> j < i" using first_match_first [OF assms(1), of j] j assms(3) by auto
  moreover have "sorted (map (\<lambda>l. - int (pbits (Network l))) ?s)"
    by (simp add: sortNetworkPrefixes_def)
  ultimately have "map (\<lambda>l. - int (pbits (Network l))) ?s ! i \<le> map (\<lambda>l. - int (pbits (Network l))) ?s ! j"
    using j i by (intro sorted_nth_mono) auto
  then show ?thesis using i j by simp
qed

section \<open>Properties\<close>

text \<open>
  C17. In every state within its limits the limiter answers \<open>true\<close> exactly when the matching
  network prefix, or else every subnet of the address, has room for one more connection; it
  never panics, stays within its limits, and a refusal changes no count.
\<close>
theorem addConn_admits_iff_room:
  assumes "cl_ok cl"
  shows "\<exists>cl'. cl_addConn cl ip = Some (cl', has_room cl ip) \<and> cl_ok cl' \<and>
    (\<not> has_room cl ip \<longrightarrow> (\<forall>f. np_view cl' f = np_view cl f \<and> sub_view cl' f = sub_view cl f))"
proof -
  obtain cl' where *: "cl_addConn cl ip = Some (cl', has_room cl ip)" "same_limits cl cl'"
      "\<forall>f. np_view cl' f = (if has_room cl ip then np_shift 1 cl ip f else np_view cl f)"
      "\<forall>f. sub_view cl' f = (if has_room cl ip then sub_shift 1 cl ip f else sub_view cl f)"
    using addConn_views [OF assms] by blast
  moreover have "cl_ok cl'"
    using cl_ok_shift [OF assms *(2), of 1 ip] cl_ok_same [OF assms *(2)] *(3,4)
    by (cases "has_room cl ip") auto
  ultimately show ?thesis by simp
qed

theorem addConn_admits_iff_room_witness:
  "cl_ok newConnLimiter \<and> (\<exists>cl'. cl_addConn newConnLimiter (IP4 0x7F000001) =
     Some (cl', has_room newConnLimiter (IP4 0x7F000001)))"
  using addConn_admits_iff_room [OF cl_ok_new, of "IP4 0x7F000001"] cl_ok_new by blast

text \<open>
  C18. Removing a connection that was admitted restores every count.
\<close>
theorem rmConn_undoes_addConn:
  assumes "cl_ok cl" and "cl_addConn cl ip = Some (cl1, True)"
  shows "\<exists>cl2. cl_rmConn cl1 ip = Some cl2 \<and>
    (\<forall>f. np_view cl2 f = np_view cl f \<and> sub_view cl2 f = sub_view cl f)"
  using rm_add_views [OF assms] by blast

lemma new_admits: "has_room newConnLimiter (IP4 0x01020304)"
  by (simp add: has_room_def newConnLimiter_def cl_sel_defs DefaultNetworkPrefixLimitV4_def sortNetworkPrefixes_def
      sub_view_def sub_slice_def init_slice_def fits1_def defaultIP4Limit_def defaultMaxConcurrentConns_def)

theorem rmConn_undoes_addConn_witness:
  "\<exists>cl1 cl2. cl_addConn newConnLimiter (IP4 0x01020304) = Some (cl1, True) \<and>
     cl_rmConn cl1 (IP4 0x01020304) = Some cl2 \<and> (\<forall>f. np_view cl2 f = np_view newConnLimiter f)"
proof -
  obtain cl1 where "cl_addConn newConnLimiter (IP4 0x01020304) = Some (cl1, True)"
    using addConn_views [OF cl_ok_new, of "IP4 0x01020304"] new_admits by auto
  with rmConn_undoes_addConn [OF cl_ok_new this] show ?thesis by blast
qed

text \<open>
  Among the configured network prefixes that contain an address, the limiter uses one
  with the most bits.
\<close>
lemma most_specific_prefix_wins:
  assumes "first_match (sortNetworkPrefixes ls) ip = Some (i, l)"
    and "m \<in> set ls" and "prefix_Contains (Network m) ip"
  shows "pbits (Network m) \<le> pbits (Network l) \<and> prefix_Contains (Network l) ip"
  using first_match_most_specific [OF assms] first_match_SomeD [OF assms(1)] by simp

end
