(* ===== verification/Allowlist.thy ===== *)
theory Allowlist
  imports Netip "HOL-Library.AList"
begin

text \<open>
  The allowlist of the resource manager (\<^verbatim>\<open>allowlist.go\<close>). A multiaddr is the list of its
  components; the values of \<^verbatim>\<open>/ip4\<close>, \<^verbatim>\<open>/ip6\<close> and \<^verbatim>\<open>/ipcidr\<close> components are kept parsed, because
  the textual value of a valid component parses back to it. The map from peers to
  networks is an association list with distinct keys.
\<close>

section \<open>Networks\<close>

datatype ma_component =
    CIP4 "32 word"
  | CIP6 "128 word"
  | CIP6ZONE
  | CIPCIDR nat
  | CP2P peer_id
  | COther

type_synonym multiaddr = "ma_component list"

type_synonym IPNet = Prefix

text \<open>\<^verbatim>\<open>net.IP.To4\<close>: an IPv4-mapped IPv6 address is the IPv4 address to package \<^verbatim>\<open>net\<close>.\<close>

definition mapped4 :: "128 word \<Rightarrow> bool" where
  "mapped4 a \<longleftrightarrow> drop_bit 32 a = 0xFFFF"

fun To4 :: "Addr \<Rightarrow> Addr" where
  "To4 (IP6 a) = (if mapped4 a then IP4 (ucast a) else IP6 a)"
| "To4 ip = ip"

definition networkNumberAndMask :: "IPNet \<Rightarrow> Prefix" where
  "networkNumberAndMask n =
     \<lparr>paddr = To4 (paddr n), pbits = (if Is6 (paddr n) \<and> \<not> Is6 (To4 (paddr n)) then pbits n - 96 else pbits n)\<rparr>"

definition IPNet_Contains :: "IPNet \<Rightarrow> Addr \<Rightarrow> bool" where
  "IPNet_Contains n ip = prefix_Contains (networkNumberAndMask n) (To4 ip)"

text \<open>\<^verbatim>\<open>manet.ToIP\<close>: the address in the first component that is not a zone.\<close>

fun ToIP :: "multiaddr \<Rightarrow> Addr option" where
  "ToIP [] = None"
| "ToIP (CIP4 a # _) = Some (IP4 a)"
| "ToIP (CIP6 a # _) = Some (IP6 a)"
| "ToIP (CIP6ZONE # cs) = ToIP cs"
| "ToIP (_ # cs) = None"

record ipnet_acc =
  acc_ip :: "Addr option"
  acc_mask :: "nat option"
  acc_peer :: "peer_id option"

fun scan_components :: "multiaddr \<Rightarrow> ipnet_acc \<Rightarrow> ipnet_acc" where
  "scan_components [] a = a"
| "scan_components (c # cs) a =
     (let a' = (case c of
                  CIP4 w \<Rightarrow> a\<lparr>acc_ip := Some (IP4 w)\<rparr>
                | CIP6 w \<Rightarrow> a\<lparr>acc_ip := Some (IP6 w)\<rparr>
                | CIPCIDR b \<Rightarrow> a\<lparr>acc_mask := Some b\<rparr>
                | CP2P p \<Rightarrow> a\<lparr>acc_peer := Some p\<rparr>
                | _ \<Rightarrow> a)
      in if acc_ip a' = None \<or> acc_mask a' = None \<or> acc_peer a' = None
         then scan_components cs a' else a')"

definition toIPNet :: "multiaddr \<Rightarrow> (IPNet \<times> peer_id) option" where
  "toIPNet ma =
     (let a = scan_components ma \<lparr>acc_ip = None, acc_mask = None, acc_peer = None\<rparr>
      in case acc_ip a of
           None \<Rightarrow> None
         | Some ip \<Rightarrow>
             (let p = (case acc_peer a of None \<Rightarrow> [] | Some p \<Rightarrow> p)
              in case acc_mask a of
                   None \<Rightarrow> Some (\<lparr>paddr = ip, pbits = (if Is4 ip then 32 else 128)\<rparr>, p)
                 | Some b \<Rightarrow> map_option (\<lambda>n. (n, p)) (Addr_Prefix ip (int b))))"

section \<open>The allowlist\<close>

record Allowlist =
  allowedNetworks :: "IPNet list"
  allowedPeerByNetwork :: "(peer_id \<times> IPNet list) list"

definition newAllowlist :: Allowlist where
  "newAllowlist = \<lparr>allowedNetworks = [], allowedPeerByNetwork = []\<rparr>"

definition nets_of :: "Allowlist \<Rightarrow> peer_id \<Rightarrow> IPNet list" where
  "nets_of al p = (case map_of (allowedPeerByNetwork al) p of None \<Rightarrow> [] | Some ns \<Rightarrow> ns)"

definition Add :: "Allowlist \<Rightarrow> multiaddr \<Rightarrow> Allowlist option" where
  "Add al ma =
     (case toIPNet ma of
        None \<Rightarrow> None
      | Some (ipnet, allowedPeer) \<Rightarrow>
          if allowedPeer \<noteq> []
          then Some (al\<lparr>allowedPeerByNetwork :=
                 AList.update allowedPeer (nets_of al allowedPeer @ [ipnet]) (allowedPeerByNetwork al)\<rparr>)
          else Some (al\<lparr>allowedNetworks := allowedNetworks al @ [ipnet]\<rparr>))"

fun WithAllowlistedMultiaddrs :: "multiaddr list \<Rightarrow> Allowlist \<Rightarrow> Allowlist option" where
  "WithAllowlistedMultiaddrs [] al = Some al"
| "WithAllowlistedMultiaddrs (ma # mas) al =
     (case Add al ma of None \<Rightarrow> None | Some al' \<Rightarrow> WithAllowlistedMultiaddrs mas al')"

definition same_net :: "IPNet \<Rightarrow> IPNet \<Rightarrow> bool" where
  "same_net a b \<longleftrightarrow> To4 (paddr a) = To4 (paddr b) \<and> pbits a = pbits b \<and> Is4 (paddr a) = Is4 (paddr b)"

text \<open>The scan from the end with a swap removal of the first hit.\<close>

fun swap_remove :: "nat \<Rightarrow> IPNet \<Rightarrow> IPNet list \<Rightarrow> IPNet list" where
  "swap_remove 0 ipnet ns = ns"
| "swap_remove (Suc i) ipnet ns =
     (if same_net (ns ! i) ipnet then butlast (ns[i := last ns]) else swap_remove i ipnet ns)"

definition Remove :: "Allowlist \<Rightarrow> multiaddr \<Rightarrow> Allowlist option" where
  "Remove al ma =
     (case toIPNet ma of
        None \<Rightarrow> None
      | Some (ipnet, allowedPeer) \<Rightarrow>
          let ipNetList = (if allowedPeer \<noteq> [] then nets_of al allowedPeer else allowedNetworks al)
          in if ipNetList = [] then Some al
             else let ns = swap_remove (length ipNetList) ipnet ipNetList
                  in if allowedPeer \<noteq> []
                     then Some (al\<lparr>allowedPeerByNetwork := AList.update allowedPeer ns (allowedPeerByNetwork al)\<rparr>)
                     else Some (al\<lparr>allowedNetworks := ns\<rparr>))"

definition Allowed :: "Allowlist \<Rightarrow> multiaddr \<Rightarrow> bool" where
  "Allowed al ma =
     (case ToIP ma of
        None \<Rightarrow> False
      | Some ip \<Rightarrow>
          (\<exists>n \<in> set (allowedNetworks al). IPNet_Contains n ip) \<or>
          (\<exists>(p, ns) \<in> set (allowedPeerByNetwork al). \<exists>n \<in> set ns. IPNet_Contains n ip))"

definition AllowedPeerAndMultiaddr :: "Allowlist \<Rightarrow> peer_id \<Rightarrow> multiaddr \<Rightarrow> bool" where
  "AllowedPeerAndMultiaddr al p ma =
     (case ToIP ma of
        None \<Rightarrow> False
      | Some ip \<Rightarrow>
          (\<exists>n \<in> set (allowedNetworks al). IPNet_Contains n ip) \<or>
          (\<exists>n \<in> set (nets_of al p). IPNet_Contains n ip))"

section \<open>Laws\<close>

lemma nets_of_update:
  "nets_of (al\<lparr>allowedPeerByNetwork := AList.update p ns (allowedPeerByNetwork al)\<rparr>) q =
     (if q = p then ns else nets_of al q)"
  by (simp add: nets_of_def update_conv)

lemma nets_of_member:
  "n \<in> set (nets_of al p) \<Longrightarrow> \<exists>ns. (p, ns) \<in> set (allowedPeerByNetwork al) \<and> n \<in> set ns"
  by (cases "map_of (allowedPeerByNetwork al) p") (auto simp: nets_of_def dest: map_of_SomeD)

lemma allowed_peer_allowed: "AllowedPeerAndMultiaddr al p ma \<Longrightarrow> Allowed al ma"
  by (auto simp: AllowedPeerAndMultiaddr_def Allowed_def split: option.splits dest!: nets_of_member)

lemma AllowedPeer_Add:
  assumes "Add al ma = Some al'" "toIPNet ma = Some (net, q)" "ToIP ma2 = Some ip"
  shows "AllowedPeerAndMultiaddr al' p ma2 \<longleftrightarrow>
    AllowedPeerAndMultiaddr al p ma2 \<or> (q = [] \<or> q = p) \<and> IPNet_Contains net ip"
  using assms
  by (auto simp: Add_def AllowedPeerAndMultiaddr_def nets_of_update split: if_splits)
     (auto simp: nets_of_def)

lemma swap_remove_snoc: "swap_remove (Suc (length ns)) n (ns @ [n]) = ns"
  by (simp add: same_net_def)

lemma Remove_Add:
  assumes "Add al ma = Some al'" "Remove al' ma = Some al''"
  shows "allowedNetworks al'' = allowedNetworks al \<and> nets_of al'' = nets_of al"
  using assms
  by (auto simp: Add_def Remove_def Let_def nets_of_update fun_eq_iff swap_remove_snoc
      simp del: swap_remove.simps split: option.splits if_splits)

section \<open>Properties\<close>

text \<open>
  C19. After adding a multiaddr to the allowlist, an address is allowed for a peer exactly
  when it was before, or when it lies in the new network and the entry has no peer
  constraint or names this peer. In particular a peer constraint is never widened.
\<close>
theorem Add_allows_exactly:
  assumes "Add al ma = Some al'" and "toIPNet ma = Some (net, q)" and "ToIP ma2 = Some ip"
  shows "AllowedPeerAndMultiaddr al' p ma2 \<longleftrightarrow>
    AllowedPeerAndMultiaddr al p ma2 \<or> (q = [] \<or> q = p) \<and> IPNet_Contains net ip"
  by (rule AllowedPeer_Add [OF assms])

theorem Add_allows_exactly_witness:
  "\<exists>al'. Add newAllowlist [CIP4 0x0A000000, CIPCIDR 8, CP2P ''Q''] = Some al' \<and>
     AllowedPeerAndMultiaddr al' ''Q'' [CIP4 0x0A010203] \<and>
     \<not> AllowedPeerAndMultiaddr al' ''R'' [CIP4 0x0A010203]"
proof -
  let ?ma = "[CIP4 0x0A000000, CIPCIDR 8, CP2P ''Q'']" and ?net = "\<lparr>paddr = IP4 0x0A000000, pbits = 8\<rparr>"
  have t: "toIPNet ?ma = Some (?net, ''Q'')"
    by (simp add: toIPNet_def Let_def keep_bits_def)
  then obtain al' where a: "Add newAllowlist ?ma = Some al'" by (simp add: Add_def)
  have c: "IPNet_Contains ?net (IP4 0x0A010203)"
    by (simp add: IPNet_Contains_def networkNumberAndMask_def)
  have i: "ToIP [CIP4 0x0A010203] = Some (IP4 0x0A010203)" by simp
  have e: "\<not> AllowedPeerAndMultiaddr newAllowlist p [CIP4 0x0A010203]" for p
    by (simp add: AllowedPeerAndMultiaddr_def newAllowlist_def nets_of_def)
  show ?thesis
    using Add_allows_exactly [OF a t i, of "''Q''"] Add_allows_exactly [OF a t i, of "''R''"] a c e by auto
qed

end
