(* ===== verification/Rcmgr_Manager.thy ===== *)
theory Rcmgr_Manager
  imports Rcmgr_Interleaving Conn_Limiter Allowlist
begin

text \<open>
  The resource manager (\<^verbatim>\<open>rcmgr.go\<close>): the scope graph above the connections and streams,
  and the handlers that attach a connection to a peer and a stream to a protocol and a
  service. The maps of the manager are association lists with distinct keys, in the order
  a Go iteration happens to visit them. Scope objects are identifiers in the store of
  \<^theory_text>\<open>Rcmgr_Scope\<close>, allocated in increasing order; the extra fields of connection and stream
  scopes are kept in tables. Metrics, tracing and the background ticker are left out;
  the verdict of the connection rate limiter is an argument.
\<close>

section \<open>State\<close>

record Limiter =
  GetSystemLimits :: BaseLimit
  GetTransientLimits :: BaseLimit
  GetAllowlistedSystemLimits :: BaseLimit
  GetAllowlistedTransientLimits :: BaseLimit
  GetServiceLimits :: "string \<Rightarrow> BaseLimit"
  GetServicePeerLimits :: "string \<Rightarrow> BaseLimit"
  GetProtocolLimits :: "string \<Rightarrow> BaseLimit"
  GetProtocolPeerLimits :: "string \<Rightarrow> BaseLimit"
  GetPeerLimits :: "peer_id \<Rightarrow> BaseLimit"
  GetStreamLimits :: "peer_id \<Rightarrow> BaseLimit"
  GetConnLimits :: BaseLimit

record connectionScope =
  cdir :: Direction
  cusefd :: bool
  isAllowlisted :: bool
  cpeer :: "sid option"
  endpoint :: multiaddr
  cip :: Addr

record streamScope =
  stdir :: Direction
  speer :: "peer_id \<times> sid"
  ssvc :: "sid option"
  sproto :: "sid option"
  peerProtoScope :: "sid option"
  peerSvcScope :: "sid option"

record resourceManager =
  limits :: Limiter
  connLim :: connLimiter
  allowlist :: Allowlist
  hp :: heap
  nxt :: sid
  system :: sid
  transient :: sid
  allowlistedSystem :: sid
  allowlistedTransient :: sid
  svc :: "(string \<times> sid) list"
  proto :: "(string \<times> sid) list"
  peer :: "(peer_id \<times> sid) list"
  scopePeers :: "((sid \<times> peer_id) \<times> sid) list"
  stickyProto :: "string list"
  stickyPeer :: "peer_id list"
  connId :: int
  streamId :: int
  connScopes :: "sid \<Rightarrow> connectionScope option"
  streamScopes :: "sid \<Rightarrow> streamScope option"

datatype rm_error =
    RateLimitExceeded
  | ConnsPerIPExceeded
  | ScopeError rc_error
  | AlreadyAttachedToPeer
  | AlreadyAttachedToProtocol
  | AlreadyAttachedToService
  | NotAttachedToProtocol
  | NoSuchScope
  | LimiterPanic

section \<open>Scope names\<close>

definition streamScopeName :: "int \<Rightarrow> string" where
  "streamScopeName i = ''stream-'' @ itoa (nat i)"

definition connScopeName :: "int \<Rightarrow> string" where
  "connScopeName i = ''conn-'' @ itoa (nat i)"

definition peerScopeName :: "peer_id \<Rightarrow> string" where
  "peerScopeName p = ''peer:'' @ p"

text \<open>\<^verbatim>\<open>strings.HasPrefix\<close>, \<^verbatim>\<open>strings.Contains\<close> and \<^verbatim>\<open>strings.Index\<close>.\<close>

definition has_prefix :: "string \<Rightarrow> string \<Rightarrow> bool" where
  "has_prefix s p \<longleftrightarrow> take (length p) s = p"

fun index_of :: "string \<Rightarrow> string \<Rightarrow> nat option" where
  "index_of sub [] = (if sub = [] then Some 0 else None)"
| "index_of sub (c # s) =
     (if has_prefix (c # s) sub then Some 0 else map_option Suc (index_of sub s))"

definition contains_str :: "string \<Rightarrow> string \<Rightarrow> bool" where
  "contains_str s sub \<longleftrightarrow> index_of sub s \<noteq> None"

definition IsSpan :: "string \<Rightarrow> bool" where
  "IsSpan nm = contains_str nm ''.span-''"

definition IsSystemScope :: "string \<Rightarrow> bool" where
  "IsSystemScope nm \<longleftrightarrow> nm = ''system''"

definition IsTransientScope :: "string \<Rightarrow> bool" where
  "IsTransientScope nm \<longleftrightarrow> nm = ''transient''"

definition IsStreamScope :: "string \<Rightarrow> bool" where
  "IsStreamScope nm \<longleftrightarrow> has_prefix nm ''stream-'' \<and> \<not> IsSpan nm"

definition IsConnScope :: "string \<Rightarrow> bool" where
  "IsConnScope nm \<longleftrightarrow> has_prefix nm ''conn-'' \<and> \<not> IsSpan nm"

definition PeerStrInScopeName :: "string \<Rightarrow> string" where
  "PeerStrInScopeName nm =
     (if \<not> has_prefix nm ''peer:'' \<or> IsSpan nm then []
      else case index_of ''peer:'' nm of
             None \<Rightarrow> []
           | Some i \<Rightarrow> drop (i + length ''peer:'') nm)"

definition ParseProtocolScopeName :: "string \<Rightarrow> string" where
  "ParseProtocolScopeName nm =
     (if has_prefix nm ''protocol:'' \<and> \<not> IsSpan nm
      then if contains_str nm ''peer:'' then []
           else case index_of '':'' nm of None \<Rightarrow> [] | Some i \<Rightarrow> drop (i + 1) nm
      else [])"

section \<open>New scopes\<close>

definition new_scope :: "resourceManager \<Rightarrow> BaseLimit \<Rightarrow> sid list \<Rightarrow> string \<Rightarrow> resourceManager \<times> sid" where
  "new_scope rm l es nm =
     (rm\<lparr>hp := newResourceScope (hp rm) (nxt rm) l es nm, nxt := Suc (nxt rm)\<rparr>, nxt rm)"

definition upd_heap :: "(heap \<Rightarrow> heap) \<Rightarrow> resourceManager \<Rightarrow> resourceManager" where
  "upd_heap f rm = rm\<lparr>hp := f (hp rm)\<rparr>"

definition newServiceScope :: "resourceManager \<Rightarrow> string \<Rightarrow> resourceManager \<times> sid" where
  "newServiceScope rm service =
     new_scope rm (GetServiceLimits (limits rm) service) [system rm] (''service:'' @ service)"

definition newProtocolScope :: "resourceManager \<Rightarrow> string \<Rightarrow> resourceManager \<times> sid" where
  "newProtocolScope rm pr =
     new_scope rm (GetProtocolLimits (limits rm) pr) [system rm] (''protocol:'' @ pr)"

definition newPeerScope :: "resourceManager \<Rightarrow> peer_id \<Rightarrow> resourceManager \<times> sid" where
  "newPeerScope rm p = new_scope rm (GetPeerLimits (limits rm) p) [system rm] (peerScopeName p)"

definition nextConnId :: "resourceManager \<Rightarrow> resourceManager \<times> int" where
  "nextConnId rm = (rm\<lparr>connId := connId rm + 1\<rparr>, connId rm + 1)"

definition nextStreamId :: "resourceManager \<Rightarrow> resourceManager \<times> int" where
  "nextStreamId rm = (rm\<lparr>streamId := streamId rm + 1\<rparr>, streamId rm + 1)"

definition newConnectionScope ::
  "resourceManager \<Rightarrow> Direction \<Rightarrow> bool \<Rightarrow> multiaddr \<Rightarrow> Addr \<Rightarrow> resourceManager \<times> sid" where
  "newConnectionScope rm dir usefd ep ip =
     (let (rm1, i) = nextConnId rm;
          (rm2, s) = new_scope rm1 (GetConnLimits (limits rm)) [transient rm, system rm] (connScopeName i)
      in (rm2\<lparr>connScopes := (connScopes rm2)(s \<mapsto>
            \<lparr>cdir = dir, cusefd = usefd, isAllowlisted = False, cpeer = None, endpoint = ep, cip = ip\<rparr>)\<rparr>, s))"

definition newAllowListedConnectionScope ::
  "resourceManager \<Rightarrow> Direction \<Rightarrow> bool \<Rightarrow> multiaddr \<Rightarrow> resourceManager \<times> sid" where
  "newAllowListedConnectionScope rm dir usefd ep =
     (let (rm1, i) = nextConnId rm;
          (rm2, s) = new_scope rm1 (GetConnLimits (limits rm))
                       [allowlistedTransient rm, allowlistedSystem rm] (connScopeName i)
      in (rm2\<lparr>connScopes := (connScopes rm2)(s \<mapsto>
            \<lparr>cdir = dir, cusefd = usefd, isAllowlisted = True, cpeer = None, endpoint = ep, cip = NoAddr\<rparr>)\<rparr>, s))"

definition newStreamScope :: "resourceManager \<Rightarrow> Direction \<Rightarrow> peer_id \<Rightarrow> sid \<Rightarrow> resourceManager \<times> sid" where
  "newStreamScope rm dir p ps =
     (let (rm1, i) = nextStreamId rm;
          (rm2, s) = new_scope rm1 (GetStreamLimits (limits rm) p)
                       [ps, transient rm, system rm] (streamScopeName i)
      in (rm2\<lparr>streamScopes := (streamScopes rm2)(s \<mapsto>
            \<lparr>stdir = dir, speer = (p, ps), ssvc = None, sproto = None, peerProtoScope = None,
             peerSvcScope = None\<rparr>)\<rparr>, s))"

text \<open>
  The constructor registers the allowlisted networks with the connection limiter, with the
  connection limit of the allowlisted system scope. Identifiers not allocated yet hold a
  closed scope without limits (\<open>no_scopes\<close>).
\<close>

definition register_allowlist :: "Limiter \<Rightarrow> Allowlist \<Rightarrow> connLimiter \<Rightarrow> connLimiter" where
  "register_allowlist lims al cl =
     (let registered = map Network (networkPrefixLimitV4 cl) @ map Network (networkPrefixLimitV6 cl)
      in fold (\<lambda>n cl.
           let prefix = networkNumberAndMask n
           in if prefix \<in> set registered then cl
              else addNetworkPrefixLimit cl (Is6 (paddr prefix))
                     \<lparr>Network = prefix, NPConnCount = GetConnTotalLimit (GetAllowlistedSystemLimits lims)\<rparr>)
         (allowedNetworks al) cl)"

definition no_scopes :: heap where
  "no_scopes = (\<lambda>_. \<lparr>sdone = True, refCnt = 0, spanID = 0,
     rc = new_resources \<lparr>Streams = 0, StreamsInbound = 0, StreamsOutbound = 0, Conns = 0,
            ConnsInbound = 0, ConnsOutbound = 0, FD = 0, Memory = 0\<rparr>,
     owner = None, edges = [], sname = []\<rparr>)"

definition NewResourceManager :: "Limiter \<Rightarrow> connLimiter \<Rightarrow> Allowlist \<Rightarrow> resourceManager" where
  "NewResourceManager lims cl al =
     (let h1 = IncRef (newResourceScope no_scopes 0 (GetSystemLimits lims) [] ''system'') 0;
          h2 = IncRef (newResourceScope h1 1 (GetTransientLimits lims) [0] ''transient'') 1;
          h3 = IncRef (newResourceScope h2 2 (GetAllowlistedSystemLimits lims) [] ''allowlistedSystem'') 2;
          h4 = IncRef (newResourceScope h3 3 (GetAllowlistedTransientLimits lims) [2] ''allowlistedTransient'') 3
      in \<lparr>limits = lims, connLim = register_allowlist lims al cl, allowlist = al, hp = h4, nxt = 4, system = 0, transient = 1,
          allowlistedSystem = 2, allowlistedTransient = 3, svc = [], proto = [], peer = [],
          scopePeers = [], stickyProto = [], stickyPeer = [], connId = 0, streamId = 0,
          connScopes = Map.empty, streamScopes = Map.empty\<rparr>)"

section \<open>Looking up and creating scopes\<close>

definition getServiceScope :: "resourceManager \<Rightarrow> string \<Rightarrow> resourceManager \<times> sid" where
  "getServiceScope rm v =
     (case map_of (svc rm) v of
        Some s \<Rightarrow> (upd_heap (\<lambda>h. IncRef h s) rm, s)
      | None \<Rightarrow> (let (rm1, s) = newServiceScope rm v
                 in (upd_heap (\<lambda>h. IncRef h s) (rm1\<lparr>svc := (v, s) # svc rm1\<rparr>), s)))"

definition getProtocolScope :: "resourceManager \<Rightarrow> string \<Rightarrow> resourceManager \<times> sid" where
  "getProtocolScope rm pr =
     (case map_of (proto rm) pr of
        Some s \<Rightarrow> (upd_heap (\<lambda>h. IncRef h s) rm, s)
      | None \<Rightarrow> (let (rm1, s) = newProtocolScope rm pr
                 in (upd_heap (\<lambda>h. IncRef h s) (rm1\<lparr>proto := (pr, s) # proto rm1\<rparr>), s)))"

definition getPeerScope :: "resourceManager \<Rightarrow> peer_id \<Rightarrow> resourceManager \<times> sid" where
  "getPeerScope rm p =
     (case map_of (peer rm) p of
        Some s \<Rightarrow> (upd_heap (\<lambda>h. IncRef h s) rm, s)
      | None \<Rightarrow> (let (rm1, s) = newPeerScope rm p
                 in (upd_heap (\<lambda>h. IncRef h s) (rm1\<lparr>peer := (p, s) # peer rm1\<rparr>), s)))"

definition setStickyProtocol :: "resourceManager \<Rightarrow> string \<Rightarrow> resourceManager" where
  "setStickyProtocol rm pr = rm\<lparr>stickyProto := List.insert pr (stickyProto rm)\<rparr>"

definition setStickyPeer :: "resourceManager \<Rightarrow> peer_id \<Rightarrow> resourceManager" where
  "setStickyPeer rm p = rm\<lparr>stickyPeer := List.insert p (stickyPeer rm)\<rparr>"

text \<open>\<^verbatim>\<open>serviceScope.getPeerScope\<close> and \<^verbatim>\<open>protocolScope.getPeerScope\<close>, which differ only in
  where the limit comes from.\<close>

definition sub_getPeerScope :: "resourceManager \<Rightarrow> sid \<Rightarrow> BaseLimit \<Rightarrow> peer_id \<Rightarrow> resourceManager \<times> sid" where
  "sub_getPeerScope rm s l p =
     (case map_of (scopePeers rm) (s, p) of
        Some ps \<Rightarrow> (upd_heap (\<lambda>h. IncRef h ps) rm, ps)
      | None \<Rightarrow> (let (rm1, ps) = new_scope rm l [] (sname (hp rm s) @ ''.peer:'' @ p)
                 in (upd_heap (\<lambda>h. IncRef h ps) (rm1\<lparr>scopePeers := ((s, p), ps) # scopePeers rm1\<rparr>), ps)))"

section \<open>Connections\<close>

text \<open>A limiter that panics ends the process: no state.\<close>

definition connectionScope_Done :: "resourceManager \<Rightarrow> sid \<Rightarrow> resourceManager option" where
  "connectionScope_Done rm s =
     (if sdone (hp rm s) then Some rm
      else case connScopes rm s of
             None \<Rightarrow> None
           | Some c \<Rightarrow>
               (let lim = (if IsValid (cip c) then cl_rmConn (connLim rm) (cip c) else Some (connLim rm))
                in map_option (\<lambda>cl. rm\<lparr>connLim := cl, hp := doneUnlocked (hp rm) s\<rparr>) lim))"

definition openConnection ::
  "resourceManager \<Rightarrow> bool \<Rightarrow> Direction \<Rightarrow> bool \<Rightarrow> multiaddr \<Rightarrow> Addr \<Rightarrow>
   (resourceManager \<times> (rm_error + sid)) option" where
  "openConnection rm rateOk dir usefd ep ip =
     (if \<not> rateOk then Some (rm, Inl RateLimitExceeded)
      else case (if IsValid ip then cl_addConn (connLim rm) ip else Some (connLim rm, True)) of
        None \<Rightarrow> None
      | Some (cl, False) \<Rightarrow> Some (rm\<lparr>connLim := cl\<rparr>, Inl ConnsPerIPExceeded)
      | Some (cl, True) \<Rightarrow>
        (let (rm1, c) = newConnectionScope (rm\<lparr>connLim := cl\<rparr>) dir usefd ep ip;
             (h1, e1) = AddConn (hp rm1) c dir usefd;
             rm2 = rm1\<lparr>hp := h1\<rparr>
         in case e1 of
              None \<Rightarrow> Some (rm2, Inr c)
            | Some err \<Rightarrow>
                if IsValid ip \<and> Allowed (allowlist rm2) ep
                then case connectionScope_Done rm2 c of
                       None \<Rightarrow> None
                     | Some rm3 \<Rightarrow>
                         (let (rm4, c2) = newAllowListedConnectionScope rm3 dir usefd ep;
                              (h2, e2) = AddConn (hp rm4) c2 dir usefd;
                              rm5 = rm4\<lparr>hp := h2\<rparr>
                          in case e2 of
                               None \<Rightarrow> Some (rm5, Inr c2)
                             | Some err2 \<Rightarrow>
                                 map_option (\<lambda>rm6. (rm6, Inl (ScopeError err2))) (connectionScope_Done rm5 c2))
                else map_option (\<lambda>rm3. (rm3, Inl (ScopeError err))) (connectionScope_Done rm2 c)))"

definition OpenConnection ::
  "resourceManager \<Rightarrow> bool \<Rightarrow> Direction \<Rightarrow> bool \<Rightarrow> multiaddr \<Rightarrow>
   (resourceManager \<times> (rm_error + sid)) option" where
  "OpenConnection rm rateOk dir usefd ep =
     (case ToIP ep of
        None \<Rightarrow> openConnection rm rateOk dir usefd ep NoAddr
      | Some ip \<Rightarrow> openConnection rm rateOk dir usefd ep ip)"

text \<open>
  \<^verbatim>\<open>transferAllowedToStandard\<close>: the charge moves from the allowlisted scopes to the standard
  ones; on an error the connection is left without edges.
\<close>

definition set_edges :: "heap \<Rightarrow> sid \<Rightarrow> sid list \<Rightarrow> heap" where
  "set_edges h s es = h(s := (h s)\<lparr>edges := es\<rparr>)"

definition transferAllowedToStandard :: "resourceManager \<Rightarrow> sid \<Rightarrow> resourceManager \<times> rc_error option" where
  "transferAllowedToStandard rm s =
     (let st = stat (rc (hp rm s));
          h1 = fold (\<lambda>e h. DecRef (ReleaseForChild h e st) e) (edges (hp rm s)) (hp rm);
          h2 = set_edges h1 s []
      in case ReserveForChild h2 (system rm) st of
           (h3, Some err) \<Rightarrow> (rm\<lparr>hp := h3\<rparr>, Some err)
         | (h3, None) \<Rightarrow>
             (let h4 = IncRef h3 (system rm)
              in case ReserveForChild h4 (transient rm) st of
                   (h5, Some err) \<Rightarrow>
                     (rm\<lparr>hp := DecRef (ReleaseForChild h5 (system rm) st) (system rm)\<rparr>, Some err)
                 | (h5, None) \<Rightarrow>
                     (rm\<lparr>hp := set_edges (IncRef h5 (transient rm)) s [system rm, transient rm]\<rparr>, None)))"

definition SetPeer_attach ::
  "resourceManager \<Rightarrow> sid \<Rightarrow> connectionScope \<Rightarrow> peer_id \<Rightarrow> sid \<Rightarrow> sid \<Rightarrow> resourceManager \<times> rm_error option" where
  "SetPeer_attach rm s c p sys trn =
     (let (rm1, ps) = getPeerScope rm p;
          st = stat (rc (hp rm1 s))
      in case ReserveForChild (hp rm1) ps st of
           (h1, Some err) \<Rightarrow> (rm1\<lparr>hp := DecRef h1 ps\<rparr>, Some (ScopeError err))
         | (h1, None) \<Rightarrow>
             (let h2 = DecRef (ReleaseForChild h1 trn st) trn
              in (rm1\<lparr>hp := set_edges h2 s [ps, sys],
                      connScopes := (connScopes rm1)(s \<mapsto> c\<lparr>cpeer := Some ps\<rparr>)\<rparr>, None)))"

definition SetPeer :: "resourceManager \<Rightarrow> sid \<Rightarrow> peer_id \<Rightarrow> resourceManager \<times> rm_error option" where
  "SetPeer rm s p =
     (case connScopes rm s of
        None \<Rightarrow> (rm, Some NoSuchScope)
      | Some c \<Rightarrow>
          if cpeer c \<noteq> None then (rm, Some AlreadyAttachedToPeer)
          else if isAllowlisted c then
            (if \<not> AllowedPeerAndMultiaddr (allowlist rm) p (endpoint c)
             then let c' = c\<lparr>isAllowlisted := False\<rparr>;
                      rm1 = rm\<lparr>connScopes := (connScopes rm)(s \<mapsto> c')\<rparr>
                  in case transferAllowedToStandard rm1 s of
                       (rm2, Some err) \<Rightarrow> (rm2, Some (ScopeError err))
                     | (rm2, None) \<Rightarrow> SetPeer_attach rm2 s c' p (system rm2) (transient rm2)
             else SetPeer_attach rm s c p (allowlistedSystem rm) (allowlistedTransient rm))
          else SetPeer_attach rm s c p (system rm) (transient rm))"

section \<open>Streams\<close>

definition OpenStream :: "resourceManager \<Rightarrow> peer_id \<Rightarrow> Direction \<Rightarrow> resourceManager \<times> (rm_error + sid)" where
  "OpenStream rm p dir =
     (let (rm1, ps) = getPeerScope rm p;
          (rm2, s) = newStreamScope rm1 dir p ps;
          rm3 = upd_heap (\<lambda>h. DecRef h ps) rm2
      in case AddStream (hp rm3) s dir of
           (h1, Some err) \<Rightarrow> (rm3\<lparr>hp := doneUnlocked h1 s\<rparr>, Inl (ScopeError err))
         | (h1, None) \<Rightarrow> (rm3\<lparr>hp := h1\<rparr>, Inr s))"

definition SetProtocol :: "resourceManager \<Rightarrow> sid \<Rightarrow> string \<Rightarrow> resourceManager \<times> rm_error option" where
  "SetProtocol rm s pr =
     (case streamScopes rm s of
        None \<Rightarrow> (rm, Some NoSuchScope)
      | Some t \<Rightarrow>
          if sproto t \<noteq> None then (rm, Some AlreadyAttachedToProtocol)
          else let (rm1, q) = getProtocolScope rm pr;
                   st = stat (rc (hp rm1 s))
               in case ReserveForChild (hp rm1) q st of
                    (h1, Some err) \<Rightarrow> (rm1\<lparr>hp := DecRef h1 q\<rparr>, Some (ScopeError err))
                  | (h1, None) \<Rightarrow>
                    (let (rm2, pp) = sub_getPeerScope (rm1\<lparr>hp := h1\<rparr>) q
                                       (GetProtocolPeerLimits (limits rm1) pr) (fst (speer t))
                     in case ReserveForChild (hp rm2) pp st of
                          (h2, Some err) \<Rightarrow>
                            (rm2\<lparr>hp := DecRef (DecRef (ReleaseForChild h2 q st) q) pp\<rparr>, Some (ScopeError err))
                        | (h2, None) \<Rightarrow>
                            (let h3 = DecRef (ReleaseForChild h2 (transient rm2) st) (transient rm2)
                             in (rm2\<lparr>hp := set_edges h3 s [snd (speer t), pp, q, system rm2],
                                     streamScopes := (streamScopes rm2)(s \<mapsto>
                                       t\<lparr>sproto := Some q, peerProtoScope := Some pp\<rparr>)\<rparr>, None))))"

definition SetService :: "resourceManager \<Rightarrow> sid \<Rightarrow> string \<Rightarrow> resourceManager \<times> rm_error option" where
  "SetService rm s v =
     (case streamScopes rm s of
        None \<Rightarrow> (rm, Some NoSuchScope)
      | Some t \<Rightarrow>
          if ssvc t \<noteq> None then (rm, Some AlreadyAttachedToService)
          else (case sproto t of
            None \<Rightarrow> (rm, Some NotAttachedToProtocol)
          | Some q \<Rightarrow>
            (let (rm1, w) = getServiceScope rm v;
                 st = stat (rc (hp rm1 s))
             in case ReserveForChild (hp rm1) w st of
                  (h1, Some err) \<Rightarrow> (rm1\<lparr>hp := DecRef h1 w\<rparr>, Some (ScopeError err))
                | (h1, None) \<Rightarrow>
                  (let (rm2, pw) = sub_getPeerScope (rm1\<lparr>hp := h1\<rparr>) w
                                     (GetServicePeerLimits (limits rm1) v) (fst (speer t))
                   in case ReserveForChild (hp rm2) pw st of
                        (h2, Some err) \<Rightarrow>
                          (rm2\<lparr>hp := DecRef (DecRef (ReleaseForChild h2 w st) w) pw\<rparr>, Some (ScopeError err))
                      | (h2, None) \<Rightarrow>
                          (rm2\<lparr>hp := set_edges h2 s (snd (speer t) #
                                 (case peerProtoScope t of Some pp \<Rightarrow> [pp] | None \<Rightarrow> []) @ [pw, q, w, system rm2]),
                               streamScopes := (streamScopes rm2)(s \<mapsto>
                                 t\<lparr>ssvc := Some w, peerSvcScope := Some pw\<rparr>)\<rparr>, None)))))"

section \<open>Garbage collection\<close>

definition gc_map ::
  "('k \<Rightarrow> bool) \<Rightarrow> ('k \<times> sid) list \<Rightarrow> heap \<Rightarrow> ('k \<times> sid) list \<times> 'k list \<times> heap" where
  "gc_map sticky m h =
     fold (\<lambda>(k, s) (m', dead, h).
        if \<not> sticky k \<and> IsUnused h s then (m', dead @ [k], doneUnlocked h s)
        else (m' @ [(k, s)], dead, h)) m ([], [], h)"

definition gc_peers ::
  "sid list \<Rightarrow> peer_id list \<Rightarrow> ((sid \<times> peer_id) \<times> sid) list \<Rightarrow> heap \<Rightarrow>
   ((sid \<times> peer_id) \<times> sid) list \<times> heap" where
  "gc_peers owners dead m h =
     fold (\<lambda>((s, p), ps) (m', h).
        if s \<in> set owners \<and> p \<in> set dead then (m', doneUnlocked h ps)
        else (m' @ [((s, p), ps)], h)) m ([], h)"

definition gc :: "resourceManager \<Rightarrow> resourceManager" where
  "gc rm =
     (let (proto', _, h1) = gc_map (\<lambda>k. k \<in> set (stickyProto rm)) (proto rm) (hp rm);
          (peer', deadPeers, h2) = gc_map (\<lambda>k. k \<in> set (stickyPeer rm)) (peer rm) h1;
          (sp', h3) = gc_peers (map snd (svc rm) @ map snd proto') deadPeers (scopePeers rm) h2
      in rm\<lparr>proto := proto', peer := peer', scopePeers := sp', hp := h3\<rparr>)"

end
