(* ===== verification/Rcmgr_Invariant.thy ===== *)
theory Rcmgr_Invariant
  imports Rcmgr_Manager
begin

text \<open>
  The invariant of the resource manager. Every scope has a role that never changes, read
  off its name and its edges; the maps and tables of the manager only hold scopes of the
  right role. With the limits of \<^theory_text>\<open>Rcmgr_Interleaving\<close> this gives: whatever sequence of
  manager calls runs, the scope graph stays well formed and no scope exceeds a limit.
\<close>

section \<open>Roles\<close>

datatype scope_role =
    RSystem | RTransient | RAlSystem | RAlTransient | RPeer | RProto | RProtoPeer | RSvc | RSvcPeer
  | RConn | RStream | ROther

definition name_role :: "string \<Rightarrow> scope_role" where
  "name_role nm =
     (if nm = ''system'' then RSystem
      else if nm = ''transient'' then RTransient
      else if nm = ''allowlistedSystem'' then RAlSystem
      else if nm = ''allowlistedTransient'' then RAlTransient
      else if has_prefix nm ''peer:'' then RPeer
      else if has_prefix nm ''protocol:'' then RProto
      else if has_prefix nm ''service:'' then RSvc
      else if has_prefix nm ''conn-'' then RConn
      else if has_prefix nm ''stream-'' then RStream
      else ROther)"

definition role :: "resourceScope \<Rightarrow> scope_role" where
  "role c =
     (if owner c \<noteq> None then ROther
      else if edges c \<noteq> [] then name_role (sname c)
      else case name_role (sname c) of RProto \<Rightarrow> RProtoPeer | RSvc \<Rightarrow> RSvcPeer | r \<Rightarrow> r)"

lemma name_role_not_peer: "name_role nm \<noteq> RProtoPeer" "name_role nm \<noteq> RSvcPeer"
  by (simp_all add: name_role_def)

lemma role_cong:
  "owner c' = owner c \<Longrightarrow> edges c' = edges c \<Longrightarrow> sname c' = sname c \<Longrightarrow> role c' = role c"
  by (simp add: role_def)

lemma role_owner: "role c \<noteq> ROther \<Longrightarrow> owner c = None"
  by (cases "owner c") (auto simp: role_def)

lemma role_edges: "role c = RConn \<or> role c = RStream \<Longrightarrow> role (c\<lparr>edges := es\<rparr>) = role c"
  by (auto simp: role_def split: if_splits scope_role.splits)

section \<open>The store part\<close>

definition hok :: "heap \<Rightarrow> bool" where
  "hok h \<longleftrightarrow> wf_heap h \<and> heap_ok h \<and> (\<forall>t. Memory (limit (rc (h t))) < MaxInt64)"

definition same_roles :: "sid \<Rightarrow> heap \<Rightarrow> heap \<Rightarrow> bool" where
  "same_roles n h h' \<longleftrightarrow> (\<forall>t < n. role (h' t) = role (h t))"

lemma same_roles_refl [simp]: "same_roles n h h"
  by (simp add: same_roles_def)

lemma same_roles_trans: "same_roles n h h' \<Longrightarrow> same_roles n h' h'' \<Longrightarrow> same_roles n h h''"
  by (simp add: same_roles_def)

definition lim_bnd :: "BaseLimit \<Rightarrow> bool" where
  "lim_bnd l \<longleftrightarrow> lim_ok l \<and> Memory l < MaxInt64"

lemma hok_nn: "hok h \<Longrightarrow> rc_nn (rc (h s))"
  by (simp add: hok_def heap_ok_def rc_ok_def rc_nn_def)

lemma hok_stat: "hok h \<Longrightarrow> stat_nn (stat (rc (h s)))"
  using hok_nn [of h s] by (simp add: stat_nn_def stat_def rc_nn_def)

text \<open>Operations on the counters keep the graph, the names and the limits.\<close>

definition same_graph_lim :: "heap \<Rightarrow> heap \<Rightarrow> bool" where
  "same_graph_lim h h' \<longleftrightarrow> (\<forall>t. owner (h' t) = owner (h t) \<and> edges (h' t) = edges (h t) \<and>
     sname (h' t) = sname (h t) \<and> limit (rc (h' t)) = limit (rc (h t)))"

lemma sgl_refl [simp]: "same_graph_lim h h"
  by (simp add: same_graph_lim_def)

lemma sgl_trans [trans]: "same_graph_lim h h' \<Longrightarrow> same_graph_lim h' h'' \<Longrightarrow> same_graph_lim h h''"
  by (simp add: same_graph_lim_def)

lemma sgl_rtrancl: "same_graph_lim\<^sup>*\<^sup>* h h' \<Longrightarrow> same_graph_lim h h'"
  by (induction rule: rtranclp_induct) (auto intro: sgl_trans)

lemma sgl_roles: "same_graph_lim h h' \<Longrightarrow> same_roles n h h'"
  unfolding same_graph_lim_def same_roles_def by (intro allI impI role_cong) simp_all

lemma sgl_hok:
  assumes "same_graph_lim h h'" "hok h" "heap_ok h'"
  shows "hok h'"
  using assms wf_heap_cong [of h' h] by (simp add: hok_def same_graph_lim_def)

lemma sgl_upd: "limit r = limit (rc (h s)) \<Longrightarrow> same_graph_lim h (upd_rc h s r)"
  by (simp add: same_graph_lim_def)

lemma limit_release_stat [simp]: "limit (release_stat r st) = limit r"
  by (simp add: release_stat_def)

lemma sgl_ReleaseForChild: "same_graph_lim h (ReleaseForChild h s st)"
  by (simp add: ReleaseForChild_def sgl_upd)

lemma sgl_refs: "same_graph_lim h (IncRef h s)" "same_graph_lim h (DecRef h s)"
  by (auto simp: same_graph_lim_def IncRef_def DecRef_def)

lemma sgl_ReserveForChild:
  assumes "rc_nn (rc (h s))"
  shows "same_graph_lim h (fst (ReserveForChild h s st))"
proof -
  from ReserveForChild_spec [of h s st] assms consider
    "ReserveForChild h s st = (upd_rc h s (add_stat (rc (h s)) st), None)"
    | err where "ReserveForChild h s st = (h, Some err)" by (auto split: if_splits)
  then show ?thesis by cases (auto intro!: sgl_upd simp: add_stat_def)
qed

lemma limit_addStream: "addStream r dir = Inr r' \<Longrightarrow> limit r' = limit r"
  by (auto simp: addStream_eq dest: addStreams_limit)

lemma limit_addConn: "addConn r dir usefd = Inr r' \<Longrightarrow> limit r' = limit r"
  by (auto simp: addConn_eq dest: addConns_limit)

lemma sgl_AddStream: "same_graph_lim h (fst (AddStream h s dir))"
  by (rule sgl_rtrancl, rule strm.scope_take_rtrancl)
     (auto intro!: sgl_upd dest: limit_addStream simp: removeStream_eq)

lemma sgl_AddConn: "same_graph_lim h (fst (AddConn h s dir usefd))"
  by (rule sgl_rtrancl, rule conn.scope_take_rtrancl)
     (auto intro!: sgl_upd dest: limit_addConn simp: removeConn_eq)

lemma sgl_done: "same_graph_lim h (doneUnlocked h s)"
  by (rule sgl_rtrancl, rule doneUnlocked_rtrancl)
     (simp_all add: sgl_ReleaseForChild sgl_refs, simp add: same_graph_lim_def new_resources_def)

lemma hok_steps: "hok h \<Longrightarrow> same_graph_lim h h' \<Longrightarrow> scope_step\<^sup>*\<^sup>* h h' \<Longrightarrow> hok h'"
  by (rule sgl_hok) (auto simp: hok_def intro: scope_steps_ok)

lemma hok_refs [inv_intros]: "hok h \<Longrightarrow> hok (IncRef h s)" "hok h \<Longrightarrow> hok (DecRef h s)"
  by (blast intro: hok_steps sgl_refs r_into_rtranclp IncRef_step DecRef_step)+

lemma hok_ReleaseForChild [inv_intros]: "hok h \<Longrightarrow> stat_nn st \<Longrightarrow> hok (ReleaseForChild h s st)"
  by (blast intro: hok_steps sgl_ReleaseForChild r_into_rtranclp ReleaseForChild_step)

lemma hok_ReserveForChild:
  assumes "hok h" "stat_nn st" "ReserveForChild h s st = (h', err)"
  shows "hok h'" "same_graph_lim h h'"
proof -
  have *: "same_graph_lim h h'" using sgl_ReserveForChild [of h s st] hok_nn [of h s] assms(1,3) by simp
  moreover have "heap_ok h'"
    using ReserveForChild_ok [of h st s h' err] assms by (simp add: hok_def stat_nn_def)
  ultimately show "hok h'" "same_graph_lim h h'" using sgl_hok assms(1) by blast+
qed

lemma hok_AddStream [inv_intros]: "hok h \<Longrightarrow> hok (fst (AddStream h s dir))"
  by (rule hok_steps [OF _ sgl_AddStream AddStream_steps])

lemma hok_AddConn [inv_intros]: "hok h \<Longrightarrow> hok (fst (AddConn h s dir usefd))"
  by (rule hok_steps [OF _ sgl_AddConn AddConn_steps])

lemma hok_done [inv_intros]: "hok h \<Longrightarrow> hok (doneUnlocked h s)"
  by (rule hok_steps [OF _ sgl_done])
     (auto intro!: doneUnlocked_rtrancl ReleaseForChild_step DecRef_step step_close hok_stat)

lemma hok_new:
  assumes "hok h" "lim_bnd l" "distinct es" "new \<notin> set es" "\<forall>e \<in> set es. owner (h e) = None"
  shows "hok (newResourceScope h new l es nm)"
proof -
  have "wf_heap (run_op h (OpNewScope new l es nm))"
    using assms by (intro run_op_wf) (auto simp: hok_def lim_bnd_def)
  moreover have "heap_ok (newResourceScope h new l es nm)"
    using scope_steps_ok [OF newResourceScope_steps] assms by (simp add: hok_def lim_bnd_def)
  moreover have "limit (rc (fold (\<lambda>e h. IncRef h e) es h t)) = limit (rc (h t))" for t
    by (induction es arbitrary: h) simp_all
  ultimately show ?thesis
    using assms by (simp add: hok_def lim_bnd_def newResourceScope_def new_resources_def)
qed

lemma role_new:
  "same_roles n h (newResourceScope h n l es nm)"
  "role (newResourceScope h n l es nm n) =
     role \<lparr>sdone = False, refCnt = 0, spanID = 0, rc = new_resources l, owner = None, edges = es, sname = nm\<rparr>"
proof -
  have "same_graph_lim h (fold (\<lambda>e h. IncRef h e) es h)"
    by (rule sgl_rtrancl, rule fold_steps) (rule r_into_rtranclp, rule sgl_refs)
  then show "same_roles n h (newResourceScope h n l es nm)"
    unfolding same_roles_def same_graph_lim_def newResourceScope_def
    by (intro allI impI role_cong) simp_all
qed (simp add: newResourceScope_def)

lemma hok_set_edges:
  assumes "hok h" "owner (h s) = None" "distinct (s # es)" "\<forall>e \<in> set es. owner (h e) = None"
  shows "hok (set_edges h s es)"
proof -
  have "wf_scope (set_edges h s es) t" for t
    using wf_heapD [of h t] assms
    by (cases "t = s"; cases "owner (h t)") (auto simp: hok_def set_edges_def wf_scope_def)
  then show ?thesis using assms(1) by (simp add: hok_def wf_heap_def heap_ok_def set_edges_def)
qed

lemma roles_set_edges:
  "role (h s) = RConn \<or> role (h s) = RStream \<Longrightarrow> same_roles n h (set_edges h s es)"
  using role_edges by (auto simp: same_roles_def set_edges_def)

section \<open>Names and roles\<close>

lemma has_prefix_iff: "has_prefix s p \<longleftrightarrow> (\<exists>t. s = p @ t)"
  unfolding has_prefix_def by (metis append_eq_conv_conj append_take_drop_id)

lemma name_role_prefix [simp]:
  "name_role (''peer:'' @ p) = RPeer" "name_role (''protocol:'' @ p) = RProto"
  "name_role (''service:'' @ p) = RSvc" "name_role (''conn-'' @ p) = RConn"
  "name_role (''stream-'' @ p) = RStream"
  by (simp_all add: name_role_def has_prefix_def)

lemmas name_role_cons [simp] = name_role_prefix [simplified append.simps]

lemma name_role_append:
  "name_role nm = RProto \<Longrightarrow> name_role (nm @ x) = RProto" "name_role nm = RSvc \<Longrightarrow> name_role (nm @ x) = RSvc"
  by (auto simp: name_role_def [of nm] has_prefix_iff split: if_splits
      simp flip: append_assoc simp del: append_assoc append.simps) 
     (metis append.assoc name_role_prefix)+

lemma role_name: "role c = RProto \<Longrightarrow> name_role (sname c) = RProto" "role c = RSvc \<Longrightarrow> name_role (sname c) = RSvc"
  by (auto simp: role_def split: if_splits scope_role.splits)

section \<open>The manager invariant\<close>

definition kn :: "resourceManager \<Rightarrow> sid \<Rightarrow> scope_role \<Rightarrow> bool" where
  "kn rm s r \<longleftrightarrow> s < nxt rm \<and> role (hp rm s) = r"

definition lims_ok :: "Limiter \<Rightarrow> bool" where
  "lims_ok l \<longleftrightarrow> lim_bnd (GetSystemLimits l) \<and> lim_bnd (GetTransientLimits l) \<and>
     lim_bnd (GetAllowlistedSystemLimits l) \<and> lim_bnd (GetAllowlistedTransientLimits l) \<and>
     lim_bnd (GetConnLimits l) \<and>
     (\<forall>x. lim_bnd (GetServiceLimits l x) \<and> lim_bnd (GetServicePeerLimits l x) \<and>
          lim_bnd (GetProtocolLimits l x) \<and> lim_bnd (GetProtocolPeerLimits l x) \<and>
          lim_bnd (GetPeerLimits l x) \<and> lim_bnd (GetStreamLimits l x))"

definition roots_ok :: "resourceManager \<Rightarrow> bool" where
  "roots_ok rm \<longleftrightarrow> kn rm (system rm) RSystem \<and> kn rm (transient rm) RTransient \<and>
     kn rm (allowlistedSystem rm) RAlSystem \<and> kn rm (allowlistedTransient rm) RAlTransient"

definition maps_ok :: "resourceManager \<Rightarrow> bool" where
  "maps_ok rm \<longleftrightarrow>
     (\<forall>(k, s) \<in> set (svc rm). kn rm s RSvc) \<and> (\<forall>(k, s) \<in> set (proto rm). kn rm s RProto) \<and>
     (\<forall>(k, s) \<in> set (peer rm). kn rm s RPeer) \<and>
     (\<forall>((s, p), ps) \<in> set (scopePeers rm).
        (kn rm s RProto \<and> kn rm ps RProtoPeer) \<or> (kn rm s RSvc \<and> kn rm ps RSvcPeer))"

definition conn_ok :: "resourceManager \<Rightarrow> sid \<Rightarrow> connectionScope \<Rightarrow> bool" where
  "conn_ok rm s c \<longleftrightarrow> kn rm s RConn \<and> (\<forall>ps. cpeer c = Some ps \<longrightarrow> kn rm ps RPeer)"

definition stream_ok :: "resourceManager \<Rightarrow> sid \<Rightarrow> streamScope \<Rightarrow> bool" where
  "stream_ok rm s t \<longleftrightarrow> kn rm s RStream \<and> kn rm (snd (speer t)) RPeer \<and>
     (\<forall>q. sproto t = Some q \<longrightarrow> kn rm q RProto \<and> peerProtoScope t \<noteq> None) \<and>
     (\<forall>q. peerProtoScope t = Some q \<longrightarrow> kn rm q RProtoPeer) \<and>
     (\<forall>q. ssvc t = Some q \<longrightarrow> kn rm q RSvc) \<and>
     (\<forall>q. peerSvcScope t = Some q \<longrightarrow> kn rm q RSvcPeer)"

definition tabs_ok :: "resourceManager \<Rightarrow> bool" where
  "tabs_ok rm \<longleftrightarrow> roots_ok rm \<and> maps_ok rm \<and>
     (\<forall>s c. connScopes rm s = Some c \<longrightarrow> conn_ok rm s c) \<and>
     (\<forall>s t. streamScopes rm s = Some t \<longrightarrow> stream_ok rm s t)"

definition mgr_ok :: "resourceManager \<Rightarrow> bool" where
  "mgr_ok rm \<longleftrightarrow> hok (hp rm) \<and> cl_ok (connLim rm) \<and> lims_ok (limits rm) \<and> tabs_ok rm"

definition grows :: "resourceManager \<Rightarrow> resourceManager \<Rightarrow> bool" where
  "grows rm rm' \<longleftrightarrow> nxt rm \<le> nxt rm' \<and> same_roles (nxt rm) (hp rm) (hp rm')"

lemma grows_refl [simp]: "grows rm rm"
  by (simp add: grows_def)

lemma grows_trans [trans]: "grows a b \<Longrightarrow> grows b c \<Longrightarrow> grows a c"
  by (simp add: grows_def same_roles_def)

lemma kn_mono: "kn rm s r \<Longrightarrow> grows rm rm' \<Longrightarrow> kn rm' s r"
  by (simp add: kn_def grows_def same_roles_def)

lemma kn_owner: "kn rm s r \<Longrightarrow> r \<noteq> ROther \<Longrightarrow> owner (hp rm s) = None"
  using role_owner by (auto simp: kn_def)

lemma kn_lt: "kn rm s r \<Longrightarrow> s < nxt rm"
  by (simp add: kn_def)

lemma kn_neq: "kn rm s r \<Longrightarrow> kn rm t r' \<Longrightarrow> r \<noteq> r' \<Longrightarrow> s \<noteq> t"
  by (auto simp: kn_def)

lemma conn_ok_mono: "conn_ok rm s c \<Longrightarrow> grows rm rm' \<Longrightarrow> conn_ok rm' s c"
  by (auto simp: conn_ok_def intro: kn_mono)

lemma stream_ok_mono: "stream_ok rm s c \<Longrightarrow> grows rm rm' \<Longrightarrow> stream_ok rm' s c"
  by (auto simp: stream_ok_def intro: kn_mono)

lemma maps_ok_mono:
  assumes "maps_ok rm" "grows rm rm'" "svc rm' = svc rm" "proto rm' = proto rm" "peer rm' = peer rm"
    "scopePeers rm' = scopePeers rm"
  shows "maps_ok rm'"
  using assms(1) kn_mono [OF _ assms(2)] unfolding maps_ok_def assms(3-6) by fast

lemma roots_ok_mono:
  "roots_ok rm \<Longrightarrow> grows rm rm' \<Longrightarrow> system rm' = system rm \<Longrightarrow> transient rm' = transient rm \<Longrightarrow>
   allowlistedSystem rm' = allowlistedSystem rm \<Longrightarrow> allowlistedTransient rm' = allowlistedTransient rm \<Longrightarrow>
   roots_ok rm'"
  by (auto simp: roots_ok_def intro: kn_mono)

text \<open>Everything but the store and the counters of the manager is the same.\<close>

definition same_tabs :: "resourceManager \<Rightarrow> resourceManager \<Rightarrow> bool" where
  "same_tabs rm rm' \<longleftrightarrow> limits rm' = limits rm \<and> allowlist rm' = allowlist rm \<and>
     svc rm' = svc rm \<and> proto rm' = proto rm \<and> peer rm' = peer rm \<and>
     scopePeers rm' = scopePeers rm \<and> system rm' = system rm \<and> transient rm' = transient rm \<and>
     allowlistedSystem rm' = allowlistedSystem rm \<and> allowlistedTransient rm' = allowlistedTransient rm \<and>
     connScopes rm' = connScopes rm \<and> streamScopes rm' = streamScopes rm"

lemma mgr_ok_step:
  assumes "mgr_ok rm" "grows rm rm'" "same_tabs rm rm'" "hok (hp rm')" "cl_ok (connLim rm')"
  shows "mgr_ok rm'"
  using assms maps_ok_mono [of rm rm'] roots_ok_mono [of rm rm'] conn_ok_mono [of rm _ _ rm']
    stream_ok_mono [of rm _ _ rm']
  unfolding mgr_ok_def tabs_ok_def same_tabs_def by simp

lemma mgr_ok_heap:
  assumes "mgr_ok rm" "same_graph_lim (hp rm) h'" "hok h'"
  shows "mgr_ok (rm\<lparr>hp := h'\<rparr>)" "grows rm (rm\<lparr>hp := h'\<rparr>)"
proof -
  show g: "grows rm (rm\<lparr>hp := h'\<rparr>)" using sgl_roles [OF assms(2)] by (simp add: grows_def)
  show "mgr_ok (rm\<lparr>hp := h'\<rparr>)"
    by (rule mgr_ok_step [OF assms(1) g]) (use assms in \<open>simp_all add: same_tabs_def mgr_ok_def\<close>)
qed

section \<open>Looking up and creating scopes\<close>

text \<open>\<^term>\<open>frame\<close>: the scopes that exist keep their counters, edges and state, and the
  connection and stream tables are untouched.\<close>

definition frame :: "resourceManager \<Rightarrow> resourceManager \<Rightarrow> bool" where
  "frame rm rm' \<longleftrightarrow> nxt rm \<le> nxt rm' \<and>
     (\<forall>t < nxt rm. rc (hp rm' t) = rc (hp rm t) \<and> sdone (hp rm' t) = sdone (hp rm t) \<and>
        edges (hp rm' t) = edges (hp rm t) \<and> owner (hp rm' t) = owner (hp rm t) \<and>
        sname (hp rm' t) = sname (hp rm t)) \<and>
     limits rm' = limits rm \<and> allowlist rm' = allowlist rm \<and> connLim rm' = connLim rm \<and>
     system rm' = system rm \<and> transient rm' = transient rm \<and>
     allowlistedSystem rm' = allowlistedSystem rm \<and> allowlistedTransient rm' = allowlistedTransient rm \<and>
     connScopes rm' = connScopes rm \<and> streamScopes rm' = streamScopes rm"

lemma frame_trans [trans]: "frame a b \<Longrightarrow> frame b c \<Longrightarrow> frame a c"
  by (simp add: frame_def)

lemma frame_grows: "frame rm rm' \<Longrightarrow> grows rm rm'"
  unfolding frame_def grows_def same_roles_def by (intro conjI allI impI role_cong) simp_all

lemma frame_refs: "frame rm (upd_heap (\<lambda>h. IncRef h s) rm)" "frame rm (rm\<lparr>hp := DecRef (hp rm) s\<rparr>)"
  by (simp_all add: frame_def upd_heap_def IncRef_def DecRef_def)

lemma mgr_ok_refs:
  "mgr_ok rm \<Longrightarrow> mgr_ok (upd_heap (\<lambda>h. IncRef h s) rm)" "mgr_ok rm \<Longrightarrow> mgr_ok (rm\<lparr>hp := DecRef (hp rm) s\<rparr>)"
  unfolding upd_heap_def by (rule mgr_ok_heap; simp add: sgl_refs hok_refs mgr_ok_def)+

lemma fold_IncRef_frame:
  "rc (fold (\<lambda>e h. IncRef h e) es h t) = rc (h t)" "sdone (fold (\<lambda>e h. IncRef h e) es h t) = sdone (h t)"
  "sname (fold (\<lambda>e h. IncRef h e) es h t) = sname (h t)"
  by (induction es arbitrary: h) (simp_all add: IncRef_def)

lemma new_scope_ok:
  assumes rm: "mgr_ok rm" and l: "lim_bnd l" and es: "distinct es"
    and known: "\<forall>e \<in> set es. e < nxt rm \<and> owner (hp rm e) = None"
    and new: "new_scope rm l es nm = (rm', s)"
  shows "mgr_ok rm'" "frame rm rm'" "s = nxt rm"
    "kn rm' s (role \<lparr>sdone = False, refCnt = 0, spanID = 0, rc = new_resources l, owner = None,
       edges = es, sname = nm\<rparr>)"
    "rc (hp rm' s) = new_resources l" "\<not> sdone (hp rm' s)" "edges (hp rm' s) = es"
proof -
  have rm': "rm' = rm\<lparr>hp := newResourceScope (hp rm) (nxt rm) l es nm, nxt := Suc (nxt rm)\<rparr>" "s = nxt rm"
    using new by (auto simp: new_scope_def)
  have "frame rm rm'"
    by (auto simp: frame_def rm' newResourceScope_def fold_IncRef_frame)
  moreover have "hok (hp rm')"
    unfolding rm' using rm l es known by (auto simp: mgr_ok_def intro!: hok_new)
  ultimately show "mgr_ok rm'" "frame rm rm'"
    using mgr_ok_step [OF rm frame_grows, of rm'] rm by (auto simp: same_tabs_def rm' mgr_ok_def)
  show "kn rm' s (role \<lparr>sdone = False, refCnt = 0, spanID = 0, rc = new_resources l, owner = None,
       edges = es, sname = nm\<rparr>)"
    by (simp add: kn_def rm' role_new)
qed (use new in \<open>auto simp: new_scope_def newResourceScope_def\<close>)

text \<open>Entering a scope of the right role in one of the maps.\<close>

lemma mgr_ok_maps:
  assumes "mgr_ok rm"
  shows "kn rm s RPeer \<Longrightarrow> mgr_ok (rm\<lparr>peer := (k, s) # peer rm\<rparr>)"
    "kn rm s RProto \<Longrightarrow> mgr_ok (rm\<lparr>proto := (k, s) # proto rm\<rparr>)"
    "kn rm s RSvc \<Longrightarrow> mgr_ok (rm\<lparr>svc := (k, s) # svc rm\<rparr>)"
    "kn rm t RProto \<and> kn rm s RProtoPeer \<or> kn rm t RSvc \<and> kn rm s RSvcPeer \<Longrightarrow>
     mgr_ok (rm\<lparr>scopePeers := ((t, p), s) # scopePeers rm\<rparr>)"
  using assms
  by (simp_all add: mgr_ok_def tabs_ok_def maps_ok_def roots_ok_def conn_ok_def stream_ok_def kn_def)

lemma frame_maps [simp]:
  "frame rm (rm\<lparr>peer := x\<rparr>)" "frame rm (rm\<lparr>proto := x\<rparr>)" "frame rm (rm\<lparr>svc := x\<rparr>)"
  "frame rm (rm\<lparr>scopePeers := y\<rparr>)"
  by (simp_all add: frame_def)

lemma mgr_okD:
  assumes "mgr_ok rm"
  shows "kn rm (system rm) RSystem" "kn rm (transient rm) RTransient" "hok (hp rm)"
    "kn rm (allowlistedSystem rm) RAlSystem" "kn rm (allowlistedTransient rm) RAlTransient"
    "lims_ok (limits rm)" "cl_ok (connLim rm)"
  using assms by (simp_all add: mgr_ok_def tabs_ok_def roots_ok_def)

lemma found_ok:
  assumes "mgr_ok rm" "kn rm s r"
  shows "mgr_ok (upd_heap (\<lambda>h. IncRef h s) rm) \<and> frame rm (upd_heap (\<lambda>h. IncRef h s) rm) \<and>
    kn (upd_heap (\<lambda>h. IncRef h s) rm) s r"
  using assms mgr_ok_refs(1) frame_refs(1) kn_mono [OF _ frame_grows [OF frame_refs(1)]] by blast

lemma created_ok:
  assumes "frame rm rm1" "frame rm1 rm2" "mgr_ok rm2" "kn rm1 s r"
  shows "mgr_ok (upd_heap (\<lambda>h. IncRef h s) rm2) \<and> frame rm (upd_heap (\<lambda>h. IncRef h s) rm2) \<and>
    kn (upd_heap (\<lambda>h. IncRef h s) rm2) s r"
  using found_ok [OF assms(3) kn_mono [OF assms(4) frame_grows [OF assms(2)]]]
    frame_trans [OF assms(1) frame_trans [OF assms(2) frame_refs(1)]] by simp

lemma system_edge: "mgr_ok rm \<Longrightarrow> \<forall>e \<in> set [system rm]. e < nxt rm \<and> owner (hp rm e) = None"
  using mgr_okD(1) [of rm] kn_owner kn_lt by fastforce

lemma getPeerScope_ok:
  assumes rm: "mgr_ok rm" and e: "getPeerScope rm p = (rm', s)"
  shows "mgr_ok rm' \<and> frame rm rm' \<and> kn rm' s RPeer"
proof (cases "map_of (peer rm) p")
  case (Some x)
  then have "kn rm x RPeer"
    using rm by (auto simp: mgr_ok_def tabs_ok_def maps_ok_def dest!: map_of_SomeD)
  then show ?thesis using e Some found_ok [OF rm] by (auto simp: getPeerScope_def)
next
  case None
  obtain rm1 x where n: "newPeerScope rm p = (rm1, x)" by fastforce
  have l: "lim_bnd (GetPeerLimits (limits rm) p)" using mgr_okD(6) [OF rm] by (simp add: lims_ok_def)
  note N = new_scope_ok [OF rm l _ system_edge [OF rm] n [unfolded newPeerScope_def]]
  have k: "kn rm1 x RPeer" using N(4) by (simp add: role_def peerScopeName_def)
  then show ?thesis
    using created_ok [OF N(2) frame_maps(1) mgr_ok_maps(1) [OF N(1) k] k] e None n
    by (auto simp: getPeerScope_def)
qed

lemma getProtocolScope_ok:
  assumes rm: "mgr_ok rm" and e: "getProtocolScope rm p = (rm', s)"
  shows "mgr_ok rm' \<and> frame rm rm' \<and> kn rm' s RProto"
proof (cases "map_of (proto rm) p")
  case (Some x)
  then have "kn rm x RProto"
    using rm by (auto simp: mgr_ok_def tabs_ok_def maps_ok_def dest!: map_of_SomeD)
  then show ?thesis using e Some found_ok [OF rm] by (auto simp: getProtocolScope_def)
next
  case None
  obtain rm1 x where n: "newProtocolScope rm p = (rm1, x)" by fastforce
  have l: "lim_bnd (GetProtocolLimits (limits rm) p)" using mgr_okD(6) [OF rm] by (simp add: lims_ok_def)
  note N = new_scope_ok [OF rm l _ system_edge [OF rm] n [unfolded newProtocolScope_def]]
  have k: "kn rm1 x RProto" using N(4) by (simp add: role_def)
  then show ?thesis
    using created_ok [OF N(2) frame_maps(2) mgr_ok_maps(2) [OF N(1) k] k] e None n
    by (auto simp: getProtocolScope_def)
qed

lemma getServiceScope_ok:
  assumes rm: "mgr_ok rm" and e: "getServiceScope rm p = (rm', s)"
  shows "mgr_ok rm' \<and> frame rm rm' \<and> kn rm' s RSvc"
proof (cases "map_of (svc rm) p")
  case (Some x)
  then have "kn rm x RSvc"
    using rm by (auto simp: mgr_ok_def tabs_ok_def maps_ok_def dest!: map_of_SomeD)
  then show ?thesis using e Some found_ok [OF rm] by (auto simp: getServiceScope_def)
next
  case None
  obtain rm1 x where n: "newServiceScope rm p = (rm1, x)" by fastforce
  have l: "lim_bnd (GetServiceLimits (limits rm) p)" using mgr_okD(6) [OF rm] by (simp add: lims_ok_def)
  note N = new_scope_ok [OF rm l _ system_edge [OF rm] n [unfolded newServiceScope_def]]
  have k: "kn rm1 x RSvc" using N(4) by (simp add: role_def)
  then show ?thesis
    using created_ok [OF N(2) frame_maps(3) mgr_ok_maps(3) [OF N(1) k] k] e None n
    by (auto simp: getServiceScope_def)
qed

lemma sub_getPeerScope_ok:
  assumes rm: "mgr_ok rm" and l: "lim_bnd l" and q: "kn rm q r" "r = RProto \<or> r = RSvc"
    and e: "sub_getPeerScope rm q l p = (rm', s)"
  shows "mgr_ok rm' \<and> frame rm rm' \<and> kn rm' s (if r = RProto then RProtoPeer else RSvcPeer)"
proof (cases "map_of (scopePeers rm) (q, p)")
  case (Some x)
  then have "kn rm q RProto \<and> kn rm x RProtoPeer \<or> kn rm q RSvc \<and> kn rm x RSvcPeer"
    using rm map_of_SomeD [OF Some] unfolding mgr_ok_def tabs_ok_def maps_ok_def by blast
  then have "kn rm x (if r = RProto then RProtoPeer else RSvcPeer)" using q by (auto simp: kn_def)
  then show ?thesis using e Some found_ok [OF rm] by (auto simp: sub_getPeerScope_def)
next
  case None
  obtain rm1 x where n: "new_scope rm l [] (sname (hp rm q) @ ''.peer:'' @ p) = (rm1, x)" by fastforce
  have none: "distinct []" "\<forall>e \<in> set []. e < nxt rm \<and> owner (hp rm e) = None" by simp_all
  note N = new_scope_ok [OF rm l none n]
  have "name_role (sname (hp rm q)) = r"
    using q role_name [of "hp rm q"] unfolding kn_def by metis
  then have nm: "name_role (sname (hp rm q) @ ''.peer:'' @ p) = r"
    using q(2) name_role_append [of "sname (hp rm q)"] by metis
  then have k: "kn rm1 x (if r = RProto then RProtoPeer else RSvcPeer)"
    using N(4) q(2) by (auto simp: role_def nm simp del: append.simps)
  have "kn rm1 q r" using kn_mono [OF q(1) frame_grows [OF N(2)]] .
  then have "mgr_ok (rm1\<lparr>scopePeers := ((q, p), x) # scopePeers rm1\<rparr>)"
    using mgr_ok_maps(4) [OF N(1), of q x p] k q(2) by (auto split: if_splits)
  then show ?thesis
    using created_ok [OF N(2) frame_maps(4) _ k] e None n
    by (auto simp: sub_getPeerScope_def)
qed

end
