(* ===== verification/Rcmgr_Handlers.thy ===== *)
theory Rcmgr_Handlers
  imports Rcmgr_Invariant
begin

text \<open>
  The handlers of \<^verbatim>\<open>rcmgr.go\<close> against the manager invariant: each keeps it, a refused
  request leaves every counter as it was, and a granted one moves exactly the resources of
  the connection or stream.
\<close>

section \<open>Moving the resources of one scope\<close>

lemma mgr_ok_ReserveForChild:
  assumes rm: "mgr_ok rm" and st: "stat_nn st" and e: "ReserveForChild (hp rm) s st = (h', err)"
  shows "mgr_ok (rm\<lparr>hp := h'\<rparr>)" "grows rm (rm\<lparr>hp := h'\<rparr>)" "hok h'"
  using hok_ReserveForChild [OF mgr_okD(3) [OF rm] st e] mgr_ok_heap [OF rm] by auto

lemma mgr_ok_ReleaseForChild:
  assumes rm: "mgr_ok rm" and st: "stat_nn st"
  shows "mgr_ok (rm\<lparr>hp := ReleaseForChild (hp rm) s st\<rparr>)"
    "grows rm (rm\<lparr>hp := ReleaseForChild (hp rm) s st\<rparr>)"
  using hok_ReleaseForChild [OF mgr_okD(3) [OF rm] st] sgl_ReleaseForChild mgr_ok_heap [OF rm] by auto

lemma mgr_ok_DecRef:
  assumes "mgr_ok rm"
  shows "mgr_ok (rm\<lparr>hp := DecRef (hp rm) s\<rparr>)" "grows rm (rm\<lparr>hp := DecRef (hp rm) s\<rparr>)"
  using mgr_ok_refs(2) [OF assms] frame_grows [OF frame_refs(2)] by auto

lemma mgr_ok_IncRef:
  assumes "mgr_ok rm"
  shows "mgr_ok (rm\<lparr>hp := IncRef (hp rm) s\<rparr>)" "grows rm (rm\<lparr>hp := IncRef (hp rm) s\<rparr>)"
  using mgr_ok_refs(1) [OF assms] frame_grows [OF frame_refs(1)] by (auto simp: upd_heap_def)

text \<open>Rewiring the edges of a connection or stream scope.\<close>

lemma mgr_ok_set_edges:
  assumes rm: "mgr_ok rm" and s: "kn rm s r" "r = RConn \<or> r = RStream"
    and es: "distinct (map (\<lambda>e. role (hp rm e)) (s # es))" "\<forall>e \<in> set es. e < nxt rm \<and> role (hp rm e) \<noteq> ROther"
  shows "mgr_ok (rm\<lparr>hp := set_edges (hp rm) s es\<rparr>)" "grows rm (rm\<lparr>hp := set_edges (hp rm) s es\<rparr>)"
proof -
  show g: "grows rm (rm\<lparr>hp := set_edges (hp rm) s es\<rparr>)"
    using roles_set_edges [of "hp rm" s] s by (auto simp: grows_def kn_def)
  have "distinct (s # es)" using es(1) unfolding distinct_map by simp
  then have "hok (set_edges (hp rm) s es)"
    using hok_set_edges [of "hp rm" s es] es(2) role_owner kn_owner [OF s(1)] s(2) mgr_okD(3) [OF rm] by auto
  then show "mgr_ok (rm\<lparr>hp := set_edges (hp rm) s es\<rparr>)"
    using mgr_ok_step [OF rm g] mgr_okD [OF rm] by (simp add: same_tabs_def)
qed

lemma mgr_ok_conn:
  "mgr_ok rm \<Longrightarrow> conn_ok rm s c \<Longrightarrow> mgr_ok (rm\<lparr>connScopes := (connScopes rm)(s \<mapsto> c)\<rparr>)"
  by (simp add: mgr_ok_def tabs_ok_def maps_ok_def roots_ok_def conn_ok_def stream_ok_def kn_def)

lemma mgr_ok_stream:
  "mgr_ok rm \<Longrightarrow> stream_ok rm s c \<Longrightarrow> mgr_ok (rm\<lparr>streamScopes := (streamScopes rm)(s \<mapsto> c)\<rparr>)"
  by (auto simp: mgr_ok_def tabs_ok_def maps_ok_def roots_ok_def conn_ok_def stream_ok_def kn_def)

lemma mgr_ok_tabD:
  assumes "mgr_ok rm"
  shows "connScopes rm s = Some c \<Longrightarrow> conn_ok rm s c" "streamScopes rm s = Some t \<Longrightarrow> stream_ok rm s t"
  using assms by (simp_all add: mgr_ok_def tabs_ok_def)

section \<open>Counters of the scopes below a bound\<close>

definition same_rc :: "sid \<Rightarrow> heap \<Rightarrow> heap \<Rightarrow> bool" where
  "same_rc n h h' \<longleftrightarrow> (\<forall>t < n. rc (h' t) = rc (h t))"

lemma same_rc_simps [simp]:
  "same_rc n h h" "same_rc n h (IncRef h' s) = same_rc n h h'" "same_rc n h (DecRef h' s) = same_rc n h h'"
  "same_rc n h (set_edges h' s es) = same_rc n h h'"
  by (auto simp: same_rc_def IncRef_def DecRef_def set_edges_def)

lemma frame_same_rc: "frame rm rm' \<Longrightarrow> same_rc (nxt rm) (hp rm) (hp rm')"
  by (simp add: frame_def same_rc_def)

lemma ReserveForChild_cases:
  assumes "hok h" "ReserveForChild h s st = (h', err)"
  shows "case err of
      None \<Rightarrow> \<not> sdone (h s) \<and> stat_fits (rc (h s)) st \<and> h' = upd_rc h s (add_stat (rc (h s)) st)
    | Some e \<Rightarrow> h' = h"
  using ReserveForChild_spec [of h s st] hok_nn [OF assms(1)] assms(2) by (auto split: if_splits)

lemma release_stat_back:
  assumes "hok h" "ReserveForChild h s st = (h', None)"
  shows "release_stat (add_stat (rc (h s)) st) st = rc (h s)"
proof -
  have "stat_fits (rc (h s)) st" using ReserveForChild_cases [OF assms] by simp
  then obtain r1 where "reserveMemory (rc (h s)) (StatMemory st) 255 = Inr r1"
    by (simp add: stat_fits_def reserveMemory_def)
  then show ?thesis using release_add_stat hok_nn [OF assms(1)] by blast
qed

section \<open>Charging a scope and its scope for one peer\<close>

text \<open>\<^term>\<open>keeps\<close> is \<^term>\<open>frame\<close> without the counters.\<close>

definition keeps :: "resourceManager \<Rightarrow> resourceManager \<Rightarrow> bool" where
  "keeps rm rm' \<longleftrightarrow> nxt rm \<le> nxt rm' \<and>
     (\<forall>t < nxt rm. sdone (hp rm' t) = sdone (hp rm t) \<and> edges (hp rm' t) = edges (hp rm t) \<and>
        owner (hp rm' t) = owner (hp rm t) \<and> sname (hp rm' t) = sname (hp rm t)) \<and>
     limits rm' = limits rm \<and> allowlist rm' = allowlist rm \<and> connLim rm' = connLim rm \<and>
     system rm' = system rm \<and> transient rm' = transient rm \<and>
     allowlistedSystem rm' = allowlistedSystem rm \<and> allowlistedTransient rm' = allowlistedTransient rm \<and>
     connScopes rm' = connScopes rm \<and> streamScopes rm' = streamScopes rm"

lemma keeps_refl [simp]: "keeps rm rm"
  by (simp add: keeps_def)

lemma keeps_trans [trans]: "keeps a b \<Longrightarrow> keeps b c \<Longrightarrow> keeps a c"
  by (simp add: keeps_def)

lemma frame_keeps: "frame rm rm' \<Longrightarrow> keeps rm rm'"
  by (simp add: frame_def keeps_def)

lemma keeps_grows: "keeps rm rm' \<Longrightarrow> grows rm rm'"
  unfolding keeps_def grows_def same_roles_def by (intro conjI allI impI role_cong) simp_all

lemma keeps_upd: "keeps rm (rm\<lparr>hp := upd_rc (hp rm) s r\<rparr>)"
  by (simp add: keeps_def)

lemma keeps_Release: "keeps rm (rm\<lparr>hp := ReleaseForChild (hp rm) s st\<rparr>)"
  by (simp add: ReleaseForChild_def keeps_upd)

definition sub_role :: "scope_role \<Rightarrow> scope_role" where
  "sub_role r = (if r = RProto then RProtoPeer else RSvcPeer)"

text \<open>
  What a granted transfer does to a scope \<open>u\<close> that already existed: the scopes that
  receive the resources gain them, the scope they come from loses them if it is open.
\<close>

definition moved :: "heap \<Rightarrow> ScopeStat \<Rightarrow> sid set \<Rightarrow> sid option \<Rightarrow> sid \<Rightarrow> resources" where
  "moved h st to from u =
     (if u \<in> to then add_stat (rc (h u)) st
      else if from = Some u \<and> \<not> sdone (h u) then release_stat (rc (h u)) st
      else rc (h u))"

lemma charge_two:
  assumes rm: "mgr_ok rm" and q: "kn rm q r" "r = RProto \<or> r = RSvc" and st: "stat_nn st" and l: "lim_bnd l"
    and r1: "ReserveForChild (hp rm) q st = (h1, None)"
    and g: "sub_getPeerScope (rm\<lparr>hp := h1\<rparr>) q l p = (rm2, pp)"
    and r2: "ReserveForChild (hp rm2) pp st = (h2, e2)"
  shows "case e2 of
      Some err \<Rightarrow> mgr_ok (rm2\<lparr>hp := DecRef (DecRef (ReleaseForChild h2 q st) q) pp\<rparr>) \<and>
        same_rc (nxt rm) (hp rm) (DecRef (DecRef (ReleaseForChild h2 q st) q) pp) \<and> keeps rm rm2
    | None \<Rightarrow> mgr_ok (rm2\<lparr>hp := h2\<rparr>) \<and> keeps rm (rm2\<lparr>hp := h2\<rparr>) \<and>
        kn (rm2\<lparr>hp := h2\<rparr>) q r \<and> kn (rm2\<lparr>hp := h2\<rparr>) pp (sub_role r) \<and>
        (\<forall>u < nxt rm. rc (h2 u) = moved (hp rm) st {q, pp} None u)"
proof -
  note R1 = ReserveForChild_cases [OF mgr_okD(3) [OF rm] r1, simplified]
  have M1: "mgr_ok (rm\<lparr>hp := h1\<rparr>)" and k1: "keeps rm (rm\<lparr>hp := h1\<rparr>)"
    using mgr_ok_ReserveForChild(1) [OF rm st r1] R1 by (simp_all add: keeps_upd)
  have q1: "kn (rm\<lparr>hp := h1\<rparr>) q r" using kn_mono [OF q(1) keeps_grows [OF k1]] .
  from sub_getPeerScope_ok [OF M1 l q1 q(2) g]
  have M2: "mgr_ok rm2" and f2: "frame (rm\<lparr>hp := h1\<rparr>) rm2" and pp: "kn rm2 pp (sub_role r)"
    by (simp_all add: sub_role_def)
  have k2: "keeps rm rm2" using keeps_trans [OF k1 frame_keeps [OF f2]] .
  have q2: "kn rm2 q r" using kn_mono [OF q(1) keeps_grows [OF k2]] .
  have neq: "q \<noteq> pp" using kn_neq [OF q2 pp] q(2) by (auto simp: sub_role_def)
  have rc2: "rc (hp rm2 u) = (if u = q then add_stat (rc (hp rm q)) st else rc (hp rm u))" if "u < nxt rm" for u
    using that f2 R1 by (simp add: frame_def)
  note R2 = ReserveForChild_cases [OF mgr_okD(3) [OF M2] r2]
  show ?thesis
  proof (cases e2)
    case (Some err)
    then have h2: "h2 = hp rm2" using R2 by simp
    have "rc (ReleaseForChild (hp rm2) q st u) = rc (hp rm u)" if "u < nxt rm" for u
      using release_stat_back [OF mgr_okD(3) [OF rm] r1] rc2 [OF that] R1 k2 kn_lt [OF q(1)]
      by (auto simp: ReleaseForChild_def keeps_def)
    then have "same_rc (nxt rm) (hp rm) (ReleaseForChild h2 q st)" by (simp add: same_rc_def h2)
    moreover have "mgr_ok (rm2\<lparr>hp := DecRef (DecRef (ReleaseForChild h2 q st) q) pp\<rparr>)"
      using mgr_ok_DecRef(1) [OF mgr_ok_DecRef(1) [OF mgr_ok_ReleaseForChild(1) [OF M2 st]]] h2 by simp
    ultimately show ?thesis using Some k2 by simp
  next
    case None
    then have h2: "h2 = upd_rc (hp rm2) pp (add_stat (rc (hp rm2 pp)) st)" using R2 by simp
    have k3: "keeps rm2 (rm2\<lparr>hp := h2\<rparr>)" using h2 by (simp add: keeps_upd)
    have "mgr_ok (rm2\<lparr>hp := h2\<rparr>)" by (rule mgr_ok_ReserveForChild(1) [OF M2 st r2])
    moreover have "rc (h2 u) = moved (hp rm) st {q, pp} None u" if "u < nxt rm" for u
      using rc2 [OF that] neq by (auto simp: h2 moved_def)
    ultimately show ?thesis
      using None keeps_trans [OF k2 k3] kn_mono [OF q2 keeps_grows [OF k3]]
        kn_mono [OF pp keeps_grows [OF k3]] by simp
  qed
qed

section \<open>Streams\<close>

lemma attach_stream:
  assumes rm: "mgr_ok rm" and t: "stream_ok rm s t"
    and es: "distinct (map (\<lambda>e. role (hp rm e)) (s # es))" "\<forall>e \<in> set es. e < nxt rm \<and> role (hp rm e) \<noteq> ROther"
  shows "mgr_ok (rm\<lparr>hp := set_edges (hp rm) s es, streamScopes := (streamScopes rm)(s \<mapsto> t)\<rparr>)"
    "grows rm (rm\<lparr>hp := set_edges (hp rm) s es, streamScopes := (streamScopes rm)(s \<mapsto> t)\<rparr>)"
proof -
  have "kn rm s RStream" using t by (simp add: stream_ok_def)
  note E = mgr_ok_set_edges [OF rm this _ es]
  show "mgr_ok (rm\<lparr>hp := set_edges (hp rm) s es, streamScopes := (streamScopes rm)(s \<mapsto> t)\<rparr>)"
    using mgr_ok_stream [OF E(1) stream_ok_mono [OF t E(2)]] by simp
  show "grows rm (rm\<lparr>hp := set_edges (hp rm) s es, streamScopes := (streamScopes rm)(s \<mapsto> t)\<rparr>)"
    using E(2) by (simp add: grows_def)
qed

lemma SetProtocol_ok:
  assumes rm: "mgr_ok rm" and t: "streamScopes rm s = Some t" "sproto t = None"
    and e: "SetProtocol rm s pr = (rm', res)"
  shows "mgr_ok rm' \<and> (case res of
      Some err \<Rightarrow> same_rc (nxt rm) (hp rm) (hp rm') \<and> streamScopes rm' = streamScopes rm
    | None \<Rightarrow> \<exists>q pp. edges (hp rm' s) = [snd (speer t), pp, q, system rm] \<and>
        kn rm' q RProto \<and> kn rm' pp RProtoPeer \<and>
        (\<forall>u < nxt rm. rc (hp rm' u) = moved (hp rm) (stat (rc (hp rm s))) {q, pp} (Some (transient rm)) u))"
proof -
  obtain rm1 q where g: "getProtocolScope rm pr = (rm1, q)" by fastforce
  define st where "st = stat (rc (hp rm1 s))"
  have 1: "mgr_ok rm1" "frame rm rm1" "kn rm1 q RProto" using getProtocolScope_ok [OF rm g] by auto
  have sok: "stream_ok rm s t" using mgr_ok_tabD(2) [OF rm t(1)] .
  then have s: "s < nxt rm" by (simp add: stream_ok_def kn_def)
  then have st: "st = stat (rc (hp rm s))" "stat_nn st"
    using 1(2) hok_stat [OF mgr_okD(3) [OF 1(1)], of s] by (auto simp: st_def frame_def)
  obtain h1 e1 where r1: "ReserveForChild (hp rm1) q st = (h1, e1)" by fastforce
  show ?thesis
  proof (cases e1)
    case (Some err)
    then have "rm' = rm1\<lparr>hp := DecRef (hp rm1) q\<rparr>" "res = Some (ScopeError err)"
      using e t g r1 ReserveForChild_cases [OF mgr_okD(3) [OF 1(1)] r1]
      by (auto simp: SetProtocol_def Let_def st_def [symmetric])
    then show ?thesis
      using mgr_ok_DecRef(1) [OF 1(1)] frame_same_rc [OF 1(2)] 1(2) by (simp add: frame_def)
  next
    case None
    define l where "l = GetProtocolPeerLimits (limits rm1) pr"
    have l: "lim_bnd l" using mgr_okD(6) [OF 1(1)] by (simp add: l_def lims_ok_def)
    obtain rm2 pp where g2: "sub_getPeerScope (rm1\<lparr>hp := h1\<rparr>) q l (fst (speer t)) = (rm2, pp)" by fastforce
    obtain h2 e2 where r2: "ReserveForChild (hp rm2) pp st = (h2, e2)" by fastforce
    note C = charge_two [OF 1(1,3) _ st(2) l r1 [unfolded None] g2 r2]
    show ?thesis
    proof (cases e2)
      case (Some err)
      then have "rm' = rm2\<lparr>hp := DecRef (DecRef (ReleaseForChild h2 q st) q) pp\<rparr>" "res = Some (ScopeError err)"
        using e t g r1 None g2 r2 by (auto simp: SetProtocol_def Let_def st_def [symmetric] l_def [symmetric])
      then show ?thesis
        using C Some frame_same_rc [OF 1(2)] 1(2) by (auto simp: frame_def keeps_def same_rc_def)
    next
      case e2: None
      define rm3 where "rm3 = rm2\<lparr>hp := h2\<rparr>"
      have 3: "mgr_ok rm3" "keeps rm1 rm3" "kn rm3 q RProto" "kn rm3 pp RProtoPeer"
          "\<And>u. u < nxt rm1 \<Longrightarrow> rc (hp rm3 u) = moved (hp rm1) st {q, pp} None u"
        using C e2 by (simp_all add: rm3_def sub_role_def)
      define rm4 where "rm4 = rm3\<lparr>hp := DecRef (ReleaseForChild (hp rm3) (transient rm3) st) (transient rm3)\<rparr>"
      have M4: "mgr_ok rm4" and k4: "keeps rm3 rm4"
        using mgr_ok_DecRef(1) [OF mgr_ok_ReleaseForChild(1) [OF 3(1) st(2)]]
          keeps_trans [OF keeps_Release frame_keeps [OF frame_refs(2)]] by (simp_all add: rm4_def)
      have k: "keeps rm rm4" using keeps_trans [OF frame_keeps [OF 1(2)] keeps_trans [OF 3(2) k4]] .
      note up = kn_mono [OF _ keeps_grows [OF k4]]
      have qp: "kn rm4 q RProto" "kn rm4 pp RProtoPeer" "kn rm4 (system rm4) RSystem"
        using up [OF 3(3)] up [OF 3(4)] mgr_okD(1) [OF M4] by auto
      define t' where "t' = t\<lparr>sproto := Some q, peerProtoScope := Some pp\<rparr>"
      have t': "stream_ok rm4 s t'"
        using stream_ok_mono [OF sok keeps_grows [OF k]] qp by (auto simp: stream_ok_def t'_def)
      define es where "es = [snd (speer t), pp, q, system rm4]"
      have es: "distinct (map (\<lambda>e. role (hp rm4 e)) (s # es))"
          "\<forall>e \<in> set es. e < nxt rm4 \<and> role (hp rm4 e) \<noteq> ROther"
        using qp t' by (auto simp: es_def stream_ok_def kn_def t'_def)
      note A = attach_stream [OF M4 t' es]
      have rm': "rm' = rm4\<lparr>hp := set_edges (hp rm4) s es, streamScopes := (streamScopes rm4)(s \<mapsto> t')\<rparr>"
          and res: "res = None"
        using e t g r1 None g2 r2 e2
        by (auto simp: SetProtocol_def Let_def st_def [symmetric] l_def [symmetric] rm4_def rm3_def es_def t'_def)
      have sys: "system rm4 = system rm" "transient rm3 = transient rm" "nxt rm \<le> nxt rm1"
        using k 1(2) 3(2) by (simp_all add: keeps_def frame_def)
      have "rc (hp rm' u) = moved (hp rm) (stat (rc (hp rm s))) {q, pp} (Some (transient rm)) u" if u: "u < nxt rm" for u
      proof -
        have "u < nxt rm1" using u sys(3) by simp
        moreover have "transient rm \<notin> {q, pp}"
          using kn_neq [OF mgr_okD(2) [OF 3(1)]] 3(3,4) sys(2) by auto
        moreover have "sdone (hp rm3 (transient rm)) = sdone (hp rm (transient rm))"
          "rc (hp rm1 u) = rc (hp rm u)"
          using 3(2) 1(2) u kn_lt [OF mgr_okD(2) [OF rm]] by (auto simp: keeps_def frame_def)
        ultimately show ?thesis
          using 3(5) [of u] sys(2) st(1)
          by (auto simp: rm' rm4_def moved_def ReleaseForChild_def set_edges_def)
      qed
      then show ?thesis
        using A rm' res sys(1) kn_mono [OF qp(1) A(2)] kn_mono [OF qp(2) A(2)]
        by (auto simp: es_def set_edges_def)
    qed
  qed
qed

lemma SetService_ok:
  assumes rm: "mgr_ok rm" and t: "streamScopes rm s = Some t" "ssvc t = None" "sproto t = Some q0"
    and e: "SetService rm s v = (rm', res)"
  shows "mgr_ok rm' \<and> (case res of
      Some err \<Rightarrow> same_rc (nxt rm) (hp rm) (hp rm') \<and> streamScopes rm' = streamScopes rm
    | None \<Rightarrow> \<exists>w pw pp. peerProtoScope t = Some pp \<and>
        edges (hp rm' s) = [snd (speer t), pp, pw, q0, w, system rm] \<and>
        kn rm' w RSvc \<and> kn rm' pw RSvcPeer \<and>
        (\<forall>u < nxt rm. rc (hp rm' u) = moved (hp rm) (stat (rc (hp rm s))) {w, pw} None u))"
proof -
  obtain rm1 w where g: "getServiceScope rm v = (rm1, w)" by fastforce
  define st where "st = stat (rc (hp rm1 s))"
  have 1: "mgr_ok rm1" "frame rm rm1" "kn rm1 w RSvc" using getServiceScope_ok [OF rm g] by auto
  have sok: "stream_ok rm s t" using mgr_ok_tabD(2) [OF rm t(1)] .
  then have s: "s < nxt rm" by (simp add: stream_ok_def kn_def)
  then have st: "st = stat (rc (hp rm s))" "stat_nn st"
    using 1(2) hok_stat [OF mgr_okD(3) [OF 1(1)], of s] by (auto simp: st_def frame_def)
  obtain pp where pp: "peerProtoScope t = Some pp" using sok t(3) by (auto simp: stream_ok_def)
  obtain h1 e1 where r1: "ReserveForChild (hp rm1) w st = (h1, e1)" by fastforce
  show ?thesis
  proof (cases e1)
    case (Some err)
    then have "rm' = rm1\<lparr>hp := DecRef (hp rm1) w\<rparr>" "res = Some (ScopeError err)"
      using e t g r1 ReserveForChild_cases [OF mgr_okD(3) [OF 1(1)] r1]
      by (auto simp: SetService_def Let_def st_def [symmetric])
    then show ?thesis
      using mgr_ok_DecRef(1) [OF 1(1)] frame_same_rc [OF 1(2)] 1(2) by (simp add: frame_def)
  next
    case None
    define l where "l = GetServicePeerLimits (limits rm1) v"
    have l: "lim_bnd l" using mgr_okD(6) [OF 1(1)] by (simp add: l_def lims_ok_def)
    obtain rm2 pw where g2: "sub_getPeerScope (rm1\<lparr>hp := h1\<rparr>) w l (fst (speer t)) = (rm2, pw)" by fastforce
    obtain h2 e2 where r2: "ReserveForChild (hp rm2) pw st = (h2, e2)" by fastforce
    note C = charge_two [OF 1(1,3) _ st(2) l r1 [unfolded None] g2 r2]
    show ?thesis
    proof (cases e2)
      case (Some err)
      then have "rm' = rm2\<lparr>hp := DecRef (DecRef (ReleaseForChild h2 w st) w) pw\<rparr>" "res = Some (ScopeError err)"
        using e t g r1 None g2 r2 by (auto simp: SetService_def Let_def st_def [symmetric] l_def [symmetric])
      then show ?thesis
        using C Some frame_same_rc [OF 1(2)] 1(2) by (auto simp: frame_def keeps_def same_rc_def)
    next
      case e2: None
      define rm3 where "rm3 = rm2\<lparr>hp := h2\<rparr>"
      have 3: "mgr_ok rm3" "keeps rm1 rm3" "kn rm3 w RSvc" "kn rm3 pw RSvcPeer"
          "\<And>u. u < nxt rm1 \<Longrightarrow> rc (hp rm3 u) = moved (hp rm1) st {w, pw} None u"
        using C e2 by (simp_all add: rm3_def sub_role_def)
      have k: "keeps rm rm3" using keeps_trans [OF frame_keeps [OF 1(2)] 3(2)] .
      define t' where "t' = t\<lparr>ssvc := Some w, peerSvcScope := Some pw\<rparr>"
      have t': "stream_ok rm3 s t'"
        using stream_ok_mono [OF sok keeps_grows [OF k]] 3 by (auto simp: stream_ok_def t'_def)
      define es where "es = [snd (speer t), pp, pw, q0, w, system rm3]"
      have es: "distinct (map (\<lambda>e. role (hp rm3 e)) (s # es))"
          "\<forall>e \<in> set es. e < nxt rm3 \<and> role (hp rm3 e) \<noteq> ROther"
        using 3(3,4) t' pp t(3) mgr_okD(1) [OF 3(1)] by (auto simp: es_def stream_ok_def kn_def t'_def)
      note A = attach_stream [OF 3(1) t' es]
      have rm': "rm' = rm3\<lparr>hp := set_edges (hp rm3) s es, streamScopes := (streamScopes rm3)(s \<mapsto> t')\<rparr>"
          and res: "res = None"
        using e t g r1 None g2 r2 e2 pp
        by (auto simp: SetService_def Let_def st_def [symmetric] l_def [symmetric] rm3_def es_def t'_def)
      have sys: "system rm3 = system rm" "nxt rm \<le> nxt rm1"
        using k 1(2) by (simp_all add: keeps_def frame_def)
      have "rc (hp rm' u) = moved (hp rm) (stat (rc (hp rm s))) {w, pw} None u" if u: "u < nxt rm" for u
      proof -
        have "rc (hp rm1 u) = rc (hp rm u)" using 1(2) u by (simp add: frame_def)
        then show ?thesis using 3(5) [of u] u sys(2) st(1) by (auto simp: rm' moved_def set_edges_def)
      qed
      then show ?thesis
        using A rm' res sys(1) kn_mono [OF 3(3) A(2)] kn_mono [OF 3(4) A(2)] pp
        by (auto simp: es_def set_edges_def)
    qed
  qed
qed

section \<open>Connections\<close>

lemma attach_conn:
  assumes rm: "mgr_ok rm" and t: "conn_ok rm s c"
    and es: "distinct (map (\<lambda>e. role (hp rm e)) (s # es))" "\<forall>e \<in> set es. e < nxt rm \<and> role (hp rm e) \<noteq> ROther"
  shows "mgr_ok (rm\<lparr>hp := set_edges (hp rm) s es, connScopes := (connScopes rm)(s \<mapsto> c)\<rparr>)"
    "grows rm (rm\<lparr>hp := set_edges (hp rm) s es, connScopes := (connScopes rm)(s \<mapsto> c)\<rparr>)"
proof -
  have "kn rm s RConn" using t by (simp add: conn_ok_def)
  note E = mgr_ok_set_edges [OF rm this _ es]
  show "mgr_ok (rm\<lparr>hp := set_edges (hp rm) s es, connScopes := (connScopes rm)(s \<mapsto> c)\<rparr>)"
    using mgr_ok_conn [OF E(1) conn_ok_mono [OF t E(2)]] by simp
  show "grows rm (rm\<lparr>hp := set_edges (hp rm) s es, connScopes := (connScopes rm)(s \<mapsto> c)\<rparr>)"
    using E(2) by (simp add: grows_def)
qed

lemma SetPeer_attach_ok:
  assumes rm: "mgr_ok rm" and c: "conn_ok rm s c"
    and roots: "kn rm sys RSystem \<or> kn rm sys RAlSystem" "kn rm trn RTransient \<or> kn rm trn RAlTransient"
    and e: "SetPeer_attach rm s c p sys trn = (rm', res)"
  shows "mgr_ok rm' \<and> (case res of
      Some err \<Rightarrow> same_rc (nxt rm) (hp rm) (hp rm') \<and> connScopes rm' = connScopes rm
    | None \<Rightarrow> \<exists>ps. kn rm' ps RPeer \<and> edges (hp rm' s) = [ps, sys] \<and>
        connScopes rm' = (connScopes rm)(s \<mapsto> c\<lparr>cpeer := Some ps\<rparr>) \<and>
        (\<forall>u < nxt rm. rc (hp rm' u) = moved (hp rm) (stat (rc (hp rm s))) {ps} (Some trn) u))"
proof -
  obtain rm1 ps where g: "getPeerScope rm p = (rm1, ps)" by fastforce
  define st where "st = stat (rc (hp rm1 s))"
  have 1: "mgr_ok rm1" "frame rm rm1" "kn rm1 ps RPeer" using getPeerScope_ok [OF rm g] by auto
  have s: "s < nxt rm" using c by (simp add: conn_ok_def kn_def)
  then have st: "st = stat (rc (hp rm s))" "stat_nn st"
    using 1(2) hok_stat [OF mgr_okD(3) [OF 1(1)], of s] by (auto simp: st_def frame_def)
  obtain h1 e1 where r1: "ReserveForChild (hp rm1) ps st = (h1, e1)" by fastforce
  note R1 = ReserveForChild_cases [OF mgr_okD(3) [OF 1(1)] r1]
  show ?thesis
  proof (cases e1)
    case (Some err)
    then have "rm' = rm1\<lparr>hp := DecRef (hp rm1) ps\<rparr>" "res = Some (ScopeError err)"
      using e g r1 R1 by (auto simp: SetPeer_attach_def Let_def st_def [symmetric])
    then show ?thesis
      using mgr_ok_DecRef(1) [OF 1(1)] frame_same_rc [OF 1(2)] 1(2) by (simp add: frame_def)
  next
    case None
    then have h1: "h1 = upd_rc (hp rm1) ps (add_stat (rc (hp rm1 ps)) st)" using R1 by simp
    define rm3 where "rm3 = rm1\<lparr>hp := h1\<rparr>"
    have M3: "mgr_ok rm3" and k3: "keeps rm1 rm3"
      using mgr_ok_ReserveForChild(1) [OF 1(1) st(2) r1] h1 by (simp_all add: rm3_def keeps_upd)
    define rm4 where "rm4 = rm3\<lparr>hp := DecRef (ReleaseForChild (hp rm3) trn st) trn\<rparr>"
    have M4: "mgr_ok rm4" and k4: "keeps rm3 rm4"
      using mgr_ok_DecRef(1) [OF mgr_ok_ReleaseForChild(1) [OF M3 st(2)]]
        keeps_trans [OF keeps_Release frame_keeps [OF frame_refs(2)]] by (simp_all add: rm4_def)
    have k: "keeps rm rm4" using keeps_trans [OF frame_keeps [OF 1(2)] keeps_trans [OF k3 k4]] .
    note up = kn_mono [OF _ keeps_grows [OF k]]
    have ps: "kn rm4 ps RPeer" using kn_mono [OF 1(3) keeps_grows [OF keeps_trans [OF k3 k4]]] .
    define c' where "c' = c\<lparr>cpeer := Some ps\<rparr>"
    have c': "conn_ok rm4 s c'" using conn_ok_mono [OF c keeps_grows [OF k]] ps by (auto simp: conn_ok_def c'_def)
    have sys: "kn rm4 sys RSystem \<or> kn rm4 sys RAlSystem" "kn rm4 trn RTransient \<or> kn rm4 trn RAlTransient"
      using roots up by auto
    have es: "distinct (map (\<lambda>e. role (hp rm4 e)) (s # [ps, sys]))"
        "\<forall>e \<in> set [ps, sys]. e < nxt rm4 \<and> role (hp rm4 e) \<noteq> ROther"
      using ps c' sys by (auto simp: conn_ok_def kn_def c'_def)
    note A = attach_conn [OF M4 c' es]
    have rm': "rm' = rm4\<lparr>hp := set_edges (hp rm4) s [ps, sys], connScopes := (connScopes rm4)(s \<mapsto> c')\<rparr>"
        and res: "res = None"
      using e g r1 None
      by (auto simp: SetPeer_attach_def Let_def st_def [symmetric] rm4_def rm3_def c'_def)
    have "rc (hp rm' u) = moved (hp rm) (stat (rc (hp rm s))) {ps} (Some trn) u" if u: "u < nxt rm" for u
    proof -
      have "trn \<noteq> ps" using sys(2) ps by (auto simp: kn_def)
      moreover have "sdone (hp rm1 u) = sdone (hp rm u)" "rc (hp rm1 u) = rc (hp rm u)"
        using 1(2) u by (auto simp: frame_def)
      ultimately show ?thesis
        using st(1) by (auto simp: rm' rm4_def rm3_def h1 moved_def ReleaseForChild_def set_edges_def)
    qed
    moreover have "connScopes rm4 = connScopes rm" using k by (simp add: keeps_def)
    ultimately show ?thesis
      using A rm' res kn_mono [OF ps A(2)] by (auto simp: set_edges_def c'_def)
  qed
qed

text \<open>The store of a manager under a sequence of counter operations.\<close>

lemma mgr_ok_release_edges:
  fixes es :: "sid list"
  assumes rm: "mgr_ok rm" and st: "stat_nn st"
  defines "h \<equiv> fold (\<lambda>e h. DecRef (ReleaseForChild h e st) e) es (hp rm)"
  shows "mgr_ok (rm\<lparr>hp := h\<rparr>)" "grows rm (rm\<lparr>hp := h\<rparr>)"
proof -
  have one: "scope_step\<^sup>*\<^sup>* h (DecRef (ReleaseForChild h e st) e)"
      "same_graph_lim h (DecRef (ReleaseForChild h e st) e)" for h e
    using ReleaseForChild_step [OF st] DecRef_step sgl_trans [OF sgl_ReleaseForChild sgl_refs(2)]
    by (meson rtranclp.rtrancl_into_rtrancl r_into_rtranclp, blast)
  have "scope_step\<^sup>*\<^sup>* (hp rm) h" unfolding h_def by (rule fold_steps, rule one)
  moreover have "same_graph_lim (hp rm) h" unfolding h_def
    by (rule sgl_rtrancl, rule fold_steps, rule r_into_rtranclp, rule one)
  ultimately show "mgr_ok (rm\<lparr>hp := h\<rparr>)" "grows rm (rm\<lparr>hp := h\<rparr>)"
    using mgr_ok_heap [OF rm] hok_steps mgr_okD(3) [OF rm] by blast+
qed

lemma transfer_ok:
  assumes rm: "mgr_ok rm" and s: "kn rm s RConn" and e: "transferAllowedToStandard rm s = (rm', res)"
  shows "mgr_ok rm' \<and> grows rm rm' \<and> (\<exists>h. rm' = rm\<lparr>hp := h\<rparr>)"
proof -
  define st where "st = stat (rc (hp rm s))"
  have st: "stat_nn st" using hok_stat [OF mgr_okD(3) [OF rm]] by (simp add: st_def)
  define rm1 where "rm1 = rm\<lparr>hp := fold (\<lambda>e h. DecRef (ReleaseForChild h e st) e) (edges (hp rm s)) (hp rm)\<rparr>"
  have 1: "mgr_ok rm1" "grows rm rm1" using mgr_ok_release_edges [OF rm st] by (simp_all add: rm1_def)
  define rm2 where "rm2 = rm1\<lparr>hp := set_edges (hp rm1) s []\<rparr>"
  have 2: "mgr_ok rm2" "grows rm1 rm2"
    using mgr_ok_set_edges [OF 1(1) kn_mono [OF s 1(2)], of "[]"] by (simp_all add: rm2_def)
  have g2: "grows rm rm2" using grows_trans [OF 1(2) 2(2)] .
  obtain h3 e3 where r3: "ReserveForChild (hp rm2) (system rm) st = (h3, e3)" by fastforce
  note M3 = mgr_ok_ReserveForChild(1,2) [OF 2(1) st r3]
  show ?thesis
  proof (cases e3)
    case (Some err)
    then have "rm' = rm2\<lparr>hp := h3\<rparr>"
      using e r3 by (auto simp: transferAllowedToStandard_def Let_def st_def [symmetric] rm2_def rm1_def)
    then show ?thesis using M3 grows_trans [OF g2 M3(2)] by (auto simp: rm2_def rm1_def)
  next
    case None
    define rm4 where "rm4 = rm2\<lparr>hp := IncRef h3 (system rm)\<rparr>"
    have 4: "mgr_ok rm4" "grows rm rm4"
      using mgr_ok_IncRef [OF M3(1), of "system rm"] grows_trans [OF grows_trans [OF g2 M3(2)]]
      by (auto simp: rm4_def)
    obtain h5 e5 where r5: "ReserveForChild (hp rm4) (transient rm) st = (h5, e5)" by fastforce
    note M5 = mgr_ok_ReserveForChild(1,2) [OF 4(1) st r5]
    define rm5 where "rm5 = rm4\<lparr>hp := h5\<rparr>"
    have 5: "mgr_ok rm5" "grows rm rm5" using M5 grows_trans [OF 4(2)] by (auto simp: rm5_def)
    show ?thesis
    proof (cases e5)
      case (Some err)
      have "mgr_ok (rm5\<lparr>hp := DecRef (ReleaseForChild (hp rm5) (system rm) st) (system rm)\<rparr>)"
           "grows rm5 (rm5\<lparr>hp := DecRef (ReleaseForChild (hp rm5) (system rm) st) (system rm)\<rparr>)"
        using mgr_ok_DecRef [OF mgr_ok_ReleaseForChild(1) [OF 5(1) st], of "system rm" "system rm"]
          grows_trans [OF mgr_ok_ReleaseForChild(2) [OF 5(1) st, of "system rm"]] by auto
      moreover have "rm' = rm5\<lparr>hp := DecRef (ReleaseForChild (hp rm5) (system rm) st) (system rm)\<rparr>"
        using e r3 None r5 Some
        by (auto simp: transferAllowedToStandard_def Let_def st_def [symmetric] rm2_def rm1_def rm4_def rm5_def)
      ultimately show ?thesis
        using grows_trans [OF 5(2)] by (auto simp: rm2_def rm1_def rm4_def rm5_def)
    next
      case e5: None
      define rm6 where "rm6 = rm5\<lparr>hp := IncRef (hp rm5) (transient rm)\<rparr>"
      have 6: "mgr_ok rm6" "grows rm rm6"
        using mgr_ok_IncRef [OF 5(1)] grows_trans [OF 5(2)] by (auto simp: rm6_def)
      have sys: "system rm6 = system rm" "transient rm6 = transient rm"
        by (simp_all add: rm6_def rm5_def rm4_def rm2_def rm1_def)
      have kk: "kn rm6 s RConn" "kn rm6 (system rm) RSystem" "kn rm6 (transient rm) RTransient"
        using kn_mono [OF s 6(2)] mgr_okD(1,2) [OF 6(1)] sys by auto
      have "mgr_ok (rm6\<lparr>hp := set_edges (hp rm6) s [system rm, transient rm]\<rparr>)"
           "grows rm6 (rm6\<lparr>hp := set_edges (hp rm6) s [system rm, transient rm]\<rparr>)"
        using mgr_ok_set_edges [OF 6(1) kk(1), of "[system rm, transient rm]"] kk by (auto simp: kn_def)
      moreover have "rm' = rm6\<lparr>hp := set_edges (hp rm6) s [system rm, transient rm]\<rparr>"
        using e r3 None r5 e5
        by (auto simp: transferAllowedToStandard_def Let_def st_def [symmetric] rm2_def rm1_def rm4_def rm5_def rm6_def)
      ultimately show ?thesis
        using grows_trans [OF 6(2)] by (auto simp: rm2_def rm1_def rm4_def rm5_def rm6_def)
    qed
  qed
qed

lemma SetPeer_ok:
  assumes rm: "mgr_ok rm"
  shows "mgr_ok (fst (SetPeer rm s p))"
proof (cases "connScopes rm s")
  case None
  then show ?thesis using rm by (simp add: SetPeer_def)
next
  case (Some c)
  have c: "conn_ok rm s c" using mgr_ok_tabD(1) [OF rm Some] .
  show ?thesis
  proof (cases "cpeer c \<noteq> None")
    case True
    then show ?thesis using rm Some by (simp add: SetPeer_def)
  next
    case nop: False
    consider (std) "\<not> isAllowlisted c" | (al) "isAllowlisted c" "AllowedPeerAndMultiaddr (allowlist rm) p (endpoint c)"
      | (tr) "isAllowlisted c" "\<not> AllowedPeerAndMultiaddr (allowlist rm) p (endpoint c)" by blast
    then show ?thesis
    proof cases
      case std
      obtain rm' res where e: "SetPeer_attach rm s c p (system rm) (transient rm) = (rm', res)" by fastforce
      show ?thesis
        using SetPeer_attach_ok [OF rm c _ _ e] mgr_okD [OF rm] e std nop Some by (simp add: SetPeer_def)
    next
      case al
      obtain rm' res where e: "SetPeer_attach rm s c p (allowlistedSystem rm) (allowlistedTransient rm) = (rm', res)"
        by fastforce
      show ?thesis
        using SetPeer_attach_ok [OF rm c _ _ e] mgr_okD [OF rm] e al nop Some by (simp add: SetPeer_def)
    next
      case tr
      define c' where "c' = c\<lparr>isAllowlisted := False\<rparr>"
      define rm1 where "rm1 = rm\<lparr>connScopes := (connScopes rm)(s \<mapsto> c')\<rparr>"
      have c': "conn_ok rm s c'" using c by (simp add: conn_ok_def c'_def)
      have M1: "mgr_ok rm1" using mgr_ok_conn [OF rm c'] by (simp add: rm1_def)
      have s1: "kn rm1 s RConn" using c by (simp add: conn_ok_def rm1_def kn_def)
      obtain rm2 res where e: "transferAllowedToStandard rm1 s = (rm2, res)" by fastforce
      have 2: "mgr_ok rm2" "grows rm1 rm2" using transfer_ok [OF M1 s1 e] by auto
      have c2: "conn_ok rm2 s c'" using conn_ok_mono [OF _ 2(2), of s c'] c' by (simp add: conn_ok_def kn_def rm1_def)
      obtain rm' res' where e2: "SetPeer_attach rm2 s c' p (system rm2) (transient rm2) = (rm', res')" by fastforce
      have "mgr_ok rm'" using SetPeer_attach_ok [OF 2(1) c2 _ _ e2] mgr_okD [OF 2(1)] by simp
      then show ?thesis
        using 2(1) e e2 tr nop Some
        by (auto simp: SetPeer_def Let_def c'_def rm1_def split: option.split)
    qed
  qed
qed

section \<open>Opening streams\<close>

text \<open>Closing a scope that holds nothing leaves every other counter alone.\<close>

lemma release_zero:
  assumes "rc_nn r"
  shows "release_stat r (stat (new_resources l)) = r"
  using assms by (simp add: release_stat_def stat_def new_resources_def releaseMemory_def
      removeStreams_def removeConns_def Let_def rc_nn_def)

lemma done_empty:
  assumes h: "hok h" and s: "owner (h s) = None" "rc (h s) = new_resources l"
  shows "rc (doneUnlocked h s t) = rc (h t)"
proof (cases "sdone (h s)")
  case False
  have "rc (parent_after (h t) (stat (rc (h s)))) = rc (h t)"
    using release_zero [OF hok_nn [OF h]] s(2) by (simp add: parent_after_def)
  then show ?thesis
    using done_dag_spec [of h s t] False s(1) h s(2) by (simp add: hok_def closed_def new_resources_def)
qed (simp add: doneUnlocked_def)

lemma mgr_ok_done:
  assumes "mgr_ok rm"
  shows "mgr_ok (rm\<lparr>hp := doneUnlocked (hp rm) s\<rparr>)" "grows rm (rm\<lparr>hp := doneUnlocked (hp rm) s\<rparr>)"
  using mgr_ok_heap [OF assms sgl_done hok_done [OF mgr_okD(3) [OF assms]]] .

lemma newStreamScope_ok:
  assumes rm: "mgr_ok rm" and ps: "kn rm ps RPeer" and e: "newStreamScope rm dir p ps = (rm', s)"
  shows "mgr_ok rm'" "nxt rm \<le> s" "same_rc (nxt rm) (hp rm) (hp rm')" "kn rm' s RStream" "grows rm rm'"
    "rc (hp rm' s) = new_resources (GetStreamLimits (limits rm) p)" "edges (hp rm' s) = [ps, transient rm, system rm]"
    "\<not> sdone (hp rm' s)"
proof -
  define rm0 where "rm0 = rm\<lparr>streamId := streamId rm + 1\<rparr>"
  have M0: "mgr_ok rm0"
    using rm by (simp add: rm0_def mgr_ok_def tabs_ok_def maps_ok_def roots_ok_def conn_ok_def stream_ok_def kn_def)
  have k0: "kn rm0 x r = kn rm x r" for x r by (simp add: rm0_def kn_def)
  obtain rm1 s1 where n: "new_scope rm0 (GetStreamLimits (limits rm) p) [ps, transient rm, system rm]
      (streamScopeName (streamId rm + 1)) = (rm1, s1)" by fastforce
  have l: "lim_bnd (GetStreamLimits (limits rm) p)" using mgr_okD(6) [OF rm] by (simp add: lims_ok_def)
  have d: "distinct [ps, transient rm, system rm]"
    using ps mgr_okD(1,2) [OF rm] by (auto simp: kn_def)
  have o: "\<forall>e \<in> set [ps, transient rm, system rm]. e < nxt rm0 \<and> owner (hp rm0 e) = None"
    using kn_owner [OF ps] kn_owner [OF mgr_okD(1) [OF rm]] kn_owner [OF mgr_okD(2) [OF rm]]
      kn_lt [OF ps] kn_lt [OF mgr_okD(1) [OF rm]] kn_lt [OF mgr_okD(2) [OF rm]] by (simp add: rm0_def)
  note N = new_scope_ok [OF M0 l d o n]
  have k: "kn rm1 s1 RStream" using N(4) by (simp add: role_def streamScopeName_def)
  define t where "t = \<lparr>stdir = dir, speer = (p, ps), ssvc = None, sproto = None, peerProtoScope = None,
             peerSvcScope = None\<rparr>"
  have rm': "rm' = rm1\<lparr>streamScopes := (streamScopes rm1)(s1 \<mapsto> t)\<rparr>" "s = s1"
    using e n by (auto simp: newStreamScope_def nextStreamId_def rm0_def t_def)
  have "kn rm1 ps RPeer" using kn_mono [OF _ frame_grows [OF N(2)]] ps k0 by simp
  then have "stream_ok rm1 s1 t" using k by (simp add: stream_ok_def t_def)
  then show "mgr_ok rm'" using mgr_ok_stream [OF N(1)] rm' by simp
  show "nxt rm \<le> s" "same_rc (nxt rm) (hp rm) (hp rm')"
    using N(3) frame_same_rc [OF N(2)] rm' by (simp_all add: rm0_def)
  show "kn rm' s RStream" using k rm' by (simp add: kn_def)
  show "grows rm rm'" using frame_grows [OF N(2)] rm' by (simp add: grows_def rm0_def)
qed (use assms in \<open>auto simp: newStreamScope_def nextStreamId_def new_scope_def newResourceScope_def\<close>)

lemma OpenStream_ok:
  assumes rm: "mgr_ok rm" and e: "OpenStream rm p dir = (rm', res)"
  shows "mgr_ok rm' \<and> (case res of
      Inl err \<Rightarrow> same_rc (nxt rm) (hp rm) (hp rm')
    | Inr s \<Rightarrow> nxt rm \<le> s \<and> \<not> sdone (hp rm' s) \<and>
        (\<exists>ps. kn rm' ps RPeer \<and> edges (hp rm' s) = [ps, transient rm, system rm] \<and>
           (\<forall>u < nxt rm. rc (hp rm' u) =
              (if u \<in> {ps, transient rm, system rm} then projr (addStream (rc (hp rm u)) dir) else rc (hp rm u)))))"
proof -
  obtain rm1 ps where g: "getPeerScope rm p = (rm1, ps)" by fastforce
  have 1: "mgr_ok rm1" "frame rm rm1" "kn rm1 ps RPeer" using getPeerScope_ok [OF rm g] by auto
  obtain rm2 s where n: "newStreamScope rm1 dir p ps = (rm2, s)" by fastforce
  note N = newStreamScope_ok [OF 1(1,3) n]
  define rm3 where "rm3 = rm2\<lparr>hp := DecRef (hp rm2) ps\<rparr>"
  have 3: "mgr_ok rm3" "frame rm2 rm3" using mgr_ok_refs(2) [OF N(1)] frame_refs(2) by (simp_all add: rm3_def)
  have roots: "transient rm1 = transient rm" "system rm1 = system rm" "nxt rm \<le> nxt rm1"
    using 1(2) by (simp_all add: frame_def)
  have s3: "rc (hp rm3 s) = new_resources (GetStreamLimits (limits rm1) p)" "\<not> sdone (hp rm3 s)"
      "edges (hp rm3 s) = [ps, transient rm, system rm]" "owner (hp rm3 s) = None"
    using N(6-8) kn_owner [OF N(4)] roots by (simp_all add: rm3_def)
  have same: "rc (hp rm3 u) = rc (hp rm u)" if "u < nxt rm" for u
    using that N(3) frame_same_rc [OF 1(2)] roots(3) by (auto simp: same_rc_def rm3_def)
  obtain h1 e1 where a: "AddStream (hp rm3) s dir = (h1, e1)" by fastforce
  have hok3: "hok (hp rm3)" using mgr_okD(3) [OF 3(1)] .
  have spec: "if \<forall>t \<in> set (charged (hp rm3) s). accepts (\<lambda>r. addStream r dir) (hp rm3) t
      then AddStream (hp rm3) s dir = (charge_all (\<lambda>r. addStream r dir) (hp rm3) (charged (hp rm3) s), None)
      else \<exists>err. AddStream (hp rm3) s dir = (hp rm3, Some err)"
    using hok_nn [OF hok3] hok3 by (intro strm.take_spec) (auto simp: hok_def)
  have ch: "charged (hp rm3) s = [s, ps, transient rm, system rm]" using s3 by (simp add: charged_dag)
  show ?thesis
  proof (cases e1)
    case (Some err)
    then have "h1 = hp rm3" using spec a by (auto split: if_splits)
    then have "rm' = rm3\<lparr>hp := doneUnlocked (hp rm3) s\<rparr>" "res = Inl (ScopeError err)"
      using e g n a Some by (auto simp: OpenStream_def Let_def upd_heap_def rm3_def)
    then show ?thesis
      using mgr_ok_done(1) [OF 3(1)] done_empty [OF hok3 s3(4,1)] same by (simp add: same_rc_def)
  next
    case None
    then have h1: "h1 = charge_all (\<lambda>r. addStream r dir) (hp rm3) [s, ps, transient rm, system rm]"
      using spec a ch by (auto split: if_splits)
    have rm': "rm' = rm3\<lparr>hp := h1\<rparr>" "res = Inr s"
      using e g n a None by (auto simp: OpenStream_def Let_def upd_heap_def rm3_def)
    have "mgr_ok rm'" "grows rm3 rm'"
      using mgr_ok_heap [OF 3(1), of h1] sgl_AddStream [of "hp rm3" s dir] hok_AddStream [OF hok3, of s dir] a rm'
      by simp_all
    moreover from this have "kn rm' ps RPeer"
      using kn_mono [OF kn_mono [OF kn_mono [OF 1(3) N(5)] frame_grows [OF 3(2)]]] by blast
    ultimately show ?thesis
      using rm' h1 s3 N(2) roots(3) same by (auto simp: charge_all_def)
  qed
qed

section \<open>Opening connections\<close>

text \<open>A new connection scope below a transient and a system scope.\<close>

definition new_conn ::
  "resourceManager \<Rightarrow> sid \<Rightarrow> sid \<Rightarrow> connectionScope \<Rightarrow> resourceManager \<times> sid" where
  "new_conn rm tr sy c =
     (let (rm2, s) = new_scope (rm\<lparr>connId := connId rm + 1\<rparr>) (GetConnLimits (limits rm)) [tr, sy]
                       (connScopeName (connId rm + 1))
      in (rm2\<lparr>connScopes := (connScopes rm2)(s \<mapsto> c)\<rparr>, s))"

lemma newConnectionScope_eq:
  "newConnectionScope rm dir usefd ep ip = new_conn rm (transient rm) (system rm)
     \<lparr>cdir = dir, cusefd = usefd, isAllowlisted = False, cpeer = None, endpoint = ep, cip = ip\<rparr>"
  "newAllowListedConnectionScope rm dir usefd ep = new_conn rm (allowlistedTransient rm) (allowlistedSystem rm)
     \<lparr>cdir = dir, cusefd = usefd, isAllowlisted = True, cpeer = None, endpoint = ep, cip = NoAddr\<rparr>"
  by (simp_all add: newConnectionScope_def newAllowListedConnectionScope_def new_conn_def nextConnId_def)

lemma new_conn_ok:
  assumes rm: "mgr_ok rm" and tr: "kn rm tr rt" and sy: "kn rm sy rs" and r: "rt \<noteq> rs" "rt \<noteq> ROther" "rs \<noteq> ROther"
    and c: "cpeer c = None" and e: "new_conn rm tr sy c = (rm', s)"
  shows "mgr_ok rm'" "nxt rm \<le> s" "same_rc (nxt rm) (hp rm) (hp rm')" "kn rm' s RConn" "grows rm rm'"
    "rc (hp rm' s) = new_resources (GetConnLimits (limits rm))" "edges (hp rm' s) = [tr, sy]"
    "\<not> sdone (hp rm' s)" "connScopes rm' s = Some c" "connLim rm' = connLim rm" "allowlist rm' = allowlist rm"
    "transient rm' = transient rm" "system rm' = system rm"
    "allowlistedTransient rm' = allowlistedTransient rm" "allowlistedSystem rm' = allowlistedSystem rm"
proof -
  define rm0 where "rm0 = rm\<lparr>connId := connId rm + 1\<rparr>"
  have M0: "mgr_ok rm0"
    using rm by (simp add: rm0_def mgr_ok_def tabs_ok_def maps_ok_def roots_ok_def conn_ok_def stream_ok_def kn_def)
  obtain rm1 s1 where n: "new_scope rm0 (GetConnLimits (limits rm)) [tr, sy]
      (connScopeName (connId rm + 1)) = (rm1, s1)" by fastforce
  have l: "lim_bnd (GetConnLimits (limits rm))" using mgr_okD(6) [OF rm] by (simp add: lims_ok_def)
  have d: "distinct [tr, sy]" using tr sy r(1) by (auto simp: kn_def)
  have o: "\<forall>e \<in> set [tr, sy]. e < nxt rm0 \<and> owner (hp rm0 e) = None"
    using kn_owner [OF tr r(2)] kn_owner [OF sy r(3)] kn_lt [OF tr] kn_lt [OF sy] by (simp add: rm0_def)
  note N = new_scope_ok [OF M0 l d o n]
  have k: "kn rm1 s1 RConn" using N(4) by (simp add: role_def connScopeName_def)
  have rm': "rm' = rm1\<lparr>connScopes := (connScopes rm1)(s1 \<mapsto> c)\<rparr>" "s = s1"
    using e n by (auto simp: new_conn_def rm0_def)
  show "mgr_ok rm'" using mgr_ok_conn [OF N(1), of s1 c] k c rm' by (simp add: conn_ok_def)
  show "nxt rm \<le> s" "same_rc (nxt rm) (hp rm) (hp rm')"
    using N(3) frame_same_rc [OF N(2)] rm' by (simp_all add: rm0_def)
  show "kn rm' s RConn" using k rm' by (simp add: kn_def)
  show "grows rm rm'" using frame_grows [OF N(2)] rm' by (simp add: grows_def rm0_def)
qed (use e in \<open>auto simp: new_conn_def new_scope_def newResourceScope_def\<close>)

lemma mgr_ok_lim: "mgr_ok rm \<Longrightarrow> cl_ok cl \<Longrightarrow> mgr_ok (rm\<lparr>connLim := cl\<rparr>)"
  by (simp add: mgr_ok_def tabs_ok_def maps_ok_def roots_ok_def conn_ok_def stream_ok_def kn_def)

text \<open>The public view of the per-address limiter.\<close>

definition same_views :: "connLimiter \<Rightarrow> connLimiter \<Rightarrow> bool" where
  "same_views cl cl' \<longleftrightarrow> (\<forall>f. np_view cl' f = np_view cl f \<and> sub_view cl' f = sub_view cl f)"

lemma Done_ok:
  assumes rm: "mgr_ok rm" and c: "connScopes rm s = Some c"
  obtains rm' where "connectionScope_Done rm s = Some rm'" "mgr_ok rm'" "grows rm rm'"
    "hp rm' = doneUnlocked (hp rm) s" "same_tabs rm rm'" "nxt rm' = nxt rm"
    "\<not> IsValid (cip c) \<Longrightarrow> connLim rm' = connLim rm"
    "IsValid (cip c) \<Longrightarrow> \<not> sdone (hp rm s) \<Longrightarrow> cl_rmConn (connLim rm) (cip c) = Some (connLim rm')"
proof -
  obtain cl where cl: "(if IsValid (cip c) then cl_rmConn (connLim rm) (cip c) else Some (connLim rm)) = Some cl"
      "cl_ok cl"
  proof (cases "IsValid (cip c)")
    case True
    obtain cl' where cl': "cl_rmConn (connLim rm) (cip c) = Some cl'" "same_limits (connLim rm) cl'"
        "\<forall>f. np_view cl' f = np_shift (- 1) (connLim rm) (cip c) f"
        "\<forall>f. sub_view cl' f = sub_shift (- 1) (connLim rm) (cip c) f"
      using rmConn_views [OF mgr_okD(7) [OF rm]] by blast
    have "cl_ok cl'" using cl_ok_shift [OF mgr_okD(7) [OF rm] cl'(2), of "- 1"] cl'(3,4) by blast
    with that cl'(1) True show thesis by simp
  next
    case False
    with that mgr_okD(7) [OF rm] show thesis by simp
  qed
  define rm1 where "rm1 = (if sdone (hp rm s) then rm else rm\<lparr>connLim := cl, hp := doneUnlocked (hp rm) s\<rparr>)"
  have "mgr_ok (rm\<lparr>hp := doneUnlocked (hp rm) s, connLim := cl\<rparr>)"
    using mgr_ok_lim [OF mgr_ok_done(1) [OF rm] cl(2)] .
  moreover have "rm\<lparr>hp := doneUnlocked (hp rm) s, connLim := cl\<rparr> = rm\<lparr>connLim := cl, hp := doneUnlocked (hp rm) s\<rparr>"
    by simp
  ultimately have M: "mgr_ok (rm\<lparr>connLim := cl, hp := doneUnlocked (hp rm) s\<rparr>)" by simp
  show thesis
  proof (rule that [of rm1])
    show "connectionScope_Done rm s = Some rm1"
      using c cl(1) by (simp add: connectionScope_Done_def rm1_def)
    show "mgr_ok rm1" using rm M by (simp add: rm1_def)
    show "grows rm rm1" using mgr_ok_done(2) [OF rm, of s] by (auto simp: rm1_def grows_def)
    show "hp rm1 = doneUnlocked (hp rm) s" by (simp add: rm1_def doneUnlocked_def)
    show "same_tabs rm rm1" "nxt rm1 = nxt rm" by (simp_all add: rm1_def same_tabs_def)
    show "\<not> IsValid (cip c) \<Longrightarrow> connLim rm1 = connLim rm" using cl(1) by (auto simp: rm1_def split: if_splits)
    show "IsValid (cip c) \<Longrightarrow> \<not> sdone (hp rm s) \<Longrightarrow> cl_rmConn (connLim rm) (cip c) = Some (connLim rm1)"
      using cl(1) by (simp add: rm1_def)
  qed
qed

lemma AddConn_cases:
  assumes h: "hok h" and s: "owner (h s) = None" and e: "AddConn h s dir usefd = (h', err)"
  shows "case err of
      Some x \<Rightarrow> h' = h
    | None \<Rightarrow> h' = charge_all (\<lambda>r. addConn r dir usefd) h (s # edges (h s)) \<and>
        (\<forall>t \<in> set (s # edges (h s)). accepts (\<lambda>r. addConn r dir usefd) h t)"
proof -
  have "if \<forall>t \<in> set (charged h s). accepts (\<lambda>r. addConn r dir usefd) h t
      then AddConn h s dir usefd = (charge_all (\<lambda>r. addConn r dir usefd) h (charged h s), None)
      else \<exists>err. AddConn h s dir usefd = (h, Some err)"
    using hok_nn [OF h] h by (intro conn.take_spec) (auto simp: hok_def)
  then show ?thesis using e s by (auto simp: charged_dag split: if_splits)
qed

text \<open>
  One attempt to open a connection below given scopes. A refused attempt is undone by
  \<^verbatim>\<open>Done\<close> without touching a counter that existed.
\<close>

lemma attempt_ok:
  assumes rm: "mgr_ok rm" and tr: "kn rm tr rt" and sy: "kn rm sy rs" and r: "rt \<noteq> rs" "rt \<noteq> ROther" "rs \<noteq> ROther"
    and c: "cpeer c = None" and n: "new_conn rm tr sy c = (rm1, s)"
    and a: "AddConn (hp rm1) s dir usefd = (h1, e1)"
  shows "mgr_ok (rm1\<lparr>hp := h1\<rparr>)" "grows rm (rm1\<lparr>hp := h1\<rparr>)"
    "case e1 of
       Some err \<Rightarrow> h1 = hp rm1 \<and> (\<forall>u < nxt rm. rc (doneUnlocked h1 s u) = rc (hp rm u))
     | None \<Rightarrow> edges (h1 s) = [tr, sy] \<and> \<not> sdone (h1 s) \<and>
         (\<forall>u < nxt rm. rc (h1 u) =
            (if u \<in> {tr, sy} then projr (addConn (rc (hp rm u)) dir usefd) else rc (hp rm u)))"
proof -
  note N = new_conn_ok [OF rm tr sy r c n]
  have h: "hok (hp rm1)" using mgr_okD(3) [OF N(1)] .
  have o: "owner (hp rm1 s) = None" using kn_owner [OF N(4)] by simp
  have "same_graph_lim (hp rm1) h1" "hok h1"
    using sgl_AddConn [of "hp rm1" s dir usefd] hok_AddConn [OF h, of s dir usefd] a by simp_all
  then show "mgr_ok (rm1\<lparr>hp := h1\<rparr>)" "grows rm (rm1\<lparr>hp := h1\<rparr>)"
    using mgr_ok_heap [OF N(1)] grows_trans [OF N(5)] by auto
  note C = AddConn_cases [OF h o a]
  show "case e1 of
       Some err \<Rightarrow> h1 = hp rm1 \<and> (\<forall>u < nxt rm. rc (doneUnlocked h1 s u) = rc (hp rm u))
     | None \<Rightarrow> edges (h1 s) = [tr, sy] \<and> \<not> sdone (h1 s) \<and>
         (\<forall>u < nxt rm. rc (h1 u) =
            (if u \<in> {tr, sy} then projr (addConn (rc (hp rm u)) dir usefd) else rc (hp rm u)))"
  proof (cases e1)
    case (Some err)
    then show ?thesis using C done_empty [OF h o N(6)] N(3) by (simp add: same_rc_def)
  next
    case None
    then show ?thesis using C N(2,3,7,8) by (auto simp: charge_all_def same_rc_def)
  qed
qed

lemma addConn_lim_ok:
  assumes "cl_ok cl"
  obtains cl' where "cl_addConn cl ip = Some (cl', has_room cl ip)" "cl_ok cl'"
    "\<not> has_room cl ip \<Longrightarrow> same_views cl cl'"
proof -
  obtain cl' where cl': "cl_addConn cl ip = Some (cl', has_room cl ip)" "same_limits cl cl'"
      "\<forall>f. np_view cl' f = (if has_room cl ip then np_shift 1 cl ip f else np_view cl f)"
      "\<forall>f. sub_view cl' f = (if has_room cl ip then sub_shift 1 cl ip f else sub_view cl f)"
    using addConn_views [OF assms] by blast
  have "cl_ok cl'"
    using cl_ok_shift [OF assms cl'(2), of 1 ip] cl_ok_same [OF assms cl'(2)] cl'(3,4)
    by (cases "has_room cl ip") auto
  with that cl' show thesis by (auto simp: same_views_def)
qed

text \<open>The limiter after a reservation and its removal shows the counts it showed before.\<close>

lemma rm_add_same:
  assumes "cl_ok cl" "cl_addConn cl ip = Some (cl1, True)" "cl_rmConn cl1 ip = Some cl2"
  shows "same_views cl cl2"
  using rm_add_views [OF assms(1,2)] assms(3) by (simp add: same_views_def)

definition charged_to :: "resourceManager \<Rightarrow> resourceManager \<Rightarrow> sid \<Rightarrow> sid \<Rightarrow> sid \<Rightarrow> Direction \<Rightarrow> bool \<Rightarrow> bool" where
  "charged_to rm rm' s tr sy dir usefd \<longleftrightarrow> nxt rm \<le> s \<and> edges (hp rm' s) = [tr, sy] \<and> \<not> sdone (hp rm' s) \<and>
     (\<forall>u < nxt rm. rc (hp rm' u) =
        (if u \<in> {tr, sy} then projr (addConn (rc (hp rm u)) dir usefd) else rc (hp rm u)))"

definition open_result :: "resourceManager \<Rightarrow> resourceManager \<Rightarrow> Direction \<Rightarrow> bool \<Rightarrow> multiaddr \<Rightarrow> rm_error + sid \<Rightarrow> bool" where
  "open_result rm rm' dir usefd ep res =
     (case res of
        Inl err \<Rightarrow> same_rc (nxt rm) (hp rm) (hp rm') \<and> same_views (connLim rm) (connLim rm')
      | Inr s \<Rightarrow> charged_to rm rm' s (transient rm) (system rm) dir usefd \<or>
          Allowed (allowlist rm) ep \<and>
          charged_to rm rm' s (allowlistedTransient rm) (allowlistedSystem rm) dir usefd)"

text \<open>The second attempt of an allowlisted connection.\<close>

lemma attempt_allowlisted:
  assumes rm: "mgr_ok rm"
    and n: "newAllowListedConnectionScope rm dir usefd ep = (rm4, c2)"
    and a: "AddConn (hp rm4) c2 dir usefd = (h2, e2)"
  shows "\<exists>rm' res. (case e2 of
      None \<Rightarrow> Some (rm4\<lparr>hp := h2\<rparr>, Inr c2)
    | Some err2 \<Rightarrow> map_option (\<lambda>rm6. (rm6, Inl (ScopeError err2))) (connectionScope_Done (rm4\<lparr>hp := h2\<rparr>) c2)) = Some (rm', res) \<and>
    mgr_ok rm' \<and> (case res of
      Inl err \<Rightarrow> same_rc (nxt rm) (hp rm) (hp rm') \<and> connLim rm' = connLim rm
    | Inr s \<Rightarrow> charged_to rm rm' s (allowlistedTransient rm) (allowlistedSystem rm) dir usefd)"
proof -
  define c where "c = \<lparr>cdir = dir, cusefd = usefd, isAllowlisted = True, cpeer = None, endpoint = ep, cip = NoAddr\<rparr>"
  have n': "new_conn rm (allowlistedTransient rm) (allowlistedSystem rm) c = (rm4, c2)"
    using n by (simp add: newConnectionScope_eq(2) c_def)
  have c: "cpeer c = None" "\<not> IsValid (cip c)" by (simp_all add: c_def)
  note K = mgr_okD(5) [OF rm] mgr_okD(4) [OF rm]
  note N = new_conn_ok [OF rm K _ _ _ c(1) n', simplified]
  note A = attempt_ok [OF rm K _ _ _ c(1) n' a, simplified]
  show ?thesis
  proof (cases e2)
    case None
    then show ?thesis using A N(2) by (auto simp: charged_to_def)
  next
    case (Some err)
    have "connScopes (rm4\<lparr>hp := h2\<rparr>) c2 = Some c" using N(9) by simp
    then obtain rm' where D: "connectionScope_Done (rm4\<lparr>hp := h2\<rparr>) c2 = Some rm'" "mgr_ok rm'"
        "hp rm' = doneUnlocked h2 c2" "connLim rm' = connLim rm4"
      using Done_ok [OF A(1), of c2 c] c(2) by auto
    then show ?thesis using A(3) N(10) Some by (auto simp: same_rc_def)
  qed
qed

lemma openConnection_ok:
  assumes rm: "mgr_ok rm"
  shows "\<exists>rm' res. openConnection rm rateOk dir usefd ep ip = Some (rm', res) \<and> mgr_ok rm' \<and>
    open_result rm rm' dir usefd ep res"
proof (cases rateOk)
  case False
  then show ?thesis using rm by (simp add: openConnection_def open_result_def same_views_def)
next
  case True
  obtain cl ok where cl: "(if IsValid ip then cl_addConn (connLim rm) ip else Some (connLim rm, True)) = Some (cl, ok)"
      "cl_ok cl" "\<not> ok \<Longrightarrow> same_views (connLim rm) cl"
  proof (cases "IsValid ip")
    case True
    then show thesis
      using addConn_lim_ok [OF mgr_okD(7) [OF rm], of ip] that by (metis (no_types, lifting))
  next
    case False
    then show thesis using that mgr_okD(7) [OF rm] by simp
  qed
  define rm0 where "rm0 = rm\<lparr>connLim := cl\<rparr>"
  have M0: "mgr_ok rm0" using mgr_ok_lim [OF rm cl(2)] by (simp add: rm0_def)
  show ?thesis
  proof (cases ok)
    case False
    then show ?thesis using M0 cl True by (simp add: openConnection_def open_result_def rm0_def)
  next
    case ok: True
    define c where "c = \<lparr>cdir = dir, cusefd = usefd, isAllowlisted = False, cpeer = None, endpoint = ep, cip = ip\<rparr>"
    have c: "cpeer c = None" "cip c = ip" by (simp_all add: c_def)
    obtain rm1 s where n: "newConnectionScope rm0 dir usefd ep ip = (rm1, s)" by fastforce
    then have n': "new_conn rm0 (transient rm0) (system rm0) c = (rm1, s)"
      by (simp add: newConnectionScope_eq(1) c_def)
    obtain h1 e1 where a: "AddConn (hp rm1) s dir usefd = (h1, e1)" by fastforce
    note K = mgr_okD(2) [OF M0] mgr_okD(1) [OF M0]
    note N = new_conn_ok [OF M0 K _ _ _ c(1) n', simplified]
    note A = attempt_ok [OF M0 K _ _ _ c(1) n' a, simplified]
    show ?thesis
    proof (cases e1)
      case None
      then have "openConnection rm rateOk dir usefd ep ip = Some (rm1\<lparr>hp := h1\<rparr>, Inr s)"
        using True cl(1) ok n a by (simp add: openConnection_def rm0_def)
      then show ?thesis using A N(2) None by (auto simp: open_result_def charged_to_def rm0_def)
    next
      case (Some err)
      define rm2 where "rm2 = rm1\<lparr>hp := h1\<rparr>"
      have "connScopes rm2 s = Some c" using N(9) by (simp add: rm2_def)
      then obtain rm3 where D: "connectionScope_Done rm2 s = Some rm3" "mgr_ok rm3" "grows rm2 rm3"
          "hp rm3 = doneUnlocked h1 s" "same_tabs rm2 rm3" "nxt rm3 = nxt rm2"
          "\<not> IsValid ip \<Longrightarrow> connLim rm3 = connLim rm2"
          "IsValid ip \<Longrightarrow> \<not> sdone (hp rm2 s) \<Longrightarrow> cl_rmConn (connLim rm2) ip = Some (connLim rm3)"
        using Done_ok [OF A(1), of s c] c(2) by (auto simp: rm2_def)
      have lim2: "connLim rm2 = cl" and open2: "\<not> sdone (hp rm2 s)"
        using N(8,10) A(3) Some by (simp_all add: rm2_def rm0_def)
      have views: "same_views (connLim rm) (connLim rm3)"
        using D(7,8) lim2 open2 cl(1) ok rm_add_same [OF mgr_okD(7) [OF rm]]
        by (cases "IsValid ip") (auto simp: same_views_def)
      have same3: "same_rc (nxt rm) (hp rm) (hp rm3)" using A(3) Some D(4) by (auto simp: same_rc_def rm0_def)
      show ?thesis
      proof (cases "IsValid ip \<and> Allowed (allowlist rm2) ep")
        case False
        then have "openConnection rm rateOk dir usefd ep ip = Some (rm3, Inl (ScopeError err))"
          using True cl(1) ok n a Some D(1) by (auto simp: openConnection_def rm0_def rm2_def)
        then show ?thesis using D(2) same3 views by (auto simp: open_result_def)
      next
        case al: True
        obtain rm4 c2 where n4: "newAllowListedConnectionScope rm3 dir usefd ep = (rm4, c2)" by fastforce
        obtain h2 e2 where a2: "AddConn (hp rm4) c2 dir usefd = (h2, e2)" by fastforce
        obtain rm' res where R: "(case e2 of None \<Rightarrow> Some (rm4\<lparr>hp := h2\<rparr>, Inr c2)
            | Some err2 \<Rightarrow> map_option (\<lambda>rm6. (rm6, Inl (ScopeError err2)))
                (connectionScope_Done (rm4\<lparr>hp := h2\<rparr>) c2)) = Some (rm', res)" "mgr_ok rm'"
            "case res of Inl err \<Rightarrow> same_rc (nxt rm3) (hp rm3) (hp rm') \<and> connLim rm' = connLim rm3
             | Inr s \<Rightarrow> charged_to rm3 rm' s (allowlistedTransient rm3) (allowlistedSystem rm3) dir usefd"
          using attempt_allowlisted [OF D(2) n4 a2] by blast
        have "openConnection rm rateOk dir usefd ep ip = Some (rm', res)"
          using True cl(1) ok n a Some D(1) al n4 a2 R(1)
          by (simp add: openConnection_def rm2_def [symmetric] rm0_def [symmetric])
        moreover have "nxt rm \<le> nxt rm3" using A(2) D(6) by (simp add: grows_def rm2_def rm0_def)
        moreover have "allowlistedTransient rm3 = allowlistedTransient rm" "allowlistedSystem rm3 = allowlistedSystem rm"
            "allowlist rm2 = allowlist rm"
          using D(5) N(11-15) by (simp_all add: same_tabs_def rm2_def rm0_def)
        ultimately show ?thesis
          using R(2,3) same3 views al
          by (auto simp: open_result_def charged_to_def same_rc_def split: sum.splits)
      qed
    qed
  qed
qed

section \<open>Garbage collection\<close>

lemma hok_sgl_done: "hok h \<Longrightarrow> hok (doneUnlocked h s) \<and> same_graph_lim h (doneUnlocked h s)"
  using hok_done sgl_done by blast

lemma gc_map_step:
  "fold (\<lambda>(k, s) (m', dead, h).
        if \<not> sticky k \<and> IsUnused h s then (m', dead @ [k], doneUnlocked h s)
        else (m' @ [(k, s)], dead, h)) m (m0, d0, h) = (m1, d1, h1) \<Longrightarrow> hok h \<Longrightarrow>
   hok h1 \<and> same_graph_lim h h1 \<and> set m1 \<subseteq> set m0 \<union> set m \<and>
   (\<forall>x \<in> set m0. x \<in> set m1) \<and> (\<forall>(k, s) \<in> set m. sticky k \<longrightarrow> (k, s) \<in> set m1) \<and>
   set d1 \<subseteq> set d0 \<union> {k. \<not> sticky k}"
proof (induction m arbitrary: m0 d0 h)
  case (Cons x m)
  obtain k s where x: "x = (k, s)" by (cases x)
  show ?case
  proof (cases "\<not> sticky k \<and> IsUnused h s")
    case True
    with Cons.IH [of m0 "d0 @ [k]" "doneUnlocked h s"] Cons.prems hok_sgl_done [OF Cons.prems(2), of s] x
    show ?thesis using sgl_trans [of h "doneUnlocked h s"] by auto
  next
    case False
    with Cons.IH [of "m0 @ [(k, s)]" d0 h] Cons.prems x show ?thesis by auto
  qed
qed simp

lemma gc_map_ok:
  assumes "gc_map sticky m h = (m1, d1, h1)" "hok h"
  shows "hok h1" "same_graph_lim h h1" "set m1 \<subseteq> set m" "\<forall>(k, s) \<in> set m. sticky k \<longrightarrow> (k, s) \<in> set m1"
    "\<forall>k \<in> set d1. \<not> sticky k"
  using gc_map_step [of sticky m "[]" "[]" h] assms unfolding gc_map_def by auto

lemma gc_peers_step:
  "fold (\<lambda>((s, p), ps) (m', h).
        if s \<in> set owners \<and> p \<in> set dead then (m', doneUnlocked h ps)
        else (m' @ [((s, p), ps)], h)) m (m0, h) = (m1, h1) \<Longrightarrow> hok h \<Longrightarrow>
   hok h1 \<and> same_graph_lim h h1 \<and> set m1 \<subseteq> set m0 \<union> set m"
proof (induction m arbitrary: m0 h)
  case (Cons x m)
  obtain s p ps where x: "x = ((s, p), ps)" by (cases x) auto
  show ?case
  proof (cases "s \<in> set owners \<and> p \<in> set dead")
    case True
    with Cons.IH [of m0 "doneUnlocked h ps"] Cons.prems hok_sgl_done [OF Cons.prems(2), of ps] x
    show ?thesis using sgl_trans [of h "doneUnlocked h ps"] by auto
  next
    case False
    with Cons.IH [of "m0 @ [((s, p), ps)]" h] Cons.prems x show ?thesis by auto
  qed
qed simp

lemma gc_ok:
  assumes rm: "mgr_ok rm"
  shows "mgr_ok (gc rm) \<and> (\<forall>(k, s) \<in> set (peer rm). k \<in> set (stickyPeer rm) \<longrightarrow> (k, s) \<in> set (peer (gc rm))) \<and>
    (\<forall>(k, s) \<in> set (proto rm). k \<in> set (stickyProto rm) \<longrightarrow> (k, s) \<in> set (proto (gc rm)))"
proof -
  obtain pr' d1 h1 where g1: "gc_map (\<lambda>k. k \<in> set (stickyProto rm)) (proto rm) (hp rm) = (pr', d1, h1)"
    by (metis prod_cases3)
  note G1 = gc_map_ok [OF g1 mgr_okD(3) [OF rm]]
  obtain pe' d2 h2 where g2: "gc_map (\<lambda>k. k \<in> set (stickyPeer rm)) (peer rm) h1 = (pe', d2, h2)"
    by (metis prod_cases3)
  note G2 = gc_map_ok [OF g2 G1(1)]
  obtain sp' h3 where g3: "gc_peers (map snd (svc rm) @ map snd pr') d2 (scopePeers rm) h2 = (sp', h3)"
    by fastforce
  have G3: "hok h3" "same_graph_lim h2 h3" "set sp' \<subseteq> set (scopePeers rm)"
    using gc_peers_step [OF g3 [unfolded gc_peers_def] G2(1)] by auto
  have gc: "gc rm = rm\<lparr>proto := pr', peer := pe', scopePeers := sp', hp := h3\<rparr>"
    using g1 g2 g3 by (simp add: gc_def Let_def)
  define rm1 where "rm1 = rm\<lparr>hp := h3\<rparr>"
  have "mgr_ok rm1"
    using mgr_ok_heap(1) [OF rm sgl_trans [OF G1(2) sgl_trans [OF G2(2) G3(2)]] G3(1)] by (simp add: rm1_def)
  then have "mgr_ok (gc rm)"
    using G1(3) G2(3) G3(3)
    unfolding gc rm1_def mgr_ok_def tabs_ok_def maps_ok_def roots_ok_def conn_ok_def stream_ok_def kn_def
    by simp (meson subsetD)
  then show ?thesis using G1(4) G2(4) gc by simp
qed

section \<open>Runs of the manager\<close>

datatype rm_op =
    OpOpenConnection bool Direction bool multiaddr Addr
  | OpOpenStream peer_id Direction
  | OpSetPeer sid peer_id
  | OpSetProtocol sid string
  | OpSetService sid string
  | OpConnDone sid
  | OpStreamDone sid
  | OpGC

text \<open>\<^term>\<open>None\<close> is a panic.\<close>

fun rm_run :: "resourceManager \<Rightarrow> rm_op \<Rightarrow> resourceManager option" where
  "rm_run rm (OpOpenConnection rateOk dir usefd ep ip) = map_option fst (openConnection rm rateOk dir usefd ep ip)"
| "rm_run rm (OpOpenStream p dir) = Some (fst (OpenStream rm p dir))"
| "rm_run rm (OpSetPeer s p) = Some (fst (SetPeer rm s p))"
| "rm_run rm (OpSetProtocol s pr) = Some (fst (SetProtocol rm s pr))"
| "rm_run rm (OpSetService s v) = Some (fst (SetService rm s v))"
| "rm_run rm (OpConnDone s) = (if connScopes rm s = None then Some rm else connectionScope_Done rm s)"
| "rm_run rm (OpStreamDone s) = Some (if streamScopes rm s = None then rm else rm\<lparr>hp := doneUnlocked (hp rm) s\<rparr>)"
| "rm_run rm OpGC = Some (gc rm)"

fun rm_runs :: "resourceManager \<Rightarrow> rm_op list \<Rightarrow> resourceManager option" where
  "rm_runs rm [] = Some rm"
| "rm_runs rm (x # xs) = (case rm_run rm x of None \<Rightarrow> None | Some rm' \<Rightarrow> rm_runs rm' xs)"

lemma SetProtocol_mgr: "mgr_ok rm \<Longrightarrow> mgr_ok (fst (SetProtocol rm s pr))"
  using SetProtocol_ok [of rm s _ pr] by (cases "streamScopes rm s"; cases "SetProtocol rm s pr")
    (auto simp: SetProtocol_def split: if_splits)

lemma SetService_mgr: "mgr_ok rm \<Longrightarrow> mgr_ok (fst (SetService rm s v))"
  using SetService_ok [of rm s _ _ v] by (cases "streamScopes rm s"; cases "SetService rm s v")
    (auto simp: SetService_def split: if_splits option.splits)

lemma rm_run_ok:
  assumes "mgr_ok rm"
  shows "\<exists>rm'. rm_run rm x = Some rm' \<and> mgr_ok rm'"
proof (cases x)
  case (OpOpenConnection a b c d e)
  then show ?thesis using openConnection_ok [OF assms, of a b c d e] by auto
next
  case (OpOpenStream p dir)
  then show ?thesis using OpenStream_ok [OF assms, of p dir] by (cases "OpenStream rm p dir") auto
next
  case (OpConnDone s)
  then show ?thesis using assms Done_ok [OF assms, of s] by (cases "connScopes rm s") auto
next
  case (OpStreamDone s)
  then show ?thesis using assms mgr_ok_done(1) [OF assms] by simp
qed (use assms SetPeer_ok SetProtocol_mgr SetService_mgr gc_ok in auto)

lemma rm_runs_ok: "mgr_ok rm \<Longrightarrow> \<exists>rm'. rm_runs rm xs = Some rm' \<and> mgr_ok rm'"
proof (induction xs arbitrary: rm)
  case (Cons x xs)
  then show ?case using rm_run_ok [of rm x] by fastforce
qed simp

section \<open>The initial manager\<close>

definition fresh_lim :: "connLimiter \<Rightarrow> bool" where
  "fresh_lim cl \<longleftrightarrow> connsPerNetworkPrefixV4 cl = [] \<and> connsPerNetworkPrefixV6 cl = [] \<and>
     ip4connsPerLimit cl = [] \<and> ip6connsPerLimit cl = []"

lemma fresh_lim_ok: "fresh_lim cl \<Longrightarrow> cl_ok cl"
  by (auto simp: fresh_lim_def cl_ok_def np_ok_def sub_ok_def np_view_def sub_view_def sub_slice_def
      init_slice_def cl_sel_defs list_all2_conv_all_nth)

lemma fresh_register: "fresh_lim cl \<Longrightarrow> fresh_lim (register_allowlist lims al cl)"
proof -
  have "fresh_lim (fold f ns cl)"
    if "fresh_lim cl" "\<And>n cl. fresh_lim cl \<Longrightarrow> fresh_lim (f n cl)" for f :: "IPNet \<Rightarrow> connLimiter \<Rightarrow> connLimiter" and ns cl
    using that by (induction ns arbitrary: cl) auto
  then show "fresh_lim cl \<Longrightarrow> fresh_lim (register_allowlist lims al cl)"
    by (auto simp: register_allowlist_def Let_def addNetworkPrefixLimit_def fresh_lim_def)
qed

lemma hok_no_scopes: "hok no_scopes"
  by (simp add: hok_def wf_heap_def wf_scope_def heap_ok_def no_scopes_def rc_ok_def lim_ok_def
      new_resources_def int64_defs)

lemma new_manager_ok:
  assumes l: "lims_ok lims" and cl: "fresh_lim cl"
  shows "mgr_ok (NewResourceManager lims cl al)"
proof -
  have b: "lim_bnd (GetSystemLimits lims)" "lim_bnd (GetTransientLimits lims)"
      "lim_bnd (GetAllowlistedSystemLimits lims)" "lim_bnd (GetAllowlistedTransientLimits lims)"
    using l by (simp_all add: lims_ok_def)
  define h1 where "h1 = IncRef (newResourceScope no_scopes 0 (GetSystemLimits lims) [] ''system'') 0"
  have o1: "\<forall>t. owner (h1 t) = None" by (simp add: h1_def newResourceScope_def no_scopes_def)
  have k1: "hok h1" unfolding h1_def by (intro hok_refs hok_new) (simp_all add: b hok_no_scopes)
  define h2 where "h2 = IncRef (newResourceScope h1 1 (GetTransientLimits lims) [0] ''transient'') 1"
  have o2: "\<forall>t. owner (h2 t) = None" using o1 by (simp add: h2_def newResourceScope_def)
  have k2: "hok h2" unfolding h2_def by (intro hok_refs hok_new) (simp_all add: b k1 o1)
  define h3 where "h3 = IncRef (newResourceScope h2 2 (GetAllowlistedSystemLimits lims) [] ''allowlistedSystem'') 2"
  have o3: "\<forall>t. owner (h3 t) = None" using o2 by (simp add: h3_def newResourceScope_def)
  have k3: "hok h3" unfolding h3_def by (intro hok_refs hok_new) (simp_all add: b k2 o2)
  define h4 where "h4 = IncRef (newResourceScope h3 3 (GetAllowlistedTransientLimits lims) [2] ''allowlistedTransient'') 3"
  have k4: "hok h4" unfolding h4_def by (intro hok_refs hok_new) (simp_all add: b k3 o3)
  have roles: "role (h4 0) = RSystem" "role (h4 1) = RTransient" "role (h4 2) = RAlSystem" "role (h4 3) = RAlTransient"
    by (simp_all add: h4_def h3_def h2_def h1_def newResourceScope_def IncRef_def role_def name_role_def)
  have rm: "NewResourceManager lims cl al = \<lparr>limits = lims, connLim = register_allowlist lims al cl, allowlist = al,
      hp = h4, nxt = 4, system = 0, transient = 1,
      allowlistedSystem = 2, allowlistedTransient = 3, svc = [], proto = [], peer = [],
      scopePeers = [], stickyProto = [], stickyPeer = [], connId = 0, streamId = 0,
      connScopes = Map.empty, streamScopes = Map.empty\<rparr>"
    by (simp add: NewResourceManager_def Let_def h4_def h3_def h2_def h1_def)
  show ?thesis
    unfolding rm using l k4 roles fresh_lim_ok [OF fresh_register [OF cl]]
    by (simp add: mgr_ok_def tabs_ok_def roots_ok_def maps_ok_def kn_def)
qed

section \<open>Properties\<close>

definition demo_limit :: BaseLimit where
  "demo_limit = \<lparr>Streams = 8, StreamsInbound = 4, StreamsOutbound = 4, Conns = 8, ConnsInbound = 4,
     ConnsOutbound = 4, FD = 4, Memory = 1024\<rparr>"

definition demo_lims :: Limiter where
  "demo_lims = \<lparr>GetSystemLimits = demo_limit, GetTransientLimits = demo_limit,
     GetAllowlistedSystemLimits = demo_limit, GetAllowlistedTransientLimits = demo_limit,
     GetServiceLimits = (\<lambda>_. demo_limit), GetServicePeerLimits = (\<lambda>_. demo_limit),
     GetProtocolLimits = (\<lambda>_. demo_limit), GetProtocolPeerLimits = (\<lambda>_. demo_limit),
     GetPeerLimits = (\<lambda>_. demo_limit), GetStreamLimits = (\<lambda>_. demo_limit), GetConnLimits = demo_limit\<rparr>"

definition demo_rm :: resourceManager where
  "demo_rm = NewResourceManager demo_lims newConnLimiter newAllowlist"

lemma demo_lims_ok: "lims_ok demo_lims"
  by (simp add: lims_ok_def demo_lims_def demo_limit_def lim_bnd_def lim_ok_def int64_defs)

lemma newConnLimiter_fresh: "fresh_lim newConnLimiter"
  by (simp add: fresh_lim_def newConnLimiter_def)

lemma demo_rm_ok: "mgr_ok demo_rm"
  unfolding demo_rm_def by (rule new_manager_ok [OF demo_lims_ok newConnLimiter_fresh])

text \<open>
  C1. From a new resource manager with bounded limits, every sequence of manager calls
  (opening connections and streams, attaching them to peers, protocols and services,
  closing them, garbage collection) runs without a panic, and afterwards every scope
  respects each of its limits.
\<close>
theorem manager_runs_within_limits:
  assumes "lims_ok lims" and "fresh_lim cl"
  shows "\<exists>rm. rm_runs (NewResourceManager lims cl al) ops = Some rm \<and>
    (\<forall>s. let r = rc (hp rm s) in
       0 \<le> nstreamsIn r \<and> nstreamsIn r \<le> StreamsInbound (limit r) \<and>
       0 \<le> nstreamsOut r \<and> nstreamsOut r \<le> StreamsOutbound (limit r) \<and>
       nstreamsIn r + nstreamsOut r \<le> Streams (limit r) \<and>
       0 \<le> nconnsIn r \<and> nconnsIn r \<le> ConnsInbound (limit r) \<and>
       0 \<le> nconnsOut r \<and> nconnsOut r \<le> ConnsOutbound (limit r) \<and>
       nconnsIn r + nconnsOut r \<le> Conns (limit r) \<and>
       0 \<le> nfd r \<and> nfd r \<le> FD (limit r) \<and> 0 \<le> memory r \<and> memory r \<le> Memory (limit r))"
proof -
  obtain rm where "rm_runs (NewResourceManager lims cl al) ops = Some rm" and ok: "mgr_ok rm"
    using rm_runs_ok [OF new_manager_ok [OF assms]] by blast
  moreover have "rc_ok (rc (hp rm s)) \<and> Memory (limit (rc (hp rm s))) < MaxInt64" for s
    using mgr_okD(3) [OF ok] by (simp add: hok_def heap_ok_def)
  ultimately show ?thesis by (simp add: rc_ok_def Let_def)
qed

theorem manager_runs_within_limits_witness:
  "lims_ok demo_lims \<and> fresh_lim newConnLimiter \<and>
   (\<exists>rm. rm_runs (NewResourceManager demo_lims newConnLimiter newAllowlist)
      [OpOpenConnection True DirInbound True [CIP4 0x01020304] (IP4 0x01020304), OpSetPeer 4 ''A'',
       OpOpenStream ''A'' DirInbound, OpSetProtocol 6 ''/x'', OpSetService 6 ''y'', OpStreamDone 6, OpConnDone 4, OpGC] = Some rm)"
  using manager_runs_within_limits [OF demo_lims_ok newConnLimiter_fresh, of newAllowlist
      "[OpOpenConnection True DirInbound True [CIP4 0x01020304] (IP4 0x01020304), OpSetPeer 4 ''A'',
       OpOpenStream ''A'' DirInbound, OpSetProtocol 6 ''/x'', OpSetService 6 ''y'', OpStreamDone 6, OpConnDone 4, OpGC]"]
    demo_lims_ok newConnLimiter_fresh by blast

text \<open>
  C11. Opening a connection either fails and leaves every existing scope's counters and the
  per-address limiter's counts unchanged, or succeeds and charges the connection to exactly
  the transient and system scopes (for an allowlisted address possibly their allowlisted
  twins); the handler never panics and keeps the manager invariant.
\<close>
theorem openConnection_atomic:
  assumes "mgr_ok rm"
  shows "\<exists>rm' res. openConnection rm rateOk dir usefd ep ip = Some (rm', res) \<and> mgr_ok rm' \<and>
    (case res of
       Inl err \<Rightarrow> (\<forall>u < nxt rm. rc (hp rm' u) = rc (hp rm u)) \<and>
         (\<forall>f. np_view (connLim rm') f = np_view (connLim rm) f \<and> sub_view (connLim rm') f = sub_view (connLim rm) f)
     | Inr s \<Rightarrow> \<exists>tr sy. (tr = transient rm \<and> sy = system rm \<or>
           Allowed (allowlist rm) ep \<and> tr = allowlistedTransient rm \<and> sy = allowlistedSystem rm) \<and>
         edges (hp rm' s) = [tr, sy] \<and>
         (\<forall>u < nxt rm. rc (hp rm' u) =
            (if u \<in> {tr, sy} then projr (addConn (rc (hp rm u)) dir usefd) else rc (hp rm u))))"
proof -
  obtain rm' res where *: "openConnection rm rateOk dir usefd ep ip = Some (rm', res)" "mgr_ok rm'"
      "open_result rm rm' dir usefd ep res"
    using openConnection_ok [OF assms] by blast
  show ?thesis
    by (rule exI [of _ rm'], rule exI [of _ res], cases res)
       (use * in \<open>auto simp: open_result_def charged_to_def same_rc_def same_views_def\<close>)
qed

theorem openConnection_atomic_witness:
  "mgr_ok demo_rm \<and> (\<exists>rm' res. openConnection demo_rm True DirOutbound True [CIP4 0x7F000001] (IP4 0x7F000001) = Some (rm', res) \<and> mgr_ok rm')"
  using openConnection_atomic [OF demo_rm_ok, of True DirOutbound True "[CIP4 0x7F000001]" "IP4 0x7F000001"] demo_rm_ok by blast

text \<open>
  Opening a stream to a peer either fails and leaves the counters of every existing
  scope unchanged, or charges the stream to the peer, transient and system scopes.
\<close>
lemma OpenStream_atomic:
  assumes "mgr_ok rm" and "OpenStream rm p dir = (rm', res)"
  shows "mgr_ok rm' \<and> (case res of
      Inl err \<Rightarrow> \<forall>u < nxt rm. rc (hp rm' u) = rc (hp rm u)
    | Inr s \<Rightarrow> nxt rm \<le> s \<and>
        (\<exists>ps. role (hp rm' ps) = RPeer \<and> edges (hp rm' s) = [ps, transient rm, system rm] \<and>
           (\<forall>u < nxt rm. rc (hp rm' u) =
              (if u \<in> {ps, transient rm, system rm} then projr (addStream (rc (hp rm u)) dir) else rc (hp rm u)))))"
  using OpenStream_ok [OF assms] by (cases res) (auto simp: same_rc_def kn_def)

end
