(* ===== verification/Rcmgr_Attach.thy ===== *)
theory Rcmgr_Attach
  imports Rcmgr_Handlers
begin

text \<open>
  What \<^verbatim>\<open>SetPeer\<close>, \<^verbatim>\<open>SetProtocol\<close> and \<^verbatim>\<open>SetService\<close> of \<^verbatim>\<open>rcmgr.go\<close> do to the whole manager:
  which scope the maps name, which scopes are created, and the counters, references and edges of
  every scope before and after, for a granted and for a refused request.
\<close>

section \<open>The scope a map names\<close>

text \<open>
  The scope registered for \<open>k\<close>, or else the next new one; the map and the next identifier after
  the look-up.
\<close>

definition found :: "('k \<times> sid) list \<Rightarrow> 'k \<Rightarrow> sid \<Rightarrow> sid" where
  "found tbl k n = (case map_of tbl k of Some s \<Rightarrow> s | None \<Rightarrow> n)"

definition entered :: "('k \<times> sid) list \<Rightarrow> 'k \<Rightarrow> sid \<Rightarrow> ('k \<times> sid) list" where
  "entered tbl k n = (if map_of tbl k = None then (k, n) # tbl else tbl)"

definition grown :: "('k \<times> sid) list \<Rightarrow> 'k \<Rightarrow> sid \<Rightarrow> sid" where
  "grown tbl k n = (if map_of tbl k = None then Suc n else n)"

lemma map_of_entered: "map_of (entered tbl k n) = (map_of tbl)(k \<mapsto> found tbl k n)"
  by (auto simp: entered_def found_def)

text \<open>
  The counters and references of the scopes after the look-up of \<open>s\<close>: a new scope is empty
  and under the limit \<open>l\<close>, and is a reference to its edges \<open>es\<close>; the caller holds one to \<open>s\<close>.
\<close>

definition fresh_rc :: "resourceManager \<Rightarrow> BaseLimit \<Rightarrow> sid \<Rightarrow> sid \<Rightarrow> resources" where
  "fresh_rc rm l s u = (if u = s \<and> nxt rm \<le> s then new_resources l else rc (hp rm u))"

definition fresh_edges :: "resourceManager \<Rightarrow> sid list \<Rightarrow> sid \<Rightarrow> sid \<Rightarrow> sid list" where
  "fresh_edges rm es s u = (if u = s \<and> nxt rm \<le> s then es else edges (hp rm u))"

definition fresh_ref :: "resourceManager \<Rightarrow> sid list \<Rightarrow> sid \<Rightarrow> sid \<Rightarrow> int" where
  "fresh_ref rm es s u = (if u = s \<and> nxt rm \<le> s then 0 else refCnt (hp rm u)) +
     (if nxt rm \<le> s \<and> u \<in> set es then 1 else 0)"

definition enters :: "resourceManager \<Rightarrow> resourceManager \<Rightarrow> sid \<Rightarrow> BaseLimit \<Rightarrow> sid list \<Rightarrow> bool" where
  "enters rm rm1 s l es \<longleftrightarrow> s < nxt rm1 \<and> nxt rm1 = (if s < nxt rm then nxt rm else Suc (nxt rm)) \<and>
     (\<forall>u < nxt rm1. rc (hp rm1 u) = fresh_rc rm l s u \<and> sdone (hp rm1 u) = (u < nxt rm \<and> sdone (hp rm u)) \<and>
        edges (hp rm1 u) = fresh_edges rm es s u \<and>
        refCnt (hp rm1 u) = fresh_ref rm es s u + (if u = s then 1 else 0))"

lemma enters_old:
  "s < nxt rm \<Longrightarrow> hp rm1 = IncRef (hp rm) s \<Longrightarrow> nxt rm1 = nxt rm \<Longrightarrow> enters rm rm1 s l es"
  by (simp add: enters_def fresh_rc_def fresh_edges_def fresh_ref_def IncRef_def)

lemma fold_IncRef_counts:
  "distinct es \<Longrightarrow> refCnt (fold (\<lambda>e h. IncRef h e) es h t) = refCnt (h t) + (if t \<in> set es then 1 else 0)"
  "edges (fold (\<lambda>e h. IncRef h e) es h t) = edges (h t)"
  by (induction es arbitrary: h) (auto simp: IncRef_def)

lemma enters_new:
  assumes "distinct es" "\<forall>e \<in> set es. e < nxt rm"
    and "hp rm1 = IncRef (newResourceScope (hp rm) (nxt rm) l es nm) (nxt rm)" "nxt rm1 = Suc (nxt rm)"
  shows "enters rm rm1 (nxt rm) l es"
proof -
  have "nxt rm \<notin> set es" using assms(2) by auto
  then show ?thesis
    using assms fold_IncRef_counts [of es] fold_IncRef_frame [of es]
    by (auto simp: enters_def fresh_rc_def fresh_edges_def fresh_ref_def IncRef_def newResourceScope_def less_Suc_eq)
qed

lemma table_lt:
  assumes "mgr_ok rm"
  shows "map_of (peer rm) p = Some s \<Longrightarrow> s < nxt rm" "map_of (proto rm) p = Some s \<Longrightarrow> s < nxt rm"
    "map_of (svc rm) p = Some s \<Longrightarrow> s < nxt rm" "map_of (scopePeers rm) (q, p) = Some s \<Longrightarrow> s < nxt rm \<and> q < nxt rm"
  using assms by (fastforce simp: mgr_ok_def tabs_ok_def maps_ok_def kn_def dest: map_of_SomeD)+

lemma system_lt: "mgr_ok rm \<Longrightarrow> \<forall>e \<in> set [system rm]. e < nxt rm"
  using system_edge by blast

lemma getPeerScope_at:
  assumes rm: "mgr_ok rm" and e: "getPeerScope rm p = (rm1, s)"
  shows "s = found (peer rm) p (nxt rm)" "enters rm rm1 s (GetPeerLimits (limits rm) p) [system rm]"
    "rm1 = rm\<lparr>hp := hp rm1, nxt := grown (peer rm) p (nxt rm), peer := entered (peer rm) p (nxt rm)\<rparr>"
proof -
  show "s = found (peer rm) p (nxt rm)"
    "rm1 = rm\<lparr>hp := hp rm1, nxt := grown (peer rm) p (nxt rm), peer := entered (peer rm) p (nxt rm)\<rparr>"
    using e by (auto simp: getPeerScope_def newPeerScope_def new_scope_def upd_heap_def found_def grown_def
        entered_def split: option.splits)
  show "enters rm rm1 s (GetPeerLimits (limits rm) p) [system rm]"
  proof (cases "map_of (peer rm) p")
    case None
    then show ?thesis
      using e enters_new [OF _ system_lt [OF rm], of rm1]
      by (auto simp: getPeerScope_def newPeerScope_def new_scope_def upd_heap_def)
  next
    case (Some x)
    then show ?thesis
      using e enters_old [OF table_lt(1) [OF rm Some], of rm1] by (auto simp: getPeerScope_def upd_heap_def)
  qed
qed

lemma getProtocolScope_at:
  assumes rm: "mgr_ok rm" and e: "getProtocolScope rm p = (rm1, s)"
  shows "s = found (proto rm) p (nxt rm)" "enters rm rm1 s (GetProtocolLimits (limits rm) p) [system rm]"
    "rm1 = rm\<lparr>hp := hp rm1, nxt := grown (proto rm) p (nxt rm), proto := entered (proto rm) p (nxt rm)\<rparr>"
proof -
  show "s = found (proto rm) p (nxt rm)"
    "rm1 = rm\<lparr>hp := hp rm1, nxt := grown (proto rm) p (nxt rm), proto := entered (proto rm) p (nxt rm)\<rparr>"
    using e by (auto simp: getProtocolScope_def newProtocolScope_def new_scope_def upd_heap_def found_def grown_def
        entered_def split: option.splits)
  show "enters rm rm1 s (GetProtocolLimits (limits rm) p) [system rm]"
  proof (cases "map_of (proto rm) p")
    case None
    then show ?thesis
      using e enters_new [OF _ system_lt [OF rm], of rm1]
      by (auto simp: getProtocolScope_def newProtocolScope_def new_scope_def upd_heap_def)
  next
    case (Some x)
    then show ?thesis
      using e enters_old [OF table_lt(2) [OF rm Some], of rm1] by (auto simp: getProtocolScope_def upd_heap_def)
  qed
qed

lemma getServiceScope_at:
  assumes rm: "mgr_ok rm" and e: "getServiceScope rm p = (rm1, s)"
  shows "s = found (svc rm) p (nxt rm)" "enters rm rm1 s (GetServiceLimits (limits rm) p) [system rm]"
    "rm1 = rm\<lparr>hp := hp rm1, nxt := grown (svc rm) p (nxt rm), svc := entered (svc rm) p (nxt rm)\<rparr>"
proof -
  show "s = found (svc rm) p (nxt rm)"
    "rm1 = rm\<lparr>hp := hp rm1, nxt := grown (svc rm) p (nxt rm), svc := entered (svc rm) p (nxt rm)\<rparr>"
    using e by (auto simp: getServiceScope_def newServiceScope_def new_scope_def upd_heap_def found_def grown_def
        entered_def split: option.splits)
  show "enters rm rm1 s (GetServiceLimits (limits rm) p) [system rm]"
  proof (cases "map_of (svc rm) p")
    case None
    then show ?thesis
      using e enters_new [OF _ system_lt [OF rm], of rm1]
      by (auto simp: getServiceScope_def newServiceScope_def new_scope_def upd_heap_def)
  next
    case (Some x)
    then show ?thesis
      using e enters_old [OF table_lt(3) [OF rm Some], of rm1] by (auto simp: getServiceScope_def upd_heap_def)
  qed
qed

lemma sub_getPeerScope_at:
  assumes rm: "mgr_ok rm" and e: "sub_getPeerScope rm q l p = (rm1, s)"
  shows "s = found (scopePeers rm) (q, p) (nxt rm)" "enters rm rm1 s l []"
    "rm1 = rm\<lparr>hp := hp rm1, nxt := grown (scopePeers rm) (q, p) (nxt rm),
       scopePeers := entered (scopePeers rm) (q, p) (nxt rm)\<rparr>"
proof -
  show "s = found (scopePeers rm) (q, p) (nxt rm)"
    "rm1 = rm\<lparr>hp := hp rm1, nxt := grown (scopePeers rm) (q, p) (nxt rm),
       scopePeers := entered (scopePeers rm) (q, p) (nxt rm)\<rparr>"
    using e by (auto simp: sub_getPeerScope_def new_scope_def upd_heap_def found_def grown_def
        entered_def split: option.splits)
  show "enters rm rm1 s l []"
  proof (cases "map_of (scopePeers rm) (q, p)")
    case None
    then show ?thesis
      using e enters_new [of "[]" rm rm1 l]
      by (auto simp: sub_getPeerScope_def new_scope_def upd_heap_def)
  next
    case (Some x)
    then show ?thesis
      using e enters_old [OF conjunct1 [OF table_lt(4) [OF rm Some]], of rm1]
      by (auto simp: sub_getPeerScope_def upd_heap_def)
  qed
qed

section \<open>Charging and returning a statistic, counter by counter\<close>

definition stat_plus :: "resources \<Rightarrow> ScopeStat \<Rightarrow> resources" where
  "stat_plus r st = \<lparr>limit = limit r,
     nconnsIn = nconnsIn r + NumConnsInbound st, nconnsOut = nconnsOut r + NumConnsOutbound st,
     nstreamsIn = nstreamsIn r + NumStreamsInbound st, nstreamsOut = nstreamsOut r + NumStreamsOutbound st,
     nfd = nfd r + NumFD st, memory = memory r + StatMemory st\<rparr>"

lemma add_stat_plus:
  assumes "rc_nn r" "stat_nn st" "0 \<le> memory (add_stat r st)"
  shows "add_stat r st = stat_plus r st"
proof -
  have "wrap64 (memory r + StatMemory st) = memory r + StatMemory st"
    using assms wrap64_add_cases [of "memory r" "StatMemory st"]
    by (auto simp: rc_nn_def stat_nn_def add_stat_def int64_defs split: if_splits)
  then show ?thesis by (simp add: add_stat_def stat_plus_def)
qed

lemma stat_minus_plus: "rc_nn r \<Longrightarrow> stat_minus (stat_plus r st) st = r"
  by (simp add: stat_minus_def stat_plus_def rc_nn_def)

lemma ReserveForChild_exact:
  assumes h: "hok h" and st: "stat_nn st" and e: "ReserveForChild h s st = (h', res)"
  shows "res = None \<longleftrightarrow> \<not> sdone (h s) \<and> stat_fits (rc (h s)) st"
    "h' = (if res = None then upd_rc h s (stat_plus (rc (h s)) st) else h)" "hok h'"
proof -
  show h': "hok h'" using hok_ReserveForChild [OF h st e] by simp
  have c: "if \<not> sdone (h s) \<and> stat_fits (rc (h s)) st
      then h' = upd_rc h s (add_stat (rc (h s)) st) \<and> res = None else h' = h \<and> res \<noteq> None"
    using ReserveForChild_spec [of h s st] hok_nn [OF h] e by (auto split: if_splits)
  then show iff: "res = None \<longleftrightarrow> \<not> sdone (h s) \<and> stat_fits (rc (h s)) st" by (auto split: if_splits)
  have "add_stat (rc (h s)) st = stat_plus (rc (h s)) st" if "res = None"
    using c that iff hok_nn [OF h', of s] hok_nn [OF h, of s]
    by (intro add_stat_plus st) (auto simp: rc_nn_def split: if_splits)
  then show "h' = (if res = None then upd_rc h s (stat_plus (rc (h s)) st) else h)"
    using c iff by (auto split: if_splits)
qed

lemma ReleaseForChild_exact:
  assumes "hok h" "stat_nn st"
  shows "ReleaseForChild h s st = (if sdone (h s) then h else upd_rc h s (stat_minus (rc (h s)) st))"
  using release_stat_minus [OF hok_nn [OF assms(1)], of st s] assms(2)
  by (simp add: ReleaseForChild_def stat_nn_def)

text \<open>A scope can take a statistic: it is open, if it exists, and its counters have room.\<close>

definition room :: "resourceManager \<Rightarrow> BaseLimit \<Rightarrow> sid \<Rightarrow> ScopeStat \<Rightarrow> bool" where
  "room rm l s st \<longleftrightarrow> (s < nxt rm \<longrightarrow> \<not> sdone (hp rm s)) \<and> stat_fits (fresh_rc rm l s s) st"

lemma enters_reserve:
  assumes "enters rm rm1 s l es" "hok (hp rm1)" "stat_nn st" "ReserveForChild (hp rm1) s st = (h', res)"
  shows "res = None \<longleftrightarrow> room rm l s st"
  using ReserveForChild_exact(1) [OF assms(2-4)] assms(1) by (auto simp: enters_def room_def)

section \<open>Attaching a connection\<close>

lemma SetPeer_attach_exact:
  assumes rm: "mgr_ok rm" and c: "conn_ok rm s c" and trn: "kn rm trn RTransient"
    and e: "SetPeer_attach rm s c p sys trn = (rm', res)"
  shows "let ps = found (peer rm) p (nxt rm); l = GetPeerLimits (limits rm) p; held = stat (rc (hp rm s)) in
     (res = None \<longleftrightarrow> room rm l ps held) \<and>
     rm' = rm\<lparr>hp := hp rm', nxt := grown (peer rm) p (nxt rm), peer := entered (peer rm) p (nxt rm),
       connScopes := if res = None then (connScopes rm)(s \<mapsto> c\<lparr>cpeer := Some ps\<rparr>) else connScopes rm\<rparr> \<and>
     (\<forall>u < nxt rm'.
        edges (hp rm' u) = (if res = None \<and> u = s then [ps, sys] else fresh_edges rm [system rm] ps u) \<and>
        refCnt (hp rm' u) = fresh_ref rm [system rm] ps u +
          (if res \<noteq> None then 0 else if u = ps then 1 else if u = trn then - 1 else 0) \<and>
        rc (hp rm' u) = (let r = fresh_rc rm l ps u in
          if res \<noteq> None then r else if u = ps then stat_plus r held
          else if u = trn \<and> \<not> sdone (hp rm u) then stat_minus r held else r))"
proof -
  obtain rm1 ps where g: "getPeerScope rm p = (rm1, ps)" by fastforce
  note G = getPeerScope_at [OF rm g]
  have 1: "mgr_ok rm1" "frame rm rm1" "kn rm1 ps RPeer" using getPeerScope_ok [OF rm g] by auto
  define st where "st = stat (rc (hp rm1 s))"
  have s: "s < nxt rm" using c by (simp add: conn_ok_def kn_def)
  then have st: "st = stat (rc (hp rm s))" "stat_nn st"
    using 1(2) hok_stat [OF mgr_okD(3) [OF 1(1)], of s] by (auto simp: st_def frame_def)
  have tp: "trn \<noteq> ps" "trn < nxt rm"
    using kn_neq [OF kn_mono [OF trn frame_grows [OF 1(2)]] 1(3)] kn_lt [OF trn] by auto
  obtain h1 e1 where r1: "ReserveForChild (hp rm1) ps st = (h1, e1)" by fastforce
  note R = ReserveForChild_exact [OF mgr_okD(3) [OF 1(1)] st(2) r1]
  note iff = enters_reserve [OF G(2) mgr_okD(3) [OF 1(1)] st(2) r1]
  have E: "ps < nxt rm1" "nxt rm \<le> nxt rm1" "\<And>u. u < nxt rm1 \<Longrightarrow> rc (hp rm1 u) = fresh_rc rm (GetPeerLimits (limits rm) p) ps u \<and>
      sdone (hp rm1 u) = (u < nxt rm \<and> sdone (hp rm u)) \<and> edges (hp rm1 u) = fresh_edges rm [system rm] ps u \<and>
      refCnt (hp rm1 u) = fresh_ref rm [system rm] ps u + (if u = ps then 1 else 0)"
    using G(2) by (auto simp: enters_def)
  show ?thesis
  proof (cases e1)
    case (Some err)
    then have rm': "rm' = rm1\<lparr>hp := DecRef (hp rm1) ps\<rparr>" and res: "res = Some (ScopeError err)"
      using e g r1 R(2) by (auto simp: SetPeer_attach_def Let_def st_def [symmetric])
    show ?thesis
      unfolding Let_def G(1) [symmetric] st(1) [symmetric]
    proof (intro conjI allI impI)
      show "(res = None) = room rm (GetPeerLimits (limits rm) p) ps st" using iff Some res by simp
      show "rm' = rm\<lparr>hp := hp rm', nxt := grown (peer rm) p (nxt rm), peer := entered (peer rm) p (nxt rm),
        connScopes := if res = None then (connScopes rm)(s \<mapsto> c\<lparr>cpeer := Some ps\<rparr>) else connScopes rm\<rparr>"
        unfolding rm' res by (subst G(3)) simp
    qed (use E rm' res in \<open>auto simp: DecRef_def\<close>)
  next
    case None
    then have rm': "rm' = rm1\<lparr>hp := set_edges (DecRef (ReleaseForChild h1 trn st) trn) s [ps, sys],
        connScopes := (connScopes rm1)(s \<mapsto> c\<lparr>cpeer := Some ps\<rparr>)\<rparr>" and res: "res = None"
      using e g r1 by (auto simp: SetPeer_attach_def Let_def st_def [symmetric])
    have h1: "h1 = upd_rc (hp rm1) ps (stat_plus (rc (hp rm1 ps)) st)" using R(2) None by simp
    note L = ReleaseForChild_exact [OF R(3) st(2), of trn, unfolded h1]
    have cs: "connScopes rm1 = connScopes rm" using 1(2) by (simp add: frame_def)
    have H: "edges (hp rm' u) = (if u = s then [ps, sys] else edges (hp rm1 u)) \<and>
        refCnt (hp rm' u) = refCnt (hp rm1 u) - (if u = trn then 1 else 0) \<and>
        rc (hp rm' u) = (if u = ps then stat_plus (rc (hp rm1 u)) st
          else if u = trn \<and> \<not> sdone (hp rm1 u) then stat_minus (rc (hp rm1 u)) st else rc (hp rm1 u))" for u
      using tp(1) by (auto simp: rm' L h1 DecRef_def set_edges_def)
    show ?thesis
      unfolding Let_def G(1) [symmetric] st(1) [symmetric]
    proof (intro conjI allI impI)
      show "(res = None) = room rm (GetPeerLimits (limits rm) p) ps st" using iff None res by simp
      show "rm' = rm\<lparr>hp := hp rm', nxt := grown (peer rm) p (nxt rm), peer := entered (peer rm) p (nxt rm),
        connScopes := if res = None then (connScopes rm)(s \<mapsto> c\<lparr>cpeer := Some ps\<rparr>) else connScopes rm\<rparr>"
        unfolding rm' res cs by (subst G(3)) simp
    qed (use E H tp rm' res in auto)
  qed
qed

section \<open>Attaching a stream\<close>

text \<open>
  A stream is charged to a protocol or service scope \<open>q\<close> and to that scope's scope \<open>pp\<close> for the
  stream's peer. Both may be new; \<open>pp\<close> has no edges.
\<close>

definition pair_rc :: "resourceManager \<Rightarrow> BaseLimit \<Rightarrow> sid \<Rightarrow> BaseLimit \<Rightarrow> sid \<Rightarrow> sid \<Rightarrow> resources" where
  "pair_rc rm lq q lp pp u = (if u = pp \<and> nxt rm \<le> pp then new_resources lp else fresh_rc rm lq q u)"

definition pair_edges :: "resourceManager \<Rightarrow> sid \<Rightarrow> sid \<Rightarrow> sid \<Rightarrow> sid list" where
  "pair_edges rm q pp u = (if u = pp \<and> nxt rm \<le> pp then [] else fresh_edges rm [system rm] q u)"

definition pair_ref :: "resourceManager \<Rightarrow> sid \<Rightarrow> sid \<Rightarrow> sid \<Rightarrow> int" where
  "pair_ref rm q pp u = (if u = pp \<and> nxt rm \<le> pp then 0 else fresh_ref rm [system rm] q u)"

lemma charge_pair:
  assumes rm1: "mgr_ok rm1" and q: "kn rm1 q r" "r = RProto \<or> r = RSvc" and st: "stat_nn st" and l: "lim_bnd l"
    and r1: "ReserveForChild (hp rm1) q st = (h1, None)"
    and g: "sub_getPeerScope (rm1\<lparr>hp := h1\<rparr>) q l p = (rm2, pp)"
    and r2: "ReserveForChild (hp rm2) pp st = (h2, e2)"
  shows "pp = found (scopePeers rm1) (q, p) (nxt rm1)"
    "rm2 = rm1\<lparr>hp := hp rm2, nxt := grown (scopePeers rm1) (q, p) (nxt rm1),
       scopePeers := entered (scopePeers rm1) (q, p) (nxt rm1)\<rparr>"
    "pp \<noteq> q" "pp < nxt rm2" "nxt rm1 \<le> nxt rm2" "e2 = None \<longleftrightarrow> room rm1 l pp st" "hok h2" "kn rm2 pp (sub_role r)" "mgr_ok rm2"
    "\<And>u. u < nxt rm2 \<Longrightarrow> sdone (h2 u) = (u < nxt rm1 \<and> sdone (hp rm1 u)) \<and>
       edges (h2 u) = fresh_edges rm1 [] pp u \<and> refCnt (h2 u) = fresh_ref rm1 [] pp u + (if u = pp then 1 else 0) \<and>
       rc (h2 u) = (let r = fresh_rc rm1 l pp u in if u = q \<or> u = pp \<and> e2 = None then stat_plus r st else r)"
proof -
  note R1 = ReserveForChild_exact [OF mgr_okD(3) [OF rm1] st r1]
  have h1: "h1 = upd_rc (hp rm1) q (stat_plus (rc (hp rm1 q)) st)" "\<not> sdone (hp rm1 q)" using R1 by auto
  have M1: "mgr_ok (rm1\<lparr>hp := h1\<rparr>)" using mgr_ok_ReserveForChild(1) [OF rm1 st r1] .
  note G = sub_getPeerScope_at [OF M1 g]
  have q1: "kn (rm1\<lparr>hp := h1\<rparr>) q r" using kn_mono [OF q(1)] h1(1) keeps_grows [OF keeps_upd] by simp
  from sub_getPeerScope_ok [OF M1 l q1 q(2) g]
  have M2: "mgr_ok rm2" and f2: "frame (rm1\<lparr>hp := h1\<rparr>) rm2" and pp: "kn rm2 pp (sub_role r)"
    by (simp_all add: sub_role_def)
  note R2 = ReserveForChild_exact [OF mgr_okD(3) [OF M2] st r2]
  show "pp = found (scopePeers rm1) (q, p) (nxt rm1)" using G(1) by simp
  show "rm2 = rm1\<lparr>hp := hp rm2, nxt := grown (scopePeers rm1) (q, p) (nxt rm1),
       scopePeers := entered (scopePeers rm1) (q, p) (nxt rm1)\<rparr>" by (subst G(3)) simp
  have "kn rm2 q r" using kn_mono [OF q1 frame_grows [OF f2]] .
  then show neq: "pp \<noteq> q" using pp q(2) by (auto simp: sub_role_def kn_def)
  show lt: "pp < nxt rm2" "nxt rm1 \<le> nxt rm2" using G(2) by (auto simp: enters_def)
  show "hok h2" by (rule R2(3))
  show "kn rm2 pp (sub_role r)" "mgr_ok rm2" by (rule pp M2)+
  have "room (rm1\<lparr>hp := h1\<rparr>) l pp st \<longleftrightarrow> room rm1 l pp st" using neq by (simp add: room_def fresh_rc_def h1(1))
  then show "e2 = None \<longleftrightarrow> room rm1 l pp st" using enters_reserve [OF G(2) mgr_okD(3) [OF M2] st r2] by simp
  have q_lt: "q < nxt rm1" using kn_lt [OF q(1)] .
  show "sdone (h2 u) = (u < nxt rm1 \<and> sdone (hp rm1 u)) \<and>
       edges (h2 u) = fresh_edges rm1 [] pp u \<and> refCnt (h2 u) = fresh_ref rm1 [] pp u + (if u = pp then 1 else 0) \<and>
       rc (h2 u) = (let r = fresh_rc rm1 l pp u in if u = q \<or> u = pp \<and> e2 = None then stat_plus r st else r)"
    if u: "u < nxt rm2" for u
  proof -
    have "rc (hp rm2 u) = fresh_rc (rm1\<lparr>hp := h1\<rparr>) l pp u" "sdone (hp rm2 u) = (u < nxt rm1 \<and> sdone (h1 u))"
      "edges (hp rm2 u) = fresh_edges (rm1\<lparr>hp := h1\<rparr>) [] pp u"
      "refCnt (hp rm2 u) = fresh_ref (rm1\<lparr>hp := h1\<rparr>) [] pp u + (if u = pp then 1 else 0)"
      using G(2) u by (simp_all add: enters_def)
    then have 2: "sdone (hp rm2 u) = (u < nxt rm1 \<and> sdone (hp rm1 u))"
      "edges (hp rm2 u) = fresh_edges rm1 [] pp u"
      "refCnt (hp rm2 u) = fresh_ref rm1 [] pp u + (if u = pp then 1 else 0)"
      "rc (hp rm2 u) = (if u = q then stat_plus (fresh_rc rm1 l pp u) st else fresh_rc rm1 l pp u)"
      using neq h1(1) by (auto simp: fresh_rc_def fresh_edges_def fresh_ref_def)
    have "rc (h2 u) = (if e2 = None \<and> u = pp then stat_plus (rc (hp rm2 u)) st else rc (hp rm2 u))"
      "sdone (h2 u) = sdone (hp rm2 u)" "edges (h2 u) = edges (hp rm2 u)" "refCnt (h2 u) = refCnt (hp rm2 u)"
      using R2(2) by simp_all
    then show ?thesis using 2 neq by (auto simp: Let_def)
  qed
qed

text \<open>
  The same seen from the manager before the look-up of \<open>q\<close>: after a refusal every scope is as
  the look-ups left it; after a grant the two scopes hold the statistic and a reference, and the
  scope it was taken from, if any, has lost both.
\<close>

lemma pair_exact:
  assumes rm: "mgr_ok rm" and E: "enters rm rm1 q lq [system rm]" and rm1: "mgr_ok rm1"
    and same: "scopePeers rm1 = scopePeers rm"
    and q: "kn rm1 q r" "r = RProto \<or> r = RSvc" and st: "stat_nn st" and l: "lim_bnd l"
    and r1: "ReserveForChild (hp rm1) q st = (h1, None)"
    and g: "sub_getPeerScope (rm1\<lparr>hp := h1\<rparr>) q l p = (rm2, pp)"
    and r2: "ReserveForChild (hp rm2) pp st = (h2, e2)"
  shows "e2 = None \<longleftrightarrow> room rm l pp st"
    "\<And>u. e2 \<noteq> None \<Longrightarrow> u < nxt rm2 \<Longrightarrow> (let h' = DecRef (DecRef (ReleaseForChild h2 q st) q) pp in
       edges (h' u) = pair_edges rm q pp u \<and> refCnt (h' u) = pair_ref rm q pp u \<and> rc (h' u) = pair_rc rm lq q l pp u)"
    "\<And>u. e2 = None \<Longrightarrow> u < nxt rm2 \<Longrightarrow> edges (h2 u) = pair_edges rm q pp u \<and>
       refCnt (h2 u) = pair_ref rm q pp u + (if u \<in> {q, pp} then 1 else 0) \<and>
       rc (h2 u) = (if u \<in> {q, pp} then stat_plus (pair_rc rm lq q l pp u) st else pair_rc rm lq q l pp u) \<and>
       sdone (h2 u) = (u < nxt rm \<and> sdone (hp rm u))"
proof -
  note C = charge_pair [OF rm1 q st l r1 g r2]
  have lt: "nxt rm \<le> nxt rm1" "q < nxt rm1" using E by (auto simp: enters_def)
  have old: "pp < nxt rm1 \<longleftrightarrow> pp < nxt rm"
  proof (cases "map_of (scopePeers rm1) (q, p)")
    case None
    then show ?thesis using C(1) lt(1) by (simp add: found_def)
  next
    case (Some x)
    then show ?thesis using C(1) lt(1) table_lt(4) [OF rm, of q p x] same by (simp add: found_def)
  qed
  have E': "rc (hp rm1 u) = fresh_rc rm lq q u" "sdone (hp rm1 u) = (u < nxt rm \<and> sdone (hp rm u))"
     "edges (hp rm1 u) = fresh_edges rm [system rm] q u"
     "refCnt (hp rm1 u) = fresh_ref rm [system rm] q u + (if u = q then 1 else 0)" if "u < nxt rm1" for u
    using E that by (simp_all add: enters_def)
  have "fresh_rc rm1 l pp pp = fresh_rc rm l pp pp"
    using old E'(1) [of pp] C(3) by (simp add: fresh_rc_def linorder_not_less [symmetric])
  moreover have "(pp < nxt rm1 \<longrightarrow> \<not> sdone (hp rm1 pp)) \<longleftrightarrow> (pp < nxt rm \<longrightarrow> \<not> sdone (hp rm pp))"
    using old E'(2) [of pp] by simp
  ultimately show "e2 = None \<longleftrightarrow> room rm l pp st" using C(6) by (simp add: room_def)
  have n2: "u < nxt rm1 \<or> u = pp" if "u < nxt rm2" for u
    using that C(4) by (subst (asm) (1 2) C(2), auto simp: C(1) found_def grown_def split: if_splits option.splits)
  have H: "edges (h2 u) = pair_edges rm q pp u \<and> refCnt (h2 u) = pair_ref rm q pp u + (if u \<in> {q, pp} then 1 else 0) \<and>
      rc (h2 u) = (if u = q \<or> u = pp \<and> e2 = None then stat_plus (pair_rc rm lq q l pp u) st else pair_rc rm lq q l pp u) \<and>
      sdone (h2 u) = (u < nxt rm \<and> sdone (hp rm u))" if u: "u < nxt rm2" for u
  proof -
    have f: "fresh_rc rm1 l pp u = pair_rc rm lq q l pp u" "fresh_edges rm1 [] pp u = pair_edges rm q pp u"
      "fresh_ref rm1 [] pp u = pair_ref rm q pp u + (if u = q then 1 else 0)"
      "(u < nxt rm1 \<and> sdone (hp rm1 u)) = (u < nxt rm \<and> sdone (hp rm u))"
      using n2 [OF u] old E' [of u] C(3) lt
      by (auto simp: fresh_rc_def [of rm1] fresh_edges_def [of rm1] fresh_ref_def [of rm1] pair_rc_def pair_edges_def
          pair_ref_def)
    show ?thesis using C(10) [OF u] C(3) f by (auto simp: Let_def)
  qed
  show "edges (h2 u) = pair_edges rm q pp u \<and>
       refCnt (h2 u) = pair_ref rm q pp u + (if u \<in> {q, pp} then 1 else 0) \<and>
       rc (h2 u) = (if u \<in> {q, pp} then stat_plus (pair_rc rm lq q l pp u) st else pair_rc rm lq q l pp u) \<and>
       sdone (h2 u) = (u < nxt rm \<and> sdone (hp rm u))" if "e2 = None" "u < nxt rm2" for u
    using H [OF that(2)] that(1) by simp
  have "\<not> sdone (hp rm1 q)" using ReserveForChild_exact(1) [OF mgr_okD(3) [OF rm1] st r1] by simp
  then have so: "\<not> sdone (h2 q)" using C(10) [of q] C(5) lt(2) by simp
  have nn: "rc_nn (pair_rc rm lq q l pp q)"
    using hok_nn [OF mgr_okD(3) [OF rm1], of q] E'(1) [OF lt(2)] C(3) by (simp add: pair_rc_def)
  show "let h' = DecRef (DecRef (ReleaseForChild h2 q st) q) pp in
       edges (h' u) = pair_edges rm q pp u \<and> refCnt (h' u) = pair_ref rm q pp u \<and> rc (h' u) = pair_rc rm lq q l pp u"
    if "e2 \<noteq> None" "u < nxt rm2" for u
    using H [OF that(2)] that(1) C(3) so stat_minus_plus [OF nn, of st]
    by (auto simp: Let_def DecRef_def ReleaseForChild_exact [OF C(7) st])
qed

text \<open>
  The store \<open>h'\<close> after the attachment of the stream \<open>s\<close>, for the scopes below \<open>n'\<close>. Refused: every
  scope is as the look-ups left it. Granted: \<open>q\<close> and \<open>pp\<close> hold the stream's resources \<open>st\<close> and one
  reference more, the scope \<open>from\<close> (if any) has given them back (if it is open) and lost one
  reference, and the stream's edges are \<open>es\<close>.
\<close>

definition pair_result ::
  "resourceManager \<Rightarrow> heap \<Rightarrow> sid \<Rightarrow> sid \<Rightarrow> sid \<Rightarrow> BaseLimit \<Rightarrow> sid \<Rightarrow> BaseLimit \<Rightarrow> ScopeStat \<Rightarrow> sid option \<Rightarrow>
   sid list \<Rightarrow> bool \<Rightarrow> bool" where
  "pair_result rm h' n' s q lq pp lp st from es granted \<longleftrightarrow> (\<forall>u < n'.
     edges (h' u) = (if granted \<and> u = s then es else pair_edges rm q pp u) \<and>
     refCnt (h' u) = pair_ref rm q pp u +
       (if \<not> granted then 0 else if u \<in> {q, pp} then 1 else if from = Some u then - 1 else 0) \<and>
     rc (h' u) = (let r = pair_rc rm lq q lp pp u in
       if \<not> granted then r else if u \<in> {q, pp} then stat_plus r st
       else if from = Some u \<and> \<not> sdone (hp rm u) then stat_minus r st else r))"

lemma pair_untried:
  assumes rm: "mgr_ok rm" and E: "enters rm rm1 q lq [system rm]"
  shows "pair_result rm (DecRef (hp rm1) q) (nxt rm1) s q lq (found (scopePeers rm) (q, p) (nxt rm1)) lp st from es False"
proof -
  define pp where "pp = found (scopePeers rm) (q, p) (nxt rm1)"
  have "\<not> (u = pp \<and> nxt rm \<le> pp)" if "u < nxt rm1" for u
    using table_lt(4) [OF rm, of q p] that by (auto simp: pp_def found_def split: option.splits)
  then have "pair_rc rm lq q lp pp u = fresh_rc rm lq q u" "pair_edges rm q pp u = fresh_edges rm [system rm] q u"
    "pair_ref rm q pp u = fresh_ref rm [system rm] q u" if "u < nxt rm1" for u
    using that unfolding pair_rc_def pair_edges_def pair_ref_def by presburger+
  then show ?thesis
    using E unfolding pp_def [symmetric] pair_result_def by (simp add: enters_def DecRef_def)
qed

lemma pair_granted:
  assumes P: "\<And>u. u < n \<Longrightarrow> edges (h2 u) = pair_edges rm q pp u \<and>
       refCnt (h2 u) = pair_ref rm q pp u + (if u \<in> {q, pp} then 1 else 0) \<and>
       rc (h2 u) = (if u \<in> {q, pp} then stat_plus (pair_rc rm lq q lp pp u) st else pair_rc rm lq q lp pp u) \<and>
       sdone (h2 u) = (u < nxt rm \<and> sdone (hp rm u))"
    and h2: "hok h2" "stat_nn st"
  shows "pair_result rm (set_edges h2 s es) n s q lq pp lp st None es True"
    "trn \<notin> {q, pp} \<Longrightarrow> trn < nxt rm \<Longrightarrow> nxt rm \<le> n \<Longrightarrow>
     pair_result rm (set_edges (DecRef (ReleaseForChild h2 trn st) trn) s es) n s q lq pp lp st (Some trn) es True"
proof -
  show "pair_result rm (set_edges h2 s es) n s q lq pp lp st None es True"
    using P by (auto simp: pair_result_def set_edges_def)
  assume trn: "trn \<notin> {q, pp}" "trn < nxt rm" "nxt rm \<le> n"
  have H: "edges (set_edges (DecRef (ReleaseForChild h2 trn st) trn) s es u) = (if u = s then es else edges (h2 u)) \<and>
      refCnt (set_edges (DecRef (ReleaseForChild h2 trn st) trn) s es u) = refCnt (h2 u) - (if u = trn then 1 else 0) \<and>
      rc (set_edges (DecRef (ReleaseForChild h2 trn st) trn) s es u) =
        (if u = trn \<and> \<not> sdone (h2 u) then stat_minus (rc (h2 u)) st else rc (h2 u))" for u
    by (simp add: ReleaseForChild_exact [OF h2] DecRef_def set_edges_def)
  show "pair_result rm (set_edges (DecRef (ReleaseForChild h2 trn st) trn) s es) n s q lq pp lp st (Some trn) es True"
    unfolding pair_result_def
  proof (intro allI impI)
    fix u
    assume "u < n"
    note P' = P [OF this]
    show "edges (set_edges (DecRef (ReleaseForChild h2 trn st) trn) s es u) = (if True \<and> u = s then es else pair_edges rm q pp u) \<and>
       refCnt (set_edges (DecRef (ReleaseForChild h2 trn st) trn) s es u) = pair_ref rm q pp u +
         (if \<not> True then 0 else if u \<in> {q, pp} then 1 else if Some trn = Some u then - 1 else 0) \<and>
       rc (set_edges (DecRef (ReleaseForChild h2 trn st) trn) s es u) = (let r = pair_rc rm lq q lp pp u in
         if \<not> True then r else if u \<in> {q, pp} then stat_plus r st
         else if Some trn = Some u \<and> \<not> sdone (hp rm u) then stat_minus r st else r)"
      using P' H [of u] trn by (auto simp: Let_def)
  qed
qed

lemma SetProtocol_exact:
  assumes rm: "mgr_ok rm" and t: "streamScopes rm s = Some t" "sproto t = None"
    and e: "SetProtocol rm s pr = (rm', res)"
    and q: "q = found (proto rm) pr (nxt rm)" and n: "n = grown (proto rm) pr (nxt rm)"
    and pp: "pp = found (scopePeers rm) (q, fst (speer t)) n"
    and lims: "lq = GetProtocolLimits (limits rm) pr" "lp = GetProtocolPeerLimits (limits rm) pr"
    and held: "held = stat (rc (hp rm s))"
  shows "res = None \<longleftrightarrow> room rm lq q held \<and> room rm lp pp held"
    "rm' = rm\<lparr>hp := hp rm', nxt := if room rm lq q held then grown (scopePeers rm) (q, fst (speer t)) n else n,
       proto := entered (proto rm) pr (nxt rm),
       scopePeers := if room rm lq q held then entered (scopePeers rm) (q, fst (speer t)) n else scopePeers rm,
       streamScopes := if res = None then (streamScopes rm)(s \<mapsto> t\<lparr>sproto := Some q, peerProtoScope := Some pp\<rparr>)
         else streamScopes rm\<rparr>"
    "pair_result rm (hp rm') (nxt rm') s q lq pp lp held (Some (transient rm)) [snd (speer t), pp, q, system rm] (res = None)"
proof -
  obtain rm1 q' where g': "getProtocolScope rm pr = (rm1, q')" by fastforce
  have g: "getProtocolScope rm pr = (rm1, q)" using getProtocolScope_at(1) [OF rm g'] g' q by simp
  note G = getProtocolScope_at [OF rm g, folded lims(1) n]
  have 1: "mgr_ok rm1" "frame rm rm1" "kn rm1 q RProto" using getProtocolScope_ok [OF rm g] by auto
  have s: "s < nxt rm" using mgr_ok_tabD(2) [OF rm t(1)] by (simp add: stream_ok_def kn_def)
  then have st: "stat (rc (hp rm1 s)) = held" "stat_nn held"
    using 1(2) hok_stat [OF mgr_okD(3) [OF rm], of s] by (auto simp: held frame_def)
  obtain hx where rm1: "rm1 = rm\<lparr>hp := hx, nxt := n, proto := entered (proto rm) pr (nxt rm)\<rparr>" using G(3) by blast
  have fields: "nxt rm1 = n" "scopePeers rm1 = scopePeers rm" "limits rm1 = limits rm"
      "streamScopes rm1 = streamScopes rm" "transient rm1 = transient rm" "system rm1 = system rm"
    by (simp_all add: rm1)
  have lp: "lim_bnd lp" using mgr_okD(6) [OF rm] by (simp add: lims lims_ok_def)
  obtain h1 e1 where r1: "ReserveForChild (hp rm1) q held = (h1, e1)" by fastforce
  note R1 = ReserveForChild_exact [OF mgr_okD(3) [OF 1(1)] st(2) r1]
  note tried = enters_reserve [OF G(2) mgr_okD(3) [OF 1(1)] st(2) r1]
  have rl: "RProto = RProto \<or> RProto = RSvc" by simp
  note U = pair_untried [OF rm G(2), of s "fst (speer t)", unfolded fields, folded pp]
  have "(res = None \<longleftrightarrow> room rm lq q held \<and> room rm lp pp held) \<and>
    rm' = rm\<lparr>hp := hp rm', nxt := if room rm lq q held then grown (scopePeers rm) (q, fst (speer t)) n else n,
       proto := entered (proto rm) pr (nxt rm),
       scopePeers := if room rm lq q held then entered (scopePeers rm) (q, fst (speer t)) n else scopePeers rm,
       streamScopes := if res = None then (streamScopes rm)(s \<mapsto> t\<lparr>sproto := Some q, peerProtoScope := Some pp\<rparr>)
         else streamScopes rm\<rparr> \<and>
    pair_result rm (hp rm') (nxt rm') s q lq pp lp held (Some (transient rm)) [snd (speer t), pp, q, system rm] (res = None)"
  proof (cases e1)
    case (Some err)
    have rm': "rm' = rm1\<lparr>hp := DecRef (hp rm1) q\<rparr>" and res: "res = Some (ScopeError err)"
      using e t g r1 R1(2) Some by (auto simp: SetProtocol_def Let_def st)
    have "\<not> room rm lq q held" using tried Some by simp
    then show ?thesis using res U by (simp add: rm' rm1)
  next
    case None
    then have room: "room rm lq q held" using tried by simp
    obtain rm2 pp' where g2': "sub_getPeerScope (rm1\<lparr>hp := h1\<rparr>) q lp (fst (speer t)) = (rm2, pp')" by fastforce
    obtain h2 e2 where r2': "ReserveForChild (hp rm2) pp' held = (h2, e2)" by fastforce
    note C' = charge_pair(1) [OF 1(1,3) rl st(2) lp r1 [unfolded None] g2' r2', unfolded fields, folded pp]
    have g2: "sub_getPeerScope (rm1\<lparr>hp := h1\<rparr>) q lp (fst (speer t)) = (rm2, pp)"
      and r2: "ReserveForChild (hp rm2) pp held = (h2, e2)" using g2' r2' C' by simp_all
    note C = charge_pair [OF 1(1,3) rl st(2) lp r1 [unfolded None] g2 r2, unfolded fields]
    note X = pair_exact [OF rm G(2) 1(1) fields(2) 1(3) rl st(2) lp r1 [unfolded None] g2 r2]
    obtain hy where "rm2 = rm1\<lparr>hp := hy, nxt := grown (scopePeers rm) (q, fst (speer t)) n,
       scopePeers := entered (scopePeers rm) (q, fst (speer t)) n\<rparr>" using C(2) by blast
    then have rm2: "rm2 = rm\<lparr>hp := hy, nxt := grown (scopePeers rm) (q, fst (speer t)) n,
       proto := entered (proto rm) pr (nxt rm), scopePeers := entered (scopePeers rm) (q, fst (speer t)) n\<rparr>"
      by (simp add: rm1)
    have f2: "transient rm2 = transient rm" "system rm2 = system rm" "streamScopes rm2 = streamScopes rm"
      by (simp_all add: rm2)
    show ?thesis
    proof (cases e2)
      case (Some err)
      then have rm': "rm' = rm2\<lparr>hp := DecRef (DecRef (ReleaseForChild h2 q held) q) pp\<rparr>" and res: "res = Some (ScopeError err)"
        using e t g r1 None g2 r2 by (auto simp: SetProtocol_def Let_def st fields lims)
      have "pair_result rm (hp rm') (nxt rm') s q lq pp lp held (Some (transient rm)) [snd (speer t), pp, q, system rm] False"
        using X(2) Some by (auto simp: pair_result_def rm' Let_def)
      then show ?thesis using X(1) Some room res by (simp add: rm' rm2)
    next
      case e2: None
      then have rm': "rm' = rm2\<lparr>hp := set_edges (DecRef (ReleaseForChild h2 (transient rm) held) (transient rm)) s
            [snd (speer t), pp, q, system rm],
          streamScopes := (streamScopes rm)(s \<mapsto> t\<lparr>sproto := Some q, peerProtoScope := Some pp\<rparr>)\<rparr>" and res: "res = None"
        using e t g r1 None g2 r2 by (auto simp: SetProtocol_def Let_def st fields lims f2)
      have tr: "transient rm < nxt rm" "transient rm \<notin> {q, pp}"
        using kn_lt [OF mgr_okD(2) [OF rm]] kn_neq [OF mgr_okD(2) [OF 1(1)] 1(3)] kn_neq [OF mgr_okD(2) [OF C(9)] C(8)] fields f2
        by (auto simp: sub_role_def)
      have "pair_result rm (hp rm') (nxt rm') s q lq pp lp held (Some (transient rm)) [snd (speer t), pp, q, system rm] True"
        using pair_granted(2) [where n = "nxt rm2" and s = s, OF X(3) [OF e2] C(7) st(2) tr(2,1)] C(5) 1(2) by (simp add: rm' frame_def fields)
      then show ?thesis using X(1) e2 room res by (simp add: rm' rm2)
    qed
  qed
  then show "res = None \<longleftrightarrow> room rm lq q held \<and> room rm lp pp held"
    "rm' = rm\<lparr>hp := hp rm', nxt := if room rm lq q held then grown (scopePeers rm) (q, fst (speer t)) n else n,
       proto := entered (proto rm) pr (nxt rm),
       scopePeers := if room rm lq q held then entered (scopePeers rm) (q, fst (speer t)) n else scopePeers rm,
       streamScopes := if res = None then (streamScopes rm)(s \<mapsto> t\<lparr>sproto := Some q, peerProtoScope := Some pp\<rparr>)
         else streamScopes rm\<rparr>"
    "pair_result rm (hp rm') (nxt rm') s q lq pp lp held (Some (transient rm)) [snd (speer t), pp, q, system rm] (res = None)"
    by blast+
qed

lemma SetService_exact:
  assumes rm: "mgr_ok rm" and t: "streamScopes rm s = Some t" "ssvc t = None" "sproto t = Some q0" "peerProtoScope t = Some p0"
    and e: "SetService rm s v = (rm', res)"
    and q: "q = found (svc rm) v (nxt rm)" and n: "n = grown (svc rm) v (nxt rm)"
    and pp: "pp = found (scopePeers rm) (q, fst (speer t)) n"
    and lims: "lq = GetServiceLimits (limits rm) v" "lp = GetServicePeerLimits (limits rm) v"
    and held: "held = stat (rc (hp rm s))"
  shows "res = None \<longleftrightarrow> room rm lq q held \<and> room rm lp pp held"
    "rm' = rm\<lparr>hp := hp rm', nxt := if room rm lq q held then grown (scopePeers rm) (q, fst (speer t)) n else n,
       svc := entered (svc rm) v (nxt rm),
       scopePeers := if room rm lq q held then entered (scopePeers rm) (q, fst (speer t)) n else scopePeers rm,
       streamScopes := if res = None then (streamScopes rm)(s \<mapsto> t\<lparr>ssvc := Some q, peerSvcScope := Some pp\<rparr>)
         else streamScopes rm\<rparr>"
    "pair_result rm (hp rm') (nxt rm') s q lq pp lp held None [snd (speer t), p0, pp, q0, q, system rm] (res = None)"
proof -
  obtain rm1 q' where g': "getServiceScope rm v = (rm1, q')" by fastforce
  have g: "getServiceScope rm v = (rm1, q)" using getServiceScope_at(1) [OF rm g'] g' q by simp
  note G = getServiceScope_at [OF rm g, folded lims(1) n]
  have 1: "mgr_ok rm1" "frame rm rm1" "kn rm1 q RSvc" using getServiceScope_ok [OF rm g] by auto
  have s: "s < nxt rm" using mgr_ok_tabD(2) [OF rm t(1)] by (simp add: stream_ok_def kn_def)
  then have st: "stat (rc (hp rm1 s)) = held" "stat_nn held"
    using 1(2) hok_stat [OF mgr_okD(3) [OF rm], of s] by (auto simp: held frame_def)
  obtain hx where rm1: "rm1 = rm\<lparr>hp := hx, nxt := n, svc := entered (svc rm) v (nxt rm)\<rparr>" using G(3) by blast
  have fields: "nxt rm1 = n" "scopePeers rm1 = scopePeers rm" "limits rm1 = limits rm"
      "streamScopes rm1 = streamScopes rm" "transient rm1 = transient rm" "system rm1 = system rm"
    by (simp_all add: rm1)
  have lp: "lim_bnd lp" using mgr_okD(6) [OF rm] by (simp add: lims lims_ok_def)
  obtain h1 e1 where r1: "ReserveForChild (hp rm1) q held = (h1, e1)" by fastforce
  note R1 = ReserveForChild_exact [OF mgr_okD(3) [OF 1(1)] st(2) r1]
  note tried = enters_reserve [OF G(2) mgr_okD(3) [OF 1(1)] st(2) r1]
  have rl: "RSvc = RProto \<or> RSvc = RSvc" by simp
  note U = pair_untried [OF rm G(2), of s "fst (speer t)", unfolded fields, folded pp]
  have "(res = None \<longleftrightarrow> room rm lq q held \<and> room rm lp pp held) \<and>
    rm' = rm\<lparr>hp := hp rm', nxt := if room rm lq q held then grown (scopePeers rm) (q, fst (speer t)) n else n,
       svc := entered (svc rm) v (nxt rm),
       scopePeers := if room rm lq q held then entered (scopePeers rm) (q, fst (speer t)) n else scopePeers rm,
       streamScopes := if res = None then (streamScopes rm)(s \<mapsto> t\<lparr>ssvc := Some q, peerSvcScope := Some pp\<rparr>)
         else streamScopes rm\<rparr> \<and>
    pair_result rm (hp rm') (nxt rm') s q lq pp lp held None [snd (speer t), p0, pp, q0, q, system rm] (res = None)"
  proof (cases e1)
    case (Some err)
    have rm': "rm' = rm1\<lparr>hp := DecRef (hp rm1) q\<rparr>" and res: "res = Some (ScopeError err)"
      using e t g r1 R1(2) Some by (auto simp: SetService_def Let_def st)
    have "\<not> room rm lq q held" using tried Some by simp
    then show ?thesis using res U by (simp add: rm' rm1)
  next
    case None
    then have room: "room rm lq q held" using tried by simp
    obtain rm2 pp' where g2': "sub_getPeerScope (rm1\<lparr>hp := h1\<rparr>) q lp (fst (speer t)) = (rm2, pp')" by fastforce
    obtain h2 e2 where r2': "ReserveForChild (hp rm2) pp' held = (h2, e2)" by fastforce
    note C' = charge_pair(1) [OF 1(1,3) rl st(2) lp r1 [unfolded None] g2' r2', unfolded fields, folded pp]
    have g2: "sub_getPeerScope (rm1\<lparr>hp := h1\<rparr>) q lp (fst (speer t)) = (rm2, pp)"
      and r2: "ReserveForChild (hp rm2) pp held = (h2, e2)" using g2' r2' C' by simp_all
    note C = charge_pair [OF 1(1,3) rl st(2) lp r1 [unfolded None] g2 r2, unfolded fields]
    note X = pair_exact [OF rm G(2) 1(1) fields(2) 1(3) rl st(2) lp r1 [unfolded None] g2 r2]
    obtain hy where "rm2 = rm1\<lparr>hp := hy, nxt := grown (scopePeers rm) (q, fst (speer t)) n,
       scopePeers := entered (scopePeers rm) (q, fst (speer t)) n\<rparr>" using C(2) by blast
    then have rm2: "rm2 = rm\<lparr>hp := hy, nxt := grown (scopePeers rm) (q, fst (speer t)) n,
       svc := entered (svc rm) v (nxt rm), scopePeers := entered (scopePeers rm) (q, fst (speer t)) n\<rparr>"
      by (simp add: rm1)
    have f2: "transient rm2 = transient rm" "system rm2 = system rm" "streamScopes rm2 = streamScopes rm"
      by (simp_all add: rm2)
    show ?thesis
    proof (cases e2)
      case (Some err)
      then have rm': "rm' = rm2\<lparr>hp := DecRef (DecRef (ReleaseForChild h2 q held) q) pp\<rparr>" and res: "res = Some (ScopeError err)"
        using e t g r1 None g2 r2 by (auto simp: SetService_def Let_def st fields lims)
      have "pair_result rm (hp rm') (nxt rm') s q lq pp lp held None [snd (speer t), p0, pp, q0, q, system rm] False"
        using X(2) Some by (auto simp: pair_result_def rm' Let_def)
      then show ?thesis using X(1) Some room res by (simp add: rm' rm2)
    next
      case e2: None
      then have rm': "rm' = rm2\<lparr>hp := set_edges h2 s
            [snd (speer t), p0, pp, q0, q, system rm],
          streamScopes := (streamScopes rm)(s \<mapsto> t\<lparr>ssvc := Some q, peerSvcScope := Some pp\<rparr>)\<rparr>" and res: "res = None"
        using e t g r1 None g2 r2 by (auto simp: SetService_def Let_def st fields lims f2)
      have "pair_result rm (hp rm') (nxt rm') s q lq pp lp held None [snd (speer t), p0, pp, q0, q, system rm] True"
        using pair_granted(1) [where n = "nxt rm2" and s = s, OF X(3) [OF e2] C(7) st(2)] by (simp add: rm')
      then show ?thesis using X(1) e2 room res by (simp add: rm' rm2)
    qed
  qed
  then show "res = None \<longleftrightarrow> room rm lq q held \<and> room rm lp pp held"
    "rm' = rm\<lparr>hp := hp rm', nxt := if room rm lq q held then grown (scopePeers rm) (q, fst (speer t)) n else n,
       svc := entered (svc rm) v (nxt rm),
       scopePeers := if room rm lq q held then entered (scopePeers rm) (q, fst (speer t)) n else scopePeers rm,
       streamScopes := if res = None then (streamScopes rm)(s \<mapsto> t\<lparr>ssvc := Some q, peerSvcScope := Some pp\<rparr>)
         else streamScopes rm\<rparr>"
    "pair_result rm (hp rm') (nxt rm') s q lq pp lp held None [snd (speer t), p0, pp, q0, q, system rm] (res = None)"
    by blast+
qed

section \<open>Properties\<close>

definition demo_stream :: resourceManager where
  "demo_stream = fst (OpenStream demo_rm ''A'' DirInbound)"

lemma demo_stream_ok: "mgr_ok demo_stream"
  using OpenStream_ok [OF demo_rm_ok, of "''A''" DirInbound]
  by (cases "OpenStream demo_rm ''A'' DirInbound") (simp add: demo_stream_def)

definition demo_tab :: streamScope where
  "demo_tab = \<lparr>stdir = DirInbound, speer = (''A'', 4), ssvc = None, sproto = None, peerProtoScope = None,
     peerSvcScope = None\<rparr>"

lemma demo_stream_tab: "streamScopes demo_stream 5 = Some demo_tab"
  by (simp add: demo_stream_def demo_tab_def OpenStream_def Let_def getPeerScope_def newPeerScope_def
      new_scope_def newStreamScope_def nextStreamId_def upd_heap_def demo_rm_def NewResourceManager_def
      split: prod.split option.split)

lemma demo_stream_eval:
  "proto demo_stream = []" "svc demo_stream = []" "scopePeers demo_stream = []" "nxt demo_stream = 6"
  "transient demo_stream = 1" "system demo_stream = 0" "limits demo_stream = demo_lims"
  by (simp_all add: demo_stream_def demo_tab_def OpenStream_def Let_def getPeerScope_def newPeerScope_def
      new_scope_def newStreamScope_def nextStreamId_def upd_heap_def demo_rm_def NewResourceManager_def
      split: prod.split option.split)

lemmas demo_defs = demo_stream_def OpenStream_def Let_def getPeerScope_def newPeerScope_def
  new_scope_def newStreamScope_def nextStreamId_def upd_heap_def demo_rm_def NewResourceManager_def
  newResourceScope_def IncRef_def DecRef_def no_scopes_def AddStream.simps [of _ 5] addStreamForEdges_def for_edges_def
  AddStreamForChild_def addStream_def addStreams_def limit_defs new_resources_def demo_lims_def demo_limit_def upd_rc_def

lemma demo_stream_rc: "rc (hp demo_stream 5) = (new_resources demo_limit)\<lparr>nstreamsIn := 1\<rparr>"
  by (simp add: demo_defs)

lemma demo_room: "nxt rm \<le> s \<Longrightarrow> room rm demo_limit s (stat ((new_resources demo_limit)\<lparr>nstreamsIn := 1\<rparr>))"
  by (simp add: room_def fresh_rc_def stat_fits_def stat_def new_resources_def demo_limit_def addStreams_def
      addConns_def checkMemory_def Let_def limit_defs addInt64WithOverflow_def mulInt64WithOverflow_def int64_defs
      wrap64_alt quot_def)

text \<open>
  C12. \<^verbatim>\<open>SetProtocol\<close> attaches a stream that has no protocol yet to the scope \<open>q\<close> the manager
  has registered for exactly the given protocol, and to the scope \<open>pp\<close> registered below \<open>q\<close> for
  exactly the stream's peer; scopes that are not registered yet are created empty under the
  configured limits and entered in the maps. It succeeds exactly when both are open and have
  room for what the stream holds. Then both hold that much more, the transient scope that much
  less, the references follow, and the stream lies below peer, \<open>pp\<close>, \<open>q\<close> and system. Otherwise no
  counter and no edge of any scope has changed, the stream is not attached, and all that
  remains are the scopes created on the way, empty and registered. Nothing else of the manager
  changes, and its invariant is kept.
\<close>
theorem SetProtocol_moves:
  assumes "mgr_ok rm" and "streamScopes rm s = Some t" and "sproto t = None"
    and "SetProtocol rm s pr = (rm', res)"
  shows "mgr_ok rm' \<and>
    (let q = found (proto rm) pr (nxt rm); n = grown (proto rm) pr (nxt rm); k = (q, fst (speer t));
         pp = found (scopePeers rm) k n; lq = GetProtocolLimits (limits rm) pr;
         lp = GetProtocolPeerLimits (limits rm) pr; held = stat (rc (hp rm s)); tried = room rm lq q held in
     (res = None \<longleftrightarrow> tried \<and> room rm lp pp held) \<and>
     rm' = rm\<lparr>hp := hp rm', nxt := if tried then grown (scopePeers rm) k n else n,
       proto := entered (proto rm) pr (nxt rm),
       scopePeers := if tried then entered (scopePeers rm) k n else scopePeers rm,
       streamScopes := if res = None then (streamScopes rm)(s \<mapsto> t\<lparr>sproto := Some q, peerProtoScope := Some pp\<rparr>)
         else streamScopes rm\<rparr> \<and>
     pair_result rm (hp rm') (nxt rm') s q lq pp lp held (Some (transient rm)) [snd (speer t), pp, q, system rm]
       (res = None))"
  unfolding Let_def
  using SetProtocol_exact [OF assms refl refl refl refl refl refl] SetProtocol_ok [OF assms] by blast

lemma demo_stream_names:
  "sproto demo_tab = None" "found (proto demo_stream) ''/x'' (nxt demo_stream) = 6"
  "grown (proto demo_stream) ''/x'' (nxt demo_stream) = 7"
  "found (scopePeers demo_stream) (6, fst (speer demo_tab)) 7 = 7" "grown (scopePeers demo_stream) (6, fst (speer demo_tab)) 7 = 8"
  "GetProtocolLimits (limits demo_stream) ''/x'' = demo_limit" "GetProtocolPeerLimits (limits demo_stream) ''/x'' = demo_limit"
  "entered (proto demo_stream) ''/x'' (nxt demo_stream) = [(''/x'', 6)]"
  "entered (scopePeers demo_stream) (6, fst (speer demo_tab)) 7 = [((6, ''A''), 7)]"
  by (simp_all add: demo_stream_eval found_def grown_def entered_def demo_tab_def demo_lims_def)

text \<open>What both outcomes of the look-ups amount to when there is room.\<close>

lemma demo_granted:
  assumes room: "res = None \<longleftrightarrow> room demo_stream demo_limit 6 st \<and> room demo_stream demo_limit 7 st"
    and st: "st = stat ((new_resources demo_limit)\<lparr>nstreamsIn := 1\<rparr>)"
    and rm': "rm' = demo_stream\<lparr>hp := hp rm', nxt := if room demo_stream demo_limit 6 st then 8 else 7, proto := [(''/x'', 6)],
       scopePeers := if room demo_stream demo_limit 6 st then [((6, ''A''), 7)] else scopePeers demo_stream,
       streamScopes := if res = None then (streamScopes demo_stream)(5 \<mapsto> demo_tab\<lparr>sproto := Some 6, peerProtoScope := Some 7\<rparr>)
         else streamScopes demo_stream\<rparr>"
  shows "res = None" "nxt rm' = 8" "proto rm' = [(''/x'', 6)]" "scopePeers rm' = [((6, ''A''), 7)]" "svc rm' = []"
    "limits rm' = demo_lims" "system rm' = 0" "streamScopes rm' 5 = Some (demo_tab\<lparr>sproto := Some 6, peerProtoScope := Some 7\<rparr>)"
proof -
  have r: "room demo_stream demo_limit 6 st" "room demo_stream demo_limit 7 st"
    unfolding st by (rule demo_room, simp add: demo_stream_eval)+
  then show "res = None" using room by blast
  then obtain h where "rm' = demo_stream\<lparr>hp := h, nxt := 8, proto := [(''/x'', 6)], scopePeers := [((6, ''A''), 7)],
       streamScopes := (streamScopes demo_stream)(5 \<mapsto> demo_tab\<lparr>sproto := Some 6, peerProtoScope := Some 7\<rparr>)\<rparr>"
    using rm' r by auto
  then show "nxt rm' = 8" "proto rm' = [(''/x'', 6)]" "scopePeers rm' = [((6, ''A''), 7)]" "svc rm' = []"
    "limits rm' = demo_lims" "system rm' = 0" "streamScopes rm' 5 = Some (demo_tab\<lparr>sproto := Some 6, peerProtoScope := Some 7\<rparr>)"
    by (simp_all add: demo_stream_eval)
qed

theorem SetProtocol_moves_witness:
  "mgr_ok demo_stream \<and> streamScopes demo_stream 5 = Some demo_tab \<and> sproto demo_tab = None \<and>
   (case SetProtocol demo_stream 5 ''/x'' of (rm', res) \<Rightarrow>
      res = None \<and> map_of (proto rm') ''/x'' = Some 6 \<and> map_of (scopePeers rm') (6, ''A'') = Some 7 \<and>
      nstreamsIn (rc (hp rm' 6)) = 1 \<and> nstreamsIn (rc (hp rm' 7)) = 1 \<and> edges (hp rm' 5) = [4, 7, 6, 0])"
proof -
  obtain rm' res where e: "SetProtocol demo_stream 5 ''/x'' = (rm', res)" by fastforce
  note T = conjunct2 [OF SetProtocol_moves [OF demo_stream_ok demo_stream_tab demo_stream_names(1) e],
      unfolded Let_def demo_stream_names(2-) demo_stream_rc]
  note R = demo_granted [OF conjunct1 [OF T] refl conjunct1 [OF conjunct2 [OF T]]]
  have H: "pair_result demo_stream (hp rm') 8 5 6 demo_limit 7 demo_limit (stat ((new_resources demo_limit)\<lparr>nstreamsIn := 1\<rparr>))
      (Some (transient demo_stream)) [4, 7, 6, 0] True"
    using conjunct2 [OF conjunct2 [OF T]] R by (simp add: demo_tab_def demo_stream_eval)
  have "nstreamsIn (rc (hp rm' 6)) = 1" "nstreamsIn (rc (hp rm' 7)) = 1" "edges (hp rm' 5) = [4, 7, 6, 0]"
    using H [unfolded pair_result_def, rule_format, of 6] H [unfolded pair_result_def, rule_format, of 7]
      H [unfolded pair_result_def, rule_format, of 5]
    by (simp_all add: Let_def stat_plus_def pair_rc_def fresh_rc_def stat_def new_resources_def demo_stream_eval)
  then show ?thesis using e R demo_stream_ok demo_stream_tab demo_stream_names(1) by simp
qed

text \<open>
  C14. \<^verbatim>\<open>SetService\<close> attaches a stream that has a protocol and no service yet to the scope \<open>w\<close>
  registered for exactly the given service and to the scope \<open>pw\<close> registered below \<open>w\<close> for exactly
  the stream's peer, creating and registering them empty where there are none. It succeeds
  exactly when both are open and have room for what the stream holds; then both hold that much
  more, no scope holds less, and the stream lies below peer, protocol-peer, \<open>pw\<close>, protocol, \<open>w\<close>
  and system. Otherwise no counter and no edge of any scope has changed and the stream is
  not attached. Nothing else of the manager changes, and its invariant is kept.
\<close>
theorem SetService_charges:
  assumes "mgr_ok rm" and "streamScopes rm s = Some t" and "ssvc t = None" and "sproto t = Some q"
    and "SetService rm s v = (rm', res)"
  shows "mgr_ok rm' \<and>
    (\<exists>p0. peerProtoScope t = Some p0 \<and>
    (let w = found (svc rm) v (nxt rm); n = grown (svc rm) v (nxt rm); k = (w, fst (speer t));
         pw = found (scopePeers rm) k n; lw = GetServiceLimits (limits rm) v;
         lp = GetServicePeerLimits (limits rm) v; held = stat (rc (hp rm s)); tried = room rm lw w held in
     (res = None \<longleftrightarrow> tried \<and> room rm lp pw held) \<and>
     rm' = rm\<lparr>hp := hp rm', nxt := if tried then grown (scopePeers rm) k n else n,
       svc := entered (svc rm) v (nxt rm),
       scopePeers := if tried then entered (scopePeers rm) k n else scopePeers rm,
       streamScopes := if res = None then (streamScopes rm)(s \<mapsto> t\<lparr>ssvc := Some w, peerSvcScope := Some pw\<rparr>)
         else streamScopes rm\<rparr> \<and>
     pair_result rm (hp rm') (nxt rm') s w lw pw lp held None [snd (speer t), p0, pw, q, w, system rm] (res = None)))"
proof -
  obtain p0 where p0: "peerProtoScope t = Some p0"
    using mgr_ok_tabD(2) [OF assms(1,2)] assms(4) by (auto simp: stream_ok_def)
  show ?thesis
    unfolding Let_def
    using SetService_exact [OF assms(1-4) p0 assms(5) refl refl refl refl refl refl] SetService_ok [OF assms] p0 by blast
qed

definition demo_proto :: resourceManager where
  "demo_proto = fst (SetProtocol demo_stream 5 ''/x'')"

definition demo_ptab :: streamScope where
  "demo_ptab = demo_tab\<lparr>sproto := Some 6, peerProtoScope := Some 7\<rparr>"

lemma demo_proto_eval:
  "mgr_ok demo_proto" "streamScopes demo_proto 5 = Some demo_ptab" "nxt demo_proto = 8" "svc demo_proto = []"
  "scopePeers demo_proto = [((6, ''A''), 7)]" "limits demo_proto = demo_lims" "system demo_proto = 0"
  "rc (hp demo_proto 5) = (new_resources demo_limit)\<lparr>nstreamsIn := 1\<rparr>"
proof -
  obtain res where e: "SetProtocol demo_stream 5 ''/x'' = (demo_proto, res)"
    by (cases "SetProtocol demo_stream 5 ''/x''") (simp add: demo_proto_def)
  show "mgr_ok demo_proto" using SetProtocol_ok [OF demo_stream_ok demo_stream_tab demo_stream_names(1) e] by simp
  note T = SetProtocol_exact [OF demo_stream_ok demo_stream_tab demo_stream_names(1) e refl refl refl refl refl refl,
      unfolded demo_stream_names(2-) demo_stream_rc]
  note R = demo_granted [OF T(1) refl T(2)]
  show "streamScopes demo_proto 5 = Some demo_ptab" "nxt demo_proto = 8" "svc demo_proto = []"
    "scopePeers demo_proto = [((6, ''A''), 7)]" "limits demo_proto = demo_lims" "system demo_proto = 0"
    using R by (simp_all add: demo_ptab_def)
  show "rc (hp demo_proto 5) = (new_resources demo_limit)\<lparr>nstreamsIn := 1\<rparr>"
    using T(3) [unfolded pair_result_def, rule_format, of 5] R(1,2) demo_stream_rc
    by (simp add: Let_def pair_rc_def fresh_rc_def demo_stream_eval)
qed

theorem SetService_charges_witness:
  "mgr_ok demo_proto \<and> streamScopes demo_proto 5 = Some demo_ptab \<and> ssvc demo_ptab = None \<and>
   sproto demo_ptab = Some 6 \<and>
   (case SetService demo_proto 5 ''svc'' of (rm', res) \<Rightarrow>
      res = None \<and> nstreamsIn (rc (hp rm' 8)) = 1 \<and> nstreamsIn (rc (hp rm' 9)) = 1 \<and>
      edges (hp rm' 5) = [4, 7, 9, 6, 8, 0])"
proof -
  obtain rm' res where e: "SetService demo_proto 5 ''svc'' = (rm', res)" by fastforce
  have t: "ssvc demo_ptab = None" "sproto demo_ptab = Some 6" by (simp_all add: demo_ptab_def demo_tab_def)
  have n: "found (svc demo_proto) ''svc'' (nxt demo_proto) = 8" "grown (svc demo_proto) ''svc'' (nxt demo_proto) = 9"
    "found (scopePeers demo_proto) (8, fst (speer demo_ptab)) 9 = 9" "grown (scopePeers demo_proto) (8, fst (speer demo_ptab)) 9 = 10"
    "GetServiceLimits (limits demo_proto) ''svc'' = demo_limit" "GetServicePeerLimits (limits demo_proto) ''svc'' = demo_limit"
    by (simp_all add: demo_proto_eval found_def grown_def demo_ptab_def demo_tab_def demo_lims_def)
  have p7: "peerProtoScope demo_ptab = Some 7" by (simp add: demo_ptab_def)
  note T = conjunct2 [OF SetService_charges [OF demo_proto_eval(1,2) t e], unfolded Let_def n p7 option.inject ex_simps simp_thms]
  have nx: "nxt rm' = (if room demo_proto demo_limit 8 (stat (rc (hp demo_proto 5))) then 10 else 9)"
    using arg_cong [OF conjunct1 [OF conjunct2 [OF T]], of nxt] by simp
  have r: "room demo_proto demo_limit 8 (stat (rc (hp demo_proto 5)))" "room demo_proto demo_limit 9 (stat (rc (hp demo_proto 5)))"
    unfolding demo_proto_eval(8) by (rule demo_room, simp add: demo_proto_eval)+
  have H: "pair_result demo_proto (hp rm') 10 5 8 demo_limit 9 demo_limit (stat (rc (hp demo_proto 5))) None [4, 7, 9, 6, 8, 0] True"
    using conjunct2 [OF conjunct2 [OF T]] conjunct1 [OF T] r nx by (simp add: demo_ptab_def demo_tab_def demo_proto_eval)
  have "nstreamsIn (rc (hp rm' 8)) = 1" "nstreamsIn (rc (hp rm' 9)) = 1" "edges (hp rm' 5) = [4, 7, 9, 6, 8, 0]"
    using H [unfolded pair_result_def, rule_format, of 8] H [unfolded pair_result_def, rule_format, of 9]
      H [unfolded pair_result_def, rule_format, of 5]
    by (simp_all add: Let_def stat_plus_def pair_rc_def fresh_rc_def stat_def new_resources_def demo_proto_eval)
  then show ?thesis using e r conjunct1 [OF T] demo_proto_eval t by simp
qed

definition demo_conn :: connectionScope where
  "demo_conn = \<lparr>cdir = DirInbound, cusefd = True, isAllowlisted = False, cpeer = None, endpoint = [], cip = NoAddr\<rparr>"

definition demo_conn_rm :: resourceManager where
  "demo_conn_rm = (case openConnection demo_rm True DirInbound True [] NoAddr of Some (rm, _) \<Rightarrow> rm)"

lemma demo_conn_rm_ok: "mgr_ok demo_conn_rm"
  using openConnection_ok [OF demo_rm_ok, of True DirInbound True "[]" NoAddr]
  by (auto simp: demo_conn_rm_def)

lemmas demo_conn_defs = demo_conn_rm_def openConnection_def Let_def newConnectionScope_def
  new_scope_def nextConnId_def upd_heap_def demo_rm_def NewResourceManager_def
  newResourceScope_def IncRef_def DecRef_def no_scopes_def AddConn.simps [of _ 4] addConnForEdges_def for_edges_def
  AddConnForChild_def addConn_def addConns_def limit_defs new_resources_def demo_lims_def demo_limit_def upd_rc_def

lemma demo_conn_eval:
  "connScopes demo_conn_rm 4 = Some demo_conn \<and> peer demo_conn_rm = [] \<and> nxt demo_conn_rm = 5 \<and>
   limits demo_conn_rm = demo_lims \<and> system demo_conn_rm = 0 \<and> transient demo_conn_rm = 1 \<and>
   rc (hp demo_conn_rm 4) = (new_resources demo_limit)\<lparr>nconnsIn := 1, nfd := 1\<rparr>"
  by (simp add: demo_conn_defs demo_conn_def)

text \<open>
  C13. \<^verbatim>\<open>SetPeer\<close> attaches a connection that has no peer yet and is not allowlisted to the scope \<open>ps\<close>
  the manager has registered for exactly the given peer, created empty under the peer's limits
  and registered when there is none. It succeeds exactly when that scope is open and has room
  for what the connection holds. Then it holds that much more, the transient scope that much
  less (if open), the references follow, and the connection lies below peer and system.
  Otherwise no counter and no edge of any scope has changed, the connection is not attached,
  and all that remains is the scope created on the way, empty and registered. Nothing else of
  the manager changes, and its invariant is kept.
\<close>
theorem SetPeer_moves:
  assumes "mgr_ok rm" and "connScopes rm s = Some c" and "cpeer c = None" and "\<not> isAllowlisted c"
    and "SetPeer rm s p = (rm', res)"
  shows "mgr_ok rm' \<and>
    (let ps = found (peer rm) p (nxt rm); l = GetPeerLimits (limits rm) p; held = stat (rc (hp rm s)) in
     (res = None \<longleftrightarrow> room rm l ps held) \<and>
     rm' = rm\<lparr>hp := hp rm', nxt := grown (peer rm) p (nxt rm), peer := entered (peer rm) p (nxt rm),
       connScopes := if res = None then (connScopes rm)(s \<mapsto> c\<lparr>cpeer := Some ps\<rparr>) else connScopes rm\<rparr> \<and>
     (\<forall>u < nxt rm'.
        edges (hp rm' u) = (if res = None \<and> u = s then [ps, system rm] else fresh_edges rm [system rm] ps u) \<and>
        refCnt (hp rm' u) = fresh_ref rm [system rm] ps u +
          (if res \<noteq> None then 0 else if u = ps then 1 else if u = transient rm then - 1 else 0) \<and>
        rc (hp rm' u) = (let r = fresh_rc rm l ps u in
          if res \<noteq> None then r else if u = ps then stat_plus r held
          else if u = transient rm \<and> \<not> sdone (hp rm u) then stat_minus r held else r)))"
proof -
  have a: "SetPeer_attach rm s c p (system rm) (transient rm) = (rm', res)"
    using assms(2-5) by (simp add: SetPeer_def)
  note c = mgr_ok_tabD(1) [OF assms(1,2)]
  show ?thesis
    using SetPeer_attach_exact [OF assms(1) c mgr_okD(2) [OF assms(1)] a]
      SetPeer_attach_ok [OF assms(1) c _ _ a] mgr_okD(1,2) [OF assms(1)] by blast
qed

theorem SetPeer_moves_witness:
  "mgr_ok demo_conn_rm \<and> connScopes demo_conn_rm 4 = Some demo_conn \<and> cpeer demo_conn = None \<and>
   \<not> isAllowlisted demo_conn \<and>
   (case SetPeer demo_conn_rm 4 ''A'' of (rm', res) \<Rightarrow>
      res = None \<and> map_of (peer rm') ''A'' = Some 5 \<and> nconnsIn (rc (hp rm' 5)) = 1 \<and> nfd (rc (hp rm' 5)) = 1 \<and>
      edges (hp rm' 4) = [5, 0])"
proof -
  obtain rm' res where e: "SetPeer demo_conn_rm 4 ''A'' = (rm', res)" by fastforce
  have c: "connScopes demo_conn_rm 4 = Some demo_conn" "cpeer demo_conn = None" "\<not> isAllowlisted demo_conn"
    "rc (hp demo_conn_rm 4) = (new_resources demo_limit)\<lparr>nconnsIn := 1, nfd := 1\<rparr>"
    using demo_conn_eval by (simp_all add: demo_conn_def)
  have p: "found (peer demo_conn_rm) ''A'' (nxt demo_conn_rm) = 5" "grown (peer demo_conn_rm) ''A'' (nxt demo_conn_rm) = 6"
    "GetPeerLimits (limits demo_conn_rm) ''A'' = demo_limit" "system demo_conn_rm = 0" "transient demo_conn_rm = 1"
    using demo_conn_eval by (simp_all add: found_def grown_def demo_lims_def)
  note T = conjunct2 [OF SetPeer_moves [OF demo_conn_rm_ok c(1-3) e], unfolded Let_def p c(4)]
  have "room demo_conn_rm demo_limit 5 (stat ((new_resources demo_limit)\<lparr>nconnsIn := 1, nfd := 1\<rparr>))"
    using demo_conn_eval by (simp add: room_def fresh_rc_def stat_fits_def stat_def new_resources_def demo_limit_def
        addStreams_def addConns_def checkMemory_def Let_def limit_defs addInt64WithOverflow_def mulInt64WithOverflow_def
        int64_defs wrap64_alt quot_def)
  then have res: "res = None" using T by blast
  have rm': "nxt rm' = 6" "peer rm' = entered (peer demo_conn_rm) ''A'' (nxt demo_conn_rm)"
    using arg_cong [OF conjunct1 [OF conjunct2 [OF T]], of nxt] arg_cong [OF conjunct1 [OF conjunct2 [OF T]], of peer]
    by simp_all
  note H = conjunct2 [OF conjunct2 [OF T], rule_format, unfolded rm'(1)]
  have "nconnsIn (rc (hp rm' 5)) = 1" "nfd (rc (hp rm' 5)) = 1" "edges (hp rm' 4) = [5, 0]"
    using H [of 5] H [of 4] res demo_conn_eval
    by (simp_all add: stat_plus_def fresh_rc_def stat_def new_resources_def)
  then show ?thesis using e res rm' c demo_conn_rm_ok demo_conn_eval by (simp add: entered_def)
qed

end
