(* ===== verification/Bitmask.thy ===== *)
theory Bitmask
  imports Prelude
begin

text \<open>
  Bitmasks of BlossomSub: \<^verbatim>\<open>SliceBitmask\<close> of \<^verbatim>\<open>pubsub.go\<close> splits a bitmask into slices with
  one bit each. Its fast path for a byte with a single bit agrees with the general loop,
  and the slices are exactly the bits of the mask.
\<close>

unbundle bit_operations_syntax

type_synonym bitmask = bytes

definition one_slice :: "nat \<Rightarrow> nat \<Rightarrow> 8 word \<Rightarrow> bitmask" where
  "one_slice n i w = (replicate n 0)[i := w]"

definition bit_positions :: "8 word \<Rightarrow> nat list" where
  "bit_positions b = filter (\<lambda>j. drop_bit j b AND 1 = 1) [7, 6, 5, 4, 3, 2, 1, 0]"

definition byte_slices :: "nat \<Rightarrow> nat \<Rightarrow> 8 word \<Rightarrow> bitmask list" where
  "byte_slices n i b =
     (if b = 0 then []
      else if b AND (b - 1) = 0 then [one_slice n i b]
      else map (\<lambda>j. one_slice n i (push_bit j 1)) (bit_positions b))"

definition SliceBitmask :: "bitmask \<Rightarrow> bitmask list" where
  "SliceBitmask bm =
     (if bm = replicate (length bm) 0 then [bm]
      else concat (map (\<lambda>i. byte_slices (length bm) i (bm ! i)) [0..<length bm]))"

section \<open>The fast path\<close>

lemma all_bytes: "(\<forall>b :: 8 word. P b) \<longleftrightarrow> list_all (\<lambda>n. P (word_of_int n)) [0..255]"
proof
  assume *: "list_all (\<lambda>n. P (word_of_int n)) [0..255]"
  show "\<forall>b :: 8 word. P b"
  proof
    fix b :: "8 word"
    have "0 \<le> uint b" "uint b < 256" using uint_lt2p [of b] by simp_all
    then have "uint b \<in> set [0..255]" by simp
    with * have "P (word_of_int (uint b))" unfolding list_all_iff by blast
    then show "P b" by simp
  qed
qed (simp add: list_all_iff)

lemma fast_path_all:
  "\<forall>b :: 8 word. b \<noteq> 0 \<longrightarrow> b AND (b - 1) = 0 \<longrightarrow> map (\<lambda>j. push_bit j 1) (bit_positions b) = [b]"
  unfolding all_bytes by code_simp

lemma bit_positions_zero: "bit_positions 0 = []"
  by (simp add: bit_positions_def)

lemma byte_slices_reference:
  "byte_slices n i b = map (\<lambda>j. one_slice n i (push_bit j 1)) (bit_positions b)"
proof (cases "b \<noteq> 0 \<and> b AND (b - 1) = 0")
  case True
  then have "map (\<lambda>j. push_bit j 1) (bit_positions b) = [b]" using fast_path_all by blast
  then have "map (one_slice n i) (map (\<lambda>j. push_bit j 1) (bit_positions b)) = [one_slice n i b]" by simp
  with True show ?thesis by (simp add: byte_slices_def comp_def)
qed (auto simp: byte_slices_def bit_positions_zero)

lemma set_bit_positions: "set (bit_positions b) = {j. j < 8 \<and> bit b j}"
proof -
  have "j \<in> set [7, 6, 5, 4, 3, 2, 1, 0] \<longleftrightarrow> j < 8" for j :: nat by auto
  moreover have "drop_bit j b AND 1 = 1 \<longleftrightarrow> bit b j" for j
    by (simp add: bit_iff_odd_drop_bit and_one_eq odd_iff_mod_2_eq_one)
  ultimately show ?thesis unfolding bit_positions_def by (simp only: set_filter)
qed

lemma distinct_bit_positions: "distinct (bit_positions b)"
  by (simp add: bit_positions_def)

section \<open>The slices are the bits\<close>

definition is_slice :: "bitmask \<Rightarrow> nat \<Rightarrow> nat \<Rightarrow> bool" where
  "is_slice bm i j \<longleftrightarrow> i < length bm \<and> j < 8 \<and> bit (bm ! i) j"

lemma set_SliceBitmask:
  assumes "bm \<noteq> replicate (length bm) 0"
  shows "set (SliceBitmask bm) = {one_slice (length bm) i (push_bit j 1) | i j. is_slice bm i j}"
  using assms by (auto simp: SliceBitmask_def byte_slices_reference set_bit_positions is_slice_def) blast

lemma one_slice_inj:
  assumes "i < n" "i' < n" "j < 8" "j' < 8"
    and eq: "one_slice n i (push_bit j 1) = one_slice n i' (push_bit j' 1)"
  shows "i = i' \<and> j = j'"
proof -
  have nz: "push_bit j (1 :: 8 word) \<noteq> 0" if "j < 8" for j
    using that by (simp add: push_bit_of_1 bit_eq_iff bit_simps) auto
  have i: "i = i'"
    using arg_cong [OF eq, of "\<lambda>xs. xs ! i"] nz [OF assms(3)] assms(1,2)
    by (auto simp: one_slice_def nth_list_update split: if_splits)
  then have "push_bit j (1 :: 8 word) = push_bit j' 1"
    using arg_cong [OF eq, of "\<lambda>xs. xs ! i"] assms(1) by (simp add: one_slice_def)
  then have "bit (push_bit j (1 :: 8 word)) j = bit (push_bit j' (1 :: 8 word)) j" by simp
  then have "j = j'" using assms(3,4) by (auto simp: bit_simps)
  with i show ?thesis by simp
qed

lemma distinct_SliceBitmask: "distinct (SliceBitmask bm)"
proof (cases "bm = replicate (length bm) 0")
  case False
  have "distinct (byte_slices (length bm) i (bm ! i))" if "i < length bm" for i
    using that one_slice_inj [of i "length bm" i]
    by (auto simp: byte_slices_reference distinct_map distinct_bit_positions inj_on_def set_bit_positions)
  moreover have "set (byte_slices (length bm) i (bm ! i)) \<inter> set (byte_slices (length bm) k (bm ! k)) = {}"
    if "i < length bm" "k < length bm" "i \<noteq> k" for i k
    using that one_slice_inj [of i "length bm" k] by (fastforce simp: byte_slices_reference set_bit_positions)
  ultimately have "distinct (concat (map (\<lambda>i. byte_slices (length bm) i (bm ! i)) [0..<length bm]))"
    by (intro distinct_concat_map) auto
  with False show ?thesis by (simp add: SliceBitmask_def)
qed (simp add: SliceBitmask_def)

lemma SliceBitmask_general_loop:
  "SliceBitmask bm =
     (if bm = replicate (length bm) 0 then [bm]
      else concat (map (\<lambda>i. map (\<lambda>j. one_slice (length bm) i (push_bit j 1)) (bit_positions (bm ! i)))
                       [0..<length bm]))"
  by (simp add: SliceBitmask_def byte_slices_reference)

lemma SliceBitmask_zero: "bm = replicate (length bm) 0 \<Longrightarrow> SliceBitmask bm = [bm]"
  unfolding SliceBitmask_def by (rule if_P)

lemma length_SliceBitmask: "s \<in> set (SliceBitmask bm) \<Longrightarrow> length s = length bm"
  by (auto simp: SliceBitmask_general_loop one_slice_def split: if_splits)

lemma SliceBitmask_nonempty: "SliceBitmask bm \<noteq> []"
proof (cases "bm = replicate (length bm) 0")
  case False
  then obtain i where i: "i < length bm" "bm ! i \<noteq> 0"
    by (metis length_replicate nth_equalityI nth_replicate)
  then obtain j where "j < 8" "bit (bm ! i) j"
    using bit_word_eqI [of "bm ! i" 0] by auto
  with i have "is_slice bm i j" by (simp add: is_slice_def)
  then have "one_slice (length bm) i (push_bit j 1) \<in> set (SliceBitmask bm)"
    unfolding set_SliceBitmask [OF False] by blast
  then show ?thesis by (metis empty_iff empty_set)
qed (simp add: SliceBitmask_def)

text \<open>
  C20. \<^verbatim>\<open>SliceBitmask\<close> with its fast path for bytes of one bit returns what the general loop over
  the bits of every byte returns; its slices are pairwise different, there is at least one,
  and on a mask that is not all zero they are exactly the masks of one bit that is set in it.
\<close>
theorem SliceBitmask_is_bits:
  "SliceBitmask bm =
     (if bm = replicate (length bm) 0 then [bm]
      else concat (map (\<lambda>i. map (\<lambda>j. one_slice (length bm) i (push_bit j 1)) (bit_positions (bm ! i)))
                       [0..<length bm]))
   \<and> distinct (SliceBitmask bm) \<and> SliceBitmask bm \<noteq> []
   \<and> set (SliceBitmask bm) =
       (if bm = replicate (length bm) 0 then {bm}
        else {one_slice (length bm) i (push_bit j 1) | i j. is_slice bm i j})"
proof (intro conjI)
  show "set (SliceBitmask bm) =
      (if bm = replicate (length bm) 0 then {bm}
       else {one_slice (length bm) i (push_bit j 1) | i j. is_slice bm i j})"
    using set_SliceBitmask [of bm] SliceBitmask_zero [of bm] by (simp only: if_split) auto
qed (rule SliceBitmask_general_loop distinct_SliceBitmask SliceBitmask_nonempty)+

end
