(* ===== verification/Pubsub_Types.thy ===== *)
theory Pubsub_Types
  imports Bitmask
begin

text \<open>
  The wire data of BlossomSub (\<^verbatim>\<open>pb/rpc.proto\<close>), the message and RPC wrappers of
  \<^verbatim>\<open>pubsub.go\<close>, the RPC constructors of \<^verbatim>\<open>comm.go\<close>, the rejection reasons of
  \<^verbatim>\<open>tracer.go\<close> and the message-id generator of \<^verbatim>\<open>midgen.go\<close>. A peer identifier and the
  bytes it is made of are converted by \<open>peer_ID\<close>. The repeated fields whose nil-ness the code tests
  (\<open>Graft\<close> and \<open>Prune\<close> of a control message) are slices: \<open>None\<close> is Go's nil.
\<close>

type_synonym message_id = bytes

type_synonym 'a slice = "'a list option"

definition elems :: "'a slice \<Rightarrow> 'a list" where
  "elems s = (case s of None \<Rightarrow> [] | Some xs \<Rightarrow> xs)"

definition go_append :: "'a slice \<Rightarrow> 'a list \<Rightarrow> 'a slice" where
  "go_append s xs = (if xs = [] then s else Some (elems s @ xs))"

lemma elems_simps [simp]: "elems None = []" "elems (Some xs) = xs"
  by (simp_all add: elems_def)

lemma elems_go_append [simp]: "elems (go_append s xs) = elems s @ xs"
  by (simp add: go_append_def)

definition peer_ID :: "bytes \<Rightarrow> peer_id" where
  "peer_ID bs = map (\<lambda>b. char_of (unat b)) bs"

definition peer_bytes :: "peer_id \<Rightarrow> bytes" where
  "peer_bytes p = map (\<lambda>c. word_of_nat (of_char c)) p"

lemma peer_ID_bytes [simp]: "peer_ID (peer_bytes p) = p"
  by (simp add: peer_ID_def peer_bytes_def comp_def unat_of_nat of_char_mod_256)

lemma peer_bytes_ID [simp]: "peer_bytes (peer_ID bs) = bs"
proof -
  have "word_of_nat (of_char (char_of (unat b))) = b" for b :: "8 word"
  proof -
    have "unat b < 256" by (rule order.strict_trans2 [OF unsigned_less]) simp
    then show ?thesis by (simp add: of_char_of)
  qed
  then show ?thesis by (simp add: peer_ID_def peer_bytes_def comp_def)
qed

section \<open>Protocol buffers\<close>

record SubOpts =
  Subscribe :: bool
  SubBitmask :: bitmask

record pbMessage =
  From :: "8 word slice"
  Data :: bytes
  Seqno :: "8 word slice"
  MBitmask :: bitmask
  Signature :: "8 word slice"
  Key :: "8 word slice"

record ControlIHave =
  IHaveBitmask :: bitmask
  IHaveIDs :: "message_id list"

record ControlIWant =
  IWantIDs :: "message_id list"

record ControlGraft =
  GraftBitmask :: bitmask

record PeerInfo =
  PeerID :: bytes
  SignedPeerRecord :: "bytes option"

record ControlPrune =
  PruneBitmask :: bitmask
  Peers :: "PeerInfo list"
  Backoff :: nat

record ControlIDontWant =
  IDontWantIDs :: "message_id list"

record ControlMessage =
  Ihave :: "ControlIHave list"
  Iwant :: "ControlIWant list"
  Graft :: "ControlGraft slice"
  Prune :: "ControlPrune slice"
  Idontwant :: "ControlIDontWant list"

record RPC =
  Subscriptions :: "SubOpts list"
  Publish :: "pbMessage list"
  Control :: "ControlMessage option"
  rpc_from :: peer_id

record Message =
  pbm :: pbMessage
  ID :: message_id
  ReceivedFrom :: peer_id
  Local :: bool

definition GetFrom :: "Message \<Rightarrow> peer_id" where
  "GetFrom m = peer_ID (elems (From (pbm m)))"

abbreviation GetBitmask :: "Message \<Rightarrow> bitmask" where
  "GetBitmask m \<equiv> MBitmask (pbm m)"

definition empty_ctl :: ControlMessage where
  "empty_ctl = \<lparr>Ihave = [], Iwant = [], Graft = None, Prune = None, Idontwant = []\<rparr>"

definition empty_rpc :: "peer_id \<Rightarrow> RPC" where
  "empty_rpc from = \<lparr>Subscriptions = [], Publish = [], Control = None, rpc_from = from\<rparr>"

section \<open>RPC constructors\<close>

definition rpcWithSubs :: "SubOpts list \<Rightarrow> RPC" where
  "rpcWithSubs subs = (empty_rpc [])\<lparr>Subscriptions := subs\<rparr>"

definition rpcWithMessages :: "pbMessage list \<Rightarrow> RPC" where
  "rpcWithMessages msgs = (empty_rpc [])\<lparr>Publish := msgs\<rparr>"

definition rpcWithControl :: "pbMessage list \<Rightarrow> ControlIHave list \<Rightarrow> ControlIWant list \<Rightarrow>
    ControlGraft slice \<Rightarrow> ControlPrune slice \<Rightarrow> ControlIDontWant list \<Rightarrow> RPC" where
  "rpcWithControl msgs ihave iwant graft prune idontwant =
     (empty_rpc [])\<lparr>Publish := msgs,
        Control := Some \<lparr>Ihave = ihave, Iwant = iwant, Graft = graft, Prune = prune, Idontwant = idontwant\<rparr>\<rparr>"

text \<open>\<^verbatim>\<open>copyRPC\<close> clones the protocol buffer; the clone of an empty repeated field is nil.\<close>

definition clone_slice :: "'a slice \<Rightarrow> 'a slice" where
  "clone_slice s = (if elems s = [] then None else s)"

definition copyRPC :: "RPC \<Rightarrow> RPC" where
  "copyRPC rpc = rpc\<lparr>Control := map_option (\<lambda>c. c\<lparr>Graft := clone_slice (Graft c), Prune := clone_slice (Prune c)\<rparr>) (Control rpc)\<rparr>"

lemma elems_clone_slice [simp]: "elems (clone_slice s) = elems s"
  by (simp add: clone_slice_def)

section \<open>Rejection reasons\<close>

definition RejectBlacklstedPeer :: string where "RejectBlacklstedPeer = ''blacklisted peer''"
definition RejectBlacklistedSource :: string where "RejectBlacklistedSource = ''blacklisted source''"
definition RejectMissingSignature :: string where "RejectMissingSignature = ''missing signature''"
definition RejectUnexpectedSignature :: string where "RejectUnexpectedSignature = ''unexpected signature''"
definition RejectUnexpectedAuthInfo :: string where "RejectUnexpectedAuthInfo = ''unexpected auth info''"
definition RejectInvalidSignature :: string where "RejectInvalidSignature = ''invalid signature''"
definition RejectValidationQueueFull :: string where "RejectValidationQueueFull = ''validation queue full''"
definition RejectValidationThrottled :: string where "RejectValidationThrottled = ''validation throttled''"
definition RejectValidationFailed :: string where "RejectValidationFailed = ''validation failed''"
definition RejectValidationIgnored :: string where "RejectValidationIgnored = ''validation ignored''"
definition RejectSelfOrigin :: string where "RejectSelfOrigin = ''self originated message''"

lemmas reject_defs = RejectBlacklstedPeer_def RejectBlacklistedSource_def RejectMissingSignature_def
  RejectUnexpectedSignature_def RejectUnexpectedAuthInfo_def RejectInvalidSignature_def
  RejectValidationQueueFull_def RejectValidationThrottled_def RejectValidationFailed_def
  RejectValidationIgnored_def RejectSelfOrigin_def

section \<open>Message identifiers\<close>

type_synonym MsgIdFunction = "pbMessage \<Rightarrow> message_id"

record msgIDGenerator =
  Default :: MsgIdFunction
  bitmaskGens :: "bitmask \<rightharpoonup> MsgIdFunction"

definition newMsgIdGenerator :: "MsgIdFunction \<Rightarrow> msgIDGenerator" where
  "newMsgIdGenerator DefaultMsgIdFn = \<lparr>Default = DefaultMsgIdFn, bitmaskGens = Map.empty\<rparr>"

definition idGen_Set :: "bitmask \<Rightarrow> MsgIdFunction \<Rightarrow> msgIDGenerator \<Rightarrow> msgIDGenerator" where
  "idGen_Set bm gen m = m\<lparr>bitmaskGens := (bitmaskGens m)(bm \<mapsto> gen)\<rparr>"

definition RawID :: "msgIDGenerator \<Rightarrow> pbMessage \<Rightarrow> message_id" where
  "RawID m msg = (case bitmaskGens m (MBitmask msg) of None \<Rightarrow> Default m msg | Some gen \<Rightarrow> gen msg)"

text \<open>The identifier and the message with the identifier cached in it.\<close>

definition idGen_ID :: "msgIDGenerator \<Rightarrow> Message \<Rightarrow> message_id \<times> Message" where
  "idGen_ID m msg = (if ID msg \<noteq> [] then (ID msg, msg)
     else let i = RawID m (pbm msg) in (i, msg\<lparr>ID := i\<rparr>))"

abbreviation mid_of :: "msgIDGenerator \<Rightarrow> Message \<Rightarrow> message_id" where
  "mid_of m msg \<equiv> fst (idGen_ID m msg)"

lemma idGen_ID_cached: "mid_of m (snd (idGen_ID m msg)) = mid_of m msg"
  by (auto simp: idGen_ID_def Let_def)

lemma idGen_ID_stable:
  assumes "mid_of m msg \<noteq> []"
  shows "mid_of (idGen_Set bm gen m) (snd (idGen_ID m msg)) = mid_of m msg"
  using assms by (auto simp: idGen_ID_def Let_def split: if_splits)

end
