(* ===== verification/Message_Cache.thy ===== *)
theory Message_Cache
  imports Pubsub_Types
begin

text \<open>
  The message cache of \<^verbatim>\<open>mcache.go\<close>: a window of history slots that \<^verbatim>\<open>Shift\<close> advances at every
  heartbeat. \<open>None\<close> is a Go panic (an index or slice bound out of range). The message
  identifier function returns the message with its identifier cached, as \<^verbatim>\<open>msgIDGenerator.ID\<close>
  does. The main result describes a message's whole life in the cache along any sequence of
  operations: for how many shifts it can be fetched and advertised, and how requests are counted.
\<close>

record CacheEntry =
  ce_mid :: message_id
  ce_bitmask :: bitmask

record MessageCache =
  msgs :: "message_id \<rightharpoonup> Message"
  peertx :: "message_id \<rightharpoonup> (peer_id \<rightharpoonup> nat)"
  history :: "CacheEntry list list"
  mc_gossip :: int
  msgID :: "Message \<Rightarrow> message_id \<times> Message"

definition NewMessageCache :: "int \<Rightarrow> int \<Rightarrow> (Message \<Rightarrow> message_id \<times> Message) \<Rightarrow> MessageCache option" where
  "NewMessageCache gossip hist DefaultMsgId =
     (if gossip > hist \<or> hist < 0 then None
      else Some \<lparr>msgs = Map.empty, peertx = Map.empty, history = replicate (nat hist) [],
                 mc_gossip = gossip, msgID = DefaultMsgId\<rparr>)"

definition SetMsgIdFn :: "(Message \<Rightarrow> message_id \<times> Message) \<Rightarrow> MessageCache \<Rightarrow> MessageCache" where
  "SetMsgIdFn f mc = mc\<lparr>msgID := f\<rparr>"

definition Put :: "Message \<Rightarrow> MessageCache \<Rightarrow> MessageCache option" where
  "Put m mc = (let (mid, msg) = msgID mc m in
     case history mc of [] \<Rightarrow> None
     | h0 # hs \<Rightarrow> Some (mc\<lparr>msgs := (msgs mc)(mid \<mapsto> msg),
         history := (h0 @ map (\<lambda>s. \<lparr>ce_mid = mid, ce_bitmask = s\<rparr>) (SliceBitmask (GetBitmask msg))) # hs\<rparr>))"

definition Get :: "message_id \<Rightarrow> MessageCache \<Rightarrow> Message option" where
  "Get mid mc = msgs mc mid"

definition GetForPeer :: "message_id \<Rightarrow> peer_id \<Rightarrow> MessageCache \<Rightarrow> (Message \<times> nat) option \<times> MessageCache" where
  "GetForPeer mid p mc = (case msgs mc mid of None \<Rightarrow> (None, mc)
     | Some m \<Rightarrow>
        let tx = (case peertx mc mid of None \<Rightarrow> Map.empty | Some tx \<Rightarrow> tx);
            n = (case tx p of None \<Rightarrow> 0 | Some n \<Rightarrow> n) + 1
        in (Some (m, n), mc\<lparr>peertx := (peertx mc)(mid \<mapsto> tx(p \<mapsto> n))\<rparr>))"

definition GetGossipIDs :: "bitmask \<Rightarrow> MessageCache \<Rightarrow> message_id list option" where
  "GetGossipIDs bm mc =
     (if mc_gossip mc < 0 \<or> mc_gossip mc > int (length (history mc)) then None
      else Some (map ce_mid (filter (\<lambda>e. ce_bitmask e = bm) (concat (take (nat (mc_gossip mc)) (history mc))))))"

definition Shift :: "MessageCache \<Rightarrow> MessageCache option" where
  "Shift mc = (if history mc = [] then None
     else let dead = set (map ce_mid (last (history mc))) in
       Some (mc\<lparr>msgs := (msgs mc) |` (- dead), peertx := (peertx mc) |` (- dead),
                history := [] # butlast (history mc)\<rparr>))"

section \<open>Runs of operations\<close>

datatype mc_op = OPut Message | OShift | OGetForPeer message_id peer_id

fun mc_apply :: "mc_op \<Rightarrow> MessageCache \<Rightarrow> MessageCache option" where
  "mc_apply (OPut m) mc = Put m mc"
| "mc_apply OShift mc = Shift mc"
| "mc_apply (OGetForPeer mid p) mc = Some (snd (GetForPeer mid p mc))"

fun mc_run :: "mc_op list \<Rightarrow> MessageCache \<Rightarrow> MessageCache option" where
  "mc_run [] mc = Some mc"
| "mc_run (x # xs) mc = Option.bind (mc_apply x mc) (mc_run xs)"

fun shifts :: "mc_op list \<Rightarrow> nat" where
  "shifts [] = 0"
| "shifts (OShift # xs) = Suc (shifts xs)"
| "shifts (_ # xs) = shifts xs"

definition puts :: "(Message \<Rightarrow> message_id \<times> Message) \<Rightarrow> message_id \<Rightarrow> mc_op list \<Rightarrow> bool" where
  "puts f mid xs \<longleftrightarrow> list_ex (\<lambda>x. case x of OPut m \<Rightarrow> fst (f m) = mid | _ \<Rightarrow> False) xs"

lemma puts_simps [simp]:
  "\<not> puts f mid []"
  "puts f mid (x # xs) \<longleftrightarrow> (case x of OPut m \<Rightarrow> fst (f m) = mid | _ \<Rightarrow> False) \<or> puts f mid xs"
  "puts f mid (xs @ ys) \<longleftrightarrow> puts f mid xs \<or> puts f mid ys"
  by (simp_all add: puts_def)

lemma mc_run_append: "mc_run (xs @ ys) mc = Option.bind (mc_run xs mc) (mc_run ys)"
  by (induction xs arbitrary: mc) (simp_all split: bind_splits)

text \<open>What a cache looks like for a message that is in slot \<open>k\<close> (or not in it, \<open>k\<close> past the end).\<close>

definition slot_entries :: "message_id \<Rightarrow> MessageCache \<Rightarrow> CacheEntry list list" where
  "slot_entries mid mc = map (filter (\<lambda>e. ce_mid e = mid)) (history mc)"

definition shape :: "MessageCache \<Rightarrow> nat \<times> int \<times> (Message \<Rightarrow> message_id \<times> Message)" where
  "shape mc = (length (history mc), mc_gossip mc, msgID mc)"

definition tx_count :: "message_id \<Rightarrow> MessageCache \<Rightarrow> peer_id \<Rightarrow> nat" where
  "tx_count mid mc p =
     (case peertx mc mid of None \<Rightarrow> 0 | Some t \<Rightarrow> (case t p of None \<Rightarrow> 0 | Some n \<Rightarrow> n))"

definition window :: "nat \<Rightarrow> message_id \<Rightarrow> Message \<Rightarrow> CacheEntry list \<Rightarrow> (peer_id \<Rightarrow> nat) \<Rightarrow> MessageCache \<Rightarrow> bool" where
  "window k mid m es tx mc \<longleftrightarrow>
     es \<noteq> [] \<and> slot_entries mid mc = (replicate (length (history mc)) [])[k := es] \<and>
     (if k < length (history mc) then msgs mc mid = Some m \<and> tx_count mid mc = tx
      else msgs mc mid = None \<and> peertx mc mid = None)"

definition absent :: "message_id \<Rightarrow> MessageCache \<Rightarrow> bool" where
  "absent mid mc \<longleftrightarrow> slot_entries mid mc = replicate (length (history mc)) []
     \<and> msgs mc mid = None \<and> peertx mc mid = None"

lemma mid_in_last:
  assumes "history mc \<noteq> []"
  shows "mid \<in> ce_mid ` set (last (history mc)) \<longleftrightarrow> last (slot_entries mid mc) \<noteq> []"
  using assms by (auto simp: slot_entries_def last_map filter_empty_conv)

lemma slot_entries_Shift:
  "Shift mc = Some mc' \<Longrightarrow> slot_entries mid mc' = [] # butlast (slot_entries mid mc)"
  by (auto simp: Shift_def Let_def slot_entries_def map_butlast split: if_splits)

lemma shift_slots:
  assumes "0 < n"
  shows "[] # butlast ((replicate n [])[k := es]) = (replicate n [])[Suc k := es]"
proof (rule nth_equalityI)
  fix i
  assume "i < length ([] # butlast ((replicate n [])[k := es]))"
  then show "([] # butlast ((replicate n [])[k := es])) ! i = (replicate n [])[Suc k := es] ! i"
    using assms by (cases i; cases "Suc k = i") (auto simp: nth_butlast)
qed (use assms in simp)

lemma last_slots: "0 < n \<Longrightarrow> last ((replicate n [])[k := es]) = (if Suc k = n then es else [])"
  by (auto simp: last_conv_nth nth_list_update)

lemma length_slot_entries [simp]: "length (slot_entries mid mc) = length (history mc)"
  by (simp add: slot_entries_def)

lemma mc_apply_shape: "mc_apply x mc = Some mc' \<Longrightarrow> shape mc' = shape mc"
  by (cases x) (auto simp: shape_def Put_def Shift_def GetForPeer_def Let_def
      split: prod.splits list.splits if_splits option.splits)

lemma shape_eqD:
  "shape mc' = shape mc \<Longrightarrow> length (history mc') = length (history mc) \<and> mc_gossip mc' = mc_gossip mc \<and> msgID mc' = msgID mc"
  by (simp add: shape_def)

lemma mc_apply_total: "history mc \<noteq> [] \<Longrightarrow> \<exists>mc'. mc_apply x mc = Some mc'"
  by (cases x) (auto simp: Put_def Shift_def Let_def split: prod.splits list.splits)

lemma slot_entries_Put:
  assumes "Put m mc = Some mc'"
  shows "slot_entries mid mc' = (if fst (msgID mc m) = mid
     then (slot_entries mid mc)[0 := slot_entries mid mc ! 0 @
        map (\<lambda>s. \<lparr>ce_mid = mid, ce_bitmask = s\<rparr>) (SliceBitmask (GetBitmask (snd (msgID mc m))))]
     else slot_entries mid mc)"
  using assms by (auto simp: Put_def Let_def slot_entries_def split: prod.splits list.splits)

lemma slot_entries_GetForPeer [simp]: "slot_entries mid (snd (GetForPeer i p mc)) = slot_entries mid mc"
  by (simp add: GetForPeer_def slot_entries_def Let_def split: option.splits)

lemma absent_apply:
  assumes "absent mid mc" "mc_apply x mc = Some mc'" "\<not> puts (msgID mc) mid [x]"
  shows "absent mid mc'"
proof (cases x)
  case (OPut m)
  with assms slot_entries_Put [of m mc mc' mid] show ?thesis
    by (auto simp: absent_def Put_def Let_def split: prod.splits list.splits)
next
  case OShift
  with assms have "history mc \<noteq> []" by (auto simp: Shift_def)
  then have "[] # butlast (replicate (length (history mc)) []) = replicate (length (history mc)) []"
    using shift_slots [of "length (history mc)" "length (history mc)" "[]"] by (simp add: list_update_beyond)
  with OShift assms slot_entries_Shift [of mc mc' mid] show ?thesis
    by (auto simp: absent_def Shift_def Let_def restrict_map_def split: if_splits)
next
  case (OGetForPeer i p)
  with assms show ?thesis
    by (auto simp: absent_def GetForPeer_def Let_def slot_entries_def split: option.splits)
qed

lemma tx_count_cong: "peertx mc' mid = peertx mc mid \<Longrightarrow> tx_count mid mc' = tx_count mid mc"
  by (simp add: tx_count_def fun_eq_iff)

lemma window_put:
  assumes "absent mid mc" "Put m mc = Some mc'" "fst (msgID mc m) = mid"
  shows "window 0 mid (snd (msgID mc m))
     (map (\<lambda>s. \<lparr>ce_mid = mid, ce_bitmask = s\<rparr>) (SliceBitmask (GetBitmask (snd (msgID mc m))))) (\<lambda>_. 0) mc'"
proof -
  have "history mc \<noteq> []" using assms(2) by (auto simp: Put_def Let_def split: prod.splits)
  moreover have "length (history mc') = length (history mc)"
    using mc_apply_shape [of "OPut m" mc mc'] assms(2) by (simp add: shape_def)
  moreover have "msgs mc' mid = Some (snd (msgID mc m))" "peertx mc' mid = None"
    using assms by (auto simp: Put_def Let_def absent_def split: prod.splits list.splits)
  ultimately show ?thesis
    using assms slot_entries_Put [OF assms(2), of mid]
    by (simp add: window_def absent_def SliceBitmask_nonempty tx_count_def fun_eq_iff)
qed

lemma window_shift:
  assumes w: "window k mid m es tx mc" and s: "Shift mc = Some mc'"
  shows "window (Suc k) mid m es tx mc'"
proof -
  let ?n = "length (history mc)"
  have n: "0 < ?n" and ne: "history mc \<noteq> []" using s by (auto simp: Shift_def)
  have len: "length (history mc') = ?n"
    using mc_apply_shape [of OShift mc mc'] s by (simp add: shape_def)
  have slots: "slot_entries mid mc' = (replicate ?n [])[Suc k := es]"
    using slot_entries_Shift [OF s, of mid] shift_slots [OF n] w by (simp add: window_def)
  have dead: "mid \<in> ce_mid ` set (last (history mc)) \<longleftrightarrow> Suc k = ?n"
    using mid_in_last [OF ne, of mid] last_slots [OF n, of k es] w by (simp add: window_def)
  have "msgs mc' mid = (if Suc k = ?n then None else msgs mc mid)"
    and "peertx mc' mid = (if Suc k = ?n then None else peertx mc mid)"
    using s dead by (auto simp: Shift_def Let_def restrict_map_def split: if_splits)
  with w len slots tx_count_cong [of mc' mid mc] show ?thesis by (auto simp: window_def)
qed

lemma window_other_put:
  assumes w: "window k mid m es tx mc" and s: "Put m' mc = Some mc'" and ne: "fst (msgID mc m') \<noteq> mid"
  shows "window k mid m es tx mc'"
proof -
  have "length (history mc') = length (history mc)"
    using mc_apply_shape [of "OPut m'" mc mc'] s by (simp add: shape_def)
  moreover have "msgs mc' mid = msgs mc mid" "peertx mc' mid = peertx mc mid"
    using s ne by (auto simp: Put_def Let_def split: prod.splits list.splits)
  ultimately show ?thesis using w slot_entries_Put [OF s, of mid] ne tx_count_cong [of mc' mid mc]
    by (simp add: window_def)
qed

lemma GetForPeer_frame [simp]:
  "msgs (snd (GetForPeer i p mc)) = msgs mc" "history (snd (GetForPeer i p mc)) = history mc"
  "msgs mc i = None \<Longrightarrow> GetForPeer i p mc = (None, mc)"
  by (simp_all add: GetForPeer_def Let_def split: option.splits)

lemma GetForPeer_found:
  assumes "msgs mc i = Some m"
  shows "fst (GetForPeer i p mc) = Some (m, Suc (tx_count i mc p))"
    and "tx_count mid (snd (GetForPeer i p mc)) =
      (if i = mid then (tx_count mid mc)(p := Suc (tx_count mid mc p)) else tx_count mid mc)"
  using assms by (auto simp: GetForPeer_def tx_count_def Let_def fun_eq_iff split: option.splits)

lemma window_request:
  assumes w: "window k mid m es tx mc"
  shows "window k mid m es (if i = mid then tx(p := Suc (tx p)) else tx) (snd (GetForPeer i p mc))"
proof (cases "msgs mc i")
  case None
  with w show ?thesis by (auto simp: window_def)
next
  case (Some x)
  moreover have "i \<noteq> mid \<Longrightarrow> peertx (snd (GetForPeer i p mc)) mid = peertx mc mid"
    using Some by (simp add: GetForPeer_def Let_def)
  ultimately show ?thesis
    using w GetForPeer_found(2) [OF Some, of mid p] by (auto simp: window_def)
qed

fun requests :: "message_id \<Rightarrow> peer_id \<Rightarrow> mc_op list \<Rightarrow> nat" where
  "requests mid p [] = 0"
| "requests mid p (OGetForPeer i q # xs) = (if i = mid \<and> q = p then 1 else 0) + requests mid p xs"
| "requests mid p (_ # xs) = requests mid p xs"

lemma window_run:
  assumes "window k mid m es tx mc" "\<not> puts (msgID mc) mid xs" "history mc \<noteq> []"
  shows "\<exists>mc'. mc_run xs mc = Some mc' \<and> shape mc' = shape mc
     \<and> window (k + shifts xs) mid m es (\<lambda>p. tx p + requests mid p xs) mc'"
  using assms
proof (induction xs arbitrary: mc k tx)
  case (Cons x xs)
  obtain mc1 where a: "mc_apply x mc = Some mc1" using mc_apply_total [OF Cons.prems(3)] ..
  note sh = mc_apply_shape [OF a]
  have h1: "history mc1 \<noteq> []" using shape_eqD [OF sh] Cons.prems(3) by auto
  have np: "\<not> puts (msgID mc) mid [x]" "\<not> puts (msgID mc1) mid xs"
    using shape_eqD [OF sh] Cons.prems(2) by auto
  obtain k' tx' where w: "window k' mid m es tx' mc1" and k': "k' + shifts xs = k + shifts (x # xs)"
    and tx': "\<And>p. tx' p + requests mid p xs = tx p + requests mid p (x # xs)"
  proof (cases x)
    case (OPut m')
    with a np(1) have "window k mid m es tx mc1" by (intro window_other_put [OF Cons.prems(1)]) simp_all
    then show thesis by (rule that) (simp_all add: OPut)
  next
    case OShift
    with a have "window (Suc k) mid m es tx mc1" by (intro window_shift [OF Cons.prems(1)]) simp
    then show thesis by (rule that) (simp_all add: OShift)
  next
    case (OGetForPeer i p)
    with a window_request [OF Cons.prems(1), of i p]
    have "window k mid m es (if i = mid then tx(p := Suc (tx p)) else tx) mc1" by simp
    then show thesis by (rule that) (simp_all add: OGetForPeer)
  qed
  from Cons.IH [OF w np(2) h1] obtain mc' where
    "mc_run xs mc1 = Some mc'" "shape mc' = shape mc1"
    "window (k' + shifts xs) mid m es (\<lambda>p. tx' p + requests mid p xs) mc'" by blast
  then show ?case using a sh unfolding k' tx' by simp
qed simp

lemma absent_run:
  assumes "absent mid mc" "\<not> puts (msgID mc) mid xs" "history mc \<noteq> []"
  shows "\<exists>mc'. mc_run xs mc = Some mc' \<and> shape mc' = shape mc \<and> absent mid mc'"
  using assms
proof (induction xs arbitrary: mc)
  case (Cons x xs)
  obtain mc1 where a: "mc_apply x mc = Some mc1" using mc_apply_total [OF Cons.prems(3)] ..
  note sh = mc_apply_shape [OF a]
  have h1: "history mc1 \<noteq> []" using shape_eqD [OF sh] Cons.prems(3) by auto
  have np: "\<not> puts (msgID mc) mid [x]" "\<not> puts (msgID mc1) mid xs"
    using shape_eqD [OF sh] Cons.prems(2) by auto
  from Cons.IH [OF absent_apply [OF Cons.prems(1) a np(1)] np(2) h1] show ?case using a sh by simp
qed simp

lemma concat_take_slots:
  "concat (take g ((replicate n [])[k := es])) = (if k < g \<and> k < n then es else [])"
proof (induction n arbitrary: k g)
  case (Suc n)
  then show ?case by (cases k; cases g) auto
qed simp

lemma window_gossip:
  assumes w: "window k mid m (map (\<lambda>s. \<lparr>ce_mid = mid, ce_bitmask = s\<rparr>) ss) tx mc"
    and ss: "distinct ss" and g: "0 \<le> mc_gossip mc" "mc_gossip mc \<le> int (length (history mc))"
  shows "\<exists>ids. GetGossipIDs bm mc = Some ids
     \<and> filter (\<lambda>i. i = mid) ids = (if int k < mc_gossip mc \<and> bm \<in> set ss then [mid] else [])"
proof -
  let ?g = "nat (mc_gossip mc)"
  let ?es = "map (\<lambda>s. \<lparr>ce_mid = mid, ce_bitmask = s\<rparr>) ss"
  have slots: "slot_entries mid mc = (replicate (length (history mc)) [])[k := ?es]"
    using w by (simp add: window_def)
  have "filter (\<lambda>e. ce_mid e = mid) (concat (take ?g (history mc))) = concat (take ?g (slot_entries mid mc))"
    by (simp add: slot_entries_def filter_concat take_map)
  also have "\<dots> = (if int k < mc_gossip mc then ?es else [])"
    unfolding slots concat_take_slots using g by auto
  finally have "filter (\<lambda>e. ce_bitmask e = bm) (filter (\<lambda>e. ce_mid e = mid) (concat (take ?g (history mc))))
      = (if int k < mc_gossip mc then filter (\<lambda>e. ce_bitmask e = bm) ?es else [])" by simp
  moreover have "filter (\<lambda>e. ce_bitmask e = bm) ?es = (if bm \<in> set ss then [\<lparr>ce_mid = mid, ce_bitmask = bm\<rparr>] else [])"
    using ss by (induction ss) auto
  moreover have "filter (\<lambda>i. i = mid) (map ce_mid (filter (\<lambda>e. ce_bitmask e = bm) es))
      = map ce_mid (filter (\<lambda>e. ce_bitmask e = bm) (filter (\<lambda>e. ce_mid e = mid) es))"
    for es :: "CacheEntry list"
    by (induction es) auto
  ultimately have "filter (\<lambda>i. i = mid) (map ce_mid (filter (\<lambda>e. ce_bitmask e = bm) (concat (take ?g (history mc)))))
      = map ce_mid (if int k < mc_gossip mc then if bm \<in> set ss then [\<lparr>ce_mid = mid, ce_bitmask = bm\<rparr>] else [] else [])"
    by (simp only:)
  then show ?thesis using g by (auto simp: GetGossipIDs_def)
qed

lemma absent_new:
  "NewMessageCache g h f = Some mc \<Longrightarrow> absent mid mc \<and> shape mc = (nat h, g, f) \<and> g \<le> h \<and> 0 \<le> h"
  by (auto simp: NewMessageCache_def absent_def shape_def slot_entries_def split: if_splits)

lemma message_life:
  fixes mid m' k
  assumes new: "NewMessageCache g h f = Some mc0" and "0 \<le> g" "0 < h"
    and once: "\<not> puts f (fst (f m)) (pre @ post)"
  defines "mid \<equiv> fst (f m)" and "m' \<equiv> snd (f m)" and "k \<equiv> int (shifts post)"
  shows "\<exists>mc. mc_run (pre @ OPut m # post) mc0 = Some mc
    \<and> Get mid mc = (if k < h then Some m' else None)
    \<and> fst (GetForPeer mid p mc) = (if k < h then Some (m', Suc (requests mid p post)) else None)
    \<and> (\<exists>ids. GetGossipIDs bm mc = Some ids \<and>
         filter (\<lambda>i. i = mid) ids = (if k < g \<and> bm \<in> set (SliceBitmask (GetBitmask m')) then [mid] else []))"
proof -
  have n: "absent mid mc0" "shape mc0 = (nat h, g, f)" "g \<le> h" using absent_new [OF new] by blast+
  then have "history mc0 \<noteq> []" "msgID mc0 = f" using assms(3) by (auto simp: shape_def)
  then obtain mc1 where 1: "mc_run pre mc0 = Some mc1" "shape mc1 = shape mc0" "absent mid mc1"
    using absent_run [OF n(1), of pre] once by (auto simp: mid_def)
  with n(2) assms(3) have h1: "history mc1 \<noteq> []" "msgID mc1 = f" by (auto simp: shape_def)
  then obtain mc2 where 2: "Put m mc1 = Some mc2" using mc_apply_total [of mc1 "OPut m"] by auto
  have sh2: "shape mc2 = shape mc1" using mc_apply_shape [of "OPut m"] 2 by simp
  let ?es = "map (\<lambda>s. \<lparr>ce_mid = mid, ce_bitmask = s\<rparr>) (SliceBitmask (GetBitmask m'))"
  have w2: "window 0 mid m' ?es (\<lambda>_. 0) mc2"
    using window_put [OF 1(3) 2] h1(2) by (simp add: mid_def m'_def)
  have h2: "history mc2 \<noteq> []" "msgID mc2 = f" using sh2 h1 by (auto simp: shape_def)
  obtain mc where 3: "mc_run post mc2 = Some mc" "shape mc = shape mc2"
    and w: "window (shifts post) mid m' ?es (\<lambda>p. requests mid p post) mc"
    using window_run [OF w2 _ h2(1), of post] once h2(2) by (auto simp: mid_def)
  have sh: "length (history mc) = nat h" "mc_gossip mc = g"
    using 3(2) sh2 1(2) n(2) by (simp_all add: shape_def)
  have run: "mc_run (pre @ OPut m # post) mc0 = Some mc" using 1 2 3 by (simp add: mc_run_append)
  have get: "Get mid mc = (if k < h then Some m' else None)"
    using w sh assms(3) by (auto simp: window_def Get_def k_def)
  have tx: "k < h \<Longrightarrow> tx_count mid mc p = requests mid p post"
    using w sh by (auto simp: window_def k_def)
  have "fst (GetForPeer mid p mc) = (if k < h then Some (m', Suc (requests mid p post)) else None)"
    using get tx GetForPeer_found(1) [of mc mid m' p] by (auto simp: Get_def)
  with run get window_gossip [OF w distinct_SliceBitmask, of bm] show ?thesis
    using sh n(3) assms(2) by (auto simp: k_def)
qed

text \<open>
  C21. The sliding window of the message cache: whatever sequence of \<^verbatim>\<open>Put\<close>, \<^verbatim>\<open>Shift\<close> and
  \<^verbatim>\<open>GetForPeer\<close> calls surrounds the single \<^verbatim>\<open>Put\<close> of a message, no call panics; the message
  can be fetched as long as fewer than \<^verbatim>\<open>history\<close> shifts followed and never afterwards; it is
  advertised exactly once for each slice of its bitmask as long as fewer than \<^verbatim>\<open>gossip\<close> shifts
  followed; and the transmission count returned to a peer is one more than that peer's
  earlier requests.
\<close>
theorem message_cache_sliding_window:
  assumes "NewMessageCache g h f = Some mc0" and "0 \<le> g" "0 < h"
    and "\<not> puts f (fst (f m)) (pre @ post)"
  shows "\<exists>mc. mc_run (pre @ OPut m # post) mc0 = Some mc
    \<and> Get (fst (f m)) mc = (if int (shifts post) < h then Some (snd (f m)) else None)
    \<and> fst (GetForPeer (fst (f m)) p mc) =
        (if int (shifts post) < h then Some (snd (f m), Suc (requests (fst (f m)) p post)) else None)
    \<and> (\<exists>ids. GetGossipIDs bm mc = Some ids \<and> filter (\<lambda>i. i = fst (f m)) ids =
        (if int (shifts post) < g \<and> bm \<in> set (SliceBitmask (GetBitmask (snd (f m)))) then [fst (f m)] else []))"
  using assms by (rule message_life)

definition demo_message :: "bytes \<Rightarrow> Message" where
  "demo_message d = \<lparr>pbm = \<lparr>From = Some [1], Data = d, Seqno = None, MBitmask = [1], Signature = None, Key = None\<rparr>,
     ID = [], ReceivedFrom = ''a'', Local = False\<rparr>"

theorem message_cache_sliding_window_witness:
  "\<exists>mc0 mc. NewMessageCache 1 2 (\<lambda>m. (Data (pbm m), m)) = Some mc0
    \<and> mc_run [OPut (demo_message [7]), OShift, OGetForPeer [7] ''b''] mc0 = Some mc
    \<and> Get [7] mc = Some (demo_message [7])
    \<and> fst (GetForPeer [7] ''b'' mc) = Some (demo_message [7], 2)
    \<and> (\<exists>ids. GetGossipIDs [1] mc = Some ids \<and> filter (\<lambda>i. i = [7]) ids = [])"
proof -
  obtain mc0 where "NewMessageCache 1 2 (\<lambda>m. (Data (pbm m), m)) = Some mc0"
    by (simp add: NewMessageCache_def)
  then show ?thesis
    using message_cache_sliding_window [of 1 2 "\<lambda>m. (Data (pbm m), m)" mc0 "demo_message [7]" "[]"
        "[OShift, OGetForPeer [7] ''b'']" "''b''" "[1]"]
    by (simp add: demo_message_def numeral_2_eq_2)
qed

end
