(* ===== verification/Time_Cache.thy ===== *)
theory Time_Cache
  imports Prelude
begin

text \<open>
  The time caches of \<^verbatim>\<open>timecache/\<close> and the blacklists of \<^verbatim>\<open>blacklist.go\<close> that use them. The two
  strategies are two implementations of the interface \<^verbatim>\<open>TimeCache\<close>; the locale \<open>time_cache\<close> states
  what the interface promises, with \<open>touch\<close> the strategy's rule for an entry that is added or
  looked up again, and carries the lemmas on sequences of calls that clients need. The clock
  reading of a call is its argument; a mutex makes every call atomic. \<^verbatim>\<open>Done\<close> only stops the
  goroutine that calls \<^verbatim>\<open>sweep\<close> once a minute.
\<close>

record FirstSeenCache =
  fs_m :: "string \<rightharpoonup> time"
  fs_ttl :: int

record LastSeenCache =
  ls_m :: "string \<rightharpoonup> time"
  ls_ttl :: int

definition sweep :: "(string \<rightharpoonup> time) \<Rightarrow> time \<Rightarrow> (string \<rightharpoonup> time)" where
  "sweep m now = (\<lambda>k. case m k of None \<Rightarrow> None | Some expiry \<Rightarrow> if expiry < now then None else Some expiry)"

definition newFirstSeenCache :: "int \<Rightarrow> FirstSeenCache" where
  "newFirstSeenCache ttl = \<lparr>fs_m = Map.empty, fs_ttl = ttl\<rparr>"

definition FirstSeen_Has :: "string \<Rightarrow> time \<Rightarrow> FirstSeenCache \<Rightarrow> bool \<times> FirstSeenCache" where
  "FirstSeen_Has s now tc = (fs_m tc s \<noteq> None, tc)"

definition FirstSeen_Add :: "string \<Rightarrow> time \<Rightarrow> FirstSeenCache \<Rightarrow> bool \<times> FirstSeenCache" where
  "FirstSeen_Add s now tc = (if fs_m tc s \<noteq> None then (False, tc)
     else (True, tc\<lparr>fs_m := (fs_m tc)(s \<mapsto> now + fs_ttl tc)\<rparr>))"

definition newLastSeenCache :: "int \<Rightarrow> LastSeenCache" where
  "newLastSeenCache ttl = \<lparr>ls_m = Map.empty, ls_ttl = ttl\<rparr>"

definition LastSeen_Add :: "string \<Rightarrow> time \<Rightarrow> LastSeenCache \<Rightarrow> bool \<times> LastSeenCache" where
  "LastSeen_Add s now tc = (let ok = ls_m tc s \<noteq> None in
     (\<not> ok, tc\<lparr>ls_m := (ls_m tc)(s \<mapsto> now + ls_ttl tc)\<rparr>))"

definition LastSeen_Has :: "string \<Rightarrow> time \<Rightarrow> LastSeenCache \<Rightarrow> bool \<times> LastSeenCache" where
  "LastSeen_Has s now tc = (let ok = ls_m tc s \<noteq> None in
     (ok, if ok then tc\<lparr>ls_m := (ls_m tc)(s \<mapsto> now + ls_ttl tc)\<rparr> else tc))"

type_synonym Strategy = "8 word"

definition Strategy_FirstSeen :: Strategy where "Strategy_FirstSeen = 0"
definition Strategy_LastSeen :: Strategy where "Strategy_LastSeen = 1"

datatype TimeCache = FirstSeen FirstSeenCache | LastSeen LastSeenCache

definition NewTimeCacheWithStrategy :: "Strategy \<Rightarrow> int \<Rightarrow> TimeCache" where
  "NewTimeCacheWithStrategy strategy ttl =
     (if strategy = Strategy_FirstSeen then FirstSeen (newFirstSeenCache ttl)
      else if strategy = Strategy_LastSeen then LastSeen (newLastSeenCache ttl)
      else FirstSeen (newFirstSeenCache ttl))"

definition NewTimeCache :: "int \<Rightarrow> TimeCache" where
  "NewTimeCache ttl = NewTimeCacheWithStrategy Strategy_FirstSeen ttl"

text \<open>Dynamic dispatch through the interface.\<close>

fun tc_Add :: "string \<Rightarrow> time \<Rightarrow> TimeCache \<Rightarrow> bool \<times> TimeCache" where
  "tc_Add s now (FirstSeen c) = map_prod id FirstSeen (FirstSeen_Add s now c)"
| "tc_Add s now (LastSeen c) = map_prod id LastSeen (LastSeen_Add s now c)"

fun tc_Has :: "string \<Rightarrow> time \<Rightarrow> TimeCache \<Rightarrow> bool \<times> TimeCache" where
  "tc_Has s now (FirstSeen c) = map_prod id FirstSeen (FirstSeen_Has s now c)"
| "tc_Has s now (LastSeen c) = map_prod id LastSeen (LastSeen_Has s now c)"

fun tc_sweep :: "time \<Rightarrow> TimeCache \<Rightarrow> TimeCache" where
  "tc_sweep now (FirstSeen c) = FirstSeen (c\<lparr>fs_m := sweep (fs_m c) now\<rparr>)"
| "tc_sweep now (LastSeen c) = LastSeen (c\<lparr>ls_m := sweep (ls_m c) now\<rparr>)"

fun tc_expiry :: "TimeCache \<Rightarrow> string \<rightharpoonup> time" where
  "tc_expiry (FirstSeen c) = fs_m c"
| "tc_expiry (LastSeen c) = ls_m c"

fun tc_ttl :: "TimeCache \<Rightarrow> int" where
  "tc_ttl (FirstSeen c) = fs_ttl c"
| "tc_ttl (LastSeen c) = ls_ttl c"

fun tc_touch :: "TimeCache \<Rightarrow> time \<Rightarrow> time \<Rightarrow> time" where
  "tc_touch (FirstSeen c) old new = old"
| "tc_touch (LastSeen c) old new = new"

section \<open>The interface\<close>

datatype tc_op = TAdd string time | THas string time | TSweep time

locale time_cache =
  fixes add :: "string \<Rightarrow> time \<Rightarrow> 'c \<Rightarrow> bool \<times> 'c"
    and has :: "string \<Rightarrow> time \<Rightarrow> 'c \<Rightarrow> bool \<times> 'c"
    and swp :: "time \<Rightarrow> 'c \<Rightarrow> 'c"
    and expiry :: "'c \<Rightarrow> string \<rightharpoonup> time"
    and ttl :: "'c \<Rightarrow> int"
    and touch :: "'c \<Rightarrow> time \<Rightarrow> time \<Rightarrow> time"
  assumes add_result: "fst (add k t c) \<longleftrightarrow> expiry c k = None"
    and has_result: "fst (has k t c) \<longleftrightarrow> expiry c k \<noteq> None"
    and add_expiry: "expiry (snd (add k t c)) =
      (expiry c)(k \<mapsto> (case expiry c k of None \<Rightarrow> t + ttl c | Some e \<Rightarrow> touch c e (t + ttl c)))"
    and has_expiry: "expiry (snd (has k t c)) =
      (expiry c)(k := map_option (\<lambda>e. touch c e (t + ttl c)) (expiry c k))"
    and sweep_expiry: "expiry (swp t c) = sweep (expiry c) t"
    and ttl_keep: "ttl (snd (add k t c)) = ttl c" "ttl (snd (has k t c)) = ttl c" "ttl (swp t c) = ttl c"
    and touch_bound: "min e n \<le> touch c e n"
begin

fun step :: "tc_op \<Rightarrow> 'c \<Rightarrow> 'c" where
  "step (TAdd k t) c = snd (add k t c)"
| "step (THas k t) c = snd (has k t c)"
| "step (TSweep t) c = swp t c"

definition run :: "tc_op list \<Rightarrow> 'c \<Rightarrow> 'c" where
  "run ops c = fold step ops c"

lemma run_simps [simp]: "run [] c = c" "run (x # xs) c = run xs (step x c)"
  by (simp_all add: run_def)

lemma ttl_step [simp]: "ttl (step x c) = ttl c"
  by (cases x) (simp_all add: ttl_keep)

lemma ttl_run [simp]: "ttl (run xs c) = ttl c"
  by (induction xs arbitrary: c) simp_all

definition in_window :: "time \<Rightarrow> time \<Rightarrow> tc_op \<Rightarrow> bool" where
  "in_window since d x = (case x of TAdd k t \<Rightarrow> since \<le> t | THas k t \<Rightarrow> since \<le> t | TSweep t \<Rightarrow> t \<le> since + d)"

definition mentions :: "string \<Rightarrow> tc_op \<Rightarrow> bool" where
  "mentions k x = (case x of TAdd j t \<Rightarrow> j = k | THas j t \<Rightarrow> j = k | TSweep t \<Rightarrow> False)"

definition sweep_after :: "time \<Rightarrow> tc_op \<Rightarrow> bool" where
  "sweep_after e x = (case x of TSweep t \<Rightarrow> e < t | _ \<Rightarrow> False)"

lemma retained_step:
  assumes "expiry c k = Some e" "since + ttl c \<le> e" "in_window since (ttl c) x"
  shows "\<exists>e'. expiry (step x c) k = Some e' \<and> since + ttl c \<le> e'"
proof -
  have m: "since + ttl c \<le> touch c e (t + ttl c)" if "since \<le> t" for t
    using touch_bound [of e "t + ttl c" c] assms(2) that by linarith
  show ?thesis
    using assms m by (cases x) (auto simp: add_expiry has_expiry sweep_expiry sweep_def in_window_def)
qed

lemma retained:
  assumes "expiry c k = Some e" "since + ttl c \<le> e" "list_all (in_window since (ttl c)) xs"
  shows "expiry (run xs c) k \<noteq> None"
  using assms
proof (induction xs arbitrary: c e)
  case (Cons x xs)
  then obtain e' where "expiry (step x c) k = Some e'" "since + ttl c \<le> e'"
    using retained_step [of c k e since x] by auto
  with Cons.IH [of "step x c" e'] Cons.prems show ?case by simp
qed simp

lemma untouched:
  assumes "\<not> list_ex (mentions k) xs"
  shows "expiry (run xs c) k = (case expiry c k of None \<Rightarrow> None
     | Some e \<Rightarrow> if list_ex (sweep_after e) xs then None else Some e)"
  using assms
proof (induction xs arbitrary: c)
  case (Cons x xs)
  then have "expiry (step x c) k = (case expiry c k of None \<Rightarrow> None
     | Some e \<Rightarrow> if sweep_after e x then None else Some e)"
    by (cases x) (auto simp: add_expiry has_expiry sweep_expiry sweep_def mentions_def sweep_after_def split: option.splits)
  with Cons show ?case by (simp split: option.splits)
qed (simp split: option.splits)

lemma added: "\<exists>e. expiry (snd (add k t c)) k = Some e \<and> (fst (add k t c) \<longrightarrow> e = t + ttl c)"
  by (auto simp: add_expiry add_result split: option.splits)

lemma no_duplicate_in_window:
  assumes "fst (add k since c)" "list_all (in_window since (ttl c)) xs"
  shows "fst (has k t (run xs (snd (add k since c)))) \<and> \<not> fst (add k t (run xs (snd (add k since c))))"
proof -
  have "expiry (snd (add k since c)) k = Some (since + ttl c)" using added [of k since c] assms(1) by auto
  then have "expiry (run xs (snd (add k since c))) k \<noteq> None"
    using assms(2) retained [of "snd (add k since c)" k "since + ttl c" since xs] by (simp add: ttl_keep)
  then show ?thesis by (simp add: add_result has_result)
qed

lemma expires_untouched:
  assumes "fst (add k since c)" "\<not> list_ex (mentions k) xs"
  shows "fst (has k t (run xs (snd (add k since c)))) \<longleftrightarrow> \<not> list_ex (sweep_after (since + ttl c)) xs"
proof -
  have "expiry (snd (add k since c)) k = Some (since + ttl c)" using added [of k since c] assms(1) by auto
  then show ?thesis using untouched [OF assms(2)] by (simp add: has_result)
qed

end

interpretation first_seen: time_cache FirstSeen_Add FirstSeen_Has "\<lambda>t c. c\<lparr>fs_m := sweep (fs_m c) t\<rparr>" fs_m fs_ttl "\<lambda>c old new. old"
  by unfold_locales (auto simp: FirstSeen_Add_def FirstSeen_Has_def fun_eq_iff option.map_ident split: option.splits)

interpretation last_seen: time_cache LastSeen_Add LastSeen_Has "\<lambda>t c. c\<lparr>ls_m := sweep (ls_m c) t\<rparr>" ls_m ls_ttl "\<lambda>c old new. new"
  by unfold_locales (auto simp: LastSeen_Add_def LastSeen_Has_def Let_def fun_eq_iff split: option.splits)

interpretation any_cache: time_cache tc_Add tc_Has tc_sweep tc_expiry tc_ttl tc_touch
proof
  fix k t c e n
  show "fst (tc_Add k t c) \<longleftrightarrow> tc_expiry c k = None"
    by (cases c) (simp_all add: first_seen.add_result last_seen.add_result)
  show "fst (tc_Has k t c) \<longleftrightarrow> tc_expiry c k \<noteq> None"
    by (cases c) (simp_all add: first_seen.has_result last_seen.has_result)
  show "tc_expiry (snd (tc_Add k t c)) = (tc_expiry c)(k \<mapsto>
      (case tc_expiry c k of None \<Rightarrow> t + tc_ttl c | Some e \<Rightarrow> tc_touch c e (t + tc_ttl c)))"
    by (cases c) (simp_all add: first_seen.add_expiry last_seen.add_expiry split: option.split)
  show "tc_expiry (snd (tc_Has k t c)) =
      (tc_expiry c)(k := map_option (\<lambda>e. tc_touch c e (t + tc_ttl c)) (tc_expiry c k))"
    by (cases c) (simp_all add: first_seen.has_expiry last_seen.has_expiry)
  show "tc_expiry (tc_sweep t c) = sweep (tc_expiry c) t" by (cases c) simp_all
  show "tc_ttl (snd (tc_Add k t c)) = tc_ttl c"
    by (cases c) (simp_all add: first_seen.ttl_keep last_seen.ttl_keep)
  show "tc_ttl (snd (tc_Has k t c)) = tc_ttl c"
    by (cases c) (simp_all add: first_seen.ttl_keep last_seen.ttl_keep)
  show "tc_ttl (tc_sweep t c) = tc_ttl c" by (cases c) simp_all
  show "min e n \<le> tc_touch c e n" by (cases c) simp_all
qed

text \<open>
  C27. Both time caches, through the interface: an identifier that \<^verbatim>\<open>Add\<close> reported as new is
  reported as seen by every later \<^verbatim>\<open>Has\<close> and \<^verbatim>\<open>Add\<close>, whatever calls happen in between, as long
  as no sweep ran later than one time-to-live after it was added; and if it is not touched
  again, it is forgotten exactly when such a later sweep has run.
\<close>
theorem time_cache_window:
  assumes "fst (tc_Add k since c)"
  shows "(list_all (any_cache.in_window since (tc_ttl c)) xs \<longrightarrow>
       fst (tc_Has k t (any_cache.run xs (snd (tc_Add k since c))))
       \<and> \<not> fst (tc_Add k t (any_cache.run xs (snd (tc_Add k since c)))))
    \<and> (list_ex (any_cache.mentions k) xs \<or>
       fst (tc_Has k t (any_cache.run xs (snd (tc_Add k since c)))) = (\<not> list_ex (any_cache.sweep_after (since + tc_ttl c)) xs))"
  using any_cache.no_duplicate_in_window [OF assms, of xs t] any_cache.expires_untouched [OF assms, of xs t] by blast

theorem time_cache_window_witness:
  "fst (tc_Has ''x'' 25 (any_cache.run [THas ''x'' 9, TSweep 10] (snd (tc_Add ''x'' 0 (NewTimeCacheWithStrategy Strategy_LastSeen 10)))))
   \<and> \<not> fst (tc_Has ''x'' 25 (any_cache.run [TSweep 11] (snd (tc_Add ''x'' 0 (NewTimeCache 10)))))"
proof -
  have 1: "fst (tc_Add ''x'' 0 (NewTimeCacheWithStrategy Strategy_LastSeen 10))"
    and 2: "fst (tc_Add ''x'' 0 (NewTimeCache 10))"
    by (simp_all add: NewTimeCache_def NewTimeCacheWithStrategy_def Strategy_FirstSeen_def Strategy_LastSeen_def newFirstSeenCache_def newLastSeenCache_def
        FirstSeen_Add_def LastSeen_Add_def)
  have 3: "tc_ttl (NewTimeCacheWithStrategy Strategy_LastSeen 10) = 10" "tc_ttl (NewTimeCache 10) = 10"
    by (simp_all add: NewTimeCache_def NewTimeCacheWithStrategy_def Strategy_FirstSeen_def Strategy_LastSeen_def newFirstSeenCache_def newLastSeenCache_def)
  show ?thesis
    using time_cache_window [OF 1, of "[THas ''x'' 9, TSweep 10]" 25] time_cache_window [OF 2, of "[TSweep 11]" 25]
    by (simp add: 3 any_cache.in_window_def any_cache.mentions_def any_cache.sweep_after_def)
qed

section \<open>Blacklists\<close>

definition NewMapBlacklist :: "peer_id set" where
  "NewMapBlacklist = {}"

definition MapBlacklist_Add :: "peer_id \<Rightarrow> peer_id set \<Rightarrow> bool \<times> peer_id set" where
  "MapBlacklist_Add p b = (True, insert p b)"

definition MapBlacklist_Contains :: "peer_id \<Rightarrow> peer_id set \<Rightarrow> bool" where
  "MapBlacklist_Contains p b \<longleftrightarrow> p \<in> b"

text \<open>\<open>pstr\<close> is \<^verbatim>\<open>peer.ID.String\<close>, the base58 form of the identifier.\<close>

definition NewTimeCachedBlacklist :: "int \<Rightarrow> TimeCache" where
  "NewTimeCachedBlacklist expiry = NewTimeCache expiry"

definition TimeCachedBlacklist_Add :: "(peer_id \<Rightarrow> string) \<Rightarrow> peer_id \<Rightarrow> time \<Rightarrow> TimeCache \<Rightarrow> bool \<times> TimeCache" where
  "TimeCachedBlacklist_Add pstr p now tc = (let (h, tc) = tc_Has (pstr p) now tc in
     if h then (False, tc) else (True, snd (tc_Add (pstr p) now tc)))"

definition TimeCachedBlacklist_Contains :: "(peer_id \<Rightarrow> string) \<Rightarrow> peer_id \<Rightarrow> time \<Rightarrow> TimeCache \<Rightarrow> bool \<times> TimeCache" where
  "TimeCachedBlacklist_Contains pstr p now tc = tc_Has (pstr p) now tc"

lemma tc_Has_absent: "\<not> fst (tc_Has k t c) \<Longrightarrow> snd (tc_Has k t c) = c"
  by (cases c) (simp_all add: FirstSeen_Has_def LastSeen_Has_def Let_def)

lemma TimeCachedBlacklist_Add_alt:
  "TimeCachedBlacklist_Add pstr p now tc =
     (if fst (tc_Has (pstr p) now tc) then (False, snd (tc_Has (pstr p) now tc))
      else tc_Add (pstr p) now tc)"
proof -
  have "fst (tc_Add k t c)" if "\<not> fst (tc_Has k t c)" for k t c
    using that by (simp add: any_cache.add_result any_cache.has_result)
  then show ?thesis
    by (auto simp: TimeCachedBlacklist_Add_def tc_Has_absent prod_eq_iff split: prod.splits)
qed

lemma blacklisted_in_window:
  assumes "fst (TimeCachedBlacklist_Add pstr p since c)" "list_all (any_cache.in_window since (tc_ttl c)) xs"
  shows "fst (TimeCachedBlacklist_Contains pstr p t (any_cache.run xs (snd (TimeCachedBlacklist_Add pstr p since c))))"
proof -
  have "TimeCachedBlacklist_Add pstr p since c = tc_Add (pstr p) since c"
    using assms(1) by (auto simp: TimeCachedBlacklist_Add_alt split: if_splits)
  with assms any_cache.no_duplicate_in_window show ?thesis by (simp add: TimeCachedBlacklist_Contains_def)
qed

end
