(* ===== verification/Backoff.thy ===== *)
theory Backoff
  imports Prelude
begin

text \<open>
  The connection backoff of \<^verbatim>\<open>backoff.go\<close>. Durations are nanoseconds; the two clock readings
  of \<^verbatim>\<open>updateAndGet\<close> and its random jitter are arguments. The results: what every call returns,
  the escalation of the delay along the calls of one peer up to the attempt limit, and that the
  periodic cleanup cannot be observed through later calls.
\<close>

definition MinBackoffDelay :: int where "MinBackoffDelay = 100 * Millisecond"
definition MaxBackoffDelay :: int where "MaxBackoffDelay = 10 * Second"
definition TimeToLive :: int where "TimeToLive = 10 * Minute"
definition BackoffMultiplier :: int where "BackoffMultiplier = 2"
definition MaxBackoffJitterCoff :: int where "MaxBackoffJitterCoff = 100"
definition MaxBackoffAttempts :: int where "MaxBackoffAttempts = 4"

lemmas backoff_consts = Millisecond_def Second_def Minute_def MinBackoffDelay_def MaxBackoffDelay_def
  TimeToLive_def BackoffMultiplier_def MaxBackoffJitterCoff_def MaxBackoffAttempts_def

record backoffHistory =
  duration :: int
  lastTried :: time
  attempts :: int

record backoff =
  info :: "peer_id \<rightharpoonup> backoffHistory"
  ct :: int
  ci :: int
  maxAttempts :: int

datatype backoff_error = ErrMaxAttempts peer_id

definition newBackoff :: "int \<Rightarrow> int \<Rightarrow> int \<Rightarrow> backoff" where
  "newBackoff sizeThreshold cleanupInterval maxA =
     \<lparr>info = Map.empty, ct = sizeThreshold, ci = cleanupInterval, maxAttempts = maxA\<rparr>"

definition next_duration :: "int \<Rightarrow> int \<Rightarrow> int" where
  "next_duration d jitter =
     (if d < MinBackoffDelay then MinBackoffDelay
      else if d < MaxBackoffDelay then
        let d' = wrap64 (BackoffMultiplier * d + jitter * Millisecond) in
        if d' > MaxBackoffDelay \<or> d' < 0 then MaxBackoffDelay else d'
      else d)"

definition record_try :: "peer_id \<Rightarrow> backoffHistory \<Rightarrow> time \<Rightarrow> backoff \<Rightarrow> (backoff_error + int) \<times> backoff" where
  "record_try p h now b =
     (Inr (duration h), b\<lparr>info := (info b)(p \<mapsto> h\<lparr>attempts := attempts h + 1, lastTried := now\<rparr>)\<rparr>)"

definition updateAndGet :: "peer_id \<Rightarrow> time \<Rightarrow> time \<Rightarrow> int \<Rightarrow> backoff \<Rightarrow> (backoff_error + int) \<times> backoff" where
  "updateAndGet p since_now now jitter b =
     (let fresh = \<lparr>duration = 0, lastTried = 0, attempts = 0\<rparr> in
      case info b p of
        None \<Rightarrow> record_try p fresh now b
      | Some h \<Rightarrow>
          if since_now - lastTried h > TimeToLive then record_try p fresh now b
          else if attempts h \<ge> maxAttempts b then (Inl (ErrMaxAttempts p), b)
          else record_try p (h\<lparr>duration := next_duration (duration h) jitter\<rparr>) now b)"

definition cleanup :: "time \<Rightarrow> backoff \<Rightarrow> backoff" where
  "cleanup now b = b\<lparr>info := (\<lambda>p. case info b p of None \<Rightarrow> None
     | Some h \<Rightarrow> if now - lastTried h > TimeToLive then None else Some h)\<rparr>"

section \<open>Delays\<close>

definition jitter_ok :: "int \<Rightarrow> bool" where
  "jitter_ok j \<longleftrightarrow> 0 \<le> j \<and> j < MaxBackoffJitterCoff"

lemma next_duration_exact:
  assumes "0 \<le> d" "d \<le> MaxBackoffDelay" "jitter_ok j"
  shows "next_duration d j = (if d < MinBackoffDelay then MinBackoffDelay
     else min MaxBackoffDelay (2 * d + j * Millisecond))"
proof -
  have "in64 (BackoffMultiplier * d + j * Millisecond)"
    using assms by (simp add: int64_defs backoff_consts jitter_ok_def)
  then show ?thesis using assms by (auto simp: next_duration_def backoff_consts jitter_ok_def Let_def)
qed

lemma next_duration_bounds:
  assumes "0 \<le> d" "d \<le> MaxBackoffDelay" "jitter_ok j"
  shows "MinBackoffDelay \<le> next_duration d j" "next_duration d j \<le> MaxBackoffDelay" "d \<le> next_duration d j"
    "MinBackoffDelay \<le> d \<Longrightarrow> min MaxBackoffDelay (2 * d) \<le> next_duration d j"
  using assms unfolding next_duration_exact [OF assms] by (auto simp: backoff_consts jitter_ok_def)

definition backoff_ok :: "backoff \<Rightarrow> bool" where
  "backoff_ok b \<longleftrightarrow> (\<forall>p h. info b p = Some h \<longrightarrow>
     0 \<le> duration h \<and> duration h \<le> MaxBackoffDelay \<and> 1 \<le> attempts h \<and> attempts h \<le> max 1 (maxAttempts b))"

lemma backoff_okD:
  "backoff_ok b \<Longrightarrow> info b p = Some h \<Longrightarrow> 0 \<le> duration h \<and> duration h \<le> MaxBackoffDelay
     \<and> 1 \<le> attempts h \<and> attempts h \<le> max 1 (maxAttempts b)"
  by (simp add: backoff_ok_def)

lemma record_try_ok:
  "backoff_ok b \<Longrightarrow> 0 \<le> duration h \<Longrightarrow> duration h \<le> MaxBackoffDelay \<Longrightarrow> 0 \<le> attempts h \<Longrightarrow>
   attempts h + 1 \<le> max 1 (maxAttempts b) \<Longrightarrow> backoff_ok (snd (record_try p h n b))"
  by (simp add: record_try_def backoff_ok_def)

lemma updateAndGet_ok:
  assumes "backoff_ok b" "jitter_ok j"
  shows "backoff_ok (snd (updateAndGet p s n j b))"
proof -
  have fresh: "backoff_ok (snd (record_try p \<lparr>duration = 0, lastTried = 0, attempts = 0\<rparr> n b))"
    using assms(1) by (intro record_try_ok) (simp_all add: backoff_consts)
  show ?thesis
  proof (cases "info b p")
    case None
    with fresh show ?thesis by (simp add: updateAndGet_def)
  next
    case (Some h)
    note h = backoff_okD [OF assms(1) Some]
    have "0 \<le> next_duration (duration h) j" "next_duration (duration h) j \<le> MaxBackoffDelay"
      using next_duration_bounds [of "duration h" j] h assms(2) by (auto simp: backoff_consts)
    then have "attempts h < maxAttempts b \<Longrightarrow>
        backoff_ok (snd (record_try p (h\<lparr>duration := next_duration (duration h) j\<rparr>) n b))"
      using h assms(1) by (intro record_try_ok) simp_all
    with Some fresh assms(1) show ?thesis by (simp add: updateAndGet_def Let_def)
  qed
qed

lemma cleanup_ok: "backoff_ok b \<Longrightarrow> backoff_ok (cleanup now b)"
  by (auto simp: backoff_ok_def cleanup_def split: option.splits if_splits)

lemma updateAndGet_other: "p' \<noteq> p \<Longrightarrow> info (snd (updateAndGet p s n j b)) p' = info b p'"
  by (simp add: updateAndGet_def record_try_def Let_def split: option.splits)

lemma updateAndGet_maxAttempts [simp]: "maxAttempts (snd (updateAndGet p s n j b)) = maxAttempts b"
  by (simp add: updateAndGet_def record_try_def Let_def split: option.splits)

section \<open>The calls of one peer\<close>

text \<open>A call is given by its two clock readings and its jitter.\<close>

fun try_all :: "peer_id \<Rightarrow> (time \<times> time \<times> int) list \<Rightarrow> backoff \<Rightarrow> (backoff_error + int) list" where
  "try_all p [] b = []"
| "try_all p ((s, n, j) # cs) b =
     (let (r, b') = updateAndGet p s n j b in r # try_all p cs b')"

definition call_in :: "time \<Rightarrow> time \<times> time \<times> int \<Rightarrow> bool" where
  "call_in start c = (case c of (s, n, j) \<Rightarrow> s \<le> start + TimeToLive \<and> start \<le> n \<and> jitter_ok j)"

definition least_delay :: "nat \<Rightarrow> int" where
  "least_delay i = (if i = 0 then 0 else min MaxBackoffDelay (MinBackoffDelay * 2 ^ (i - 1)))"

lemma next_least_delay:
  assumes "least_delay i \<le> d" "0 \<le> d" "d \<le> MaxBackoffDelay" "jitter_ok j"
  shows "least_delay (Suc i) \<le> next_duration d j"
proof (cases i)
  case 0
  then show ?thesis using next_duration_bounds(1) [OF assms(2-4)] by (simp add: least_delay_def)
next
  case (Suc k)
  have "MinBackoffDelay \<le> MinBackoffDelay * 2 ^ k" "MinBackoffDelay \<le> MaxBackoffDelay" by (simp_all add: backoff_consts)
  with assms(1) Suc have d: "MinBackoffDelay \<le> d" by (auto simp: least_delay_def)
  have "min MaxBackoffDelay (2 * (MinBackoffDelay * 2 ^ k)) \<le> min MaxBackoffDelay (2 * d)"
    using assms(1) Suc by (auto simp: least_delay_def min_def backoff_consts split: if_splits)
  with next_duration_bounds(4) [OF assms(2-4) d] Suc show ?thesis
    by (simp add: least_delay_def mult.left_commute)
qed

definition outcome_ok :: "peer_id \<Rightarrow> nat \<Rightarrow> nat \<Rightarrow> backoff_error + int \<Rightarrow> bool" where
  "outcome_ok p limit i r = (case r of
     Inl e \<Rightarrow> limit \<le> i \<and> e = ErrMaxAttempts p
   | Inr d \<Rightarrow> i < limit \<and> least_delay i \<le> d \<and> d \<le> MaxBackoffDelay \<and> (i = 0 \<longrightarrow> d = 0))"

lemma try_all_known:
  assumes "info b p = Some h" "start \<le> lastTried h" "attempts h = int i" "0 < i" "i \<le> limit"
    "least_delay (i - 1) \<le> duration h" "0 \<le> duration h" "duration h \<le> MaxBackoffDelay"
    "maxAttempts b = int limit" "list_all (call_in start) cs" "k < length cs"
  shows "outcome_ok p limit (min limit i + k) (try_all p cs b ! k)"
  using assms
proof (induction cs arbitrary: b h i k)
  case (Cons c cs)
  obtain s n j where c: "c = (s, n, j)" by (cases c)
  have call: "s \<le> start + TimeToLive" "start \<le> n" "jitter_ok j" using Cons.prems(10) c by (auto simp: call_in_def)
  have now: "\<not> s - lastTried h > TimeToLive" using call(1) Cons.prems(2) by linarith
  show ?case
  proof (cases "i = limit")
    case True
    then have u: "updateAndGet p s n j b = (Inl (ErrMaxAttempts p), b)"
      using Cons.prems now by (simp add: updateAndGet_def)
    show ?thesis
    proof (cases k)
      case 0
      then show ?thesis using u c True by (simp add: outcome_ok_def)
    next
      case (Suc k')
      then have "outcome_ok p limit (min limit i + k') (try_all p cs b ! k')"
        using Cons.prems by (intro Cons.IH) auto
      with Suc u c True show ?thesis by (auto simp: outcome_ok_def split: sum.splits)
    qed
  next
    case False
    let ?d = "next_duration (duration h) j"
    let ?h = "h\<lparr>duration := ?d, attempts := attempts h + 1, lastTried := n\<rparr>"
    let ?b = "b\<lparr>info := (info b)(p \<mapsto> ?h)\<rparr>"
    have u: "updateAndGet p s n j b = (Inr ?d, ?b)"
      using Cons.prems now False by (simp add: updateAndGet_def record_try_def)
    have d: "least_delay i \<le> ?d" "0 \<le> ?d" "?d \<le> MaxBackoffDelay"
      using next_least_delay [OF Cons.prems(6-8) call(3)] next_duration_bounds [OF Cons.prems(7,8) call(3)]
        Cons.prems(4) by (simp_all add: backoff_consts)
    show ?thesis
    proof (cases k)
      case 0
      then show ?thesis using u c d False Cons.prems by (simp add: outcome_ok_def)
    next
      case (Suc k')
      then have "outcome_ok p limit (min limit (Suc i) + k') (try_all p cs ?b ! k')"
        using Cons.prems False d call by (intro Cons.IH [of ?b ?h "Suc i"]) auto
      with Suc u c False Cons.prems show ?thesis by simp
    qed
  qed
qed simp

lemma try_all_fresh:
  assumes "info b p = None" "maxAttempts b = int limit" "0 < limit"
    "list_all (call_in start) cs" "k < length cs"
  shows "outcome_ok p limit k (try_all p cs b ! k)"
proof (cases cs)
  case (Cons c cs')
  obtain s n j where c: "c = (s, n, j)" by (cases c)
  let ?h = "\<lparr>duration = 0, lastTried = n, attempts = 1\<rparr>"
  let ?b = "b\<lparr>info := (info b)(p \<mapsto> ?h)\<rparr>"
  have u: "updateAndGet p s n j b = (Inr 0, ?b)"
    using assms(1) by (simp add: updateAndGet_def record_try_def)
  show ?thesis
  proof (cases k)
    case 0
    then show ?thesis using u c Cons assms(3) by (simp add: outcome_ok_def least_delay_def backoff_consts)
  next
    case (Suc k')
    then have "outcome_ok p limit (min limit 1 + k') (try_all p cs' ?b ! k')"
      using assms Cons c by (intro try_all_known [of ?b p ?h start])
        (auto simp: call_in_def least_delay_def backoff_consts)
    with Suc u c Cons assms(3) show ?thesis by simp
  qed
qed (use assms in simp)

text \<open>
  C28. The backoff of one peer: of the calls made within the time-to-live of the first one, exactly
  the first \<^verbatim>\<open>maxAttempts\<close> succeed and all later ones return the attempt-limit error; the first delay is
  zero, the delay of attempt \<open>i\<close> is at least the minimum delay doubled \<open>i - 1\<close> times (capped at the
  maximum), and no delay exceeds the maximum, whatever the jitter.
\<close>
theorem backoff_escalates:
  assumes "info b p = None" "maxAttempts b = int limit" "0 < limit"
    "list_all (call_in start) cs" "k < length cs"
  shows "(case try_all p cs b ! k of
      Inl e \<Rightarrow> limit \<le> k \<and> e = ErrMaxAttempts p
    | Inr d \<Rightarrow> k < limit \<and> least_delay k \<le> d \<and> d \<le> MaxBackoffDelay \<and> (k = 0 \<longrightarrow> d = 0))"
  using try_all_fresh [OF assms] by (simp add: outcome_ok_def)

theorem backoff_escalates_witness:
  "try_all ''p'' [(1, 1, 7), (2, 2, 50), (3, 3, 0)] (newBackoff 1000 Minute 2) ! 2 = Inl (ErrMaxAttempts ''p'')"
proof -
  have 1: "info (newBackoff 1000 Minute 2) ''p'' = None" "maxAttempts (newBackoff 1000 Minute 2) = int 2"
    by (simp_all add: newBackoff_def)
  have 2: "list_all (call_in 1) [(1, 1, 7), (2, 2, 50), (3, 3, 0)]"
    by (simp add: call_in_def jitter_ok_def backoff_consts)
  show ?thesis
    using backoff_escalates [OF 1 _ 2, of 2] by (simp add: numeral_2_eq_2 split: sum.splits)
qed

section \<open>The cleaner\<close>

text \<open>
  The periodic cleanup is invisible: a call made no earlier than a cleanup returns the same
  result, and leaves the same history for its peer, as if the cleanup had not run; and the
  cleanup keeps exactly the entries younger than the time-to-live.
\<close>
lemma cleanup_transparent:
  assumes "t \<le> s"
  shows "fst (updateAndGet p s n j (cleanup t b)) = fst (updateAndGet p s n j b)
    \<and> info (snd (updateAndGet p s n j (cleanup t b))) p = info (snd (updateAndGet p s n j b)) p
    \<and> (info (cleanup t b) q = None \<longleftrightarrow> info b q = None \<or> t - lastTried (the (info b q)) > TimeToLive)"
  using assms by (auto simp: cleanup_def updateAndGet_def record_try_def Let_def split: option.splits)

end
