(* ===== verification/Gossip_Tracer.thy ===== *)
theory Gossip_Tracer
  imports Pubsub_Types "HOL-Library.AList"
begin

text \<open>
  The gossip tracer of \<^verbatim>\<open>gossip_tracer.go\<close>: promises of peers to deliver messages, kept in two
  nested maps indexed by message and by peer. The maps are association lists because
  \<^verbatim>\<open>GetBrokenPromises\<close> and \<^verbatim>\<open>ThrottlePeer\<close> enumerate them. The random choice of \<^verbatim>\<open>AddPromise\<close> is an
  argument. The specification is one map from pairs of message and peer to expiry times; each
  operation on the double index implements the corresponding change of that map and keeps the
  two indices consistent.
\<close>

type_synonym promise_map = "(message_id \<times> (peer_id \<times> time) list) list"
type_synonym peer_promise_map = "(peer_id \<times> message_id list) list"

record gossipTracer =
  idGen :: msgIDGenerator
  followUpTime :: int
  promises :: promise_map
  peerPromises :: peer_promise_map

definition newGossipTracer :: "MsgIdFunction \<Rightarrow> gossipTracer" where
  "newGossipTracer DefaultMsgIdFn =
     \<lparr>idGen = newMsgIdGenerator DefaultMsgIdFn, followUpTime = 0, promises = [], peerPromises = []\<rparr>"

definition gt_Start :: "msgIDGenerator \<Rightarrow> int \<Rightarrow> gossipTracer \<Rightarrow> gossipTracer" where
  "gt_Start gen IWantFollowupTime gt = gt\<lparr>idGen := gen, followUpTime := IWantFollowupTime\<rparr>"

text \<open>Deleting from an inner map, and the inner map from the outer one when it becomes empty.\<close>

definition remove_peerPromise :: "message_id \<Rightarrow> peer_id \<Rightarrow> peer_promise_map \<Rightarrow> peer_promise_map" where
  "remove_peerPromise mid p pp = (case map_of pp p of None \<Rightarrow> pp
     | Some ms \<Rightarrow> let ms' = removeAll mid ms in if ms' = [] then AList.delete p pp else AList.update p ms' pp)"

definition set_promises :: "message_id \<Rightarrow> (peer_id \<times> time) list \<Rightarrow> promise_map \<Rightarrow> promise_map" where
  "set_promises mid ps prs = (if ps = [] then AList.delete mid prs else AList.update mid ps prs)"

definition remove_promise :: "peer_id \<Rightarrow> message_id \<Rightarrow> promise_map \<Rightarrow> promise_map" where
  "remove_promise p mid prs = (case map_of prs mid of None \<Rightarrow> prs
     | Some ps \<Rightarrow> set_promises mid (AList.delete p ps) prs)"

text \<open>\<open>idx\<close> is the draw of \<^verbatim>\<open>rand.Intn(len(msgIDs))\<close>, which panics (\<open>None\<close>) on an empty list.\<close>

definition AddPromise :: "peer_id \<Rightarrow> message_id list \<Rightarrow> nat \<Rightarrow> time \<Rightarrow> gossipTracer \<Rightarrow> gossipTracer option" where
  "AddPromise p msgIDs idx now gt = (if msgIDs = [] then None else Some (
     let mid = msgIDs ! (idx mod length msgIDs);
         ps = (case map_of (promises gt) mid of None \<Rightarrow> [] | Some ps \<Rightarrow> ps) in
     if map_of ps p \<noteq> None then gt
     else gt\<lparr>promises := AList.update mid (AList.update p (now + followUpTime gt) ps) (promises gt),
             peerPromises := AList.update p
               (List.insert mid (case map_of (peerPromises gt) p of None \<Rightarrow> [] | Some ms \<Rightarrow> ms)) (peerPromises gt)\<rparr>))"

definition inc_count :: "peer_id \<Rightarrow> (peer_id \<times> nat) list \<Rightarrow> (peer_id \<times> nat) list" where
  "inc_count p res = AList.update p (Suc (case map_of res p of None \<Rightarrow> 0 | Some n \<Rightarrow> n)) res"

definition break_one :: "time \<Rightarrow> message_id \<Rightarrow> peer_id \<times> time \<Rightarrow>
    (peer_id \<times> nat) list \<times> (peer_id \<times> time) list \<times> peer_promise_map \<Rightarrow>
    (peer_id \<times> nat) list \<times> (peer_id \<times> time) list \<times> peer_promise_map" where
  "break_one now mid pe st = (case (pe, st) of ((p, expire), (res, ps, pp)) \<Rightarrow>
     if expire < now then (inc_count p res, AList.delete p ps, remove_peerPromise mid p pp) else st)"

definition break_message :: "time \<Rightarrow> message_id \<times> (peer_id \<times> time) list \<Rightarrow>
    (peer_id \<times> nat) list \<times> promise_map \<times> peer_promise_map \<Rightarrow>
    (peer_id \<times> nat) list \<times> promise_map \<times> peer_promise_map" where
  "break_message now mps st = (case (mps, st) of ((mid, ps), (res, prs, pp)) \<Rightarrow>
     let (res, ps', pp) = fold (break_one now mid) ps (res, ps, pp) in (res, set_promises mid ps' prs, pp))"

definition GetBrokenPromises :: "time \<Rightarrow> gossipTracer \<Rightarrow> (peer_id \<times> nat) list \<times> gossipTracer" where
  "GetBrokenPromises now gt =
     (let (res, prs, pp) = fold (break_message now) (promises gt) ([], promises gt, peerPromises gt)
      in (res, gt\<lparr>promises := prs, peerPromises := pp\<rparr>))"

definition fulfillPromise :: "Message \<Rightarrow> gossipTracer \<Rightarrow> gossipTracer" where
  "fulfillPromise msg gt = (let mid = mid_of (idGen gt) msg in
     case map_of (promises gt) mid of None \<Rightarrow> gt
     | Some ps \<Rightarrow> gt\<lparr>promises := AList.delete mid (promises gt),
                     peerPromises := fold (\<lambda>(p, e). remove_peerPromise mid p) ps (peerPromises gt)\<rparr>)"

definition gt_DeliverMessage :: "Message \<Rightarrow> gossipTracer \<Rightarrow> gossipTracer" where
  "gt_DeliverMessage msg gt = fulfillPromise msg gt"

definition gt_RejectMessage :: "Message \<Rightarrow> string \<Rightarrow> gossipTracer \<Rightarrow> gossipTracer" where
  "gt_RejectMessage msg reason gt =
     (if reason = RejectMissingSignature then gt
      else if reason = RejectInvalidSignature then gt
      else fulfillPromise msg gt)"

definition gt_ValidateMessage :: "Message \<Rightarrow> gossipTracer \<Rightarrow> gossipTracer" where
  "gt_ValidateMessage msg gt = fulfillPromise msg gt"

definition gt_ThrottlePeer :: "peer_id \<Rightarrow> gossipTracer \<Rightarrow> gossipTracer" where
  "gt_ThrottlePeer p gt = (case map_of (peerPromises gt) p of None \<Rightarrow> gt
     | Some ms \<Rightarrow> gt\<lparr>promises := fold (remove_promise p) ms (promises gt),
                     peerPromises := AList.delete p (peerPromises gt)\<rparr>)"

section \<open>The specification\<close>

type_synonym promise_spec = "message_id \<Rightarrow> peer_id \<Rightarrow> time option"

definition pview :: "promise_map \<Rightarrow> promise_spec" where
  "pview prs mid = (case map_of prs mid of None \<Rightarrow> Map.empty | Some ps \<Rightarrow> map_of ps)"

definition ppview :: "peer_promise_map \<Rightarrow> peer_id \<Rightarrow> message_id set" where
  "ppview pp p = (case map_of pp p of None \<Rightarrow> {} | Some ms \<Rightarrow> set ms)"

definition prs_ok :: "promise_map \<Rightarrow> bool" where
  "prs_ok prs \<longleftrightarrow> distinct (map fst prs) \<and>
     (\<forall>mid ps. map_of prs mid = Some ps \<longrightarrow> ps \<noteq> [] \<and> distinct (map fst ps))"

definition pp_ok :: "peer_promise_map \<Rightarrow> bool" where
  "pp_ok pp \<longleftrightarrow> distinct (map fst pp) \<and> (\<forall>p ms. map_of pp p = Some ms \<longrightarrow> ms \<noteq> [])"

definition gt_ok :: "gossipTracer \<Rightarrow> bool" where
  "gt_ok gt \<longleftrightarrow> prs_ok (promises gt) \<and> pp_ok (peerPromises gt) \<and>
     (\<forall>mid p. mid \<in> ppview (peerPromises gt) p \<longleftrightarrow> pview (promises gt) mid p \<noteq> None)"

abbreviation gt_view :: "gossipTracer \<Rightarrow> promise_spec" where
  "gt_view gt \<equiv> pview (promises gt)"

definition spec_add :: "message_id \<Rightarrow> peer_id \<Rightarrow> time \<Rightarrow> promise_spec \<Rightarrow> promise_spec" where
  "spec_add mid p t v = (if v mid p = None then v(mid := (v mid)(p \<mapsto> t)) else v)"

definition spec_fulfil :: "message_id \<Rightarrow> promise_spec \<Rightarrow> promise_spec" where
  "spec_fulfil mid v = v(mid := Map.empty)"

definition spec_throttle :: "peer_id \<Rightarrow> promise_spec \<Rightarrow> promise_spec" where
  "spec_throttle p v = (\<lambda>mid. (v mid)(p := None))"

definition spec_keep :: "time \<Rightarrow> promise_spec \<Rightarrow> promise_spec" where
  "spec_keep now v = (\<lambda>mid p. case v mid p of None \<Rightarrow> None | Some e \<Rightarrow> if e < now then None else Some e)"

definition spec_broken :: "time \<Rightarrow> promise_spec \<Rightarrow> peer_id \<Rightarrow> nat" where
  "spec_broken now v p = card {mid. \<exists>e. v mid p = Some e \<and> e < now}"

section \<open>The two indices\<close>

lemma prs_ok_update:
  "prs_ok prs \<Longrightarrow> ps \<noteq> [] \<Longrightarrow> distinct (map fst ps) \<Longrightarrow> prs_ok (AList.update mid ps prs)"
  by (auto simp: prs_ok_def distinct_update update_conv')

lemma prs_ok_delete: "prs_ok prs \<Longrightarrow> prs_ok (AList.delete mid prs)"
  by (auto simp: prs_ok_def distinct_delete delete_conv' split: if_splits)

lemma prs_ok_set: "prs_ok prs \<Longrightarrow> distinct (map fst ps) \<Longrightarrow> prs_ok (set_promises mid ps prs)"
  by (simp add: set_promises_def prs_ok_update prs_ok_delete)

lemma pview_update [simp]: "pview (AList.update mid ps prs) = (pview prs)(mid := map_of ps)"
  by (auto simp: pview_def update_conv' fun_eq_iff)

lemma pview_delete [simp]: "pview (AList.delete mid prs) = (pview prs)(mid := Map.empty)"
  by (auto simp: pview_def delete_conv' fun_eq_iff)

lemma pview_set [simp]: "pview (set_promises mid ps prs) = (pview prs)(mid := map_of ps)"
  by (simp add: set_promises_def)

lemma pp_ok_update: "pp_ok pp \<Longrightarrow> ms \<noteq> [] \<Longrightarrow> pp_ok (AList.update p ms pp)"
  by (auto simp: pp_ok_def distinct_update update_conv')

lemma pp_ok_delete: "pp_ok pp \<Longrightarrow> pp_ok (AList.delete p pp)"
  by (auto simp: pp_ok_def distinct_delete delete_conv' split: if_splits)

lemma pp_ok_remove: "pp_ok pp \<Longrightarrow> pp_ok (remove_peerPromise mid p pp)"
  by (simp add: remove_peerPromise_def pp_ok_update pp_ok_delete Let_def split: option.splits)

lemma ppview_remove [simp]: "ppview (remove_peerPromise mid p pp) = (ppview pp)(p := ppview pp p - {mid})"
  by (auto simp: remove_peerPromise_def ppview_def update_conv' delete_conv' fun_eq_iff Let_def removeAll_filter_not_eq
      filter_empty_conv split: option.splits)

lemma ppview_update [simp]: "ppview (AList.update p ms pp) = (ppview pp)(p := set ms)"
  by (auto simp: ppview_def update_conv' fun_eq_iff)

lemma ppview_delete [simp]: "ppview (AList.delete p pp) = (ppview pp)(p := {})"
  by (auto simp: ppview_def delete_conv' fun_eq_iff)

lemma prs_okD: "prs_ok prs \<Longrightarrow> map_of prs mid = Some ps \<Longrightarrow> ps \<noteq> [] \<and> distinct (map fst ps)"
  by (simp add: prs_ok_def)

lemma gt_okI:
  "prs_ok prs \<Longrightarrow> pp_ok pp \<Longrightarrow> (\<And>mid p. mid \<in> ppview pp p \<longleftrightarrow> pview prs mid p \<noteq> None) \<Longrightarrow>
   gt_ok (gt\<lparr>promises := prs, peerPromises := pp\<rparr>)"
  by (simp add: gt_ok_def)

lemma gt_index: "gt_ok gt \<Longrightarrow> mid \<in> ppview (peerPromises gt) p \<longleftrightarrow> gt_view gt mid p \<noteq> None"
  by (simp add: gt_ok_def)

lemma AddPromise_refines:
  assumes "gt_ok gt" "msgIDs \<noteq> []"
  shows "\<exists>gt'. AddPromise p msgIDs idx now gt = Some gt' \<and> gt_ok gt'
    \<and> gt_view gt' = spec_add (msgIDs ! (idx mod length msgIDs)) p (now + followUpTime gt) (gt_view gt)"
proof -
  let ?mid = "msgIDs ! (idx mod length msgIDs)"
  define ps where "ps = (case map_of (promises gt) ?mid of None \<Rightarrow> [] | Some ps \<Rightarrow> ps)"
  define ms where "ms = (case map_of (peerPromises gt) p of None \<Rightarrow> [] | Some ms \<Rightarrow> ms)"
  have v: "pview (promises gt) ?mid = map_of ps" by (simp add: pview_def ps_def split: option.splits)
  have m: "ppview (peerPromises gt) p = set ms" by (simp add: ppview_def ms_def split: option.splits)
  have d: "distinct (map fst ps)"
    using assms(1) prs_okD by (auto simp: ps_def gt_ok_def split: option.splits)
  show ?thesis
  proof (cases "map_of ps p")
    case None
    let ?prs = "AList.update ?mid (AList.update p (now + followUpTime gt) ps) (promises gt)"
    let ?pp = "AList.update p (List.insert ?mid ms) (peerPromises gt)"
    have "prs_ok ?prs" using assms(1) d by (intro prs_ok_update) (auto simp: gt_ok_def distinct_update update_nonempty)
    moreover have "pp_ok ?pp" using assms(1) by (intro pp_ok_update) (auto simp: gt_ok_def List.insert_def)
    moreover have "mid \<in> ppview ?pp q \<longleftrightarrow> pview ?prs mid q \<noteq> None" for mid q
      using gt_index [OF assms(1), of mid q] m v by (auto simp: update_conv')
    ultimately have "gt_ok (gt\<lparr>promises := ?prs, peerPromises := ?pp\<rparr>)" by (rule gt_okI)
    moreover have "pview ?prs = spec_add ?mid p (now + followUpTime gt) (gt_view gt)"
      using None v by (auto simp: spec_add_def update_conv' fun_eq_iff)
    moreover have "AddPromise p msgIDs idx now gt = Some (gt\<lparr>promises := ?prs, peerPromises := ?pp\<rparr>)"
      using None assms(2) by (simp add: AddPromise_def Let_def ps_def ms_def)
    ultimately show ?thesis by simp
  next
    case (Some e)
    then have "AddPromise p msgIDs idx now gt = Some gt"
      using assms(2) by (simp add: AddPromise_def Let_def ps_def)
    with assms(1) Some v show ?thesis by (simp add: spec_add_def)
  qed
qed

lemma fold_remove_peerPromise:
  "pp_ok pp \<Longrightarrow> pp_ok (fold (\<lambda>(p, e). remove_peerPromise mid p) ps pp)
     \<and> (\<forall>p. ppview (fold (\<lambda>(p, e). remove_peerPromise mid p) ps pp) p =
         ppview pp p - (if p \<in> fst ` set ps then {mid} else {}))"
proof (induction ps arbitrary: pp)
  case (Cons pe ps)
  obtain q e where pe: "pe = (q, e)" by (cases pe)
  from Cons.IH [OF pp_ok_remove [OF Cons.prems], of mid q] show ?case by (auto simp: pe)
qed simp

lemma fulfillPromise_refines:
  assumes "gt_ok gt"
  shows "gt_ok (fulfillPromise msg gt)
    \<and> gt_view (fulfillPromise msg gt) = spec_fulfil (mid_of (idGen gt) msg) (gt_view gt)"
proof (cases "map_of (promises gt) (mid_of (idGen gt) msg)")
  case None
  then show ?thesis using assms by (auto simp: fulfillPromise_def spec_fulfil_def pview_def fun_eq_iff)
next
  case (Some ps)
  let ?mid = "mid_of (idGen gt) msg"
  have v: "pview (promises gt) ?mid = map_of ps" using Some by (simp add: pview_def)
  have pp: "pp_ok (peerPromises gt)" using assms by (simp add: gt_ok_def)
  let ?pp = "fold (\<lambda>(p, e). remove_peerPromise ?mid p) ps (peerPromises gt)"
  note f = fold_remove_peerPromise [OF pp, of ?mid ps]
  have "p \<in> fst ` set ps \<longleftrightarrow> ?mid \<in> ppview (peerPromises gt) p" for p
    using gt_index [OF assms, of ?mid p] v by (simp add: map_of_eq_None_iff del: not_None_eq)
  then have "mid \<in> ppview ?pp p \<longleftrightarrow> ((pview (promises gt))(?mid := Map.empty)) mid p \<noteq> None" for mid p
    using gt_index [OF assms, of mid p] f by auto
  moreover have "fulfillPromise msg gt = gt\<lparr>promises := AList.delete ?mid (promises gt), peerPromises := ?pp\<rparr>"
    using Some by (simp add: fulfillPromise_def Let_def)
  moreover have "prs_ok (AList.delete ?mid (promises gt))" using assms by (simp add: gt_ok_def prs_ok_delete)
  ultimately show ?thesis using f gt_okI [of "AList.delete ?mid (promises gt)" ?pp gt] by (simp add: spec_fulfil_def)
qed

lemma remove_promise_view:
  assumes "prs_ok prs"
  shows "prs_ok (remove_promise p mid prs) \<and> pview (remove_promise p mid prs) = (pview prs)(mid := (pview prs mid)(p := None))"
proof (cases "map_of prs mid")
  case None
  then show ?thesis using assms by (auto simp: remove_promise_def pview_def fun_eq_iff)
next
  case (Some ps)
  then have "pview prs mid = map_of ps" by (simp add: pview_def)
  with Some assms prs_okD [OF assms Some] show ?thesis
    by (simp add: remove_promise_def prs_ok_set distinct_delete delete_conv')
qed

lemma fold_remove_promise:
  "prs_ok prs \<Longrightarrow> prs_ok (fold (remove_promise p) ms prs)
     \<and> (\<forall>mid. pview (fold (remove_promise p) ms prs) mid = (if mid \<in> set ms then (pview prs mid)(p := None) else pview prs mid))"
proof (induction ms arbitrary: prs)
  case (Cons m ms)
  have 1: "prs_ok (remove_promise p m prs)" "pview (remove_promise p m prs) = (pview prs)(m := (pview prs m)(p := None))"
    using remove_promise_view [OF Cons.prems] by auto
  from Cons.IH [OF 1(1)] show ?case by (auto simp: 1(2))
qed simp

lemma ThrottlePeer_refines:
  assumes "gt_ok gt"
  shows "gt_ok (gt_ThrottlePeer p gt) \<and> gt_view (gt_ThrottlePeer p gt) = spec_throttle p (gt_view gt)"
proof (cases "map_of (peerPromises gt) p")
  case None
  then have "pview (promises gt) mid p = None" for mid
    using gt_index [OF assms, of mid p] by (simp add: ppview_def)
  then show ?thesis using None assms by (auto simp: gt_ThrottlePeer_def spec_throttle_def fun_eq_iff)
next
  case (Some ms)
  have m: "mid \<in> set ms \<longleftrightarrow> pview (promises gt) mid p \<noteq> None" for mid
    using gt_index [OF assms, of mid p] Some by (simp add: ppview_def)
  have "prs_ok (promises gt)" using assms by (simp add: gt_ok_def)
  note f = fold_remove_promise [OF this, of p ms]
  have "(if mid \<in> set ms then (pview (promises gt) mid)(p := None) else pview (promises gt) mid)
      = (pview (promises gt) mid)(p := None)" for mid
    using m [of mid] by (auto simp: fun_eq_iff)
  with f have "pview (fold (remove_promise p) ms (promises gt)) = spec_throttle p (gt_view gt)"
    by (auto simp: spec_throttle_def fun_eq_iff)
  moreover have "mid \<in> ((ppview (peerPromises gt))(p := {})) q \<longleftrightarrow> spec_throttle p (gt_view gt) mid q \<noteq> None" for mid q
    using gt_index [OF assms, of mid q] by (auto simp: spec_throttle_def)
  moreover have "gt_ThrottlePeer p gt = gt\<lparr>promises := fold (remove_promise p) ms (promises gt),
      peerPromises := AList.delete p (peerPromises gt)\<rparr>"
    using Some by (simp add: gt_ThrottlePeer_def)
  moreover have "pp_ok (AList.delete p (peerPromises gt))" using assms by (simp add: gt_ok_def pp_ok_delete)
  ultimately show ?thesis
    using f gt_okI [of "fold (remove_promise p) ms (promises gt)" "AList.delete p (peerPromises gt)" gt] by simp
qed

section \<open>Broken promises\<close>

definition cnt :: "(peer_id \<times> nat) list \<Rightarrow> peer_id \<Rightarrow> nat" where
  "cnt res p = (case map_of res p of None \<Rightarrow> 0 | Some n \<Rightarrow> n)"

lemma cnt_inc [simp]: "cnt (inc_count q res) p = cnt res p + (if p = q then 1 else 0)"
  by (auto simp: cnt_def inc_count_def update_conv')

lemma cnt_Nil [simp]: "cnt [] p = 0"
  by (simp add: cnt_def)

definition hit :: "time \<Rightarrow> (peer_id \<times> time) list \<Rightarrow> peer_id \<Rightarrow> bool" where
  "hit now ps p = (case map_of ps p of None \<Rightarrow> False | Some e \<Rightarrow> e < now)"

lemma hit_Cons: "p0 \<notin> fst ` set ps \<Longrightarrow> hit now ((p0, e) # ps) p = (if p = p0 then e < now else hit now ps p)"
  by (simp add: hit_def)

lemma hit_notin: "p \<notin> fst ` set ps \<Longrightarrow> \<not> hit now ps p"
  by (simp add: hit_def map_of_eq_None_iff [THEN iffD2])

definition broke_inner :: "time \<Rightarrow> message_id \<Rightarrow> (peer_id \<times> time) list \<Rightarrow>
    (peer_id \<times> nat) list \<times> (peer_id \<times> time) list \<times> peer_promise_map \<Rightarrow>
    (peer_id \<times> nat) list \<times> (peer_id \<times> time) list \<times> peer_promise_map \<Rightarrow> bool" where
  "broke_inner now mid ps s s' = (case (s, s') of ((res, qs, pp), (res', qs', pp')) \<Rightarrow>
     (\<forall>p. cnt res' p = cnt res p + (if hit now ps p then 1 else 0)) \<and>
     (\<forall>p. map_of qs' p = (if hit now ps p then None else map_of qs p)) \<and>
     (distinct (map fst qs) \<longrightarrow> distinct (map fst qs')) \<and> (pp_ok pp \<longrightarrow> pp_ok pp') \<and>
     (\<forall>p. ppview pp' p = ppview pp p - (if hit now ps p then {mid} else {})))"

lemma break_fold: "distinct (map fst ps) \<Longrightarrow> broke_inner now mid ps s (fold (break_one now mid) ps s)"
proof (induction ps arbitrary: s)
  case Nil
  then show ?case by (cases s) (simp add: broke_inner_def hit_def)
next
  case (Cons pe ps)
  obtain p0 e where pe: "pe = (p0, e)" by (cases pe)
  obtain res qs pp where s: "s = (res, qs, pp)" by (cases s)
  have p0: "p0 \<notin> fst ` set ps" using Cons.prems pe by simp
  have IH: "broke_inner now mid ps (break_one now mid pe s) (fold (break_one now mid) ps (break_one now mid pe s))"
    using Cons by simp
  show ?case
  proof (cases "e < now")
    case True
    then have "break_one now mid pe s = (inc_count p0 res, AList.delete p0 qs, remove_peerPromise mid p0 pp)"
      by (simp add: break_one_def pe s)
    with IH True hit_notin [OF p0, of now] show ?thesis
      by (auto simp: broke_inner_def pe s hit_Cons [OF p0] distinct_delete delete_conv' pp_ok_remove split: prod.splits)
  next
    case False
    then have "break_one now mid pe s = s" by (simp add: break_one_def pe s)
    with IH False hit_notin [OF p0, of now] show ?thesis
      by (auto simp: broke_inner_def pe s hit_Cons [OF p0] split: prod.splits)
  qed
qed

definition keep_unexpired :: "time \<Rightarrow> (peer_id \<times> time) list \<Rightarrow> peer_id \<Rightarrow> time option" where
  "keep_unexpired now ps p = (if hit now ps p then None else map_of ps p)"

definition broke_outer :: "time \<Rightarrow> promise_map \<Rightarrow>
    (peer_id \<times> nat) list \<times> promise_map \<times> peer_promise_map \<Rightarrow>
    (peer_id \<times> nat) list \<times> promise_map \<times> peer_promise_map \<Rightarrow> bool" where
  "broke_outer now todo s s' = (case (s, s') of ((res, prs, pp), (res', prs', pp')) \<Rightarrow>
     (\<forall>p. cnt res' p = cnt res p + length (filter (\<lambda>(mid, ps). hit now ps p) todo)) \<and>
     (\<forall>mid. pview prs' mid = (case map_of todo mid of None \<Rightarrow> pview prs mid | Some ps \<Rightarrow> keep_unexpired now ps)) \<and>
     (prs_ok prs \<longrightarrow> prs_ok prs') \<and> (pp_ok pp \<longrightarrow> pp_ok pp') \<and>
     (\<forall>p mid. mid \<in> ppview pp' p \<longleftrightarrow> mid \<in> ppview pp p \<and>
        (case map_of todo mid of None \<Rightarrow> True | Some ps \<Rightarrow> \<not> hit now ps p)))"

lemma break_message_one:
  assumes "distinct (map fst ps)"
  shows "broke_outer now [(mid, ps)] s (break_message now (mid, ps) s)"
proof -
  obtain res prs pp where s: "s = (res, prs, pp)" by (cases s)
  obtain res' ps' pp' where f: "fold (break_one now mid) ps (res, ps, pp) = (res', ps', pp')"
    by (metis prod_cases3)
  have b: "broke_inner now mid ps (res, ps, pp) (res', ps', pp')"
    using break_fold [OF assms, of now mid "(res, ps, pp)"] f by simp
  have "map_of ps' = keep_unexpired now ps"
    using b by (auto simp: broke_inner_def keep_unexpired_def fun_eq_iff)
  moreover have "break_message now (mid, ps) s = (res', set_promises mid ps' prs, pp')"
    by (simp add: break_message_def s f)
  ultimately show ?thesis
    using b assms by (auto simp: broke_outer_def broke_inner_def s prs_ok_set split: if_splits)
qed

lemma broke_outer_trans:
  assumes "broke_outer now [(mid, ps)] s s'" "broke_outer now todo s' s''" "mid \<notin> fst ` set todo"
  shows "broke_outer now ((mid, ps) # todo) s s''"
proof -
  have "map_of todo mid = None" using assms(3) by (simp add: map_of_eq_None_iff)
  with assms(1,2) show ?thesis
    by (cases s; cases s'; cases s'') (auto simp: broke_outer_def split: option.splits if_splits)
qed

lemma break_all:
  "distinct (map fst todo) \<Longrightarrow> (\<And>mid ps. (mid, ps) \<in> set todo \<Longrightarrow> distinct (map fst ps)) \<Longrightarrow>
   broke_outer now todo s (fold (break_message now) todo s)"
proof (induction todo arbitrary: s)
  case Nil
  then show ?case by (cases s) (simp add: broke_outer_def)
next
  case (Cons mps todo)
  obtain mid ps where m: "mps = (mid, ps)" by (cases mps)
  have "broke_outer now [(mid, ps)] s (break_message now (mid, ps) s)"
    by (rule break_message_one) (use Cons.prems m in auto)
  moreover have "broke_outer now todo (break_message now (mid, ps) s) (fold (break_message now) todo (break_message now (mid, ps) s))"
    by (rule Cons.IH) (use Cons.prems in auto)
  ultimately show ?case using Cons.prems m broke_outer_trans [of now mid ps s _ todo] by simp
qed

lemma card_hits:
  assumes "prs_ok prs"
  shows "length (filter (\<lambda>(mid, ps). hit now ps p) prs) = spec_broken now (pview prs) p"
proof -
  have d: "distinct (map fst prs)" using assms by (simp add: prs_ok_def)
  have "distinct (map fst (filter (\<lambda>(mid, ps). hit now ps p) prs))"
    using d by (simp add: distinct_map_filter)
  then have "length (filter (\<lambda>(mid, ps). hit now ps p) prs) = card (fst ` set (filter (\<lambda>(mid, ps). hit now ps p) prs))"
    using distinct_card [of "map fst (filter (\<lambda>(mid, ps). hit now ps p) prs)"] by simp
  also have "fst ` set (filter (\<lambda>(mid, ps). hit now ps p) prs) = {mid. \<exists>ps. map_of prs mid = Some ps \<and> hit now ps p}"
    unfolding map_of_eq_Some_iff [OF d] by (auto simp: image_iff)
  also have "\<dots> = {mid. \<exists>e. pview prs mid p = Some e \<and> e < now}"
    by (rule Collect_cong) (simp add: pview_def hit_def split: option.splits)
  finally show ?thesis by (simp add: spec_broken_def)
qed

lemma GetBrokenPromises_refines:
  assumes "gt_ok gt"
  shows "gt_ok (snd (GetBrokenPromises now gt))
    \<and> gt_view (snd (GetBrokenPromises now gt)) = spec_keep now (gt_view gt)
    \<and> cnt (fst (GetBrokenPromises now gt)) = spec_broken now (gt_view gt)"
proof -
  let ?prs = "promises gt" and ?pp = "peerPromises gt"
  have ok: "prs_ok ?prs" "pp_ok ?pp" using assms by (simp_all add: gt_ok_def)
  have d: "distinct (map fst ?prs)" using ok(1) by (simp add: prs_ok_def)
  then have d': "distinct (map fst ps)" if "(mid, ps) \<in> set ?prs" for mid ps
    using prs_okD [OF ok(1), of mid ps] that by simp
  obtain res prs' pp' where f: "fold (break_message now) ?prs ([], ?prs, ?pp) = (res, prs', pp')"
    by (metis prod_cases3)
  have b: "broke_outer now ?prs ([], ?prs, ?pp) (res, prs', pp')"
    using break_all [OF d, where now = now and s = "([], ?prs, ?pp)"] d' f by simp
  have v: "pview prs' = spec_keep now (pview ?prs)"
    using b by (auto simp: broke_outer_def pview_def spec_keep_def keep_unexpired_def hit_def fun_eq_iff split: option.splits)
  have i: "mid \<in> ppview pp' p \<longleftrightarrow> pview prs' mid p \<noteq> None" for mid p
  proof -
    have "mid \<in> ppview pp' p \<longleftrightarrow> mid \<in> ppview ?pp p \<and> (case map_of ?prs mid of None \<Rightarrow> True | Some ps \<Rightarrow> \<not> hit now ps p)"
      using b by (simp add: broke_outer_def)
    then show ?thesis using gt_index [OF assms, of mid p]
      by (auto simp: v spec_keep_def pview_def hit_def split: option.splits)
  qed
  have "prs_ok prs'" "pp_ok pp'" using b ok by (simp_all add: broke_outer_def)
  moreover have "cnt res = spec_broken now (pview ?prs)"
    using b card_hits [OF ok(1), of now] by (auto simp: broke_outer_def fun_eq_iff)
  ultimately show ?thesis using v i gt_okI [of prs' pp' gt] by (simp add: GetBrokenPromises_def f)
qed

lemma newGossipTracer_ok: "gt_ok (gt_Start gen t (newGossipTracer f))"
  by (simp add: gt_ok_def newGossipTracer_def gt_Start_def prs_ok_def pp_ok_def ppview_def pview_def)

text \<open>
  C24. The double index of the gossip tracer implements a plain map of promises: \<^verbatim>\<open>AddPromise\<close> (which
  does not panic on a non-empty list) records a promise for the drawn message unless the peer
  already made one, a delivery, or a rejection for a reason other than a bad signature, removes all promises of the
  message, \<^verbatim>\<open>ThrottlePeer\<close> those of the peer, and \<^verbatim>\<open>GetBrokenPromises\<close> removes exactly the expired
  promises and returns their number for every peer; all keep the two indices consistent.
\<close>
theorem gossip_tracer_refines:
  assumes "gt_ok gt" "msgIDs \<noteq> []" "reason \<noteq> RejectMissingSignature" "reason \<noteq> RejectInvalidSignature"
  shows "(\<exists>gt'. AddPromise p msgIDs idx now gt = Some gt' \<and> gt_ok gt' \<and>
        gt_view gt' = spec_add (msgIDs ! (idx mod length msgIDs)) p (now + followUpTime gt) (gt_view gt))
    \<and> gt_ok (gt_DeliverMessage msg gt) \<and> gt_view (gt_DeliverMessage msg gt) = spec_fulfil (mid_of (idGen gt) msg) (gt_view gt)
    \<and> gt_RejectMessage msg reason gt = gt_DeliverMessage msg gt \<and> gt_ValidateMessage msg gt = gt_DeliverMessage msg gt
    \<and> gt_RejectMessage msg RejectMissingSignature gt = gt \<and> gt_RejectMessage msg RejectInvalidSignature gt = gt
    \<and> gt_ok (gt_ThrottlePeer p gt) \<and> gt_view (gt_ThrottlePeer p gt) = spec_throttle p (gt_view gt)
    \<and> gt_ok (snd (GetBrokenPromises now gt)) \<and> gt_view (snd (GetBrokenPromises now gt)) = spec_keep now (gt_view gt)
    \<and> cnt (fst (GetBrokenPromises now gt)) = spec_broken now (gt_view gt)"
  using AddPromise_refines [OF assms(1,2)] fulfillPromise_refines [OF assms(1)]
    ThrottlePeer_refines [OF assms(1)] GetBrokenPromises_refines [OF assms(1)] assms(3,4)
  by (simp add: gt_DeliverMessage_def gt_RejectMessage_def gt_ValidateMessage_def)

definition demo_tracer :: gossipTracer where
  "demo_tracer = gt_Start (newMsgIdGenerator Data) 3 (newGossipTracer Data)"

theorem gossip_tracer_refines_witness:
  "(\<exists>gt. AddPromise ''p'' [[1], [2]] 1 10 demo_tracer = Some gt \<and> gt_view gt [2] ''p'' = Some 13)
   \<and> (\<exists>gt. AddPromise ''p'' [[1], [2]] 1 10 demo_tracer = Some gt
       \<and> cnt (fst (GetBrokenPromises 14 gt)) ''p'' = 1)"
proof -
  have ok: "gt_ok demo_tracer" by (simp add: demo_tracer_def newGossipTracer_ok)
  have r: "RejectValidationFailed \<noteq> RejectMissingSignature" "RejectValidationFailed \<noteq> RejectInvalidSignature"
    by (simp_all add: reject_defs)
  have v: "gt_view demo_tracer = (\<lambda>_ _. None)" "followUpTime demo_tracer = 3"
    by (simp_all add: demo_tracer_def newGossipTracer_def gt_Start_def pview_def fun_eq_iff)
  from gossip_tracer_refines [OF ok _ r, of "[[1], [2]]" "''p''" 1 10 undefined] obtain gt
    where gt: "AddPromise ''p'' [[1], [2]] 1 10 demo_tracer = Some gt" "gt_ok gt"
      "gt_view gt = spec_add [2] ''p'' 13 (\<lambda>_ _. None)"
    by (auto simp: v)
  have "{mid. \<exists>e. gt_view gt mid ''p'' = Some e \<and> e < 14} = {[2]}"
    unfolding gt(3) by (auto simp: spec_add_def)
  then have "cnt (fst (GetBrokenPromises 14 gt)) ''p'' = 1"
    using gossip_tracer_refines [OF gt(2) _ r, of "[[1]]" "''p''" 0 14 undefined]
    by (simp add: spec_broken_def)
  with gt show ?thesis by (simp add: spec_add_def)
qed

end
