(* ===== verification/Rpc_Queue.thy ===== *)
theory Rpc_Queue
  imports Main
begin

text \<open>
  The two-priority outbound queue of \<^verbatim>\<open>rpc_queue.go\<close>. A Go channel with a buffer is a bounded list;
  a \<^verbatim>\<open>select\<close> takes any of its ready cases, so an operation returns the list of its possible
  outcomes, empty when it blocks. \<open>c\<close> says whether the caller's context is done. \<^verbatim>\<open>Pop\<close> consists of
  two selects with any amount of other activity in between, so the queue with its consumer is a
  transition system.
\<close>

datatype queue_error = ErrQueueFull | CtxErr | QueueCtxErr

record 'a rpcQueue =
  q_done :: bool
  fastQueue :: "'a list"
  slowQueue :: "'a list"
  fastSize :: nat
  slowSize :: nat

definition newRPCQueue :: "nat \<Rightarrow> nat \<Rightarrow> 'a rpcQueue" where
  "newRPCQueue fs ss = \<lparr>q_done = False, fastQueue = [], slowQueue = [], fastSize = fs, slowSize = ss\<rparr>"

definition q_Close :: "'a rpcQueue \<Rightarrow> 'a rpcQueue" where
  "q_Close q = q\<lparr>q_done := True\<rparr>"

definition send_case :: "'a \<Rightarrow> bool \<Rightarrow> 'a rpcQueue \<Rightarrow> (queue_error option \<times> 'a rpcQueue) list" where
  "send_case rpc fast q =
     (if fast then (if length (fastQueue q) < fastSize q then [(None, q\<lparr>fastQueue := fastQueue q @ [rpc]\<rparr>)] else [])
      else (if length (slowQueue q) < slowSize q then [(None, q\<lparr>slowQueue := slowQueue q @ [rpc]\<rparr>)] else []))"

definition done_cases :: "bool \<Rightarrow> 'a rpcQueue \<Rightarrow> queue_error list" where
  "done_cases c q = (if c then [CtxErr] else []) @ (if q_done q then [QueueCtxErr] else [])"

definition Push :: "bool \<Rightarrow> 'a \<Rightarrow> bool \<Rightarrow> 'a rpcQueue \<Rightarrow> (queue_error option \<times> 'a rpcQueue) list" where
  "Push c rpc fast q = map (\<lambda>e. (Some e, q)) (done_cases c q) @ send_case rpc fast q"

definition TryPush :: "bool \<Rightarrow> 'a \<Rightarrow> bool \<Rightarrow> 'a rpcQueue \<Rightarrow> (queue_error option \<times> 'a rpcQueue) list" where
  "TryPush c rpc fast q = (let ready = map (\<lambda>e. (Some e, q)) (done_cases c q) @ send_case rpc fast q
     in if ready = [] then [(Some ErrQueueFull, q)] else ready)"

definition recv_case :: "bool \<Rightarrow> 'a rpcQueue \<Rightarrow> ((queue_error + bool \<times> 'a) \<times> 'a rpcQueue) list" where
  "recv_case fast q =
     (if fast then (case fastQueue q of [] \<Rightarrow> [] | x # xs \<Rightarrow> [(Inr (True, x), q\<lparr>fastQueue := xs\<rparr>)])
      else (case slowQueue q of [] \<Rightarrow> [] | x # xs \<Rightarrow> [(Inr (False, x), q\<lparr>slowQueue := xs\<rparr>)]))"

text \<open>The first select of \<^verbatim>\<open>Pop\<close> falls through when it has no outcome; the second one blocks.\<close>

definition Pop_first :: "bool \<Rightarrow> 'a rpcQueue \<Rightarrow> ((queue_error + bool \<times> 'a) \<times> 'a rpcQueue) list" where
  "Pop_first c q = map (\<lambda>e. (Inl e, q)) (done_cases c q) @ recv_case True q"

definition Pop_second :: "bool \<Rightarrow> 'a rpcQueue \<Rightarrow> ((queue_error + bool \<times> 'a) \<times> 'a rpcQueue) list" where
  "Pop_second c q = map (\<lambda>e. (Inl e, q)) (done_cases c q) @ recv_case True q @ recv_case False q"

section \<open>The queue and its consumer\<close>

datatype phase = Idle | Selecting

datatype 'a event = Pushed bool 'a "queue_error option" | Popped "queue_error + bool \<times> 'a" | Tau

inductive q_step :: "phase \<times> 'a rpcQueue \<Rightarrow> 'a event \<Rightarrow> phase \<times> 'a rpcQueue \<Rightarrow> bool" where
  try_push: "(r, q') \<in> set (TryPush c x fast q) \<Longrightarrow> q_step (ph, q) (Pushed fast x r) (ph, q')"
| push: "(r, q') \<in> set (Push c x fast q) \<Longrightarrow> q_step (ph, q) (Pushed fast x r) (ph, q')"
| pop_first: "(r, q') \<in> set (Pop_first c q) \<Longrightarrow> q_step (Idle, q) (Popped r) (Idle, q')"
| pop_default: "Pop_first c q = [] \<Longrightarrow> q_step (Idle, q) Tau (Selecting, q)"
| pop_second: "(r, q') \<in> set (Pop_second c q) \<Longrightarrow> q_step (Selecting, q) (Popped r) (Idle, q')"
| close: "q_step (ph, q) Tau (ph, q_Close q)"

inductive q_run :: "phase \<times> 'a rpcQueue \<Rightarrow> 'a event list \<Rightarrow> phase \<times> 'a rpcQueue \<Rightarrow> bool" where
  run_nil: "q_run s [] s"
| run_snoc: "q_run s es s' \<Longrightarrow> q_step s' e s'' \<Longrightarrow> q_run s (es @ [e]) s''"

inductive_cases q_stepE: "q_step (ph, q) e s"

definition accepted :: "bool \<Rightarrow> 'a event list \<Rightarrow> 'a list" where
  "accepted f es = concat (map (\<lambda>e. case e of Pushed f' x None \<Rightarrow> if f' = f then [x] else [] | _ \<Rightarrow> []) es)"

definition delivered :: "bool \<Rightarrow> 'a event list \<Rightarrow> 'a list" where
  "delivered f es = concat (map (\<lambda>e. case e of Popped (Inr (f', x)) \<Rightarrow> if f' = f then [x] else [] | _ \<Rightarrow> []) es)"

definition chan :: "bool \<Rightarrow> 'a rpcQueue \<Rightarrow> 'a list" where
  "chan f q = (if f then fastQueue q else slowQueue q)"

definition within :: "'a rpcQueue \<Rightarrow> bool" where
  "within q \<longleftrightarrow> length (fastQueue q) \<le> fastSize q \<and> length (slowQueue q) \<le> slowSize q"

lemmas queue_defs = TryPush_def Push_def Pop_first_def Pop_second_def send_case_def recv_case_def q_Close_def Let_def

lemma event_simps [simp]:
  "accepted f [] = []" "delivered f [] = []"
  "accepted f (es @ es') = accepted f es @ accepted f es'" "delivered f (es @ es') = delivered f es @ delivered f es'"
  "accepted f [Pushed f' x (Some e)] = []" "accepted f [Pushed f' x None] = (if f' = f then [x] else [])"
  "accepted f [Popped r] = []" "accepted f [Tau] = []" "delivered f [Pushed f' x pr] = []" "delivered f [Tau] = []"
  "delivered f [Popped (Inl e)] = []" "delivered f [Popped (Inr (f', x))] = (if f' = f then [x] else [])"
  by (simp_all add: accepted_def delivered_def)

lemma push_outcome:
  "(r, q') \<in> set (Push c x f q) \<Longrightarrow> chan g q' = chan g q @ accepted g [Pushed f x r] \<and> (within q \<longrightarrow> within q')"
  by (auto simp: queue_defs chan_def within_def split: if_splits)

lemma try_push_outcome:
  "(r, q') \<in> set (TryPush c x f q) \<Longrightarrow> chan g q' = chan g q @ accepted g [Pushed f x r] \<and> (within q \<longrightarrow> within q')"
  by (auto simp: queue_defs chan_def within_def split: if_splits)

lemma pop_outcome:
  "(r, q') \<in> set (Pop_second c q) \<Longrightarrow> chan g q = delivered g [Popped r] @ chan g q' \<and> (within q \<longrightarrow> within q')"
  by (cases "fastQueue q"; cases "slowQueue q") (auto simp: queue_defs chan_def within_def split: if_splits)

lemma pop_first_second: "set (Pop_first c q) \<subseteq> set (Pop_second c q)"
  by (auto simp: Pop_first_def Pop_second_def)

lemma step_conserves:
  assumes "q_step (ph, q) e (ph', q')"
  shows "delivered g [e] @ chan g q' = chan g q @ accepted g [e] \<and> (within q \<longrightarrow> within q')"
  using assms
proof (cases rule: q_step.cases)
  case (try_push r c x f)
  then show ?thesis using try_push_outcome [of r q' c x f q g] by simp
next
  case (push r c x f)
  then show ?thesis using push_outcome [of r q' c x f q g] by simp
next
  case (pop_first r c)
  then show ?thesis using pop_first_second [of c q] pop_outcome [of r q' c q g] by auto
next
  case (pop_second r c)
  then show ?thesis using pop_outcome [of r q' c q g] by auto
qed (auto simp: chan_def within_def q_Close_def)

lemma run_conserves:
  assumes "q_run s es s'"
  shows "delivered g es @ chan g (snd s') = chan g (snd s) @ accepted g es \<and> (within (snd s) \<longrightarrow> within (snd s'))"
  using assms
proof induction
  case (run_snoc s es s' e s'')
  obtain ph q ph' q' where s: "s' = (ph, q)" "s'' = (ph', q')" by (cases s'; cases s'')
  have st: "delivered g [e] @ chan g q' = chan g q @ accepted g [e]" "within q \<longrightarrow> within q'"
    using step_conserves [of ph q e ph' q' g] run_snoc.hyps(2) by (simp_all add: s)
  have IH: "delivered g es @ chan g q = chan g (snd s) @ accepted g es" "within (snd s) \<longrightarrow> within q"
    using run_snoc.IH by (simp_all add: s)
  have "delivered g (es @ [e]) @ chan g q' = delivered g es @ chan g q @ accepted g [e]"
    using st(1) by simp
  also have "\<dots> = chan g (snd s) @ accepted g (es @ [e])"
    using arg_cong [OF IH(1), of "\<lambda>xs. xs @ accepted g [e]"] by simp
  finally show ?case using st(2) IH(2) by (simp add: s)
qed simp

lemma step_sizes: "q_step s e s' \<Longrightarrow> fastSize (snd s') = fastSize (snd s) \<and> slowSize (snd s') = slowSize (snd s)"
  by (induction rule: q_step.induct) (auto simp: queue_defs split: if_splits list.splits)

lemma run_sizes: "q_run s es s' \<Longrightarrow> fastSize (snd s') = fastSize (snd s) \<and> slowSize (snd s') = slowSize (snd s)"
  by (induction rule: q_run.induct) (auto dest: step_sizes)

lemma fast_first:
  assumes "fastQueue q \<noteq> []" "q_step (Idle, q) e s'"
  shows "e \<noteq> Popped (Inr (False, x)) \<and> (e = Tau \<longrightarrow> fst s' = Idle)"
  using assms(2,1) by (cases rule: q_step.cases) (auto simp: Pop_first_def recv_case_def split: list.splits)

text \<open>
  C25. Every execution of the outbound queue with any number of producers and one consumer: for both
  priorities the RPCs delivered so far followed by those still queued are exactly the accepted
  ones in the order they were accepted (nothing is lost, duplicated or reordered), the buffers never
  exceed their sizes, and a consumer that starts a \<^verbatim>\<open>Pop\<close> while a fast RPC is queued does not
  take a slow one and does not wait.
\<close>
theorem queue_runs_are_fifo:
  assumes "q_run (Idle, newRPCQueue fs ss) es (ph, q)"
  shows "accepted True es = delivered True es @ fastQueue q \<and> accepted False es = delivered False es @ slowQueue q
    \<and> length (fastQueue q) \<le> fs \<and> length (slowQueue q) \<le> ss
    \<and> (fastQueue q \<noteq> [] \<and> ph = Idle \<and> q_step (ph, q) e s' \<longrightarrow>
        e \<noteq> Popped (Inr (False, x)) \<and> (e = Tau \<longrightarrow> fst s' = Idle))"
proof -
  have "fastSize q = fs" "slowSize q = ss" using run_sizes [OF assms] by (simp_all add: newRPCQueue_def)
  with run_conserves [OF assms, of True] run_conserves [OF assms, of False] fast_first [of q e s'] show ?thesis
    by (auto simp: newRPCQueue_def chan_def within_def)
qed

theorem queue_runs_are_fifo_witness:
  "\<exists>es q. q_run (Idle, newRPCQueue 1 1) es (Idle, q)
     \<and> delivered True es = [7 :: nat] \<and> accepted False es = delivered False es @ slowQueue q"
proof -
  let ?q0 = "newRPCQueue 1 1 :: nat rpcQueue"
  let ?q1 = "?q0\<lparr>slowQueue := [3]\<rparr>"
  let ?q2 = "?q1\<lparr>fastQueue := [7]\<rparr>"
  have s1: "q_step (Idle, ?q0) (Pushed False 3 None) (Idle, ?q1)"
    by (rule try_push [where c = False]) (simp add: queue_defs newRPCQueue_def done_cases_def)
  have s2: "q_step (Idle, ?q1) (Pushed True 7 None) (Idle, ?q2)"
    by (rule try_push [where c = False]) (simp add: queue_defs newRPCQueue_def done_cases_def)
  have s3: "q_step (Idle, ?q2) (Popped (Inr (True, 7))) (Idle, ?q1)"
    by (rule pop_first [where c = False]) (simp add: queue_defs newRPCQueue_def done_cases_def)
  have r: "q_run (Idle, ?q0) ((([] @ [Pushed False 3 None]) @ [Pushed True 7 None]) @ [Popped (Inr (True, 7))]) (Idle, ?q1)"
    by (rule run_snoc [OF run_snoc [OF run_snoc [OF run_nil s1] s2] s3])
  from queue_runs_are_fifo [OF r] r show ?thesis
    by (intro exI [of _ "[Pushed False 3 None, Pushed True 7 None, Popped (Inr (True, 7))]"] exI [of _ ?q1])
       (simp add: accepted_def delivered_def)
qed

end
