(* ===== verification/Subscription_Filter.thy ===== *)
theory Subscription_Filter
  imports Pubsub_Types "HOL-Library.AList"
begin

text \<open>
  Subscription filters of \<^verbatim>\<open>subscription_filter.go\<close>. The map of accepted subscriptions is an
  association list, since the result enumerates it. The locale \<open>sub_filter\<close> is the contract
  of the interface \<^verbatim>\<open>SubscriptionFilter\<close>: a filter that succeeds returns subscriptions of the request,
  at most one for a bitmask, and only for bitmasks of interest. The two implementations of the
  package satisfy it.
\<close>

datatype filter_error = ErrTooManySubscriptions

datatype SubscriptionFilter =
    allowlistSubscriptionFilter "bitmask list"
  | limitSubscriptionFilter SubscriptionFilter int

definition NewAllowlistSubscriptionFilter :: "bitmask list \<Rightarrow> SubscriptionFilter" where
  "NewAllowlistSubscriptionFilter bitmasks = allowlistSubscriptionFilter bitmasks"

definition WrapLimitSubscriptionFilter :: "SubscriptionFilter \<Rightarrow> int \<Rightarrow> SubscriptionFilter" where
  "WrapLimitSubscriptionFilter f limit = limitSubscriptionFilter f limit"

fun CanSubscribe :: "SubscriptionFilter \<Rightarrow> bitmask \<Rightarrow> bool" where
  "CanSubscribe (allowlistSubscriptionFilter allow) bm \<longleftrightarrow> bm \<in> set allow"
| "CanSubscribe (limitSubscriptionFilter f limit) bm \<longleftrightarrow> CanSubscribe f bm"

definition accept_sub :: "(bitmask \<Rightarrow> bool) \<Rightarrow> SubOpts \<Rightarrow> (bitmask \<times> SubOpts) list \<Rightarrow> (bitmask \<times> SubOpts) list" where
  "accept_sub flt sub accept =
     (let bm = SubBitmask sub in
      if \<not> flt bm then accept
      else case map_of accept bm of
          Some otherSub \<Rightarrow> if Subscribe sub \<noteq> Subscribe otherSub then AList.delete bm accept else accept
        | None \<Rightarrow> AList.update bm sub accept)"

definition FilterSubscriptions :: "SubOpts list \<Rightarrow> (bitmask \<Rightarrow> bool) \<Rightarrow> SubOpts list" where
  "FilterSubscriptions subs flt = map snd (fold (accept_sub flt) subs [])"

fun FilterIncomingSubscriptions :: "SubscriptionFilter \<Rightarrow> peer_id \<Rightarrow> SubOpts list \<Rightarrow> filter_error + SubOpts list" where
  "FilterIncomingSubscriptions (allowlistSubscriptionFilter allow) from subs =
     Inr (FilterSubscriptions subs (CanSubscribe (allowlistSubscriptionFilter allow)))"
| "FilterIncomingSubscriptions (limitSubscriptionFilter f limit) from subs =
     (if int (length subs) > limit then Inl ErrTooManySubscriptions
      else FilterIncomingSubscriptions f from subs)"

section \<open>The contract of a filter\<close>

locale sub_filter =
  fixes can :: "bitmask \<Rightarrow> bool"
    and flt :: "peer_id \<Rightarrow> SubOpts list \<Rightarrow> filter_error + SubOpts list"
  assumes sound: "flt p subs = Inr out \<Longrightarrow>
    set out \<subseteq> set subs \<and> distinct (map SubBitmask out) \<and> list_all (\<lambda>s. can (SubBitmask s)) out"
begin

lemma result_size: "flt p subs = Inr out \<Longrightarrow> length out \<le> length subs"
proof -
  assume "flt p subs = Inr out"
  then have *: "set out \<subseteq> set subs" "distinct out" using sound by (auto simp: distinct_map)
  then have "length out = card (set out)" by (simp add: distinct_card)
  also have "\<dots> \<le> card (set subs)" using * by (simp add: card_mono)
  also have "\<dots> \<le> length subs" by (rule card_length)
  finally show ?thesis .
qed

lemma no_conflict:
  "flt p subs = Inr out \<Longrightarrow> s \<in> set out \<Longrightarrow> s' \<in> set out \<Longrightarrow> SubBitmask s = SubBitmask s' \<Longrightarrow> s = s'"
  using sound by (auto simp: distinct_map inj_on_def)

end

section \<open>What the loop accepts\<close>

text \<open>The subscription kept for a bitmask after the loop, by its occurrences in the request.\<close>

fun settle :: "SubOpts list \<Rightarrow> SubOpts option \<Rightarrow> SubOpts option" where
  "settle [] kept = kept"
| "settle (s # ss) None = settle ss (Some s)"
| "settle (s # ss) (Some k) = settle ss (if Subscribe s \<noteq> Subscribe k then None else Some k)"

definition accept_ok :: "(bitmask \<Rightarrow> bool) \<Rightarrow> SubOpts list \<Rightarrow> (bitmask \<times> SubOpts) list \<Rightarrow> bool" where
  "accept_ok flt subs acc \<longleftrightarrow> distinct (map fst acc) \<and>
     (\<forall>(bm, s) \<in> set acc. SubBitmask s = bm \<and> flt bm \<and> s \<in> set subs)"

lemma accept_sub_ok:
  assumes "accept_ok flt subs acc" "s \<in> set subs"
  shows "accept_ok flt subs (accept_sub flt s acc)"
proof -
  have "set (AList.update (SubBitmask s) s acc) \<subseteq> insert (SubBitmask s, s) (set acc)" by (induction acc) auto
  moreover have "set (AList.delete (SubBitmask s) acc) \<subseteq> set acc" by (auto simp: AList.delete_eq)
  ultimately show ?thesis using assms
    by (auto simp: accept_sub_def accept_ok_def Let_def distinct_update distinct_delete split: option.splits)
qed

lemma accept_fold_ok:
  "accept_ok flt subs acc \<Longrightarrow> set ss \<subseteq> set subs \<Longrightarrow> accept_ok flt subs (fold (accept_sub flt) ss acc)"
  by (induction ss arbitrary: acc) (simp_all add: accept_sub_ok)

lemma accept_fold_lookup:
  "flt bm \<Longrightarrow> map_of (fold (accept_sub flt) ss acc) bm = settle (filter (\<lambda>s. SubBitmask s = bm) ss) (map_of acc bm)"
proof (induction ss arbitrary: acc)
  case (Cons s ss)
  have "map_of (accept_sub flt s acc) bm =
      (if SubBitmask s = bm then settle [s] (map_of acc bm) else map_of acc bm)"
    using Cons.prems by (auto simp: accept_sub_def Let_def update_conv' delete_conv' split: option.splits)
  then show ?case using Cons by (cases "map_of acc bm") auto
qed simp

lemma FilterSubscriptions_sound:
  "set (FilterSubscriptions subs flt) \<subseteq> set subs \<and> distinct (map SubBitmask (FilterSubscriptions subs flt))
   \<and> list_all (\<lambda>s. flt (SubBitmask s)) (FilterSubscriptions subs flt)"
proof -
  have ok: "accept_ok flt subs (fold (accept_sub flt) subs [])"
    by (rule accept_fold_ok) (simp_all add: accept_ok_def)
  then have "map SubBitmask (FilterSubscriptions subs flt) = map fst (fold (accept_sub flt) subs [])"
    by (auto simp: FilterSubscriptions_def accept_ok_def)
  with ok have "distinct (map SubBitmask (FilterSubscriptions subs flt))" by (simp add: accept_ok_def)
  with ok show ?thesis by (auto simp: FilterSubscriptions_def accept_ok_def list_all_iff)
qed

interpretation any_filter: sub_filter "CanSubscribe f" "FilterIncomingSubscriptions f" for f
proof
  show "FilterIncomingSubscriptions f p subs = Inr out \<Longrightarrow>
    set out \<subseteq> set subs \<and> distinct (map SubBitmask out) \<and> list_all (\<lambda>s. CanSubscribe f (SubBitmask s)) out" for p subs out
  proof (induction f)
    case (allowlistSubscriptionFilter allow)
    then show ?case using FilterSubscriptions_sound [of subs "CanSubscribe (allowlistSubscriptionFilter allow)"]
      by (auto simp: list_all_iff)
  qed (auto split: if_splits)
qed

lemma FilterSubscriptions_member:
  "s \<in> set (FilterSubscriptions subs flt) \<longleftrightarrow>
     flt (SubBitmask s) \<and> settle (filter (\<lambda>x. SubBitmask x = SubBitmask s) subs) None = Some s"
proof -
  let ?acc = "fold (accept_sub flt) subs []"
  have ok: "accept_ok flt subs ?acc" by (rule accept_fold_ok) (simp_all add: accept_ok_def)
  then have "s \<in> snd ` set ?acc \<longleftrightarrow> flt (SubBitmask s) \<and> map_of ?acc (SubBitmask s) = Some s"
    by (force simp: accept_ok_def image_iff)
  with accept_fold_lookup [of flt "SubBitmask s" subs "[]"] show ?thesis
    by (auto simp: FilterSubscriptions_def)
qed

lemma settle_agree:
  "list_all (\<lambda>x. Subscribe x = Subscribe s) ss \<Longrightarrow> settle ss (Some s) = Some s"
  by (induction ss) simp_all

text \<open>
  C29. Filtering an incoming request through any nesting of limit filters around an allowlist either
  fails because it has more entries than some limit, or returns exactly the entries \<open>s\<close> for
  allowed bitmasks that survive the cancellation of opposite entries for the same bitmask; the
  result then has at most one entry for a bitmask and no more entries than the request.
\<close>
theorem FilterIncomingSubscriptions_exact:
  assumes "FilterIncomingSubscriptions f from subs = Inr out"
  shows "(s \<in> set out \<longleftrightarrow> CanSubscribe f (SubBitmask s)
           \<and> settle (filter (\<lambda>x. SubBitmask x = SubBitmask s) subs) None = Some s)
    \<and> distinct (map SubBitmask out) \<and> length out \<le> length subs
    \<and> FilterIncomingSubscriptions (limitSubscriptionFilter f limit) from subs =
        (if int (length subs) > limit then Inl ErrTooManySubscriptions else Inr out)"
proof -
  have "s \<in> set out \<longleftrightarrow> CanSubscribe f (SubBitmask s)
           \<and> settle (filter (\<lambda>x. SubBitmask x = SubBitmask s) subs) None = Some s"
    using assms by (induction f) (auto simp: FilterSubscriptions_member split: if_splits)
  then show ?thesis using assms any_filter.sound [OF assms] any_filter.result_size [OF assms] by simp
qed

theorem FilterIncomingSubscriptions_exact_witness:
  "\<exists>out. FilterIncomingSubscriptions (allowlistSubscriptionFilter [[1]]) ''p''
       [\<lparr>Subscribe = True, SubBitmask = [1]\<rparr>, \<lparr>Subscribe = True, SubBitmask = [2]\<rparr>] = Inr out
     \<and> \<lparr>Subscribe = True, SubBitmask = [1]\<rparr> \<in> set out \<and> length out \<le> 2"
  using FilterIncomingSubscriptions_exact [of "allowlistSubscriptionFilter [[1]]" "''p''"
      "[\<lparr>Subscribe = True, SubBitmask = [1]\<rparr>, \<lparr>Subscribe = True, SubBitmask = [2]\<rparr>]" _
      "\<lparr>Subscribe = True, SubBitmask = [1]\<rparr>" 5]
  by simp

end
