(* ===== verification/Rpc_Split.thy ===== *)
theory Rpc_Split
  imports Pubsub_Types
begin

text \<open>
  \<^verbatim>\<open>appendOrMergeRPC\<close> of \<^verbatim>\<open>blossomsub.go\<close>: merging RPCs and splitting them so that each stays below the
  message size limit. The encoded size of an RPC (\<^verbatim>\<open>proto.Size\<close> of the protobuf library) is the
  parameter \<open>sz\<close>; the only fact used about it is that it depends on the wire contents, so not on
  whether an empty repeated field is nil. The loop variable \<^verbatim>\<open>lastRPC\<close> always is the last RPC of
  \<^verbatim>\<open>out\<close>; every loop body appends an item to it and, when that makes it too large, takes the item
  out again and starts a new RPC with it.
\<close>

definition try_last :: "(RPC \<Rightarrow> int) \<Rightarrow> int \<Rightarrow> (RPC \<Rightarrow> RPC) \<Rightarrow> (RPC \<Rightarrow> RPC) \<Rightarrow> RPC \<Rightarrow> RPC list \<Rightarrow> RPC list" where
  "try_last sz limit add undo fresh out =
     (let l = add (last out) in
      if sz l > limit then butlast out @ [undo l, fresh] else butlast out @ [l])"

definition upd_ctl :: "(ControlMessage \<Rightarrow> ControlMessage) \<Rightarrow> RPC \<Rightarrow> RPC" where
  "upd_ctl f r = r\<lparr>Control := map_option f (Control r)\<rparr>"

definition ctl_of :: "RPC \<Rightarrow> ControlMessage" where
  "ctl_of r = (case Control r of None \<Rightarrow> empty_ctl | Some c \<Rightarrow> c)"

definition ctl_rpc :: "peer_id \<Rightarrow> ControlMessage \<Rightarrow> RPC" where
  "ctl_rpc from c = (empty_rpc from)\<lparr>Control := Some c\<rparr>"

definition merge_publish :: "(RPC \<Rightarrow> int) \<Rightarrow> int \<Rightarrow> peer_id \<Rightarrow> pbMessage \<Rightarrow> RPC list \<Rightarrow> RPC list" where
  "merge_publish sz limit from msg =
     try_last sz limit (\<lambda>r. r\<lparr>Publish := Publish r @ [msg]\<rparr>) (\<lambda>r. r\<lparr>Publish := butlast (Publish r)\<rparr>)
       ((empty_rpc from)\<lparr>Publish := [msg]\<rparr>)"

definition merge_sub :: "(RPC \<Rightarrow> int) \<Rightarrow> int \<Rightarrow> peer_id \<Rightarrow> SubOpts \<Rightarrow> RPC list \<Rightarrow> RPC list" where
  "merge_sub sz limit from sub =
     try_last sz limit (\<lambda>r. r\<lparr>Subscriptions := Subscriptions r @ [sub]\<rparr>)
       (\<lambda>r. r\<lparr>Subscriptions := butlast (Subscriptions r)\<rparr>) ((empty_rpc from)\<lparr>Subscriptions := [sub]\<rparr>)"

definition ensure_ctl :: "(RPC \<Rightarrow> int) \<Rightarrow> int \<Rightarrow> peer_id \<Rightarrow> RPC list \<Rightarrow> RPC list" where
  "ensure_ctl sz limit from out = (if Control (last out) \<noteq> None then out
     else try_last sz limit (\<lambda>r. r\<lparr>Control := Some empty_ctl\<rparr>) (\<lambda>r. r\<lparr>Control := None\<rparr>) (ctl_rpc from empty_ctl) out)"

definition merge_graft :: "(RPC \<Rightarrow> int) \<Rightarrow> int \<Rightarrow> peer_id \<Rightarrow> ControlGraft \<Rightarrow> RPC list \<Rightarrow> RPC list" where
  "merge_graft sz limit from g =
     try_last sz limit (upd_ctl (\<lambda>c. c\<lparr>Graft := go_append (Graft c) [g]\<rparr>))
       (upd_ctl (\<lambda>c. c\<lparr>Graft := map_option butlast (Graft c)\<rparr>)) (ctl_rpc from (empty_ctl\<lparr>Graft := Some [g]\<rparr>))"

definition merge_prune :: "(RPC \<Rightarrow> int) \<Rightarrow> int \<Rightarrow> peer_id \<Rightarrow> ControlPrune \<Rightarrow> RPC list \<Rightarrow> RPC list" where
  "merge_prune sz limit from p =
     try_last sz limit (upd_ctl (\<lambda>c. c\<lparr>Prune := go_append (Prune c) [p]\<rparr>))
       (upd_ctl (\<lambda>c. c\<lparr>Prune := map_option butlast (Prune c)\<rparr>)) (ctl_rpc from (empty_ctl\<lparr>Prune := Some [p]\<rparr>))"

definition on_first_iwant :: "(message_id list \<Rightarrow> message_id list) \<Rightarrow> ControlMessage \<Rightarrow> ControlMessage" where
  "on_first_iwant f c = c\<lparr>Iwant := (case Iwant c of [] \<Rightarrow> [] | w # ws \<Rightarrow> w\<lparr>IWantIDs := f (IWantIDs w)\<rparr> # ws)\<rparr>"

definition merge_iwant_id :: "(RPC \<Rightarrow> int) \<Rightarrow> int \<Rightarrow> peer_id \<Rightarrow> message_id \<Rightarrow> RPC list \<Rightarrow> RPC list" where
  "merge_iwant_id sz limit from i =
     try_last sz limit (upd_ctl (on_first_iwant (\<lambda>ids. ids @ [i]))) (upd_ctl (on_first_iwant butlast))
       (ctl_rpc from (empty_ctl\<lparr>Iwant := [\<lparr>IWantIDs = [i]\<rparr>]\<rparr>))"

definition start_iwant :: "(RPC \<Rightarrow> int) \<Rightarrow> int \<Rightarrow> peer_id \<Rightarrow> RPC list \<Rightarrow> RPC list" where
  "start_iwant sz limit from out =
     (if Iwant (ctl_of (last out)) = [] then
        try_last sz limit (upd_ctl (\<lambda>c. c\<lparr>Iwant := Iwant c @ [\<lparr>IWantIDs = []\<rparr>]\<rparr>))
          (upd_ctl (\<lambda>c. c\<lparr>Iwant := butlast (Iwant c)\<rparr>)) (ctl_rpc from (empty_ctl\<lparr>Iwant := [\<lparr>IWantIDs = []\<rparr>]\<rparr>)) out
      else out)"

definition merge_iwant :: "(RPC \<Rightarrow> int) \<Rightarrow> int \<Rightarrow> peer_id \<Rightarrow> ControlIWant \<Rightarrow> RPC list \<Rightarrow> RPC list" where
  "merge_iwant sz limit from iwant out =
     fold (merge_iwant_id sz limit from) (IWantIDs iwant) (start_iwant sz limit from out)"

definition on_last_ihave :: "(message_id list \<Rightarrow> message_id list) \<Rightarrow> ControlMessage \<Rightarrow> ControlMessage" where
  "on_last_ihave f c = c\<lparr>Ihave := (case Ihave c of [] \<Rightarrow> []
     | _ \<Rightarrow> butlast (Ihave c) @ [(last (Ihave c))\<lparr>IHaveIDs := f (IHaveIDs (last (Ihave c)))\<rparr>])\<rparr>"

definition merge_ihave_id :: "(RPC \<Rightarrow> int) \<Rightarrow> int \<Rightarrow> peer_id \<Rightarrow> bitmask \<Rightarrow> message_id \<Rightarrow> RPC list \<Rightarrow> RPC list" where
  "merge_ihave_id sz limit from bm i =
     try_last sz limit (upd_ctl (on_last_ihave (\<lambda>ids. ids @ [i]))) (upd_ctl (on_last_ihave butlast))
       (ctl_rpc from (empty_ctl\<lparr>Ihave := [\<lparr>IHaveBitmask = bm, IHaveIDs = [i]\<rparr>]\<rparr>))"

definition start_ihave :: "(RPC \<Rightarrow> int) \<Rightarrow> int \<Rightarrow> peer_id \<Rightarrow> bitmask \<Rightarrow> RPC list \<Rightarrow> RPC list" where
  "start_ihave sz limit from bm out =
     (let hs = Ihave (ctl_of (last out)); h = \<lparr>IHaveBitmask = bm, IHaveIDs = []\<rparr> in
      if hs = [] \<or> IHaveBitmask (last hs) \<noteq> bm then
        try_last sz limit (upd_ctl (\<lambda>c. c\<lparr>Ihave := Ihave c @ [h]\<rparr>))
          (upd_ctl (\<lambda>c. c\<lparr>Ihave := butlast (Ihave c)\<rparr>)) (ctl_rpc from (empty_ctl\<lparr>Ihave := [h]\<rparr>)) out
      else out)"

definition merge_ihave :: "(RPC \<Rightarrow> int) \<Rightarrow> int \<Rightarrow> peer_id \<Rightarrow> ControlIHave \<Rightarrow> RPC list \<Rightarrow> RPC list" where
  "merge_ihave sz limit from ihave out =
     fold (merge_ihave_id sz limit from (IHaveBitmask ihave)) (IHaveIDs ihave)
       (start_ihave sz limit from (IHaveBitmask ihave) out)"

definition merge_ctl :: "(RPC \<Rightarrow> int) \<Rightarrow> int \<Rightarrow> peer_id \<Rightarrow> ControlMessage \<Rightarrow> RPC list \<Rightarrow> RPC list" where
  "merge_ctl sz limit from ctl out =
     (let out = ensure_ctl sz limit from out;
          out = fold (merge_graft sz limit from) (elems (Graft ctl)) out;
          out = fold (merge_prune sz limit from) (elems (Prune ctl)) out;
          out = fold (merge_iwant sz limit from) (Iwant ctl) out
      in fold (merge_ihave sz limit from) (Ihave ctl) out)"

definition merge_elem :: "(RPC \<Rightarrow> int) \<Rightarrow> int \<Rightarrow> RPC \<Rightarrow> RPC list \<Rightarrow> RPC list" where
  "merge_elem sz limit elem out =
     (let from = rpc_from elem;
          out = fold (merge_publish sz limit from) (Publish elem) out;
          out = fold (merge_sub sz limit from) (Subscriptions elem) out
      in case Control elem of None \<Rightarrow> out | Some ctl \<Rightarrow> merge_ctl sz limit from ctl out)"

definition appendOrMergeRPC :: "(RPC \<Rightarrow> int) \<Rightarrow> RPC list \<Rightarrow> int \<Rightarrow> RPC list \<Rightarrow> RPC list" where
  "appendOrMergeRPC sz acc limit rpcs =
     (if rpcs = [] then acc
      else if acc = [] \<and> length rpcs = 1 \<and> sz (hd rpcs) < limit then acc @ [hd rpcs]
      else fold (merge_elem sz limit) rpcs (if acc = [] then [empty_rpc (rpc_from (hd rpcs))] else acc))"

section \<open>Contents and sizes\<close>

datatype item = IPub pbMessage | ISub SubOpts | IGraft ControlGraft | IPrune ControlPrune
  | IIWant message_id | IIHave bitmask message_id | IIDontWant message_id

datatype kind = KPub | KSub | KGraft | KPrune | KIWant | KIHave | KIDontWant

fun kind_of :: "item \<Rightarrow> kind" where
  "kind_of (IPub _) = KPub" | "kind_of (ISub _) = KSub" | "kind_of (IGraft _) = KGraft"
| "kind_of (IPrune _) = KPrune" | "kind_of (IIWant _) = KIWant" | "kind_of (IIHave _ _) = KIHave"
| "kind_of (IIDontWant _) = KIDontWant"

definition of_kind :: "item \<Rightarrow> kind \<Rightarrow> item list" where
  "of_kind i k = (if kind_of i = k then [i] else [])"

fun content :: "kind \<Rightarrow> RPC \<Rightarrow> item list" where
  "content KPub r = map IPub (Publish r)"
| "content KSub r = map ISub (Subscriptions r)"
| "content KGraft r = map IGraft (elems (Graft (ctl_of r)))"
| "content KPrune r = map IPrune (elems (Prune (ctl_of r)))"
| "content KIWant r = concat (map (\<lambda>w. map IIWant (IWantIDs w)) (Iwant (ctl_of r)))"
| "content KIHave r = concat (map (\<lambda>h. map (IIHave (IHaveBitmask h)) (IHaveIDs h)) (Ihave (ctl_of r)))"
| "content KIDontWant r = concat (map (\<lambda>d. map IIDontWant (IDontWantIDs d)) (Idontwant (ctl_of r)))"

definition contents :: "kind \<Rightarrow> RPC list \<Rightarrow> item list" where
  "contents k rs = concat (map (content k) rs)"

definition nitems :: "RPC \<Rightarrow> nat" where
  "nitems r = sum_list (map (\<lambda>k. length (content k r)) [KPub, KSub, KGraft, KPrune, KIWant, KIHave, KIDontWant])"

text \<open>What goes over the wire: a nil and an empty repeated field are the same.\<close>

definition wire :: "RPC \<Rightarrow> _" where
  "wire r = (Subscriptions r, Publish r,
     map_option (\<lambda>c. (Ihave c, Iwant c, elems (Graft c), elems (Prune c), Idontwant c)) (Control r))"

definition wire_size :: "(RPC \<Rightarrow> int) \<Rightarrow> bool" where
  "wire_size sz \<longleftrightarrow> (\<forall>r r'. wire r = wire r' \<longrightarrow> sz r = sz r')"

definition fits :: "(RPC \<Rightarrow> int) \<Rightarrow> int \<Rightarrow> RPC \<Rightarrow> bool" where
  "fits sz limit r \<longleftrightarrow> sz r \<le> limit \<or> nitems r \<le> 1"

lemma wire_ctl:
  assumes "wire r = wire r'"
  shows "Ihave (ctl_of r) = Ihave (ctl_of r') \<and> Iwant (ctl_of r) = Iwant (ctl_of r')
    \<and> elems (Graft (ctl_of r)) = elems (Graft (ctl_of r')) \<and> elems (Prune (ctl_of r)) = elems (Prune (ctl_of r'))
    \<and> Idontwant (ctl_of r) = Idontwant (ctl_of r')"
  using assms by (cases "Control r"; cases "Control r'") (simp_all add: wire_def ctl_of_def)

lemma wire_content: "wire r = wire r' \<Longrightarrow> content k r = content k r'"
  using wire_ctl [of r r'] by (cases k) (simp_all add: wire_def)

lemma wire_nitems: "wire r = wire r' \<Longrightarrow> nitems r = nitems r'"
  using wire_content [of r r'] by (simp add: nitems_def)

definition grows :: "(RPC \<Rightarrow> int) \<Rightarrow> int \<Rightarrow> (kind \<Rightarrow> item list) \<Rightarrow> RPC list \<Rightarrow> RPC list \<Rightarrow> bool" where
  "grows sz limit x out out' \<longleftrightarrow> (\<forall>k. contents k out' = contents k out @ x k) \<and>
     (wire_size sz \<longrightarrow> list_all (fits sz limit) out \<longrightarrow> list_all (fits sz limit) out') \<and> out' \<noteq> []"

lemma add_refl: "out \<noteq> [] \<Longrightarrow> grows sz limit (\<lambda>_. []) out out"
  by (simp add: grows_def)

lemma add_trans: "grows sz limit x a b \<Longrightarrow> grows sz limit y b c \<Longrightarrow> grows sz limit (\<lambda>k. x k @ y k) a c"
  by (simp add: grows_def)

lemma contents_snoc [simp]: "contents k (out @ [r]) = contents k out @ content k r"
  by (simp add: contents_def)

lemma contents_last: "out \<noteq> [] \<Longrightarrow> contents k (butlast out) @ content k (last out) = contents k out"
  by (metis append_butlast_last_id contents_snoc)

lemma try_last_grows:
  assumes "out \<noteq> []" and add: "\<And>k. content k (add (last out)) = content k (last out) @ x k"
    and undo: "wire (undo (add (last out))) = wire (last out)"
    and fresh: "\<And>k. content k fresh = x k" "nitems fresh \<le> 1"
  shows "grows sz limit x out (try_last sz limit add undo fresh out)"
proof -
  let ?l = "last out" and ?out = "try_last sz limit add undo fresh out"
  have cl: "contents k out = contents k (butlast out) @ content k ?l" for k
    using contents_last [OF assms(1)] by simp
  have "contents k ?out = contents k out @ x k" for k
    using wire_content [OF undo, of k] add [of k] fresh(1) [of k] cl [of k]
    by (simp add: try_last_def Let_def contents_def)
  moreover have "list_all (fits sz limit) ?out" if "wire_size sz" "list_all (fits sz limit) out"
  proof -
    have b: "list_all (fits sz limit) (butlast out)" "fits sz limit ?l"
      using that(2) assms(1) by (auto simp: list_all_iff dest: in_set_butlastD)
    moreover have "sz (undo (add ?l)) = sz ?l" using that(1) undo unfolding wire_size_def by blast
    then have "fits sz limit (undo (add ?l))" using b(2) wire_nitems [OF undo] by (simp add: fits_def)
    ultimately show ?thesis using fresh(2) by (simp add: try_last_def Let_def fits_def)
  qed
  ultimately show ?thesis unfolding grows_def by (simp add: try_last_def Let_def)
qed

lemma last_try_last: "last (try_last sz limit add undo fresh out) \<in> {add (last out), fresh}"
  by (simp add: try_last_def Let_def)

section \<open>The loop bodies\<close>

lemma content_other [simp]:
  "content k (empty_rpc from) = []"
  "ctl_of (r\<lparr>Publish := ms\<rparr>) = ctl_of r" "ctl_of (r\<lparr>Subscriptions := ss\<rparr>) = ctl_of r"
  "ctl_of (ctl_rpc from c) = c" "Publish (ctl_rpc from c) = []" "Subscriptions (ctl_rpc from c) = []"
  "Publish (upd_ctl f r) = Publish r" "Subscriptions (upd_ctl f r) = Subscriptions r"
  "Control r \<noteq> None \<Longrightarrow> ctl_of (upd_ctl f r) = f (ctl_of r)"
  by (cases k; auto simp: empty_rpc_def ctl_of_def empty_ctl_def ctl_rpc_def upd_ctl_def)+

lemma wire_upd_ctl:
  assumes "Control r \<noteq> None"
    and "Ihave (f (ctl_of r)) = Ihave (ctl_of r)" "Iwant (f (ctl_of r)) = Iwant (ctl_of r)"
    "elems (Graft (f (ctl_of r))) = elems (Graft (ctl_of r))" "elems (Prune (f (ctl_of r))) = elems (Prune (ctl_of r))"
    "Idontwant (f (ctl_of r)) = Idontwant (ctl_of r)"
  shows "wire (upd_ctl f r) = wire r"
  using assms by (cases "Control r") (simp_all add: wire_def upd_ctl_def ctl_of_def)

lemma upd_ctl_upd_ctl [simp]: "upd_ctl f (upd_ctl g r) = upd_ctl (\<lambda>c. f (g c)) r"
  by (simp add: upd_ctl_def option.map_comp comp_def)

lemma Control_upd_ctl [simp]: "Control (upd_ctl f r) = None \<longleftrightarrow> Control r = None" "Control (ctl_rpc from c) = Some c"
  by (simp_all add: upd_ctl_def ctl_rpc_def)

lemma empty_ctl_simps [simp]:
  "Ihave empty_ctl = []" "Iwant empty_ctl = []" "Graft empty_ctl = None" "Prune empty_ctl = None" "Idontwant empty_ctl = []"
  by (simp_all add: empty_ctl_def)

lemma merge_publish_grows: "out \<noteq> [] \<Longrightarrow> grows sz limit (of_kind (IPub m)) out (merge_publish sz limit from m out)"
  unfolding merge_publish_def
proof (rule try_last_grows)
  show "content k ((last out)\<lparr>Publish := Publish (last out) @ [m]\<rparr>) = content k (last out) @ of_kind (IPub m) k" for k
    by (cases k) (simp_all add: of_kind_def)
  show "content k ((empty_rpc from)\<lparr>Publish := [m]\<rparr>) = of_kind (IPub m) k" for k
    by (cases k) (simp_all add: of_kind_def empty_rpc_def ctl_of_def)
qed (simp_all add: wire_def nitems_def empty_rpc_def ctl_of_def)

lemma merge_sub_grows: "out \<noteq> [] \<Longrightarrow> grows sz limit (of_kind (ISub m)) out (merge_sub sz limit from m out)"
  unfolding merge_sub_def
proof (rule try_last_grows)
  show "content k ((last out)\<lparr>Subscriptions := Subscriptions (last out) @ [m]\<rparr>) = content k (last out) @ of_kind (ISub m) k" for k
    by (cases k) (simp_all add: of_kind_def)
  show "content k ((empty_rpc from)\<lparr>Subscriptions := [m]\<rparr>) = of_kind (ISub m) k" for k
    by (cases k) (simp_all add: of_kind_def empty_rpc_def ctl_of_def)
qed (simp_all add: wire_def nitems_def empty_rpc_def ctl_of_def)

definition has_ctl :: "RPC list \<Rightarrow> bool" where
  "has_ctl out \<longleftrightarrow> out \<noteq> [] \<and> Control (last out) \<noteq> None"

lemma has_ctl_try_last:
  "has_ctl out \<Longrightarrow> has_ctl (try_last sz limit (upd_ctl f) undo (ctl_rpc from c) out)"
  by (simp add: has_ctl_def try_last_def Let_def del: not_None_eq)

lemma ensure_ctl_grows:
  assumes "out \<noteq> []"
  shows "grows sz limit (\<lambda>_. []) out (ensure_ctl sz limit from out) \<and> has_ctl (ensure_ctl sz limit from out)"
proof (cases "Control (last out)")
  case None
  have "grows sz limit (\<lambda>_. []) out (try_last sz limit (\<lambda>r. r\<lparr>Control := Some empty_ctl\<rparr>) (\<lambda>r. r\<lparr>Control := None\<rparr>) (ctl_rpc from empty_ctl) out)"
  proof (rule try_last_grows [OF assms])
    show "content k ((last out)\<lparr>Control := Some empty_ctl\<rparr>) = content k (last out) @ []" for k
      using None by (cases k) (simp_all add: ctl_of_def)
    show "content k (ctl_rpc from empty_ctl) = []" for k by (cases k) simp_all
  qed (use None in \<open>simp_all add: wire_def nitems_def\<close>)
  with None show ?thesis by (simp add: ensure_ctl_def has_ctl_def try_last_def Let_def)
next
  case (Some c)
  with assms show ?thesis by (simp add: ensure_ctl_def add_refl has_ctl_def)
qed

lemma ctl_step_grows:
  assumes "has_ctl out" and "\<And>k. content k (upd_ctl f (last out)) = content k (last out) @ x k"
    and "wire (upd_ctl (\<lambda>c. g (f c)) (last out)) = wire (last out)"
    and "\<And>k. content k (ctl_rpc from c) = x k" "nitems (ctl_rpc from c) \<le> 1"
  shows "grows sz limit x out (try_last sz limit (upd_ctl f) (upd_ctl g) (ctl_rpc from c) out)
    \<and> has_ctl (try_last sz limit (upd_ctl f) (upd_ctl g) (ctl_rpc from c) out)"
  using assms has_ctl_try_last [OF assms(1)] by (intro conjI try_last_grows) (auto simp: has_ctl_def)

lemma merge_graft_grows:
  assumes "has_ctl out"
  shows "grows sz limit (of_kind (IGraft g)) out (merge_graft sz limit from g out) \<and> has_ctl (merge_graft sz limit from g out)"
  unfolding merge_graft_def
proof (rule ctl_step_grows [OF assms])
  have c: "Control (last out) \<noteq> None" using assms by (simp add: has_ctl_def)
  show "content k (upd_ctl (\<lambda>c. c\<lparr>Graft := go_append (Graft c) [g]\<rparr>) (last out)) = content k (last out) @ of_kind (IGraft g) k" for k
    using c by (cases k) (simp_all add: of_kind_def)
  show "content k (ctl_rpc from (empty_ctl\<lparr>Graft := Some [g]\<rparr>)) = of_kind (IGraft g) k" for k
    by (cases k) (simp_all add: of_kind_def)
  show "wire (upd_ctl (\<lambda>c. (c\<lparr>Graft := go_append (Graft c) [g]\<rparr>)\<lparr>Graft := map_option butlast (Graft (c\<lparr>Graft := go_append (Graft c) [g]\<rparr>))\<rparr>) (last out)) = wire (last out)"
    using c by (rule wire_upd_ctl) (simp_all add: go_append_def)
qed (simp add: nitems_def)

lemma merge_prune_grows:
  assumes "has_ctl out"
  shows "grows sz limit (of_kind (IPrune g)) out (merge_prune sz limit from g out) \<and> has_ctl (merge_prune sz limit from g out)"
  unfolding merge_prune_def
proof (rule ctl_step_grows [OF assms])
  have c: "Control (last out) \<noteq> None" using assms by (simp add: has_ctl_def)
  show "content k (upd_ctl (\<lambda>c. c\<lparr>Prune := go_append (Prune c) [g]\<rparr>) (last out)) = content k (last out) @ of_kind (IPrune g) k" for k
    using c by (cases k) (simp_all add: of_kind_def)
  show "content k (ctl_rpc from (empty_ctl\<lparr>Prune := Some [g]\<rparr>)) = of_kind (IPrune g) k" for k
    by (cases k) (simp_all add: of_kind_def)
  show "wire (upd_ctl (\<lambda>c. (c\<lparr>Prune := go_append (Prune c) [g]\<rparr>)\<lparr>Prune := map_option butlast (Prune (c\<lparr>Prune := go_append (Prune c) [g]\<rparr>))\<rparr>) (last out)) = wire (last out)"
    using c by (rule wire_upd_ctl) (simp_all add: go_append_def)
qed (simp add: nitems_def)

text \<open>The IWANT entries go into the first (and only) IWANT of the last RPC.\<close>

definition one_iwant :: "RPC list \<Rightarrow> bool" where
  "one_iwant out \<longleftrightarrow> has_ctl out \<and> length (Iwant (ctl_of (last out))) = 1"

lemma merge_iwant_id_grows:
  assumes "one_iwant out"
  shows "grows sz limit (of_kind (IIWant i)) out (merge_iwant_id sz limit from i out) \<and> one_iwant (merge_iwant_id sz limit from i out)"
proof -
  have h: "has_ctl out" and c: "Control (last out) \<noteq> None" using assms by (simp_all add: one_iwant_def has_ctl_def)
  obtain w where w: "Iwant (ctl_of (last out)) = [w]" using assms by (auto simp: one_iwant_def length_Suc_conv)
  have "grows sz limit (of_kind (IIWant i)) out (merge_iwant_id sz limit from i out) \<and> has_ctl (merge_iwant_id sz limit from i out)"
    unfolding merge_iwant_id_def
  proof (rule ctl_step_grows [OF h])
    show "content k (upd_ctl (on_first_iwant (\<lambda>ids. ids @ [i])) (last out)) = content k (last out) @ of_kind (IIWant i) k" for k
      using c w by (cases k) (simp_all add: of_kind_def on_first_iwant_def)
    show "content k (ctl_rpc from (empty_ctl\<lparr>Iwant := [\<lparr>IWantIDs = [i]\<rparr>]\<rparr>)) = of_kind (IIWant i) k" for k
      by (cases k) (simp_all add: of_kind_def)
    show "wire (upd_ctl (\<lambda>c. on_first_iwant butlast (on_first_iwant (\<lambda>ids. ids @ [i]) c)) (last out)) = wire (last out)"
      using c by (rule wire_upd_ctl) (simp_all add: on_first_iwant_def w)
  qed (simp add: nitems_def)
  moreover have "length (Iwant (ctl_of (last (merge_iwant_id sz limit from i out)))) = 1"
    using c w by (simp add: merge_iwant_id_def try_last_def Let_def on_first_iwant_def)
  ultimately show ?thesis by (simp add: one_iwant_def)
qed

lemma fold_grows:
  assumes "P out" "out \<noteq> []"
    and step: "\<And>x out. P out \<Longrightarrow> grows sz limit (f x) out (g x out) \<and> P (g x out)"
  shows "grows sz limit (\<lambda>k. concat (map (\<lambda>x. f x k) xs)) out (fold g xs out) \<and> P (fold g xs out)"
  using assms(1,2)
proof (induction xs arbitrary: out)
  case (Cons x xs)
  have s: "grows sz limit (f x) out (g x out)" "P (g x out)" using step Cons.prems(1) by auto
  then have "g x out \<noteq> []" by (simp add: grows_def)
  from Cons.IH [OF s(2) this] add_trans [OF s(1)] show ?case by auto
qed (simp add: add_refl)

lemma start_iwant_grows:
  assumes "has_ctl out" "length (Iwant (ctl_of (last out))) \<le> 1"
  shows "grows sz limit (\<lambda>_. []) out (start_iwant sz limit from out) \<and> one_iwant (start_iwant sz limit from out)"
proof (cases "Iwant (ctl_of (last out)) = []")
  case True
  have c: "Control (last out) \<noteq> None" using assms by (simp add: has_ctl_def)
  let ?t = "try_last sz limit (upd_ctl (\<lambda>c. c\<lparr>Iwant := Iwant c @ [\<lparr>IWantIDs = []\<rparr>]\<rparr>))
      (upd_ctl (\<lambda>c. c\<lparr>Iwant := butlast (Iwant c)\<rparr>)) (ctl_rpc from (empty_ctl\<lparr>Iwant := [\<lparr>IWantIDs = []\<rparr>]\<rparr>)) out"
  have "grows sz limit (\<lambda>_. []) out ?t \<and> has_ctl ?t"
  proof (rule ctl_step_grows [OF assms(1)])
    show "content k (upd_ctl (\<lambda>c. c\<lparr>Iwant := Iwant c @ [\<lparr>IWantIDs = []\<rparr>]\<rparr>) (last out)) = content k (last out) @ []" for k
      using c True by (cases k) simp_all
    show "content k (ctl_rpc from (empty_ctl\<lparr>Iwant := [\<lparr>IWantIDs = []\<rparr>]\<rparr>)) = []" for k by (cases k) simp_all
    show "wire (upd_ctl (\<lambda>c. (c\<lparr>Iwant := Iwant c @ [\<lparr>IWantIDs = []\<rparr>]\<rparr>)\<lparr>Iwant := butlast (Iwant (c\<lparr>Iwant := Iwant c @ [\<lparr>IWantIDs = []\<rparr>]\<rparr>))\<rparr>) (last out)) = wire (last out)"
      using c by (rule wire_upd_ctl) simp_all
  qed (simp add: nitems_def)
  moreover have "length (Iwant (ctl_of (last ?t))) = 1" using c True by (simp add: try_last_def Let_def)
  ultimately show ?thesis using True by (simp add: one_iwant_def start_iwant_def)
next
  case False
  with assms have "length (Iwant (ctl_of (last out))) = 1" by (cases "Iwant (ctl_of (last out))") auto
  with assms False show ?thesis by (simp add: one_iwant_def add_refl has_ctl_def start_iwant_def)
qed

lemma fold_grows_from:
  assumes "grows sz limit (\<lambda>_. []) out out1 \<and> P out1"
    and "\<And>x out. P out \<Longrightarrow> grows sz limit (f x) out (g x out) \<and> P (g x out)"
  shows "grows sz limit (\<lambda>k. concat (map (\<lambda>x. f x k) xs)) out (fold g xs out1) \<and> P (fold g xs out1)"
proof -
  have "out1 \<noteq> []" using assms(1) by (simp add: grows_def)
  from fold_grows [of P out1 sz limit f g xs, OF _ this assms(2)] assms(1)
    add_trans [of sz limit "\<lambda>_. []" out out1] show ?thesis by fastforce
qed

lemma merge_iwant_grows:
  assumes "has_ctl out" "length (Iwant (ctl_of (last out))) \<le> 1"
  shows "grows sz limit (\<lambda>k. concat (map (\<lambda>i. of_kind (IIWant i) k) (IWantIDs w))) out (merge_iwant sz limit from w out)
    \<and> one_iwant (merge_iwant sz limit from w out)"
  unfolding merge_iwant_def
  by (rule fold_grows_from [OF start_iwant_grows [OF assms] merge_iwant_id_grows])

text \<open>The IHAVE entries go into the last IHAVE of the last RPC, which has their bitmask.\<close>

definition last_ihave :: "bitmask \<Rightarrow> RPC list \<Rightarrow> bool" where
  "last_ihave bm out \<longleftrightarrow> has_ctl out \<and> Ihave (ctl_of (last out)) \<noteq> [] \<and> IHaveBitmask (last (Ihave (ctl_of (last out)))) = bm"

lemma merge_ihave_id_grows:
  assumes "last_ihave bm out"
  shows "grows sz limit (of_kind (IIHave bm i)) out (merge_ihave_id sz limit from bm i out) \<and> last_ihave bm (merge_ihave_id sz limit from bm i out)"
proof -
  have h: "has_ctl out" and c: "Control (last out) \<noteq> None" using assms by (simp_all add: last_ihave_def has_ctl_def)
  obtain hs w where w: "Ihave (ctl_of (last out)) = hs @ [w]" "IHaveBitmask w = bm"
    using assms by (metis append_butlast_last_id last_ihave_def)
  then have ne: "Ihave (ctl_of (last out)) \<noteq> []" by simp
  have upd: "on_last_ihave f (ctl_of (last out)) = (ctl_of (last out))\<lparr>Ihave := hs @ [w\<lparr>IHaveIDs := f (IHaveIDs w)\<rparr>]\<rparr>" for f
    using w by (cases hs) (simp_all add: on_last_ihave_def butlast_append)
  have "grows sz limit (of_kind (IIHave bm i)) out (merge_ihave_id sz limit from bm i out) \<and> has_ctl (merge_ihave_id sz limit from bm i out)"
    unfolding merge_ihave_id_def
  proof (rule ctl_step_grows [OF h])
    show "content k (upd_ctl (on_last_ihave (\<lambda>ids. ids @ [i])) (last out)) = content k (last out) @ of_kind (IIHave bm i) k" for k
      using c w by (cases k) (simp_all add: of_kind_def upd)
    show "content k (ctl_rpc from (empty_ctl\<lparr>Ihave := [\<lparr>IHaveBitmask = bm, IHaveIDs = [i]\<rparr>]\<rparr>)) = of_kind (IIHave bm i) k" for k
      by (cases k) (simp_all add: of_kind_def)
    have "on_last_ihave butlast ((ctl_of (last out))\<lparr>Ihave := hs @ [w\<lparr>IHaveIDs := IHaveIDs w @ [i]\<rparr>]\<rparr>) = ctl_of (last out)"
      using w by (cases hs) (simp_all add: on_last_ihave_def butlast_append)
    then show "wire (upd_ctl (\<lambda>c. on_last_ihave butlast (on_last_ihave (\<lambda>ids. ids @ [i]) c)) (last out)) = wire (last out)"
      using c by (intro wire_upd_ctl) (simp_all add: upd)
  qed (simp add: nitems_def)
  moreover have "last_ihave bm (merge_ihave_id sz limit from bm i out)" if "has_ctl (merge_ihave_id sz limit from bm i out)"
    using that c w by (simp add: last_ihave_def merge_ihave_id_def try_last_def Let_def upd)
  ultimately show ?thesis by blast
qed

lemma start_ihave_grows:
  assumes "has_ctl out"
  shows "grows sz limit (\<lambda>_. []) out (start_ihave sz limit from bm out) \<and> last_ihave bm (start_ihave sz limit from bm out)"
proof (cases "Ihave (ctl_of (last out)) = [] \<or> IHaveBitmask (last (Ihave (ctl_of (last out)))) \<noteq> bm")
  case True
  have c: "Control (last out) \<noteq> None" using assms by (simp add: has_ctl_def)
  let ?h = "\<lparr>IHaveBitmask = bm, IHaveIDs = []\<rparr>"
  let ?t = "try_last sz limit (upd_ctl (\<lambda>c. c\<lparr>Ihave := Ihave c @ [?h]\<rparr>))
      (upd_ctl (\<lambda>c. c\<lparr>Ihave := butlast (Ihave c)\<rparr>)) (ctl_rpc from (empty_ctl\<lparr>Ihave := [?h]\<rparr>)) out"
  have "grows sz limit (\<lambda>_. []) out ?t \<and> has_ctl ?t"
  proof (rule ctl_step_grows [OF assms])
    show "content k (upd_ctl (\<lambda>c. c\<lparr>Ihave := Ihave c @ [?h]\<rparr>) (last out)) = content k (last out) @ []" for k
      using c by (cases k) simp_all
    show "content k (ctl_rpc from (empty_ctl\<lparr>Ihave := [?h]\<rparr>)) = []" for k by (cases k) simp_all
    show "wire (upd_ctl (\<lambda>c. (c\<lparr>Ihave := Ihave c @ [?h]\<rparr>)\<lparr>Ihave := butlast (Ihave (c\<lparr>Ihave := Ihave c @ [?h]\<rparr>))\<rparr>) (last out)) = wire (last out)"
      using c by (rule wire_upd_ctl) simp_all
  qed (simp add: nitems_def)
  moreover have "last_ihave bm ?t" if "has_ctl ?t"
    using that c by (simp add: last_ihave_def try_last_def Let_def)
  ultimately show ?thesis using True by (simp add: start_ihave_def Let_def)
next
  case False
  with assms show ?thesis by (simp add: last_ihave_def add_refl has_ctl_def start_ihave_def Let_def)
qed

definition few_iwant :: "RPC list \<Rightarrow> bool" where
  "few_iwant out \<longleftrightarrow> out \<noteq> [] \<and> length (Iwant (ctl_of (last out))) \<le> 1"

definition ctl_ready :: "RPC list \<Rightarrow> bool" where
  "ctl_ready out \<longleftrightarrow> has_ctl out \<and> few_iwant out"

lemma few_iwant_try_last:
  assumes "few_iwant out" "Iwant (ctl_of (add (last out))) = Iwant (ctl_of (last out))" "length (Iwant (ctl_of fresh)) \<le> 1"
  shows "few_iwant (try_last sz limit add undo fresh out)"
  using assms by (simp add: few_iwant_def try_last_def Let_def)

lemma few_iwant_upd:
  "few_iwant out \<Longrightarrow> (\<And>c. Iwant (f c) = Iwant c) \<Longrightarrow> length (Iwant c) \<le> 1 \<Longrightarrow>
   few_iwant (try_last sz limit (upd_ctl f) undo (ctl_rpc from c) out)"
  by (rule few_iwant_try_last) (auto simp: upd_ctl_def ctl_of_def split: option.splits)

lemma few_iwant_steps:
  assumes "few_iwant out"
  shows "few_iwant (merge_publish sz limit from m out)" "few_iwant (merge_sub sz limit from sub out)"
    "few_iwant (ensure_ctl sz limit from out)" "few_iwant (merge_graft sz limit from g out)"
    "few_iwant (merge_prune sz limit from p out)" "few_iwant (start_ihave sz limit from bm out)"
    "few_iwant (merge_ihave_id sz limit from bm i out)"
  using assms
  by (auto simp: merge_publish_def merge_sub_def ensure_ctl_def merge_graft_def merge_prune_def start_ihave_def
      merge_ihave_id_def on_last_ihave_def Let_def ctl_of_def empty_rpc_def
      intro!: few_iwant_try_last few_iwant_upd)

lemma few_iwant_ihave: "few_iwant out \<Longrightarrow> few_iwant (merge_ihave sz limit from h out)"
proof -
  have "few_iwant (fold (merge_ihave_id sz limit from bm) is out)" if "few_iwant out" for bm "is" out
    using that by (induction "is" arbitrary: out) (simp_all add: few_iwant_steps)
  moreover assume "few_iwant out"
  ultimately show ?thesis by (simp add: merge_ihave_def few_iwant_steps)
qed

lemma merge_ihave_grows:
  assumes "ctl_ready out"
  shows "grows sz limit (\<lambda>k. concat (map (\<lambda>i. of_kind (IIHave (IHaveBitmask h) i) k) (IHaveIDs h))) out (merge_ihave sz limit from h out)
    \<and> ctl_ready (merge_ihave sz limit from h out)"
proof -
  have "has_ctl out" using assms by (simp add: ctl_ready_def)
  from fold_grows_from [where P = "last_ihave (IHaveBitmask h)" and f = "\<lambda>i. of_kind (IIHave (IHaveBitmask h) i)"
      and g = "merge_ihave_id sz limit from (IHaveBitmask h)" and xs = "IHaveIDs h",
      OF start_ihave_grows [OF this] merge_ihave_id_grows]
  show ?thesis using assms few_iwant_ihave by (auto simp: ctl_ready_def last_ihave_def merge_ihave_def)
qed

lemma ctl_ready_iwant:
  assumes "ctl_ready out"
  shows "grows sz limit (\<lambda>k. concat (map (\<lambda>i. of_kind (IIWant i) k) (IWantIDs w))) out (merge_iwant sz limit from w out)
    \<and> ctl_ready (merge_iwant sz limit from w out)"
  using merge_iwant_grows [of out sz limit w "from"] assms by (auto simp: ctl_ready_def few_iwant_def one_iwant_def has_ctl_def)

lemma ctl_ready_graft:
  "ctl_ready out \<Longrightarrow> grows sz limit (of_kind (IGraft g)) out (merge_graft sz limit from g out) \<and> ctl_ready (merge_graft sz limit from g out)"
  by (simp add: ctl_ready_def merge_graft_grows few_iwant_steps)

lemma ctl_ready_prune:
  "ctl_ready out \<Longrightarrow> grows sz limit (of_kind (IPrune g)) out (merge_prune sz limit from g out) \<and> ctl_ready (merge_prune sz limit from g out)"
  by (simp add: ctl_ready_def merge_prune_grows few_iwant_steps)

lemma ctl_ready_ensure:
  "few_iwant out \<Longrightarrow> grows sz limit (\<lambda>_. []) out (ensure_ctl sz limit from out) \<and> ctl_ready (ensure_ctl sz limit from out)"
  using ensure_ctl_grows [of out sz limit "from"] by (simp add: ctl_ready_def few_iwant_steps) (simp add: few_iwant_def)

lemma concat_of_kind:
  "concat (map (\<lambda>x. of_kind (IGraft x) k) gs) = (if k = KGraft then map IGraft gs else [])"
  "concat (map (\<lambda>x. of_kind (IPrune x) k) ps) = (if k = KPrune then map IPrune ps else [])"
  "concat (map (\<lambda>x. of_kind (IPub x) k) ms) = (if k = KPub then map IPub ms else [])"
  "concat (map (\<lambda>x. of_kind (ISub x) k) ss) = (if k = KSub then map ISub ss else [])"
  "concat (map (\<lambda>x. of_kind (IIWant x) k) is) = (if k = KIWant then map IIWant is else [])"
  "concat (map (\<lambda>x. of_kind (IIHave bm x) k) is) = (if k = KIHave then map (IIHave bm) is else [])"
proof -
  show "concat (map (\<lambda>x. of_kind (IGraft x) k) gs) = (if k = KGraft then map IGraft gs else [])"
    by (induction gs) (auto simp: of_kind_def)
  show "concat (map (\<lambda>x. of_kind (IPrune x) k) ps) = (if k = KPrune then map IPrune ps else [])"
    by (induction ps) (auto simp: of_kind_def)
  show "concat (map (\<lambda>x. of_kind (IPub x) k) ms) = (if k = KPub then map IPub ms else [])"
    by (induction ms) (auto simp: of_kind_def)
  show "concat (map (\<lambda>x. of_kind (ISub x) k) ss) = (if k = KSub then map ISub ss else [])"
    by (induction ss) (auto simp: of_kind_def)
  show "concat (map (\<lambda>x. of_kind (IIWant x) k) is) = (if k = KIWant then map IIWant is else [])"
    by (induction "is") (auto simp: of_kind_def)
  show "concat (map (\<lambda>x. of_kind (IIHave bm x) k) is) = (if k = KIHave then map (IIHave bm) is else [])"
    by (induction "is") (auto simp: of_kind_def)
qed

lemma add_cong: "grows sz limit x out out' \<Longrightarrow> (\<And>k. x k = y k) \<Longrightarrow> grows sz limit y out out'"
  by (simp add: grows_def)

text \<open>What the loops take over from an RPC: everything but its IDONTWANTs, for which there is no loop.\<close>

definition merged :: "kind \<Rightarrow> RPC \<Rightarrow> item list" where
  "merged k r = (if k = KIDontWant then [] else content k r)"

lemma ctl_contents:
  "concat (map (\<lambda>g. of_kind (IGraft g) k) (elems (Graft c))) @ concat (map (\<lambda>p. of_kind (IPrune p) k) (elems (Prune c)))
   @ concat (map (\<lambda>w. concat (map (\<lambda>i. of_kind (IIWant i) k) (IWantIDs w))) (Iwant c))
   @ concat (map (\<lambda>h. concat (map (\<lambda>i. of_kind (IIHave (IHaveBitmask h) i) k) (IHaveIDs h))) (Ihave c))
   = merged k (ctl_rpc from c)"
proof -
  have "concat (map (\<lambda>x. []) xs) = []" for xs :: "'a list" by (induction xs) simp_all
  then show ?thesis by (cases k) (simp_all add: concat_of_kind merged_def)
qed

lemma merge_ctl_grows:
  assumes "few_iwant out"
  shows "grows sz limit (\<lambda>k. merged k (ctl_rpc from c)) out (merge_ctl sz limit from c out)
    \<and> ctl_ready (merge_ctl sz limit from c out)"
proof -
  let ?o1 = "ensure_ctl sz limit from out"
  let ?o2 = "fold (merge_graft sz limit from) (elems (Graft c)) ?o1"
  let ?o3 = "fold (merge_prune sz limit from) (elems (Prune c)) ?o2"
  let ?o4 = "fold (merge_iwant sz limit from) (Iwant c) ?o3"
  let ?o5 = "fold (merge_ihave sz limit from) (Ihave c) ?o4"
  have ne: "out \<noteq> []" if "ctl_ready out" for out using that by (simp add: ctl_ready_def has_ctl_def)
  note 1 = ctl_ready_ensure [OF assms, of sz limit "from"]
  note 2 = fold_grows [where P = ctl_ready and xs = "elems (Graft c)", OF conjunct2 [OF 1] ne [OF conjunct2 [OF 1]] ctl_ready_graft]
  note 3 = fold_grows [where P = ctl_ready and xs = "elems (Prune c)", OF conjunct2 [OF 2] ne [OF conjunct2 [OF 2]] ctl_ready_prune]
  note 4 = fold_grows [where P = ctl_ready and xs = "Iwant c", OF conjunct2 [OF 3] ne [OF conjunct2 [OF 3]] ctl_ready_iwant]
  note 5 = fold_grows [where P = ctl_ready and xs = "Ihave c", OF conjunct2 [OF 4] ne [OF conjunct2 [OF 4]] merge_ihave_grows]
  have "grows sz limit (\<lambda>k. merged k (ctl_rpc from c)) out ?o5"
  proof (rule add_cong [OF add_trans [OF conjunct1 [OF 1] add_trans [OF conjunct1 [OF 2]
          add_trans [OF conjunct1 [OF 3] add_trans [OF conjunct1 [OF 4] conjunct1 [OF 5]]]]]])
    fix k
    show "[] @ concat (map (\<lambda>g. of_kind (IGraft g) k) (elems (Graft c))) @ concat (map (\<lambda>p. of_kind (IPrune p) k) (elems (Prune c)))
       @ concat (map (\<lambda>w. concat (map (\<lambda>i. of_kind (IIWant i) k) (IWantIDs w))) (Iwant c))
       @ concat (map (\<lambda>h. concat (map (\<lambda>i. of_kind (IIHave (IHaveBitmask h) i) k) (IHaveIDs h))) (Ihave c))
       = merged k (ctl_rpc from c)"
      using ctl_contents [of k c "from"] by simp
  qed
  with 5 show ?thesis by (simp add: merge_ctl_def Let_def)
qed

lemma elem_contents:
  "concat (map (\<lambda>m. of_kind (IPub m) k) (Publish r)) @ concat (map (\<lambda>s. of_kind (ISub s) k) (Subscriptions r))
   @ (case Control r of None \<Rightarrow> [] | Some c \<Rightarrow> merged k (ctl_rpc from c)) = merged k r"
  by (cases k; cases "Control r") (simp_all add: concat_of_kind ctl_of_def merged_def)

lemma merge_elem_grows:
  assumes "few_iwant out"
  shows "grows sz limit (\<lambda>k. merged k elem) out (merge_elem sz limit elem out) \<and> few_iwant (merge_elem sz limit elem out)"
proof -
  let ?f = "rpc_from elem"
  let ?o1 = "fold (merge_publish sz limit ?f) (Publish elem) out"
  let ?o2 = "fold (merge_sub sz limit ?f) (Subscriptions elem) ?o1"
  have ne: "out \<noteq> []" if "few_iwant out" for out using that by (simp add: few_iwant_def)
  have p: "grows sz limit (of_kind (IPub m)) out (merge_publish sz limit ?f m out) \<and> few_iwant (merge_publish sz limit ?f m out)"
    if "few_iwant out" for m out using that ne merge_publish_grows few_iwant_steps(1) by blast
  have s: "grows sz limit (of_kind (ISub m)) out (merge_sub sz limit ?f m out) \<and> few_iwant (merge_sub sz limit ?f m out)"
    if "few_iwant out" for m out using that ne merge_sub_grows few_iwant_steps(2) by blast
  note 1 = fold_grows [where P = few_iwant and xs = "Publish elem", OF assms ne [OF assms] p]
  note 2 = fold_grows [where P = few_iwant and xs = "Subscriptions elem", OF conjunct2 [OF 1] ne [OF conjunct2 [OF 1]] s]
  note g = add_trans [OF conjunct1 [OF 1] conjunct1 [OF 2]]
  show ?thesis
  proof (cases "Control elem")
    case None
    have "grows sz limit (\<lambda>k. merged k elem) out ?o2"
    proof (rule add_cong [OF g])
      fix k
      show "concat (map (\<lambda>m. of_kind (IPub m) k) (Publish elem)) @ concat (map (\<lambda>s. of_kind (ISub s) k) (Subscriptions elem)) = merged k elem"
        using elem_contents [of k elem] None by simp
    qed
    with 2 None show ?thesis by (simp add: merge_elem_def Let_def)
  next
    case (Some c)
    note 3 = merge_ctl_grows [OF conjunct2 [OF 2], of sz limit ?f c]
    have "grows sz limit (\<lambda>k. merged k elem) out (merge_ctl sz limit ?f c ?o2)"
    proof (rule add_cong [OF add_trans [OF g conjunct1 [OF 3]]])
      fix k
      show "(concat (map (\<lambda>m. of_kind (IPub m) k) (Publish elem)) @ concat (map (\<lambda>s. of_kind (ISub s) k) (Subscriptions elem)))
          @ merged k (ctl_rpc ?f c) = merged k elem"
        using elem_contents [of k elem ?f] Some by simp
    qed
    with 3 Some show ?thesis by (simp add: merge_elem_def Let_def ctl_ready_def)
  qed
qed

lemma merge_all_grows:
  assumes "few_iwant out"
  shows "grows sz limit (\<lambda>k. concat (map (merged k) rpcs)) out (fold (merge_elem sz limit) rpcs out)"
proof -
  have "out \<noteq> []" using assms by (simp add: few_iwant_def)
  from fold_grows [where P = few_iwant and f = "\<lambda>r k. merged k r" and xs = rpcs, OF assms this merge_elem_grows]
  show ?thesis by simp
qed

lemma empty_rpc_start: "few_iwant [empty_rpc from]" "contents k [empty_rpc from] = []" "fits sz limit (empty_rpc from)"
  by (simp_all add: few_iwant_def contents_def fits_def nitems_def del: content.simps)
     (simp_all add: empty_rpc_def ctl_of_def)

lemma merged_all: "concat (map (merged k) rpcs) = (if k = KIDontWant then [] else contents k rpcs)"
proof (cases "k = KIDontWant")
  case True
  then show ?thesis by (induction rpcs) (simp_all add: merged_def)
next
  case False
  then have "merged k = content k" by (simp add: fun_eq_iff merged_def)
  with False show ?thesis by (simp add: contents_def)
qed

lemma append_contents:
  assumes "acc = [] \<or> few_iwant acc"
  shows "contents k (appendOrMergeRPC sz acc limit rpcs) = contents k acc @
    (if k = KIDontWant \<and> \<not> (acc = [] \<and> length rpcs = 1 \<and> sz (hd rpcs) < limit) then [] else contents k rpcs)"
proof -
  let ?start = "if acc = [] then [empty_rpc (rpc_from (hd rpcs))] else acc"
  have "few_iwant ?start" using assms empty_rpc_start(1) by auto
  from merge_all_grows [OF this, of sz limit rpcs]
  have "contents k (fold (merge_elem sz limit) rpcs ?start) = contents k ?start @ (if k = KIDontWant then [] else contents k rpcs)"
    by (simp add: grows_def merged_all)
  moreover have "contents k ?start = contents k acc" by (simp add: empty_rpc_start(2)) (simp add: contents_def)
  moreover have "contents k [hd rpcs] = contents k rpcs" if "length rpcs = 1"
    using that by (cases rpcs) auto
  ultimately show ?thesis by (auto simp: appendOrMergeRPC_def contents_def)
qed

lemma append_fits:
  assumes "acc = [] \<or> few_iwant acc" "wire_size sz" "list_all (fits sz limit) acc"
  shows "list_all (fits sz limit) (appendOrMergeRPC sz acc limit rpcs)"
proof -
  let ?start = "if acc = [] then [empty_rpc (rpc_from (hd rpcs))] else acc"
  have "few_iwant ?start" using assms(1) empty_rpc_start(1) by auto
  moreover have "list_all (fits sz limit) ?start" using assms(3) empty_rpc_start(3) by auto
  ultimately have "list_all (fits sz limit) (fold (merge_elem sz limit) rpcs ?start)"
    using merge_all_grows [of ?start sz limit rpcs] assms(2) unfolding grows_def by blast
  with assms(3) show ?thesis by (auto simp: appendOrMergeRPC_def fits_def)
qed

section \<open>IDONTWANT\<close>

definition no_idontwant :: "RPC list \<Rightarrow> bool" where
  "no_idontwant out \<longleftrightarrow> out \<noteq> [] \<and> list_all (\<lambda>r. Idontwant (ctl_of r) = []) out"

lemma no_idontwant_try_last:
  assumes "no_idontwant out" "\<And>r. Idontwant (ctl_of (add r)) = Idontwant (ctl_of r)"
    "\<And>r. Idontwant (ctl_of (undo r)) = Idontwant (ctl_of r) \<or> Idontwant (ctl_of (undo r)) = []" "Idontwant (ctl_of fresh) = []"
  shows "no_idontwant (try_last sz limit add undo fresh out)"
proof -
  have "Idontwant (ctl_of (last out)) = []" "list_all (\<lambda>r. Idontwant (ctl_of r) = []) (butlast out)"
    using assms(1) by (auto simp: no_idontwant_def list_all_iff dest: in_set_butlastD)
  with assms(2-4) assms(3) [of "add (last out)"] show ?thesis by (auto simp: no_idontwant_def try_last_def Let_def)
qed

lemma Idontwant_upd: "(\<And>c. Idontwant (f c) = Idontwant c) \<Longrightarrow> Idontwant (ctl_of (upd_ctl f r)) = Idontwant (ctl_of r)"
  by (simp add: upd_ctl_def ctl_of_def split: option.splits)

lemma no_idontwant_steps:
  assumes "no_idontwant out"
  shows "no_idontwant (merge_publish sz limit from m out)" "no_idontwant (merge_sub sz limit from sub out)"
    "no_idontwant (merge_graft sz limit from g out)" "no_idontwant (merge_prune sz limit from p out)"
    "no_idontwant (merge_iwant_id sz limit from i out)" "no_idontwant (merge_ihave_id sz limit from bm i out)"
    "no_idontwant (start_iwant sz limit from out)" "no_idontwant (start_ihave sz limit from bm out)"
  using assms unfolding merge_publish_def merge_sub_def merge_graft_def merge_prune_def merge_iwant_id_def
    merge_ihave_id_def start_iwant_def start_ihave_def Let_def
  by (auto intro!: no_idontwant_try_last Idontwant_upd disjI1 simp: on_first_iwant_def on_last_ihave_def
      simp: ctl_of_def empty_rpc_def)

lemma no_idontwant_ensure:
  assumes "no_idontwant out"
  shows "no_idontwant (ensure_ctl sz limit from out)"
proof -
  have "Idontwant (ctl_of r) = []" if "r \<in> set out" for r using that assms by (simp add: no_idontwant_def list_all_iff)
  moreover have "set (butlast out) \<subseteq> set out" by (auto dest: in_set_butlastD)
  ultimately show ?thesis using assms
    by (auto simp: ensure_ctl_def try_last_def Let_def no_idontwant_def list_all_iff) (auto simp: ctl_of_def)
qed

lemma fold_keeps: "P out \<Longrightarrow> (\<And>x out. P out \<Longrightarrow> P (g x out)) \<Longrightarrow> P (fold g xs out)"
  by (induction xs arbitrary: out) auto

lemma no_idontwant_elem: "no_idontwant out \<Longrightarrow> no_idontwant (merge_elem sz limit elem out)"
  unfolding merge_elem_def merge_ctl_def Let_def merge_iwant_def merge_ihave_def
  by (cases "Control elem") (auto intro!: fold_keeps [where P = no_idontwant] no_idontwant_steps no_idontwant_ensure)

text \<open>
  C23. What splitting and merging keeps: the result of \<^verbatim>\<open>appendOrMergeRPC\<close> contains, for
  publications, subscriptions, GRAFTs, PRUNEs, IWANT identifiers and IHAVE identifiers with their
  bitmask, exactly the items of the slice followed by those of the elements, in order. IDONTWANT
  identifiers of the elements are kept only on the fast path (an empty slice and one element
  below the limit); otherwise the function, which has no loop for them, drops them all, and
  keeps those of the slice. Every RPC of the result is within the limit, or carries at most
  one item and cannot be split further.
\<close>
theorem appendOrMergeRPC_splits:
  assumes "acc = [] \<or> few_iwant acc" "wire_size sz" "list_all (fits sz limit) acc"
  shows "contents k (appendOrMergeRPC sz acc limit rpcs) = contents k acc @
      (if k = KIDontWant \<and> \<not> (acc = [] \<and> length rpcs = 1 \<and> sz (hd rpcs) < limit) then [] else contents k rpcs)
    \<and> list_all (fits sz limit) (appendOrMergeRPC sz acc limit rpcs)"
  using append_contents [OF assms(1)] append_fits [OF assms] by blast

lemma wire_size_nitems: "wire_size (\<lambda>r. int (nitems r))"
  unfolding wire_size_def by (intro allI impI arg_cong [where f = int]) (rule wire_nitems)

definition demo_pub :: "bytes \<Rightarrow> pbMessage" where
  "demo_pub d = \<lparr>From = None, Data = d, Seqno = None, MBitmask = [1], Signature = None, Key = None\<rparr>"

definition demo_rpc :: RPC where
  "demo_rpc = (rpcWithMessages [demo_pub [1], demo_pub [2]])\<lparr>Control := Some (empty_ctl\<lparr>Idontwant := [\<lparr>IDontWantIDs = [[7]]\<rparr>]\<rparr>)\<rparr>"

theorem appendOrMergeRPC_splits_witness:
  "wire_size (\<lambda>r. int (nitems r))
   \<and> contents KPub (appendOrMergeRPC (\<lambda>r. int (nitems r)) [] 1 [demo_rpc]) = [IPub (demo_pub [1]), IPub (demo_pub [2])]
   \<and> contents KIDontWant [demo_rpc] = [IIDontWant [7]]
   \<and> contents KIDontWant (appendOrMergeRPC (\<lambda>r. int (nitems r)) [] 1 [demo_rpc]) = []
   \<and> list_all (fits (\<lambda>r. int (nitems r)) 1) (appendOrMergeRPC (\<lambda>r. int (nitems r)) [] 1 [demo_rpc])"
proof -
  have "nitems demo_rpc = 3"
    by (simp add: nitems_def demo_rpc_def rpcWithMessages_def empty_rpc_def ctl_of_def)
  then show ?thesis
    using appendOrMergeRPC_splits [of "[]" "\<lambda>r. int (nitems r)" 1 KPub "[demo_rpc]"]
      appendOrMergeRPC_splits [of "[]" "\<lambda>r. int (nitems r)" 1 KIDontWant "[demo_rpc]"] wire_size_nitems
    by (simp add: contents_def demo_rpc_def rpcWithMessages_def empty_rpc_def ctl_of_def)
qed

text \<open>
  C34. IDONTWANT entries do not survive splitting: whenever an RPC is at or over the limit, none of the RPCs it is
  split into carries an IDONTWANT, whatever the RPC contained.
\<close>
theorem split_drops_idontwant:
  assumes "limit \<le> sz rpc"
  shows "list_all (\<lambda>r. Idontwant (ctl_of r) = []) (appendOrMergeRPC sz [] limit [rpc])"
proof -
  have "no_idontwant [empty_rpc (rpc_from rpc)]" by (simp add: no_idontwant_def empty_rpc_def ctl_of_def)
  then have "no_idontwant (merge_elem sz limit rpc [empty_rpc (rpc_from rpc)])" by (rule no_idontwant_elem)
  with assms show ?thesis by (simp add: appendOrMergeRPC_def no_idontwant_def)
qed

theorem split_drops_idontwant_witness:
  "list_all (\<lambda>r. Idontwant (ctl_of r) = [])
     (appendOrMergeRPC (\<lambda>r. 10) [] 5 [rpcWithControl [] [] [] None None [\<lparr>IDontWantIDs = [[1]]\<rparr>]])"
  by (rule split_drops_idontwant) simp

end
