(* ===== verification/Score_Params.thy ===== *)
theory Score_Params
  imports Pubsub_Types Complex_Main
begin

text \<open>
  Parameters of the peer score and their validation, \<^verbatim>\<open>score_params.go\<close>. The floating-point numbers of
  the source are real numbers: rounding is not modelled, and the checks \<^verbatim>\<open>isInvalidNumber\<close> against NaN and
  the infinities have no counterpart. Durations are integers (nanoseconds). An error is the name of the first
  parameter found invalid.
\<close>

datatype param_error = InvalidParam string

record PeerScoreThresholds =
  th_SkipAtomicValidation :: bool
  GossipThreshold :: real
  PublishThreshold :: real
  GraylistThreshold :: real
  AcceptPXThreshold :: real
  OpportunisticGraftThreshold :: real

record BitmaskScoreParams =
  bp_SkipAtomicValidation :: bool
  BitmaskWeight :: real
  TimeInMeshWeight :: real
  TimeInMeshQuantum :: int
  TimeInMeshCap :: real
  FirstMessageDeliveriesWeight :: real
  FirstMessageDeliveriesDecay :: real
  FirstMessageDeliveriesCap :: real
  MeshMessageDeliveriesWeight :: real
  MeshMessageDeliveriesDecay :: real
  MeshMessageDeliveriesCap :: real
  MeshMessageDeliveriesThreshold :: real
  MeshMessageDeliveriesWindow :: int
  MeshMessageDeliveriesActivation :: int
  MeshFailurePenaltyWeight :: real
  MeshFailurePenaltyDecay :: real
  InvalidMessageDeliveriesWeight :: real
  InvalidMessageDeliveriesDecay :: real

text \<open>The scored bitmasks are an association list because validation enumerates them, or a nil map: the field is not
  required, and a map that was never made can be read but not written. The whitelist networks are given by the predicate \<^verbatim>\<open>Contains\<close> on the textual address.\<close>

record PeerScoreParams =
  sp_SkipAtomicValidation :: bool
  BitmasksMap :: "(bitmask \<times> BitmaskScoreParams) list option"
  BitmaskScoreCap :: real
  AppSpecificScore :: "(peer_id \<Rightarrow> real) option"
  AppSpecificWeight :: real
  IPColocationFactorWeight :: real
  IPColocationFactorThreshold :: int
  IPColocationFactorWhitelist :: "(string \<Rightarrow> bool) list"
  BehaviourPenaltyWeight :: real
  BehaviourPenaltyThreshold :: real
  BehaviourPenaltyDecay :: real
  DecayInterval :: int
  DecayToZero :: real
  RetainScore :: int
  SeenMsgTTL :: int

text \<open>Reading \<^verbatim>\<open>params.Bitmasks\<close>: a nil map has no entries.\<close>

definition Bitmasks :: "PeerScoreParams \<Rightarrow> (bitmask \<times> BitmaskScoreParams) list" where
  "Bitmasks p = (case BitmasksMap p of None \<Rightarrow> [] | Some m \<Rightarrow> m)"

lemma Bitmasks_simps [simp]:
  "Bitmasks (p\<lparr>BitmasksMap := Some m\<rparr>) = m" "Bitmasks (p\<lparr>AppSpecificScore := a\<rparr>) = Bitmasks p"
  by (simp_all add: Bitmasks_def)


definition reject_if :: "bool \<Rightarrow> string \<Rightarrow> param_error option" where
  "reject_if b name = (if b then Some (InvalidParam name) else None)"

fun first_error :: "param_error option list \<Rightarrow> param_error option" where
  "first_error [] = None"
| "first_error (None # es) = first_error es"
| "first_error (Some e # es) = Some e"

definition decay_ok :: "real \<Rightarrow> bool" where
  "decay_ok d \<longleftrightarrow> 0 < d \<and> d < 1"

definition thresholds_validate :: "PeerScoreThresholds \<Rightarrow> param_error option" where
  "thresholds_validate p = first_error [
     (if \<not> th_SkipAtomicValidation p \<or> PublishThreshold p \<noteq> 0 \<or> GossipThreshold p \<noteq> 0 \<or> GraylistThreshold p \<noteq> 0
      then first_error [
        reject_if (GossipThreshold p > 0) ''gossip threshold'',
        reject_if (PublishThreshold p > 0 \<or> PublishThreshold p > GossipThreshold p) ''publish threshold'',
        reject_if (GraylistThreshold p > 0 \<or> GraylistThreshold p > PublishThreshold p) ''graylist threshold'']
      else None),
     (if \<not> th_SkipAtomicValidation p \<or> AcceptPXThreshold p \<noteq> 0
      then reject_if (AcceptPXThreshold p < 0) ''accept PX threshold'' else None),
     (if \<not> th_SkipAtomicValidation p \<or> OpportunisticGraftThreshold p \<noteq> 0
      then reject_if (OpportunisticGraftThreshold p < 0) ''opportunistic grafting threshold'' else None)]"

definition validateTimeInMeshParams :: "BitmaskScoreParams \<Rightarrow> param_error option" where
  "validateTimeInMeshParams p =
     (if bp_SkipAtomicValidation p \<and> TimeInMeshWeight p = 0 \<and> TimeInMeshQuantum p = 0 \<and> TimeInMeshCap p = 0 then None
      else first_error [
        reject_if (TimeInMeshQuantum p = 0) ''TimeInMeshQuantum'',
        reject_if (TimeInMeshWeight p < 0) ''TimeInMeshWeight'',
        reject_if (TimeInMeshWeight p \<noteq> 0 \<and> TimeInMeshQuantum p \<le> 0) ''TimeInMeshQuantum'',
        reject_if (TimeInMeshWeight p \<noteq> 0 \<and> TimeInMeshCap p \<le> 0) ''TimeInMeshCap''])"

definition validateMessageDeliveryParams :: "BitmaskScoreParams \<Rightarrow> param_error option" where
  "validateMessageDeliveryParams p =
     (if bp_SkipAtomicValidation p \<and> FirstMessageDeliveriesWeight p = 0 \<and> FirstMessageDeliveriesCap p = 0
         \<and> FirstMessageDeliveriesDecay p = 0 then None
      else first_error [
        reject_if (FirstMessageDeliveriesWeight p < 0) ''FirstMessageDeliveriesWeight'',
        reject_if (FirstMessageDeliveriesWeight p \<noteq> 0 \<and> \<not> decay_ok (FirstMessageDeliveriesDecay p)) ''FirstMessageDeliveriesDecay'',
        reject_if (FirstMessageDeliveriesWeight p \<noteq> 0 \<and> FirstMessageDeliveriesCap p \<le> 0) ''FirstMessageDeliveriesCap''])"

definition validateMeshMessageDeliveryParams :: "BitmaskScoreParams \<Rightarrow> param_error option" where
  "validateMeshMessageDeliveryParams p =
     (if bp_SkipAtomicValidation p \<and> MeshMessageDeliveriesWeight p = 0 \<and> MeshMessageDeliveriesCap p = 0
         \<and> MeshMessageDeliveriesDecay p = 0 \<and> MeshMessageDeliveriesThreshold p = 0
         \<and> MeshMessageDeliveriesWindow p = 0 \<and> MeshMessageDeliveriesActivation p = 0 then None
      else first_error [
        reject_if (MeshMessageDeliveriesWeight p > 0) ''MeshMessageDeliveriesWeight'',
        reject_if (MeshMessageDeliveriesWeight p \<noteq> 0 \<and> \<not> decay_ok (MeshMessageDeliveriesDecay p)) ''MeshMessageDeliveriesDecay'',
        reject_if (MeshMessageDeliveriesWeight p \<noteq> 0 \<and> MeshMessageDeliveriesCap p \<le> 0) ''MeshMessageDeliveriesCap'',
        reject_if (MeshMessageDeliveriesWeight p \<noteq> 0 \<and> MeshMessageDeliveriesThreshold p \<le> 0) ''MeshMessageDeliveriesThreshold'',
        reject_if (MeshMessageDeliveriesWindow p < 0) ''MeshMessageDeliveriesWindow'',
        reject_if (MeshMessageDeliveriesWeight p \<noteq> 0 \<and> MeshMessageDeliveriesActivation p < Second) ''MeshMessageDeliveriesActivation''])"

definition validateMessageFailurePenaltyParams :: "BitmaskScoreParams \<Rightarrow> param_error option" where
  "validateMessageFailurePenaltyParams p =
     (if bp_SkipAtomicValidation p \<and> MeshFailurePenaltyDecay p = 0 \<and> MeshFailurePenaltyWeight p = 0 then None
      else first_error [
        reject_if (MeshFailurePenaltyWeight p > 0) ''MeshFailurePenaltyWeight'',
        reject_if (MeshFailurePenaltyWeight p \<noteq> 0 \<and> \<not> decay_ok (MeshFailurePenaltyDecay p)) ''MeshFailurePenaltyDecay''])"

definition validateInvalidMessageDeliveryParams :: "BitmaskScoreParams \<Rightarrow> param_error option" where
  "validateInvalidMessageDeliveryParams p =
     (if bp_SkipAtomicValidation p \<and> InvalidMessageDeliveriesDecay p = 0 \<and> InvalidMessageDeliveriesWeight p = 0 then None
      else first_error [
        reject_if (InvalidMessageDeliveriesWeight p > 0) ''InvalidMessageDeliveriesWeight'',
        reject_if (\<not> decay_ok (InvalidMessageDeliveriesDecay p)) ''InvalidMessageDeliveriesDecay''])"

definition bitmask_validate :: "BitmaskScoreParams \<Rightarrow> param_error option" where
  "bitmask_validate p = first_error [
     reject_if (BitmaskWeight p < 0) ''bitmask weight'',
     validateTimeInMeshParams p,
     validateMessageDeliveryParams p,
     validateMeshMessageDeliveryParams p,
     validateMessageFailurePenaltyParams p,
     validateInvalidMessageDeliveryParams p]"

text \<open>Validation also installs the default application score, so it returns the parameters.\<close>

definition score_validate :: "PeerScoreParams \<Rightarrow> param_error + PeerScoreParams" where
  "score_validate p =
     (case first_error (map (\<lambda>(bm, bp). bitmask_validate bp) (Bitmasks p) @ [
        (if \<not> sp_SkipAtomicValidation p \<or> BitmaskScoreCap p \<noteq> 0
         then reject_if (BitmaskScoreCap p < 0) ''bitmask score cap'' else None),
        reject_if (AppSpecificScore p = None \<and> \<not> sp_SkipAtomicValidation p) ''application specific score function'',
        (if \<not> sp_SkipAtomicValidation p \<or> IPColocationFactorWeight p \<noteq> 0
         then first_error [
           reject_if (IPColocationFactorWeight p > 0) ''IPColocationFactorWeight'',
           reject_if (IPColocationFactorWeight p \<noteq> 0 \<and> IPColocationFactorThreshold p < 1) ''IPColocationFactorThreshold'']
         else None),
        (if \<not> sp_SkipAtomicValidation p \<or> BehaviourPenaltyWeight p \<noteq> 0 \<or> BehaviourPenaltyThreshold p \<noteq> 0
         then first_error [
           reject_if (BehaviourPenaltyWeight p > 0) ''BehaviourPenaltyWeight'',
           reject_if (BehaviourPenaltyWeight p \<noteq> 0 \<and> \<not> decay_ok (BehaviourPenaltyDecay p)) ''BehaviourPenaltyDecay'',
           reject_if (BehaviourPenaltyThreshold p < 0) ''BehaviourPenaltyThreshold'']
         else None),
        (if \<not> sp_SkipAtomicValidation p \<or> DecayInterval p \<noteq> 0 \<or> DecayToZero p \<noteq> 0
         then first_error [
           reject_if (DecayInterval p < Second) ''DecayInterval'',
           reject_if (DecayToZero p \<le> 0 \<or> DecayToZero p \<ge> 1) ''DecayToZero'']
         else None)]) of
       Some e \<Rightarrow> Inl e
     | None \<Rightarrow> Inr (if AppSpecificScore p = None then p\<lparr>AppSpecificScore := Some (\<lambda>_. 0)\<rparr> else p))"

section \<open>What validation guarantees\<close>

lemma first_error_None [simp]:
  "first_error (None # es) = first_error es"
  "first_error (e # es) = None \<longleftrightarrow> e = None \<and> first_error es = None"
  "first_error (es @ es') = None \<longleftrightarrow> first_error es = None \<and> first_error es' = None"
proof -
  show "first_error (es @ es') = None \<longleftrightarrow> first_error es = None \<and> first_error es' = None"
    by (induction es rule: first_error.induct) simp_all
  show "first_error (e # es) = None \<longleftrightarrow> e = None \<and> first_error es = None" by (cases e) simp_all
qed simp

lemma first_error_map: "first_error (map f xs) = None \<longleftrightarrow> (\<forall>x \<in> set xs. f x = None)"
  by (induction xs) auto

lemma reject_if_None [simp]: "reject_if b n = None \<longleftrightarrow> \<not> b"
  by (simp add: reject_if_def)

text \<open>The signs of the weights: rewards are non-negative and penalties non-positive.\<close>

definition bitmask_signs :: "BitmaskScoreParams \<Rightarrow> bool" where
  "bitmask_signs p \<longleftrightarrow> 0 \<le> BitmaskWeight p \<and> 0 \<le> TimeInMeshWeight p \<and> 0 \<le> FirstMessageDeliveriesWeight p
     \<and> MeshMessageDeliveriesWeight p \<le> 0 \<and> MeshFailurePenaltyWeight p \<le> 0 \<and> InvalidMessageDeliveriesWeight p \<le> 0
     \<and> (TimeInMeshWeight p = 0 \<or> 0 < TimeInMeshQuantum p \<and> 0 < TimeInMeshCap p)"

definition score_signs :: "PeerScoreParams \<Rightarrow> bool" where
  "score_signs p \<longleftrightarrow> list_all (\<lambda>(bm, bp). bitmask_signs bp) (Bitmasks p) \<and> 0 \<le> BitmaskScoreCap p
     \<and> AppSpecificScore p \<noteq> None \<and> IPColocationFactorWeight p \<le> 0 \<and> BehaviourPenaltyWeight p \<le> 0"

lemma validate_parts:
  "validateTimeInMeshParams p = None \<Longrightarrow> 0 \<le> TimeInMeshWeight p"
  "validateTimeInMeshParams p = None \<Longrightarrow> TimeInMeshWeight p \<noteq> 0 \<Longrightarrow> 0 < TimeInMeshQuantum p \<and> 0 < TimeInMeshCap p"
  "validateMessageDeliveryParams p = None \<Longrightarrow> 0 \<le> FirstMessageDeliveriesWeight p"
  "validateMeshMessageDeliveryParams p = None \<Longrightarrow> MeshMessageDeliveriesWeight p \<le> 0"
  "validateMessageFailurePenaltyParams p = None \<Longrightarrow> MeshFailurePenaltyWeight p \<le> 0"
  "validateInvalidMessageDeliveryParams p = None \<Longrightarrow> InvalidMessageDeliveriesWeight p \<le> 0"
  by (force simp: validateTimeInMeshParams_def validateMessageDeliveryParams_def
      validateMeshMessageDeliveryParams_def validateMessageFailurePenaltyParams_def
      validateInvalidMessageDeliveryParams_def split: if_splits)+

lemma bitmask_validate_signs: "bitmask_validate p = None \<Longrightarrow> bitmask_signs p"
  using validate_parts [of p] by (auto simp: bitmask_validate_def bitmask_signs_def)

lemma score_validate_signs:
  assumes "score_validate p = Inr q"
  shows "score_signs q"
proof -
  have "list_all (\<lambda>(bm, bp). bitmask_signs bp) (Bitmasks p)"
    using assms by (auto simp: score_validate_def first_error_map list_all_iff split: option.splits intro: bitmask_validate_signs)
  with assms show ?thesis
    by (auto simp: score_validate_def score_signs_def split: option.splits if_splits)
qed

end
