(* ===== verification/Partial.thy ===== *)
theory Partial
  imports Prelude "HOL-Library.Monad_Syntax"
begin

text \<open>
  Calls that may panic: a call returns \<open>None\<close> when the Go code panics. \<open>fold_opt\<close> is a loop over a list whose body may panic, and \<open>yields\<close> says that a
  call returns and what its result satisfies.
\<close>

section \<open>Loops\<close>

fun fold_opt :: "('a \<Rightarrow> 'b \<Rightarrow> 'b option) \<Rightarrow> 'a list \<Rightarrow> 'b \<Rightarrow> 'b option" where
  "fold_opt f [] s = Some s"
| "fold_opt f (x # xs) s = do { s \<leftarrow> f x s; fold_opt f xs s }"

section \<open>Calls that return\<close>

definition yields :: "'a option \<Rightarrow> ('a \<Rightarrow> bool) \<Rightarrow> bool" where
  "yields r Q \<longleftrightarrow> (case r of None \<Rightarrow> False | Some x \<Rightarrow> Q x)"

lemma yields_Some [simp]: "yields (Some x) Q \<longleftrightarrow> Q x"
  by (simp add: yields_def)

lemma yields_bind [simp]: "yields (Option.bind r f) Q \<longleftrightarrow> yields r (\<lambda>x. yields (f x) Q)"
  by (simp add: yields_def split: option.splits)

lemma yields_map [simp]: "yields (map_option f r) Q \<longleftrightarrow> yields r (\<lambda>x. Q (f x))"
  by (simp add: yields_def split: option.splits)

lemma yields_if [simp]: "yields (if b then x else y) Q \<longleftrightarrow> (if b then yields x Q else yields y Q)"
  by simp

lemma yields_mono: "yields r Q \<Longrightarrow> (\<And>x. r = Some x \<Longrightarrow> Q x \<Longrightarrow> R x) \<Longrightarrow> yields r R"
  by (simp add: yields_def split: option.splits)

lemma yields_iff: "yields r Q \<longleftrightarrow> (\<exists>x. r = Some x \<and> Q x)"
  by (simp add: yields_def split: option.splits)

lemma yields_conj: "yields r Q \<Longrightarrow> yields r R \<Longrightarrow> yields r (\<lambda>x. Q x \<and> R x)"
  by (simp add: yields_def split: option.splits)

lemma yields_prod: "yields r (\<lambda>(x, y). Q x y) \<longleftrightarrow> yields r (\<lambda>z. Q (fst z) (snd z))"
  by (simp add: case_prod_unfold)

lemma yields_fold_opt:
  assumes "I s" and "\<And>x s. x \<in> set xs \<Longrightarrow> I s \<Longrightarrow> yields (f x s) I"
  shows "yields (fold_opt f xs s) I"
  using assms
proof (induction xs arbitrary: s)
  case (Cons x xs)
  have "yields (f x s) I" using Cons.prems by simp
  then have "yields (f x s) (\<lambda>s. yields (fold_opt f xs s) I)"
    by (rule yields_mono) (use Cons.IH Cons.prems(2) in auto)
  then show ?case by simp
qed simp

end
