(* ===== verification/Peer_Score.thy ===== *)
theory Peer_Score
  imports Score_Params Partial "HOL-Library.AList"
begin

text \<open>
  The peer score of \<^verbatim>\<open>score.go\<close>. \<open>None\<close> as the result of an operation is a Go panic: dereferencing the
  missing parameters of a bitmask, writing to a nil map, dividing by a zero quantum. The clock and the addresses of
  a peer's connections (\<^verbatim>\<open>getIPs\<close>) are arguments. The cache \<^verbatim>\<open>ipWhitelist\<close> memoises a function
  of the constant whitelist and is left out. The linked list of delivery entries is a list. Maps that are enumerated
  in an order that matters to no result are functions updated pointwise; the statistics of a peer by bitmask are an association list.
\<close>

record bitmaskStats =
  inMesh :: bool
  graftTime :: time
  meshTime :: int
  firstMessageDeliveries :: real
  meshMessageDeliveries :: real
  meshMessageDeliveriesActive :: bool
  meshFailurePenalty :: real
  invalidMessageDeliveries :: real

record peerStats =
  connected :: bool
  expire :: time
  bitmasks :: "(bitmask \<times> bitmaskStats) list"
  ips :: "string list"
  behaviourPenalty :: real

datatype deliveryStatus = deliveryUnknown | deliveryValid | deliveryInvalid | deliveryIgnored | deliveryThrottled

record deliveryRecord =
  status :: deliveryStatus
  firstSeen :: time
  validated :: "time option"
  dr_peers :: "peer_id list option"

record messageDeliveries =
  seenMsgTTL :: int
  records :: "message_id \<rightharpoonup> deliveryRecord"
  dqueue :: "(message_id \<times> time) list"

record peerScore =
  sparams :: PeerScoreParams
  pstats :: "peer_id \<rightharpoonup> peerStats"
  peerIPs :: "string \<Rightarrow> peer_id list"
  deliveries :: messageDeliveries
  ps_idGen :: msgIDGenerator

definition TimeCacheDuration :: int where "TimeCacheDuration = 60 * Minute"

definition newPeerScore :: "MsgIdFunction \<Rightarrow> PeerScoreParams \<Rightarrow> peerScore" where
  "newPeerScore DefaultMsgIdFn params =
     \<lparr>sparams = params, pstats = Map.empty, peerIPs = (\<lambda>_. []),
      deliveries = \<lparr>seenMsgTTL = (if SeenMsgTTL params = 0 then TimeCacheDuration else SeenMsgTTL params),
                    records = Map.empty, dqueue = []\<rparr>,
      ps_idGen = newMsgIdGenerator DefaultMsgIdFn\<rparr>"

section \<open>The score\<close>

text \<open>One bitmask's contribution; the division of durations panics for a zero quantum.\<close>

definition bitmask_score :: "BitmaskScoreParams \<Rightarrow> bitmaskStats \<Rightarrow> real option" where
  "bitmask_score tp ts =
     (if inMesh ts \<and> TimeInMeshQuantum tp = 0 then None
      else let
        p1 = (if inMesh ts then min (of_int (quot (meshTime ts) (TimeInMeshQuantum tp))) (TimeInMeshCap tp) * TimeInMeshWeight tp else 0);
        p2 = firstMessageDeliveries ts * FirstMessageDeliveriesWeight tp;
        p3 = (if meshMessageDeliveriesActive ts \<and> meshMessageDeliveries ts < MeshMessageDeliveriesThreshold tp
              then (MeshMessageDeliveriesThreshold tp - meshMessageDeliveries ts)\<^sup>2 * MeshMessageDeliveriesWeight tp else 0);
        p3b = meshFailurePenalty ts * MeshFailurePenaltyWeight tp;
        p4 = (invalidMessageDeliveries ts)\<^sup>2 * InvalidMessageDeliveriesWeight tp
        in Some ((p1 + p2 + p3 + p3b + p4) * BitmaskWeight tp))"

fun bitmasks_score :: "PeerScoreParams \<Rightarrow> (bitmask \<times> bitmaskStats) list \<Rightarrow> real option" where
  "bitmasks_score params [] = Some 0"
| "bitmasks_score params ((bm, ts) # bts) =
     (case map_of (Bitmasks params) bm of
        None \<Rightarrow> bitmasks_score params bts
      | Some tp \<Rightarrow> do { s \<leftarrow> bitmask_score tp ts; r \<leftarrow> bitmasks_score params bts; Some (s + r) })"

definition ip_surplus :: "peerScore \<Rightarrow> string \<Rightarrow> real" where
  "ip_surplus ps ip =
     (if list_ex (\<lambda>contains. contains ip) (IPColocationFactorWhitelist (sparams ps)) then 0
      else let peersInIP = int (length (peerIPs ps ip)); t = IPColocationFactorThreshold (sparams ps) in
        if peersInIP > t then (of_int (peersInIP - t))\<^sup>2 else 0)"

definition ipColocationFactor :: "peerScore \<Rightarrow> peer_id \<Rightarrow> real" where
  "ipColocationFactor ps p = (case pstats ps p of None \<Rightarrow> 0 | Some st \<Rightarrow> sum_list (map (ip_surplus ps) (ips st)))"

text \<open>Calling the missing application score function panics.\<close>

definition score :: "peerScore \<Rightarrow> peer_id \<Rightarrow> real option" where
  "score ps p = (case pstats ps p of None \<Rightarrow> Some 0
     | Some st \<Rightarrow> do {
         total \<leftarrow> bitmasks_score (sparams ps) (bitmasks st);
         app \<leftarrow> AppSpecificScore (sparams ps);
         let total = (if BitmaskScoreCap (sparams ps) > 0 \<and> total > BitmaskScoreCap (sparams ps)
                      then BitmaskScoreCap (sparams ps) else total);
         Some (total + app p * AppSpecificWeight (sparams ps)
           + ipColocationFactor ps p * IPColocationFactorWeight (sparams ps)
           + (if behaviourPenalty st > BehaviourPenaltyThreshold (sparams ps)
              then (behaviourPenalty st - BehaviourPenaltyThreshold (sparams ps))\<^sup>2 * BehaviourPenaltyWeight (sparams ps)
              else 0))
       })"

text \<open>\<^verbatim>\<open>Score\<close> on a nil receiver, when scoring is not enabled, is zero.\<close>

definition Score :: "peerScore option \<Rightarrow> peer_id \<Rightarrow> real option" where
  "Score ops p = (case ops of None \<Rightarrow> Some 0 | Some ps \<Rightarrow> score ps p)"

section \<open>Updating statistics\<close>

definition upd_peer :: "peer_id \<Rightarrow> (peerStats \<Rightarrow> peerStats) \<Rightarrow> peerScore \<Rightarrow> peerScore" where
  "upd_peer p f ps = ps\<lparr>pstats := (pstats ps)(p := map_option f (pstats ps p))\<rparr>"

definition new_stats :: bitmaskStats where
  "new_stats = \<lparr>inMesh = False, graftTime = 0, meshTime = 0, firstMessageDeliveries = 0, meshMessageDeliveries = 0,
     meshMessageDeliveriesActive = False, meshFailurePenalty = 0, invalidMessageDeliveries = 0\<rparr>"

definition getBitmaskStats :: "bitmask \<Rightarrow> PeerScoreParams \<Rightarrow> peerStats \<Rightarrow> (bitmaskStats \<times> peerStats) option" where
  "getBitmaskStats bm params st = (case map_of (bitmasks st) bm of
       Some ts \<Rightarrow> Some (ts, st)
     | None \<Rightarrow> if map_of (Bitmasks params) bm = None then None
               else Some (new_stats, st\<lparr>bitmasks := AList.update bm new_stats (bitmasks st)\<rparr>))"

text \<open>The common frame of the handlers: look the peer up, then its statistics for the bitmask, and
  change them; \<open>f\<close> gets the parameters of the bitmask, which the source dereferences.\<close>

definition on_stats :: "peer_id \<Rightarrow> bitmask \<Rightarrow> (BitmaskScoreParams option \<Rightarrow> bitmaskStats \<Rightarrow> bitmaskStats option) \<Rightarrow>
    peerScore \<Rightarrow> peerScore option" where
  "on_stats p bm f ps = (case pstats ps p of None \<Rightarrow> Some ps
     | Some st \<Rightarrow> (case getBitmaskStats bm (sparams ps) st of None \<Rightarrow> Some ps
        | Some (ts, st') \<Rightarrow> do {
            ts' \<leftarrow> f (map_of (Bitmasks (sparams ps)) bm) ts;
            Some (ps\<lparr>pstats := (pstats ps)(p \<mapsto> st'\<lparr>bitmasks := AList.update bm ts' (bitmasks st')\<rparr>)\<rparr>)
          }))"

definition AddPenalty :: "peer_id \<Rightarrow> nat \<Rightarrow> peerScore \<Rightarrow> peerScore" where
  "AddPenalty p count ps = upd_peer p (\<lambda>st. st\<lparr>behaviourPenalty := behaviourPenalty st + of_nat count\<rparr>) ps"

definition sticky_penalty :: "BitmaskScoreParams \<Rightarrow> bitmaskStats \<Rightarrow> bitmaskStats" where
  "sticky_penalty tp ts =
     (if meshMessageDeliveriesActive ts \<and> meshMessageDeliveries ts < MeshMessageDeliveriesThreshold tp
      then ts\<lparr>meshFailurePenalty := meshFailurePenalty ts + (MeshMessageDeliveriesThreshold tp - meshMessageDeliveries ts)\<^sup>2\<rparr>
      else ts)"

definition score_Graft :: "peer_id \<Rightarrow> bitmask \<Rightarrow> time \<Rightarrow> peerScore \<Rightarrow> peerScore option" where
  "score_Graft p bm now = on_stats p bm
     (\<lambda>_ ts. Some (ts\<lparr>inMesh := True, graftTime := now, meshTime := 0, meshMessageDeliveriesActive := False\<rparr>))"

definition score_Prune :: "peer_id \<Rightarrow> bitmask \<Rightarrow> peerScore \<Rightarrow> peerScore option" where
  "score_Prune p bm = on_stats p bm (\<lambda>tp ts. do { tp \<leftarrow> tp; Some ((sticky_penalty tp ts)\<lparr>inMesh := False\<rparr>) })"

definition markInvalidMessageDelivery :: "peer_id \<Rightarrow> Message \<Rightarrow> peerScore \<Rightarrow> peerScore option" where
  "markInvalidMessageDelivery p msg = on_stats p (GetBitmask msg)
     (\<lambda>_ ts. Some (ts\<lparr>invalidMessageDeliveries := invalidMessageDeliveries ts + 1\<rparr>))"

definition count_mesh_delivery :: "BitmaskScoreParams \<Rightarrow> bitmaskStats \<Rightarrow> bitmaskStats" where
  "count_mesh_delivery tp ts = ts\<lparr>meshMessageDeliveries := min (meshMessageDeliveries ts + 1) (MeshMessageDeliveriesCap tp)\<rparr>"

definition markFirstMessageDelivery :: "peer_id \<Rightarrow> Message \<Rightarrow> peerScore \<Rightarrow> peerScore option" where
  "markFirstMessageDelivery p msg = on_stats p (GetBitmask msg) (\<lambda>tp ts. do {
     tp \<leftarrow> tp;
     let ts = ts\<lparr>firstMessageDeliveries := min (firstMessageDeliveries ts + 1) (FirstMessageDeliveriesCap tp)\<rparr>;
     Some (if inMesh ts then count_mesh_delivery tp ts else ts) })"

text \<open>\<open>v = None\<close> is the zero time that \<^verbatim>\<open>DeliverMessage\<close> passes.\<close>

definition markDuplicateMessageDelivery :: "peer_id \<Rightarrow> Message \<Rightarrow> time option \<Rightarrow> time \<Rightarrow> peerScore \<Rightarrow> peerScore option" where
  "markDuplicateMessageDelivery p msg v now = on_stats p (GetBitmask msg) (\<lambda>tp ts.
     if \<not> inMesh ts then Some ts
     else do {
       tp \<leftarrow> tp;
       Some (case v of None \<Rightarrow> count_mesh_delivery tp ts
         | Some t \<Rightarrow> if now - t > MeshMessageDeliveriesWindow tp then ts else count_mesh_delivery tp ts) })"

definition recap :: "bitmask \<Rightarrow> BitmaskScoreParams \<Rightarrow> peerStats \<Rightarrow> peerStats" where
  "recap bm bp st = (case map_of (bitmasks st) bm of None \<Rightarrow> st
     | Some ts \<Rightarrow> st\<lparr>bitmasks := AList.update bm
         (ts\<lparr>firstMessageDeliveries := min (firstMessageDeliveries ts) (FirstMessageDeliveriesCap bp),
             meshMessageDeliveries := min (meshMessageDeliveries ts) (MeshMessageDeliveriesCap bp)\<rparr>) (bitmasks st)\<rparr>)"

text \<open>Writing to a nil map panics.\<close>

definition SetBitmaskScoreParams :: "bitmask \<Rightarrow> BitmaskScoreParams \<Rightarrow> peerScore \<Rightarrow> peerScore option" where
  "SetBitmaskScoreParams bm bp ps = do {
     m \<leftarrow> BitmasksMap (sparams ps);
     let old = map_of m bm;
     let ps = ps\<lparr>sparams := (sparams ps)\<lparr>BitmasksMap := Some (AList.update bm bp m)\<rparr>\<rparr>;
     Some (case old of None \<Rightarrow> ps
      | Some old \<Rightarrow>
          if FirstMessageDeliveriesCap bp < FirstMessageDeliveriesCap old \<or> MeshMessageDeliveriesCap bp < MeshMessageDeliveriesCap old
          then ps\<lparr>pstats := (\<lambda>p. map_option (recap bm bp) (pstats ps p))\<rparr>
          else ps) }"

section \<open>Address tracking\<close>

definition add_ip :: "peer_id \<Rightarrow> string \<Rightarrow> (string \<Rightarrow> peer_id list) \<Rightarrow> (string \<Rightarrow> peer_id list)" where
  "add_ip p ip m = m(ip := List.insert p (m ip))"

definition remove_ip :: "peer_id \<Rightarrow> string \<Rightarrow> (string \<Rightarrow> peer_id list) \<Rightarrow> (string \<Rightarrow> peer_id list)" where
  "remove_ip p ip m = m(ip := removeAll p (m ip))"

definition setIPs :: "peer_id \<Rightarrow> string list \<Rightarrow> string list \<Rightarrow> peerScore \<Rightarrow> peerScore" where
  "setIPs p newips oldips ps =
     (let m = fold (add_ip p) (filter (\<lambda>ip. ip \<notin> set oldips) newips) (peerIPs ps);
          m = fold (remove_ip p) (filter (\<lambda>ip. ip \<notin> set newips) oldips) m
      in ps\<lparr>peerIPs := m\<rparr>)"

definition removeIPs :: "peer_id \<Rightarrow> string list \<Rightarrow> peerScore \<Rightarrow> peerScore" where
  "removeIPs p is ps = ps\<lparr>peerIPs := fold (remove_ip p) is (peerIPs ps)\<rparr>"

section \<open>Periodic maintenance\<close>

definition decayed :: "real \<Rightarrow> real \<Rightarrow> real \<Rightarrow> real" where
  "decayed decayToZero d x = (if x * d < decayToZero then 0 else x * d)"

definition decay_stats :: "PeerScoreParams \<Rightarrow> time \<Rightarrow> BitmaskScoreParams \<Rightarrow> bitmaskStats \<Rightarrow> bitmaskStats" where
  "decay_stats params now tp ts =
     (let ts = ts\<lparr>
        firstMessageDeliveries := decayed (DecayToZero params) (FirstMessageDeliveriesDecay tp) (firstMessageDeliveries ts),
        meshMessageDeliveries := decayed (DecayToZero params) (MeshMessageDeliveriesDecay tp) (meshMessageDeliveries ts),
        meshFailurePenalty := decayed (DecayToZero params) (MeshFailurePenaltyDecay tp) (meshFailurePenalty ts),
        invalidMessageDeliveries := decayed (DecayToZero params) (InvalidMessageDeliveriesDecay tp) (invalidMessageDeliveries ts)\<rparr> in
      if inMesh ts then
        let mt = now - graftTime ts in
        ts\<lparr>meshTime := mt,
           meshMessageDeliveriesActive := meshMessageDeliveriesActive ts \<or> mt > MeshMessageDeliveriesActivation tp\<rparr>
      else ts)"

definition decay_peer :: "PeerScoreParams \<Rightarrow> time \<Rightarrow> peerStats \<Rightarrow> peerStats" where
  "decay_peer params now st =
     st\<lparr>bitmasks := map (\<lambda>(bm, ts). (bm, case map_of (Bitmasks params) bm of None \<Rightarrow> ts | Some tp \<Rightarrow> decay_stats params now tp ts)) (bitmasks st),
        behaviourPenalty := decayed (DecayToZero params) (BehaviourPenaltyDecay params) (behaviourPenalty st)\<rparr>"

text \<open>\<open>gone\<close>: a disconnected peer whose retention period has expired.\<close>

definition gone :: "time \<Rightarrow> peerScore \<Rightarrow> peer_id \<Rightarrow> bool" where
  "gone now ps p = (case pstats ps p of None \<Rightarrow> False | Some st \<Rightarrow> \<not> connected st \<and> now > expire st)"

definition ips_of :: "peerScore \<Rightarrow> peer_id \<Rightarrow> string list" where
  "ips_of ps p = (case pstats ps p of None \<Rightarrow> [] | Some st \<Rightarrow> ips st)"

definition refreshScores :: "time \<Rightarrow> peerScore \<Rightarrow> peerScore" where
  "refreshScores now ps =
     ps\<lparr>pstats := (\<lambda>p. case pstats ps p of None \<Rightarrow> None
          | Some st \<Rightarrow> if \<not> connected st then (if now > expire st then None else Some st)
                       else Some (decay_peer (sparams ps) now st)),
        peerIPs := (\<lambda>ip. filter (\<lambda>p. \<not> (gone now ps p \<and> ip \<in> set (ips_of ps p))) (peerIPs ps ip))\<rparr>"

text \<open>The addresses of the tracked peers, given by \<open>getIPs\<close>, are refreshed one connected peer after
  the other; \<open>ord\<close> is the order in which the map is enumerated.\<close>

definition refresh_ip :: "(peer_id \<Rightarrow> string list) \<Rightarrow> peer_id \<Rightarrow> peerScore \<Rightarrow> peerScore" where
  "refresh_ip getIPs p ps = (case pstats ps p of None \<Rightarrow> ps
     | Some st \<Rightarrow> if connected st
         then upd_peer p (\<lambda>st. st\<lparr>ips := getIPs p\<rparr>) (setIPs p (getIPs p) (ips st) ps) else ps)"

definition refreshIPs :: "(peer_id \<Rightarrow> string list) \<Rightarrow> peer_id list \<Rightarrow> peerScore \<Rightarrow> peerScore" where
  "refreshIPs getIPs ord ps = fold (refresh_ip getIPs) ord ps"

fun gc_queue :: "time \<Rightarrow> (message_id \<times> time) list \<Rightarrow> (message_id \<rightharpoonup> deliveryRecord) \<Rightarrow>
    (message_id \<rightharpoonup> deliveryRecord) \<times> (message_id \<times> time) list" where
  "gc_queue now [] recs = (recs, [])"
| "gc_queue now ((i, e) # q) recs = (if now > e then gc_queue now q (recs(i := None)) else (recs, (i, e) # q))"

definition gcDeliveryRecords :: "time \<Rightarrow> peerScore \<Rightarrow> peerScore" where
  "gcDeliveryRecords now ps =
     (let d = deliveries ps; (recs, q) = gc_queue now (dqueue d) (records d)
      in ps\<lparr>deliveries := d\<lparr>records := recs, dqueue := q\<rparr>\<rparr>)"

section \<open>The tracer interface\<close>

definition score_AddPeer :: "peer_id \<Rightarrow> string list \<Rightarrow> peerScore \<Rightarrow> peerScore" where
  "score_AddPeer p newips ps =
     (let st = (case pstats ps p of None \<Rightarrow> \<lparr>connected = False, expire = 0, bitmasks = [], ips = [], behaviourPenalty = 0\<rparr>
                | Some st \<Rightarrow> st);
          ps = setIPs p newips (ips st) ps
      in ps\<lparr>pstats := (pstats ps)(p \<mapsto> st\<lparr>connected := True, ips := newips\<rparr>)\<rparr>)"

text \<open>What retaining does to the statistics of every bitmask; missing parameters panic.\<close>

fun retain_stats :: "PeerScoreParams \<Rightarrow> (bitmask \<times> bitmaskStats) list \<Rightarrow> (bitmask \<times> bitmaskStats) list option" where
  "retain_stats params [] = Some []"
| "retain_stats params ((bm, ts) # bts) = do {
     tp \<leftarrow> map_of (Bitmasks params) bm;
     let ts = ts\<lparr>firstMessageDeliveries := 0\<rparr>;
     let ts = (if inMesh ts then sticky_penalty tp ts else ts);
     rest \<leftarrow> retain_stats params bts;
     Some ((bm, ts\<lparr>inMesh := False\<rparr>) # rest) }"

definition score_RemovePeer :: "peer_id \<Rightarrow> time \<Rightarrow> peerScore \<Rightarrow> peerScore option" where
  "score_RemovePeer p now ps = (case pstats ps p of None \<Rightarrow> Some ps
     | Some st \<Rightarrow> do {
         s \<leftarrow> score ps p;
         if s > 0 then Some ((removeIPs p (ips st) ps)\<lparr>pstats := (pstats ps)(p := None)\<rparr>)
         else do {
           bts \<leftarrow> retain_stats (sparams ps) (bitmasks st);
           Some (ps\<lparr>pstats := (pstats ps)(p \<mapsto> st\<lparr>bitmasks := bts, connected := False,
                     expire := now + RetainScore (sparams ps)\<rparr>)\<rparr>) } })"

text \<open>\<^verbatim>\<open>messageDeliveries.getRecord\<close>: the record, created when missing.\<close>

definition getRecord :: "message_id \<Rightarrow> time \<Rightarrow> messageDeliveries \<Rightarrow> deliveryRecord \<times> messageDeliveries" where
  "getRecord i now d = (case records d i of Some rec \<Rightarrow> (rec, d)
     | None \<Rightarrow> let rec = \<lparr>status = deliveryUnknown, firstSeen = now, validated = None, dr_peers = Some []\<rparr>
               in (rec, d\<lparr>records := (records d)(i \<mapsto> rec), dqueue := dqueue d @ [(i, now + seenMsgTTL d)]\<rparr>))"

definition ps_getRecord :: "Message \<Rightarrow> time \<Rightarrow> peerScore \<Rightarrow> deliveryRecord \<times> peerScore" where
  "ps_getRecord msg now ps = (let (rec, d) = getRecord (mid_of (ps_idGen ps) msg) now (deliveries ps) in (rec, ps\<lparr>deliveries := d\<rparr>))"

definition set_record :: "Message \<Rightarrow> deliveryRecord \<Rightarrow> peerScore \<Rightarrow> peerScore" where
  "set_record msg rec ps =
     ps\<lparr>deliveries := (deliveries ps)\<lparr>records := (records (deliveries ps))(mid_of (ps_idGen ps) msg \<mapsto> rec)\<rparr>\<rparr>"

definition score_ValidateMessage :: "Message \<Rightarrow> time \<Rightarrow> peerScore \<Rightarrow> peerScore" where
  "score_ValidateMessage msg now ps = snd (ps_getRecord msg now ps)"

definition peers_of :: "deliveryRecord \<Rightarrow> peer_id list" where
  "peers_of rec = (case dr_peers rec of None \<Rightarrow> [] | Some qs \<Rightarrow> qs)"

definition score_DeliverMessage :: "Message \<Rightarrow> time \<Rightarrow> peerScore \<Rightarrow> peerScore option" where
  "score_DeliverMessage msg now ps = do {
     ps \<leftarrow> markFirstMessageDelivery (ReceivedFrom msg) msg ps;
     let (rec, ps) = ps_getRecord msg now ps;
     if status rec \<noteq> deliveryUnknown then Some ps
     else fold_opt (\<lambda>p. markDuplicateMessageDelivery p msg None now) (filter (\<lambda>p. p \<noteq> ReceivedFrom msg) (peers_of rec))
            (set_record msg (rec\<lparr>status := deliveryValid, validated := Some now\<rparr>) ps) }"

definition score_RejectMessage :: "Message \<Rightarrow> string \<Rightarrow> time \<Rightarrow> peerScore \<Rightarrow> peerScore option" where
  "score_RejectMessage msg reason now ps =
     (if reason \<in> {RejectMissingSignature, RejectInvalidSignature, RejectUnexpectedSignature, RejectUnexpectedAuthInfo, RejectSelfOrigin}
      then markInvalidMessageDelivery (ReceivedFrom msg) msg ps
      else if reason \<in> {RejectBlacklstedPeer, RejectBlacklistedSource} then Some ps
      else if reason = RejectValidationQueueFull then Some ps
      else let (rec, ps) = ps_getRecord msg now ps in
        if status rec \<noteq> deliveryUnknown then Some ps
        else if reason = RejectValidationThrottled
          then Some (set_record msg (rec\<lparr>status := deliveryThrottled, dr_peers := None\<rparr>) ps)
        else if reason = RejectValidationIgnored
          then Some (set_record msg (rec\<lparr>status := deliveryIgnored, dr_peers := None\<rparr>) ps)
        else do {
          ps \<leftarrow> markInvalidMessageDelivery (ReceivedFrom msg) msg (set_record msg (rec\<lparr>status := deliveryInvalid, dr_peers := None\<rparr>) ps);
          fold_opt (\<lambda>p. markInvalidMessageDelivery p msg) (peers_of rec) ps })"

text \<open>Writing to a nil map of peers panics.\<close>

definition add_peer :: "peer_id \<Rightarrow> deliveryRecord \<Rightarrow> deliveryRecord option" where
  "add_peer p rec = map_option (\<lambda>qs. rec\<lparr>dr_peers := Some (qs @ [p])\<rparr>) (dr_peers rec)"

definition score_DuplicateMessage :: "Message \<Rightarrow> time \<Rightarrow> peerScore \<Rightarrow> peerScore option" where
  "score_DuplicateMessage msg now ps =
     (let (rec, ps) = ps_getRecord msg now ps; from = ReceivedFrom msg in
      if from \<in> set (peers_of rec) then Some ps
      else case status rec of
          deliveryUnknown \<Rightarrow> do { rec \<leftarrow> add_peer from rec; Some (set_record msg rec ps) }
        | deliveryValid \<Rightarrow> do { rec \<leftarrow> add_peer from rec;
            markDuplicateMessageDelivery from msg (validated rec) now (set_record msg rec ps) }
        | deliveryInvalid \<Rightarrow> markInvalidMessageDelivery from msg ps
        | deliveryThrottled \<Rightarrow> Some ps
        | deliveryIgnored \<Rightarrow> Some ps)"

end
