(* ===== verification/Peer_Score_Invariant.thy ===== *)
theory Peer_Score_Invariant
  imports Peer_Score
begin

text \<open>
  The invariant of the peer score: counters are non-negative and within their caps, only scored
  bitmasks have statistics, the address index lists exactly the tracked peers of every address, and the
  delivery queue lists exactly the delivery records. Every operation keeps it and none panics.
\<close>

definition sane :: "BitmaskScoreParams \<Rightarrow> bool" where
  "sane tp \<longleftrightarrow> TimeInMeshQuantum tp \<noteq> 0 \<and> 0 \<le> FirstMessageDeliveriesCap tp \<and> 0 \<le> MeshMessageDeliveriesCap tp
     \<and> list_all (\<lambda>d. 0 \<le> d \<and> d \<le> 1) [FirstMessageDeliveriesDecay tp, MeshMessageDeliveriesDecay tp,
          MeshFailurePenaltyDecay tp, InvalidMessageDeliveriesDecay tp]"

definition params_ok :: "PeerScoreParams \<Rightarrow> bool" where
  "params_ok params \<longleftrightarrow> (\<forall>bm tp. map_of (Bitmasks params) bm = Some tp \<longrightarrow> sane tp)
     \<and> AppSpecificScore params \<noteq> None \<and> 0 \<le> BehaviourPenaltyDecay params"

definition ts_ok :: "BitmaskScoreParams \<Rightarrow> bitmaskStats \<Rightarrow> bool" where
  "ts_ok tp ts \<longleftrightarrow> 0 \<le> firstMessageDeliveries ts \<and> firstMessageDeliveries ts \<le> FirstMessageDeliveriesCap tp
     \<and> 0 \<le> meshMessageDeliveries ts \<and> meshMessageDeliveries ts \<le> MeshMessageDeliveriesCap tp
     \<and> 0 \<le> meshFailurePenalty ts \<and> 0 \<le> invalidMessageDeliveries ts"

definition stats_ok :: "PeerScoreParams \<Rightarrow> (bitmask \<times> bitmaskStats) list \<Rightarrow> bool" where
  "stats_ok params bts \<longleftrightarrow> distinct (map fst bts) \<and>
     (\<forall>bm ts. map_of bts bm = Some ts \<longrightarrow> (\<exists>tp. map_of (Bitmasks params) bm = Some tp \<and> ts_ok tp ts))"

definition peer_ok :: "PeerScoreParams \<Rightarrow> peerStats \<Rightarrow> bool" where
  "peer_ok params st \<longleftrightarrow> stats_ok params (bitmasks st) \<and> 0 \<le> behaviourPenalty st"

definition peers_ok :: "peerScore \<Rightarrow> bool" where
  "peers_ok ps \<longleftrightarrow> (\<forall>p st. pstats ps p = Some st \<longrightarrow> peer_ok (sparams ps) st)"

definition ips_ok :: "peerScore \<Rightarrow> bool" where
  "ips_ok ps \<longleftrightarrow> (\<forall>ip. distinct (peerIPs ps ip)) \<and> (\<forall>ip p. p \<in> set (peerIPs ps ip) \<longleftrightarrow> ip \<in> set (ips_of ps p))"

definition record_ok :: "deliveryRecord \<Rightarrow> bool" where
  "record_ok rec \<longleftrightarrow> (status rec \<in> {deliveryUnknown, deliveryValid} \<longrightarrow> dr_peers rec \<noteq> None)"

definition deliv_ok :: "messageDeliveries \<Rightarrow> bool" where
  "deliv_ok d \<longleftrightarrow> distinct (map fst (dqueue d)) \<and> fst ` set (dqueue d) = dom (records d)
     \<and> (\<forall>i rec. records d i = Some rec \<longrightarrow> record_ok rec)"

definition ps_ok :: "peerScore \<Rightarrow> bool" where
  "ps_ok ps \<longleftrightarrow> params_ok (sparams ps) \<and> peers_ok ps \<and> ips_ok ps \<and> deliv_ok (deliveries ps)"

section \<open>Statistics\<close>

lemma stats_ok_update:
  "stats_ok params bts \<Longrightarrow> map_of (Bitmasks params) bm = Some tp \<Longrightarrow> ts_ok tp ts \<Longrightarrow> stats_ok params (AList.update bm ts bts)"
  by (auto simp: stats_ok_def distinct_update update_conv')

lemma ts_ok_new: "sane tp \<Longrightarrow> ts_ok tp new_stats"
  by (simp add: ts_ok_def new_stats_def sane_def)

lemma params_okD: "params_ok params \<Longrightarrow> map_of (Bitmasks params) bm = Some tp \<Longrightarrow> sane tp"
  by (simp add: params_ok_def)

lemma stats_okD:
  "stats_ok params bts \<Longrightarrow> map_of bts bm = Some ts \<Longrightarrow> \<exists>tp. map_of (Bitmasks params) bm = Some tp \<and> ts_ok tp ts"
  unfolding stats_ok_def by blast

lemma getBitmaskStats_ok:
  assumes "params_ok params" "peer_ok params st" "getBitmaskStats bm params st = Some (ts, st')"
  shows "\<exists>tp. map_of (Bitmasks params) bm = Some tp \<and> sane tp \<and> ts_ok tp ts \<and> peer_ok params st'
    \<and> ips st' = ips st \<and> behaviourPenalty st' = behaviourPenalty st"
proof (cases "map_of (bitmasks st) bm")
  case (Some ts0)
  with assms(3) have "ts = ts0" "st' = st" by (auto simp: getBitmaskStats_def)
  moreover obtain tp where "map_of (Bitmasks params) bm = Some tp" "ts_ok tp ts0"
    using stats_okD [OF _ Some] assms(2) unfolding peer_ok_def by blast
  ultimately show ?thesis using assms(1,2) params_okD by auto
next
  case None
  with assms(3) obtain tp where tp: "map_of (Bitmasks params) bm = Some tp"
    and eq: "ts = new_stats" "st' = st\<lparr>bitmasks := AList.update bm new_stats (bitmasks st)\<rparr>"
    by (auto simp: getBitmaskStats_def split: if_splits)
  have "sane tp" using params_okD [OF assms(1) tp] .
  then show ?thesis using tp eq assms(2) ts_ok_new by (auto simp: peer_ok_def intro: stats_ok_update)
qed

definition same_frame :: "peerScore \<Rightarrow> peerScore \<Rightarrow> bool" where
  "same_frame ps ps' \<longleftrightarrow> sparams ps' = sparams ps \<and> peerIPs ps' = peerIPs ps \<and> deliveries ps' = deliveries ps
     \<and> ps_idGen ps' = ps_idGen ps \<and> ips_of ps' = ips_of ps \<and> dom (pstats ps') = dom (pstats ps)"

lemma same_frame_refl [simp]: "same_frame ps ps"
  by (simp add: same_frame_def)

lemma same_frame_trans: "same_frame a b \<Longrightarrow> same_frame b c \<Longrightarrow> same_frame a c"
  by (simp add: same_frame_def)

lemma ps_ok_frame: "ps_ok ps \<Longrightarrow> same_frame ps ps' \<Longrightarrow> peers_ok ps' \<Longrightarrow> ps_ok ps'"
  by (simp add: ps_ok_def same_frame_def ips_ok_def)

lemma ps_ok_upd:
  assumes "ps_ok ps" "pstats ps p = Some st" "peer_ok (sparams ps) st'" "ips st' = ips st"
  shows "ps_ok (ps\<lparr>pstats := (pstats ps)(p \<mapsto> st')\<rparr>) \<and> same_frame ps (ps\<lparr>pstats := (pstats ps)(p \<mapsto> st')\<rparr>)"
proof -
  have f: "same_frame ps (ps\<lparr>pstats := (pstats ps)(p \<mapsto> st')\<rparr>)"
    using assms(2,4) by (auto simp: same_frame_def ips_of_def fun_eq_iff dom_def)
  moreover have "peers_ok (ps\<lparr>pstats := (pstats ps)(p \<mapsto> st')\<rparr>)"
    using assms(1,3) by (auto simp: ps_ok_def peers_ok_def)
  ultimately show ?thesis using ps_ok_frame [OF assms(1)] by blast
qed

lemma on_stats_ok:
  assumes "ps_ok ps" and f: "\<And>tp ts. sane tp \<Longrightarrow> ts_ok tp ts \<Longrightarrow> \<exists>ts'. f (Some tp) ts = Some ts' \<and> ts_ok tp ts'"
  shows "\<exists>ps'. on_stats p bm f ps = Some ps' \<and> ps_ok ps' \<and> same_frame ps ps'"
proof (cases "pstats ps p")
  case None
  then show ?thesis using assms by (simp add: on_stats_def)
next
  case (Some st)
  have st: "params_ok (sparams ps)" "peer_ok (sparams ps) st"
    using assms(1) Some by (auto simp: ps_ok_def peers_ok_def)
  show ?thesis
  proof (cases "getBitmaskStats bm (sparams ps) st")
    case None
    with Some show ?thesis using assms(1) by (simp add: on_stats_def)
  next
    case g: (Some r)
    obtain ts st' where r: "r = (ts, st')" by (cases r)
    obtain tp where tp: "map_of (Bitmasks (sparams ps)) bm = Some tp" "sane tp" "ts_ok tp ts" "peer_ok (sparams ps) st'"
      "ips st' = ips st" using getBitmaskStats_ok [OF st] g r by blast
    obtain ts' where ts': "f (Some tp) ts = Some ts'" "ts_ok tp ts'" using f tp by blast
    let ?st = "st'\<lparr>bitmasks := AList.update bm ts' (bitmasks st')\<rparr>"
    have "peer_ok (sparams ps) ?st" "ips ?st = ips st"
      using tp ts' by (auto simp: peer_ok_def intro: stats_ok_update)
    from ps_ok_upd [OF assms(1) Some this] show ?thesis
      using Some g r tp(1) ts'(1) by (simp add: on_stats_def)
  qed
qed

lemma count_mesh_ok: "sane tp \<Longrightarrow> ts_ok tp ts \<Longrightarrow> ts_ok tp (count_mesh_delivery tp ts)"
  by (simp add: ts_ok_def count_mesh_delivery_def sane_def)

lemma mark_ops_ok:
  assumes "ps_ok ps"
  shows "\<exists>ps'. score_Graft p bm now ps = Some ps' \<and> ps_ok ps' \<and> same_frame ps ps'"
    "\<exists>ps'. score_Prune p bm ps = Some ps' \<and> ps_ok ps' \<and> same_frame ps ps'"
    "\<exists>ps'. markInvalidMessageDelivery p msg ps = Some ps' \<and> ps_ok ps' \<and> same_frame ps ps'"
    "\<exists>ps'. markFirstMessageDelivery p msg ps = Some ps' \<and> ps_ok ps' \<and> same_frame ps ps'"
    "\<exists>ps'. markDuplicateMessageDelivery p msg v now ps = Some ps' \<and> ps_ok ps' \<and> same_frame ps ps'"
proof -
  show "\<exists>ps'. score_Graft p bm now ps = Some ps' \<and> ps_ok ps' \<and> same_frame ps ps'"
    unfolding score_Graft_def by (rule on_stats_ok [OF assms]) (auto simp: ts_ok_def)
  show "\<exists>ps'. score_Prune p bm ps = Some ps' \<and> ps_ok ps' \<and> same_frame ps ps'"
    unfolding score_Prune_def by (rule on_stats_ok [OF assms]) (auto simp: ts_ok_def sticky_penalty_def)
  show "\<exists>ps'. markInvalidMessageDelivery p msg ps = Some ps' \<and> ps_ok ps' \<and> same_frame ps ps'"
    unfolding markInvalidMessageDelivery_def by (rule on_stats_ok [OF assms]) (auto simp: ts_ok_def)
  show "\<exists>ps'. markFirstMessageDelivery p msg ps = Some ps' \<and> ps_ok ps' \<and> same_frame ps ps'"
    unfolding markFirstMessageDelivery_def
    by (rule on_stats_ok [OF assms]) (auto simp: Let_def ts_ok_def sane_def count_mesh_delivery_def)
  show "\<exists>ps'. markDuplicateMessageDelivery p msg v now ps = Some ps' \<and> ps_ok ps' \<and> same_frame ps ps'"
    unfolding markDuplicateMessageDelivery_def
    by (rule on_stats_ok [OF assms]) (auto simp: count_mesh_ok split: option.splits)
qed

lemma AddPenalty_ok: "ps_ok ps \<Longrightarrow> ps_ok (AddPenalty p n ps) \<and> same_frame ps (AddPenalty p n ps)"
proof (cases "pstats ps p")
  case None
  assume "ps_ok ps"
  moreover have "AddPenalty p n ps = ps" using None by (simp add: AddPenalty_def upd_peer_def fun_upd_idem)
  ultimately show ?thesis by simp
next
  case (Some st)
  assume ok: "ps_ok ps"
  let ?st = "st\<lparr>behaviourPenalty := behaviourPenalty st + of_nat n\<rparr>"
  have "peer_ok (sparams ps) st" using ok Some by (auto simp: ps_ok_def peers_ok_def)
  then have "peer_ok (sparams ps) ?st" by (simp add: peer_ok_def)
  from ps_ok_upd [OF ok Some this] show ?thesis using Some by (simp add: AddPenalty_def upd_peer_def)
qed

lemma fold_opt_ok:
  assumes "ps_ok ps" and step: "\<And>x ps. ps_ok ps \<Longrightarrow> \<exists>ps'. f x ps = Some ps' \<and> ps_ok ps' \<and> same_frame ps ps'"
  shows "\<exists>ps'. fold_opt f xs ps = Some ps' \<and> ps_ok ps' \<and> same_frame ps ps'"
  using assms(1)
proof (induction xs arbitrary: ps)
  case (Cons x xs)
  obtain ps1 where 1: "f x ps = Some ps1" "ps_ok ps1" "same_frame ps ps1" using step [OF Cons.prems] by blast
  from Cons.IH [OF 1(2)] obtain ps2 where "fold_opt f xs ps1 = Some ps2" "ps_ok ps2" "same_frame ps1 ps2" by blast
  with 1 same_frame_trans show ?case by (auto intro: same_frame_trans)
qed simp

section \<open>Delivery records\<close>

lemma ps_ok_deliveries: "ps_ok ps \<Longrightarrow> deliv_ok d \<Longrightarrow> ps_ok (ps\<lparr>deliveries := d\<rparr>)"
  by (simp add: ps_ok_def peers_ok_def ips_ok_def ips_of_def)

lemma getRecord_ok:
  assumes "deliv_ok d"
  shows "deliv_ok (snd (getRecord i now d)) \<and> records (snd (getRecord i now d)) i = Some (fst (getRecord i now d))
    \<and> record_ok (fst (getRecord i now d))"
proof (cases "records d i")
  case None
  then have "i \<notin> fst ` set (dqueue d)" using assms by (auto simp: deliv_ok_def)
  with None assms show ?thesis by (auto simp: getRecord_def deliv_ok_def record_ok_def Let_def)
next
  case (Some rec)
  with assms show ?thesis by (auto simp: getRecord_def deliv_ok_def)
qed

lemma ps_getRecord_ok:
  assumes "ps_ok ps" "ps_getRecord msg now ps = (rec, ps')"
  shows "ps_ok ps' \<and> record_ok rec \<and> records (deliveries ps') (mid_of (ps_idGen ps') msg) = Some rec \<and> ps_idGen ps' = ps_idGen ps"
proof -
  have "deliv_ok (deliveries ps)" using assms(1) by (simp add: ps_ok_def)
  from getRecord_ok [OF this, of "mid_of (ps_idGen ps) msg" now] assms show ?thesis
    by (auto simp: ps_getRecord_def split: prod.splits intro: ps_ok_deliveries)
qed

lemma set_record_ok:
  assumes "ps_ok ps" "record_ok rec" "records (deliveries ps) (mid_of (ps_idGen ps) msg) \<noteq> None"
  shows "ps_ok (set_record msg rec ps)"
proof -
  have "deliv_ok (deliveries ps)" using assms(1) by (simp add: ps_ok_def)
  with assms(2,3) have "deliv_ok ((deliveries ps)\<lparr>records := (records (deliveries ps))(mid_of (ps_idGen ps) msg \<mapsto> rec)\<rparr>)"
    by (auto simp: deliv_ok_def insert_absorb domIff)
  then show ?thesis using assms(1) by (simp add: set_record_def ps_ok_deliveries)
qed

lemma ValidateMessage_ok: "ps_ok ps \<Longrightarrow> ps_ok (score_ValidateMessage msg now ps)"
  using ps_getRecord_ok [of ps msg now] by (cases "ps_getRecord msg now ps") (auto simp: score_ValidateMessage_def)

lemma DeliverMessage_ok:
  assumes "ps_ok ps"
  shows "\<exists>ps'. score_DeliverMessage msg now ps = Some ps' \<and> ps_ok ps'"
proof -
  obtain ps1 where 1: "markFirstMessageDelivery (ReceivedFrom msg) msg ps = Some ps1" "ps_ok ps1"
    using mark_ops_ok(4) [OF assms] by blast
  obtain rec ps2 where r: "ps_getRecord msg now ps1 = (rec, ps2)" by (cases "ps_getRecord msg now ps1")
  note 2 = ps_getRecord_ok [OF 1(2) r]
  show ?thesis
  proof (cases "status rec = deliveryUnknown")
    case True
    let ?ps = "set_record msg (rec\<lparr>status := deliveryValid, validated := Some now\<rparr>) ps2"
    have "ps_ok ?ps" using 2 True by (intro set_record_ok) (auto simp: record_ok_def)
    from fold_opt_ok [where f = "\<lambda>p. markDuplicateMessageDelivery p msg None now", OF this mark_ops_ok(5)] True 1 r show ?thesis
      by (auto simp: score_DeliverMessage_def)
  next
    case False
    then show ?thesis using 1 r 2 by (simp add: score_DeliverMessage_def)
  qed
qed

lemma RejectMessage_ok:
  assumes "ps_ok ps"
  shows "\<exists>ps'. score_RejectMessage msg reason now ps = Some ps' \<and> ps_ok ps'"
proof -
  obtain rec ps2 where r: "ps_getRecord msg now ps = (rec, ps2)" by (cases "ps_getRecord msg now ps")
  note 2 = ps_getRecord_ok [OF assms r]
  have set: "ps_ok (set_record msg (rec\<lparr>status := st, dr_peers := None\<rparr>) ps2)"
    if "st \<notin> {deliveryUnknown, deliveryValid}" for st
    using 2 that by (intro set_record_ok) (auto simp: record_ok_def)
  obtain ps3 where 3: "markInvalidMessageDelivery (ReceivedFrom msg) msg (set_record msg (rec\<lparr>status := deliveryInvalid, dr_peers := None\<rparr>) ps2) = Some ps3"
    "ps_ok ps3" using mark_ops_ok(3) [OF set [of deliveryInvalid]] by auto
  obtain ps4 where 4: "fold_opt (\<lambda>p. markInvalidMessageDelivery p msg) (peers_of rec) ps3 = Some ps4" "ps_ok ps4"
    using fold_opt_ok [OF 3(2), of "\<lambda>p. markInvalidMessageDelivery p msg"] mark_ops_ok(3) by blast
  obtain ps5 where 5: "markInvalidMessageDelivery (ReceivedFrom msg) msg ps = Some ps5" "ps_ok ps5"
    using mark_ops_ok(3) [OF assms] by blast
  show ?thesis using assms r 2 set [of deliveryThrottled] set [of deliveryIgnored] 3 4 5
    by (simp add: score_RejectMessage_def)
qed

lemma DuplicateMessage_ok:
  assumes "ps_ok ps"
  shows "\<exists>ps'. score_DuplicateMessage msg now ps = Some ps' \<and> ps_ok ps'"
proof -
  obtain rec ps2 where r: "ps_getRecord msg now ps = (rec, ps2)" by (cases "ps_getRecord msg now ps")
  note 2 = ps_getRecord_ok [OF assms r]
  have add: "\<exists>rec'. add_peer (ReceivedFrom msg) rec = Some rec' \<and> ps_ok (set_record msg rec' ps2)"
    if "status rec \<in> {deliveryUnknown, deliveryValid}"
  proof -
    have "dr_peers rec \<noteq> None" using 2 that by (auto simp: record_ok_def)
    then obtain qs where "dr_peers rec = Some qs" by blast
    then have "add_peer (ReceivedFrom msg) rec = Some (rec\<lparr>dr_peers := Some (qs @ [ReceivedFrom msg])\<rparr>)" by (simp add: add_peer_def)
    moreover have "ps_ok (set_record msg (rec\<lparr>dr_peers := Some (qs @ [ReceivedFrom msg])\<rparr>) ps2)"
      using 2 by (intro set_record_ok) (auto simp: record_ok_def)
    ultimately show ?thesis by blast
  qed
  show ?thesis
  proof (cases "status rec")
    case deliveryUnknown
    then show ?thesis using add r 2 by (auto simp: score_DuplicateMessage_def Let_def)
  next
    case deliveryValid
    then obtain rec' where a: "add_peer (ReceivedFrom msg) rec = Some rec'" "ps_ok (set_record msg rec' ps2)" using add by auto
    from mark_ops_ok(5) [OF a(2), of "ReceivedFrom msg" msg "validated rec'" now] a(1) deliveryValid r 2 show ?thesis
      by (auto simp: score_DuplicateMessage_def Let_def)
  next
    case deliveryInvalid
    from mark_ops_ok(3) [OF conjunct1 [OF 2]] deliveryInvalid r 2 show ?thesis
      by (auto simp: score_DuplicateMessage_def Let_def)
  qed (use r 2 in \<open>auto simp: score_DuplicateMessage_def Let_def\<close>)
qed

section \<open>Addresses\<close>

lemma fold_add_ip: "p' \<in> set (fold (add_ip p) is m ip) \<longleftrightarrow> p' \<in> set (m ip) \<or> p' = p \<and> ip \<in> set is"
  by (induction "is" arbitrary: m) (auto simp: add_ip_def)

lemma fold_remove_ip: "p' \<in> set (fold (remove_ip p) is m ip) \<longleftrightarrow> p' \<in> set (m ip) \<and> \<not> (p' = p \<and> ip \<in> set is)"
  by (induction "is" arbitrary: m) (auto simp: remove_ip_def)

lemma fold_ip_distinct:
  "(\<And>ip. distinct (m ip)) \<Longrightarrow> distinct (fold (add_ip p) is m ip)"
  "(\<And>ip. distinct (m ip)) \<Longrightarrow> distinct (fold (remove_ip p) is m ip)"
  by (induction "is" arbitrary: m) (simp_all add: add_ip_def remove_ip_def distinct_removeAll)

lemma setIPs_simps [simp]:
  "sparams (setIPs p n old ps) = sparams ps" "pstats (setIPs p n old ps) = pstats ps"
  "deliveries (setIPs p n old ps) = deliveries ps" "ps_idGen (setIPs p n old ps) = ps_idGen ps"
  by (simp_all add: setIPs_def Let_def)

lemma setIPs_index:
  assumes "ips_ok ps" "ips_of ps p = old"
  shows "p' \<in> set (peerIPs (setIPs p n old ps) ip) \<longleftrightarrow> (if p' = p then ip \<in> set n else ip \<in> set (ips_of ps p'))"
    and "distinct (peerIPs (setIPs p n old ps) ip)"
proof -
  have i: "p' \<in> set (peerIPs ps ip) \<longleftrightarrow> ip \<in> set (ips_of ps p')" for p' using assms(1) by (simp add: ips_ok_def)
  show "p' \<in> set (peerIPs (setIPs p n old ps) ip) \<longleftrightarrow> (if p' = p then ip \<in> set n else ip \<in> set (ips_of ps p'))"
    using i assms(2) by (auto simp: setIPs_def Let_def fold_add_ip fold_remove_ip)
  show "distinct (peerIPs (setIPs p n old ps) ip)"
    using assms(1) by (simp add: setIPs_def Let_def ips_ok_def fold_ip_distinct)
qed

lemma set_peer_ok:
  assumes ok: "ps_ok ps" and st: "peer_ok (sparams ps) st" "ips st = n" and old: "ips_of ps p = old"
  shows "ps_ok ((setIPs p n old ps)\<lparr>pstats := (pstats ps)(p \<mapsto> st)\<rparr>)"
proof -
  let ?ps = "(setIPs p n old ps)\<lparr>pstats := (pstats ps)(p \<mapsto> st)\<rparr>"
  have "ips_ok ps" using ok by (simp add: ps_ok_def)
  note idx = setIPs_index [OF this old]
  have "ips_of ?ps p' = (if p' = p then n else ips_of ps p')" for p'
    using st(2) by (simp add: ips_of_def)
  then have "ips_ok ?ps" using idx by (simp add: ips_ok_def)
  moreover have "peers_ok ?ps" using ok st by (auto simp: ps_ok_def peers_ok_def)
  ultimately show ?thesis using ok by (simp add: ps_ok_def)
qed

lemma AddPeer_ok: "ps_ok ps \<Longrightarrow> ps_ok (score_AddPeer p n ps)"
proof (cases "pstats ps p")
  case None
  assume ok: "ps_ok ps"
  have "peer_ok (sparams ps) \<lparr>connected = True, expire = 0, bitmasks = [], ips = n, behaviourPenalty = 0\<rparr>"
    by (simp add: peer_ok_def stats_ok_def)
  from set_peer_ok [OF ok this, of n p "[]"] None show ?thesis by (simp add: score_AddPeer_def ips_of_def)
next
  case (Some st)
  assume ok: "ps_ok ps"
  then have "peer_ok (sparams ps) st" using Some by (auto simp: ps_ok_def peers_ok_def)
  then have "peer_ok (sparams ps) (st\<lparr>connected := True, ips := n\<rparr>)" by (simp add: peer_ok_def)
  from set_peer_ok [OF ok this, of n p "ips st"] Some show ?thesis by (simp add: score_AddPeer_def ips_of_def)
qed

lemma refreshIPs_ok: "ps_ok ps \<Longrightarrow> ps_ok (refreshIPs getIPs ord ps)"
  unfolding refreshIPs_def
proof (induction ord arbitrary: ps)
  case (Cons p ord)
  have "ps_ok (refresh_ip getIPs p ps)"
  proof (cases "pstats ps p")
    case None
    then show ?thesis using Cons.prems by (simp add: refresh_ip_def)
  next
    case (Some st)
    then have "peer_ok (sparams ps) st" using Cons.prems by (auto simp: ps_ok_def peers_ok_def)
    then have "peer_ok (sparams ps) (st\<lparr>ips := getIPs p\<rparr>)" by (simp add: peer_ok_def)
    from set_peer_ok [OF Cons.prems this, of "getIPs p" p "ips st"] Some Cons.prems show ?thesis
      by (simp add: refresh_ip_def ips_of_def upd_peer_def)
  qed
  then show ?case using Cons.IH by simp
qed simp

lemma remove_peer_ok:
  assumes "ps_ok ps" "pstats ps p = Some st"
  shows "ps_ok ((removeIPs p (ips st) ps)\<lparr>pstats := (pstats ps)(p := None)\<rparr>)"
proof -
  let ?ps = "(removeIPs p (ips st) ps)\<lparr>pstats := (pstats ps)(p := None)\<rparr>"
  have i: "p' \<in> set (peerIPs ps ip) \<longleftrightarrow> ip \<in> set (ips_of ps p')" "distinct (peerIPs ps ip)" for p' ip
    using assms(1) by (simp_all add: ps_ok_def ips_ok_def)
  have "ips_of ?ps p' = (if p' = p then [] else ips_of ps p')" for p' by (simp add: ips_of_def)
  moreover have "ips_of ps p = ips st" using assms(2) by (simp add: ips_of_def)
  ultimately have "ips_ok ?ps"
    using i by (auto simp: ips_ok_def removeIPs_def fold_remove_ip fold_ip_distinct)
  moreover have "peers_ok ?ps" using assms(1) by (auto simp: ps_ok_def peers_ok_def removeIPs_def)
  ultimately show ?thesis using assms(1) by (simp add: ps_ok_def removeIPs_def)
qed

section \<open>Scores exist\<close>

lemma bitmasks_score_total:
  assumes "params_ok params"
  shows "\<exists>s. bitmasks_score params bts = Some s"
proof (induction bts)
  case (Cons b bts)
  obtain bm ts where b: "b = (bm, ts)" by (cases b)
  show ?case
  proof (cases "map_of (Bitmasks params) bm")
    case (Some tp)
    then have "TimeInMeshQuantum tp \<noteq> 0" using params_okD [OF assms(1)] by (simp add: sane_def)
    with Some Cons b show ?thesis by (auto simp: bitmask_score_def Let_def)
  qed (use Cons b in simp)
qed simp

lemma score_total:
  assumes "ps_ok ps"
  shows "\<exists>s. score ps p = Some s"
proof (cases "pstats ps p")
  case (Some st)
  have ok: "params_ok (sparams ps)" using assms by (simp add: ps_ok_def)
  then obtain app where "AppSpecificScore (sparams ps) = Some app" by (auto simp: params_ok_def)
  moreover obtain t where "bitmasks_score (sparams ps) (bitmasks st) = Some t" using bitmasks_score_total [OF ok] by blast
  ultimately show ?thesis using Some by (simp add: score_def Let_def)
qed (simp add: score_def)

section \<open>Disconnecting and maintenance\<close>

lemma retain_stats_ok:
  assumes "params_ok params" "\<And>bm ts. (bm, ts) \<in> set bts \<Longrightarrow> \<exists>tp. map_of (Bitmasks params) bm = Some tp \<and> ts_ok tp ts"
  shows "\<exists>bts'. retain_stats params bts = Some bts' \<and> map fst bts' = map fst bts
    \<and> (\<forall>bm ts. (bm, ts) \<in> set bts' \<longrightarrow> (\<exists>tp. map_of (Bitmasks params) bm = Some tp \<and> ts_ok tp ts))"
  using assms(2)
proof (induction bts)
  case (Cons b bts)
  obtain bm ts where b: "b = (bm, ts)" by (cases b)
  obtain tp where tp: "map_of (Bitmasks params) bm = Some tp" "ts_ok tp ts" using Cons.prems b by auto
  have "sane tp" using params_okD [OF assms(1) tp(1)] .
  then have "ts_ok tp ((if inMesh ts then sticky_penalty tp (ts\<lparr>firstMessageDeliveries := 0\<rparr>) else ts\<lparr>firstMessageDeliveries := 0\<rparr>)\<lparr>inMesh := False\<rparr>)"
    using tp(2) by (auto simp: ts_ok_def sticky_penalty_def sane_def)
  moreover obtain rest where "retain_stats params bts = Some rest" "map fst rest = map fst bts"
    "\<forall>bm ts. (bm, ts) \<in> set rest \<longrightarrow> (\<exists>tp. map_of (Bitmasks params) bm = Some tp \<and> ts_ok tp ts)"
    using Cons by auto
  ultimately show ?case using tp(1) b by (auto simp: Let_def)
qed simp

lemma stats_ok_set:
  "stats_ok params bts \<longleftrightarrow> distinct (map fst bts) \<and>
     (\<forall>bm ts. (bm, ts) \<in> set bts \<longrightarrow> (\<exists>tp. map_of (Bitmasks params) bm = Some tp \<and> ts_ok tp ts))"
  unfolding stats_ok_def by (auto simp: map_of_eq_Some_iff)

lemma RemovePeer_ok:
  assumes "ps_ok ps"
  shows "\<exists>ps'. score_RemovePeer p now ps = Some ps' \<and> ps_ok ps'"
proof (cases "pstats ps p")
  case (Some st)
  obtain s where s: "score ps p = Some s" using score_total [OF assms] by blast
  show ?thesis
  proof (cases "s > 0")
    case True
    then show ?thesis using remove_peer_ok [OF assms Some] Some s by (simp add: score_RemovePeer_def)
  next
    case False
    have ok: "params_ok (sparams ps)" "peer_ok (sparams ps) st" using assms Some by (auto simp: ps_ok_def peers_ok_def)
    then have so: "stats_ok (sparams ps) (bitmasks st)" by (simp add: peer_ok_def)
    have "\<exists>tp. map_of (Bitmasks (sparams ps)) bm = Some tp \<and> ts_ok tp ts" if "(bm, ts) \<in> set (bitmasks st)" for bm ts
      using so that unfolding stats_ok_set by blast
    from retain_stats_ok [OF ok(1) this] obtain bts' where b: "retain_stats (sparams ps) (bitmasks st) = Some bts'"
      "map fst bts' = map fst (bitmasks st)"
      "\<forall>bm ts. (bm, ts) \<in> set bts' \<longrightarrow> (\<exists>tp. map_of (Bitmasks (sparams ps)) bm = Some tp \<and> ts_ok tp ts)" by blast
    then have "stats_ok (sparams ps) bts'" using so unfolding stats_ok_set by simp
    then have "peer_ok (sparams ps) (st\<lparr>bitmasks := bts', connected := False, expire := now + RetainScore (sparams ps)\<rparr>)"
      using ok(2) by (simp add: peer_ok_def)
    from ps_ok_upd [OF assms Some this] False Some s b(1) show ?thesis by (simp add: score_RemovePeer_def)
  qed
qed (use assms in \<open>simp add: score_RemovePeer_def\<close>)

lemma decayed_bounds: "0 \<le> x \<Longrightarrow> 0 \<le> d \<Longrightarrow> 0 \<le> decayed z d x" "0 \<le> x \<Longrightarrow> d \<le> 1 \<Longrightarrow> 0 \<le> d \<Longrightarrow> decayed z d x \<le> x"
  by (simp_all add: decayed_def mult_left_le)

lemma decay_stats_ok: "sane tp \<Longrightarrow> ts_ok tp ts \<Longrightarrow> ts_ok tp (decay_stats params now tp ts)"
  by (auto simp: ts_ok_def sane_def decay_stats_def Let_def decayed_bounds intro: order.trans [OF decayed_bounds(2)])

lemma decay_peer_ok:
  assumes "params_ok params" "peer_ok params st"
  shows "peer_ok params (decay_peer params now st)"
proof -
  let ?f = "\<lambda>(bm, ts). (bm, case map_of (Bitmasks params) bm of None \<Rightarrow> ts | Some tp \<Rightarrow> decay_stats params now tp ts)"
  have so: "stats_ok params (bitmasks st)" using assms(2) by (simp add: peer_ok_def)
  have "map fst (map ?f (bitmasks st)) = map fst (bitmasks st)" by auto
  moreover have "\<exists>tp. map_of (Bitmasks params) bm = Some tp \<and> ts_ok tp ts" if i: "(bm, ts) \<in> set (map ?f (bitmasks st))" for bm ts
  proof -
    obtain ts0 where ts0: "(bm, ts0) \<in> set (bitmasks st)"
      "ts = (case map_of (Bitmasks params) bm of None \<Rightarrow> ts0 | Some tp \<Rightarrow> decay_stats params now tp ts0)" using i by auto
    then obtain tp where "map_of (Bitmasks params) bm = Some tp" "ts_ok tp ts0" using so unfolding stats_ok_set by blast
    then show ?thesis using ts0(2) params_okD [OF assms(1)] decay_stats_ok by auto
  qed
  ultimately have "stats_ok params (map ?f (bitmasks st))" using so unfolding stats_ok_set by (simp only:) blast
  then show ?thesis using assms by (simp add: peer_ok_def decay_peer_def decayed_bounds params_ok_def)
qed

lemma refreshScores_ok:
  assumes "ps_ok ps"
  shows "ps_ok (refreshScores now ps)"
proof -
  let ?ps = "refreshScores now ps"
  have "ips_of ?ps p = (if gone now ps p then [] else ips_of ps p)" for p
    by (auto simp: refreshScores_def ips_of_def gone_def decay_peer_def split: option.splits)
  moreover have "p \<in> set (peerIPs ps ip) \<longleftrightarrow> ip \<in> set (ips_of ps p)" "distinct (peerIPs ps ip)" for p ip
    using assms by (simp_all add: ps_ok_def ips_ok_def)
  ultimately have "ips_ok ?ps" by (auto simp: ips_ok_def refreshScores_def)
  moreover have "peers_ok ?ps"
    using assms decay_peer_ok by (auto simp: ps_ok_def peers_ok_def refreshScores_def split: option.splits if_splits)
  ultimately show ?thesis using assms by (simp add: ps_ok_def refreshScores_def)
qed

lemma gc_queue_ok:
  assumes "distinct (map fst q)" "fst ` set q = dom recs" "\<forall>i rec. recs i = Some rec \<longrightarrow> record_ok rec"
    "gc_queue now q recs = (recs', q')"
  shows "distinct (map fst q') \<and> fst ` set q' = dom recs' \<and> (\<forall>i rec. recs' i = Some rec \<longrightarrow> record_ok rec)"
  using assms
proof (induction now q recs rule: gc_queue.induct)
  case (2 now i e q recs)
  show ?case
  proof (cases "now > e")
    case True
    have ni: "i \<notin> fst ` set q" using "2.prems"(1) by auto
    have "distinct (map fst q)" using "2.prems"(1) by simp
    moreover have "fst ` set q = dom (recs(i := None))" using "2.prems"(2) ni by auto
    moreover have "\<forall>j rec. (recs(i := None)) j = Some rec \<longrightarrow> record_ok rec" using "2.prems"(3) by auto
    moreover have "gc_queue now q (recs(i := None)) = (recs', q')" using "2.prems"(4) True by simp
    ultimately show ?thesis by (rule "2.IH" [OF True])
  next
    case False
    then have "recs' = recs" "q' = (i, e) # q" using "2.prems"(4) by simp_all
    with "2.prems"(1-3) show ?thesis by simp
  qed
qed simp

lemma score_gc_ok: "ps_ok ps \<Longrightarrow> ps_ok (gcDeliveryRecords now ps)"
proof -
  assume ok: "ps_ok ps"
  obtain recs q where g: "gc_queue now (dqueue (deliveries ps)) (records (deliveries ps)) = (recs, q)"
    by (cases "gc_queue now (dqueue (deliveries ps)) (records (deliveries ps))")
  have "deliv_ok (deliveries ps)" using ok by (simp add: ps_ok_def)
  then have "deliv_ok ((deliveries ps)\<lparr>records := recs, dqueue := q\<rparr>)"
    using gc_queue_ok [OF _ _ _ g] by (simp add: deliv_ok_def)
  then show ?thesis using ok g by (simp add: gcDeliveryRecords_def Let_def ps_ok_deliveries)
qed

lemma params_ok_update: "params_ok params \<Longrightarrow> sane bp \<Longrightarrow> params_ok (params\<lparr>BitmasksMap := Some (AList.update bm bp (Bitmasks params))\<rparr>)"
  by (auto simp: params_ok_def update_conv')

lemma stats_ok_params:
  assumes "stats_ok params bts"
    and "\<And>ts tp. map_of bts bm = Some ts \<Longrightarrow> map_of (Bitmasks params) bm = Some tp \<Longrightarrow> ts_ok tp ts \<Longrightarrow> ts_ok bp ts"
  shows "stats_ok (params\<lparr>BitmasksMap := Some (AList.update bm bp (Bitmasks params))\<rparr>) bts"
  unfolding stats_ok_def
proof (intro conjI allI impI)
  show "distinct (map fst bts)" using assms(1) by (simp add: stats_ok_def)
  fix b ts
  assume b: "map_of bts b = Some ts"
  from stats_okD [OF assms(1) b] assms(2) b
  show "\<exists>tp. map_of (Bitmasks (params\<lparr>BitmasksMap := Some (AList.update bm bp (Bitmasks params))\<rparr>)) b = Some tp \<and> ts_ok tp ts"
    by (auto simp: update_conv')
qed

lemma recap_ok:
  assumes "stats_ok params (bitmasks st)" "sane bp"
  shows "stats_ok (params\<lparr>BitmasksMap := Some (AList.update bm bp (Bitmasks params))\<rparr>) (bitmasks (recap bm bp st))"
proof (cases "map_of (bitmasks st) bm")
  case None
  then show ?thesis using stats_ok_params [OF assms(1), of bm bp] by (simp add: recap_def)
next
  case (Some ts)
  let ?ts = "ts\<lparr>firstMessageDeliveries := min (firstMessageDeliveries ts) (FirstMessageDeliveriesCap bp),
     meshMessageDeliveries := min (meshMessageDeliveries ts) (MeshMessageDeliveriesCap bp)\<rparr>"
  obtain tp where tp: "map_of (Bitmasks params) bm = Some tp" "ts_ok tp ts" using stats_okD [OF assms(1) Some] by blast
  have r: "bitmasks (recap bm bp st) = AList.update bm ?ts (bitmasks st)" using Some by (simp add: recap_def)
  have ts': "ts_ok tp ?ts" "ts_ok bp ?ts" using tp(2) assms(2) by (auto simp: ts_ok_def sane_def)
  have "stats_ok params (AList.update bm ?ts (bitmasks st))" by (rule stats_ok_update [OF assms(1) tp(1) ts'(1)])
  then show ?thesis unfolding r by (rule stats_ok_params) (use ts'(2) in \<open>auto simp: update_conv'\<close>)
qed

lemma SetBitmaskScoreParams_ok:
  assumes ok: "ps_ok ps" and bp: "sane bp" and m: "BitmasksMap (sparams ps) \<noteq> None"
  shows "\<exists>ps'. SetBitmaskScoreParams bm bp ps = Some ps' \<and> ps_ok ps' \<and> BitmasksMap (sparams ps') \<noteq> None"
proof -
  let ?params = "(sparams ps)\<lparr>BitmasksMap := Some (AList.update bm bp (Bitmasks (sparams ps)))\<rparr>"
  have pok: "params_ok ?params" using ok bp params_ok_update by (simp add: ps_ok_def)
  have st: "stats_ok (sparams ps) (bitmasks st)" "0 \<le> behaviourPenalty st" if "pstats ps p = Some st" for p st
    using ok that by (auto simp: ps_ok_def peers_ok_def peer_ok_def)
  have keep: "ps_ok (ps\<lparr>sparams := ?params, pstats := (\<lambda>p. map_option f (pstats ps p))\<rparr>)"
    if "\<And>p st. pstats ps p = Some st \<Longrightarrow> stats_ok ?params (bitmasks (f st)) \<and> behaviourPenalty (f st) = behaviourPenalty st \<and> ips (f st) = ips st" for f
  proof -
    have "ips_of (ps\<lparr>sparams := ?params, pstats := (\<lambda>p. map_option f (pstats ps p))\<rparr>) = ips_of ps"
      using that by (auto simp: ips_of_def fun_eq_iff split: option.splits)
    moreover have "peers_ok (ps\<lparr>sparams := ?params, pstats := (\<lambda>p. map_option f (pstats ps p))\<rparr>)"
      using that st(2) by (auto simp: peers_ok_def peer_ok_def)
    ultimately show ?thesis using ok pok by (simp add: ps_ok_def ips_ok_def)
  qed
  have same: "ps_ok (ps\<lparr>sparams := ?params\<rparr>)"
    if caps: "\<And>tp. map_of (Bitmasks (sparams ps)) bm = Some tp \<Longrightarrow> FirstMessageDeliveriesCap tp \<le> FirstMessageDeliveriesCap bp \<and> MeshMessageDeliveriesCap tp \<le> MeshMessageDeliveriesCap bp"
  proof -
    have "stats_ok ?params (bitmasks st)" if s: "pstats ps p = Some st" for p st
      by (rule stats_ok_params [OF st(1) [OF s]]) (use caps in \<open>force simp: ts_ok_def\<close>)
    with keep [of "\<lambda>st. st"] show ?thesis by (simp add: option.map_ident)
  qed
  have "stats_ok ?params (bitmasks (recap bm bp st)) \<and> behaviourPenalty (recap bm bp st) = behaviourPenalty st \<and> ips (recap bm bp st) = ips st"
    if "pstats ps p = Some st" for p st
    using recap_ok [OF st(1) [OF that] bp, of bm] by (simp add: recap_def split: option.splits)
  then have "ps_ok (ps\<lparr>sparams := ?params, pstats := (\<lambda>p. map_option (recap bm bp) (pstats ps p))\<rparr>)" by (rule keep)
  moreover have "SetBitmaskScoreParams bm bp ps = Some (case map_of (Bitmasks (sparams ps)) bm of None \<Rightarrow> ps\<lparr>sparams := ?params\<rparr>
      | Some old \<Rightarrow> if FirstMessageDeliveriesCap bp < FirstMessageDeliveriesCap old \<or> MeshMessageDeliveriesCap bp < MeshMessageDeliveriesCap old
          then ps\<lparr>sparams := ?params, pstats := (\<lambda>p. map_option (recap bm bp) (pstats ps p))\<rparr> else ps\<lparr>sparams := ?params\<rparr>)"
    using m by (auto simp: SetBitmaskScoreParams_def Bitmasks_def Let_def split: option.split)
  ultimately show ?thesis using same by (auto split: option.split)
qed

section \<open>Runs\<close>

datatype score_op =
    SAddPeer peer_id "string list" | SRemovePeer peer_id time | SGraft peer_id bitmask time | SPrune peer_id bitmask
  | SValidate Message time | SDeliver Message time | SReject Message string time | SDuplicate Message time
  | SPenalty peer_id nat | SRefreshScores time | SRefreshIPs "peer_id \<Rightarrow> string list" "peer_id list" | SGc time
  | SSetParams bitmask BitmaskScoreParams

fun score_apply :: "score_op \<Rightarrow> peerScore \<Rightarrow> peerScore option" where
  "score_apply (SAddPeer p is) ps = Some (score_AddPeer p is ps)"
| "score_apply (SRemovePeer p t) ps = score_RemovePeer p t ps"
| "score_apply (SGraft p bm t) ps = score_Graft p bm t ps"
| "score_apply (SPrune p bm) ps = score_Prune p bm ps"
| "score_apply (SValidate m t) ps = Some (score_ValidateMessage m t ps)"
| "score_apply (SDeliver m t) ps = score_DeliverMessage m t ps"
| "score_apply (SReject m r t) ps = score_RejectMessage m r t ps"
| "score_apply (SDuplicate m t) ps = score_DuplicateMessage m t ps"
| "score_apply (SPenalty p n) ps = Some (AddPenalty p n ps)"
| "score_apply (SRefreshScores t) ps = Some (refreshScores t ps)"
| "score_apply (SRefreshIPs f ord) ps = Some (refreshIPs f ord ps)"
| "score_apply (SGc t) ps = Some (gcDeliveryRecords t ps)"
| "score_apply (SSetParams bm bp) ps = SetBitmaskScoreParams bm bp ps"

text \<open>
  What the operations rely on: the parameters given to \<^verbatim>\<open>SetBitmaskScoreParams\<close> are sane, and the map it writes to was made.
\<close>

fun op_sane :: "PeerScoreParams \<Rightarrow> score_op \<Rightarrow> bool" where
  "op_sane params (SSetParams bm bp) \<longleftrightarrow> sane bp \<and> BitmasksMap params \<noteq> None"
| "op_sane params _ = True"

lemma sparams_on_stats: "on_stats p bm f ps = Some ps' \<Longrightarrow> sparams ps' = sparams ps"
  by (auto simp: on_stats_def bind_eq_Some_conv split: option.splits)

lemma sparams_fold_opt:
  assumes "\<And>x ps ps'. f x ps = Some ps' \<Longrightarrow> sparams ps' = sparams ps"
  shows "fold_opt f xs ps = Some ps' \<Longrightarrow> sparams ps' = sparams ps"
proof (induction xs arbitrary: ps)
  case (Cons x xs)
  then obtain ps1 where "f x ps = Some ps1" "fold_opt f xs ps1 = Some ps'" by (auto simp: bind_eq_Some_conv)
  then show ?case using Cons.IH assms by metis
qed simp

lemma sparams_marks:
  "markFirstMessageDelivery p msg ps = Some ps' \<Longrightarrow> sparams ps' = sparams ps"
  "markDuplicateMessageDelivery p msg v now ps = Some ps' \<Longrightarrow> sparams ps' = sparams ps"
  "markInvalidMessageDelivery p msg ps = Some ps' \<Longrightarrow> sparams ps' = sparams ps"
  "score_Graft p bm now ps = Some ps' \<Longrightarrow> sparams ps' = sparams ps" "score_Prune p bm ps = Some ps' \<Longrightarrow> sparams ps' = sparams ps"
  by (simp_all add: markFirstMessageDelivery_def markDuplicateMessageDelivery_def markInvalidMessageDelivery_def score_Graft_def
      score_Prune_def sparams_on_stats)

lemma sparams_simps [simp]:
  "sparams (set_record msg rec ps) = sparams ps" "sparams (snd (ps_getRecord msg now ps)) = sparams ps"
  "sparams (score_AddPeer p newips ps) = sparams ps" "sparams (AddPenalty p n ps) = sparams ps" "sparams (refreshScores now ps) = sparams ps"
  "sparams (gcDeliveryRecords now ps) = sparams ps" "sparams (refreshIPs g ord ps) = sparams ps"
proof -
  show "sparams (refreshIPs g ord ps) = sparams ps"
    unfolding refreshIPs_def by (induction ord arbitrary: ps) (simp_all add: refresh_ip_def upd_peer_def setIPs_def Let_def split: option.split)
qed (simp_all add: set_record_def ps_getRecord_def score_AddPeer_def AddPenalty_def upd_peer_def refreshScores_def gcDeliveryRecords_def
    setIPs_def Let_def split_beta)

lemma sparams_DeliverMessage:
  assumes "score_DeliverMessage msg now ps = Some ps'"
  shows "sparams ps' = sparams ps"
proof -
  obtain ps1 where 1: "markFirstMessageDelivery (ReceivedFrom msg) msg ps = Some ps1"
    using assms by (auto simp: score_DeliverMessage_def bind_eq_Some_conv)
  obtain rec ps2 where 2: "ps_getRecord msg now ps1 = (rec, ps2)" by fastforce
  then have s2: "sparams ps2 = sparams ps" using sparams_simps(2) [of msg now ps1] sparams_marks(1) [OF 1] by simp
  have f: "fold_opt (\<lambda>p. markDuplicateMessageDelivery p msg None now) qs x = Some y \<Longrightarrow> sparams y = sparams x" for qs x y
    by (rule sparams_fold_opt) (rule sparams_marks(2))
  show ?thesis using assms 1 2 s2 f by (fastforce simp: score_DeliverMessage_def split: if_splits)
qed

lemma sparams_RejectMessage:
  assumes "score_RejectMessage msg reason now ps = Some ps'"
  shows "sparams ps' = sparams ps"
proof -
  obtain rec ps2 where 2: "ps_getRecord msg now ps = (rec, ps2)" by fastforce
  then have s2: "sparams ps2 = sparams ps" using sparams_simps(2) [of msg now ps] by simp
  have f: "fold_opt (\<lambda>p. markInvalidMessageDelivery p msg) qs x = Some y \<Longrightarrow> sparams y = sparams x" for qs x y
    by (rule sparams_fold_opt) (rule sparams_marks(3))
  have g: "sparams ps' = sparams x" if h: "do { ps \<leftarrow> markInvalidMessageDelivery (ReceivedFrom msg) msg x;
      fold_opt (\<lambda>p. markInvalidMessageDelivery p msg) (peers_of rec) ps } = Some ps'" for x
  proof -
    obtain y where y: "markInvalidMessageDelivery (ReceivedFrom msg) msg x = Some y"
      "fold_opt (\<lambda>p. markInvalidMessageDelivery p msg) (peers_of rec) y = Some ps'" using h by (auto simp: bind_eq_Some_conv)
    then show ?thesis using f [OF y(2)] sparams_marks(3) [OF y(1)] by simp
  qed
  show ?thesis
    using assms 2 s2 g sparams_marks(3) [of "ReceivedFrom msg" msg ps ps']
    by (simp add: score_RejectMessage_def split: if_splits) fastforce+
qed

lemma sparams_DuplicateMessage:
  assumes "score_DuplicateMessage msg now ps = Some ps'"
  shows "sparams ps' = sparams ps"
proof -
  obtain rec ps2 where 2: "ps_getRecord msg now ps = (rec, ps2)" by fastforce
  then have s2: "sparams ps2 = sparams ps" using sparams_simps(2) [of msg now ps] by simp
  have "sparams ps' = sparams x" if "markDuplicateMessageDelivery p msg v now (set_record msg r x) = Some ps'" for p v r x
    using sparams_marks(2) [OF that] by simp
  then show ?thesis
    using assms 2 s2 sparams_marks(3) [of "ReceivedFrom msg" msg ps2 ps']
    by (auto simp: score_DuplicateMessage_def Let_def bind_eq_Some_conv split: if_splits deliveryStatus.splits)
qed

lemma sparams_RemovePeer: "score_RemovePeer p now ps = Some ps' \<Longrightarrow> sparams ps' = sparams ps"
  by (auto simp: score_RemovePeer_def removeIPs_def bind_eq_Some_conv split: option.splits if_splits)

text \<open>Every operation succeeds, keeps the invariant, and keeps the map of bitmasks made if it was.\<close>

lemma score_apply_ok:
  assumes "ps_ok ps" and x: "op_sane params x" and m: "BitmasksMap params \<noteq> None \<Longrightarrow> BitmasksMap (sparams ps) \<noteq> None"
  shows "\<exists>ps'. score_apply x ps = Some ps' \<and> ps_ok ps' \<and> (BitmasksMap params \<noteq> None \<longrightarrow> BitmasksMap (sparams ps') \<noteq> None)"
proof (cases "\<exists>bm bp. x = SSetParams bm bp")
  case True
  then obtain bm bp where "x = SSetParams bm bp" "sane bp" "BitmasksMap params \<noteq> None" using x by auto
  then show ?thesis using SetBitmaskScoreParams_ok [OF assms(1), of bp bm] m by auto
next
  case False
  have "\<exists>ps'. score_apply x ps = Some ps' \<and> ps_ok ps'"
    using assms(1) False
    by (cases x) (auto simp: AddPeer_ok RemovePeer_ok ValidateMessage_ok DeliverMessage_ok RejectMessage_ok DuplicateMessage_ok
        AddPenalty_ok refreshScores_ok refreshIPs_ok score_gc_ok dest: mark_ops_ok(1) mark_ops_ok(2))
  then obtain ps' where ps': "score_apply x ps = Some ps'" "ps_ok ps'" by blast
  have "sparams ps' = sparams ps"
    using ps'(1) False
    by (cases x) (auto simp: score_ValidateMessage_def sparams_marks sparams_DeliverMessage sparams_RejectMessage sparams_DuplicateMessage
        sparams_RemovePeer)
  then show ?thesis using ps' m by auto
qed

lemma score_runs_ok:
  assumes "list_all (op_sane params) xs"
  shows "ps_ok ps \<Longrightarrow> (BitmasksMap params \<noteq> None \<Longrightarrow> BitmasksMap (sparams ps) \<noteq> None) \<Longrightarrow>
    \<exists>ps'. fold_opt score_apply xs ps = Some ps' \<and> ps_ok ps'"
  using assms
proof (induction xs arbitrary: ps)
  case (Cons x xs)
  have "op_sane params x" using Cons.prems(3) by simp
  then obtain ps1 where ps1: "score_apply x ps = Some ps1" "ps_ok ps1" "BitmasksMap params \<noteq> None \<longrightarrow> BitmasksMap (sparams ps1) \<noteq> None"
    using score_apply_ok [OF Cons.prems(1) _ Cons.prems(2)] by blast
  then obtain ps' where "fold_opt score_apply xs ps1 = Some ps'" "ps_ok ps'" using Cons.IH [of ps1] Cons.prems(3) by auto
  then show ?case using ps1(1) by simp
qed simp

lemma newPeerScore_ok: "params_ok params \<Longrightarrow> ps_ok (newPeerScore f params)" "sparams (newPeerScore f params) = params"
  by (simp_all add: ps_ok_def newPeerScore_def peers_ok_def ips_ok_def ips_of_def deliv_ok_def)

end
