(* ===== verification/Peer_Score_Properties.thy ===== *)
theory Peer_Score_Properties
  imports Peer_Score_Invariant
begin

text \<open>
  What the peer score guarantees: no call panics and the counters stay within their bounds, the score is
  bounded from above by the cap and the application score, and misbehaviour or disconnecting never improves it.
\<close>

section \<open>The score as a sum\<close>

definition part :: "PeerScoreParams \<Rightarrow> bitmask \<times> bitmaskStats \<Rightarrow> real" where
  "part params b = (case map_of (Bitmasks params) (fst b) of None \<Rightarrow> 0 | Some tp \<Rightarrow> the (bitmask_score tp (snd b)))"

definition capped :: "PeerScoreParams \<Rightarrow> real \<Rightarrow> real" where
  "capped params t = (if BitmaskScoreCap params > 0 \<and> t > BitmaskScoreCap params then BitmaskScoreCap params else t)"

definition behaviour :: "PeerScoreParams \<Rightarrow> real \<Rightarrow> real" where
  "behaviour params b = (if b > BehaviourPenaltyThreshold params
     then (b - BehaviourPenaltyThreshold params)\<^sup>2 * BehaviourPenaltyWeight params else 0)"

definition app_score :: "PeerScoreParams \<Rightarrow> peer_id \<Rightarrow> real" where
  "app_score params p = the (AppSpecificScore params) p * AppSpecificWeight params"

lemma bitmasks_score_sum:
  "params_ok params \<Longrightarrow> bitmasks_score params bts = Some (sum_list (map (part params) bts))"
proof (induction bts)
  case (Cons b bts)
  obtain bm ts where b: "b = (bm, ts)" by (cases b)
  show ?case
  proof (cases "map_of (Bitmasks params) bm")
    case (Some tp)
    then have "TimeInMeshQuantum tp \<noteq> 0" using params_okD [OF Cons.prems] by (simp add: sane_def)
    with Some Cons b show ?thesis by (auto simp: bitmask_score_def Let_def part_def)
  qed (use Cons b in \<open>simp add: part_def\<close>)
qed simp

lemma score_eq:
  assumes "params_ok (sparams ps)" "pstats ps p = Some st"
  shows "score ps p = Some (capped (sparams ps) (sum_list (map (part (sparams ps)) (bitmasks st))) + app_score (sparams ps) p
     + ipColocationFactor ps p * IPColocationFactorWeight (sparams ps) + behaviour (sparams ps) (behaviourPenalty st))"
proof -
  obtain app where "AppSpecificScore (sparams ps) = Some app" using assms(1) by (auto simp: params_ok_def)
  then show ?thesis
    using assms(2) bitmasks_score_sum [OF assms(1), of "bitmasks st"]
    by (simp add: score_def Let_def capped_def behaviour_def app_score_def)
qed

lemma capped_mono: "t \<le> t' \<Longrightarrow> capped params t \<le> capped params t'"
  by (auto simp: capped_def)

lemma behaviour_antimono:
  assumes "BehaviourPenaltyWeight params \<le> 0" "b \<le> b'"
  shows "behaviour params b' \<le> behaviour params b"
proof (cases "b > BehaviourPenaltyThreshold params")
  case True
  then have "(b - BehaviourPenaltyThreshold params)\<^sup>2 \<le> (b' - BehaviourPenaltyThreshold params)\<^sup>2"
    using assms(2) by (intro power_mono) auto
  with True assms show ?thesis by (simp add: behaviour_def mult_right_mono_neg)
next
  case False
  with assms(1) show ?thesis by (simp add: behaviour_def mult_nonneg_nonpos)
qed

lemma ipColocation_nonneg: "0 \<le> ipColocationFactor ps p"
  by (auto simp: ipColocationFactor_def ip_surplus_def Let_def intro!: sum_list_nonneg split: option.splits)

lemma sum_update:
  "sum_list (map g (AList.update bm ts' bts)) =
     sum_list (map g bts) + g (bm, ts') - (case map_of bts bm of None \<Rightarrow> 0 | Some ts \<Rightarrow> (g (bm, ts) :: real))"
  by (induction bts) auto

section \<open>Changes that never help\<close>

definition no_better :: "peerScore \<Rightarrow> peerScore \<Rightarrow> bool" where
  "no_better ps ps' \<longleftrightarrow> (\<forall>q s. score ps q = Some s \<longrightarrow> (\<exists>s'. score ps' q = Some s' \<and> s' \<le> s))"

lemma no_better_refl [simp]: "no_better ps ps"
  by (simp add: no_better_def)

lemma no_better_trans: "no_better a b \<Longrightarrow> no_better b c \<Longrightarrow> no_better a c"
  unfolding no_better_def by (meson order.trans)

lemma ipColocation_frame:
  "same_frame ps ps' \<Longrightarrow> ipColocationFactor ps' p = ipColocationFactor ps p"
proof -
  assume f: "same_frame ps ps'"
  have "ipColocationFactor ps p = sum_list (map (ip_surplus ps) (ips_of ps p))" for ps
    by (simp add: ipColocationFactor_def ips_of_def split: option.splits)
  moreover have "ip_surplus ps' = ip_surplus ps" using f by (simp add: ip_surplus_def same_frame_def fun_eq_iff)
  ultimately show ?thesis using f by (simp add: same_frame_def)
qed

lemma no_better_upd:
  assumes ok: "ps_ok ps" and st: "pstats ps p = Some st" and f: "same_frame ps ps'"
    and ps': "pstats ps' = (pstats ps)(p \<mapsto> st')"
    and le: "capped (sparams ps) (sum_list (map (part (sparams ps)) (bitmasks st'))) + behaviour (sparams ps) (behaviourPenalty st')
      \<le> capped (sparams ps) (sum_list (map (part (sparams ps)) (bitmasks st))) + behaviour (sparams ps) (behaviourPenalty st)"
  shows "no_better ps ps'"
  unfolding no_better_def
proof (intro allI impI)
  fix q s
  assume s: "score ps q = Some s"
  have params: "sparams ps' = sparams ps" "params_ok (sparams ps)" using f ok by (simp_all add: same_frame_def ps_ok_def)
  note ip = ipColocation_frame [OF f]
  show "\<exists>s'. score ps' q = Some s' \<and> s' \<le> s"
  proof (cases "q = p")
    case True
    have "score ps' p = Some (capped (sparams ps) (sum_list (map (part (sparams ps)) (bitmasks st'))) + app_score (sparams ps) p
     + ipColocationFactor ps p * IPColocationFactorWeight (sparams ps) + behaviour (sparams ps) (behaviourPenalty st'))"
      using score_eq [of ps' p st'] params ps' ip by simp
    then show ?thesis using True s le score_eq [OF params(2) st] by auto
  next
    case False
    have "score ps' q = score ps q"
    proof (cases "pstats ps q")
      case None
      then show ?thesis using False ps' by (simp add: score_def)
    next
      case (Some st2)
      then show ?thesis using score_eq [of ps' q st2] score_eq [of ps q st2] params ps' ip False by simp
    qed
    with s show ?thesis by simp
  qed
qed

lemma part_new: "params_ok params \<Longrightarrow> part params (bm, new_stats) = 0"
  by (auto simp: part_def new_stats_def bitmask_score_def Let_def split: option.splits)

lemma no_better_on_stats:
  assumes ok: "ps_ok ps" and r: "on_stats p bm f ps = Some ps'" and fr: "same_frame ps ps'"
    and le: "\<And>tp ts ts'. map_of (Bitmasks (sparams ps)) bm = Some tp \<Longrightarrow> sane tp \<Longrightarrow> ts_ok tp ts \<Longrightarrow> f (Some tp) ts = Some ts' \<Longrightarrow>
      the (bitmask_score tp ts') \<le> the (bitmask_score tp ts)"
  shows "no_better ps ps'"
proof (cases "pstats ps p")
  case None
  then show ?thesis using r by (simp add: on_stats_def)
next
  case (Some st)
  have p: "params_ok (sparams ps)" "peer_ok (sparams ps) st" using ok Some by (auto simp: ps_ok_def peers_ok_def)
  show ?thesis
  proof (cases "getBitmaskStats bm (sparams ps) st")
    case None
    then show ?thesis using r Some by (simp add: on_stats_def)
  next
    case g: (Some x)
    obtain ts st1 where x: "x = (ts, st1)" by (cases x)
    from getBitmaskStats_ok [OF p] g x obtain tp where tp: "map_of (Bitmasks (sparams ps)) bm = Some tp" "sane tp" "ts_ok tp ts"
      "behaviourPenalty st1 = behaviourPenalty st" by blast
    from r Some g x tp obtain ts' where ts': "f (Some tp) ts = Some ts'"
      and ps': "ps' = ps\<lparr>pstats := (pstats ps)(p \<mapsto> st1\<lparr>bitmasks := AList.update bm ts' (bitmasks st1)\<rparr>)\<rparr>"
      by (auto simp: on_stats_def split: bind_splits)
    let ?sum = "\<lambda>bts. sum_list (map (part (sparams ps)) bts)"
    have "map_of (bitmasks st1) bm = Some ts" "?sum (bitmasks st1) = ?sum (bitmasks st)"
      using g x part_new [OF p(1)] by (auto simp: getBitmaskStats_def sum_update update_conv' split: option.splits if_splits)
    then have "?sum (AList.update bm ts' (bitmasks st1)) \<le> ?sum (bitmasks st)"
      using le [OF tp(1,2,3) ts'] tp(1) by (simp add: sum_update part_def)
    with capped_mono [of "?sum (AList.update bm ts' (bitmasks st1))" "?sum (bitmasks st)" "sparams ps"] tp(4)
    show ?thesis by (intro no_better_upd [OF ok Some fr]) (auto simp: ps')
  qed
qed


section \<open>Misbehaviour\<close>

lemma signsD: "score_signs params \<Longrightarrow> map_of (Bitmasks params) bm = Some tp \<Longrightarrow> bitmask_signs tp"
  by (auto simp: score_signs_def list_all_iff dest!: map_of_SomeD)

lemma markInvalid_no_better:
  assumes "ps_ok ps" "score_signs (sparams ps)"
  shows "\<exists>ps'. markInvalidMessageDelivery p msg ps = Some ps' \<and> ps_ok ps' \<and> same_frame ps ps' \<and> no_better ps ps'"
proof -
  obtain ps' where r: "markInvalidMessageDelivery p msg ps = Some ps'" "ps_ok ps'" "same_frame ps ps'"
    using mark_ops_ok(3) [OF assms(1)] by blast
  have "no_better ps ps'"
  proof (rule no_better_on_stats [OF assms(1) r(1) [unfolded markInvalidMessageDelivery_def] r(3)])
    fix tp ts ts'
    assume tp: "map_of (Bitmasks (sparams ps)) (GetBitmask msg) = Some tp" "sane tp" "ts_ok tp ts"
      and ts': "Some (ts\<lparr>invalidMessageDeliveries := invalidMessageDeliveries ts + 1\<rparr>) = Some ts'"
    have s: "InvalidMessageDeliveriesWeight tp \<le> 0" "0 \<le> BitmaskWeight tp" using signsD [OF assms(2) tp(1)] by (auto simp: bitmask_signs_def)
    have "(invalidMessageDeliveries ts)\<^sup>2 \<le> (invalidMessageDeliveries ts + 1)\<^sup>2"
      using tp(3) by (intro power_mono) (auto simp: ts_ok_def)
    then have "(invalidMessageDeliveries ts + 1)\<^sup>2 * InvalidMessageDeliveriesWeight tp \<le> (invalidMessageDeliveries ts)\<^sup>2 * InvalidMessageDeliveriesWeight tp"
      using s(1) by (rule mult_right_mono_neg)
    then show "the (bitmask_score tp ts') \<le> the (bitmask_score tp ts)"
      using ts' tp(2) s(2) by (auto simp: bitmask_score_def Let_def sane_def intro!: mult_right_mono)
  qed
  with r show ?thesis by blast
qed

lemma fold_invalid_no_better:
  assumes "ps_ok ps" "score_signs (sparams ps)"
  shows "\<exists>ps'. fold_opt (\<lambda>p. markInvalidMessageDelivery p msg) qs ps = Some ps' \<and> no_better ps ps'"
  using assms
proof (induction qs arbitrary: ps)
  case (Cons q qs)
  obtain ps1 where 1: "markInvalidMessageDelivery q msg ps = Some ps1" "ps_ok ps1" "same_frame ps ps1" "no_better ps ps1"
    using markInvalid_no_better [OF Cons.prems] by blast
  then have "score_signs (sparams ps1)" using Cons.prems(2) by (simp add: same_frame_def)
  from Cons.IH [OF 1(2) this] 1 no_better_trans show ?case by auto
qed simp

lemma score_deliveries [simp]: "score (ps\<lparr>deliveries := d\<rparr>) = score ps"
proof
  fix p
  have "ip_surplus (ps\<lparr>deliveries := d\<rparr>) = ip_surplus ps" by (simp add: ip_surplus_def fun_eq_iff)
  then have "ipColocationFactor (ps\<lparr>deliveries := d\<rparr>) p = ipColocationFactor ps p" by (simp add: ipColocationFactor_def split: option.split)
  then show "score (ps\<lparr>deliveries := d\<rparr>) p = score ps p" by (simp add: score_def split: option.split cong: if_cong)
qed

lemma set_record_score [simp]:
  "score (set_record msg rec ps) = score ps" "sparams (set_record msg rec ps) = sparams ps"
  by (simp_all add: set_record_def)

lemma ps_getRecord_score: "ps_getRecord msg now ps = (rec, ps') \<Longrightarrow> score ps' = score ps \<and> sparams ps' = sparams ps"
  by (auto simp: ps_getRecord_def split: prod.splits)

lemma no_better_score: "score b = score a \<Longrightarrow> no_better a b"
  by (simp add: no_better_def)

lemma RejectMessage_no_better:
  assumes "ps_ok ps" "score_signs (sparams ps)"
  shows "\<exists>ps'. score_RejectMessage msg reason now ps = Some ps' \<and> no_better ps ps'"
proof -
  obtain rec ps2 where r: "ps_getRecord msg now ps = (rec, ps2)" by (cases "ps_getRecord msg now ps")
  note 2 = ps_getRecord_ok [OF assms(1) r] and sc = ps_getRecord_score [OF r]
  let ?ps = "set_record msg (rec\<lparr>status := deliveryInvalid, dr_peers := None\<rparr>) ps2"
  have ok: "ps_ok ?ps" "score_signs (sparams ?ps)"
    using 2 sc assms(2) by (auto intro!: set_record_ok simp: record_ok_def)
  obtain ps3 where 3: "markInvalidMessageDelivery (ReceivedFrom msg) msg ?ps = Some ps3" "ps_ok ps3" "same_frame ?ps ps3" "no_better ?ps ps3"
    using markInvalid_no_better [OF ok] by blast
  have "score_signs (sparams ps3)" using 3(3) ok(2) by (simp add: same_frame_def)
  from fold_invalid_no_better [OF 3(2) this] obtain ps4
    where 4: "fold_opt (\<lambda>p. markInvalidMessageDelivery p msg) (peers_of rec) ps3 = Some ps4" "no_better ps3 ps4" by blast
  obtain ps5 where 5: "markInvalidMessageDelivery (ReceivedFrom msg) msg ps = Some ps5" "no_better ps ps5"
    using markInvalid_no_better [OF assms] by blast
  have "no_better ps ?ps" using sc by (simp add: no_better_score)
  with 3 4 no_better_trans have "no_better ps ps4" by blast
  then show ?thesis using r sc 3 4 5 by (auto simp: score_RejectMessage_def no_better_score)
qed

lemma AddPenalty_no_better:
  assumes "ps_ok ps" "score_signs (sparams ps)"
  shows "no_better ps (AddPenalty p n ps)"
proof (cases "pstats ps p")
  case None
  then show ?thesis by (simp add: AddPenalty_def upd_peer_def fun_upd_idem)
next
  case (Some st)
  show ?thesis
  proof (rule no_better_upd [OF assms(1) Some])
    show "same_frame ps (AddPenalty p n ps)" using AddPenalty_ok [OF assms(1)] by blast
    show "pstats (AddPenalty p n ps) = (pstats ps)(p \<mapsto> st\<lparr>behaviourPenalty := behaviourPenalty st + of_nat n\<rparr>)"
      using Some by (simp add: AddPenalty_def upd_peer_def)
  qed (use assms(2) in \<open>simp add: score_signs_def behaviour_antimono\<close>)
qed

section \<open>Disconnecting\<close>

definition mesh_times_ok :: "peerStats \<Rightarrow> bool" where
  "mesh_times_ok st \<longleftrightarrow> list_all (\<lambda>(bm, ts). 0 \<le> meshTime ts) (bitmasks st)"

lemma retain_part:
  assumes "params_ok params" "score_signs params" "map_of (Bitmasks params) bm = Some tp" "0 \<le> meshTime ts" "ts_ok tp ts"
    and ts': "ts' = (if inMesh ts then sticky_penalty tp (ts\<lparr>firstMessageDeliveries := 0\<rparr>) else ts\<lparr>firstMessageDeliveries := 0\<rparr>)\<lparr>inMesh := False\<rparr>"
  shows "part params (bm, ts') \<le> part params (bm, ts)"
proof -
  have sane: "TimeInMeshQuantum tp \<noteq> 0" using params_okD [OF assms(1,3)] by (simp add: sane_def)
  note signs = signsD [OF assms(2,3), unfolded bitmask_signs_def]
  have p1: "0 \<le> min (real_of_int (quot (meshTime ts) (TimeInMeshQuantum tp))) (TimeInMeshCap tp) * TimeInMeshWeight tp"
  proof (cases "TimeInMeshWeight tp = 0")
    case False
    then have "0 \<le> quot (meshTime ts) (TimeInMeshQuantum tp)" using signs assms(4) by (simp add: quot_nonneg pos_imp_zdiv_nonneg_iff)
    then show ?thesis using signs False by auto
  qed simp
  have p2: "0 \<le> firstMessageDeliveries ts * FirstMessageDeliveriesWeight tp" using assms(5) signs by (simp add: ts_ok_def)
  have p3b: "meshFailurePenalty ts' * MeshFailurePenaltyWeight tp \<le> meshFailurePenalty ts * MeshFailurePenaltyWeight tp"
    using signs by (intro mult_right_mono_neg) (auto simp: ts' sticky_penalty_def)
  have eqs: "inMesh ts' = False" "firstMessageDeliveries ts' = 0" "meshMessageDeliveriesActive ts' = meshMessageDeliveriesActive ts"
    "meshMessageDeliveries ts' = meshMessageDeliveries ts" "invalidMessageDeliveries ts' = invalidMessageDeliveries ts"
    by (simp_all add: ts' sticky_penalty_def)
  show ?thesis using p1 p2 p3b signs sane
    by (auto simp: part_def assms(3) bitmask_score_def Let_def eqs intro!: mult_right_mono)
qed

lemma retain_sum:
  assumes "params_ok params" "score_signs params" "retain_stats params bts = Some bts'" "list_all (\<lambda>(bm, ts). 0 \<le> meshTime ts) bts"
    "list_all (\<lambda>(bm, ts). \<forall>tp. map_of (Bitmasks params) bm = Some tp \<longrightarrow> ts_ok tp ts) bts"
  shows "sum_list (map (part params) bts') \<le> sum_list (map (part params) bts)"
  using assms(3-)
proof (induction bts arbitrary: bts')
  case (Cons b bts)
  obtain bm ts where b: "b = (bm, ts)" by (cases b)
  with Cons.prems(1) obtain tp rest where tp: "map_of (Bitmasks params) bm = Some tp" "retain_stats params bts = Some rest"
    and bts': "bts' = (bm, (if inMesh ts then sticky_penalty tp (ts\<lparr>firstMessageDeliveries := 0\<rparr>) else ts\<lparr>firstMessageDeliveries := 0\<rparr>)\<lparr>inMesh := False\<rparr>) # rest"
    by (auto simp: Let_def split: bind_splits)
  have "sum_list (map (part params) rest) \<le> sum_list (map (part params) bts)" using Cons tp by simp
  moreover have "part params (hd bts') \<le> part params b"
    using retain_part [OF assms(1,2) tp(1) _ _ refl, of ts] Cons.prems(2,3) tp(1) by (simp add: b bts')
  ultimately show ?case by (simp add: bts')
qed simp


lemma retain_expand:
  assumes "score_RemovePeer p now ps = Some ps'" "pstats ps p = Some st" "score ps p = Some s" "s \<le> 0"
  shows "\<exists>bts. retain_stats (sparams ps) (bitmasks st) = Some bts \<and>
    ps' = ps\<lparr>pstats := (pstats ps)(p \<mapsto> st\<lparr>bitmasks := bts, connected := False, expire := now + RetainScore (sparams ps)\<rparr>)\<rparr>"
  using assms by (auto simp: score_RemovePeer_def split: bind_splits)

lemma RemovePeer_no_better:
  assumes ok: "ps_ok ps" "score_signs (sparams ps)" and st: "pstats ps p = Some st" "mesh_times_ok st"
    and r: "score_RemovePeer p now ps = Some ps'" and s: "score ps p = Some s"
  shows "\<exists>s'. score ps' p = Some s' \<and> s' \<le> s"
proof (cases "s > 0")
  case True
  with r st s have "pstats ps' p = None" by (auto simp: score_RemovePeer_def)
  then show ?thesis using True by (simp add: score_def)
next
  case False
  then obtain bts where bts: "retain_stats (sparams ps) (bitmasks st) = Some bts"
    and ps': "ps' = ps\<lparr>pstats := (pstats ps)(p \<mapsto> st\<lparr>bitmasks := bts, connected := False, expire := now + RetainScore (sparams ps)\<rparr>)\<rparr>"
    using retain_expand [OF r st(1) s] by auto
  have p: "params_ok (sparams ps)" "stats_ok (sparams ps) (bitmasks st)" using ok st(1) by (auto simp: ps_ok_def peers_ok_def peer_ok_def)
  have "list_all (\<lambda>(bm, ts). \<forall>tp. map_of (Bitmasks (sparams ps)) bm = Some tp \<longrightarrow> ts_ok tp ts) (bitmasks st)"
    using p(2) by (fastforce simp: stats_ok_set list_all_iff)
  with retain_sum [OF p(1) ok(2) bts] st(2)
  have le: "sum_list (map (part (sparams ps)) bts) \<le> sum_list (map (part (sparams ps)) (bitmasks st))" by (simp add: mesh_times_ok_def)
  have "no_better ps ps'"
  proof (rule no_better_upd [OF ok(1) st(1)])
    show "same_frame ps ps'" using st(1) by (auto simp: ps' same_frame_def ips_of_def fun_eq_iff dom_def)
    show "pstats ps' = (pstats ps)(p \<mapsto> st\<lparr>bitmasks := bts, connected := False, expire := now + RetainScore (sparams ps)\<rparr>)" by (simp add: ps')
  qed (use capped_mono [OF le] in simp)
  with s show ?thesis by (auto simp: no_better_def)
qed

lemma setIPs_same: "setIPs p is is ps = ps"
  by (simp add: setIPs_def)

lemma reconnect_score:
  assumes "params_ok (sparams ps)" "pstats ps p = Some st"
  shows "score (score_AddPeer p (ips st) ps) p = score ps p"
proof -
  have ps': "score_AddPeer p (ips st) ps = ps\<lparr>pstats := (pstats ps)(p \<mapsto> st\<lparr>connected := True\<rparr>)\<rparr>" (is "_ = ?ps")
    using assms(2) by (simp add: score_AddPeer_def setIPs_same)
  have "ip_surplus ?ps = ip_surplus ps" by (simp add: ip_surplus_def fun_eq_iff)
  then have "ipColocationFactor ?ps p = ipColocationFactor ps p" using assms(2) by (simp add: ipColocationFactor_def)
  then show ?thesis using score_eq [OF assms] score_eq [of ?ps p "st\<lparr>connected := True\<rparr>"] assms(1) by (simp add: ps')
qed

lemma reconnect_after_remove:
  assumes "ps_ok ps" "pstats ps p = Some st" "score ps p = Some s" "score_RemovePeer p now ps = Some ps'" "s \<le> 0"
  shows "score (score_AddPeer p (ips st) ps') p = score ps' p"
proof -
  obtain bts where "ps' = ps\<lparr>pstats := (pstats ps)(p \<mapsto> st\<lparr>bitmasks := bts, connected := False, expire := now + RetainScore (sparams ps)\<rparr>)\<rparr>"
    using retain_expand [OF assms(4,2,3,5)] by blast
  then have "pstats ps' p = Some (st\<lparr>bitmasks := bts, connected := False, expire := now + RetainScore (sparams ps)\<rparr>)"
    "params_ok (sparams ps')" using assms(1) by (simp_all add: ps_ok_def)
  from reconnect_score [OF this(2,1)] show ?thesis by simp
qed

lemma score_le_cap:
  assumes "score_signs (sparams ps)" "0 < BitmaskScoreCap (sparams ps)"
    "pstats ps p = Some st" "score ps p = Some s" "AppSpecificScore (sparams ps) = Some app"
  shows "s \<le> BitmaskScoreCap (sparams ps) + app p * AppSpecificWeight (sparams ps)"
proof -
  have "ipColocationFactor ps p * IPColocationFactorWeight (sparams ps) \<le> 0"
    using assms(1) ipColocation_nonneg by (simp add: score_signs_def mult_nonneg_nonpos)
  moreover have "behaviour (sparams ps) (behaviourPenalty st) \<le> 0"
    using assms(1) by (simp add: score_signs_def behaviour_def mult_nonneg_nonpos)
  moreover obtain t where "s = capped (sparams ps) t + app p * AppSpecificWeight (sparams ps)
      + ipColocationFactor ps p * IPColocationFactorWeight (sparams ps) + behaviour (sparams ps) (behaviourPenalty st)"
    using assms(3-5) by (auto simp: score_def Let_def capped_def behaviour_def split: bind_splits)
  moreover have "capped (sparams ps) t \<le> BitmaskScoreCap (sparams ps)" using assms(2) by (simp add: capped_def)
  ultimately show ?thesis by linarith
qed

section \<open>Properties\<close>

text \<open>A parameter set with one scored bitmask, used by the examples below.\<close>

definition ex_bitmask :: BitmaskScoreParams where
  "ex_bitmask = \<lparr>bp_SkipAtomicValidation = True, BitmaskWeight = 1, TimeInMeshWeight = 1, TimeInMeshQuantum = 10, TimeInMeshCap = 5,
     FirstMessageDeliveriesWeight = 1, FirstMessageDeliveriesDecay = 1/2, FirstMessageDeliveriesCap = 10,
     MeshMessageDeliveriesWeight = 0, MeshMessageDeliveriesDecay = 0, MeshMessageDeliveriesCap = 0, MeshMessageDeliveriesThreshold = 0,
     MeshMessageDeliveriesWindow = 0, MeshMessageDeliveriesActivation = 0, MeshFailurePenaltyWeight = 0, MeshFailurePenaltyDecay = 0,
     InvalidMessageDeliveriesWeight = -1, InvalidMessageDeliveriesDecay = 1/2\<rparr>"

definition ex_params :: PeerScoreParams where
  "ex_params = \<lparr>sp_SkipAtomicValidation = True, BitmasksMap = Some [([], ex_bitmask)], BitmaskScoreCap = 8, AppSpecificScore = Some (\<lambda>_. 2),
     AppSpecificWeight = 1, IPColocationFactorWeight = 0, IPColocationFactorThreshold = 0, IPColocationFactorWhitelist = [],
     BehaviourPenaltyWeight = -1, BehaviourPenaltyThreshold = 0, BehaviourPenaltyDecay = 1/2, DecayInterval = Second, DecayToZero = 1/100,
     RetainScore = 100, SeenMsgTTL = 0\<rparr>"

definition ex_score :: peerScore where
  "ex_score = (newPeerScore (\<lambda>m. []) ex_params)\<lparr>pstats := [''p'' \<mapsto>
     \<lparr>connected = True, expire = 0, bitmasks = [([], new_stats\<lparr>inMesh := True, meshTime := 20, firstMessageDeliveries := 9\<rparr>)], ips = [], behaviourPenalty = 4\<rparr>]\<rparr>"

lemmas ex_defs = ex_bitmask_def ex_params_def ex_score_def Bitmasks_def


lemma ex_params_ok: "params_ok ex_params" "score_validate ex_params = Inr ex_params" "score_signs ex_params"
proof -
  show "params_ok ex_params" by (auto simp: params_ok_def sane_def ex_defs)
  show v: "score_validate ex_params = Inr ex_params"
    by (simp add: ex_defs score_validate_def bitmask_validate_def validateTimeInMeshParams_def validateMessageDeliveryParams_def
        validateMeshMessageDeliveryParams_def validateMessageFailurePenaltyParams_def validateInvalidMessageDeliveryParams_def
        decay_ok_def reject_if_def)
  show "score_signs ex_params" using score_validate_signs [OF v] .
qed

lemma ex_score_ok: "ps_ok ex_score" "sparams ex_score = ex_params"
proof -
  show s: "sparams ex_score = ex_params" by (simp add: ex_score_def newPeerScore_def)
  have "ips_of ex_score p = []" for p by (simp add: ips_of_def ex_score_def newPeerScore_def)
  then show "ps_ok ex_score" using ex_params_ok(1) s
    by (auto simp: ps_ok_def peers_ok_def peer_ok_def stats_ok_def ips_ok_def deliv_ok_def ts_ok_def ex_defs newPeerScore_def new_stats_def)
qed

lemma ex_score_value: "score ex_score ''p'' = Some (-6)"
  by (simp add: ex_defs newPeerScore_def score_def bitmask_score_def new_stats_def ipColocationFactor_def quot_def)

text \<open>
  C35. Any sequence of score operations (connects, disconnects, grafts, prunes, message traces, penalties,
  refreshes, garbage collection, parameter changes) on a fresh peer score runs without panicking, provided that
  (1) there is an application score and the behaviour decay is not negative, (2) every scored bitmask, also one that
  is set later, has a nonzero time quantum, non-negative caps and decays between 0 and 1, and (3) if bitmask parameters are set
  later, the map of bitmasks was made. Afterwards every score is defined, every counter is non-negative and within its cap,
  the address index lists a peer under an address exactly if the peer is tracked with it, and the
  expiry queue lists exactly the messages with a delivery record. Validation guarantees neither a nonzero quantum nor
  (3): setting the parameters of a bitmask panics whenever the map is nil.
\<close>

theorem score_runs_safe:
  assumes "params_ok params" "list_all (op_sane params) xs"
  shows "(\<exists>ps. fold_opt score_apply xs (newPeerScore f params) = Some ps \<and> (\<exists>s. score ps p = Some s)
    \<and> (\<forall>st bm ts. pstats ps p = Some st \<and> map_of (bitmasks st) bm = Some ts \<longrightarrow>
         (\<exists>tp. map_of (Bitmasks (sparams ps)) bm = Some tp \<and> 0 \<le> firstMessageDeliveries ts \<and> firstMessageDeliveries ts \<le> FirstMessageDeliveriesCap tp
           \<and> 0 \<le> meshMessageDeliveries ts \<and> meshMessageDeliveries ts \<le> MeshMessageDeliveriesCap tp
           \<and> 0 \<le> meshFailurePenalty ts \<and> 0 \<le> invalidMessageDeliveries ts))
    \<and> (p \<in> set (peerIPs ps ip) \<longleftrightarrow> ip \<in> set (ips_of ps p))
    \<and> (i \<in> fst ` set (dqueue (deliveries ps)) \<longleftrightarrow> i \<in> dom (records (deliveries ps))))
    \<and> (BitmasksMap params = None \<longrightarrow> score_apply (SSetParams bm' bp) (newPeerScore f params) = None)"
proof -
  obtain ps where ps: "fold_opt score_apply xs (newPeerScore f params) = Some ps" and ok: "ps_ok ps"
    using score_runs_ok [OF assms(2) newPeerScore_ok(1) [OF assms(1)]] newPeerScore_ok(2) by metis
  have "\<exists>tp. map_of (Bitmasks (sparams ps)) bm = Some tp \<and> ts_ok tp ts" if "pstats ps p = Some st" "map_of (bitmasks st) bm = Some ts" for st bm ts
    using ok that stats_okD unfolding ps_ok_def peers_ok_def peer_ok_def by blast
  moreover have "\<exists>s. score ps p = Some s" using score_total [OF ok, of p] by auto
  moreover have "p \<in> set (peerIPs ps ip) \<longleftrightarrow> ip \<in> set (ips_of ps p)" "i \<in> fst ` set (dqueue (deliveries ps)) \<longleftrightarrow> i \<in> dom (records (deliveries ps))"
    using ok by (auto simp: ps_ok_def ips_ok_def deliv_ok_def)
  moreover have "score_apply (SSetParams bm' bp) (newPeerScore f params) = None" if "BitmasksMap params = None"
    using that newPeerScore_ok(2) [of f params] by (simp add: SetBitmaskScoreParams_def)
  ultimately show ?thesis using ps unfolding ts_ok_def by blast
qed

theorem score_runs_safe_witness:
  "params_ok ex_params \<and> (\<exists>ps. fold_opt score_apply [SAddPeer ''p'' [''1.2.3.4''], SGraft ''p'' [] 5, SRefreshScores 50, SSetParams [1] ex_bitmask, SPenalty ''p'' 3,
       SRemovePeer ''p'' 60, SGc 70]
     (newPeerScore (\<lambda>m. []) ex_params) = Some ps \<and> (''p'' \<in> set (peerIPs ps ''1.2.3.4'') \<longleftrightarrow> ''1.2.3.4'' \<in> set (ips_of ps ''p'')))
   \<and> params_ok (ex_params\<lparr>BitmasksMap := None\<rparr>) \<and> score_apply (SSetParams [1] ex_bitmask) (newPeerScore (\<lambda>m. []) (ex_params\<lparr>BitmasksMap := None\<rparr>)) = None"
proof -
  have "sane ex_bitmask" "BitmasksMap ex_params \<noteq> None" by (simp_all add: sane_def ex_defs)
  then have xs: "list_all (op_sane ex_params) [SAddPeer ''p'' [''1.2.3.4''], SGraft ''p'' [] 5, SRefreshScores 50, SSetParams [1] ex_bitmask, SPenalty ''p'' 3,
      SRemovePeer ''p'' 60, SGc 70]" by simp
  have nil: "params_ok (ex_params\<lparr>BitmasksMap := None\<rparr>)" by (simp add: params_ok_def Bitmasks_def ex_defs)
  have "score_apply (SSetParams [1] ex_bitmask) (newPeerScore (\<lambda>m. []) (ex_params\<lparr>BitmasksMap := None\<rparr>)) = None"
    using conjunct2 [OF score_runs_safe [OF nil, of "[]" "\<lambda>m. []" "''p''" "''1.2.3.4''" "[]" "[1]" ex_bitmask]] by simp
  then show ?thesis
    using conjunct1 [OF score_runs_safe [OF ex_params_ok(1) xs, of "\<lambda>m. []" "''p''" "''1.2.3.4''" "[]" "[]" ex_bitmask]] nil ex_params_ok(1)
    by blast
qed

text \<open>
  C38. With parameters that passed validation and a positive cap, the score of a tracked peer is at most the cap
  plus its weighted application score: neither address sharing nor the behaviour penalty can add to it.
\<close>

theorem score_upper_bound:
  assumes "score_validate params = Inr (sparams ps)" "0 < BitmaskScoreCap (sparams ps)"
    "pstats ps p = Some st" "score ps p = Some s" "AppSpecificScore (sparams ps) = Some app"
  shows "s \<le> BitmaskScoreCap (sparams ps) + app p * AppSpecificWeight (sparams ps)"
  by (rule score_le_cap [OF score_validate_signs [OF assms(1)] assms(2-)])

theorem score_upper_bound_witness:
  "score_validate ex_params = Inr (sparams ex_score) \<and> score ex_score ''p'' = Some (-6)
   \<and> (-6 :: real) \<le> BitmaskScoreCap (sparams ex_score) + 2 * AppSpecificWeight (sparams ex_score)"
  using score_upper_bound [of ex_params ex_score "''p''" _ "-6" "\<lambda>_. 2"] ex_params_ok(2) ex_score_ok(2) ex_score_value
  by (simp add: ex_defs newPeerScore_def)

text \<open>
  C37. With validated parameters misbehaviour never raises a score: after a broken promise or protocol violation
  (\<^verbatim>\<open>AddPenalty\<close>) and after the rejection of a message for any reason, no peer scores higher than before.
\<close>

theorem penalties_never_help:
  assumes "ps_ok ps" "score_validate params = Inr (sparams ps)" "score ps q = Some s"
  shows "(\<exists>s'. score (AddPenalty p n ps) q = Some s' \<and> s' \<le> s)
    \<and> (\<exists>ps' s'. score_RejectMessage msg reason now ps = Some ps' \<and> score ps' q = Some s' \<and> s' \<le> s)"
  using RejectMessage_no_better [OF assms(1) score_validate_signs [OF assms(2)]]
    AddPenalty_no_better [OF assms(1) score_validate_signs [OF assms(2)], of p n] assms(3)
  unfolding no_better_def by blast

theorem penalties_never_help_witness:
  "ps_ok ex_score \<and> score ex_score ''p'' = Some (-6) \<and> (\<exists>s'. score (AddPenalty ''p'' 1 ex_score) ''p'' = Some s' \<and> s' \<le> -6)"
  using penalties_never_help [of ex_score ex_params "''p''" "-6" "''p''" 1] ex_params_ok(2) ex_score_ok ex_score_value by auto

text \<open>
  C36. A peer cannot launder its score by disconnecting: with validated parameters the score after
  \<^verbatim>\<open>RemovePeer\<close> is at most the score before, and a peer with a non-positive score that reconnects from the
  same addresses within the retention period still has at most that score.
\<close>

theorem disconnecting_never_helps:
  assumes "ps_ok ps" "score_validate params = Inr (sparams ps)" "pstats ps p = Some st" "mesh_times_ok st" "score ps p = Some s"
    "score_RemovePeer p now ps = Some ps'"
  shows "(\<exists>s'. score ps' p = Some s' \<and> s' \<le> s) \<and> (s \<le> 0 \<longrightarrow> (\<exists>s'. score (score_AddPeer p (ips st) ps') p = Some s' \<and> s' \<le> s))"
  using RemovePeer_no_better [OF assms(1) score_validate_signs [OF assms(2)] assms(3,4,6,5)]
    reconnect_after_remove [OF assms(1,3,5,6)] by fastforce

theorem disconnecting_never_helps_witness:
  "score ex_score ''p'' = Some (-6) \<and> (\<exists>ps'. score_RemovePeer ''p'' 7 ex_score = Some ps'
     \<and> (\<exists>s'. score (score_AddPeer ''p'' [] ps') ''p'' = Some s' \<and> s' \<le> -6))"
proof -
  obtain ps' where r: "score_RemovePeer ''p'' 7 ex_score = Some ps'" using RemovePeer_ok [OF ex_score_ok(1)] by blast
  obtain st where st: "pstats ex_score ''p'' = Some st" "mesh_times_ok st" "ips st = []"
    by (simp add: ex_defs newPeerScore_def mesh_times_ok_def new_stats_def)
  have "score_validate ex_params = Inr (sparams ex_score)" using ex_params_ok(2) ex_score_ok(2) by simp
  from disconnecting_never_helps [OF ex_score_ok(1) this st(1,2) ex_score_value r] show ?thesis
    using r st(3) ex_score_value by auto
qed

text \<open>
  The peer score panics for parameters that its own validation accepts: with \<^verbatim>\<open>SkipAtomicValidation\<close> a
  bitmask whose time-in-mesh parameters are all zero is accepted, and once a peer is grafted for that bitmask computing
  its score divides by the zero quantum.
\<close>

lemma zero_quantum_panics:
  "\<exists>params. score_validate params = Inr params \<and>
     (\<exists>ps. fold_opt score_apply [SAddPeer ''p'' [], SGraft ''p'' [] 1] (newPeerScore f params) = Some ps \<and> score ps ''p'' = None)"
proof -
  let ?params = "ex_params\<lparr>BitmasksMap := Some [([], ex_bitmask\<lparr>TimeInMeshWeight := 0, TimeInMeshQuantum := 0, TimeInMeshCap := 0\<rparr>)]\<rparr>"
  have "score_validate ?params = Inr ?params"
    by (simp add: ex_defs score_validate_def bitmask_validate_def validateTimeInMeshParams_def validateMessageDeliveryParams_def
        validateMeshMessageDeliveryParams_def validateMessageFailurePenaltyParams_def validateInvalidMessageDeliveryParams_def
        decay_ok_def reject_if_def)
  moreover have "\<exists>ps. fold_opt score_apply [SAddPeer ''p'' [], SGraft ''p'' [] 1] (newPeerScore f ?params) = Some ps \<and> score ps ''p'' = None"
    by (simp add: ex_defs newPeerScore_def score_def bitmask_score_def new_stats_def score_AddPeer_def setIPs_def score_Graft_def
        on_stats_def getBitmaskStats_def)
  ultimately show ?thesis by blast
qed

end
