(* ===== verification/Router_State.thy ===== *)
theory Router_State
  imports Peer_Score Message_Cache Gossip_Tracer Rpc_Queue Rpc_Split
begin

text \<open>
  State of the BlossomSub router of \<^verbatim>\<open>blossomsub.go\<close>, its randomness, the protocol features of
  \<^verbatim>\<open>blossomsub_feat.go\<close> and the peer selection \<^verbatim>\<open>getPeers\<close>. Sets of peers are lists without
  repetition; maps that are enumerated are association lists, the others functions. The state holds the
  fields of \<^verbatim>\<open>PubSub\<close> that the router uses (prefix \<open>p_\<close>), and a source of draws for
  \<^verbatim>\<open>rand.Intn\<close> and for the order in which Go enumerates a map. The field \<open>dialers\<close> holds the
  goroutines that wait to hand connection requests to the connectors. \<open>None\<close> is a panic. A handler reads
  the clock once, as its argument \<open>now\<close>.
\<close>

section \<open>Parameters\<close>

record BlossomSubParams =
  D :: int
  Dlo :: int
  Dhi :: int
  Dscore :: int
  Dout :: int
  HistoryLength :: int
  HistoryGossip :: int
  Dlazy :: int
  GossipFactor :: real
  GossipRetransmission :: int
  HeartbeatInterval :: int
  FanoutTTL :: int
  PrunePeers :: int
  PruneBackoff :: int
  UnsubscribeBackoff :: int
  MaxPendingConnections :: int
  DirectConnectTicks :: nat
  OpportunisticGraftTicks :: nat
  OpportunisticGraftPeers :: int
  GraftFloodThreshold :: int
  MaxIHaveLength :: int
  MaxIHaveMessages :: int
  MaxIDontWantMessages :: int
  IWantFollowupTime :: int
  IDontWantMessageThreshold :: int
  IDontWantMessageTTL :: int

definition BlossomSubHeartbeatInterval :: int where
  "BlossomSubHeartbeatInterval = 700 * Millisecond"

definition DefaultBlossomSubParams :: BlossomSubParams where
  "DefaultBlossomSubParams = \<lparr>D = 8, Dlo = 6, Dhi = 12, Dscore = 4, Dout = 2, HistoryLength = 9, HistoryGossip = 6, Dlazy = 6,
     GossipFactor = 1/4, GossipRetransmission = 3, HeartbeatInterval = BlossomSubHeartbeatInterval, FanoutTTL = 60 * Second,
     PrunePeers = 16, PruneBackoff = Minute, UnsubscribeBackoff = 10 * Second, MaxPendingConnections = 128,
     DirectConnectTicks = 300, OpportunisticGraftTicks = 60, OpportunisticGraftPeers = 2, GraftFloodThreshold = 10 * Second,
     MaxIHaveLength = 5000, MaxIHaveMessages = 10, MaxIDontWantMessages = 5000, IWantFollowupTime = 3 * Second,
     IDontWantMessageThreshold = 1024, IDontWantMessageTTL = 60\<rparr>"

section \<open>Protocol features\<close>

datatype BlossomSubFeature = BlossomSubFeatureMesh | BlossomSubFeaturePX | BlossomSubFeatureIdontwant

type_synonym protocol = string

definition BlossomSubID_v21 :: protocol where
  "BlossomSubID_v21 = ''/blossomsub/2.1.0''"

definition BlossomSubDefaultProtocols :: "protocol list" where
  "BlossomSubDefaultProtocols = [BlossomSubID_v21]"

definition BlossomSubDefaultFeatures :: "BlossomSubFeature \<Rightarrow> protocol \<Rightarrow> bool option" where
  "BlossomSubDefaultFeatures f proto = Some (proto = BlossomSubID_v21)"

text \<open>Indexing and slicing with their bounds checks, and the feature test of a router for a network other than 0.\<close>

definition go_nth :: "'a list \<Rightarrow> nat \<Rightarrow> 'a option" where
  "go_nth xs i = (if i < length xs then Some (xs ! i) else None)"

definition go_take :: "int \<Rightarrow> 'a list \<Rightarrow> 'a list option" where
  "go_take n xs = (if 0 \<le> n \<and> n \<le> int (length xs) then Some (take (nat n) xs) else None)"

definition go_drop :: "int \<Rightarrow> 'a list \<Rightarrow> 'a list option" where
  "go_drop n xs = (if 0 \<le> n \<and> n \<le> int (length xs) then Some (drop (nat n) xs) else None)"

definition network_features :: "protocol list \<Rightarrow> BlossomSubFeature \<Rightarrow> protocol \<Rightarrow> bool option" where
  "network_features protos f proto = (case f of
       BlossomSubFeatureIdontwant \<Rightarrow> do { p \<leftarrow> go_nth protos 0; Some (proto = p) }
     | _ \<Rightarrow> do { p \<leftarrow> go_nth protos 0; if proto = p then Some True else do { p \<leftarrow> go_nth protos 1; Some (proto = p) } })"

definition network_proto :: "nat \<Rightarrow> protocol \<Rightarrow> protocol" where
  "network_proto n p = p @ ''-network-'' @ itoa n"

section \<open>The state\<close>

record connectInfo =
  ci_p :: peer_id
  ci_spr :: "bytes option"

type_synonym draws = "nat \<Rightarrow> nat"

record router =
  params :: BlossomSubParams
  feature :: "BlossomSubFeature \<Rightarrow> protocol \<Rightarrow> bool option"
  protos :: "protocol list"
  peers :: "peer_id \<rightharpoonup> protocol"
  direct :: "peer_id list"
  mesh :: "(bitmask \<times> peer_id list) list"
  fanout :: "(bitmask \<times> peer_id list) list"
  lastpub :: "bitmask \<rightharpoonup> time"
  gossip :: "(peer_id \<times> ControlIHave list) list"
  control :: "(peer_id \<times> ControlMessage) list"
  peerhave :: "peer_id \<Rightarrow> int"
  peerdontwant :: "peer_id \<Rightarrow> int"
  unwanted :: "peer_id \<rightharpoonup> (message_id \<rightharpoonup> int)"
  iasked :: "peer_id \<Rightarrow> int"
  outbound :: "peer_id \<Rightarrow> bool"
  prune_backoff :: "bitmask \<Rightarrow> peer_id \<rightharpoonup> time"
  connect :: "connectInfo list"
  dialers :: "peer_id list list"
  mcache :: MessageCache
  rscore :: "peerScore option"
  gtracer :: "gossipTracer option"
  doPX :: bool
  acceptPXThreshold :: real
  gossipThreshold :: real
  publishThreshold :: real
  graylistThreshold :: real
  opportunisticGraftThreshold :: real
  floodPublish :: bool
  heartbeatTicks :: nat
  p_self :: peer_id
  p_bitmasks :: "bitmask \<rightharpoonup> peer_id list"
  p_peers :: "peer_id \<rightharpoonup> RPC rpcQueue"
  p_done :: bool
  p_idGen :: msgIDGenerator
  p_seen :: "message_id \<Rightarrow> bool"
  p_peerFilter :: "peer_id \<Rightarrow> bitmask \<Rightarrow> bool"
  p_softMax :: int
  p_hardMax :: int
  rpc_size :: "RPC \<Rightarrow> int"
  peer_record :: "peer_id \<Rightarrow> bytes option"
  record_peer :: "bytes \<Rightarrow> peer_id option"
  rnd :: draws

definition mesh_of :: "router \<Rightarrow> bitmask \<Rightarrow> peer_id list" where
  "mesh_of s bm = (case map_of (mesh s) bm of None \<Rightarrow> [] | Some ps \<Rightarrow> ps)"

definition fanout_of :: "router \<Rightarrow> bitmask \<Rightarrow> peer_id list" where
  "fanout_of s bm = (case map_of (fanout s) bm of None \<Rightarrow> [] | Some ps \<Rightarrow> ps)"

definition subscribers :: "router \<Rightarrow> bitmask \<Rightarrow> peer_id list" where
  "subscribers s bm = (case p_bitmasks s bm of None \<Rightarrow> [] | Some ps \<Rightarrow> ps)"

definition proto_of :: "router \<Rightarrow> peer_id \<Rightarrow> protocol" where
  "proto_of s p = (case peers s p of None \<Rightarrow> [] | Some x \<Rightarrow> x)"

definition has_feature :: "router \<Rightarrow> BlossomSubFeature \<Rightarrow> peer_id \<Rightarrow> bool option" where
  "has_feature s f p = feature s f (proto_of s p)"

definition PeerScore :: "router \<Rightarrow> peer_id \<Rightarrow> real option" where
  "PeerScore s p = Score (rscore s) p"

section \<open>Constructors and options\<close>

text \<open>The parts of a fresh router that no constructor sets come from \<open>base\<close>: the fields of
  \<^verbatim>\<open>PubSub\<close>, filled in by \<^verbatim>\<open>Attach\<close>, and the draws.\<close>

definition fresh_router :: "BlossomSubParams \<Rightarrow> protocol list \<Rightarrow> (BlossomSubFeature \<Rightarrow> protocol \<Rightarrow> bool option) \<Rightarrow> router \<Rightarrow> router option" where
  "fresh_router ps prs feat base = do {
     mc \<leftarrow> NewMessageCache (HistoryGossip ps) (HistoryLength ps) (idGen_ID (p_idGen base));
     if MaxPendingConnections ps < 0 then None
     else Some (base\<lparr>params := ps, feature := feat, protos := prs, peers := Map.empty, direct := [], mesh := [], fanout := [],
       lastpub := Map.empty, gossip := [], control := [], peerhave := (\<lambda>_. 0), peerdontwant := (\<lambda>_. 0), unwanted := Map.empty,
       iasked := (\<lambda>_. 0), outbound := (\<lambda>_. False), prune_backoff := (\<lambda>_. Map.empty), connect := [], dialers := [], mcache := mc,
       rscore := None, gtracer := None, doPX := False, acceptPXThreshold := 0, gossipThreshold := 0, publishThreshold := 0,
       graylistThreshold := 0, opportunisticGraftThreshold := 0, floodPublish := False, heartbeatTicks := 0\<rparr>) }"

definition NewBlossomSubRouter :: "BlossomSubParams \<Rightarrow> nat \<Rightarrow> router \<Rightarrow> router option" where
  "NewBlossomSubRouter ps network base =
     (if network \<noteq> 0
      then let prs = map (network_proto network) BlossomSubDefaultProtocols in fresh_router ps prs (network_features prs) base
      else fresh_router ps BlossomSubDefaultProtocols BlossomSubDefaultFeatures base)"

definition DefaultBlossomSubRouter :: "router \<Rightarrow> router option" where
  "DefaultBlossomSubRouter base = fresh_router DefaultBlossomSubParams BlossomSubDefaultProtocols BlossomSubDefaultFeatures base"

definition WithPeerScore :: "MsgIdFunction \<Rightarrow> PeerScoreParams \<Rightarrow> PeerScoreThresholds \<Rightarrow> router \<Rightarrow> param_error + router" where
  "WithPeerScore DefaultMsgIdFn ps th s = (case score_validate ps of Inl e \<Rightarrow> Inl e
     | Inr ps \<Rightarrow> (case thresholds_validate th of Some e \<Rightarrow> Inl e
        | None \<Rightarrow> Inr (s\<lparr>rscore := Some (newPeerScore DefaultMsgIdFn ps), gossipThreshold := GossipThreshold th,
            publishThreshold := PublishThreshold th, graylistThreshold := GraylistThreshold th,
            acceptPXThreshold := AcceptPXThreshold th, opportunisticGraftThreshold := OpportunisticGraftThreshold th,
            gtracer := Some (newGossipTracer DefaultMsgIdFn)\<rparr>)))"

definition WithDirectPeers :: "peer_id list \<Rightarrow> router \<Rightarrow> router" where
  "WithDirectPeers pis s = s\<lparr>direct := remdups pis\<rparr>"

section \<open>Randomness\<close>

definition Intn :: "nat \<Rightarrow> draws \<Rightarrow> nat \<times> draws" where
  "Intn n r = (r 0 mod n, \<lambda>i. r (Suc i))"

definition swap_at :: "nat \<Rightarrow> nat \<Rightarrow> 'a list \<Rightarrow> 'a list" where
  "swap_at i j xs = xs[i := xs ! j, j := xs ! i]"

definition shuffle_step :: "nat \<Rightarrow> 'a list \<times> draws \<Rightarrow> 'a list \<times> draws" where
  "shuffle_step i st = (case st of (xs, r) \<Rightarrow> let (j, r) = Intn (i + 1) r in (swap_at i j xs, r))"

definition shufflePeers :: "'a list \<Rightarrow> draws \<Rightarrow> 'a list \<times> draws" where
  "shufflePeers xs r = fold shuffle_step [0..<length xs] (xs, r)"

text \<open>Enumerating a map visits its entries in any order.\<close>

definition range_of :: "'a list \<Rightarrow> router \<Rightarrow> 'a list \<times> router" where
  "range_of xs s = (let (ys, r) = shufflePeers xs (rnd s) in (ys, s\<lparr>rnd := r\<rparr>))"

section \<open>Selecting peers\<close>

text \<open>A filter may panic and may update a cache \<open>c\<close> of its own.\<close>

fun filter_opt :: "('a \<Rightarrow> 'c \<Rightarrow> (bool \<times> 'c) option) \<Rightarrow> 'a list \<Rightarrow> 'c \<Rightarrow> ('a list \<times> 'c) option" where
  "filter_opt f [] c = Some ([], c)"
| "filter_opt f (x # xs) c = do {
     (b, c) \<leftarrow> f x c;
     (ys, c) \<leftarrow> filter_opt f xs c;
     Some (if b then x # ys else ys, c) }"

definition eligible :: "router \<Rightarrow> (peer_id \<Rightarrow> 'c \<Rightarrow> (bool \<times> 'c) option) \<Rightarrow> bitmask \<Rightarrow> peer_id \<Rightarrow> 'c \<Rightarrow> (bool \<times> 'c) option" where
  "eligible s filt bm p c = do {
     m \<leftarrow> has_feature s BlossomSubFeatureMesh p;
     if \<not> m then Some (False, c)
     else do { (b, c) \<leftarrow> filt p c; Some (b \<and> p_peerFilter s p bm, c) } }"

text \<open>The loop over the slices: \<open>None\<close> inside is the early return of nil.\<close>

fun select_slices :: "router \<Rightarrow> (peer_id \<Rightarrow> 'c \<Rightarrow> (bool \<times> 'c) option) \<Rightarrow> bitmask list \<Rightarrow> peer_id list \<Rightarrow> 'c \<Rightarrow>
    (peer_id list option \<times> 'c) option" where
  "select_slices s filt [] acc c = Some (Some acc, c)"
| "select_slices s filt (sl # sls) acc c = (case p_bitmasks s sl of None \<Rightarrow> Some (None, c)
     | Some tmap \<Rightarrow> do {
         (ps, c) \<leftarrow> filter_opt (eligible s filt sl) tmap c;
         if acc = [] then select_slices s filt sls ps c
         else let acc' = filter (\<lambda>p. p \<in> set acc) ps in
           if acc' = [] then Some (None, c) else select_slices s filt sls acc' c })"

text \<open>The order in which the loop enumerates the subscribers is immaterial, as the selection is shuffled.\<close>

definition getPeers :: "bitmask \<Rightarrow> int \<Rightarrow> (peer_id \<Rightarrow> 'c \<Rightarrow> (bool \<times> 'c) option) \<Rightarrow> 'c \<Rightarrow> router \<Rightarrow> (peer_id list \<times> 'c \<times> router) option" where
  "getPeers bm count filt c s = do {
     (r, c) \<leftarrow> select_slices s filt (SliceBitmask bm) [] c;
     case r of None \<Rightarrow> Some ([], c, s)
     | Some acc \<Rightarrow>
         let (ps, d) = shufflePeers acc (rnd s);
             ps = (if count > 0 \<and> int (length ps) > count then take (nat count) ps else ps)
         in Some (ps, c, s\<lparr>rnd := d\<rparr>) }"

text \<open>Filters without a cache.\<close>

definition plain :: "(peer_id \<Rightarrow> bool option) \<Rightarrow> peer_id \<Rightarrow> unit \<Rightarrow> (bool \<times> unit) option" where
  "plain f p c = map_option (\<lambda>b. (b, c)) (f p)"

section \<open>Trace calls that change the score and the gossip tracer\<close>

definition trace_score :: "(peerScore \<Rightarrow> peerScore option) \<Rightarrow> router \<Rightarrow> router option" where
  "trace_score f s = (case rscore s of None \<Rightarrow> Some s | Some ps \<Rightarrow> do { ps \<leftarrow> f ps; Some (s\<lparr>rscore := Some ps\<rparr>) })"

definition trace_Graft :: "peer_id \<Rightarrow> bitmask \<Rightarrow> time \<Rightarrow> router \<Rightarrow> router option" where
  "trace_Graft p bm now = trace_score (score_Graft p bm now)"

definition trace_Prune :: "peer_id \<Rightarrow> bitmask \<Rightarrow> router \<Rightarrow> router option" where
  "trace_Prune p bm = trace_score (score_Prune p bm)"

definition add_penalty :: "peer_id \<Rightarrow> nat \<Rightarrow> router \<Rightarrow> router" where
  "add_penalty p n s = s\<lparr>rscore := map_option (AddPenalty p n) (rscore s)\<rparr>"

end
