(* ===== verification/Router_Select.thy ===== *)
theory Router_Select
  imports Router_State "HOL-Library.Multiset"
begin

text \<open>
  Laws of the random choices and of the peer selection: a shuffle reaches exactly the permutations of its list,
  and \<^verbatim>\<open>getPeers\<close> returns distinct peers that pass the filter.
\<close>

section \<open>Shuffling\<close>

lemma length_swap_at [simp]: "length (swap_at i j xs) = length xs"
  by (simp add: swap_at_def)

lemma mset_swap_at: "i < length xs \<Longrightarrow> j < length xs \<Longrightarrow> mset (swap_at i j xs) = mset xs"
  unfolding swap_at_def by (rule mset_swap)

lemma shuffle_fold:
  assumes "\<And>i. i \<in> set is \<Longrightarrow> i < length xs"
  shows "mset (fst (fold shuffle_step is (xs, r))) = mset xs"
  using assms
proof (induction "is" arbitrary: xs r)
  case (Cons i "is")
  have "r 0 mod (i + 1) \<le> i" using mod_less_divisor [of "i + 1" "r 0"] by linarith
  from le_less_trans [OF this, of "length xs"] have j: "r 0 mod (i + 1) < length xs" using Cons.prems [of i] by simp
  then have "mset (swap_at i (r 0 mod (i + 1)) xs) = mset xs" using Cons.prems [of i] by (simp add: mset_swap_at)
  with Cons.IH [of "swap_at i (r 0 mod (i + 1)) xs" "\<lambda>i. r (Suc i)"] Cons.prems show ?case
    by (simp add: shuffle_step_def Intn_def)
qed simp

lemma mset_shuffle [simp]: "mset (fst (shufflePeers xs r)) = mset xs"
  unfolding shufflePeers_def by (rule shuffle_fold) simp

lemma shuffle_simps [simp]:
  "set (fst (shufflePeers xs r)) = set xs" "length (fst (shufflePeers xs r)) = length xs"
  "distinct (fst (shufflePeers xs r)) = distinct xs"
  by (metis mset_shuffle set_mset_mset, metis mset_shuffle size_mset, metis mset_shuffle mset_eq_imp_distinct_iff)

lemma range_of_simps [simp]:
  "set (fst (range_of xs s)) = set xs" "length (fst (range_of xs s)) = length xs" "distinct (fst (range_of xs s)) = distinct xs"
  "mset (fst (range_of xs s)) = mset xs"
  by (simp_all add: range_of_def case_prod_unfold Let_def)

lemma range_ofE: "range_of xs s = (ys, s') \<Longrightarrow> set ys = set xs \<and> length ys = length xs \<and> distinct ys = distinct xs \<and> (\<exists>r. s' = s\<lparr>rnd := r\<rparr>)"
  by (auto simp: range_of_def case_prod_unfold Let_def)

text \<open>Every permutation is the result of some draws.\<close>

lemma shuffle_butlast:
  "fold shuffle_step [0..<length xs] (xs @ ys, r) = (fst (shufflePeers xs r) @ ys, snd (shufflePeers xs r))"
proof -
  have step: "fold shuffle_step is (zs @ ys, r) = (fst (fold shuffle_step is (zs, r)) @ ys, snd (fold shuffle_step is (zs, r)))"
    if "\<forall>i \<in> set is. i < length zs" for "is" zs r
    using that
  proof (induction "is" arbitrary: zs r)
    case (Cons i "is")
    have "r 0 mod (i + 1) \<le> i" using mod_less_divisor [of "i + 1" "r 0"] by linarith
    from le_less_trans [OF this, of "length zs"] have j: "i < length zs" "r 0 mod (i + 1) < length zs" using Cons.prems by auto
    then have "swap_at i (r 0 mod (i + 1)) (zs @ ys) = swap_at i (r 0 mod (i + 1)) zs @ ys"
      by (simp add: swap_at_def nth_append list_update_append)
    then show ?case using Cons.IH [of "swap_at i (r 0 mod (i + 1)) zs" "\<lambda>i. r (Suc i)"] Cons.prems
      by (simp add: shuffle_step_def Intn_def)
  qed simp
  show ?thesis unfolding shufflePeers_def by (rule step) simp
qed

lemma shuffle_draws:
  "snd (fold shuffle_step is (xs, r)) = (\<lambda>n. r (n + length is))"
  by (induction "is" arbitrary: xs r) (simp_all add: shuffle_step_def Intn_def)

lemma shuffle_cong:
  assumes "\<And>n. n < length is \<Longrightarrow> r n = r' n"
  shows "fst (fold shuffle_step is (xs, r)) = fst (fold shuffle_step is (xs, r'))"
  using assms
proof (induction "is" arbitrary: xs r r')
  case (Cons i "is")
  have "r 0 = r' 0" "\<And>n. n < length is \<Longrightarrow> r (Suc n) = r' (Suc n)" using Cons.prems by auto
  with Cons.IH [of "\<lambda>n. r (Suc n)" "\<lambda>n. r' (Suc n)"] show ?case by (simp add: shuffle_step_def Intn_def)
qed simp

lemma shuffle_complete: "mset ys = mset xs \<Longrightarrow> \<exists>r. fst (shufflePeers xs r) = ys"
proof (induction xs arbitrary: ys rule: rev_induct)
  case (snoc x xs)
  let ?n = "length xs"
  have len: "length ys = Suc ?n" using snoc.prems by (metis size_mset length_append_singleton)
  have "x \<in> set ys" using snoc.prems by (metis in_set_conv_decomp set_mset_mset)
  then obtain j where j: "j < Suc ?n" "ys ! j = x" using len by (metis in_set_conv_nth)
  let ?zs = "swap_at ?n j ys"
  have zs: "mset ?zs = mset ys" "length ?zs = Suc ?n" using j len by (simp_all add: mset_swap_at)
  have last: "?zs ! ?n = x" using j len by (cases "j = ?n") (simp_all add: swap_at_def nth_list_update)
  then have split: "?zs = take ?n ?zs @ [x]" using zs(2) by (metis take_Suc_conv_app_nth lessI take_all order_refl)
  then have "mset (take ?n ?zs) = mset xs" using zs(1) snoc.prems by (metis add_right_imp_eq mset_append)
  then obtain r where r: "fst (shufflePeers xs r) = take ?n ?zs" using snoc.IH by blast
  define r' where "r' n = (if n < ?n then r n else j)" for n
  have "fst (shufflePeers xs r') = take ?n ?zs"
    using r shuffle_cong [of "[0..<?n]" r' r xs] by (simp add: shufflePeers_def r'_def)
  moreover have "snd (shufflePeers xs r') 0 = j" by (simp add: shufflePeers_def shuffle_draws r'_def)
  moreover have "swap_at ?n j ?zs = ys"
    using j len by (auto simp: swap_at_def nth_list_update list_eq_iff_nth_eq)
  ultimately have "fst (shufflePeers (xs @ [x]) r') = ys"
    using split j(1) shuffle_butlast [of xs "[x]" r']
    by (simp add: shufflePeers_def shuffle_step_def Intn_def)
  then show ?case by blast
qed (simp add: shufflePeers_def)


section \<open>Filtering and selecting\<close>

text \<open>A filter \<open>f\<close> keeps an invariant \<open>J\<close> of its cache, and what it says about an element, \<open>P\<close>, stays true when it is
  applied to other elements.\<close>

definition filter_law :: "('c \<Rightarrow> bool) \<Rightarrow> ('a \<Rightarrow> 'c \<Rightarrow> bool) \<Rightarrow> ('a \<Rightarrow> 'c \<Rightarrow> (bool \<times> 'c) option) \<Rightarrow> bool" where
  "filter_law J P f \<longleftrightarrow> (\<forall>x c. J c \<longrightarrow> yields (f x c) (\<lambda>(b, c'). J c' \<and> (b \<longrightarrow> P x c') \<and> (\<forall>y. P y c \<longrightarrow> P y c')))"

lemma filter_lawD: "filter_law J P f \<Longrightarrow> J c \<Longrightarrow> yields (f x c) (\<lambda>(b, c'). J c' \<and> (b \<longrightarrow> P x c') \<and> (\<forall>y. P y c \<longrightarrow> P y c'))"
  by (simp add: filter_law_def)

lemma filter_opt_law:
  assumes "filter_law J P f" "J c"
  shows "yields (filter_opt f xs c) (\<lambda>(ys, c'). J c' \<and> set ys \<subseteq> {x \<in> set xs. P x c'} \<and> (distinct xs \<longrightarrow> distinct ys)
    \<and> length ys \<le> length xs \<and> (\<forall>y. P y c \<longrightarrow> P y c'))"
  using assms(2)
proof (induction xs arbitrary: c)
  case (Cons x xs)
  obtain b c1 where 1: "f x c = Some (b, c1)" "J c1" "b \<longrightarrow> P x c1" "\<forall>y. P y c \<longrightarrow> P y c1"
    using filter_lawD [OF assms(1) Cons.prems, of x] by (auto simp: yields_iff)
  obtain ys c2 where "filter_opt f xs c1 = Some (ys, c2)" "J c2" "set ys \<subseteq> {x \<in> set xs. P x c2}" "distinct xs \<longrightarrow> distinct ys"
    "length ys \<le> length xs" "\<forall>y. P y c1 \<longrightarrow> P y c2" using Cons.IH [OF 1(2)] by (auto simp: yields_iff)
  with 1 show ?case by (cases b) auto
qed simp

lemma filter_opt_plain:
  assumes "\<And>x. x \<in> set xs \<Longrightarrow> yields (f x) (\<lambda>b. b \<longrightarrow> P x)"
  shows "yields (filter_opt (plain f) xs c) (\<lambda>x. set (fst x) \<subseteq> {x \<in> set xs. P x} \<and> (distinct xs \<longrightarrow> distinct (fst x)) \<and> length (fst x) \<le> length xs)"
  using assms
proof (induction xs arbitrary: c)
  case (Cons x xs)
  obtain b where b: "f x = Some b" "b \<longrightarrow> P x" using Cons.prems [of x] by (auto simp: yields_iff)
  have "yields (filter_opt (plain f) xs c) (\<lambda>x. set (fst x) \<subseteq> {x \<in> set xs. P x} \<and> (distinct xs \<longrightarrow> distinct (fst x)) \<and> length (fst x) \<le> length xs)"
    by (rule Cons.IH) (simp add: Cons.prems)
  then obtain ys where "filter_opt (plain f) xs c = Some ys" "set (fst ys) \<subseteq> {x \<in> set xs. P x}" "distinct xs \<longrightarrow> distinct (fst ys)" "length (fst ys) \<le> length xs"
    by (auto simp: yields_iff)
  moreover have "plain f x c = Some (b, c)" using b by (simp add: plain_def)
  ultimately show ?case using b by (cases ys) auto
qed simp

definition topics_ok :: "(bitmask \<rightharpoonup> peer_id list) \<Rightarrow> bool" where
  "topics_ok t \<longleftrightarrow> (\<forall>bm ps. t bm = Some ps \<longrightarrow> distinct ps)"

definition total_features :: "router \<Rightarrow> bool" where
  "total_features s \<longleftrightarrow> (\<forall>f proto. feature s f proto \<noteq> None)"

lemma has_feature_total: "total_features s \<Longrightarrow> (\<And>b. Q b) \<Longrightarrow> yields (has_feature s f p) Q"
  by (auto simp: total_features_def has_feature_def yields_iff)

lemma eligible_law:
  assumes "total_features s" "filter_law J P filt"
  shows "filter_law J P (eligible s filt bm)"
  unfolding filter_law_def
proof (intro allI impI)
  fix p c
  assume "J c"
  obtain m where "has_feature s BlossomSubFeatureMesh p = Some m" using assms(1) by (auto simp: total_features_def has_feature_def)
  with filter_lawD [OF assms(2) \<open>J c\<close>, of p] \<open>J c\<close>
  show "yields (eligible s filt bm p c) (\<lambda>(b, c'). J c' \<and> (b \<longrightarrow> P p c') \<and> (\<forall>y. P y c \<longrightarrow> P y c'))"
    by (auto simp: eligible_def case_prod_unfold elim: yields_mono)
qed

lemma select_slices_yields:
  assumes "total_features s" "topics_ok (p_bitmasks s)" "filter_law J P filt" "J c" "distinct acc" "\<forall>p \<in> set acc. P p c"
  shows "yields (select_slices s filt sls acc c) (\<lambda>(r, c'). J c' \<and> (\<forall>ps. r = Some ps \<longrightarrow> distinct ps \<and> (\<forall>p \<in> set ps. P p c')))"
  using assms(4-6)
proof (induction sls arbitrary: acc c)
  case (Cons sl sls)
  show ?case
  proof (cases "p_bitmasks s sl")
    case (Some tmap)
    then have d: "distinct tmap" using assms(2) by (auto simp: topics_ok_def)
    have "yields (filter_opt (eligible s filt sl) tmap c) (\<lambda>(ys, c').
        J c' \<and> set ys \<subseteq> {x \<in> set tmap. P x c'} \<and> (distinct tmap \<longrightarrow> distinct ys) \<and> length ys \<le> length tmap \<and> (\<forall>y. P y c \<longrightarrow> P y c'))"
      by (rule filter_opt_law [OF eligible_law [OF assms(1,3)] Cons.prems(1)])
    then show ?thesis using d Some
      by (auto simp: Let_def subset_iff intro!: Cons.IH elim!: yields_mono)
  qed (use Cons.prems in simp)
qed simp

lemma getPeers_law:
  assumes "total_features s" "topics_ok (p_bitmasks s)" "filter_law J P filt" "J c"
  shows "yields (getPeers bm limit filt c s) (\<lambda>(ps, c', s'). J c' \<and> distinct ps \<and> (\<forall>p \<in> set ps. P p c')
    \<and> (limit > 0 \<longrightarrow> int (length ps) \<le> limit) \<and> (\<exists>r. s' = s\<lparr>rnd := r\<rparr>))"
proof -
  obtain r c' where sel: "select_slices s filt (SliceBitmask bm) [] c = Some (r, c')" "J c'"
    and ps: "\<And>ps. r = Some ps \<Longrightarrow> distinct ps \<and> (\<forall>p \<in> set ps. P p c')"
    using select_slices_yields [OF assms(1-4), of "[]" "SliceBitmask bm"] by (auto simp: yields_iff)
  have refl: "\<exists>r. s = s\<lparr>rnd := r\<rparr>" by (rule exI [of _ "rnd s"]) simp
  show ?thesis
  proof (cases r)
    case (Some acc)
    have sub: "set (take n (fst (shufflePeers acc (rnd s)))) \<subseteq> set acc" for n
      using set_take_subset [of n "fst (shufflePeers acc (rnd s))"] by simp
    show ?thesis using sel ps [OF Some] Some sub
      by (auto simp: getPeers_def Let_def case_prod_unfold distinct_take)
  qed (use sel refl in \<open>simp add: getPeers_def\<close>)
qed

text \<open>Filters without a cache.\<close>

lemma getPeers_plain:
  assumes "total_features s" "topics_ok (p_bitmasks s)" and "\<And>p. yields (f p) (\<lambda>b. b \<longrightarrow> P p)"
  shows "yields (getPeers bm limit (plain f) () s) (\<lambda>(ps, c', s'). distinct ps \<and> (\<forall>p \<in> set ps. P p)
    \<and> (limit > 0 \<longrightarrow> int (length ps) \<le> limit) \<and> (\<exists>r. s' = s\<lparr>rnd := r\<rparr>))"
proof -
  have "filter_law (\<lambda>_. True) (\<lambda>p _. P p) (plain f)"
    using assms(3) by (simp add: filter_law_def plain_def)
  from getPeers_law [OF assms(1,2) this, where c = "()" and bm = bm and limit = limit] show ?thesis by (simp add: case_prod_unfold)
qed

end
