(* ===== verification/Router_Send.thy ===== *)
theory Router_Send
  imports Router_State
begin

text \<open>
  Sending from the BlossomSub router, \<^verbatim>\<open>blossomsub.go\<close>: prune backoffs, piggybacking of pending control
  messages and gossip, retry of control messages dropped by a full queue, splitting of oversized RPCs
  (\<^verbatim>\<open>appendOrMergeRPC\<close>, modelled with its queue in the theories \<open>Rpc_Split\<close> and \<open>Rpc_Queue\<close>), and the
  construction of PRUNE messages with peer exchange.
\<close>

section \<open>Backoffs\<close>

definition doAddBackoff :: "peer_id \<Rightarrow> bitmask \<Rightarrow> int \<Rightarrow> time \<Rightarrow> router \<Rightarrow> router" where
  "doAddBackoff p bm interval now s =
     (let expire = now + interval in
      if (case prune_backoff s bm p of None \<Rightarrow> True | Some t \<Rightarrow> t < expire)
      then s\<lparr>prune_backoff := (prune_backoff s)(bm := (prune_backoff s bm)(p \<mapsto> expire))\<rparr>
      else s)"

definition addBackoff :: "peer_id \<Rightarrow> bitmask \<Rightarrow> bool \<Rightarrow> time \<Rightarrow> router \<Rightarrow> router" where
  "addBackoff p bm isUnsubscribe now s =
     doAddBackoff p bm (if isUnsubscribe then UnsubscribeBackoff (params s) else PruneBackoff (params s)) now s"

section \<open>Control messages and gossip\<close>

definition enqueueGossip :: "peer_id \<Rightarrow> ControlIHave \<Rightarrow> router \<Rightarrow> router" where
  "enqueueGossip p ihave s =
     s\<lparr>gossip := AList.update p ((case map_of (gossip s) p of None \<Rightarrow> [] | Some g \<Rightarrow> g) @ [ihave]) (gossip s)\<rparr>"

definition piggybackGossip :: "RPC \<Rightarrow> ControlIHave list \<Rightarrow> RPC" where
  "piggybackGossip out ihave = out\<lparr>Control := Some ((ctl_of out)\<lparr>Ihave := ihave\<rparr>)\<rparr>"

definition pushControl :: "peer_id \<Rightarrow> ControlMessage \<Rightarrow> router \<Rightarrow> router" where
  "pushControl p ctl s =
     (let ctl = ctl\<lparr>Ihave := [], Iwant := []\<rparr> in
      if Graft ctl \<noteq> None \<or> Prune ctl \<noteq> None then s\<lparr>control := AList.update p ctl (control s)\<rparr> else s)"

text \<open>A pending GRAFT is stale when the peer left the mesh, a pending PRUNE when it is back in it.\<close>

definition live_grafts :: "router \<Rightarrow> peer_id \<Rightarrow> ControlMessage \<Rightarrow> ControlGraft list" where
  "live_grafts s p ctl = filter (\<lambda>g. p \<in> set (mesh_of s (GraftBitmask g))) (elems (Graft ctl))"

definition live_prunes :: "router \<Rightarrow> peer_id \<Rightarrow> ControlMessage \<Rightarrow> ControlPrune list" where
  "live_prunes s p ctl = filter (\<lambda>x. p \<notin> set (mesh_of s (PruneBitmask x))) (elems (Prune ctl))"

definition piggybackControl :: "router \<Rightarrow> peer_id \<Rightarrow> RPC \<Rightarrow> ControlMessage \<Rightarrow> RPC" where
  "piggybackControl s p out ctl =
     (let tograft = live_grafts s p ctl; toprune = live_prunes s p ctl; xctl = ctl_of out in
      if tograft = [] \<and> toprune = [] then out
      else out\<lparr>Control := Some (xctl\<lparr>Graft := go_append (Graft xctl) tograft, Prune := go_append (Prune xctl) toprune\<rparr>)\<rparr>)"

section \<open>Sending\<close>

definition doDropRPC :: "RPC \<Rightarrow> peer_id \<Rightarrow> router \<Rightarrow> router" where
  "doDropRPC rpc p s = (case Control rpc of None \<Rightarrow> s | Some ctl \<Rightarrow> pushControl p ctl s)"

text \<open>The outcome of the select in \<^verbatim>\<open>TryPush\<close> is a draw among its ready cases.\<close>

definition doSendRPC :: "RPC \<Rightarrow> peer_id \<Rightarrow> RPC rpcQueue \<Rightarrow> bool \<Rightarrow> router \<Rightarrow> router" where
  "doSendRPC rpc p q fast s =
     (let outs = TryPush (p_done s) rpc fast q;
          (i, r) = Intn (length outs) (rnd s);
          (e, q') = outs ! i;
          s = s\<lparr>rnd := r, p_peers := (p_peers s)(p \<mapsto> q')\<rparr>
      in case e of None \<Rightarrow> s | Some _ \<Rightarrow> doDropRPC rpc p s)"

definition send_part :: "RPC \<Rightarrow> peer_id \<Rightarrow> bool \<Rightarrow> RPC \<Rightarrow> router \<Rightarrow> router" where
  "send_part out p fast rpc s =
     (if rpc_size s rpc > p_hardMax s then doDropRPC out p s
      else case p_peers s p of None \<Rightarrow> s | Some q \<Rightarrow> doSendRPC rpc p q fast s)"

definition take_control :: "peer_id \<Rightarrow> RPC \<Rightarrow> router \<Rightarrow> RPC \<times> bool \<times> router" where
  "take_control p out s = (case map_of (control s) p of None \<Rightarrow> (out, False, s)
     | Some ctl \<Rightarrow> (piggybackControl s p (copyRPC out) ctl, True, s\<lparr>control := AList.delete p (control s)\<rparr>))"

definition take_gossip :: "peer_id \<Rightarrow> RPC \<Rightarrow> bool \<Rightarrow> router \<Rightarrow> RPC \<times> router" where
  "take_gossip p out own s = (case map_of (gossip s) p of None \<Rightarrow> (out, s)
     | Some ihave \<Rightarrow> (piggybackGossip (if own then out else copyRPC out) ihave, s\<lparr>gossip := AList.delete p (gossip s)\<rparr>))"

definition sendRPC :: "peer_id \<Rightarrow> RPC \<Rightarrow> bool \<Rightarrow> router \<Rightarrow> router" where
  "sendRPC p out fast s =
     (let (out, own, s) = take_control p out s;
          (out, s) = take_gossip p out own s
      in case p_peers s p of None \<Rightarrow> s
         | Some q \<Rightarrow>
             if rpc_size s out < p_softMax s then doSendRPC out p q fast s
             else fold (send_part out p fast) (appendOrMergeRPC (rpc_size s) [] (p_softMax s) [copyRPC out]) s)"

section \<open>GRAFT and PRUNE\<close>

definition makePrune :: "peer_id \<Rightarrow> bitmask \<Rightarrow> bool \<Rightarrow> bool \<Rightarrow> router \<Rightarrow> (ControlPrune \<times> router) option" where
  "makePrune p bm px isUnsubscribe s = do {
     f \<leftarrow> has_feature s BlossomSubFeaturePX p;
     if \<not> f then Some (\<lparr>PruneBitmask = bm, Peers = [], Backoff = 0\<rparr>, s)
     else
       let backoff = nat (quot (if isUnsubscribe then UnsubscribeBackoff (params s) else PruneBackoff (params s)) Second mod 2 ^ 64) in
       if px then do {
         (ps, _, s) \<leftarrow> getPeers bm (PrunePeers (params s))
           (plain (\<lambda>xp. if p \<noteq> xp then do { sc \<leftarrow> PeerScore s xp; Some (sc \<ge> 0) } else Some False)) () s;
         Some (\<lparr>PruneBitmask = bm, Peers = map (\<lambda>p. \<lparr>PeerID = peer_bytes p, SignedPeerRecord = peer_record s p\<rparr>) ps,
                Backoff = backoff\<rparr>, s) }
       else Some (\<lparr>PruneBitmask = bm, Peers = [], Backoff = backoff\<rparr>, s) }"

fun makePrunes :: "peer_id \<Rightarrow> bitmask list \<Rightarrow> bool \<Rightarrow> bool \<Rightarrow> router \<Rightarrow> (ControlPrune list \<times> router) option" where
  "makePrunes p [] px isUnsubscribe s = Some ([], s)"
| "makePrunes p (bm # bms) px isUnsubscribe s = do {
     (x, s) \<leftarrow> makePrune p bm px isUnsubscribe s;
     (xs, s) \<leftarrow> makePrunes p bms px isUnsubscribe s;
     Some (x # xs, s) }"

definition sendGraft :: "peer_id \<Rightarrow> bitmask \<Rightarrow> router \<Rightarrow> router" where
  "sendGraft p bm s = sendRPC p (rpcWithControl [] [] [] (Some [\<lparr>GraftBitmask = bm\<rparr>]) None []) False s"

definition sendPrune :: "peer_id \<Rightarrow> bitmask \<Rightarrow> bool \<Rightarrow> router \<Rightarrow> router option" where
  "sendPrune p bm isUnsubscribe s = do {
     (x, s) \<leftarrow> makePrune p bm (doPX s) isUnsubscribe s;
     Some (sendRPC p (rpcWithControl [] [] [] None (Some [x]) []) False s) }"

end
