(* ===== verification/Router_Handlers.thy ===== *)
theory Router_Handlers
  imports Router_Send
begin

text \<open>
  The handlers of the BlossomSub router, \<^verbatim>\<open>blossomsub.go\<close>: peers coming and going, the five control
  messages, publishing, joining and leaving. Trace calls that change no modelled state (logs, metrics, connection
  manager tags) are left out; the connections of a peer, their addresses and the clock are arguments.
\<close>

section \<open>Peers\<close>

record conn_info =
  conn_limited :: bool
  conn_outbound :: bool
  conn_protocols :: "protocol list"

definition rt_AddPeer :: "peer_id \<Rightarrow> protocol \<Rightarrow> conn_info list \<Rightarrow> string list \<Rightarrow> router \<Rightarrow> router option" where
  "rt_AddPeer p proto conns addrs s = do {
     s \<leftarrow> trace_score (\<lambda>ps. Some (score_AddPeer p addrs ps)) s;
     Some (s\<lparr>peers := (peers s)(p \<mapsto> proto),
             outbound := (outbound s)(p := list_ex (\<lambda>c. \<not> conn_limited c \<and> conn_outbound c \<and> proto \<in> set (conn_protocols c)) conns)\<rparr>) }"

definition drop_peer :: "peer_id \<Rightarrow> (bitmask \<times> peer_id list) list \<Rightarrow> (bitmask \<times> peer_id list) list" where
  "drop_peer p m = map (\<lambda>(bm, ps). (bm, removeAll p ps)) m"

definition rt_RemovePeer :: "peer_id \<Rightarrow> time \<Rightarrow> router \<Rightarrow> router option" where
  "rt_RemovePeer p now s = do {
     let (bms, s) = range_of (map fst (filter (\<lambda>(bm, ps). p \<in> set ps) (mesh s))) s;
     s \<leftarrow> fold_opt (trace_Prune p) bms s;
     s \<leftarrow> trace_score (score_RemovePeer p now) s;
     Some (s\<lparr>peers := (peers s)(p := None), mesh := drop_peer p (mesh s), fanout := drop_peer p (fanout s),
             gossip := AList.delete p (gossip s), control := AList.delete p (control s),
             outbound := (outbound s)(p := False), unwanted := (unwanted s)(p := None)\<rparr>) }"

definition EnoughPeers :: "bitmask \<Rightarrow> int \<Rightarrow> router \<Rightarrow> bool option" where
  "EnoughPeers bm suggested s = (case p_bitmasks s bm of None \<Rightarrow> Some False
     | Some tmap \<Rightarrow> do {
         (fs, _) \<leftarrow> filter_opt (plain (\<lambda>p. map_option Not (has_feature s BlossomSubFeatureMesh p))) tmap ();
         let bsPeers = int (length (mesh_of s bm));
         let suggested = (if suggested = 0 then Dlo (params s) else suggested);
         Some (int (length fs) + bsPeers \<ge> suggested \<or> bsPeers \<ge> Dhi (params s)) })"

section \<open>IDONTWANT before validation\<close>

text \<open>Messages are told apart by their position in the list, as the source tells them apart by pointer.\<close>

definition wanted_by :: "router \<Rightarrow> Message list \<Rightarrow> peer_id \<Rightarrow> nat list" where
  "wanted_by s ms p = filter (\<lambda>i. int (length (Data (pbm (ms ! i)))) \<ge> IDontWantMessageThreshold (params s)
       \<and> list_ex (\<lambda>sl. p \<in> set (mesh_of s sl)) (SliceBitmask (GetBitmask (ms ! i))) \<and> ReceivedFrom (ms ! i) \<noteq> p) [0..<length ms]"

definition send_idontwant :: "Message list \<Rightarrow> peer_id \<Rightarrow> router \<Rightarrow> router" where
  "send_idontwant ms p s =
     (let (mids, s) = range_of (map (\<lambda>i. mid_of (p_idGen s) (ms ! i)) (wanted_by s ms p)) s
      in sendRPC p (rpcWithControl [] [] [] None None [\<lparr>IDontWantIDs = mids\<rparr>]) True s)"

definition PreValidation :: "Message list \<Rightarrow> router \<Rightarrow> router option" where
  "PreValidation ms s = do {
     let big = filter (\<lambda>m. int (length (Data (pbm m))) \<ge> IDontWantMessageThreshold (params s)) ms;
     let near = remdups (concat (map (\<lambda>m. concat (map (mesh_of s) (SliceBitmask (GetBitmask m)))) big));
     (able, _) \<leftarrow> filter_opt (plain (has_feature s BlossomSubFeatureIdontwant)) near ();
     let (ord, s) = range_of (filter (\<lambda>p. wanted_by s ms p \<noteq> []) able) s;
     Some (fold (send_idontwant ms) ord s) }"

section \<open>Control messages\<close>

definition add_promise :: "peer_id \<Rightarrow> message_id list \<Rightarrow> time \<Rightarrow> router \<Rightarrow> router option" where
  "add_promise p mids now s = (case gtracer s of None \<Rightarrow> Some s
     | Some gt \<Rightarrow> do {
         let (i, r) = Intn (length mids) (rnd s);
         gt \<leftarrow> AddPromise p mids i now gt;
         Some (s\<lparr>gtracer := Some gt, rnd := r\<rparr>) })"

definition iwant_ids :: "router \<Rightarrow> peer_id \<Rightarrow> ControlMessage \<Rightarrow> message_id list" where
  "iwant_ids s p ctl = remdups (concat (map (\<lambda>ih.
     if map_of (mesh s) (IHaveBitmask ih) = None \<or> \<not> p_peerFilter s p (IHaveBitmask ih) then []
     else filter (\<lambda>mid. \<not> p_seen s mid) (take (nat (MaxIHaveLength (params s))) (IHaveIDs ih))) (Ihave ctl)))"

definition handleIHave :: "peer_id \<Rightarrow> ControlMessage \<Rightarrow> time \<Rightarrow> router \<Rightarrow> (ControlIWant list \<times> router) option" where
  "handleIHave p ctl now s = do {
     sc \<leftarrow> PeerScore s p;
     if sc < gossipThreshold s then Some ([], s)
     else do {
       let s = s\<lparr>peerhave := (peerhave s)(p := peerhave s p + 1)\<rparr>;
       if peerhave s p > MaxIHaveMessages (params s) then Some ([], s)
       else if iasked s p \<ge> MaxIHaveLength (params s) then Some ([], s)
       else if iwant_ids s p ctl = [] then Some ([], s)
       else do {
         let iwant = iwant_ids s p ctl;
         let iask = (if int (length iwant) + iasked s p > MaxIHaveLength (params s) then MaxIHaveLength (params s) - iasked s p
                     else int (length iwant));
         let (iwantlst, s) = range_of iwant s;
         let iwantlst = take (nat iask) iwantlst;
         let s = s\<lparr>iasked := (iasked s)(p := iasked s p + iask)\<rparr>;
         s \<leftarrow> add_promise p iwantlst now s;
         Some ([\<lparr>IWantIDs = iwantlst\<rparr>], s) } } }"

definition iwant_one :: "peer_id \<Rightarrow> message_id \<Rightarrow> (message_id \<times> pbMessage) list \<times> router \<Rightarrow> (message_id \<times> pbMessage) list \<times> router" where
  "iwant_one p mid st = (case st of (ihave, s) \<Rightarrow>
     let (r, mc) = GetForPeer mid p (mcache s); s = s\<lparr>mcache := mc\<rparr> in
     case r of None \<Rightarrow> (ihave, s)
     | Some (m, count) \<Rightarrow>
         if \<not> p_peerFilter s p (GetBitmask m) then (ihave, s)
         else if int count > GossipRetransmission (params s) then (ihave, s)
         else (AList.update mid (pbm m) ihave, s))"

definition unwants :: "router \<Rightarrow> peer_id \<Rightarrow> message_id \<Rightarrow> bool" where
  "unwants s p mid \<longleftrightarrow> (case unwanted s p of None \<Rightarrow> False | Some m \<Rightarrow> m mid \<noteq> None)"

definition handleIWant :: "peer_id \<Rightarrow> ControlMessage \<Rightarrow> router \<Rightarrow> (pbMessage list \<times> router) option" where
  "handleIWant p ctl s = do {
     sc \<leftarrow> PeerScore s p;
     if sc < gossipThreshold s then Some ([], s)
     else do {
       let (ihave, s) = fold (iwant_one p) (concat (map IWantIDs (Iwant ctl))) ([], s);
       let (ms, s) = range_of (map snd ihave) s;
       Some (filter (\<lambda>m. peer_ID (elems (From m)) \<noteq> p \<and> \<not> unwants s p (RawID (p_idGen s) m)) ms, s) } }"

text \<open>The score, the size of the mesh and the direction of the connection decide over a GRAFT that nothing else forbids.\<close>

definition graft_accept :: "peer_id \<Rightarrow> real \<Rightarrow> time \<Rightarrow> bitmask \<Rightarrow> peer_id list \<Rightarrow> bitmask list \<times> bool \<times> router \<Rightarrow> (bitmask list \<times> bool \<times> router) option" where
  "graft_accept p sc now bm ps st = (case st of (prune, px, s) \<Rightarrow>
     if sc < 0 then Some (prune @ [bm], False, addBackoff p bm False now s)
     else if int (length ps) \<ge> Dhi (params s) \<and> \<not> outbound s p then Some (prune @ [bm], px, addBackoff p bm False now s)
     else do { s \<leftarrow> trace_Graft p bm now s; Some (prune, px, s\<lparr>mesh := AList.update bm (ps @ [p]) (mesh s)\<rparr>) })"

text \<open>One GRAFT: the bitmasks to prune, whether peer exchange is still allowed, and the state.\<close>

definition graft_one :: "peer_id \<Rightarrow> real \<Rightarrow> time \<Rightarrow> ControlGraft \<Rightarrow> bitmask list \<times> bool \<times> router \<Rightarrow> (bitmask list \<times> bool \<times> router) option" where
  "graft_one p sc now g st = (case st of (prune, px, s) \<Rightarrow>
     let bm = GraftBitmask g in
     if \<not> p_peerFilter s p bm then Some (prune, px, s)
     else case map_of (mesh s) bm of
       None \<Rightarrow> Some (prune, False, s)
     | Some ps \<Rightarrow>
         if p \<in> set ps then Some (prune, px, s)
         else if p \<in> set (direct s) then Some (prune @ [bm], False, s)
         else (case prune_backoff s bm p of
             Some exp_t \<Rightarrow>
               if now < exp_t then
                 let s = add_penalty p 1 s;
                     s = (if now < exp_t + (GraftFloodThreshold (params s) - PruneBackoff (params s)) then add_penalty p 1 s else s)
                 in Some (prune @ [bm], False, addBackoff p bm False now s)
               else graft_accept p sc now bm ps (prune, px, s)
           | None \<Rightarrow> graft_accept p sc now bm ps (prune, px, s)))"


definition handleGraft :: "peer_id \<Rightarrow> ControlMessage \<Rightarrow> time \<Rightarrow> router \<Rightarrow> (ControlPrune slice \<times> router) option" where
  "handleGraft p ctl now s = do {
     sc \<leftarrow> PeerScore s p;
     (prune, px, s) \<leftarrow> fold_opt (graft_one p sc now) (elems (Graft ctl)) ([], doPX s, s);
     if prune = [] then Some (None, s)
     else do { (xs, s) \<leftarrow> makePrunes p prune px False s; Some (Some xs, s) } }"

text \<open>The connection requests are a channel with a buffer; a request that does not fit is dropped.\<close>

definition push_connect :: "connectInfo \<Rightarrow> router \<Rightarrow> router" where
  "push_connect ci s = (if int (length (connect s)) < MaxPendingConnections (params s) then s\<lparr>connect := connect s @ [ci]\<rparr> else s)"

definition px_candidate :: "router \<Rightarrow> PeerInfo \<Rightarrow> connectInfo list" where
  "px_candidate s info =
     (let p = peer_ID (PeerID info) in
      if peers s p \<noteq> None then []
      else case SignedPeerRecord info of None \<Rightarrow> [\<lparr>ci_p = p, ci_spr = None\<rparr>]
        | Some b \<Rightarrow> if record_peer s b = Some p then [\<lparr>ci_p = p, ci_spr = Some b\<rparr>] else [])"

definition pxConnect :: "PeerInfo list \<Rightarrow> router \<Rightarrow> router option" where
  "pxConnect pis s = do {
     (pis, s) \<leftarrow> (if int (length pis) > PrunePeers (params s)
       then (if PrunePeers (params s) < 0 then None
             else let (ys, s) = range_of pis s in Some (take (nat (PrunePeers (params s))) ys, s))
       else Some (pis, s));
     Some (fold push_connect (concat (map (px_candidate s) pis)) s) }"

text \<open>The backoff of a PRUNE is an unsigned number of seconds; converting and multiplying wrap at 64 bits.\<close>

definition prune_one :: "peer_id \<Rightarrow> real \<Rightarrow> time \<Rightarrow> ControlPrune \<Rightarrow> router \<Rightarrow> router option" where
  "prune_one p sc now x s = (let bm = PruneBitmask x in
     case map_of (mesh s) bm of None \<Rightarrow> Some s
     | Some ps \<Rightarrow> do {
         s \<leftarrow> (if p \<in> set ps then do { s \<leftarrow> trace_Prune p bm s; Some (s\<lparr>mesh := AList.update bm (removeAll p ps) (mesh s)\<rparr>) } else Some s);
         let s = (if Backoff x > 0 then doAddBackoff p bm (wrap64 (wrap64 (int (Backoff x)) * Second)) now s
                  else addBackoff p bm False now s);
         if Peers x = [] \<or> sc < acceptPXThreshold s then Some s else pxConnect (Peers x) s })"

definition handlePrune :: "peer_id \<Rightarrow> ControlMessage \<Rightarrow> time \<Rightarrow> router \<Rightarrow> router option" where
  "handlePrune p ctl now s = do {
     sc \<leftarrow> PeerScore s p;
     fold_opt (prune_one p sc now) (elems (Prune ctl)) s }"

definition handleIDontWant :: "peer_id \<Rightarrow> ControlMessage \<Rightarrow> router \<Rightarrow> router" where
  "handleIDontWant p ctl s =
     (let m = (case unwanted s p of None \<Rightarrow> Map.empty | Some m \<Rightarrow> m); s = s\<lparr>unwanted := (unwanted s)(p \<mapsto> m)\<rparr> in
      if peerdontwant s p \<ge> MaxIDontWantMessages (params s) then s
      else s\<lparr>peerdontwant := (peerdontwant s)(p := peerdontwant s p + 1),
             unwanted := (unwanted s)(p \<mapsto> fold (\<lambda>mid m. m(mid \<mapsto> IDontWantMessageTTL (params s)))
               (concat (map IDontWantIDs (Idontwant ctl))) m)\<rparr>)"

definition HandleRPC :: "RPC \<Rightarrow> time \<Rightarrow> router \<Rightarrow> router option" where
  "HandleRPC rpc now s = (case Control rpc of None \<Rightarrow> Some s
     | Some ctl \<Rightarrow> do {
         let p = rpc_from rpc;
         (iwant, s) \<leftarrow> handleIHave p ctl now s;
         (ihave, s) \<leftarrow> handleIWant p ctl s;
         (prune, s) \<leftarrow> handleGraft p ctl now s;
         s \<leftarrow> handlePrune p ctl now s;
         let s = handleIDontWant p ctl s;
         if iwant = [] \<and> ihave = [] \<and> elems prune = [] then Some s
         else Some (sendRPC p (rpcWithControl ihave [] iwant None prune []) False s) })"

section \<open>Publishing\<close>

definition publish_ok :: "router \<Rightarrow> peer_id \<Rightarrow> bool option" where
  "publish_ok s p = do { sc \<leftarrow> PeerScore s p; Some (sc \<ge> publishThreshold s) }"

definition mesh_or_fanout :: "bitmask \<Rightarrow> time \<Rightarrow> router \<Rightarrow> (peer_id list \<times> router) option" where
  "mesh_or_fanout sl now s = (case map_of (mesh s) sl of Some g \<Rightarrow> Some (g, s)
     | None \<Rightarrow> do {
         (g, s) \<leftarrow> (if fanout_of s sl \<noteq> [] then Some (fanout_of s sl, s)
           else do {
             (ps, _, s) \<leftarrow> getPeers sl (D (params s)) (plain (\<lambda>p. if p \<in> set (direct s) then Some False else publish_ok s p)) () s;
             Some (ps, if ps = [] then s else s\<lparr>fanout := AList.update sl ps (fanout s)\<rparr>) });
         Some (g, s\<lparr>lastpub := (lastpub s)(sl \<mapsto> now)\<rparr>) })"

text \<open>The receivers for one slice of the bitmask; \<open>None\<close> inside means that nobody subscribes to the slice, and nothing is sent.\<close>

definition publish_slice :: "Message \<Rightarrow> time \<Rightarrow> bitmask \<Rightarrow> router \<Rightarrow> (peer_id list option \<times> router) option" where
  "publish_slice msg now sl s = (case p_bitmasks s sl of None \<Rightarrow> Some (None, s)
     | Some tmap \<Rightarrow> do {
         (ts, s) \<leftarrow> (if floodPublish s \<and> ReceivedFrom msg = p_self s
           then do {
             (ts, _) \<leftarrow> filter_opt (plain (\<lambda>p. if p \<in> set (direct s) then Some True else publish_ok s p)) tmap ();
             Some (ts, s) }
           else do {
             let ds = filter (\<lambda>p. p \<in> set tmap) (direct s);
             (fl, _) \<leftarrow> filter_opt (plain (\<lambda>p. do {
               m \<leftarrow> has_feature s BlossomSubFeatureMesh p;
               if m then Some False else publish_ok s p })) tmap ();
             (g, s) \<leftarrow> mesh_or_fanout sl now s;
             Some (remdups (ds @ fl @ g), s) });
         Some (Some (filter (\<lambda>p. p \<noteq> ReceivedFrom msg \<and> p \<noteq> GetFrom msg \<and> \<not> unwants s p (mid_of (p_idGen s) msg)) ts), s) })"

fun publish_slices :: "Message \<Rightarrow> time \<Rightarrow> bitmask list \<Rightarrow> peer_id list list \<Rightarrow> router \<Rightarrow> (peer_id list list option \<times> router) option" where
  "publish_slices msg now [] acc s = Some (Some acc, s)"
| "publish_slices msg now (sl # sls) acc s = do {
     (r, s) \<leftarrow> publish_slice msg now sl s;
     case r of None \<Rightarrow> Some (None, s)
     | Some ts \<Rightarrow> publish_slices msg now sls (if ts = [] then acc else acc @ [ts]) s }"

definition rt_Publish :: "Message \<Rightarrow> time \<Rightarrow> router \<Rightarrow> router option" where
  "rt_Publish msg now s = do {
     mc \<leftarrow> Put msg (mcache s);
     (r, s) \<leftarrow> publish_slices msg now (SliceBitmask (GetBitmask msg)) [] (s\<lparr>mcache := mc\<rparr>);
     case r of None \<Rightarrow> Some s
     | Some [] \<Rightarrow> Some s
     | Some toSendAll \<Rightarrow> do {
         let (i, d) = Intn (length toSendAll) (rnd s);
         let (toSend, s) = range_of (toSendAll ! i) (s\<lparr>rnd := d\<rparr>);
         Some (fold (\<lambda>p. sendRPC p (rpcWithMessages [pbm msg]) False) toSend s) } }"

section \<open>Joining and leaving\<close>

definition backed_off :: "router \<Rightarrow> bitmask \<Rightarrow> peer_id \<Rightarrow> bool" where
  "backed_off s bm p \<longleftrightarrow> prune_backoff s bm p \<noteq> None"

definition nonneg :: "router \<Rightarrow> peer_id \<Rightarrow> bool option" where
  "nonneg s p = do { sc \<leftarrow> PeerScore s p; Some (sc \<ge> 0) }"

definition join_mesh :: "bitmask \<Rightarrow> router \<Rightarrow> (peer_id list \<times> router) option" where
  "join_mesh bm s = (case map_of (fanout s) bm of
       Some gmap \<Rightarrow> do {
         (gmap, _) \<leftarrow> filter_opt (plain (\<lambda>p. do { b \<leftarrow> nonneg s p; Some (b \<and> \<not> backed_off s bm p) })) gmap ();
         (more, s) \<leftarrow> (if int (length gmap) < D (params s)
           then do {
             (ps, _, s) \<leftarrow> getPeers bm (D (params s) - int (length gmap))
               (plain (\<lambda>p. if p \<in> set gmap \<or> p \<in> set (direct s) \<or> backed_off s bm p then Some False else nonneg s p)) () s;
             Some (ps, s) }
           else Some ([], s));
         let gmap = gmap @ more;
         Some (gmap, s\<lparr>mesh := AList.update bm gmap (mesh s), fanout := AList.delete bm (fanout s),
                       lastpub := (lastpub s)(bm := None)\<rparr>) }
     | None \<Rightarrow> do {
         (ps, _, s) \<leftarrow> getPeers bm (D (params s))
           (plain (\<lambda>p. if p \<in> set (direct s) \<or> backed_off s bm p then Some False else nonneg s p)) () s;
         Some (ps, s\<lparr>mesh := AList.update bm ps (mesh s)\<rparr>) })"

definition graft_link :: "bitmask \<Rightarrow> time \<Rightarrow> peer_id \<Rightarrow> router \<Rightarrow> router option" where
  "graft_link bm now p s = do { s \<leftarrow> trace_Graft p bm now s; Some (sendGraft p bm s) }"

definition rt_Join :: "bitmask \<Rightarrow> time \<Rightarrow> router \<Rightarrow> router option" where
  "rt_Join bm now s = (if map_of (mesh s) bm \<noteq> None then Some s
     else do {
       (gmap, s) \<leftarrow> join_mesh bm s;
       let (ord, s) = range_of gmap s;
       fold_opt (graft_link bm now) ord s })"

definition leave_link :: "bitmask \<Rightarrow> time \<Rightarrow> peer_id \<Rightarrow> router \<Rightarrow> router option" where
  "leave_link bm now p s = do {
     s \<leftarrow> trace_Prune p bm s;
     s \<leftarrow> sendPrune p bm True s;
     Some (addBackoff p bm True now s) }"

definition rt_Leave :: "bitmask \<Rightarrow> time \<Rightarrow> router \<Rightarrow> router option" where
  "rt_Leave bm now s = (case map_of (mesh s) bm of None \<Rightarrow> Some s
     | Some gmap \<Rightarrow> do {
         let (ord, s) = range_of gmap (s\<lparr>mesh := AList.delete bm (mesh s)\<rparr>);
         fold_opt (leave_link bm now) ord s })"

end
