(* ===== verification/Router_Heartbeat.thy ===== *)
theory Router_Heartbeat
  imports Router_Handlers
begin

text \<open>
  The heartbeat of the BlossomSub router, \<^verbatim>\<open>blossomsub.go\<close>: expiry of backoffs and counters, maintenance
  of every mesh and fanout, emission of gossip, and the flush of pending messages. During a heartbeat every score
  is computed at most once and then read from the cache \<open>scores\<close>.
\<close>

section \<open>Counters\<close>

definition clearIHaveCounters :: "router \<Rightarrow> router" where
  "clearIHaveCounters s = s\<lparr>peerhave := (\<lambda>_. 0), iasked := (\<lambda>_. 0)\<rparr>"

definition age_unwanted :: "(message_id \<rightharpoonup> int) \<Rightarrow> (message_id \<rightharpoonup> int)" where
  "age_unwanted m = (\<lambda>mid. case m mid of None \<Rightarrow> None | Some n \<Rightarrow> if n - 1 = 0 then None else Some (n - 1))"

definition clearIDontWantCounters :: "router \<Rightarrow> router" where
  "clearIDontWantCounters s = s\<lparr>peerdontwant := (\<lambda>_. 0), unwanted := (\<lambda>p. map_option age_unwanted (unwanted s p))\<rparr>"

definition applyIwantPenalties :: "time \<Rightarrow> router \<Rightarrow> router" where
  "applyIwantPenalties now s = (case gtracer s of None \<Rightarrow> s
     | Some gt \<Rightarrow> let (res, gt) = GetBrokenPromises now gt
                  in fold (\<lambda>(p, n). add_penalty p n) res (s\<lparr>gtracer := Some gt\<rparr>))"

definition clearBackoff :: "time \<Rightarrow> router \<Rightarrow> router" where
  "clearBackoff now s = (if heartbeatTicks s mod 15 \<noteq> 0 then s
     else s\<lparr>prune_backoff := (\<lambda>bm p. case prune_backoff s bm p of None \<Rightarrow> None
            | Some t \<Rightarrow> if t + 2 * BlossomSubHeartbeatInterval < now then None else Some t)\<rparr>)"

definition directConnect :: "router \<Rightarrow> router option" where
  "directConnect s = (if DirectConnectTicks (params s) = 0 then None
     else if heartbeatTicks s mod DirectConnectTicks (params s) \<noteq> 0 then Some s
     else let (toconnect, s) = range_of (filter (\<lambda>p. peers s p = None) (direct s)) s
          in Some (if toconnect = [] then s else s\<lparr>dialers := dialers s @ [toconnect]\<rparr>))"

section \<open>Gossip\<close>

definition go_int :: "real \<Rightarrow> int" where
  "go_int x = (if x \<ge> 0 then \<lfloor>x\<rfloor> else \<lceil>x\<rceil>)"

fun gossip_to :: "bitmask \<Rightarrow> message_id list \<Rightarrow> peer_id list \<Rightarrow> router \<Rightarrow> router" where
  "gossip_to bm mids [] s = s"
| "gossip_to bm mids (p # ps) s =
     (if int (length mids) > MaxIHaveLength (params s)
      then let (mids, s) = range_of mids s
           in gossip_to bm mids ps (enqueueGossip p \<lparr>IHaveBitmask = bm, IHaveIDs = take (nat (MaxIHaveLength (params s))) mids\<rparr> s)
      else gossip_to bm mids ps (enqueueGossip p \<lparr>IHaveBitmask = bm, IHaveIDs = mids\<rparr> s))"

definition gossip_target :: "router \<Rightarrow> bitmask \<Rightarrow> peer_id list \<Rightarrow> peer_id \<Rightarrow> bool option" where
  "gossip_target s bm exclude p =
     (if p \<in> set exclude \<or> p \<in> set (direct s) then Some False
      else do {
        m \<leftarrow> has_feature s BlossomSubFeatureMesh p;
        if \<not> m then Some False else do { sc \<leftarrow> PeerScore s p; Some (sc \<ge> gossipThreshold s) } })"

text \<open>A negative maximum makes the allocation of the truncated list panic.\<close>

definition emitGossip :: "bitmask \<Rightarrow> peer_id list \<Rightarrow> router \<Rightarrow> router option" where
  "emitGossip bm exclude s = do {
     mids \<leftarrow> GetGossipIDs bm (mcache s);
     if mids = [] then Some s
     else do {
       let (mids, s) = range_of mids s;
       (ps, _) \<leftarrow> filter_opt (plain (gossip_target s bm exclude)) (subscribers s bm) ();
       let target = max (Dlazy (params s)) (go_int (GossipFactor (params s) * of_nat (length ps)));
       let (ps, s) = range_of ps s;
       ps \<leftarrow> go_take (min target (int (length ps))) ps;
       if ps \<noteq> [] \<and> MaxIHaveLength (params s) < 0 then None
       else Some (gossip_to bm mids ps s) } }"

definition flush_gossip :: "peer_id \<Rightarrow> router \<Rightarrow> router" where
  "flush_gossip p s = (case map_of (gossip s) p of None \<Rightarrow> s
     | Some ihave \<Rightarrow> sendRPC p (rpcWithControl [] ihave [] None None []) False (s\<lparr>gossip := AList.delete p (gossip s)\<rparr>))"

definition flush_control :: "peer_id \<Rightarrow> router \<Rightarrow> router" where
  "flush_control p s = (case map_of (control s) p of None \<Rightarrow> s
     | Some ctl \<Rightarrow> sendRPC p (rpcWithControl [] [] [] (Graft ctl) (Prune ctl) []) False (s\<lparr>control := AList.delete p (control s)\<rparr>))"

definition flush :: "router \<Rightarrow> router" where
  "flush s =
     (let (gs, s) = range_of (map fst (gossip s)) s;
          s = fold flush_gossip gs s;
          (cs, s) = range_of (map fst (control s)) s
      in fold flush_control cs s)"

section \<open>Which peers a full mesh keeps\<close>

definition rotate_at :: "nat \<Rightarrow> 'a list \<Rightarrow> 'a list" where
  "rotate_at i xs = xs ! i # take i xs @ drop (Suc i) xs"

definition bubble :: "('a \<Rightarrow> bool) \<Rightarrow> nat \<Rightarrow> nat \<times> 'a list \<Rightarrow> nat \<times> 'a list" where
  "bubble out i st = (case st of (n, xs) \<Rightarrow> if n > 0 \<and> out (xs ! i) then (n - 1, rotate_at i xs) else (n, xs))"

text \<open>Outbound peers of the selection (the first \<open>d\<close> peers) go to the front, then as many from outside it as are needed.\<close>

definition favour_outbound :: "('a \<Rightarrow> bool) \<Rightarrow> nat \<Rightarrow> nat \<Rightarrow> 'a list \<Rightarrow> 'a list" where
  "favour_outbound out d dout xs =
     (let n = length (filter out (take d xs)) in
      if n < dout then
        let xs = snd (fold (bubble out) [1..<d] (n, xs))
        in snd (fold (bubble out) [d..<length xs] (dout - n, xs))
      else xs)"

section \<open>Mesh maintenance\<close>

record heartbeat_st =
  hb :: router
  scores :: "peer_id \<rightharpoonup> real"
  tograft :: "(peer_id \<times> bitmask list) list"
  toprune :: "(peer_id \<times> bitmask list) list"
  noPX :: "peer_id \<Rightarrow> bool"

definition cached_score :: "router \<Rightarrow> peer_id \<Rightarrow> (peer_id \<rightharpoonup> real) \<Rightarrow> (real \<times> (peer_id \<rightharpoonup> real)) option" where
  "cached_score s p c = (case c p of Some x \<Rightarrow> Some (x, c) | None \<Rightarrow> do { x \<leftarrow> PeerScore s p; Some (x, c(p \<mapsto> x)) })"

definition append_at :: "'k \<Rightarrow> 'v \<Rightarrow> ('k \<times> 'v list) list \<Rightarrow> ('k \<times> 'v list) list" where
  "append_at k v m = AList.update k ((case map_of m k of None \<Rightarrow> [] | Some vs \<Rightarrow> vs) @ [v]) m"

definition prunePeer :: "bitmask \<Rightarrow> time \<Rightarrow> peer_id \<Rightarrow> heartbeat_st \<Rightarrow> heartbeat_st option" where
  "prunePeer bm now p h = do {
     s \<leftarrow> trace_Prune p bm (hb h);
     let s = s\<lparr>mesh := AList.update bm (removeAll p (mesh_of s bm)) (mesh s)\<rparr>;
     Some (h\<lparr>hb := addBackoff p bm False now s, toprune := append_at p bm (toprune h)\<rparr>) }"

definition graftPeer :: "bitmask \<Rightarrow> time \<Rightarrow> peer_id \<Rightarrow> heartbeat_st \<Rightarrow> heartbeat_st option" where
  "graftPeer bm now p h = do {
     s \<leftarrow> trace_Graft p bm now (hb h);
     let s = s\<lparr>mesh := AList.update bm (List.insert p (mesh_of s bm)) (mesh s)\<rparr>;
     Some (h\<lparr>hb := s, tograft := append_at p bm (tograft h)\<rparr>) }"

definition hb_drop :: "bitmask \<Rightarrow> time \<Rightarrow> peer_id \<Rightarrow> heartbeat_st \<Rightarrow> heartbeat_st option" where
  "hb_drop bm now p h = do {
     (x, c) \<leftarrow> cached_score (hb h) p (scores h);
     let h = h\<lparr>scores := c\<rparr>;
     if x < 0 then do { h \<leftarrow> prunePeer bm now p h; Some (h\<lparr>noPX := (noPX h)(p := True)\<rparr>) } else Some h }"

definition hb_range :: "'a list \<Rightarrow> heartbeat_st \<Rightarrow> 'a list \<times> heartbeat_st" where
  "hb_range xs h = (let (ys, s) = range_of xs (hb h) in (ys, h\<lparr>hb := s\<rparr>))"

definition drop_negative :: "bitmask \<Rightarrow> time \<Rightarrow> heartbeat_st \<Rightarrow> heartbeat_st option" where
  "drop_negative bm now h = (let (ps, h) = hb_range (mesh_of (hb h) bm) h in fold_opt (hb_drop bm now) ps h)"

text \<open>Grafting up to \<open>count\<close> peers that are not in the mesh, not direct, not backed off, and pass \<open>ok\<close> with their score.\<close>

definition hb_filter :: "router \<Rightarrow> bitmask \<Rightarrow> (peer_id \<Rightarrow> bool) \<Rightarrow> (real \<Rightarrow> bool) \<Rightarrow> peer_id \<Rightarrow> (peer_id \<rightharpoonup> real) \<Rightarrow> (bool \<times> (peer_id \<rightharpoonup> real)) option" where
  "hb_filter s bm pre ok p c =
     (if p \<in> set (mesh_of s bm) \<or> backed_off s bm p \<or> p \<in> set (direct s) \<or> \<not> pre p then Some (False, c)
      else do { (x, c) \<leftarrow> cached_score s p c; Some (ok x, c) })"

definition graft_more :: "bitmask \<Rightarrow> time \<Rightarrow> int \<Rightarrow> (peer_id \<Rightarrow> bool) \<Rightarrow> (real \<Rightarrow> bool) \<Rightarrow> heartbeat_st \<Rightarrow> heartbeat_st option" where
  "graft_more bm now count pre ok h = do {
     (ps, c, s) \<leftarrow> getPeers bm count (hb_filter (hb h) bm pre ok) (scores h) (hb h);
     fold_opt (graftPeer bm now) ps (h\<lparr>hb := s, scores := c\<rparr>) }"

definition mesh_size :: "heartbeat_st \<Rightarrow> bitmask \<Rightarrow> int" where
  "mesh_size h bm = int (length (mesh_of (hb h) bm))"

definition graft_missing :: "bitmask \<Rightarrow> time \<Rightarrow> heartbeat_st \<Rightarrow> heartbeat_st option" where
  "graft_missing bm now h =
     (if mesh_size h bm < Dlo (params (hb h))
      then graft_more bm now (D (params (hb h)) - mesh_size h bm) (\<lambda>_. True) (\<lambda>x. x \<ge> 0) h
      else Some h)"

fun score_all :: "router \<Rightarrow> peer_id list \<Rightarrow> (peer_id \<rightharpoonup> real) \<Rightarrow> (peer_id \<rightharpoonup> real) option" where
  "score_all s [] c = Some c"
| "score_all s (p # ps) c = do { (x, c) \<leftarrow> cached_score s p c; score_all s ps c }"

definition score_in :: "(peer_id \<rightharpoonup> real) \<Rightarrow> peer_id \<Rightarrow> real" where
  "score_in c p = (case c p of None \<Rightarrow> 0 | Some x \<Rightarrow> x)"

text \<open>The peers of an overfull mesh in the order of preference.\<close>

definition rank_peers :: "bitmask \<Rightarrow> heartbeat_st \<Rightarrow> (peer_id list \<times> heartbeat_st) option" where
  "rank_peers bm h = do {
     let (plst, h) = hb_range (mesh_of (hb h) bm) h;
     c \<leftarrow> score_all (hb h) plst (scores h);
     let plst = sort_key (\<lambda>p. - score_in c p) plst;
     let h = h\<lparr>scores := c\<rparr>;
     (plst, h) \<leftarrow> (if int (length plst) > Dscore (params (hb h))
       then do {
         top \<leftarrow> go_take (Dscore (params (hb h))) plst;
         let (rest, h) = hb_range (drop (length top) plst) h;
         Some (top @ rest, h) }
       else Some (plst, h));
     _ \<leftarrow> go_take (D (params (hb h))) plst;
     Some (favour_outbound (outbound (hb h)) (nat (D (params (hb h)))) (nat (Dout (params (hb h)))) plst, h) }"

definition prune_excess :: "bitmask \<Rightarrow> time \<Rightarrow> heartbeat_st \<Rightarrow> heartbeat_st option" where
  "prune_excess bm now h =
     (if mesh_size h bm > Dhi (params (hb h))
      then do {
        (plst, h) \<leftarrow> rank_peers bm h;
        fold_opt (prunePeer bm now) (drop (nat (D (params (hb h)))) plst) h }
      else Some h)"

definition graft_outbound :: "bitmask \<Rightarrow> time \<Rightarrow> heartbeat_st \<Rightarrow> heartbeat_st option" where
  "graft_outbound bm now h =
     (if mesh_size h bm \<ge> Dlo (params (hb h))
      then let n = int (length (filter (outbound (hb h)) (mesh_of (hb h) bm))) in
        if n < Dout (params (hb h))
        then graft_more bm now (Dout (params (hb h)) - n) (outbound (hb h)) (\<lambda>x. x \<ge> 0) h
        else Some h
      else Some h)"

definition graft_opportunistic :: "bitmask \<Rightarrow> time \<Rightarrow> heartbeat_st \<Rightarrow> heartbeat_st option" where
  "graft_opportunistic bm now h =
     (if OpportunisticGraftTicks (params (hb h)) = 0 then None
      else if heartbeatTicks (hb h) mod OpportunisticGraftTicks (params (hb h)) = 0 \<and> mesh_size h bm > 1
      then do {
        let (plst, h) = hb_range (mesh_of (hb h) bm) h;
        c \<leftarrow> score_all (hb h) plst (scores h);
        let plst = sort_key (score_in c) plst;
        let medianScore = score_in c (plst ! (length plst div 2));
        let h = h\<lparr>scores := c\<rparr>;
        if medianScore < opportunisticGraftThreshold (hb h)
        then graft_more bm now (OpportunisticGraftPeers (params (hb h))) (\<lambda>_. True) (\<lambda>x. x > medianScore) h
        else Some h }
      else Some h)"

definition maintain_mesh :: "time \<Rightarrow> bitmask \<Rightarrow> heartbeat_st \<Rightarrow> heartbeat_st option" where
  "maintain_mesh now bm h = do {
     h \<leftarrow> drop_negative bm now h;
     h \<leftarrow> graft_missing bm now h;
     h \<leftarrow> prune_excess bm now h;
     h \<leftarrow> graft_outbound bm now h;
     h \<leftarrow> graft_opportunistic bm now h;
     s \<leftarrow> emitGossip bm (mesh_of (hb h) bm) (hb h);
     Some (h\<lparr>hb := s\<rparr>) }"

section \<open>Fanout maintenance\<close>

definition expire_fanout :: "time \<Rightarrow> router \<Rightarrow> router" where
  "expire_fanout now s =
     (let old = (\<lambda>bm. case lastpub s bm of None \<Rightarrow> False | Some t \<Rightarrow> t + FanoutTTL (params s) < now)
      in s\<lparr>fanout := filter (\<lambda>(bm, ps). \<not> old bm) (fanout s), lastpub := (\<lambda>bm. if old bm then None else lastpub s bm)\<rparr>)"

definition fanout_keep :: "router \<Rightarrow> bitmask \<Rightarrow> peer_id \<Rightarrow> (peer_id \<rightharpoonup> real) \<Rightarrow> (bool \<times> (peer_id \<rightharpoonup> real)) option" where
  "fanout_keep s bm p c =
     (if p \<notin> set (subscribers s bm) then Some (False, c)
      else do { (x, c) \<leftarrow> cached_score s p c; Some (x \<ge> publishThreshold s, c) })"

definition fanout_more :: "router \<Rightarrow> peer_id list \<Rightarrow> peer_id \<Rightarrow> (peer_id \<rightharpoonup> real) \<Rightarrow> (bool \<times> (peer_id \<rightharpoonup> real)) option" where
  "fanout_more s ps p c =
     (if p \<in> set ps \<or> p \<in> set (direct s) then Some (False, c)
      else do { (x, c) \<leftarrow> cached_score s p c; Some (x \<ge> publishThreshold s, c) })"

definition maintain_fanout :: "bitmask \<Rightarrow> heartbeat_st \<Rightarrow> heartbeat_st option" where
  "maintain_fanout bm h = do {
     (ps, c) \<leftarrow> filter_opt (fanout_keep (hb h) bm) (fanout_of (hb h) bm) (scores h);
     (more, c, s) \<leftarrow> (if int (length ps) < D (params (hb h))
       then getPeers bm (D (params (hb h)) - int (length ps)) (fanout_more (hb h) ps) c (hb h)
       else Some ([], c, hb h));
     s \<leftarrow> emitGossip bm (ps @ more) (s\<lparr>fanout := AList.update bm (ps @ more) (fanout s)\<rparr>);
     Some (h\<lparr>hb := s, scores := c\<rparr>) }"

section \<open>The heartbeat\<close>

definition px_for :: "heartbeat_st \<Rightarrow> peer_id \<Rightarrow> bool" where
  "px_for h p \<longleftrightarrow> doPX (hb h) \<and> \<not> noPX h p"

definition send_graft_prune :: "peer_id \<Rightarrow> heartbeat_st \<Rightarrow> heartbeat_st option" where
  "send_graft_prune p h = do {
     let graft = map (\<lambda>bm. \<lparr>GraftBitmask = bm\<rparr>) (case map_of (tograft h) p of None \<Rightarrow> [] | Some bms \<Rightarrow> bms);
     (prune, s) \<leftarrow> (case map_of (toprune h) p of None \<Rightarrow> Some (None, hb h)
       | Some bms \<Rightarrow> do { (xs, s) \<leftarrow> makePrunes p bms (px_for h p) False (hb h); Some (Some xs, s) });
     Some (h\<lparr>hb := sendRPC p (rpcWithControl [] [] [] (Some graft) prune []) False s, toprune := AList.delete p (toprune h)\<rparr>) }"

definition send_prune :: "peer_id \<Rightarrow> heartbeat_st \<Rightarrow> heartbeat_st option" where
  "send_prune p h = do {
     (xs, s) \<leftarrow> makePrunes p (case map_of (toprune h) p of None \<Rightarrow> [] | Some bms \<Rightarrow> bms) (px_for h p) False (hb h);
     Some (h\<lparr>hb := sendRPC p (rpcWithControl [] [] [] None (Some xs) []) False s\<rparr>) }"

definition sendGraftPrune :: "heartbeat_st \<Rightarrow> heartbeat_st option" where
  "sendGraftPrune h = do {
     let (gs, h) = hb_range (map fst (tograft h)) h;
     h \<leftarrow> fold_opt send_graft_prune gs h;
     let (ps, h) = hb_range (map fst (toprune h)) h;
     fold_opt send_prune ps h }"

text \<open>The housekeeping a heartbeat starts with; its scores are those of the state that results.\<close>

definition heartbeat_start :: "time \<Rightarrow> router \<Rightarrow> router" where
  "heartbeat_start now s = applyIwantPenalties now (clearIDontWantCounters (clearIHaveCounters
     (clearBackoff now (s\<lparr>heartbeatTicks := (heartbeatTicks s + 1) mod 2 ^ 64\<rparr>))))"

definition heartbeat_meshes :: "time \<Rightarrow> router \<Rightarrow> heartbeat_st option" where
  "heartbeat_meshes now s = do {
     let (bms, h) = hb_range (map fst (mesh s)) \<lparr>hb = s, scores = Map.empty, tograft = [], toprune = [], noPX = (\<lambda>_. False)\<rparr>;
     fold_opt (maintain_mesh now) bms h }"

definition heartbeat_fanout :: "time \<Rightarrow> heartbeat_st \<Rightarrow> heartbeat_st option" where
  "heartbeat_fanout now h = do {
     let h = h\<lparr>hb := expire_fanout now (hb h)\<rparr>;
     let (bms, h) = hb_range (map fst (fanout (hb h))) h;
     fold_opt maintain_fanout bms h }"

definition heartbeat_end :: "heartbeat_st \<Rightarrow> router option" where
  "heartbeat_end h = do {
     h \<leftarrow> sendGraftPrune h;
     let s = flush (hb h);
     mc \<leftarrow> Shift (mcache s);
     Some (s\<lparr>mcache := mc\<rparr>) }"

definition heartbeat :: "time \<Rightarrow> router \<Rightarrow> router option" where
  "heartbeat now s = do {
     s \<leftarrow> directConnect (heartbeat_start now s);
     h \<leftarrow> heartbeat_meshes now s;
     h \<leftarrow> heartbeat_fanout now h;
     heartbeat_end h }"

end
