(* ===== verification/Router_Invariant.thy ===== *)
theory Router_Invariant
  imports Router_Select Router_Heartbeat Peer_Score_Invariant
begin

text \<open>
  The invariant of the BlossomSub router: meshes and fanouts are sets of peers without direct peers, a bitmask has
  a mesh or a fanout but not both, flood counters stay within their limits, unwanted message identifiers have a positive
  time to live, only GRAFT and PRUNE are kept for retry, and the score, the gossip tracer and the message cache are
  well formed. Every handler and the heartbeat keep it, and none panics.
\<close>

section \<open>The invariant\<close>

definition peer_map_ok :: "peer_id list \<Rightarrow> (bitmask \<times> peer_id list) list \<Rightarrow> bool" where
  "peer_map_ok d m \<longleftrightarrow> distinct (map fst m) \<and> (\<forall>(bm, ps) \<in> set m. distinct ps \<and> set ps \<inter> set d = {})"

definition mesh_inv :: "(bitmask \<times> peer_id list) list \<Rightarrow> (bitmask \<times> peer_id list) list \<Rightarrow> (bitmask \<rightharpoonup> time) \<Rightarrow> peer_id list \<Rightarrow> bool" where
  "mesh_inv m f l d \<longleftrightarrow> peer_map_ok d m \<and> peer_map_ok d f \<and> fst ` set m \<inter> fst ` set f = {} \<and> fst ` set f \<subseteq> dom l"

definition count_inv :: "BlossomSubParams \<Rightarrow> (peer_id \<Rightarrow> int) \<Rightarrow> (peer_id \<Rightarrow> int) \<Rightarrow> (peer_id \<rightharpoonup> (message_id \<rightharpoonup> int)) \<Rightarrow> bool" where
  "count_inv prm ia pdw unw \<longleftrightarrow> (\<forall>p. 0 \<le> ia p \<and> ia p \<le> MaxIHaveLength prm) \<and> (\<forall>p. 0 \<le> pdw p \<and> pdw p \<le> MaxIDontWantMessages prm)
     \<and> (\<forall>p m mid n. unw p = Some m \<longrightarrow> m mid = Some n \<longrightarrow> 0 < n \<and> n \<le> IDontWantMessageTTL prm)"

definition retry_ok :: "ControlMessage \<Rightarrow> bool" where
  "retry_ok ctl \<longleftrightarrow> Ihave ctl = [] \<and> Iwant ctl = [] \<and> (Graft ctl \<noteq> None \<or> Prune ctl \<noteq> None)"

definition ctl_inv :: "(peer_id \<times> ControlMessage) list \<Rightarrow> (peer_id \<times> ControlIHave list) list \<Rightarrow> bool" where
  "ctl_inv c g \<longleftrightarrow> distinct (map fst c) \<and> distinct (map fst g) \<and> (\<forall>(p, ctl) \<in> set c. retry_ok ctl) \<and> (\<forall>(p, ih) \<in> set g. ih \<noteq> [])"

definition score_inv :: "peerScore option \<Rightarrow> bool" where
  "score_inv r \<longleftrightarrow> (\<forall>ps. r = Some ps \<longrightarrow> ps_ok ps)"

definition tracer_inv :: "gossipTracer option \<Rightarrow> bool" where
  "tracer_inv r \<longleftrightarrow> (\<forall>gt. r = Some gt \<longrightarrow> gt_ok gt)"

definition cache_inv :: "MessageCache \<Rightarrow> bool" where
  "cache_inv mc \<longleftrightarrow> history mc \<noteq> [] \<and> 0 \<le> mc_gossip mc \<and> mc_gossip mc \<le> int (length (history mc))"

definition params_sane :: "BlossomSubParams \<Rightarrow> bool" where
  "params_sane prm \<longleftrightarrow> 0 \<le> D prm \<and> D prm \<le> Dhi prm \<and> 0 \<le> Dscore prm \<and> 0 \<le> Dlazy prm \<and> 0 \<le> MaxIHaveLength prm
     \<and> 0 \<le> MaxIDontWantMessages prm \<and> 0 < IDontWantMessageTTL prm \<and> 0 \<le> PrunePeers prm
     \<and> 0 < DirectConnectTicks prm \<and> 0 < OpportunisticGraftTicks prm \<and> 0 \<le> MaxPendingConnections prm"

definition rt_ok :: "router \<Rightarrow> bool" where
  "rt_ok s \<longleftrightarrow> mesh_inv (mesh s) (fanout s) (lastpub s) (direct s) \<and> count_inv (params s) (iasked s) (peerdontwant s) (unwanted s)
     \<and> ctl_inv (control s) (gossip s) \<and> score_inv (rscore s) \<and> tracer_inv (gtracer s) \<and> cache_inv (mcache s)
     \<and> int (length (connect s)) \<le> MaxPendingConnections (params s)
     \<and> params_sane (params s) \<and> total_features s \<and> topics_ok (p_bitmasks s)"

section \<open>Association lists\<close>

lemma update_subset: "set (AList.update k v m) \<subseteq> insert (k, v) (set m)"
  by (induction m) auto

lemma update_keys: "fst ` set (AList.update k v m) = insert k (fst ` set m)"
  by (induction m) auto

lemma delete_subset: "set (AList.delete k m) \<subseteq> set m"
  by (auto simp: AList.delete_eq)

lemma delete_keys: "fst ` set (AList.delete k m) = fst ` set m - {k}"
  by (auto simp: AList.delete_eq)

lemma peer_map_ok_update:
  "peer_map_ok d m \<Longrightarrow> distinct ps \<Longrightarrow> set ps \<inter> set d = {} \<Longrightarrow> peer_map_ok d (AList.update bm ps m)"
  using update_subset [of bm ps m] by (fastforce simp: peer_map_ok_def distinct_update)

lemma peer_map_ok_delete: "peer_map_ok d m \<Longrightarrow> peer_map_ok d (AList.delete bm m)"
  using delete_subset [of bm m] by (fastforce simp: peer_map_ok_def distinct_delete)

lemma peer_map_ok_drop: "peer_map_ok d m \<Longrightarrow> peer_map_ok d (drop_peer p m)"
  by (fastforce simp: peer_map_ok_def drop_peer_def comp_def case_prod_unfold distinct_removeAll)

lemma peer_map_ok_filter: "peer_map_ok d m \<Longrightarrow> peer_map_ok d (filter P m)"
  by (auto simp: peer_map_ok_def intro: distinct_map_filter)

lemma peer_map_okD: "peer_map_ok d m \<Longrightarrow> map_of m bm = Some ps \<Longrightarrow> distinct ps \<and> set ps \<inter> set d = {}"
  by (auto simp: peer_map_ok_def dest!: map_of_SomeD)

lemma drop_peer_keys [simp]: "fst ` set (drop_peer p m) = fst ` set m"
  by (force simp: drop_peer_def)

lemma map_of_None_keys: "map_of m bm = None \<longleftrightarrow> bm \<notin> fst ` set m"
  by (rule map_of_eq_None_iff)

lemma ctl_inv_update: "ctl_inv c g \<Longrightarrow> retry_ok ctl \<Longrightarrow> ctl_inv (AList.update p ctl c) g"
  using update_subset [of p ctl c] by (fastforce simp: ctl_inv_def distinct_update)

lemma ctl_inv_gossip: "ctl_inv c g \<Longrightarrow> ih \<noteq> [] \<Longrightarrow> ctl_inv c (AList.update p ih g)"
  using update_subset [of p ih g] by (fastforce simp: ctl_inv_def distinct_update)

lemma ctl_inv_delete: "ctl_inv c g \<Longrightarrow> ctl_inv (AList.delete p c) g" "ctl_inv c g \<Longrightarrow> ctl_inv c (AList.delete p g)"
  using delete_subset [of p c] delete_subset [of p g] by (fastforce simp: ctl_inv_def distinct_delete)+

section \<open>What a call may change\<close>

lemma mesh_of_ok:
  "rt_ok s \<Longrightarrow> distinct (mesh_of s bm) \<and> set (mesh_of s bm) \<inter> set (direct s) = {}"
  "rt_ok s \<Longrightarrow> distinct (fanout_of s bm) \<and> set (fanout_of s bm) \<inter> set (direct s) = {}"
  by (auto simp: mesh_of_def fanout_of_def rt_ok_def mesh_inv_def split: option.splits dest: peer_map_okD)

lemma PeerScore_yields: "score_inv (rscore s) \<Longrightarrow> (\<And>x. Q x) \<Longrightarrow> yields (PeerScore s p) Q"
  using score_total by (auto simp: PeerScore_def Score_def score_inv_def yields_iff split: option.splits)

lemma trace_score_yields:
  assumes "score_inv (rscore s)" and "\<And>ps. ps_ok ps \<Longrightarrow> \<exists>ps'. f ps = Some ps' \<and> ps_ok ps'"
  shows "yields (trace_score f s) (\<lambda>s'. \<exists>r. s' = s\<lparr>rscore := r\<rparr> \<and> score_inv r)"
proof (cases "rscore s")
  case None
  have "s = s\<lparr>rscore := rscore s\<rparr>" by simp
  then have "\<exists>r. s = s\<lparr>rscore := r\<rparr> \<and> score_inv r" using assms(1) by blast
  then show ?thesis using None by (simp add: trace_score_def)
next
  case (Some ps)
  then obtain ps' where "f ps = Some ps'" "ps_ok ps'" using assms by (auto simp: score_inv_def)
  then show ?thesis using Some by (auto simp: trace_score_def score_inv_def)
qed

lemma trace_yields:
  assumes "score_inv (rscore s)"
  shows "yields (trace_Graft p bm now s) (\<lambda>s'. \<exists>r. s' = s\<lparr>rscore := r\<rparr> \<and> score_inv r)"
    "yields (trace_Prune p bm s) (\<lambda>s'. \<exists>r. s' = s\<lparr>rscore := r\<rparr> \<and> score_inv r)"
proof -
  show "yields (trace_Graft p bm now s) (\<lambda>s'. \<exists>r. s' = s\<lparr>rscore := r\<rparr> \<and> score_inv r)"
    unfolding trace_Graft_def by (rule trace_score_yields [OF assms]) (use mark_ops_ok(1) in blast)
  show "yields (trace_Prune p bm s) (\<lambda>s'. \<exists>r. s' = s\<lparr>rscore := r\<rparr> \<and> score_inv r)"
    unfolding trace_Prune_def by (rule trace_score_yields [OF assms]) (use mark_ops_ok(2) in blast)
qed

lemma add_penalty_ok: "score_inv (rscore s) \<Longrightarrow> \<exists>r. add_penalty p n s = s\<lparr>rscore := r\<rparr> \<and> score_inv r"
  using AddPenalty_ok by (auto simp: add_penalty_def score_inv_def)

lemma addBackoff_frame: "\<exists>b. doAddBackoff p bm i now s = s\<lparr>prune_backoff := b\<rparr>" "\<exists>b. addBackoff p bm u now s = s\<lparr>prune_backoff := b\<rparr>"
proof -
  show f: "\<exists>b. doAddBackoff p bm i now s = s\<lparr>prune_backoff := b\<rparr>" for i
  proof (cases "case prune_backoff s bm p of None \<Rightarrow> True | Some t \<Rightarrow> t < now + i")
    case False
    then have "doAddBackoff p bm i now s = s\<lparr>prune_backoff := prune_backoff s\<rparr>" by (simp add: doAddBackoff_def)
    then show ?thesis by blast
  qed (auto simp: doAddBackoff_def)
  then show "\<exists>b. addBackoff p bm u now s = s\<lparr>prune_backoff := b\<rparr>" by (simp add: addBackoff_def)
qed

section \<open>Sending\<close>

definition sends :: "router \<Rightarrow> router \<Rightarrow> bool" where
  "sends s s' \<longleftrightarrow> (\<exists>c g q r. s' = s\<lparr>control := c, gossip := g, p_peers := q, rnd := r\<rparr> \<and> (ctl_inv (control s) (gossip s) \<longrightarrow> ctl_inv c g))"

lemma sendsI: "s' = s\<lparr>control := c, gossip := g, p_peers := q, rnd := r\<rparr> \<Longrightarrow> (ctl_inv (control s) (gossip s) \<Longrightarrow> ctl_inv c g) \<Longrightarrow> sends s s'"
  unfolding sends_def by blast

lemma sends_trans: "sends a b \<Longrightarrow> sends b c \<Longrightarrow> sends a c"
  unfolding sends_def by (elim exE conjE) (rule exI, rule exI, rule exI, rule exI, rule conjI, simp, simp)

lemma sends_ok: "sends s s' \<Longrightarrow> rt_ok s \<Longrightarrow> rt_ok s'"
  by (auto simp: sends_def rt_ok_def total_features_def)

lemma sends_rnd [simp]: "sends s (s\<lparr>rnd := r\<rparr>)"
  by (rule sendsI [where c = "control s" and g = "gossip s" and q = "p_peers s" and r = r]) simp_all

lemma sends_refl [simp]: "sends s s"
  using sends_rnd [of s "rnd s"] by simp

lemma sends_fold: "(\<And>x s. sends s (f x s)) \<Longrightarrow> sends s (fold f xs s)"
  by (induction xs arbitrary: s) (auto intro: sends_trans)

lemma doDropRPC_sends: "sends s (doDropRPC rpc p s)"
proof (cases "Control rpc")
  case (Some ctl)
  let ?c = "ctl\<lparr>Ihave := [], Iwant := []\<rparr>"
  show ?thesis
  proof (cases "Graft ctl \<noteq> None \<or> Prune ctl \<noteq> None")
    case True
    then have "doDropRPC rpc p s = s\<lparr>control := AList.update p ?c (control s), gossip := gossip s, p_peers := p_peers s, rnd := rnd s\<rparr>"
      using Some by (simp add: doDropRPC_def pushControl_def)
    then show ?thesis by (rule sendsI) (rule ctl_inv_update, use True in \<open>simp_all add: retry_ok_def\<close>)
  qed (use Some in \<open>simp add: doDropRPC_def pushControl_def\<close>)
qed (simp add: doDropRPC_def)

lemma doSendRPC_sends: "sends s (doSendRPC rpc p q fast s)"
proof -
  have "sends s (s\<lparr>rnd := r, p_peers := pp\<rparr>)" for r pp
    by (rule sendsI [where c = "control s" and g = "gossip s" and q = pp and r = r]) simp_all
  then show ?thesis unfolding doSendRPC_def
    by (auto simp: Let_def case_prod_unfold split: option.splits intro: sends_trans [OF _ doDropRPC_sends])
qed

lemma sendRPC_sends: "sends s (sendRPC p out fast s)"
proof -
  have 1: "sends s (snd (snd (take_control p out s)))"
    by (rule sendsI [where c = "control (snd (snd (take_control p out s)))" and g = "gossip s" and q = "p_peers s" and r = "rnd s"])
      (auto simp: take_control_def ctl_inv_delete split: option.splits)
  have 2: "sends s (snd (take_gossip p out own s))" for s out own
    by (rule sendsI [where c = "control s" and g = "gossip (snd (take_gossip p out own s))" and q = "p_peers s" and r = "rnd s"])
      (auto simp: take_gossip_def ctl_inv_delete split: option.splits)
  have 3: "sends s (send_part out p fast rpc s)" for s out rpc
    by (auto simp: send_part_def doDropRPC_sends doSendRPC_sends split: option.splits)
  show ?thesis unfolding sendRPC_def Let_def case_prod_unfold
    by (rule sends_trans [OF sends_trans [OF 1 2]]) (auto split: option.splits intro: doSendRPC_sends sends_fold 3)
qed

lemma makePrune_yields:
  assumes "total_features s" "topics_ok (p_bitmasks s)" "score_inv (rscore s)"
  shows "yields (makePrune p bm px u s) (\<lambda>(x, s'). PruneBitmask x = bm \<and> (\<exists>r. s' = s\<lparr>rnd := r\<rparr>))"
proof -
  have refl: "\<exists>r. s = s\<lparr>rnd := r\<rparr>" by (rule exI [of _ "rnd s"]) simp
  have "yields (getPeers bm n (plain (\<lambda>xp. if p \<noteq> xp then do { sc \<leftarrow> PeerScore s xp; Some (sc \<ge> 0) } else Some False)) () s)
     (\<lambda>(ps, c', s'). distinct ps \<and> (\<forall>p \<in> set ps. True) \<and> (n > 0 \<longrightarrow> int (length ps) \<le> n) \<and> (\<exists>r. s' = s\<lparr>rnd := r\<rparr>))" for n
    by (rule getPeers_plain [OF assms(1,2)]) (simp add: PeerScore_yields [OF assms(3)])
  then have "yields (getPeers bm n (plain (\<lambda>xp. if p \<noteq> xp then do { sc \<leftarrow> PeerScore s xp; Some (sc \<ge> 0) } else Some False)) () s)
     (\<lambda>x. \<exists>r. snd (snd x) = s\<lparr>rnd := r\<rparr>)" for n
    by (rule yields_mono) auto
  then show ?thesis using refl
    by (auto simp: makePrune_def Let_def case_prod_unfold intro!: has_feature_total [OF assms(1)])
qed

lemma makePrunes_yields:
  assumes "total_features s" "topics_ok (p_bitmasks s)" "score_inv (rscore s)"
  shows "yields (makePrunes p bms px u s) (\<lambda>(xs, s'). map PruneBitmask xs = bms \<and> (\<exists>r. s' = s\<lparr>rnd := r\<rparr>))"
  using assms
proof (induction bms arbitrary: s)
  case Nil
  show ?case by (simp, rule exI [of _ "rnd s"], simp)
next
  case (Cons bm bms)
  have "yields (makePrune p bm px u s) (\<lambda>x. yields (makePrunes p bms px u (snd x))
     (\<lambda>y. map PruneBitmask (fst x # fst y) = bm # bms \<and> (\<exists>r. snd y = s\<lparr>rnd := r\<rparr>)))"
  proof (rule yields_mono [OF makePrune_yields [OF Cons.prems]])
    fix x :: "ControlPrune \<times> router"
    assume x: "case x of (x, s') \<Rightarrow> PruneBitmask x = bm \<and> (\<exists>r. s' = s\<lparr>rnd := r\<rparr>)"
    then obtain r where r: "snd x = s\<lparr>rnd := r\<rparr>" by auto
    have "total_features (s\<lparr>rnd := r\<rparr>)" using Cons.prems(1) by (simp add: total_features_def)
    from Cons.IH [OF this] Cons.prems
    have "yields (makePrunes p bms px u (snd x)) (\<lambda>(xs, s'). map PruneBitmask xs = bms \<and> (\<exists>r'. s' = s\<lparr>rnd := r, rnd := r'\<rparr>))"
      by (simp add: r)
    then show "yields (makePrunes p bms px u (snd x)) (\<lambda>y. map PruneBitmask (fst x # fst y) = bm # bms \<and> (\<exists>r. snd y = s\<lparr>rnd := r\<rparr>))"
      by (rule yields_mono) (use x in auto)
  qed
  then show ?case by (simp add: case_prod_unfold)
qed

end
