(* ===== verification/Router_Safety.thy ===== *)
theory Router_Safety
  imports Router_Invariant
begin

text \<open>
  Every handler of the BlossomSub router and its heartbeat return, and keep the invariant of the theory \<open>Router_Invariant\<close>.
\<close>

section \<open>Frames\<close>

lemma rt_okD:
  assumes "rt_ok s"
  shows "mesh_inv (mesh s) (fanout s) (lastpub s) (direct s)" "count_inv (params s) (iasked s) (peerdontwant s) (unwanted s)"
    "ctl_inv (control s) (gossip s)" "score_inv (rscore s)" "tracer_inv (gtracer s)" "cache_inv (mcache s)"
    "int (length (connect s)) \<le> MaxPendingConnections (params s)" "params_sane (params s)" "total_features s" "topics_ok (p_bitmasks s)"
  using assms by (simp_all add: rt_ok_def)

lemma rt_ok_frame [simp]:
  "rt_ok (s\<lparr>rnd := r\<rparr>) \<longleftrightarrow> rt_ok s"
  "rt_ok (s\<lparr>prune_backoff := b\<rparr>) \<longleftrightarrow> rt_ok s"
  "rt_ok (s\<lparr>peerhave := h\<rparr>) \<longleftrightarrow> rt_ok s"
  "rt_ok (s\<lparr>heartbeatTicks := n\<rparr>) \<longleftrightarrow> rt_ok s"
  "rt_ok (s\<lparr>dialers := d\<rparr>) \<longleftrightarrow> rt_ok s"
  by (simp_all add: rt_ok_def total_features_def)

lemma rt_ok_upd:
  assumes "rt_ok s"
  shows "score_inv sc \<Longrightarrow> rt_ok (s\<lparr>rscore := sc\<rparr>)" "tracer_inv gt \<Longrightarrow> rt_ok (s\<lparr>gtracer := gt\<rparr>)"
    "cache_inv mc \<Longrightarrow> rt_ok (s\<lparr>mcache := mc\<rparr>)"
    "mesh_inv m (fanout s) (lastpub s) (direct s) \<Longrightarrow> rt_ok (s\<lparr>mesh := m\<rparr>)"
    "mesh_inv m f l (direct s) \<Longrightarrow> rt_ok (s\<lparr>mesh := m, fanout := f, lastpub := l\<rparr>)"
    "ctl_inv c g \<Longrightarrow> rt_ok (s\<lparr>control := c, gossip := g\<rparr>)"
    "ctl_inv (control s) g \<Longrightarrow> rt_ok (s\<lparr>gossip := g\<rparr>)"
  using assms by (simp_all add: rt_ok_def total_features_def)

lemma yields_rt: "yields r (\<lambda>s'. \<exists>sc. s' = s\<lparr>rscore := sc\<rparr> \<and> score_inv sc) \<Longrightarrow> rt_ok s \<Longrightarrow> yields r rt_ok"
  by (erule yields_mono) (auto intro: rt_ok_upd)

lemma trace_ok:
  "rt_ok s \<Longrightarrow> yields (trace_Graft p bm now s) rt_ok" "rt_ok s \<Longrightarrow> yields (trace_Prune p bm s) rt_ok"
  using trace_yields [OF rt_okD(4)] yields_rt by blast+

lemma backoff_ok [simp]: "rt_ok (doAddBackoff p bm i now s) \<longleftrightarrow> rt_ok s" "rt_ok (addBackoff p bm u now s) \<longleftrightarrow> rt_ok s"
  using addBackoff_frame(1) [of p bm i now s] addBackoff_frame(2) [of p bm u now s] by auto

lemma penalty_ok: "rt_ok s \<Longrightarrow> rt_ok (add_penalty p n s)"
  using add_penalty_ok [OF rt_okD(4)] rt_ok_upd(1) by metis

lemma sendRPC_ok: "rt_ok s \<Longrightarrow> rt_ok (sendRPC p out fast s)"
  using sends_ok [OF sendRPC_sends] .

lemma rt_ok_range: "range_of xs s = (ys, s') \<Longrightarrow> rt_ok s' \<longleftrightarrow> rt_ok s"
  by (auto simp: range_of_def case_prod_unfold Let_def)

lemma rt_ok_range_snd [simp]: "rt_ok (snd (range_of xs s)) \<longleftrightarrow> rt_ok s"
  by (simp add: range_of_def case_prod_unfold Let_def)

lemma range_of_frame [simp]:
  "params (snd (range_of xs s)) = params s" "direct (snd (range_of xs s)) = direct s" "mesh (snd (range_of xs s)) = mesh s"
  "fanout (snd (range_of xs s)) = fanout s" "gtracer (snd (range_of xs s)) = gtracer s" "iasked (snd (range_of xs s)) = iasked s"
  "lastpub (snd (range_of xs s)) = lastpub s" "peers (snd (range_of xs s)) = peers s" "p_bitmasks (snd (range_of xs s)) = p_bitmasks s"
  "mcache (snd (range_of xs s)) = mcache s" "rscore (snd (range_of xs s)) = rscore s" "connect (snd (range_of xs s)) = connect s"
  by (simp_all add: range_of_def case_prod_unfold Let_def)

section \<open>Peers\<close>

lemma AddPeer_rt: "rt_ok s \<Longrightarrow> yields (rt_AddPeer p proto conns addrs s) rt_ok"
proof -
  assume ok: "rt_ok s"
  have "yields (trace_score (\<lambda>ps. Some (score_AddPeer p addrs ps)) s) (\<lambda>s'. \<exists>sc. s' = s\<lparr>rscore := sc\<rparr> \<and> score_inv sc)"
    by (rule trace_score_yields [OF rt_okD(4) [OF ok]]) (simp add: AddPeer_ok)
  then show ?thesis unfolding rt_AddPeer_def yields_bind
    by (rule yields_mono) (use ok in \<open>auto simp: rt_ok_def total_features_def\<close>)
qed

lemma mesh_inv_drop: "mesh_inv m f l d \<Longrightarrow> mesh_inv (drop_peer p m) (drop_peer p f) l d"
  by (simp add: mesh_inv_def peer_map_ok_drop)

lemma RemovePeer_rt: "rt_ok s \<Longrightarrow> yields (rt_RemovePeer p now s) rt_ok"
proof -
  assume ok: "rt_ok s"
  let ?r = "range_of (map fst (filter (\<lambda>x. p \<in> set (snd x)) (mesh s))) s"
  have "rt_ok (snd ?r)" using ok by simp
  then have 1: "yields (fold_opt (trace_Prune p) (fst ?r) (snd ?r)) rt_ok" by (rule yields_fold_opt) (rule trace_ok)
  have 2: "yields (trace_score (score_RemovePeer p now) s) rt_ok" if "rt_ok s" for s
    by (rule yields_rt [OF trace_score_yields [OF rt_okD(4) [OF that]] that]) (use RemovePeer_ok in blast)
  have 3: "rt_ok (s\<lparr>peers := (peers s)(p := None), mesh := drop_peer p (mesh s), fanout := drop_peer p (fanout s),
             gossip := AList.delete p (gossip s), control := AList.delete p (control s),
             outbound := (outbound s)(p := False), unwanted := (unwanted s)(p := None)\<rparr>)" if "rt_ok s" for s
    using that mesh_inv_drop [of "mesh s" "fanout s" "lastpub s" "direct s" p]
    by (auto simp: rt_ok_def total_features_def count_inv_def ctl_inv_delete)
  show ?thesis unfolding rt_RemovePeer_def Let_def case_prod_unfold yields_bind yields_Some
    by (rule yields_mono [OF 1], rule yields_mono [OF 2]) (simp_all add: 3)
qed

section \<open>Gossip requests\<close>

lemma add_promise_ok:
  assumes "rt_ok s" "mids \<noteq> []"
  shows "yields (add_promise p mids now s) (\<lambda>s'. rt_ok s' \<and> iasked s' = iasked s)"
proof (cases "gtracer s")
  case (Some gt)
  then have "gt_ok gt" using rt_okD(5) [OF assms(1)] by (simp add: tracer_inv_def)
  from AddPromise_refines [OF this assms(2)] obtain gt' where
    "AddPromise p mids (fst (Intn (length mids) (rnd s))) now gt = Some gt'" "gt_ok gt'" by blast
  moreover from this have "rt_ok (s\<lparr>gtracer := Some gt'\<rparr>)" using assms(1) by (intro rt_ok_upd) (simp_all add: tracer_inv_def)
  then have "rt_ok (s\<lparr>gtracer := Some gt', rnd := snd (Intn (length mids) (rnd s))\<rparr>)" by simp
  ultimately show ?thesis using Some by (simp add: add_promise_def case_prod_unfold Let_def)
qed (use assms(1) in \<open>simp add: add_promise_def\<close>)

lemma count_inv_iasked:
  "count_inv prm ia pdw unw \<Longrightarrow> 0 \<le> n \<Longrightarrow> n \<le> MaxIHaveLength prm \<Longrightarrow> count_inv prm (ia(p := n)) pdw unw"
  by (simp add: count_inv_def)

lemma handleIHave_rt:
  assumes "rt_ok s"
  shows "yields (handleIHave p ctl now s) (\<lambda>(w, s'). rt_ok s')"
proof -
  let ?s1 = "s\<lparr>peerhave := (peerhave s)(p := peerhave s p + 1)\<rparr>"
  let ?iw = "iwant_ids ?s1 p ctl" and ?M = "MaxIHaveLength (params s)"
  let ?iask = "if int (length ?iw) + iasked s p > ?M then ?M - iasked s p else int (length ?iw)"
  let ?s2 = "snd (range_of ?iw ?s1)" and ?lst = "take (nat ?iask) (fst (range_of ?iw ?s1))"
  let ?s3 = "?s2\<lparr>iasked := (iasked ?s2)(p := iasked ?s2 p + ?iask)\<rparr>"
  have ia: "0 \<le> iasked s p" using rt_okD(2) [OF assms] by (simp add: count_inv_def)
  have "yields (add_promise p ?lst now ?s3) rt_ok" if "?iw \<noteq> []" "iasked s p < ?M"
  proof -
    have len: "0 < length ?iw" using that(1) by simp
    then have iask: "0 < ?iask" "iasked s p + ?iask \<le> ?M" using that(2) by auto
    have "length ?lst = min (nat ?iask) (length ?iw)" by simp
    then have ne: "?lst \<noteq> []" using iask(1) len by (metis length_greater_0_conv min_less_iff_conj zero_less_nat_eq)
    have s2: "rt_ok ?s2" using assms by simp
    have "count_inv (params ?s2) ((iasked ?s2)(p := iasked ?s2 p + ?iask)) (peerdontwant ?s2) (unwanted ?s2)"
      by (rule count_inv_iasked [OF rt_okD(2) [OF s2]]) (use ia iask in auto)
    then have "rt_ok ?s3" using s2 by (simp add: rt_ok_def total_features_def)
    from add_promise_ok [OF this ne] show ?thesis by (rule yields_mono) simp
  qed
  then show ?thesis using assms unfolding handleIHave_def yields_bind
    by (intro PeerScore_yields [OF rt_okD(4)]) (auto simp: Let_def case_prod_unfold)
qed


lemma GetForPeer_cache: "cache_inv mc \<Longrightarrow> cache_inv (snd (GetForPeer mid p mc))"
  by (simp add: GetForPeer_def cache_inv_def Let_def split: option.splits)

lemma iwant_one_rt: "rt_ok (snd st) \<Longrightarrow> rt_ok (snd (iwant_one p mid st))"
proof -
  assume ok: "rt_ok (snd st)"
  have "snd (iwant_one p mid st) = (snd st)\<lparr>mcache := snd (GetForPeer mid p (mcache (snd st)))\<rparr>"
    by (simp add: iwant_one_def case_prod_unfold Let_def split: option.splits)
  then show ?thesis using ok by (simp add: rt_ok_upd(3) GetForPeer_cache rt_okD(6))
qed

lemma handleIWant_rt:
  assumes "rt_ok s"
  shows "yields (handleIWant p ctl s) (\<lambda>(ms, s'). rt_ok s')"
proof -
  have "rt_ok (snd (fold (iwant_one p) mids st))" if "rt_ok (snd st)" for mids st
    using that by (induction mids arbitrary: st) (simp_all add: iwant_one_rt)
  then show ?thesis using assms unfolding handleIWant_def yields_bind
    by (intro PeerScore_yields [OF rt_okD(4)]) (auto simp: Let_def case_prod_unfold)
qed

section \<open>GRAFT and PRUNE\<close>

lemma mesh_inv_update:
  assumes "mesh_inv m f l d" "map_of m bm \<noteq> None" "distinct ps" "set ps \<inter> set d = {}"
  shows "mesh_inv (AList.update bm ps m) f l d"
proof -
  have "bm \<in> fst ` set m" using assms(2) by (simp add: map_of_eq_None_iff)
  then show ?thesis using assms(1,3,4) by (auto simp: mesh_inv_def peer_map_ok_update update_keys)
qed

lemma mesh_inv_meshD: "mesh_inv m f l d \<Longrightarrow> map_of m bm = Some ps \<Longrightarrow> distinct ps \<and> set ps \<inter> set d = {}"
  by (auto simp: mesh_inv_def dest: peer_map_okD)

lemma graft_accept_rt:
  assumes "rt_ok s" "map_of (mesh s) bm = Some ps" "p \<notin> set ps" "p \<notin> set (direct s)"
  shows "yields (graft_accept p sc now bm ps (prune, px, s)) (\<lambda>(prune, px, s). rt_ok s)"
proof -
  have "yields (trace_Graft p bm now s) (\<lambda>s'. rt_ok (s'\<lparr>mesh := AList.update bm (ps @ [p]) (mesh s')\<rparr>))"
  proof (rule yields_mono [OF trace_yields(1) [OF rt_okD(4) [OF assms(1)]]])
    fix s'
    assume "\<exists>r. s' = s\<lparr>rscore := r\<rparr> \<and> score_inv r"
    then obtain r where s': "s' = s\<lparr>rscore := r\<rparr>" "score_inv r" by blast
    have "mesh_inv (AList.update bm (ps @ [p]) (mesh s)) (fanout s) (lastpub s) (direct s)"
      using assms mesh_inv_meshD [OF rt_okD(1) [OF assms(1)] assms(2)]
      by (intro mesh_inv_update rt_okD) auto
    moreover have "rt_ok s'" using assms(1) s' by (simp add: rt_ok_upd)
    ultimately show "rt_ok (s'\<lparr>mesh := AList.update bm (ps @ [p]) (mesh s')\<rparr>)" by (intro rt_ok_upd(4)) (simp_all add: s'(1))
  qed
  then show ?thesis using assms(1) by (simp add: graft_accept_def)
qed

lemma graft_one_rt:
  assumes "rt_ok (snd (snd st))"
  shows "yields (graft_one p sc now g st) (\<lambda>st. rt_ok (snd (snd st)))"
proof -
  obtain prune px s where [simp]: "st = (prune, px, s)" by (cases st)
  have ok: "rt_ok s" using assms by simp
  show ?thesis
  proof (cases "map_of (mesh s) (GraftBitmask g)")
    case (Some ps)
    have "yields (graft_accept p sc now (GraftBitmask g) ps (prune, px, s)) (\<lambda>st. rt_ok (snd (snd st)))"
      if "p \<notin> set ps" "p \<notin> set (direct s)"
      using graft_accept_rt [OF ok Some that] by (rule yields_mono) auto
    then show ?thesis using Some ok by (auto simp: graft_one_def Let_def penalty_ok split: option.splits)
  qed (use ok in \<open>auto simp: graft_one_def Let_def\<close>)
qed

lemma handleGraft_rt:
  assumes "rt_ok s"
  shows "yields (handleGraft p ctl now s) (\<lambda>(x, s'). rt_ok s')"
proof -
  have 1: "yields (fold_opt (graft_one p sc now) gs ([], doPX s, s)) (\<lambda>st. rt_ok (snd (snd st)))" for sc gs
    by (rule yields_fold_opt) (simp_all add: assms graft_one_rt)
  have 2: "yields (makePrunes p bms px False s) (\<lambda>x. rt_ok (snd x))" if "rt_ok s" for bms px s
    by (rule yields_mono [OF makePrunes_yields]) (use that in \<open>auto simp: rt_okD\<close>)
  have "yields (fold_opt (graft_one p sc now) (elems (Graft ctl)) ([], doPX s, s)) (\<lambda>st.
      (fst st = [] \<longrightarrow> rt_ok (snd (snd st))) \<and> (fst st \<noteq> [] \<longrightarrow> yields (makePrunes p (fst st) (fst (snd st)) False (snd (snd st))) (\<lambda>x. rt_ok (snd x))))" for sc
    by (rule yields_mono [OF 1]) (simp add: 2)
  then show ?thesis using assms unfolding handleGraft_def yields_bind
    by (intro PeerScore_yields [OF rt_okD(4)]) (simp_all add: case_prod_unfold)
qed

lemma push_connect_rt: "rt_ok s \<Longrightarrow> rt_ok (push_connect ci s)"
  by (simp add: push_connect_def rt_ok_def total_features_def)

lemma pxConnect_rt: "rt_ok s \<Longrightarrow> yields (pxConnect pis s) rt_ok"
proof -
  have "rt_ok (fold push_connect cis s)" if "rt_ok s" for cis s
    using that by (induction cis arbitrary: s) (simp_all add: push_connect_rt)
  moreover assume "rt_ok s"
  moreover from this have "0 \<le> PrunePeers (params s)" using rt_okD(8) by (simp add: params_sane_def)
  ultimately show ?thesis by (simp add: pxConnect_def case_prod_unfold Let_def)
qed

lemma prune_one_rt:
  assumes "rt_ok s"
  shows "yields (prune_one p sc now x s) rt_ok"
proof (cases "map_of (mesh s) (PruneBitmask x)")
  case (Some ps)
  let ?bm = "PruneBitmask x"
  have rest: "yields (let s = (if Backoff x > 0 then doAddBackoff p ?bm (wrap64 (wrap64 (int (Backoff x)) * Second)) now s
                  else addBackoff p ?bm False now s) in
         if Peers x = [] \<or> sc < acceptPXThreshold s then Some s else pxConnect (Peers x) s) rt_ok" if "rt_ok s" for s
    using that by (simp add: Let_def pxConnect_rt)
  have "yields (trace_Prune p ?bm s) (\<lambda>s'. rt_ok (s'\<lparr>mesh := AList.update ?bm (removeAll p ps) (mesh s')\<rparr>))"
  proof (rule yields_mono [OF trace_yields(2) [OF rt_okD(4) [OF assms]]])
    fix s'
    assume "\<exists>r. s' = s\<lparr>rscore := r\<rparr> \<and> score_inv r"
    then obtain r where s': "s' = s\<lparr>rscore := r\<rparr>" "score_inv r" by blast
    have "mesh_inv (AList.update ?bm (removeAll p ps) (mesh s)) (fanout s) (lastpub s) (direct s)"
      using Some mesh_inv_meshD [OF rt_okD(1) [OF assms] Some] assms
      by (intro mesh_inv_update rt_okD) (auto simp: distinct_removeAll)
    moreover have "rt_ok s'" using assms s' by (simp add: rt_ok_upd)
    ultimately show "rt_ok (s'\<lparr>mesh := AList.update ?bm (removeAll p ps) (mesh s')\<rparr>)" by (intro rt_ok_upd(4)) (simp_all add: s'(1))
  qed
  then have first: "yields (if p \<in> set ps then do { s \<leftarrow> trace_Prune p ?bm s; Some (s\<lparr>mesh := AList.update ?bm (removeAll p ps) (mesh s)\<rparr>) } else Some s) rt_ok"
    using assms by simp
  show ?thesis unfolding prune_one_def Let_def Some option.case yields_bind
    by (rule yields_mono [OF first [unfolded yields_bind]]) (use rest in \<open>simp add: Let_def\<close>)
qed (use assms in \<open>simp add: prune_one_def\<close>)

lemma handlePrune_rt: "rt_ok s \<Longrightarrow> yields (handlePrune p ctl now s) rt_ok"
  unfolding handlePrune_def yields_bind
  by (intro PeerScore_yields [OF rt_okD(4)] yields_fold_opt) (simp_all add: prune_one_rt)

section \<open>IDONTWANT\<close>

lemma fold_upd_const: "fold (\<lambda>k m. m(k \<mapsto> v)) ks m k' = Some n \<Longrightarrow> n = v \<or> m k' = Some n"
proof (induction ks arbitrary: m)
  case (Cons k ks)
  have "fold (\<lambda>k m. m(k \<mapsto> v)) ks (m(k \<mapsto> v)) k' = Some n" using Cons.prems by (simp only: fold_simps)
  from Cons.IH [OF this] show ?case by (auto split: if_splits)
qed simp

lemma handleIDontWant_rt:
  assumes "rt_ok s"
  shows "rt_ok (handleIDontWant p ctl s)"
proof -
  let ?m = "case unwanted s p of None \<Rightarrow> Map.empty | Some m \<Rightarrow> m"
  let ?f = "fold (\<lambda>mid m. m(mid \<mapsto> IDontWantMessageTTL (params s))) (concat (map IDontWantIDs (Idontwant ctl))) ?m"
  have c: "count_inv (params s) (iasked s) (peerdontwant s) (unwanted s)" using rt_okD(2) [OF assms] .
  have ttl: "0 < IDontWantMessageTTL (params s)" using rt_okD(8) [OF assms] by (simp add: params_sane_def)
  have m: "0 < n \<and> n \<le> IDontWantMessageTTL (params s)" if "?m mid = Some n" for mid n
    using c that by (auto simp: count_inv_def split: option.splits)
  then have "0 < n \<and> n \<le> IDontWantMessageTTL (params s)" if "?f mid = Some n" for mid n
    using fold_upd_const [OF that] ttl by auto
  then have c': "count_inv (params s) (iasked s) ((peerdontwant s)(p := peerdontwant s p + 1)) ((unwanted s)(p \<mapsto> ?f))"
    if "peerdontwant s p < MaxIDontWantMessages (params s)"
    using c that by (auto simp: count_inv_def)
  have c'': "count_inv (params s) (iasked s) (peerdontwant s) ((unwanted s)(p \<mapsto> ?m))" using c m by (auto simp: count_inv_def)
  show ?thesis
  proof (cases "peerdontwant s p < MaxIDontWantMessages (params s)")
    case True
    have "handleIDontWant p ctl s = s\<lparr>peerdontwant := (peerdontwant s)(p := peerdontwant s p + 1), unwanted := (unwanted s)(p \<mapsto> ?f)\<rparr>"
      using True by (simp add: handleIDontWant_def Let_def)
    then show ?thesis using assms c' [OF True] by (simp add: rt_ok_def total_features_def)
  next
    case False
    then have "handleIDontWant p ctl s = s\<lparr>unwanted := (unwanted s)(p \<mapsto> ?m)\<rparr>" by (simp add: handleIDontWant_def Let_def)
    then show ?thesis using assms c'' by (simp add: rt_ok_def total_features_def)
  qed
qed

lemma HandleRPC_rt:
  assumes "rt_ok s"
  shows "yields (HandleRPC rpc now s) rt_ok"
proof (cases "Control rpc")
  case (Some ctl)
  let ?p = "rpc_from rpc"
  have fin: "rt_ok (if c then handleIDontWant ?p ctl s else sendRPC ?p out False (handleIDontWant ?p ctl s))" if "rt_ok s" for c out s
    using that by (simp add: handleIDontWant_rt sendRPC_ok)
  have "yields (handleIHave ?p ctl now s) (\<lambda>x. yields (handleIWant ?p ctl (snd x)) (\<lambda>y. yields (handleGraft ?p ctl now (snd y))
     (\<lambda>z. yields (handlePrune ?p ctl now (snd z)) (\<lambda>s. rt_ok (if c x y z then handleIDontWant ?p ctl s
        else sendRPC ?p (out x y z) False (handleIDontWant ?p ctl s))))))" for c out
    by (rule yields_mono [OF handleIHave_rt [OF assms]], rule yields_mono [OF handleIWant_rt], (clarsimp; fail),
        rule yields_mono [OF handleGraft_rt], (clarsimp; fail), rule yields_mono [OF handlePrune_rt], (clarsimp; fail)) (rule fin)
  from this [where c = "\<lambda>x y z. fst x = [] \<and> fst y = [] \<and> elems (fst z) = []" and out = "\<lambda>x y z. rpcWithControl (fst y) [] (fst x) None (fst z) []"]
  show ?thesis using Some by (simp add: HandleRPC_def Let_def case_prod_unfold if_distrib [of rt_ok] cong: if_cong)
qed (use assms in \<open>simp add: HandleRPC_def\<close>)


lemma fold_rt: "(\<And>x s. rt_ok s \<Longrightarrow> rt_ok (f x s)) \<Longrightarrow> rt_ok s \<Longrightarrow> rt_ok (fold f xs s)"
  by (induction xs arbitrary: s) auto

lemma PreValidation_rt:
  assumes "rt_ok s"
  shows "yields (PreValidation ms s) rt_ok"
proof -
  have send: "rt_ok (send_idontwant ms p s)" if "rt_ok s" for p s
    using that by (simp add: send_idontwant_def case_prod_unfold Let_def sendRPC_ok)
  have "yields (filter_opt (plain (has_feature s BlossomSubFeatureIdontwant)) ps ()) (\<lambda>x. rt_ok
      (fold (send_idontwant ms) (fst (range_of (g x) s)) (snd (range_of (g x) s))))" for ps g
    by (rule yields_mono [OF filter_opt_plain [where P = "\<lambda>_. True"]])
      (use assms in \<open>auto intro!: has_feature_total rt_okD fold_rt send\<close>)
  then show ?thesis by (simp add: PreValidation_def case_prod_unfold Let_def)
qed

section \<open>Publishing\<close>

lemma Put_cache: "cache_inv mc \<Longrightarrow> yields (Put m mc) cache_inv"
  by (auto simp: Put_def cache_inv_def case_prod_unfold Let_def yields_iff split: list.splits)

lemma publish_ok_yields: "rt_ok s \<Longrightarrow> yields (publish_ok s p) (\<lambda>b. True)"
  by (simp add: publish_ok_def PeerScore_yields rt_okD(4))

lemma mesh_or_fanout_rt:
  assumes "rt_ok s"
  shows "yields (mesh_or_fanout sl now s) (\<lambda>(g, s'). rt_ok s')"
proof (cases "map_of (mesh s) sl")
  case None
  have d: "rt_ok (s\<lparr>lastpub := (lastpub s)(sl \<mapsto> now)\<rparr>)" using assms by (auto simp: rt_ok_def mesh_inv_def total_features_def)
  have "yields (getPeers sl (D (params s)) (plain (\<lambda>p. if p \<in> set (direct s) then Some False else publish_ok s p)) () s)
     (\<lambda>(ps, c', s'). distinct ps \<and> (\<forall>p \<in> set ps. p \<notin> set (direct s)) \<and> (D (params s) > 0 \<longrightarrow> int (length ps) \<le> D (params s)) \<and> (\<exists>r. s' = s\<lparr>rnd := r\<rparr>))"
    by (rule getPeers_plain) (use assms in \<open>auto simp: rt_okD intro: yields_mono [OF publish_ok_yields]\<close>)
  then have "yields (getPeers sl (D (params s)) (plain (\<lambda>p. if p \<in> set (direct s) then Some False else publish_ok s p)) () s)
     (\<lambda>x. rt_ok ((if fst x = [] then snd (snd x) else (snd (snd x))\<lparr>fanout := AList.update sl (fst x) (fanout (snd (snd x)))\<rparr>)\<lparr>lastpub := (lastpub
          (if fst x = [] then snd (snd x) else (snd (snd x))\<lparr>fanout := AList.update sl (fst x) (fanout (snd (snd x)))\<rparr>))(sl \<mapsto> now)\<rparr>))"
  proof (rule yields_mono)
    fix x
    assume x: "case x of (ps, c', s') \<Rightarrow> distinct ps \<and> (\<forall>p \<in> set ps. p \<notin> set (direct s)) \<and> (D (params s) > 0 \<longrightarrow> int (length ps) \<le> D (params s)) \<and> (\<exists>r. s' = s\<lparr>rnd := r\<rparr>)"
    then obtain r where r: "snd (snd x) = s\<lparr>rnd := r\<rparr>" by auto
    have "sl \<notin> fst ` set (mesh s)" using None by (simp add: map_of_eq_None_iff)
    then have "mesh_inv (mesh s) (AList.update sl (fst x) (fanout s)) ((lastpub s)(sl \<mapsto> now)) (direct s)"
      using rt_okD(1) [OF assms] x by (auto simp: mesh_inv_def update_keys intro!: peer_map_ok_update)
    then show "rt_ok ((if fst x = [] then snd (snd x) else (snd (snd x))\<lparr>fanout := AList.update sl (fst x) (fanout (snd (snd x)))\<rparr>)\<lparr>lastpub := (lastpub
          (if fst x = [] then snd (snd x) else (snd (snd x))\<lparr>fanout := AList.update sl (fst x) (fanout (snd (snd x)))\<rparr>))(sl \<mapsto> now)\<rparr>)"
      using assms d by (simp add: r rt_ok_def total_features_def)
  qed
  then show ?thesis using None d by (simp add: mesh_or_fanout_def case_prod_unfold)
qed (use assms in \<open>simp add: mesh_or_fanout_def\<close>)

lemma publish_slice_rt:
  assumes "rt_ok s"
  shows "yields (publish_slice msg now sl s) (\<lambda>(r, s'). rt_ok s')"
proof (cases "p_bitmasks s sl")
  case (Some tmap)
  have pub: "yields (publish_ok s p) (\<lambda>b. b \<longrightarrow> True)" for p using publish_ok_yields [OF assms] by (rule yields_mono) simp
  have 1: "yields (filter_opt (plain (\<lambda>p. if p \<in> set (direct s) then Some True else publish_ok s p)) tmap ()) (\<lambda>x. rt_ok s)"
    by (rule yields_mono [OF filter_opt_plain [where P = "\<lambda>_. True"]]) (use pub assms in simp_all)
  have 2: "yields (filter_opt (plain (\<lambda>p. do { m \<leftarrow> has_feature s BlossomSubFeatureMesh p; if m then Some False else publish_ok s p })) tmap ())
      (\<lambda>x. yields (mesh_or_fanout sl now s) (\<lambda>y. rt_ok (snd y)))"
    by (rule yields_mono [OF filter_opt_plain [where P = "\<lambda>_. True"]])
      (use pub assms mesh_or_fanout_rt [OF assms, of sl now] in \<open>auto simp: case_prod_unfold intro!: has_feature_total rt_okD\<close>)
  show ?thesis using 1 2 Some by (simp add: publish_slice_def case_prod_unfold Let_def)
qed (use assms in \<open>simp add: publish_slice_def\<close>)

lemma publish_slices_rt: "rt_ok s \<Longrightarrow> yields (publish_slices msg now sls acc s) (\<lambda>x. rt_ok (snd x))"
proof (induction sls arbitrary: acc s)
  case (Cons sl sls)
  have "yields (publish_slice msg now sl s) (\<lambda>x. yields (case fst x of None \<Rightarrow> Some (None, snd x)
     | Some ts \<Rightarrow> publish_slices msg now sls (if ts = [] then acc else acc @ [ts]) (snd x)) (\<lambda>x. rt_ok (snd x)))"
    by (rule yields_mono [OF publish_slice_rt [OF Cons.prems]]) (auto split: option.splits intro!: Cons.IH)
  then show ?case by (simp add: case_prod_unfold)
qed simp

lemma Publish_rt:
  assumes "rt_ok s"
  shows "yields (rt_Publish msg now s) rt_ok"
proof -
  have send: "rt_ok (fold (\<lambda>p. sendRPC p out False) ps s)" if "rt_ok s" for ps out s
    by (rule fold_rt [OF _ that]) (rule sendRPC_ok)
  have 2: "yields (publish_slices msg now sls [] s) (\<lambda>x. yields (case fst x of None \<Rightarrow> Some (snd x)
     | Some [] \<Rightarrow> Some (snd x)
     | Some toSendAll \<Rightarrow> do {
         let (i, d) = Intn (length toSendAll) (rnd (snd x));
         let (toSend, s) = range_of (toSendAll ! i) ((snd x)\<lparr>rnd := d\<rparr>);
         Some (fold (\<lambda>p. sendRPC p (rpcWithMessages [pbm msg]) False) toSend s) }) rt_ok)" if "rt_ok s" for sls s
    by (rule yields_mono [OF publish_slices_rt [OF that]])
      (auto simp: case_prod_unfold Let_def send split: option.splits list.splits)
  have "yields (Put msg (mcache s)) (\<lambda>mc. rt_ok (s\<lparr>mcache := mc\<rparr>))"
    by (rule yields_mono [OF Put_cache [OF rt_okD(6) [OF assms]]]) (rule rt_ok_upd(3) [OF assms])
  then show ?thesis unfolding rt_Publish_def yields_bind case_prod_unfold Let_def
    by (rule yields_mono) (rule 2 [unfolded case_prod_unfold Let_def])
qed


section \<open>Joining and leaving\<close>

lemma nonneg_yields: "rt_ok s \<Longrightarrow> yields (nonneg s p) (\<lambda>b. True)"
  by (simp add: nonneg_def PeerScore_yields rt_okD(4))

lemma getPeers_rt:
  assumes "rt_ok s" and "\<And>p. yields (f p) (\<lambda>b. b \<longrightarrow> P p)"
  shows "yields (getPeers bm limit (plain f) () s) (\<lambda>x. distinct (fst x) \<and> (\<forall>p \<in> set (fst x). P p)
    \<and> (limit > 0 \<longrightarrow> int (length (fst x)) \<le> limit) \<and> (\<exists>r. snd (snd x) = s\<lparr>rnd := r\<rparr>))"
  using getPeers_plain [of s f P bm limit, OF rt_okD(9) [OF assms(1)] rt_okD(10) [OF assms(1)] assms(2)] by (simp add: case_prod_unfold)

lemma mesh_inv_join:
  assumes "mesh_inv m f l d" "distinct ps" "set ps \<inter> set d = {}"
  shows "mesh_inv (AList.update bm ps m) (AList.delete bm f) (l(bm := None)) d"
    "map_of f bm = None \<Longrightarrow> mesh_inv (AList.update bm ps m) f l d"
proof -
  show "mesh_inv (AList.update bm ps m) (AList.delete bm f) (l(bm := None)) d"
    using assms by (auto simp: mesh_inv_def peer_map_ok_update peer_map_ok_delete update_keys delete_keys)
  show "mesh_inv (AList.update bm ps m) f l d" if "map_of f bm = None"
  proof -
    have "bm \<notin> fst ` set f" using that by (simp add: map_of_eq_None_iff)
    then show ?thesis using assms by (auto simp: mesh_inv_def peer_map_ok_update update_keys)
  qed
qed

lemma join_mesh_rt:
  assumes "rt_ok s"
  shows "yields (join_mesh bm s) (\<lambda>x. rt_ok (snd x))"
proof (cases "map_of (fanout s) bm")
  case (Some g0)
  have g0: "distinct g0" "set g0 \<inter> set (direct s) = {}"
    using rt_okD(1) [OF assms] Some by (auto simp: mesh_inv_def dest: peer_map_okD)
  have keep: "yields (filter_opt (plain (\<lambda>p. do { b \<leftarrow> nonneg s p; Some (b \<and> \<not> backed_off s bm p) })) g0 ())
      (\<lambda>x. set (fst x) \<subseteq> {p \<in> set g0. True} \<and> (distinct g0 \<longrightarrow> distinct (fst x)) \<and> length (fst x) \<le> length g0)"
    by (rule filter_opt_plain) (simp add: yields_mono [OF nonneg_yields [OF assms]])
  have more: "yields (getPeers bm n (plain (\<lambda>p. if p \<in> set g \<or> p \<in> set (direct s) \<or> backed_off s bm p then Some False else nonneg s p)) () s)
     (\<lambda>x. distinct (fst x) \<and> (\<forall>p \<in> set (fst x). p \<notin> set g \<and> p \<notin> set (direct s)) \<and> (n > 0 \<longrightarrow> int (length (fst x)) \<le> n) \<and> (\<exists>r. snd (snd x) = s\<lparr>rnd := r\<rparr>))" for n g
    by (rule getPeers_rt [OF assms]) (auto intro: yields_mono [OF nonneg_yields [OF assms]])
  have upd: "rt_ok (s\<lparr>mesh := AList.update bm ps (mesh s), fanout := AList.delete bm (fanout s), lastpub := (lastpub s)(bm := None)\<rparr>)"
    if "distinct ps" "set ps \<inter> set (direct s) = {}" for ps
    using assms mesh_inv_join(1) [OF rt_okD(1) [OF assms] that] by (simp add: rt_ok_upd(5))
  have updr: "rt_ok (s\<lparr>rnd := r, mesh := AList.update bm ps (mesh s), fanout := AList.delete bm (fanout s), lastpub := (lastpub s)(bm := None)\<rparr>)"
    if "distinct ps" "set ps \<inter> set (direct s) = {}" for ps r
    using upd [OF that] by (simp add: rt_ok_def total_features_def)
  show ?thesis unfolding join_mesh_def Some option.case yields_bind case_prod_unfold Let_def
  proof (rule yields_mono [OF keep])
    fix x :: "peer_id list \<times> unit"
    assume x: "set (fst x) \<subseteq> {p \<in> set g0. True} \<and> (distinct g0 \<longrightarrow> distinct (fst x)) \<and> length (fst x) \<le> length g0"
    then have g: "distinct (fst x)" "set (fst x) \<inter> set (direct s) = {}" using g0 by auto
    have "rt_ok ((snd (snd y))\<lparr>mesh := AList.update bm (fst x @ fst y) (mesh (snd (snd y))), fanout := AList.delete bm (fanout (snd (snd y))),
        lastpub := (lastpub (snd (snd y)))(bm := None)\<rparr>)"
      if y: "distinct (fst y) \<and> (\<forall>p \<in> set (fst y). p \<notin> set (fst x) \<and> p \<notin> set (direct s)) \<and> Q \<and> (\<exists>r. snd (snd y) = s\<lparr>rnd := r\<rparr>)" for y :: "peer_id list \<times> unit \<times> router" and Q
    proof -
      obtain r where r: "snd (snd y) = s\<lparr>rnd := r\<rparr>" using y by blast
      have "distinct (fst x @ fst y)" "set (fst x @ fst y) \<inter> set (direct s) = {}" using y g by auto
      from updr [OF this, of r] show ?thesis by (simp add: r)
    qed
    then have big: "yields (getPeers bm n (plain (\<lambda>p. if p \<in> set (fst x) \<or> p \<in> set (direct s) \<or> backed_off s bm p then Some False else nonneg s p)) () s)
     (\<lambda>y. rt_ok ((snd (snd y))\<lparr>mesh := AList.update bm (fst x @ fst y) (mesh (snd (snd y))), fanout := AList.delete bm (fanout (snd (snd y))),
        lastpub := (lastpub (snd (snd y)))(bm := None)\<rparr>))" for n
      by (rule yields_mono [OF more])
    show "yields (if int (length (fst x)) < D (params s)
        then Option.bind (getPeers bm (D (params s) - int (length (fst x)))
            (plain (\<lambda>p. if p \<in> set (fst x) \<or> p \<in> set (direct s) \<or> backed_off s bm p then Some False else nonneg s p)) () s)
            (\<lambda>p. Some (fst p, snd (snd p)))
        else Some ([], s))
       (\<lambda>y. yields (Some (fst x @ fst y, (snd y)\<lparr>mesh := AList.update bm (fst x @ fst y) (mesh (snd y)), fanout := AList.delete bm (fanout (snd y)),
              lastpub := (lastpub (snd y))(bm := None)\<rparr>)) (\<lambda>x. rt_ok (snd x)))"
      using big upd [OF g] by simp
  qed
next
  case None
  have "yields (getPeers bm (D (params s)) (plain (\<lambda>p. if p \<in> set (direct s) \<or> backed_off s bm p then Some False else nonneg s p)) () s)
     (\<lambda>x. distinct (fst x) \<and> (\<forall>p \<in> set (fst x). p \<notin> set (direct s)) \<and> (D (params s) > 0 \<longrightarrow> int (length (fst x)) \<le> D (params s)) \<and> (\<exists>r. snd (snd x) = s\<lparr>rnd := r\<rparr>))"
    by (rule getPeers_rt [OF assms]) (auto intro: yields_mono [OF nonneg_yields [OF assms]])
  then have "yields (getPeers bm (D (params s)) (plain (\<lambda>p. if p \<in> set (direct s) \<or> backed_off s bm p then Some False else nonneg s p)) () s)
     (\<lambda>x. rt_ok ((snd (snd x))\<lparr>mesh := AList.update bm (fst x) (mesh (snd (snd x)))\<rparr>))"
  proof (rule yields_mono)
    fix x :: "peer_id list \<times> unit \<times> router"
    assume x: "distinct (fst x) \<and> (\<forall>p \<in> set (fst x). p \<notin> set (direct s)) \<and> (D (params s) > 0 \<longrightarrow> int (length (fst x)) \<le> D (params s)) \<and> (\<exists>r. snd (snd x) = s\<lparr>rnd := r\<rparr>)"
    then obtain r where r: "snd (snd x) = s\<lparr>rnd := r\<rparr>" by blast
    have "mesh_inv (AList.update bm (fst x) (mesh s)) (fanout s) (lastpub s) (direct s)"
      by (rule mesh_inv_join(2) [OF rt_okD(1) [OF assms]]) (use x None in auto)
    then show "rt_ok ((snd (snd x))\<lparr>mesh := AList.update bm (fst x) (mesh (snd (snd x)))\<rparr>)" using assms by (simp add: r rt_ok_def total_features_def)
  qed
  then show ?thesis using None by (simp add: join_mesh_def case_prod_unfold)
qed

lemma Join_rt:
  assumes "rt_ok s"
  shows "yields (rt_Join bm now s) rt_ok"
proof -
  have link: "yields (graft_link bm now p s) rt_ok" if "rt_ok s" for p s
    unfolding graft_link_def yields_bind by (rule yields_mono [OF trace_ok(1) [OF that]]) (simp add: sendGraft_def sendRPC_ok)
  have "yields (join_mesh bm s) (\<lambda>x. yields (fold_opt (graft_link bm now) (fst (range_of (fst x) (snd x))) (snd (range_of (fst x) (snd x)))) rt_ok)"
    by (rule yields_mono [OF join_mesh_rt [OF assms]], rule yields_fold_opt) (simp_all add: link)
  then show ?thesis using assms by (simp add: rt_Join_def case_prod_unfold Let_def)
qed

lemma sendPrune_rt: "rt_ok s \<Longrightarrow> yields (sendPrune p bm u s) rt_ok"
  unfolding sendPrune_def yields_bind case_prod_unfold
  by (rule yields_mono [OF makePrune_yields]) (auto simp: rt_okD sendRPC_ok)

lemma Leave_rt:
  assumes "rt_ok s"
  shows "yields (rt_Leave bm now s) rt_ok"
proof (cases "map_of (mesh s) bm")
  case (Some g)
  have link: "yields (leave_link bm now p s) rt_ok" if "rt_ok s" for p s
    unfolding leave_link_def yields_bind
    by (rule yields_mono [OF trace_ok(2) [OF that]], rule yields_mono [OF sendPrune_rt]) simp_all
  have "mesh_inv (AList.delete bm (mesh s)) (fanout s) (lastpub s) (direct s)"
    using rt_okD(1) [OF assms] by (auto simp: mesh_inv_def peer_map_ok_delete delete_keys)
  then have "rt_ok (s\<lparr>mesh := AList.delete bm (mesh s)\<rparr>)" using assms by (rule rt_ok_upd(4) [rotated])
  then show ?thesis using Some
    by (simp add: rt_Leave_def case_prod_unfold Let_def yields_fold_opt [where I = rt_ok, OF _ link])
qed (use assms in \<open>simp add: rt_Leave_def\<close>)

end
