(* ===== verification/Router_Beat_Safety.thy ===== *)
theory Router_Beat_Safety
  imports Router_Safety
begin

text \<open>
  The heartbeat of the BlossomSub router returns and keeps the invariant. While the meshes are maintained the set \<open>K\<close> of
  joined bitmasks, the direct peers \<open>d\<close> and the parameters \<open>prm\<close> do not change.
\<close>

section \<open>Counters, backoffs and gossip\<close>

lemma clear_counters_rt: "rt_ok s \<Longrightarrow> rt_ok (clearIHaveCounters s)" "rt_ok s \<Longrightarrow> rt_ok (clearIDontWantCounters s)"
proof -
  assume ok: "rt_ok s"
  show "rt_ok (clearIHaveCounters s)"
    using ok by (simp add: clearIHaveCounters_def rt_ok_def total_features_def count_inv_def params_sane_def)
  have "0 < n \<and> n \<le> IDontWantMessageTTL (params s)"
    if un: "unwanted s p = Some m" and age: "age_unwanted m mid = Some n" for p m mid n
  proof -
    obtain n' where n': "m mid = Some n'" "n = n' - 1" "n \<noteq> 0" using age by (auto simp: age_unwanted_def split: option.splits if_splits)
    then have "0 < n' \<and> n' \<le> IDontWantMessageTTL (params s)" using rt_okD(2) [OF ok] un by (auto simp: count_inv_def)
    with n' show ?thesis by auto
  qed
  then show "rt_ok (clearIDontWantCounters s)"
    using ok by (auto simp: clearIDontWantCounters_def rt_ok_def total_features_def count_inv_def params_sane_def)
qed

lemma clearBackoff_rt: "rt_ok s \<Longrightarrow> rt_ok (clearBackoff now s)"
  by (simp add: clearBackoff_def)

lemma applyIwantPenalties_rt:
  assumes "rt_ok s"
  shows "rt_ok (applyIwantPenalties now s)"
proof (cases "gtracer s")
  case (Some gt)
  then have "gt_ok gt" using rt_okD(5) [OF assms] by (simp add: tracer_inv_def)
  then have "tracer_inv (Some (snd (GetBrokenPromises now gt)))" using GetBrokenPromises_refines by (simp add: tracer_inv_def)
  with rt_ok_upd(2) [OF assms] have "rt_ok (s\<lparr>gtracer := Some (snd (GetBrokenPromises now gt))\<rparr>)" .
  then show ?thesis using Some
    by (auto simp: applyIwantPenalties_def case_prod_unfold Let_def intro!: fold_rt penalty_ok)
qed (use assms in \<open>simp add: applyIwantPenalties_def\<close>)

lemma directConnect_rt: "rt_ok s \<Longrightarrow> yields (directConnect s) rt_ok"
  using rt_okD(8) [of s] by (auto simp: directConnect_def case_prod_unfold Let_def params_sane_def)

lemma enqueueGossip_rt: "rt_ok s \<Longrightarrow> rt_ok (enqueueGossip p ih s)"
  unfolding enqueueGossip_def by (rule rt_ok_upd(7)) (auto intro: ctl_inv_gossip rt_okD)

definition gossips :: "router \<Rightarrow> router \<Rightarrow> bool" where
  "gossips s s' \<longleftrightarrow> (\<exists>g r. s' = s\<lparr>gossip := g, rnd := r\<rparr>)"

lemma gossips_trans: "gossips a b \<Longrightarrow> gossips b c \<Longrightarrow> gossips a c"
  unfolding gossips_def by (elim exE) (rule exI, rule exI, simp)

lemma gossips_simps [simp]: "gossips s s" "gossips s (snd (range_of xs s))" "gossips s (enqueueGossip p ih s)"
proof -
  have "s = s\<lparr>gossip := gossip s, rnd := rnd s\<rparr>" by simp
  then show "gossips s s" unfolding gossips_def by blast
  have "snd (range_of xs s) = s\<lparr>gossip := gossip s, rnd := snd (shufflePeers xs (rnd s))\<rparr>" by (simp add: range_of_def case_prod_unfold Let_def)
  then show "gossips s (snd (range_of xs s))" unfolding gossips_def by blast
  have "enqueueGossip p ih s = s\<lparr>gossip := gossip (enqueueGossip p ih s), rnd := rnd s\<rparr>" by (simp add: enqueueGossip_def)
  then show "gossips s (enqueueGossip p ih s)" unfolding gossips_def by blast
qed

lemma gossip_to_rt: "rt_ok s \<Longrightarrow> rt_ok (gossip_to bm mids ps s) \<and> gossips s (gossip_to bm mids ps s)"
proof (induction bm mids ps s rule: gossip_to.induct)
  case (2 bm mids p ps s)
  show ?case
  proof (cases "int (length mids) > MaxIHaveLength (params s)")
    case True
    obtain mids' s' where r: "range_of mids s = (mids', s')" by (cases "range_of mids s")
    have s': "rt_ok s'" "gossips s s'" using "2.prems" gossips_simps(2) [of s mids] rt_ok_range [OF r] by (simp_all add: r)
    have "rt_ok (enqueueGossip p x s')" "gossips s (enqueueGossip p x s')" for x
      using s' enqueueGossip_rt gossips_trans [OF s'(2) gossips_simps(3)] by blast+
    with "2.IH"(1) [OF True r [symmetric] refl] show ?thesis using True r gossips_trans by (simp, blast)
  next
    case False
    with "2.IH"(2) [OF False] enqueueGossip_rt [OF "2.prems"] show ?thesis using gossips_trans [OF gossips_simps(3)] by (simp, blast)
  qed
qed simp

lemma gossip_target_yields: "rt_ok s \<Longrightarrow> yields (gossip_target s bm ex p) (\<lambda>b. True)"
  unfolding gossip_target_def by (auto intro!: has_feature_total PeerScore_yields rt_okD)

lemma emitGossip_rt:
  assumes "rt_ok s"
  shows "yields (emitGossip bm ex s) (\<lambda>s'. rt_ok s' \<and> gossips s s')"
proof -
  obtain mids where m: "GetGossipIDs bm (mcache s) = Some mids"
    using rt_okD(6) [OF assms] by (auto simp: GetGossipIDs_def cache_inv_def)
  let ?s1 = "snd (range_of mids s)"
  have s1: "rt_ok ?s1" using assms by simp
  have sane: "0 \<le> Dlazy (params s)" "0 \<le> MaxIHaveLength (params s)" using rt_okD(8) [OF assms] by (simp_all add: params_sane_def)
  have 1: "yields (filter_opt (plain (gossip_target ?s1 bm ex)) qs ()) (\<lambda>x. True)" for qs
    by (rule yields_mono [OF filter_opt_plain [where P = "\<lambda>_. True"]]) (use gossip_target_yields [OF s1] in \<open>auto elim: yields_mono\<close>)
  have 2: "rt_ok (gossip_to bm (fst (range_of mids s)) ps (snd (range_of xs ?s1))) \<and> gossips s (gossip_to bm (fst (range_of mids s)) ps (snd (range_of xs ?s1)))" for ps xs
    using gossip_to_rt [of "snd (range_of xs ?s1)" bm "fst (range_of mids s)" ps] assms
      gossips_trans [OF gossips_trans [OF gossips_simps(2) [of s mids] gossips_simps(2) [of ?s1 xs]]] by auto
  show ?thesis using assms m sane 2
    by (auto simp: emitGossip_def case_prod_unfold Let_def go_take_def intro!: yields_mono [OF 1])
qed

lemma flush_rt: "rt_ok s \<Longrightarrow> rt_ok (flush s)"
proof -
  have g: "rt_ok (flush_gossip p s)" if "rt_ok s" for p s
    using that ctl_inv_delete(2) [OF rt_okD(3) [OF that]]
    by (auto simp: flush_gossip_def split: option.splits intro!: sendRPC_ok rt_ok_upd(7))
  have "rt_ok (s\<lparr>control := AList.delete p (control s)\<rparr>)" if "rt_ok s" for p s
    using that ctl_inv_delete(1) [OF rt_okD(3) [OF that]] by (simp add: rt_ok_def total_features_def)
  then have c: "rt_ok (flush_control p s)" if "rt_ok s" for p s
    using that by (auto simp: flush_control_def split: option.splits intro!: sendRPC_ok)
  assume "rt_ok s"
  then show ?thesis by (auto simp: flush_def case_prod_unfold Let_def intro!: fold_rt g c)
qed

end
