(* ===== verification/Router_Mesh.thy ===== *)
theory Router_Mesh
  imports Router_Beat_Safety
begin

text \<open>
  What one heartbeat does to the mesh of a bitmask. \<open>S p\<close> is the score of a peer when the meshes start being maintained: the
  cache of the heartbeat makes every later decision about \<open>p\<close> depend on that score only.
\<close>

section \<open>Scores of other peers\<close>

lemma score_other: "q \<noteq> p \<Longrightarrow> score (ps\<lparr>pstats := (pstats ps)(p := x)\<rparr>) q = score ps q"
proof -
  assume q: "q \<noteq> p"
  let ?ps = "ps\<lparr>pstats := (pstats ps)(p := x)\<rparr>"
  have "ip_surplus ?ps = ip_surplus ps" by (simp add: ip_surplus_def fun_eq_iff)
  then have "ipColocationFactor ?ps q = ipColocationFactor ps q" using q by (simp add: ipColocationFactor_def split: option.split)
  then show ?thesis using q by (simp add: score_def split: option.split cong: if_cong)
qed

lemma on_stats_other: "on_stats p bm f ps = Some ps' \<Longrightarrow> q \<noteq> p \<Longrightarrow> score ps' q = score ps q"
  by (auto simp: on_stats_def score_other split: option.splits bind_splits)

lemma trace_other:
  "trace_Graft p bm now s = Some s' \<Longrightarrow> q \<noteq> p \<Longrightarrow> PeerScore s' q = PeerScore s q"
  "trace_Prune p bm s = Some s' \<Longrightarrow> q \<noteq> p \<Longrightarrow> PeerScore s' q = PeerScore s q"
  by (auto simp: trace_Graft_def trace_Prune_def trace_score_def PeerScore_def Score_def score_Graft_def score_Prune_def
      split: option.splits bind_splits dest: on_stats_other)

section \<open>The cache of scores\<close>

definition cache_law :: "(peer_id \<Rightarrow> real) \<Rightarrow> router \<Rightarrow> (peer_id \<rightharpoonup> real) \<Rightarrow> bool" where
  "cache_law S s c \<longleftrightarrow> (\<forall>p. c p = Some (S p) \<or> c p = None \<and> PeerScore s p = Some (S p))"

lemma cached_score_eq: "cache_law S s c \<Longrightarrow> cached_score s p c = Some (S p, c(p \<mapsto> S p))"
proof (cases "c p")
  case None
  assume "cache_law S s c"
  with None have "PeerScore s p = Some (S p)" unfolding cache_law_def by (metis option.distinct(1))
  with None show ?thesis by (simp add: cached_score_def)
next
  case (Some x)
  assume "cache_law S s c"
  with Some have "c p = Some (S p)" unfolding cache_law_def by (metis option.distinct(1))
  then show ?thesis by (simp add: cached_score_def fun_upd_idem)
qed

lemma cache_law_upd: "cache_law S s c \<Longrightarrow> cache_law S s (c(p \<mapsto> S p))"
  by (simp add: cache_law_def)

lemma cache_law_score: "cache_law S s c \<Longrightarrow> c p \<noteq> None \<Longrightarrow> c p = Some (S p)"
  by (auto simp: cache_law_def)

lemma cache_law_trace:
  "cache_law S s c \<Longrightarrow> c p \<noteq> None \<Longrightarrow> (\<And>q. q \<noteq> p \<Longrightarrow> PeerScore s' q = PeerScore s q) \<Longrightarrow> cache_law S s' c"
  unfolding cache_law_def by metis

lemma score_all_eq: "cache_law S s c \<Longrightarrow> \<exists>c'. score_all s ps c = Some c' \<and> cache_law S s c' \<and> (\<forall>p. c p \<noteq> None \<or> p \<in> set ps \<longleftrightarrow> c' p \<noteq> None)"
proof (induction ps arbitrary: c)
  case (Cons p ps)
  from Cons.IH [OF cache_law_upd [OF Cons.prems, of p]] obtain c' where c': "score_all s ps (c(p \<mapsto> S p)) = Some c'" "cache_law S s c'"
    "\<forall>q. (c(p \<mapsto> S p)) q \<noteq> None \<or> q \<in> set ps \<longleftrightarrow> c' q \<noteq> None" by blast
  have "score_all s (p # ps) c = Some c'" using c'(1) by (simp add: cached_score_eq [OF Cons.prems])
  moreover have "c q \<noteq> None \<or> q \<in> set (p # ps) \<longleftrightarrow> c' q \<noteq> None" for q
    using spec [OF c'(3), of q] by (cases "q = p") auto
  ultimately show ?case using c'(2) by blast
qed simp

section \<open>The state during mesh maintenance\<close>

definition hb_inv :: "bitmask set \<Rightarrow> peer_id list \<Rightarrow> BlossomSubParams \<Rightarrow> (peer_id \<Rightarrow> real) \<Rightarrow> heartbeat_st \<Rightarrow> bool" where
  "hb_inv K d prm S h \<longleftrightarrow> rt_ok (hb h) \<and> fst ` set (mesh (hb h)) = K \<and> direct (hb h) = d \<and> params (hb h) = prm
     \<and> cache_law S (hb h) (scores h)"

definition grown :: "(bitmask \<Rightarrow> peer_id \<rightharpoonup> time) \<Rightarrow> (bitmask \<Rightarrow> peer_id \<rightharpoonup> time) \<Rightarrow> bool" where
  "grown b b' \<longleftrightarrow> (\<forall>bm p t. b bm p = Some t \<longrightarrow> (\<exists>t'. b' bm p = Some t' \<and> t \<le> t'))"

text \<open>One step on the mesh of \<open>bm\<close>: other meshes are untouched, backoffs only grow, and a peer that leaves the mesh is backed off.\<close>

definition hb_step :: "time \<Rightarrow> bitmask \<Rightarrow> router \<Rightarrow> router \<Rightarrow> bool" where
  "hb_step now bm s s' \<longleftrightarrow> (\<forall>b. b \<noteq> bm \<longrightarrow> mesh_of s' b = mesh_of s b) \<and> grown (prune_backoff s) (prune_backoff s')
     \<and> (\<forall>p \<in> set (mesh_of s bm) - set (mesh_of s' bm). \<exists>t. prune_backoff s' bm p = Some t \<and> now + PruneBackoff (params s) \<le> t)
     \<and> params s' = params s"

lemma grown_refl [simp]: "grown b b"
  by (simp add: grown_def)

lemma grown_trans: "grown a b \<Longrightarrow> grown b c \<Longrightarrow> grown a c"
  unfolding grown_def by (meson order.trans)

lemma hb_step_refl [simp]: "hb_step now bm s s"
  by (simp add: hb_step_def)

lemma hb_stepD:
  assumes "hb_step now bm s s'"
  shows "b \<noteq> bm \<Longrightarrow> mesh_of s' b = mesh_of s b" "grown (prune_backoff s) (prune_backoff s')" "params s' = params s"
    "p \<in> set (mesh_of s bm) \<Longrightarrow> p \<notin> set (mesh_of s' bm) \<Longrightarrow> \<exists>t. prune_backoff s' bm p = Some t \<and> now + PruneBackoff (params s) \<le> t"
  using assms unfolding hb_step_def by blast+

lemma hb_stepI:
  assumes "\<And>b. b \<noteq> bm \<Longrightarrow> mesh_of s' b = mesh_of s b" "grown (prune_backoff s) (prune_backoff s')" "params s' = params s"
    "\<And>p. p \<in> set (mesh_of s bm) \<Longrightarrow> p \<notin> set (mesh_of s' bm) \<Longrightarrow> \<exists>t. prune_backoff s' bm p = Some t \<and> now + PruneBackoff (params s) \<le> t"
  shows "hb_step now bm s s'"
  using assms unfolding hb_step_def by blast

lemma hb_step_trans:
  assumes 1: "hb_step now bm a b" and 2: "hb_step now bm b c"
  shows "hb_step now bm a c"
proof (rule hb_stepI)
  fix p
  assume p: "p \<in> set (mesh_of a bm)" "p \<notin> set (mesh_of c bm)"
  show "\<exists>t. prune_backoff c bm p = Some t \<and> now + PruneBackoff (params a) \<le> t"
  proof (cases "p \<in> set (mesh_of b bm)")
    case True
    from hb_stepD(4) [OF 2 True p(2)] show ?thesis by (simp add: hb_stepD(3) [OF 1])
  next
    case False
    from hb_stepD(4) [OF 1 p(1) False] hb_stepD(2) [OF 2] show ?thesis unfolding grown_def by (meson order.trans)
  qed
qed (simp_all add: hb_stepD(1) [OF 1] hb_stepD(1) [OF 2] hb_stepD(3) [OF 1] hb_stepD(3) [OF 2] grown_trans [OF hb_stepD(2) [OF 1] hb_stepD(2) [OF 2]])

lemma hb_step_frame:
  "hb_step now bm s (s'\<lparr>rnd := r\<rparr>) \<longleftrightarrow> hb_step now bm s s'" "hb_step now bm s (s'\<lparr>gossip := g\<rparr>) \<longleftrightarrow> hb_step now bm s s'"
  "hb_step now bm s (s'\<lparr>rscore := x\<rparr>) \<longleftrightarrow> hb_step now bm s s'"
  by (simp_all add: hb_step_def mesh_of_def)

lemma addBackoff_grows:
  "grown (prune_backoff s) (prune_backoff (addBackoff p bm False now s))"
  "\<exists>t. prune_backoff (addBackoff p bm False now s) bm p = Some t \<and> now + PruneBackoff (params s) \<le> t"
  by (simp_all add: addBackoff_def doAddBackoff_def grown_def Let_def split: option.splits)

lemma addBackoff_simps [simp]:
  "mesh (addBackoff p bm u now s) = mesh s" "params (addBackoff p bm u now s) = params s" "direct (addBackoff p bm u now s) = direct s"
  "PeerScore (addBackoff p bm u now s) q = PeerScore s q" "mesh_of (addBackoff p bm u now s) b = mesh_of s b"
  "outbound (addBackoff p bm u now s) = outbound s"
  using addBackoff_frame(2) [of p bm u now s] by (auto simp: PeerScore_def mesh_of_def)

lemma mesh_of_update: "mesh_of (s\<lparr>mesh := AList.update bm ps m\<rparr>) b = (if b = bm then ps else case map_of m b of None \<Rightarrow> [] | Some ps \<Rightarrow> ps)"
  by (simp add: mesh_of_def update_conv')

text \<open>Changing the mesh of a joined bitmask after a trace call for \<open>p\<close>, whose score is cached.\<close>

lemma mesh_change:
  assumes h: "hb_inv K d prm S h" and bm: "bm \<in> K" and p: "scores h p \<noteq> None"
    and tr: "yields r (\<lambda>s'. \<exists>x. s' = (hb h)\<lparr>rscore := x\<rparr> \<and> score_inv x)" "\<And>s' q. r = Some s' \<Longrightarrow> q \<noteq> p \<Longrightarrow> PeerScore s' q = PeerScore (hb h) q"
    and ps: "distinct ps" "set ps \<inter> set d = {}"
  shows "yields r (\<lambda>s'. (\<exists>x. s' = (hb h)\<lparr>rscore := x\<rparr>) \<and> rt_ok (s'\<lparr>mesh := AList.update bm ps (mesh s')\<rparr>)
     \<and> fst ` set (AList.update bm ps (mesh s')) = K \<and> cache_law S s' (scores h))"
  using tr(1)
proof (rule yields_mono)
  fix s'
  assume r: "r = Some s'" and "\<exists>x. s' = (hb h)\<lparr>rscore := x\<rparr> \<and> score_inv x"
  then obtain x where s': "s' = (hb h)\<lparr>rscore := x\<rparr>" "score_inv x" by blast
  have ok: "rt_ok (hb h)" "fst ` set (mesh (hb h)) = K" "direct (hb h) = d" "cache_law S (hb h) (scores h)" using h by (auto simp: hb_inv_def)
  have "map_of (mesh (hb h)) bm \<noteq> None" using ok(2) bm by (simp add: map_of_eq_None_iff)
  then have "mesh_inv (AList.update bm ps (mesh (hb h))) (fanout (hb h)) (lastpub (hb h)) (direct (hb h))"
    using ps ok(3) by (intro mesh_inv_update rt_okD(1) [OF ok(1)]) auto
  moreover have "rt_ok s'" using ok(1) s' by (simp add: rt_ok_upd)
  ultimately have "rt_ok (s'\<lparr>mesh := AList.update bm ps (mesh s')\<rparr>)" by (intro rt_ok_upd(4)) (simp_all add: s'(1))
  moreover have "cache_law S s' (scores h)" by (rule cache_law_trace [OF ok(4) p tr(2) [OF r]])
  ultimately show "(\<exists>x. s' = (hb h)\<lparr>rscore := x\<rparr>) \<and> rt_ok (s'\<lparr>mesh := AList.update bm ps (mesh s')\<rparr>)
     \<and> fst ` set (AList.update bm ps (mesh s')) = K \<and> cache_law S s' (scores h)"
    using ok(2) bm by (auto simp: s'(1) update_keys)
qed

lemma cache_law_frame [simp]:
  "cache_law S (s\<lparr>mesh := m\<rparr>) c = cache_law S s c" "cache_law S (s\<lparr>rnd := r\<rparr>) c = cache_law S s c"
  "cache_law S (addBackoff p bm u now s) c = cache_law S s c" "cache_law S (s\<lparr>gossip := g\<rparr>) c = cache_law S s c"
  by (simp_all add: cache_law_def PeerScore_def [of "_\<lparr>mesh := m\<rparr>"] PeerScore_def [of "_\<lparr>rnd := r\<rparr>"] PeerScore_def [of "_\<lparr>gossip := g\<rparr>"])
    (simp_all add: PeerScore_def)

lemma graftPeer_step:
  assumes h: "hb_inv K d prm S h" and bm: "bm \<in> K" and p: "scores h p \<noteq> None" "p \<notin> set d"
  shows "yields (graftPeer bm now p h) (\<lambda>h'. hb_inv K d prm S h' \<and> hb_step now bm (hb h) (hb h') \<and> scores h' = scores h
     \<and> mesh_of (hb h') bm = List.insert p (mesh_of (hb h) bm))"
proof -
  have ok: "rt_ok (hb h)" "direct (hb h) = d" using h by (auto simp: hb_inv_def)
  have ps: "distinct (List.insert p (mesh_of (hb h) bm))" "set (List.insert p (mesh_of (hb h) bm)) \<inter> set d = {}"
    using mesh_of_ok(1) [OF ok(1), of bm] ok(2) p(2) by auto
  have "yields (trace_Graft p bm now (hb h)) (\<lambda>s'. (\<exists>x. s' = (hb h)\<lparr>rscore := x\<rparr>)
     \<and> rt_ok (s'\<lparr>mesh := AList.update bm (List.insert p (mesh_of (hb h) bm)) (mesh s')\<rparr>)
     \<and> fst ` set (AList.update bm (List.insert p (mesh_of (hb h) bm)) (mesh s')) = K \<and> cache_law S s' (scores h))"
    by (rule mesh_change [OF h bm p(1) trace_yields(1) [OF rt_okD(4) [OF ok(1)]] trace_other(1) ps])
  then show ?thesis unfolding graftPeer_def yields_bind Let_def yields_Some
  proof (rule yields_mono)
    fix s'
    assume s': "(\<exists>x. s' = (hb h)\<lparr>rscore := x\<rparr>) \<and> rt_ok (s'\<lparr>mesh := AList.update bm (List.insert p (mesh_of (hb h) bm)) (mesh s')\<rparr>)
     \<and> fst ` set (AList.update bm (List.insert p (mesh_of (hb h) bm)) (mesh s')) = K \<and> cache_law S s' (scores h)"
    then obtain x where x: "s' = (hb h)\<lparr>rscore := x\<rparr>" by blast
    have m: "mesh_of s' b = mesh_of (hb h) b" for b by (simp add: x mesh_of_def)
    let ?h = "h\<lparr>hb := s'\<lparr>mesh := AList.update bm (List.insert p (mesh_of s' bm)) (mesh s')\<rparr>, tograft := append_at p bm (tograft h)\<rparr>"
    have "hb_inv K d prm S ?h" using s' h by (simp add: hb_inv_def m) (simp add: x)
    moreover have "hb_step now bm (hb h) (hb ?h)" by (auto simp: hb_step_def mesh_of_update m) (simp_all add: x mesh_of_def)
    ultimately show "hb_inv K d prm S ?h \<and> hb_step now bm (hb h) (hb ?h) \<and> scores ?h = scores h
       \<and> mesh_of (hb ?h) bm = List.insert p (mesh_of (hb h) bm)"
      by (simp add: mesh_of_update m)
  qed
qed

lemma prunePeer_step:
  assumes h: "hb_inv K d prm S h" and bm: "bm \<in> K" and p: "scores h p \<noteq> None"
  shows "yields (prunePeer bm now p h) (\<lambda>h'. hb_inv K d prm S h' \<and> hb_step now bm (hb h) (hb h') \<and> scores h' = scores h
     \<and> mesh_of (hb h') bm = removeAll p (mesh_of (hb h) bm))"
proof -
  have ok: "rt_ok (hb h)" "direct (hb h) = d" using h by (auto simp: hb_inv_def)
  have ps: "distinct (removeAll p (mesh_of (hb h) bm))" "set (removeAll p (mesh_of (hb h) bm)) \<inter> set d = {}"
    using mesh_of_ok(1) [OF ok(1), of bm] ok(2) by (auto simp: distinct_removeAll)
  have "yields (trace_Prune p bm (hb h)) (\<lambda>s'. (\<exists>x. s' = (hb h)\<lparr>rscore := x\<rparr>)
     \<and> rt_ok (s'\<lparr>mesh := AList.update bm (removeAll p (mesh_of (hb h) bm)) (mesh s')\<rparr>)
     \<and> fst ` set (AList.update bm (removeAll p (mesh_of (hb h) bm)) (mesh s')) = K \<and> cache_law S s' (scores h))"
    by (rule mesh_change [OF h bm p(1) trace_yields(2) [OF rt_okD(4) [OF ok(1)]] trace_other(2) ps])
  then show ?thesis unfolding prunePeer_def yields_bind Let_def yields_Some
  proof (rule yields_mono)
    fix s'
    assume s': "(\<exists>x. s' = (hb h)\<lparr>rscore := x\<rparr>) \<and> rt_ok (s'\<lparr>mesh := AList.update bm (removeAll p (mesh_of (hb h) bm)) (mesh s')\<rparr>)
     \<and> fst ` set (AList.update bm (removeAll p (mesh_of (hb h) bm)) (mesh s')) = K \<and> cache_law S s' (scores h)"
    then obtain x where x: "s' = (hb h)\<lparr>rscore := x\<rparr>" by blast
    have m: "mesh_of s' b = mesh_of (hb h) b" for b by (simp add: x mesh_of_def)
    let ?s = "s'\<lparr>mesh := AList.update bm (removeAll p (mesh_of s' bm)) (mesh s')\<rparr>"
    let ?h = "h\<lparr>hb := addBackoff p bm False now ?s, toprune := append_at p bm (toprune h)\<rparr>"
    have "hb_inv K d prm S ?h" using s' h by (simp add: hb_inv_def m) (simp add: x)
    moreover have "hb_step now bm (hb h) (hb ?h)"
    proof (rule hb_stepI)
      fix q
      assume q: "q \<in> set (mesh_of (hb h) bm)" "q \<notin> set (mesh_of (hb ?h) bm)"
      then have "q = p" by (simp add: mesh_of_update m)
      then show "\<exists>t. prune_backoff (hb ?h) bm q = Some t \<and> now + PruneBackoff (params (hb h)) \<le> t"
        using addBackoff_grows(2) [where s = ?s and p = p and bm = bm and now = now] by (simp add: x)
    next
      show "grown (prune_backoff (hb h)) (prune_backoff (hb ?h))"
        using addBackoff_grows(1) [where s = ?s and p = p and bm = bm and now = now] by (simp add: x)
    qed (simp_all add: x mesh_of_update, simp add: mesh_of_def)
    ultimately show "hb_inv K d prm S ?h \<and> hb_step now bm (hb h) (hb ?h) \<and> scores ?h = scores h
       \<and> mesh_of (hb ?h) bm = removeAll p (mesh_of (hb h) bm)"
      by (simp add: mesh_of_update m)
  qed
qed


section \<open>The stages of mesh maintenance\<close>

definition stage :: "bitmask set \<Rightarrow> peer_id list \<Rightarrow> BlossomSubParams \<Rightarrow> (peer_id \<Rightarrow> real) \<Rightarrow> time \<Rightarrow> bitmask \<Rightarrow> heartbeat_st \<Rightarrow> heartbeat_st \<Rightarrow> bool" where
  "stage K d prm S now bm h h' \<longleftrightarrow> hb_inv K d prm S h' \<and> hb_step now bm (hb h) (hb h')"

lemma stage_trans: "stage K d prm S now bm a b \<Longrightarrow> stage K d prm S now bm b c \<Longrightarrow> stage K d prm S now bm a c"
  using hb_step_trans by (auto simp: stage_def)

lemma stage_refl: "hb_inv K d prm S h \<Longrightarrow> stage K d prm S now bm h h"
  by (simp add: stage_def)

lemma stage_inv: "stage K d prm S now bm a b \<Longrightarrow> hb_inv K d prm S b"
  by (simp add: stage_def)

lemma hb_inv_scores: "hb_inv K d prm S h \<Longrightarrow> cache_law S (hb h) c \<Longrightarrow> hb_inv K d prm S (h\<lparr>scores := c\<rparr>)"
  by (simp add: hb_inv_def)

lemma hb_inv_rnd: "hb_inv K d prm S (h\<lparr>hb := (hb h)\<lparr>rnd := r\<rparr>\<rparr>) \<longleftrightarrow> hb_inv K d prm S h"
  by (simp add: hb_inv_def)

lemma hb_rangeE: "\<exists>ys r. hb_range xs h = (ys, h\<lparr>hb := (hb h)\<lparr>rnd := r\<rparr>\<rparr>) \<and> mset ys = mset xs"
  by (auto simp: hb_range_def range_of_def case_prod_unfold Let_def)

lemma mesh_of_rnd [simp]: "mesh_of (s\<lparr>rnd := r\<rparr>) bm = mesh_of s bm"
  by (simp add: mesh_of_def)

lemma hb_drop_stage:
  assumes h: "hb_inv K d prm S h" and bm: "bm \<in> K"
  shows "yields (hb_drop bm now p h) (\<lambda>h'. stage K d prm S now bm h h' \<and> mesh_of (hb h') bm = (if S p < 0 then removeAll p (mesh_of (hb h) bm) else mesh_of (hb h) bm))"
proof -
  let ?h = "h\<lparr>scores := (scores h)(p \<mapsto> S p)\<rparr>"
  have c: "cache_law S (hb h) (scores h)" using h by (simp add: hb_inv_def)
  have h1: "hb_inv K d prm S ?h" using h cache_law_upd [OF c] by (rule hb_inv_scores)
  have "yields (prunePeer bm now p ?h) (\<lambda>h'. stage K d prm S now bm h (h'\<lparr>noPX := f h'\<rparr>) \<and> mesh_of (hb h') bm = removeAll p (mesh_of (hb h) bm))" for f
    by (rule yields_mono [OF prunePeer_step [OF h1 bm]]) (auto simp: stage_def hb_inv_def)
  then show ?thesis using h1 by (simp add: hb_drop_def cached_score_eq [OF c] stage_def)
qed

lemma drop_negative_fold:
  assumes "hb_inv K d prm S h" "bm \<in> K"
  shows "yields (fold_opt (hb_drop bm now) ps h) (\<lambda>h'. stage K d prm S now bm h h' \<and> mesh_of (hb h') bm = filter (\<lambda>p. p \<in> set ps \<longrightarrow> 0 \<le> S p) (mesh_of (hb h) bm))"
  using assms(1)
proof (induction ps arbitrary: h)
  case (Cons p ps)
  have "yields (hb_drop bm now p h) (\<lambda>h1. yields (fold_opt (hb_drop bm now) ps h1)
     (\<lambda>h'. stage K d prm S now bm h h' \<and> mesh_of (hb h') bm = filter (\<lambda>q. q \<in> set (p # ps) \<longrightarrow> 0 \<le> S q) (mesh_of (hb h) bm)))"
  proof (rule yields_mono [OF hb_drop_stage [OF Cons.prems assms(2)]])
    fix h1
    assume h1: "stage K d prm S now bm h h1 \<and> mesh_of (hb h1) bm = (if S p < 0 then removeAll p (mesh_of (hb h) bm) else mesh_of (hb h) bm)"
    have inv: "hb_inv K d prm S h1" using h1 stage_inv by blast
    have eq: "filter (\<lambda>q. q \<in> set ps \<longrightarrow> 0 \<le> S q) (mesh_of (hb h1) bm) = filter (\<lambda>q. q \<in> set (p # ps) \<longrightarrow> 0 \<le> S q) (mesh_of (hb h) bm)"
      using h1 by (auto simp: removeAll_filter_not_eq filter_filter intro!: filter_cong)
    show "yields (fold_opt (hb_drop bm now) ps h1)
     (\<lambda>h'. stage K d prm S now bm h h' \<and> mesh_of (hb h') bm = filter (\<lambda>q. q \<in> set (p # ps) \<longrightarrow> 0 \<le> S q) (mesh_of (hb h) bm))"
      by (rule yields_mono [OF Cons.IH [OF inv]]) (use h1 eq stage_trans in auto)
  qed
  then show ?case by simp
qed (simp add: stage_refl)

lemma drop_negative_stage:
  assumes "hb_inv K d prm S h" "bm \<in> K"
  shows "yields (drop_negative bm now h) (\<lambda>h'. stage K d prm S now bm h h' \<and> mesh_of (hb h') bm = filter (\<lambda>p. 0 \<le> S p) (mesh_of (hb h) bm))"
proof -
  obtain ys r where r: "hb_range (mesh_of (hb h) bm) h = (ys, h\<lparr>hb := (hb h)\<lparr>rnd := r\<rparr>\<rparr>)" "mset ys = mset (mesh_of (hb h) bm)"
    using hb_rangeE by blast
  have set: "set ys = set (mesh_of (hb h) bm)" using r(2) by (rule mset_eq_setD)
  let ?h = "h\<lparr>hb := (hb h)\<lparr>rnd := r\<rparr>\<rparr>"
  have inv: "hb_inv K d prm S ?h" using assms(1) by (simp add: hb_inv_rnd)
  have "stage K d prm S now bm h h'" if "stage K d prm S now bm ?h h'" for h'
    using that by (simp add: stage_def hb_step_def)
  then show ?thesis unfolding drop_negative_def r(1) Let_def prod.case
    by (intro yields_mono [OF drop_negative_fold [OF inv assms(2)]]) (auto simp: set intro!: filter_cong)
qed

lemma graft_fold:
  assumes "hb_inv K d prm S h" "bm \<in> K" "\<forall>p \<in> set ps. scores h p \<noteq> None \<and> p \<notin> set d"
  shows "yields (fold_opt (graftPeer bm now) ps h) (\<lambda>h'. stage K d prm S now bm h h' \<and> set (mesh_of (hb h') bm) = set (mesh_of (hb h) bm) \<union> set ps
     \<and> length (mesh_of (hb h') bm) \<le> length (mesh_of (hb h) bm) + length ps)"
  using assms(1,3)
proof (induction ps arbitrary: h)
  case (Cons p ps)
  have "yields (graftPeer bm now p h) (\<lambda>h1. yields (fold_opt (graftPeer bm now) ps h1) (\<lambda>h'. stage K d prm S now bm h h'
     \<and> set (mesh_of (hb h') bm) = set (mesh_of (hb h) bm) \<union> set (p # ps) \<and> length (mesh_of (hb h') bm) \<le> length (mesh_of (hb h) bm) + length (p # ps)))"
  proof (rule yields_mono [OF graftPeer_step [OF Cons.prems(1) assms(2)]])
    show "scores h p \<noteq> None" "p \<notin> set d" using Cons.prems(2) by auto
    fix h1
    assume h1: "hb_inv K d prm S h1 \<and> hb_step now bm (hb h) (hb h1) \<and> scores h1 = scores h \<and> mesh_of (hb h1) bm = List.insert p (mesh_of (hb h) bm)"
    then have st: "stage K d prm S now bm h h1" by (simp add: stage_def)
    have len: "length (mesh_of (hb h1) bm) \<le> Suc (length (mesh_of (hb h) bm))" using h1 by (simp add: List.insert_def)
    show "yields (fold_opt (graftPeer bm now) ps h1) (\<lambda>h'. stage K d prm S now bm h h'
     \<and> set (mesh_of (hb h') bm) = set (mesh_of (hb h) bm) \<union> set (p # ps) \<and> length (mesh_of (hb h') bm) \<le> length (mesh_of (hb h) bm) + length (p # ps))"
      by (rule yields_mono [OF Cons.IH]) (use h1 st len Cons.prems(2) stage_trans in auto)
  qed
  then show ?case by simp
qed (simp add: stage_refl)

lemma hb_filter_law:
  assumes "direct s = d"
  shows "filter_law (cache_law S s) (\<lambda>p c. c p \<noteq> None \<and> p \<notin> set d \<and> ok (S p)) (hb_filter s bm pre ok)"
  unfolding filter_law_def
proof (intro allI impI)
  fix p c
  assume c: "cache_law S s c"
  then show "yields (hb_filter s bm pre ok p c) (\<lambda>(b, c'). cache_law S s c' \<and> (b \<longrightarrow> c' p \<noteq> None \<and> p \<notin> set d \<and> ok (S p))
     \<and> (\<forall>y. c y \<noteq> None \<and> y \<notin> set d \<and> ok (S y) \<longrightarrow> c' y \<noteq> None \<and> y \<notin> set d \<and> ok (S y)))"
    using assms cache_law_upd [OF c] by (simp add: hb_filter_def cached_score_eq [OF c])
qed

lemma graft_more_stage:
  assumes h: "hb_inv K d prm S h" and bm: "bm \<in> K"
  shows "yields (graft_more bm now limit pre ok h) (\<lambda>h'. stage K d prm S now bm h h'
     \<and> (\<forall>p \<in> set (mesh_of (hb h') bm). p \<in> set (mesh_of (hb h) bm) \<or> ok (S p))
     \<and> (limit > 0 \<longrightarrow> int (length (mesh_of (hb h') bm)) \<le> int (length (mesh_of (hb h) bm)) + limit))"
proof -
  have s: "rt_ok (hb h)" "direct (hb h) = d" "cache_law S (hb h) (scores h)" using h by (auto simp: hb_inv_def)
  have "yields (getPeers bm limit (hb_filter (hb h) bm pre ok) (scores h) (hb h)) (\<lambda>(ps, c', s'). cache_law S (hb h) c' \<and> distinct ps
    \<and> (\<forall>p \<in> set ps. c' p \<noteq> None \<and> p \<notin> set d \<and> ok (S p)) \<and> (limit > 0 \<longrightarrow> int (length ps) \<le> limit) \<and> (\<exists>r. s' = (hb h)\<lparr>rnd := r\<rparr>))"
    by (rule getPeers_law [OF rt_okD(9) [OF s(1)] rt_okD(10) [OF s(1)] hb_filter_law [where S = S and ok = ok, OF s(2)]]) (rule s(3))
  then show ?thesis unfolding graft_more_def yields_bind
  proof (rule yields_mono)
    fix x
    assume "case x of (ps, c', s') \<Rightarrow> cache_law S (hb h) c' \<and> distinct ps
    \<and> (\<forall>p \<in> set ps. c' p \<noteq> None \<and> p \<notin> set d \<and> ok (S p)) \<and> (limit > 0 \<longrightarrow> int (length ps) \<le> limit) \<and> (\<exists>r. s' = (hb h)\<lparr>rnd := r\<rparr>)"
    then obtain ps c r where x: "x = (ps, c, (hb h)\<lparr>rnd := r\<rparr>)" and c: "cache_law S (hb h) c"
      and ps: "\<forall>p \<in> set ps. c p \<noteq> None \<and> p \<notin> set d \<and> ok (S p)" "limit > 0 \<longrightarrow> int (length ps) \<le> limit" by (cases x) auto
    let ?h = "h\<lparr>hb := (hb h)\<lparr>rnd := r\<rparr>, scores := c\<rparr>"
    have inv: "hb_inv K d prm S ?h" using h c by (simp add: hb_inv_def)
    have st: "stage K d prm S now bm h h'" if "stage K d prm S now bm ?h h'" for h' using that by (simp add: stage_def hb_step_def)
    have "yields (fold_opt (graftPeer bm now) ps ?h) (\<lambda>h'. stage K d prm S now bm h h'
     \<and> (\<forall>p \<in> set (mesh_of (hb h') bm). p \<in> set (mesh_of (hb h) bm) \<or> ok (S p))
     \<and> (limit > 0 \<longrightarrow> int (length (mesh_of (hb h') bm)) \<le> int (length (mesh_of (hb h) bm)) + limit))"
      by (rule yields_mono [OF graft_fold [OF inv bm]]) (use ps st in auto)
    then show "yields (case x of (ps, c, s) \<Rightarrow> fold_opt (graftPeer bm now) ps (h\<lparr>hb := s, scores := c\<rparr>)) (\<lambda>h'. stage K d prm S now bm h h'
     \<and> (\<forall>p \<in> set (mesh_of (hb h') bm). p \<in> set (mesh_of (hb h) bm) \<or> ok (S p))
     \<and> (limit > 0 \<longrightarrow> int (length (mesh_of (hb h') bm)) \<le> int (length (mesh_of (hb h) bm)) + limit))"
      by (simp add: x)
  qed
qed

end
