(* ===== verification/Router_Prefer.thy ===== *)
theory Router_Prefer
  imports Router_Heartbeat "HOL-Library.Multiset"
begin

text \<open>
  Which peers an overfull mesh keeps: the loops that bubble outbound peers to the front of the ranking keep the
  best-ranked peers in the selection and bring in the outbound peers it lacks.
\<close>

fun pick :: "('a \<Rightarrow> bool) \<Rightarrow> nat \<Rightarrow> 'a list \<Rightarrow> 'a list \<times> 'a list" where
  "pick out m [] = ([], [])"
| "pick out m (y # ys) =
     (if m > 0 \<and> out y then let (s, u) = pick out (m - 1) ys in (y # s, u) else let (s, u) = pick out m ys in (s, y # u))"

lemma pick_sel: "fst (pick out m ys) = take m (filter out ys)"
proof (induction out m ys rule: pick.induct)
  case (2 out m y ys)
  then show ?case by (cases m) (auto simp: case_prod_unfold Let_def)
qed simp

lemma pick_mset: "mset (fst (pick out m ys)) + mset (snd (pick out m ys)) = mset ys"
  by (induction out m ys rule: pick.induct) (auto simp: case_prod_unfold Let_def)

lemma pick_all: "length (filter out ys) \<le> m \<Longrightarrow> snd (pick out m ys) = filter (\<lambda>y. \<not> out y) ys"
proof (induction out m ys rule: pick.induct)
  case (2 out m y ys)
  then show ?case by (cases "m > 0 \<and> out y") (auto simp: case_prod_unfold Let_def split: if_splits)
qed simp

lemma bubble_fold:
  "fold (bubble out) [length pre..<length pre + length mid] (m, pre @ mid @ post) =
     (m - length (fst (pick out m mid)), rev (fst (pick out m mid)) @ pre @ snd (pick out m mid) @ post)"
proof (induction mid arbitrary: pre m)
  case (Cons y mid)
  let ?i = "length pre"
  have upt: "[?i..<Suc (?i + length mid)] = ?i # [Suc ?i..<Suc (?i + length mid)]" by (rule upt_conv_Cons) simp
  show ?case
  proof (cases "m > 0 \<and> out y")
    case True
    have "bubble out ?i (m, pre @ (y # mid) @ post) = (m - 1, (y # pre) @ mid @ post)"
      using True by (simp add: bubble_def rotate_at_def nth_append)
    then show ?thesis using True Cons.IH [of "y # pre" "m - 1"] by (simp add: upt case_prod_unfold Let_def del: upt_Suc)
  next
    case False
    have "bubble out ?i (m, pre @ (y # mid) @ post) = (m, (pre @ [y]) @ mid @ post)"
      using False by (auto simp: bubble_def nth_append)
    then show ?thesis using False Cons.IH [of "pre @ [y]" m] by (auto simp: upt case_prod_unfold Let_def simp del: upt_Suc)
  qed
qed simp

text \<open>The first loop sorts the selection into its outbound peers, in some order, and the others, in their order.\<close>

lemma bubble_inside:
  assumes "0 < d" "d \<le> length xs"
  shows "\<exists>os. snd (fold (bubble out) [1..<d] (length (filter out (take d xs)), xs)) = os @ filter (\<lambda>x. \<not> out x) (take d xs) @ drop d xs
    \<and> mset os = mset (filter out (take d xs))"
proof -
  obtain x rest where xs: "xs = x # rest" using assms by (cases xs) auto
  let ?mid = "take (d - 1) rest" and ?post = "drop (d - 1) rest"
  let ?n = "length (filter out (take d xs))"
  have take: "take d xs = x # ?mid" "drop d xs = ?post" using assms(1) xs by (cases d; simp)+
  have len: "length ?mid = d - 1" using assms(2) xs by simp
  have "length (filter out ?mid) \<le> ?n" using take by simp
  then have p: "fst (pick out ?n ?mid) = filter out ?mid" "snd (pick out ?n ?mid) = filter (\<lambda>y. \<not> out y) ?mid"
    by (simp_all add: pick_sel pick_all)
  have "xs = [x] @ ?mid @ ?post" "[1..<d] = [length [x]..<length [x] + length ?mid]" using xs len assms(1) by simp_all
  then have "snd (fold (bubble out) [1..<d] (?n, xs)) = rev (filter out ?mid) @ x # filter (\<lambda>y. \<not> out y) ?mid @ ?post"
    using bubble_fold [of out "[x]" ?mid ?n ?post] p by simp
  then show ?thesis using take
    by (intro exI [of _ "rev (filter out ?mid) @ (if out x then [x] else [])"]) auto
qed

lemma favour_split:
  assumes "0 < d" "d \<le> length xs" "length (filter out (take d xs)) < dout"
  shows "\<exists>sel os rest. favour_outbound out d dout xs = sel @ os @ filter (\<lambda>x. \<not> out x) (take d xs) @ rest
    \<and> mset os = mset (filter out (take d xs)) \<and> mset sel = mset (take (dout - length (filter out (take d xs))) (filter out (drop d xs)))
    \<and> mset sel + mset rest = mset (drop d xs)"
proof -
  let ?n = "length (filter out (take d xs))"
  obtain os where os: "snd (fold (bubble out) [1..<d] (?n, xs)) = os @ filter (\<lambda>x. \<not> out x) (take d xs) @ drop d xs" "mset os = mset (filter out (take d xs))"
    using bubble_inside [OF assms(1,2)] by blast
  let ?zs = "os @ filter (\<lambda>x. \<not> out x) (take d xs)"
  have "length os = ?n" using os(2) by (metis size_mset)
  then have len: "length ?zs = d" using assms(2) sum_length_filter_compl [of out "take d xs"] by simp
  let ?p = "pick out (dout - ?n) (drop d xs)"
  have lz: "length (os @ filter (\<lambda>x. \<not> out x) (take d xs) @ drop d xs) = length ?zs + length (drop d xs)" by simp
  have "favour_outbound out d dout xs = snd (fold (bubble out) [d..<length ?zs + length (drop d xs)] (dout - ?n, ?zs @ drop d xs @ []))"
    using assms(3) by (simp only: favour_outbound_def Let_def os(1) lz if_True append_assoc append_Nil2)
  also have "\<dots> = rev (fst ?p) @ ?zs @ snd ?p" using bubble_fold [of out ?zs "drop d xs" "dout - ?n" "[]"] len by simp
  finally have "favour_outbound out d dout xs = rev (fst ?p) @ os @ filter (\<lambda>x. \<not> out x) (take d xs) @ snd ?p" by simp
  then show ?thesis using os(2) pick_mset [of out "dout - ?n" "drop d xs"]
    by (intro exI [of _ "rev (fst ?p)"] exI [of _ os] exI [of _ "snd ?p"]) (simp add: pick_sel)
qed

lemma favour_mset:
  assumes "d \<le> length xs"
  shows "mset (favour_outbound out d dout xs) = mset xs"
proof (cases "0 < d \<and> length (filter out (take d xs)) < dout")
  case True
  then obtain sel os rest where f: "favour_outbound out d dout xs = sel @ os @ filter (\<lambda>x. \<not> out x) (take d xs) @ rest"
    "mset os = mset (filter out (take d xs))" "mset sel + mset rest = mset (drop d xs)" using favour_split [OF _ assms] by metis
  have "mset (favour_outbound out d dout xs) = (mset sel + mset rest) + (mset (filter out (take d xs)) + mset (filter (\<lambda>x. \<not> out x) (take d xs)))"
    by (simp add: f(1,2))
  also have "\<dots> = mset (drop d xs) + mset (take d xs)" by (simp add: f(3) flip: multiset_partition)
  also have "\<dots> = mset xs" by (metis append_take_drop_id mset_append union_commute)
  finally show ?thesis .
next
  case False
  have "mset (snd (fold (bubble out) [0..<length xs] (m, xs))) = mset xs" for m
    using bubble_fold [of out "[]" xs m "[]"] pick_mset [of out m xs] by simp
  with False show ?thesis by (auto simp: favour_outbound_def Let_def)
qed

text \<open>The selection keeps its first \<open>k\<close> peers when \<open>k\<close> and the outbound quota fit into it, and has the outbound
  quota or all outbound peers.\<close>

lemma favour_keeps:
  assumes "0 < d" "d \<le> length xs" "k + dout \<le> d"
  shows "set (take k xs) \<subseteq> set (take d (favour_outbound out d dout xs))"
    and "min dout (length (filter out xs)) \<le> length (filter out (take d (favour_outbound out d dout xs)))"
proof -
  let ?n = "length (filter out (take d xs))" and ?ys = "favour_outbound out d dout xs" and ?B = "filter (\<lambda>x. \<not> out x) (take d xs)"
  have all: "length (filter out xs) = ?n + length (filter out (drop d xs))" by (metis append_take_drop_id filter_append length_append)
  have "set (take k xs) \<subseteq> set (take d ?ys) \<and> min dout (length (filter out xs)) \<le> length (filter out (take d ?ys))"
  proof (cases "?n < dout")
    case True
    obtain sel os rest where ys: "?ys = sel @ os @ ?B @ rest" and os: "mset os = mset (filter out (take d xs))"
      and sel: "mset sel = mset (take (dout - ?n) (filter out (drop d xs)))"
      using favour_split [OF assms(1,2) True] by metis
    have len: "length os = ?n" "length sel = min (dout - ?n) (length (filter out (drop d xs)))"
      using os sel by (metis size_mset, metis size_mset length_take min.commute)
    let ?r = "d - length sel - ?n"
    have room: "k \<le> ?r" "length sel + length os \<le> d" using len assms(3) True by auto
    have B: "length ?B = d - ?n" using assms(2) sum_length_filter_compl [of out "take d xs"] by simp
    have td: "take d ?ys = sel @ os @ take ?r ?B" using ys len(1) room(2) B by simp
    have "set (take k xs) \<subseteq> set os \<union> set (take ?r ?B)"
    proof
      fix x
      assume x: "x \<in> set (take k xs)"
      have kd: "k \<le> d" using assms(3) by simp
      show "x \<in> set os \<union> set (take ?r ?B)"
      proof (cases "out x")
        case True
        have "x \<in> set (take d xs)" using x set_take_subset_set_take [OF kd, of xs] by (rule subsetD [rotated])
        then have "x \<in> set_mset (mset os)" using True by (simp add: os)
        then show ?thesis by simp
      next
        case False
        have "take d xs = take k xs @ take (d - k) (drop k xs)" using kd by (metis le_add_diff_inverse take_add)
        then have eq: "?B = filter (\<lambda>x. \<not> out x) (take k xs) @ filter (\<lambda>x. \<not> out x) (take (d - k) (drop k xs))" by simp
        have "length (filter (\<lambda>x. \<not> out x) (take k xs)) \<le> ?r"
          using length_filter_le [of "\<lambda>x. \<not> out x" "take k xs"] room(1) by simp
        then have "set (filter (\<lambda>x. \<not> out x) (take k xs)) \<subseteq> set (take ?r ?B)" by (subst eq) simp
        then show ?thesis using x False by auto
      qed
    qed
    then have "set (take k xs) \<subseteq> set (take d ?ys)" by (auto simp: td)
    moreover have "filter out sel = sel" "filter out os = os"
    proof -
      have "set sel = set (take (dout - ?n) (filter out (drop d xs)))" "set os = set (filter out (take d xs))"
        using sel os by (metis set_mset_mset)+
      then show "filter out sel = sel" "filter out os = os" by (auto simp: filter_id_conv dest: in_set_takeD)
    qed
    then have "length (filter out (take d ?ys)) \<ge> length sel + length os" by (simp add: td)
    then have "min dout (length (filter out xs)) \<le> length (filter out (take d ?ys))" using len all True by simp
    ultimately show ?thesis by blast
  next
    case False
    then have "?ys = xs" by (simp add: favour_outbound_def Let_def)
    then show ?thesis using False assms(3) set_take_subset_set_take [of k d xs] by simp
  qed
  then show "set (take k xs) \<subseteq> set (take d ?ys)" "min dout (length (filter out xs)) \<le> length (filter out (take d ?ys))" by blast+
qed

end
