(* ===== verification/Router_Maintain.thy ===== *)
theory Router_Maintain
  imports Router_Mesh Router_Prefer
begin

text \<open>
  Pruning an overfull mesh, grafting outbound and better peers, and the whole maintenance of one mesh and of all meshes
  in a heartbeat.
\<close>

section \<open>Overfull meshes\<close>

lemma sorted_split:
  fixes f :: "'a \<Rightarrow> real"
  assumes "p \<in> set (take k (sort_key f xs))" "q \<in> set (drop k (sort_key f xs))"
  shows "f p \<le> f q"
proof -
  have "sorted (map f (take k (sort_key f xs) @ drop k (sort_key f xs)))" by simp
  then show ?thesis using assms unfolding map_append sorted_append by auto
qed

lemma rank_peers_spec:
  assumes h: "hb_inv K d prm S h" and sane: "params_sane prm" and big: "mesh_size h bm > Dhi prm"
  shows "yields (rank_peers bm h) (\<lambda>(plst, h'). \<exists>r c xs. h' = h\<lparr>hb := (hb h)\<lparr>rnd := r\<rparr>, scores := c\<rparr> \<and> cache_law S (hb h) c
     \<and> (\<forall>p \<in> set (mesh_of (hb h) bm). c p \<noteq> None) \<and> plst = favour_outbound (outbound (hb h)) (nat (D prm)) (nat (Dout prm)) xs
     \<and> mset xs = mset (mesh_of (hb h) bm) \<and> (\<forall>p \<in> set (take (nat (Dscore prm)) xs). \<forall>q \<in> set (drop (nat (Dscore prm)) xs). S q \<le> S p))"
proof -
  let ?m = "mesh_of (hb h) bm" and ?k = "nat (Dscore prm)"
  have prm: "params (hb h) = prm" and cl: "cache_law S (hb h) (scores h)" using h by (simp_all add: hb_inv_def)
  obtain ys r1 where r1: "hb_range ?m h = (ys, h\<lparr>hb := (hb h)\<lparr>rnd := r1\<rparr>\<rparr>)" "mset ys = mset ?m" using hb_rangeE by blast
  have ys: "set ys = set ?m" "length ys = length ?m" using r1(2) mset_eq_setD mset_eq_length by blast+
  obtain c where c: "score_all ((hb h)\<lparr>rnd := r1\<rparr>) ys (scores h) = Some c" "cache_law S (hb h) c" "\<forall>p. scores h p \<noteq> None \<or> p \<in> set ys \<longleftrightarrow> c p \<noteq> None"
    using score_all_eq [of S "(hb h)\<lparr>rnd := r1\<rparr>" "scores h" ys] cl by auto
  have sc: "score_in c p = S p" if "p \<in> set ?m" for p
  proof -
    have "c p \<noteq> None" using spec [OF c(3), of p] ys(1) that by blast
    then show ?thesis using cache_law_score [OF c(2), of p] by (simp add: score_in_def)
  qed
  let ?zs = "sort_key (\<lambda>p. - score_in c p) ys"
  let ?h = "h\<lparr>hb := (hb h)\<lparr>rnd := r1\<rparr>, scores := c\<rparr>"
  have zs: "mset ?zs = mset ?m" "length ?zs = length ?m" using r1(2) ys(2) by simp_all
  have top: "S q \<le> S p" if "p \<in> set (take ?k ?zs)" "q \<in> set (drop ?k ?zs)" for p q
    using sorted_split [OF that] that sc ys(1) in_set_takeD [OF that(1)] in_set_dropD [OF that(2)] by simp
  have D: "0 \<le> D prm" "D prm \<le> int (length ?m)" "0 \<le> Dscore prm" using sane big by (auto simp: params_sane_def mesh_size_def prm)
  obtain ws r2 where r2: "hb_range (drop ?k ?zs) ?h = (ws, ?h\<lparr>hb := (hb ?h)\<lparr>rnd := r2\<rparr>\<rparr>)" "mset ws = mset (drop ?k ?zs)"
    using hb_rangeE by blast
  let ?xs = "if int (length ?zs) > Dscore prm then take ?k ?zs @ ws else ?zs"
  let ?r = "if int (length ?zs) > Dscore prm then r2 else r1"
  have xs: "mset ?xs = mset ?m"
  proof (cases "int (length ?zs) > Dscore prm")
    case True
    have "mset (take ?k ?zs @ ws) = mset (take ?k ?zs @ drop ?k ?zs)" by (simp only: mset_append r2(2))
    then show ?thesis using zs(1) True by simp
  qed (use zs in simp)
  have len: "length ?xs = length ?m" using xs by (rule mset_eq_length)
  have tk: "take ?k ?xs = take ?k ?zs \<and> set (drop ?k ?xs) = set (drop ?k ?zs)"
    using mset_eq_setD [OF r2(2)] by (auto simp: nat_le_iff)
  have eval: "rank_peers bm h = Some (favour_outbound (outbound (hb h)) (nat (D prm)) (nat (Dout prm)) ?xs, h\<lparr>hb := (hb h)\<lparr>rnd := ?r\<rparr>, scores := c\<rparr>)"
  proof (cases "int (length ?zs) > Dscore prm")
    case True
    then have t: "go_take (Dscore prm) ?zs = Some (take ?k ?zs)" "length (take ?k ?zs) = ?k" using D by (auto simp: go_take_def)
    have g: "go_take (D prm) (take ?k ?zs @ ws) = Some (take (nat (D prm)) (take ?k ?zs @ ws))" using D len True by (simp add: go_take_def)
    show ?thesis using True D r2(1) unfolding rank_peers_def r1(1)
      by (simp add: c(1) prm t(1) t(2) [unfolded length_take] g)
  next
    case False
    then have g: "go_take (D prm) ?zs = Some (take (nat (D prm)) ?zs)" using D len by (simp add: go_take_def)
    show ?thesis using False unfolding rank_peers_def r1(1) by (simp add: c(1) prm g)
  qed
  have "\<forall>p \<in> set (take ?k ?xs). \<forall>q \<in> set (drop ?k ?xs). S q \<le> S p" using tk top by simp
  moreover have "\<forall>p \<in> set ?m. c p \<noteq> None" using c(3) ys(1) by auto
  ultimately show ?thesis unfolding eval yields_Some prod.case using c(2) xs
    by (intro exI [of _ ?r] exI [of _ c] exI [of _ ?xs] conjI refl) blast+
qed


lemma prune_fold:
  assumes "hb_inv K d prm S h" "bm \<in> K" "\<forall>p \<in> set ps. scores h p \<noteq> None"
  shows "yields (fold_opt (prunePeer bm now) ps h) (\<lambda>h'. stage K d prm S now bm h h' \<and> mesh_of (hb h') bm = filter (\<lambda>p. p \<notin> set ps) (mesh_of (hb h) bm))"
  using assms(1,3)
proof (induction ps arbitrary: h)
  case (Cons p ps)
  have "yields (prunePeer bm now p h) (\<lambda>h1. yields (fold_opt (prunePeer bm now) ps h1)
     (\<lambda>h'. stage K d prm S now bm h h' \<and> mesh_of (hb h') bm = filter (\<lambda>q. q \<notin> set (p # ps)) (mesh_of (hb h) bm)))"
  proof (rule yields_mono [OF prunePeer_step [OF Cons.prems(1) assms(2)]])
    show "scores h p \<noteq> None" using Cons.prems(2) by simp
    fix h1
    assume h1: "hb_inv K d prm S h1 \<and> hb_step now bm (hb h) (hb h1) \<and> scores h1 = scores h \<and> mesh_of (hb h1) bm = removeAll p (mesh_of (hb h) bm)"
    then have st: "stage K d prm S now bm h h1" by (simp add: stage_def)
    have eq: "filter (\<lambda>q. q \<notin> set ps) (mesh_of (hb h1) bm) = filter (\<lambda>q. q \<notin> set (p # ps)) (mesh_of (hb h) bm)"
      using h1 by (auto simp: removeAll_filter_not_eq filter_filter intro!: filter_cong)
    show "yields (fold_opt (prunePeer bm now) ps h1)
     (\<lambda>h'. stage K d prm S now bm h h' \<and> mesh_of (hb h') bm = filter (\<lambda>q. q \<notin> set (p # ps)) (mesh_of (hb h) bm))"
      by (rule yields_mono [OF Cons.IH]) (use h1 st eq Cons.prems(2) stage_trans in auto)
  qed
  then show ?case by simp
qed (simp add: stage_refl)

text \<open>What an overfull mesh \<open>old\<close> is cut down to: \<open>D\<close> peers, among them the best \<open>Dscore\<close> by score and the outbound quota.\<close>

definition good_cut :: "BlossomSubParams \<Rightarrow> (peer_id \<Rightarrow> real) \<Rightarrow> (peer_id \<Rightarrow> bool) \<Rightarrow> peer_id list \<Rightarrow> peer_id list \<Rightarrow> bool" where
  "good_cut prm S out old new \<longleftrightarrow> int (length new) = D prm \<and> set new \<subseteq> set old
     \<and> (0 \<le> Dout prm \<and> Dscore prm + Dout prm \<le> D prm \<longrightarrow>
          (\<exists>T \<subseteq> set new. int (card T) = Dscore prm \<and> (\<forall>p \<in> T. \<forall>q \<in> set old - T. S q \<le> S p))
          \<and> min (Dout prm) (int (length (filter out old))) \<le> int (length (filter out new)))"

lemma good_cutI:
  assumes old: "distinct old" and xs: "mset xs = mset old" and d: "0 \<le> D prm" "D prm \<le> int (length old)" "0 \<le> Dscore prm"
    and top: "\<forall>p \<in> set (take (nat (Dscore prm)) xs). \<forall>q \<in> set (drop (nat (Dscore prm)) xs). S q \<le> S p"
    and plst: "plst = favour_outbound out (nat (D prm)) (nat (Dout prm)) xs"
    and new: "new = filter (\<lambda>p. p \<notin> set (drop (nat (D prm)) plst)) old"
  shows "good_cut prm S out old new"
proof -
  let ?d = "nat (D prm)" and ?k = "nat (Dscore prm)"
  have len: "length xs = length old" using xs by (rule mset_eq_length)
  then have dl: "?d \<le> length xs" using d by simp
  have pm: "mset plst = mset old" using favour_mset [OF dl, of out "nat (Dout prm)"] xs plst by simp
  have dist: "distinct plst" "distinct xs" using old mset_eq_imp_distinct_iff [OF pm] mset_eq_imp_distinct_iff [OF xs] by simp_all
  have sets: "set plst = set old" "set xs = set old" "length plst = length old" using pm xs mset_eq_setD mset_eq_length by blast+
  have tk: "set new = set (take ?d plst)"
  proof -
    have "set plst = set (take ?d plst) \<union> set (drop ?d plst)" by (metis append_take_drop_id set_append)
    moreover have "set (take ?d plst) \<inter> set (drop ?d plst) = {}" using dist(1) by (metis append_take_drop_id distinct_append)
    ultimately show ?thesis using sets(1) by (auto simp: new)
  qed
  have dn: "distinct new" "distinct (take ?d plst)" using old dist(1) by (simp_all add: new)
  have ln: "length (filter P new) = length (filter P (take ?d plst))" for P
  proof -
    have "length (filter P new) = card (set (filter P new))" using dn(1) by (simp add: distinct_card del: set_filter)
    also have "\<dots> = card (set (filter P (take ?d plst)))" using tk by simp
    also have "\<dots> = length (filter P (take ?d plst))" using dn(2) by (simp add: distinct_card del: set_filter)
    finally show ?thesis .
  qed
  have 1: "int (length new) = D prm" using ln [of "\<lambda>_. True"] sets(3) d by simp
  have 2: "(\<exists>T \<subseteq> set new. int (card T) = Dscore prm \<and> (\<forall>p \<in> T. \<forall>q \<in> set old - T. S q \<le> S p))
          \<and> min (Dout prm) (int (length (filter out old))) \<le> int (length (filter out new))" if quota: "0 \<le> Dout prm" "Dscore prm + Dout prm \<le> D prm"
  proof (cases "0 < ?d")
    case True
    have kd: "?k + nat (Dout prm) \<le> ?d" using quota d by simp
    note keeps = favour_keeps [OF True dl kd, of out, folded plst]
    have "?k \<le> length xs" using kd dl by simp
    then have card: "card (set (take ?k xs)) = ?k" using dist(2) by (simp add: distinct_card)
    have "q \<in> set (drop ?k xs)" if "q \<in> set old - set (take ?k xs)" for q
    proof -
      have "set old = set (take ?k xs) \<union> set (drop ?k xs)" using sets(2) by (metis append_take_drop_id set_append)
      then show ?thesis using that by blast
    qed
    then have "\<forall>p \<in> set (take ?k xs). \<forall>q \<in> set old - set (take ?k xs). S q \<le> S p" using top by blast
    moreover have "int (card (set (take ?k xs))) = Dscore prm" "set (take ?k xs) \<subseteq> set new" using card d(3) keeps(1) tk by simp_all
    ultimately have "\<exists>T \<subseteq> set new. int (card T) = Dscore prm \<and> (\<forall>p \<in> T. \<forall>q \<in> set old - T. S q \<le> S p)" by blast
    moreover have "mset (filter out xs) = mset (filter out old)" using xs by simp
    then have "length (filter out xs) = length (filter out old)" by (rule mset_eq_length)
    with keeps(2) have "min (nat (Dout prm)) (length (filter out old)) \<le> length (filter out new)" by (simp add: ln)
    then have "min (Dout prm) (int (length (filter out old))) \<le> int (length (filter out new))" using quota by linarith
    ultimately show ?thesis by blast
  next
    case False
    then have "D prm = 0" "Dscore prm = 0" "Dout prm = 0" using d quota by auto
    then have "{} \<subseteq> set new \<and> int (card {}) = Dscore prm \<and> (\<forall>p \<in> {}. \<forall>q \<in> set old - {}. S q \<le> S p)" by simp
    moreover have "min (Dout prm) (int (length (filter out old))) \<le> int (length (filter out new))" using \<open>Dout prm = 0\<close> by simp
    ultimately show ?thesis by blast
  qed
  have 3: "set new \<subseteq> set old" by (auto simp: new)
  show ?thesis unfolding good_cut_def using 1 2 3 by blast
qed

lemma prune_excess_stage:
  assumes h: "hb_inv K d prm S h" and bm: "bm \<in> K" and sane: "params_sane prm"
  shows "yields (prune_excess bm now h) (\<lambda>h'. stage K d prm S now bm h h' \<and> set (mesh_of (hb h') bm) \<subseteq> set (mesh_of (hb h) bm)
     \<and> mesh_size h' bm \<le> Dhi prm \<and> (mesh_size h bm > Dhi prm \<longrightarrow> good_cut prm S (outbound (hb h)) (mesh_of (hb h) bm) (mesh_of (hb h') bm)))"
proof (cases "mesh_size h bm > Dhi prm")
  case True
  have prm: "params (hb h) = prm" and ok: "rt_ok (hb h)" using h by (simp_all add: hb_inv_def)
  let ?m = "mesh_of (hb h) bm"
  have D: "0 \<le> D prm" "D prm \<le> Dhi prm" "0 \<le> Dscore prm" "D prm \<le> int (length ?m)" using sane True by (auto simp: params_sane_def mesh_size_def)
  have "yields (rank_peers bm h) (\<lambda>x. yields (fold_opt (prunePeer bm now) (drop (nat (D (params (hb (snd x))))) (fst x)) (snd x))
     (\<lambda>h'. stage K d prm S now bm h h' \<and> set (mesh_of (hb h') bm) \<subseteq> set ?m \<and> mesh_size h' bm \<le> Dhi prm
       \<and> good_cut prm S (outbound (hb h)) ?m (mesh_of (hb h') bm)))"
  proof (rule yields_mono [OF rank_peers_spec [OF h sane True]])
    fix x
    assume "case x of (plst, h') \<Rightarrow> \<exists>r c xs. h' = h\<lparr>hb := (hb h)\<lparr>rnd := r\<rparr>, scores := c\<rparr> \<and> cache_law S (hb h) c
     \<and> (\<forall>p \<in> set ?m. c p \<noteq> None) \<and> plst = favour_outbound (outbound (hb h)) (nat (D prm)) (nat (Dout prm)) xs
     \<and> mset xs = mset ?m \<and> (\<forall>p \<in> set (take (nat (Dscore prm)) xs). \<forall>q \<in> set (drop (nat (Dscore prm)) xs). S q \<le> S p)"
    then obtain r c xs where x: "snd x = h\<lparr>hb := (hb h)\<lparr>rnd := r\<rparr>, scores := c\<rparr>" and c: "cache_law S (hb h) c" "\<forall>p \<in> set ?m. c p \<noteq> None"
      and plst: "fst x = favour_outbound (outbound (hb h)) (nat (D prm)) (nat (Dout prm)) xs" and xs: "mset xs = mset ?m"
      and top: "\<forall>p \<in> set (take (nat (Dscore prm)) xs). \<forall>q \<in> set (drop (nat (Dscore prm)) xs). S q \<le> S p" by (cases x) auto
    have inv: "hb_inv K d prm S (snd x)" using h c(1) by (simp add: x hb_inv_def)
    have len: "nat (D prm) \<le> length xs" using D mset_eq_length [OF xs] by simp
    have "mset (fst x) = mset ?m" using favour_mset [OF len] xs by (simp add: plst)
    then have "set (fst x) = set ?m" by (rule mset_eq_setD)
    then have cached: "\<forall>p \<in> set (drop (nat (D prm)) (fst x)). scores (snd x) p \<noteq> None" using c(2) in_set_dropD by (fastforce simp: x)
    have st: "stage K d prm S now bm h h'" if "stage K d prm S now bm (snd x) h'" for h' using that by (simp add: x stage_def hb_step_def)
    have m: "mesh_of (hb (snd x)) bm = ?m" by (simp add: x)
    have dist: "distinct ?m" using mesh_of_ok(1) [OF ok, of bm] by blast
    have cut: "good_cut prm S (outbound (hb h)) ?m (filter (\<lambda>p. p \<notin> set (drop (nat (D prm)) (fst x))) ?m)"
      by (rule good_cutI [OF dist xs D(1,4,3) top plst refl])
    show "yields (fold_opt (prunePeer bm now) (drop (nat (D (params (hb (snd x))))) (fst x)) (snd x))
     (\<lambda>h'. stage K d prm S now bm h h' \<and> set (mesh_of (hb h') bm) \<subseteq> set ?m \<and> mesh_size h' bm \<le> Dhi prm
       \<and> good_cut prm S (outbound (hb h)) ?m (mesh_of (hb h') bm))"
    proof -
      have "params (hb (snd x)) = prm" by (simp add: x prm)
      then have "yields (fold_opt (prunePeer bm now) (drop (nat (D prm)) (fst x)) (snd x)) (\<lambda>h'. stage K d prm S now bm h h'
          \<and> mesh_of (hb h') bm = filter (\<lambda>p. p \<notin> set (drop (nat (D prm)) (fst x))) ?m)"
        by (intro yields_mono [OF prune_fold [OF inv bm cached]]) (simp add: st m)
      then show ?thesis unfolding \<open>params (hb (snd x)) = prm\<close>
      proof (rule yields_mono)
        fix h'
        assume h': "stage K d prm S now bm h h' \<and> mesh_of (hb h') bm = filter (\<lambda>p. p \<notin> set (drop (nat (D prm)) (fst x))) ?m"
        have "int (length (mesh_of (hb h') bm)) = D prm" using h' cut unfolding good_cut_def by simp
        then show "stage K d prm S now bm h h' \<and> set (mesh_of (hb h') bm) \<subseteq> set ?m \<and> mesh_size h' bm \<le> Dhi prm
            \<and> good_cut prm S (outbound (hb h)) ?m (mesh_of (hb h') bm)"
          using h' cut D(2) by (simp add: mesh_size_def)
      qed
    qed
  qed
  then show ?thesis using True prm by (simp add: prune_excess_def case_prod_unfold)
next
  case False
  then show ?thesis using h by (simp add: prune_excess_def hb_inv_def [of K d prm S h] stage_refl [OF h])
qed


section \<open>One mesh\<close>

definition clean :: "(peer_id \<Rightarrow> real) \<Rightarrow> bitmask \<Rightarrow> heartbeat_st \<Rightarrow> bool" where
  "clean S bm h \<longleftrightarrow> (\<forall>p \<in> set (mesh_of (hb h) bm). 0 \<le> S p)"

lemma graft_missing_stage:
  assumes "hb_inv K d prm S h" "bm \<in> K" "clean S bm h"
  shows "yields (graft_missing bm now h) (\<lambda>h'. stage K d prm S now bm h h' \<and> clean S bm h')"
proof -
  have "yields (graft_more bm now n (\<lambda>_. True) (\<lambda>x. x \<ge> 0) h) (\<lambda>h'. stage K d prm S now bm h h' \<and> clean S bm h')" for n
    by (rule yields_mono [OF graft_more_stage [OF assms(1,2)]]) (use assms(3) in \<open>auto simp: clean_def\<close>)
  then show ?thesis using assms by (simp add: graft_missing_def stage_refl)
qed

lemma graft_outbound_stage:
  assumes "hb_inv K d prm S h" "bm \<in> K" "clean S bm h" "mesh_size h bm \<le> Dhi prm"
  shows "yields (graft_outbound bm now h) (\<lambda>h'. stage K d prm S now bm h h' \<and> clean S bm h' \<and> mesh_size h' bm \<le> Dhi prm + max 0 (Dout prm))"
proof -
  let ?n = "int (length (filter (outbound (hb h)) (mesh_of (hb h) bm)))"
  have prm: "params (hb h) = prm" using assms(1) by (simp add: hb_inv_def)
  have "yields (graft_more bm now (Dout prm - ?n) (outbound (hb h)) (\<lambda>x. x \<ge> 0) h)
     (\<lambda>h'. stage K d prm S now bm h h' \<and> clean S bm h' \<and> mesh_size h' bm \<le> Dhi prm + max 0 (Dout prm))" if "?n < Dout prm"
    by (rule yields_mono [OF graft_more_stage [OF assms(1,2)]]) (use assms(3,4) that in \<open>auto simp: clean_def mesh_size_def\<close>)
  moreover have "mesh_size h bm \<le> Dhi prm + max 0 (Dout prm)" using assms(4) by linarith
  ultimately show ?thesis using assms(1-3) prm by (simp add: graft_outbound_def stage_refl Let_def)
qed

lemma graft_opportunistic_stage:
  assumes h: "hb_inv K d prm S h" and bm: "bm \<in> K" and cl: "clean S bm h" and sane: "params_sane prm"
  shows "yields (graft_opportunistic bm now h) (\<lambda>h'. stage K d prm S now bm h h' \<and> clean S bm h'
     \<and> (0 < OpportunisticGraftPeers prm \<longrightarrow> mesh_size h' bm \<le> mesh_size h bm + OpportunisticGraftPeers prm))"
proof -
  let ?m = "mesh_of (hb h) bm"
  have prm: "params (hb h) = prm" and cache: "cache_law S (hb h) (scores h)" using h by (simp_all add: hb_inv_def)
  obtain ys r where r: "hb_range ?m h = (ys, h\<lparr>hb := (hb h)\<lparr>rnd := r\<rparr>\<rparr>)" "mset ys = mset ?m" using hb_rangeE by blast
  have ys: "set ys = set ?m" "length ys = length ?m" using r(2) mset_eq_setD mset_eq_length by blast+
  obtain c where c: "score_all ((hb h)\<lparr>rnd := r\<rparr>) ys (scores h) = Some c" "cache_law S (hb h) c" "\<forall>p. scores h p \<noteq> None \<or> p \<in> set ys \<longleftrightarrow> c p \<noteq> None"
    using score_all_eq [of S "(hb h)\<lparr>rnd := r\<rparr>" "scores h" ys] cache by auto
  let ?med = "score_in c (sort_key (score_in c) ys ! (length ?m div 2))"
  let ?h = "h\<lparr>hb := (hb h)\<lparr>rnd := r\<rparr>, scores := c\<rparr>"
  have inv: "hb_inv K d prm S ?h" using h c(2) by (simp add: hb_inv_def)
  have st: "stage K d prm S now bm h h'" if "stage K d prm S now bm ?h h'" for h' using that by (simp add: stage_def hb_step_def)
  have med: "0 \<le> ?med" if "mesh_size h bm > 1"
  proof -
    let ?p = "sort_key (score_in c) ys ! (length ?m div 2)"
    have "?p \<in> set (sort_key (score_in c) ys)" using that ys(2) by (intro nth_mem) (simp add: mesh_size_def)
    then have p: "?p \<in> set ?m" using ys(1) by simp
    then have "c ?p \<noteq> None" using spec [OF c(3), of ?p] ys(1) by blast
    then have "score_in c ?p = S ?p" using cache_law_score [OF c(2), of ?p] by (simp add: score_in_def)
    then show ?thesis using cl p by (simp add: clean_def)
  qed
  have "yields (graft_more bm now (OpportunisticGraftPeers prm) (\<lambda>_. True) (\<lambda>x. x > ?med) ?h) (\<lambda>h'. stage K d prm S now bm h h' \<and> clean S bm h'
     \<and> (0 < OpportunisticGraftPeers prm \<longrightarrow> mesh_size h' bm \<le> mesh_size h bm + OpportunisticGraftPeers prm))" if "mesh_size h bm > 1"
    by (rule yields_mono [OF graft_more_stage [OF inv bm]]) (use med [OF that] cl st in \<open>fastforce simp: clean_def mesh_size_def\<close>)
  moreover have "stage K d prm S now bm h ?h" "clean S bm ?h" "mesh_size ?h bm = mesh_size h bm"
    using st [OF stage_refl [OF inv]] cl by (simp_all add: clean_def mesh_size_def)
  moreover have "OpportunisticGraftTicks prm \<noteq> 0" using sane by (simp add: params_sane_def)
  ultimately show ?thesis using cl stage_refl [OF h, of now bm]
    by (simp add: graft_opportunistic_def r(1) c(1) prm ys(2) Let_def)
qed

lemma gossip_stage:
  assumes "hb_inv K d prm S h"
  shows "yields (emitGossip b ex (hb h)) (\<lambda>s. stage K d prm S now bm h (h\<lparr>hb := s\<rparr>) \<and> mesh_of s = mesh_of (hb h))"
proof (rule yields_mono [OF emitGossip_rt])
  show "rt_ok (hb h)" using assms by (simp add: hb_inv_def)
  fix s
  assume s: "rt_ok s \<and> gossips (hb h) s"
  then obtain g r where gr: "s = (hb h)\<lparr>gossip := g, rnd := r\<rparr>" by (auto simp: gossips_def)
  then have "mesh_of s = mesh_of (hb h)" by (simp add: fun_eq_iff mesh_of_def)
  then show "stage K d prm S now bm h (h\<lparr>hb := s\<rparr>) \<and> mesh_of s = mesh_of (hb h)"
    using assms s gr by (simp add: stage_def hb_inv_def hb_step_def)
qed

text \<open>After its maintenance a mesh has no peer of negative score and at most \<open>Dhi\<close> peers besides those grafted as
  outbound or opportunistically; every peer that left it is backed off.\<close>

definition mesh_max :: "BlossomSubParams \<Rightarrow> int" where
  "mesh_max prm = Dhi prm + max 0 (Dout prm) + OpportunisticGraftPeers prm"

lemma maintain_mesh_stage:
  assumes h: "hb_inv K d prm S h" and bm: "bm \<in> K" and sane: "params_sane prm"
  shows "yields (maintain_mesh now bm h) (\<lambda>h'. stage K d prm S now bm h h' \<and> clean S bm h'
     \<and> (0 < OpportunisticGraftPeers prm \<longrightarrow> mesh_size h' bm \<le> mesh_max prm))"
proof -
  let ?st = "stage K d prm S now bm"
  have 1: "yields (drop_negative bm now h) (\<lambda>h'. ?st h h' \<and> clean S bm h')"
    by (rule yields_mono [OF drop_negative_stage [OF h bm]]) (simp add: clean_def)
  have 2: "yields (graft_missing bm now a) (\<lambda>h'. ?st h h' \<and> clean S bm h')" if "?st h a \<and> clean S bm a" for a
    by (rule yields_mono [OF graft_missing_stage]) (use that bm stage_trans stage_inv in blast)+
  have 3: "yields (prune_excess bm now a) (\<lambda>h'. ?st h h' \<and> clean S bm h' \<and> mesh_size h' bm \<le> Dhi prm)" if "?st h a \<and> clean S bm a" for a
    by (rule yields_mono [OF prune_excess_stage]) (use that bm sane stage_trans stage_inv in \<open>(unfold clean_def)?, blast\<close>)+
  have 4: "yields (graft_outbound bm now a) (\<lambda>h'. ?st h h' \<and> clean S bm h' \<and> mesh_size h' bm \<le> Dhi prm + max 0 (Dout prm))"
    if "?st h a \<and> clean S bm a \<and> mesh_size a bm \<le> Dhi prm" for a
    by (rule yields_mono [OF graft_outbound_stage]) (use that bm stage_trans stage_inv in blast)+
  have 5: "yields (graft_opportunistic bm now a) (\<lambda>h'. ?st h h' \<and> clean S bm h' \<and> (0 < OpportunisticGraftPeers prm \<longrightarrow> mesh_size h' bm \<le> mesh_max prm))"
    if a: "?st h a \<and> clean S bm a \<and> mesh_size a bm \<le> Dhi prm + max 0 (Dout prm)" for a
  proof (rule yields_mono [OF graft_opportunistic_stage])
    show "hb_inv K d prm S a" "bm \<in> K" "clean S bm a" "params_sane prm" using a bm sane stage_inv by blast+
    fix h'
    assume h': "?st a h' \<and> clean S bm h' \<and> (0 < OpportunisticGraftPeers prm \<longrightarrow> mesh_size h' bm \<le> mesh_size a bm + OpportunisticGraftPeers prm)"
    then show "?st h h' \<and> clean S bm h' \<and> (0 < OpportunisticGraftPeers prm \<longrightarrow> mesh_size h' bm \<le> mesh_max prm)"
      using a stage_trans by (auto simp: mesh_max_def)
  qed
  have 6: "yields (emitGossip bm (mesh_of (hb a) bm) (hb a)) (\<lambda>s. ?st h (a\<lparr>hb := s\<rparr>) \<and> clean S bm (a\<lparr>hb := s\<rparr>)
     \<and> (0 < OpportunisticGraftPeers prm \<longrightarrow> mesh_size (a\<lparr>hb := s\<rparr>) bm \<le> mesh_max prm))"
    if a: "?st h a \<and> clean S bm a \<and> (0 < OpportunisticGraftPeers prm \<longrightarrow> mesh_size a bm \<le> mesh_max prm)" for a
    by (rule yields_mono [OF gossip_stage [OF stage_inv]]) (use a stage_trans in \<open>auto simp: clean_def mesh_size_def\<close>)
  show ?thesis unfolding maintain_mesh_def yields_bind yields_Some
    by (rule yields_mono [OF 1], rule yields_mono [OF 2], assumption, rule yields_mono [OF 3], assumption,
        rule yields_mono [OF 4], assumption, rule yields_mono [OF 5], assumption, rule 6)
qed

end
