(* ===== verification/Router_Beat.thy ===== *)
theory Router_Beat
  imports Router_Maintain
begin

text \<open>
  The whole heartbeat of the router (src/go-libp2p-blossomsub/blossomsub.go, \<open>heartbeat\<close>): the meshes one after another, the fanout
  peers, the GRAFT and PRUNE messages that follow, the pending gossip, and the shift of the message cache. The heartbeat cannot
  panic, keeps the router's invariant, and leaves every mesh tidy.
\<close>

section \<open>All meshes\<close>

definition backed_for :: "time \<Rightarrow> router \<Rightarrow> bitmask \<Rightarrow> peer_id \<Rightarrow> bool" where
  "backed_for t s bm p \<longleftrightarrow> (\<exists>t'. prune_backoff s bm p = Some t' \<and> t \<le> t')"

definition tidy :: "(peer_id \<Rightarrow> real) \<Rightarrow> time \<Rightarrow> router \<Rightarrow> router \<Rightarrow> bitmask \<Rightarrow> bool" where
  "tidy S now s s' bm \<longleftrightarrow> (\<forall>p \<in> set (mesh_of s' bm). 0 \<le> S p)
     \<and> (0 < OpportunisticGraftPeers (params s) \<longrightarrow> int (length (mesh_of s' bm)) \<le> mesh_max (params s))
     \<and> (\<forall>p \<in> set (mesh_of s bm) - set (mesh_of s' bm). backed_for (now + PruneBackoff (params s)) s' bm p)"

lemma backed_grown: "grown (prune_backoff s) (prune_backoff s') \<Longrightarrow> backed_for t s bm p \<Longrightarrow> backed_for t s' bm p"
  unfolding backed_for_def grown_def by (meson order.trans)

lemma tidy_later: "tidy S now s a bm \<Longrightarrow> mesh_of b bm = mesh_of a bm \<Longrightarrow> grown (prune_backoff a) (prune_backoff b) \<Longrightarrow> tidy S now s b bm"
  using backed_grown by (simp add: tidy_def)

lemma tidy_earlier: "tidy S now a b bm \<Longrightarrow> mesh_of s bm = mesh_of a bm \<Longrightarrow> params a = params s \<Longrightarrow> tidy S now s b bm"
  by (simp add: tidy_def)

lemma maintain_mesh_tidy:
  assumes "hb_inv K d prm S h" "bm \<in> K" "params_sane prm"
  shows "yields (maintain_mesh now bm h) (\<lambda>h'. stage K d prm S now bm h h' \<and> tidy S now (hb h) (hb h') bm)"
proof (rule yields_mono [OF maintain_mesh_stage [OF assms]])
  fix h'
  assume *: "stage K d prm S now bm h h' \<and> clean S bm h' \<and> (0 < OpportunisticGraftPeers prm \<longrightarrow> mesh_size h' bm \<le> mesh_max prm)"
  then have "hb_step now bm (hb h) (hb h')" by (simp add: stage_def)
  then have "\<forall>p \<in> set (mesh_of (hb h) bm) - set (mesh_of (hb h') bm). backed_for (now + PruneBackoff (params (hb h))) (hb h') bm p"
    unfolding backed_for_def using hb_stepD(4) by blast
  moreover have "params (hb h) = prm" using assms(1) by (simp add: hb_inv_def)
  ultimately show "stage K d prm S now bm h h' \<and> tidy S now (hb h) (hb h') bm"
    using * by (simp add: tidy_def clean_def mesh_size_def)
qed

lemma maintain_all:
  assumes "hb_inv K d prm S h" "set bms \<subseteq> K" "distinct bms" "params_sane prm"
  shows "yields (fold_opt (maintain_mesh now) bms h) (\<lambda>h'. hb_inv K d prm S h' \<and> grown (prune_backoff (hb h)) (prune_backoff (hb h'))
     \<and> (\<forall>b. b \<notin> set bms \<longrightarrow> mesh_of (hb h') b = mesh_of (hb h) b) \<and> (\<forall>b \<in> set bms. tidy S now (hb h) (hb h') b))"
  using assms(1-3)
proof (induction bms arbitrary: h)
  case (Cons bm bms)
  have "bm \<in> K" using Cons.prems(2) by simp
  note m = maintain_mesh_tidy [OF Cons.prems(1) this assms(4), of now]
  show ?case unfolding fold_opt.simps yields_bind
  proof (rule yields_mono [OF m])
    fix a
    assume a: "stage K d prm S now bm h a \<and> tidy S now (hb h) (hb a) bm"
    then have inv: "hb_inv K d prm S a" and st: "hb_step now bm (hb h) (hb a)" by (simp_all add: stage_def)
    have IH: "yields (fold_opt (maintain_mesh now) bms a) (\<lambda>h'. hb_inv K d prm S h' \<and> grown (prune_backoff (hb a)) (prune_backoff (hb h'))
     \<and> (\<forall>b. b \<notin> set bms \<longrightarrow> mesh_of (hb h') b = mesh_of (hb a) b) \<and> (\<forall>b \<in> set bms. tidy S now (hb a) (hb h') b))"
      using Cons.prems by (intro Cons.IH inv) auto
    show "yields (fold_opt (maintain_mesh now) bms a) (\<lambda>h'. hb_inv K d prm S h' \<and> grown (prune_backoff (hb h)) (prune_backoff (hb h'))
     \<and> (\<forall>b. b \<notin> set (bm # bms) \<longrightarrow> mesh_of (hb h') b = mesh_of (hb h) b) \<and> (\<forall>b \<in> set (bm # bms). tidy S now (hb h) (hb h') b))"
    proof (rule yields_mono [OF IH], intro conjI allI ballI impI)
      fix c
      assume c: "hb_inv K d prm S c \<and> grown (prune_backoff (hb a)) (prune_backoff (hb c))
     \<and> (\<forall>b. b \<notin> set bms \<longrightarrow> mesh_of (hb c) b = mesh_of (hb a) b) \<and> (\<forall>b \<in> set bms. tidy S now (hb a) (hb c) b)"
      then show "hb_inv K d prm S c" by blast
      show "grown (prune_backoff (hb h)) (prune_backoff (hb c))" using c hb_stepD(2) [OF st] grown_trans by blast
      show "mesh_of (hb c) b = mesh_of (hb h) b" if b: "b \<notin> set (bm # bms)" for b
        using c hb_stepD(1) [OF st, of b] b by simp
      show "tidy S now (hb h) (hb c) b" if b: "b \<in> set (bm # bms)" for b
      proof (cases "b = bm")
        case True
        then show ?thesis using a c Cons.prems(3) tidy_later by auto
      next
        case False
        then have "tidy S now (hb a) (hb c) b" using b c by auto
        then show ?thesis by (rule tidy_earlier) (use hb_stepD(1,3) [OF st] False in auto)
      qed
    qed
  qed
qed simp


section \<open>Fanout\<close>

definition same_mesh :: "router \<Rightarrow> router \<Rightarrow> bool" where
  "same_mesh s s' \<longleftrightarrow> mesh s' = mesh s \<and> prune_backoff s' = prune_backoff s \<and> params s' = params s \<and> direct s' = direct s"

lemma same_mesh_refl [simp]: "same_mesh s s"
  by (simp add: same_mesh_def)

lemma same_mesh_trans: "same_mesh a b \<Longrightarrow> same_mesh b c \<Longrightarrow> same_mesh a c"
  by (simp add: same_mesh_def)

lemma sends_same: "sends s s' \<Longrightarrow> same_mesh s s'"
  by (auto simp: sends_def same_mesh_def)

lemma same_mesh_of: "same_mesh s s' \<Longrightarrow> mesh_of s' = mesh_of s"
  by (simp add: same_mesh_def mesh_of_def fun_eq_iff)

lemma mesh_inv_shrink:
  "mesh_inv m f l d \<Longrightarrow> peer_map_ok d f' \<Longrightarrow> fst ` set f' \<subseteq> fst ` set f \<inter> X \<Longrightarrow> dom l \<inter> X \<subseteq> dom l' \<Longrightarrow> mesh_inv m f' l' d"
proof -
  have sets: "M \<inter> F = {} \<Longrightarrow> F \<subseteq> L \<Longrightarrow> F' \<subseteq> F \<inter> X \<Longrightarrow> L \<inter> X \<subseteq> L' \<Longrightarrow> M \<inter> F' = {} \<and> F' \<subseteq> L'" for M F F' L L' :: "bitmask set"
    by blast
  assume "mesh_inv m f l d" "peer_map_ok d f'" "fst ` set f' \<subseteq> fst ` set f \<inter> X" "dom l \<inter> X \<subseteq> dom l'"
  then show ?thesis using sets [of "fst ` set m" "fst ` set f" "dom l" "fst ` set f'" "dom l'"] by (simp add: mesh_inv_def)
qed

lemma expire_fanout_rt: "rt_ok s \<Longrightarrow> rt_ok (expire_fanout now s)" "same_mesh s (expire_fanout now s)" "PeerScore (expire_fanout now s) = PeerScore s"
proof -
  assume ok: "rt_ok s"
  let ?s = "expire_fanout now s"
  let ?old = "\<lambda>bm. case lastpub s bm of None \<Rightarrow> False | Some t \<Rightarrow> t + FanoutTTL (params s) < now"
  have m: "mesh_inv (mesh s) (fanout s) (lastpub s) (direct s)" using ok by (rule rt_okD(1))
  have f: "fanout ?s = filter (\<lambda>(bm, ps). \<not> ?old bm) (fanout s)" "lastpub ?s = (\<lambda>bm. if ?old bm then None else lastpub s bm)"
    by (simp_all add: expire_fanout_def Let_def)
  have "fst ` set (fanout ?s) \<subseteq> fst ` set (fanout s) \<inter> {bm. \<not> ?old bm}" unfolding f by auto
  moreover have "dom (lastpub s) \<inter> {bm. \<not> ?old bm} \<subseteq> dom (lastpub ?s)" unfolding f by (rule subsetI) (simp add: domIff)
  moreover have "peer_map_ok (direct s) (fanout ?s)" unfolding f(1) using m by (intro peer_map_ok_filter) (simp add: mesh_inv_def)
  ultimately have "mesh_inv (mesh s) (fanout ?s) (lastpub ?s) (direct s)" by (intro mesh_inv_shrink [OF m])
  then have "rt_ok (s\<lparr>mesh := mesh s, fanout := fanout ?s, lastpub := lastpub ?s\<rparr>)" by (rule rt_ok_upd(5) [OF ok])
  moreover have "?s = s\<lparr>mesh := mesh s, fanout := fanout ?s, lastpub := lastpub ?s\<rparr>" by (simp add: expire_fanout_def Let_def)
  ultimately show "rt_ok ?s" by (rule ssubst [rotated])
next
  show "same_mesh s (expire_fanout now s)" by (simp add: same_mesh_def expire_fanout_def Let_def)
  show "PeerScore (expire_fanout now s) = PeerScore s" by (rule ext) (simp add: expire_fanout_def Let_def PeerScore_def)
qed

lemma fanout_laws:
  "filter_law (cache_law S s) (\<lambda>p c. True) (fanout_keep s bm)"
  "filter_law (cache_law S s) (\<lambda>p c. p \<notin> set ps \<and> p \<notin> set (direct s)) (fanout_more s ps)"
proof -
  have "cached_score s p c = Some (S p, c(p \<mapsto> S p)) \<and> cache_law S s (c(p \<mapsto> S p))" if "cache_law S s c" for p c
    using that cached_score_eq cache_law_upd by blast
  then show "filter_law (cache_law S s) (\<lambda>p c. True) (fanout_keep s bm)"
    "filter_law (cache_law S s) (\<lambda>p c. p \<notin> set ps \<and> p \<notin> set (direct s)) (fanout_more s ps)"
    unfolding filter_law_def fanout_keep_def fanout_more_def by simp_all
qed

definition fan_inv :: "(peer_id \<Rightarrow> real) \<Rightarrow> heartbeat_st \<Rightarrow> bool" where
  "fan_inv S h \<longleftrightarrow> rt_ok (hb h) \<and> cache_law S (hb h) (scores h)"

lemma fanout_update_rt:
  assumes "rt_ok s" "bm \<in> fst ` set (fanout s)" "distinct ps" "set ps \<inter> set (direct s) = {}"
  shows "rt_ok (s\<lparr>fanout := AList.update bm ps (fanout s)\<rparr>)"
proof -
  have "mesh_inv (mesh s) (AList.update bm ps (fanout s)) (lastpub s) (direct s)"
    by (rule mesh_inv_shrink [OF rt_okD(1) [OF assms(1)], where X = UNIV])
      (use rt_okD(1) [OF assms(1)] assms(2-4) in \<open>simp_all add: mesh_inv_def update_keys peer_map_ok_update\<close>)
  from rt_ok_upd(5) [OF assms(1) this] show ?thesis by simp
qed

lemma gossips_same:
  assumes "gossips a b"
  shows "same_mesh a b" "fanout b = fanout a" "cache_law S b c \<longleftrightarrow> cache_law S a c"
proof -
  from assms obtain g r where "b = a\<lparr>gossip := g, rnd := r\<rparr>" by (auto simp: gossips_def)
  then show "same_mesh a b" "fanout b = fanout a" "cache_law S b c \<longleftrightarrow> cache_law S a c" by (simp_all add: same_mesh_def)
qed

lemma maintain_fanout_rt:
  assumes h: "fan_inv S h" and bm: "bm \<in> fst ` set (fanout (hb h))"
  shows "yields (maintain_fanout bm h) (\<lambda>h'. fan_inv S h' \<and> same_mesh (hb h) (hb h') \<and> fst ` set (fanout (hb h')) = fst ` set (fanout (hb h)))"
proof -
  let ?s = "hb h"
  let ?Q = "\<lambda>c s'. fan_inv S (h\<lparr>hb := s', scores := c\<rparr>) \<and> same_mesh ?s s' \<and> fst ` set (fanout s') = fst ` set (fanout ?s)"
  have ok: "rt_ok ?s" and cl: "cache_law S ?s (scores h)" using h by (simp_all add: fan_inv_def)
  have fin: "yields (emitGossip bm (ps @ more) (?s\<lparr>rnd := r, fanout := AList.update bm (ps @ more) (fanout ?s)\<rparr>)) (?Q c)"
    if c: "cache_law S ?s c" and ps: "distinct (ps @ more)" "set (ps @ more) \<inter> set (direct ?s) = {}" for ps more r c
  proof (rule yields_mono [OF emitGossip_rt])
    let ?t = "?s\<lparr>rnd := r, fanout := AList.update bm (ps @ more) (fanout ?s)\<rparr>"
    have "rt_ok (?s\<lparr>rnd := r\<rparr>)" using ok by simp
    from fanout_update_rt [OF this] bm ps show "rt_ok ?t" by simp
    fix s'
    assume s': "rt_ok s' \<and> gossips ?t s'"
    have "same_mesh ?s ?t" "cache_law S ?t c" "fst ` set (fanout ?t) = fst ` set (fanout ?s)"
      using c bm by (auto simp: same_mesh_def cache_law_def PeerScore_def update_keys)
    then show "?Q c s'" using s' gossips_same [of ?t s'] same_mesh_trans [of ?s ?t s'] by (simp add: fan_inv_def)
  qed
  have more: "yields (getPeers bm n (fanout_more ?s ps) c ?s) (\<lambda>(more, c, s). yields (emitGossip bm (ps @ more)
      (s\<lparr>fanout := AList.update bm (ps @ more) (fanout s)\<rparr>)) (?Q c))"
    if c: "cache_law S ?s c" and ps: "distinct ps" "set ps \<inter> set (direct ?s) = {}" for ps c n
  proof (rule yields_mono [OF getPeers_law [where J = "cache_law S ?s" and c = c, OF rt_okD(9) [OF ok] rt_okD(10) [OF ok] fanout_laws(2) c]], clarify)
    fix more c' r
    assume *: "cache_law S ?s c'" "distinct more" "\<forall>p \<in> set more. p \<notin> set ps \<and> p \<notin> set (direct ?s)"
    then have "distinct (ps @ more)" "set (ps @ more) \<inter> set (direct ?s) = {}" using ps by auto
    from fin [OF *(1) this, of r] show "yields (emitGossip bm (ps @ more)
      (?s\<lparr>rnd := r, fanout := AList.update bm (ps @ more) (fanout (?s\<lparr>rnd := r\<rparr>))\<rparr>)) (?Q c')" by simp
  qed
  have none: "yields (emitGossip bm ps (?s\<lparr>fanout := AList.update bm ps (fanout ?s)\<rparr>)) (?Q c)"
    if c: "cache_law S ?s c" and ps: "distinct ps" "set ps \<inter> set (direct ?s) = {}" for ps c
    using fin [OF c, of ps "[]" "rnd ?s"] ps by simp
  have f: "distinct (fanout_of ?s bm)" "set (fanout_of ?s bm) \<inter> set (direct ?s) = {}" using mesh_of_ok(2) [OF ok] by auto
  have keep: "yields (filter_opt (fanout_keep ?s bm) (fanout_of ?s bm) (scores h))
      (\<lambda>x. cache_law S ?s (snd x) \<and> distinct (fst x) \<and> set (fst x) \<inter> set (direct ?s) = {})"
    by (rule yields_mono [OF filter_opt_law [where J = "cache_law S ?s" and c = "scores h", OF fanout_laws(1) cl]]) (use f in auto)
  show ?thesis unfolding maintain_fanout_def yields_bind
    by (rule yields_mono [OF keep]) (use more none in \<open>simp add: case_prod_unfold\<close>)
qed


definition fan_step :: "(peer_id \<Rightarrow> real) \<Rightarrow> heartbeat_st \<Rightarrow> heartbeat_st \<Rightarrow> bool" where
  "fan_step S h h' \<longleftrightarrow> fan_inv S h' \<and> same_mesh (hb h) (hb h') \<and> fst ` set (fanout (hb h')) = fst ` set (fanout (hb h))"

lemma fan_step_trans: "fan_step S a b \<Longrightarrow> fan_step S b c \<Longrightarrow> fan_step S a c"
  using same_mesh_trans [of "hb a" "hb b" "hb c"] by (simp add: fan_step_def)

lemma fanout_all:
  assumes "fan_inv S h" "set bms \<subseteq> fst ` set (fanout (hb h))"
  shows "yields (fold_opt maintain_fanout bms h) (fan_step S h)"
proof (rule yields_fold_opt)
  fix bm a
  assume bm: "bm \<in> set bms" and a: "fan_step S h a"
  have "bm \<in> fst ` set (fanout (hb h))" using bm assms(2) by (rule rev_subsetD)
  then have bm: "bm \<in> fst ` set (fanout (hb a))" using a unfolding fan_step_def by argo
  have "fan_inv S a" using a unfolding fan_step_def by argo
  from maintain_fanout_rt [OF this bm] have "yields (maintain_fanout bm a) (fan_step S a)" unfolding fan_step_def .
  then show "yields (maintain_fanout bm a) (fan_step S h)" by (rule yields_mono) (rule fan_step_trans [OF a])
qed (use assms(1) in \<open>simp add: fan_step_def\<close>)

section \<open>What the heartbeat sends\<close>

definition hb_sends :: "heartbeat_st \<Rightarrow> heartbeat_st \<Rightarrow> bool" where
  "hb_sends h h' \<longleftrightarrow> rt_ok (hb h') \<and> sends (hb h) (hb h')"

lemma makePrunes_send:
  assumes "rt_ok s"
  shows "yields (makePrunes p bms px u s) (\<lambda>x. rt_ok (sendRPC p (f (fst x)) fast (snd x)) \<and> sends s (sendRPC p (f (fst x)) fast (snd x)))"
proof -
  have "yields (makePrunes p bms px u s) (\<lambda>x. \<exists>r. snd x = s\<lparr>rnd := r\<rparr>)"
    by (rule yields_mono [OF makePrunes_yields [OF rt_okD(9) [OF assms] rt_okD(10) [OF assms] rt_okD(4) [OF assms]]]) auto
  then show ?thesis
  proof (rule yields_mono, elim exE)
    fix x :: "ControlPrune list \<times> router" and r
    assume "snd x = s\<lparr>rnd := r\<rparr>"
    then have "sends s (sendRPC p (f (fst x)) fast (snd x))" using sends_trans [OF sends_rnd sendRPC_sends] by simp
    then show "rt_ok (sendRPC p (f (fst x)) fast (snd x)) \<and> sends s (sendRPC p (f (fst x)) fast (snd x))"
      using sends_ok assms by blast
  qed
qed

lemma send_graft_prune_ok: "rt_ok (hb h) \<Longrightarrow> yields (send_graft_prune p h) (hb_sends h)"
proof -
  assume ok: "rt_ok (hb h)"
  have "rt_ok (sendRPC p out False (hb h)) \<and> sends (hb h) (sendRPC p out False (hb h))" for out
    using sends_ok [OF sendRPC_sends ok] sendRPC_sends by blast
  moreover note makePrunes_send [OF ok, where f = "\<lambda>xs. rpcWithControl [] [] [] g (Some xs) []" for g]
  ultimately show ?thesis unfolding send_graft_prune_def hb_sends_def by (simp add: case_prod_unfold Let_def split: option.split)
qed

lemma send_prune_ok: "rt_ok (hb h) \<Longrightarrow> yields (send_prune p h) (hb_sends h)"
  using makePrunes_send [of "hb h", where f = "\<lambda>xs. rpcWithControl [] [] [] None (Some xs) []"] unfolding send_prune_def hb_sends_def by (simp add: case_prod_unfold)

lemma hb_sends_fold:
  assumes "rt_ok (hb h)" "\<And>x h. rt_ok (hb h) \<Longrightarrow> yields (f x h) (hb_sends h)"
  shows "yields (fold_opt f xs h) (hb_sends h)"
proof (rule yields_fold_opt)
  show "hb_sends h h" using assms(1) by (simp add: hb_sends_def)
  fix x a
  assume "hb_sends h a"
  then have a: "rt_ok (hb a)" "sends (hb h) (hb a)" by (simp_all add: hb_sends_def)
  show "yields (f x a) (hb_sends h)"
    by (rule yields_mono [OF assms(2) [OF a(1)]]) (use a(2) sends_trans in \<open>auto simp: hb_sends_def\<close>)
qed

lemma hb_range_sends: "hb_range xs h = (ys, h') \<Longrightarrow> rt_ok (hb h) \<Longrightarrow> hb_sends h h'"
  using hb_rangeE [of xs h] by (auto simp: hb_sends_def)

lemma hb_sends_trans: "hb_sends a b \<Longrightarrow> hb_sends b c \<Longrightarrow> hb_sends a c"
  using sends_trans by (auto simp: hb_sends_def)

lemma sendGraftPrune_ok:
  assumes "rt_ok (hb h)"
  shows "yields (sendGraftPrune h) (hb_sends h)"
proof -
  obtain gs a where g: "hb_range (map fst (tograft h)) h = (gs, a)" by force
  have a: "hb_sends h a" using hb_range_sends [OF g assms] .
  have fin: "yields (fold_opt send_prune (fst (hb_range ps b)) (snd (hb_range ps b))) (hb_sends h)" if b: "hb_sends a b" for b ps
  proof -
    have "hb_sends b (snd (hb_range ps b))" by (rule hb_range_sends [of ps b "fst (hb_range ps b)"]) (use b in \<open>simp_all add: hb_sends_def\<close>)
    from hb_sends_trans [OF hb_sends_trans [OF a b] this] have c: "hb_sends h (snd (hb_range ps b))" .
    have "rt_ok (hb (snd (hb_range ps b)))" using c by (simp add: hb_sends_def)
    from hb_sends_fold [OF this send_prune_ok] show ?thesis by (rule yields_mono) (assumption | rule hb_sends_trans [OF c])+
  qed
  have "rt_ok (hb a)" using a by (simp add: hb_sends_def)
  then have "yields (fold_opt send_graft_prune gs a) (hb_sends a)" by (rule hb_sends_fold) (rule send_graft_prune_ok)
  then show ?thesis unfolding sendGraftPrune_def by (simp add: g case_prod_unfold Let_def) (erule yields_mono, rule fin)
qed

lemma flush_sends: "sends s (flush s)"
proof -
  have g: "sends s (s\<lparr>gossip := AList.delete p (gossip s)\<rparr>)" for p s
    by (rule sendsI [where c = "control s" and g = "AList.delete p (gossip s)" and q = "p_peers s" and r = "rnd s"]) (simp_all add: ctl_inv_delete)
  have c: "sends s (s\<lparr>control := AList.delete p (control s)\<rparr>)" for p s
    by (rule sendsI [where c = "AList.delete p (control s)" and g = "gossip s" and q = "p_peers s" and r = "rnd s"]) (simp_all add: ctl_inv_delete)
  have fg: "sends s (flush_gossip p s)" for p s
    by (simp add: flush_gossip_def sends_trans [OF g sendRPC_sends] split: option.split)
  have fc: "sends s (flush_control p s)" for p s
    by (simp add: flush_control_def sends_trans [OF c sendRPC_sends] split: option.split)
  have rng: "sends s (snd (range_of xs s))" for xs :: "peer_id list" and s by (simp add: range_of_def case_prod_unfold Let_def)
  show ?thesis unfolding flush_def Let_def case_prod_unfold
    by (rule sends_trans [OF sends_trans [OF sends_trans [OF rng sends_fold [OF fg]] rng] sends_fold [OF fc]])
qed

section \<open>The heartbeat\<close>

lemma add_penalty_mesh: "mesh (add_penalty p n s) = mesh s" "params (add_penalty p n s) = params s" "direct (add_penalty p n s) = direct s"
  by (simp_all add: add_penalty_def split: option.split)

lemma penalties_mesh: "mesh (fold (\<lambda>(p, n). add_penalty p n) xs s) = mesh s \<and> params (fold (\<lambda>(p, n). add_penalty p n) xs s) = params s
    \<and> direct (fold (\<lambda>(p, n). add_penalty p n) xs s) = direct s"
  by (induction xs arbitrary: s) (auto simp: add_penalty_mesh)

lemma heartbeat_start_ok:
  "rt_ok s \<Longrightarrow> rt_ok (heartbeat_start now s)" "mesh (heartbeat_start now s) = mesh s" "params (heartbeat_start now s) = params s"
  "direct (heartbeat_start now s) = direct s"
proof -
  show "rt_ok (heartbeat_start now s)" if "rt_ok s"
    unfolding heartbeat_start_def using that by (intro applyIwantPenalties_rt clear_counters_rt clearBackoff_rt) simp
  have "mesh (applyIwantPenalties now t) = mesh t \<and> params (applyIwantPenalties now t) = params t \<and> direct (applyIwantPenalties now t) = direct t" for t
    by (simp add: applyIwantPenalties_def penalties_mesh split: option.split prod.split)
  then show "mesh (heartbeat_start now s) = mesh s" "params (heartbeat_start now s) = params s" "direct (heartbeat_start now s) = direct s"
    by (simp_all add: heartbeat_start_def clearIDontWantCounters_def clearIHaveCounters_def clearBackoff_def)
qed

definition mesh_post :: "(peer_id \<Rightarrow> real) \<Rightarrow> time \<Rightarrow> router \<Rightarrow> router \<Rightarrow> bool" where
  "mesh_post S now s s' \<longleftrightarrow> (\<forall>bm. tidy S now s s' bm) \<and> fst ` set (mesh s') = fst ` set (mesh s) \<and> params s' = params s \<and> direct s' = direct s"

lemma mesh_post_same: "mesh_post S now s a \<Longrightarrow> same_mesh a b \<Longrightarrow> mesh_post S now s b"
  using same_mesh_of [of a b] unfolding mesh_post_def tidy_def backed_for_def same_mesh_def by simp

lemma heartbeat_meshes_post:
  assumes ok: "rt_ok s" and S: "\<And>p. PeerScore s p = Some (S p)"
  shows "yields (heartbeat_meshes now s) (\<lambda>h. fan_inv S h \<and> mesh_post S now s (hb h))"
proof -
  let ?K = "fst ` set (mesh s)"
  let ?h = "\<lparr>hb = s, scores = Map.empty, tograft = [], toprune = [], noPX = (\<lambda>_. False)\<rparr>"
  obtain bms r where b: "hb_range (map fst (mesh s)) ?h = (bms, ?h\<lparr>hb := (hb ?h)\<lparr>rnd := r\<rparr>\<rparr>)" "mset bms = mset (map fst (mesh s))"
    using hb_rangeE by blast
  let ?t = "s\<lparr>rnd := r\<rparr>"
  have bms: "set bms = ?K" "distinct bms"
    using mset_eq_setD [OF b(2)] mset_eq_imp_distinct_iff [OF b(2)] rt_okD(1) [OF ok] by (simp_all add: mesh_inv_def peer_map_ok_def)
  have inv: "hb_inv ?K (direct s) (params s) S (?h\<lparr>hb := ?t\<rparr>)" using ok S by (simp add: hb_inv_def cache_law_def PeerScore_def)
  have "0 \<le> mesh_max (params s)" if "0 < OpportunisticGraftPeers (params s)"
    using that rt_okD(8) [OF ok] by (simp add: mesh_max_def params_sane_def)
  then have nil: "tidy S now s s' b" if "mesh_of s' b = []" "mesh_of s b = []" for s' b using that by (simp add: tidy_def)
  have out: "mesh_of s b = []" if "b \<notin> set bms" for b
    using that bms(1) map_of_eq_None_iff [of "mesh s" b] by (simp add: mesh_of_def)
  have "yields (fold_opt (maintain_mesh now) bms (?h\<lparr>hb := ?t\<rparr>)) (\<lambda>h. fan_inv S h \<and> mesh_post S now s (hb h))"
  proof (rule yields_mono [OF maintain_all [OF inv eq_refl [OF bms(1)] bms(2) rt_okD(8) [OF ok], of now]])
    fix h
    assume h: "hb_inv ?K (direct s) (params s) S h \<and> grown (prune_backoff (hb (?h\<lparr>hb := ?t\<rparr>))) (prune_backoff (hb h))
       \<and> (\<forall>b. b \<notin> set bms \<longrightarrow> mesh_of (hb h) b = mesh_of (hb (?h\<lparr>hb := ?t\<rparr>)) b) \<and> (\<forall>b \<in> set bms. tidy S now (hb (?h\<lparr>hb := ?t\<rparr>)) (hb h) b)"
    have "tidy S now s (hb h) b" for b
    proof (cases "b \<in> set bms")
      case True
      then have "tidy S now ?t (hb h) b" using h by simp
      then show ?thesis by (rule tidy_earlier) simp_all
    next
      case False
      then show ?thesis using h out by (intro nil) simp_all
    qed
    then show "fan_inv S h \<and> mesh_post S now s (hb h)" using h unfolding fan_inv_def mesh_post_def hb_inv_def by blast
  qed
  then show ?thesis unfolding heartbeat_meshes_def by (simp add: b(1))
qed

lemma heartbeat_fanout_post:
  assumes h: "fan_inv S h" "mesh_post S now s (hb h)"
  shows "yields (heartbeat_fanout now h) (\<lambda>h'. rt_ok (hb h') \<and> mesh_post S now s (hb h'))"
proof -
  let ?a = "h\<lparr>hb := expire_fanout now (hb h)\<rparr>"
  obtain bms r where b: "hb_range (map fst (fanout (hb ?a))) ?a = (bms, ?a\<lparr>hb := (hb ?a)\<lparr>rnd := r\<rparr>\<rparr>)" "mset bms = mset (map fst (fanout (hb ?a)))"
    using hb_rangeE by blast
  let ?b = "?a\<lparr>hb := (hb ?a)\<lparr>rnd := r\<rparr>\<rparr>"
  have ok: "rt_ok (hb h)" "cache_law S (hb h) (scores h)" using h(1) by (simp_all add: fan_inv_def)
  then have "cache_law S (expire_fanout now (hb h)) (scores h)" unfolding cache_law_def expire_fanout_rt(3) by blast
  then have fan: "fan_inv S ?b" using expire_fanout_rt(1) [OF ok(1)] by (simp add: fan_inv_def)
  have "same_mesh (hb ?a) (hb ?b)" by (simp add: same_mesh_def)
  moreover have "same_mesh (hb h) (hb ?a)" using expire_fanout_rt(2) by simp
  ultimately have post: "mesh_post S now s (hb ?b)" using mesh_post_same [OF h(2)] same_mesh_trans by blast
  have "set bms \<subseteq> fst ` set (fanout (hb ?b))" using mset_eq_setD [OF b(2)] by simp
  from fanout_all [OF fan this] have "yields (fold_opt maintain_fanout bms ?b) (\<lambda>h'. rt_ok (hb h') \<and> mesh_post S now s (hb h'))"
    by (rule yields_mono) (use mesh_post_same [OF post] in \<open>unfold fan_step_def fan_inv_def, blast\<close>)
  then show ?thesis unfolding heartbeat_fanout_def Let_def b(1) prod.case .
qed

lemma Shift_rt: "rt_ok s \<Longrightarrow> yields (Shift (mcache s)) (\<lambda>mc. rt_ok (s\<lparr>mcache := mc\<rparr>))"
  using rt_okD(6) [of s] by (auto simp: Shift_def cache_inv_def Let_def intro!: rt_ok_upd(3))

lemma heartbeat_end_post:
  assumes h: "rt_ok (hb h)" "mesh_post S now s (hb h)"
  shows "yields (heartbeat_end h) (\<lambda>s'. rt_ok s' \<and> mesh_post S now s s')"
proof -
  have "yields (Shift (mcache (flush (hb c)))) (\<lambda>mc. rt_ok ((flush (hb c))\<lparr>mcache := mc\<rparr>) \<and> mesh_post S now s ((flush (hb c))\<lparr>mcache := mc\<rparr>))"
    if c: "hb_sends h c" for c
  proof (rule yields_mono)
    show "yields (Shift (mcache (flush (hb c)))) (\<lambda>mc. rt_ok ((flush (hb c))\<lparr>mcache := mc\<rparr>))"
      using c by (intro Shift_rt flush_rt) (simp add: hb_sends_def)
    fix mc
    have "same_mesh (hb h) (flush (hb c))" using c by (intro sends_same sends_trans [OF _ flush_sends]) (simp add: hb_sends_def)
    moreover have "same_mesh (flush (hb c)) ((flush (hb c))\<lparr>mcache := mc\<rparr>)" by (simp add: same_mesh_def)
    ultimately have "mesh_post S now s ((flush (hb c))\<lparr>mcache := mc\<rparr>)" using mesh_post_same [OF h(2)] same_mesh_trans by blast
    then show "rt_ok ((flush (hb c))\<lparr>mcache := mc\<rparr>) \<and> mesh_post S now s ((flush (hb c))\<lparr>mcache := mc\<rparr>)"
      if "rt_ok ((flush (hb c))\<lparr>mcache := mc\<rparr>)" using that by blast
  qed
  then show ?thesis unfolding heartbeat_end_def Let_def yields_bind yields_Some by (intro yields_mono [OF sendGraftPrune_ok [OF h(1)]])
qed

text \<open>Every heartbeat returns, keeps the invariant, and leaves all meshes tidy.\<close>

lemma heartbeat_post:
  assumes ok: "rt_ok s" and S: "\<And>p. PeerScore (heartbeat_start now s) p = Some (S p)"
  shows "yields (heartbeat now s) (\<lambda>s'. rt_ok s' \<and> mesh_post S now s s')"
proof -
  let ?s = "heartbeat_start now s"
  have start: "rt_ok ?s" "mesh ?s = mesh s" "params ?s = params s" "direct ?s = direct s" using heartbeat_start_ok ok by blast+
  have dc: "yields (directConnect ?s) (\<lambda>t. rt_ok t \<and> mesh t = mesh s \<and> params t = params s \<and> direct t = direct s \<and> PeerScore t = PeerScore ?s)"
    using start rt_okD(8) [OF start(1)]
    by (simp add: directConnect_def range_of_def case_prod_unfold Let_def params_sane_def PeerScore_def fun_eq_iff)
  show ?thesis unfolding heartbeat_def yields_bind
  proof (rule yields_mono [OF dc])
    fix t
    assume t: "rt_ok t \<and> mesh t = mesh s \<and> params t = params s \<and> direct t = direct s \<and> PeerScore t = PeerScore ?s"
    have "yields (heartbeat_meshes now t) (\<lambda>h. fan_inv S h \<and> mesh_post S now t (hb h))"
      using t S by (intro heartbeat_meshes_post) auto
    moreover have "mesh_post S now s h" if "mesh_post S now t h" for h
      using that t unfolding mesh_post_def tidy_def mesh_of_def by simp
    ultimately show "yields (heartbeat_meshes now t) (\<lambda>h. yields (heartbeat_fanout now h) (\<lambda>h. yields (heartbeat_end h) (\<lambda>s'. rt_ok s' \<and> mesh_post S now s s')))"
      by (elim yields_mono conjE) (rule yields_mono [OF heartbeat_fanout_post], assumption, blast, elim conjE, rule heartbeat_end_post)
  qed
qed

end
