(* ===== verification/Router_Graft.thy ===== *)
theory Router_Graft
  imports Router_Safety
begin

text \<open>
  Exactly which GRAFT requests the router grants (src/go-libp2p-blossomsub/blossomsub.go, \<open>handleGraft\<close>), and exactly
  which requests it answers with a PRUNE.
\<close>

definition in_backoff :: "router \<Rightarrow> bitmask \<Rightarrow> peer_id \<Rightarrow> time \<Rightarrow> bool" where
  "in_backoff s bm p now = (case prune_backoff s bm p of None \<Rightarrow> False | Some t \<Rightarrow> now < t)"

definition joined :: "router \<Rightarrow> bitmask \<Rightarrow> bool" where
  "joined s bm \<longleftrightarrow> map_of (mesh s) bm \<noteq> None"

text \<open>A request that concerns a joined mesh the peer is not in yet, and one the router grants.\<close>

definition graft_open :: "router \<Rightarrow> peer_id \<Rightarrow> bitmask \<Rightarrow> bool" where
  "graft_open s p bm \<longleftrightarrow> p_peerFilter s p bm \<and> joined s bm \<and> p \<notin> set (mesh_of s bm)"

definition graft_ok :: "router \<Rightarrow> peer_id \<Rightarrow> real \<Rightarrow> time \<Rightarrow> bitmask \<Rightarrow> bool" where
  "graft_ok s p sc now bm \<longleftrightarrow> graft_open s p bm \<and> p \<notin> set (direct s) \<and> \<not> in_backoff s bm p now \<and> 0 \<le> sc
     \<and> (int (length (mesh_of s bm)) < Dhi (params s) \<or> outbound s p)"

text \<open>What a step for one bitmask leaves alone.\<close>

definition graft_frame :: "bitmask \<Rightarrow> peer_id \<Rightarrow> router \<Rightarrow> router \<Rightarrow> bool" where
  "graft_frame bm p s s' \<longleftrightarrow> params s' = params s \<and> direct s' = direct s \<and> outbound s' = outbound s \<and> p_peerFilter s' = p_peerFilter s
     \<and> joined s' = joined s \<and> (\<forall>b. b \<noteq> bm \<longrightarrow> mesh_of s' b = mesh_of s b \<and> in_backoff s' b p = in_backoff s b p)"

lemma graft_frameD: "graft_frame bm p s s' \<Longrightarrow> b \<noteq> bm \<Longrightarrow> graft_ok s' p sc now b = graft_ok s p sc now b \<and> graft_open s' p b = graft_open s p b \<and> mesh_of s' b = mesh_of s b"
  by (simp add: graft_frame_def graft_ok_def graft_open_def)

lemma graft_frame_refl [simp]: "graft_frame bm p s s"
  by (simp add: graft_frame_def)

lemma graft_frame_backoff: "graft_frame bm p s (addBackoff p bm u now s)"
  by (auto simp: graft_frame_def addBackoff_def doAddBackoff_def joined_def mesh_of_def in_backoff_def Let_def fun_eq_iff split: option.split)

lemma graft_frame_score: "graft_frame bm p s s' \<Longrightarrow> graft_frame bm p s (s'\<lparr>rscore := x\<rparr>)" "graft_frame bm p (s\<lparr>rscore := x\<rparr>) s' = graft_frame bm p s s'"
  by (simp_all add: graft_frame_def joined_def mesh_of_def in_backoff_def fun_eq_iff)

lemma graft_frame_mesh:
  assumes "joined s bm"
  shows "graft_frame bm p s (s\<lparr>mesh := AList.update bm ps (mesh s)\<rparr>)"
  using assms by (auto simp: graft_frame_def joined_def mesh_of_def in_backoff_def update_conv' fun_eq_iff)

text \<open>The outcome of one request in a state \<open>s\<close>.\<close>

definition graft_result :: "peer_id \<Rightarrow> real \<Rightarrow> time \<Rightarrow> bitmask \<Rightarrow> bitmask list \<Rightarrow> router \<Rightarrow> bitmask list \<Rightarrow> router \<Rightarrow> bool" where
  "graft_result p sc now bm pr s pr' s' \<longleftrightarrow> rt_ok s' \<and> graft_frame bm p s s' \<and> \<not> graft_ok s' p sc now bm
     \<and> mesh_of s' bm = (if graft_ok s p sc now bm then mesh_of s bm @ [p] else mesh_of s bm)
     \<and> pr' = (if graft_open s p bm \<and> \<not> graft_ok s p sc now bm then pr @ [bm] else pr)"

lemma joinedD: "map_of (mesh s) bm = Some ps \<Longrightarrow> joined s bm \<and> mesh_of s bm = ps"
  by (simp add: joined_def mesh_of_def)

lemma graft_refused:
  assumes "rt_ok s" "graft_open s p bm" "\<not> graft_ok s p sc now bm"
  shows "graft_result p sc now bm pr s (pr @ [bm]) (addBackoff p bm False now s)"
proof -
  have "\<not> graft_ok (addBackoff p bm False now s) p sc now bm"
    using assms(2,3) unfolding graft_ok_def graft_open_def
    by (auto simp: addBackoff_def doAddBackoff_def joined_def mesh_of_def in_backoff_def Let_def split: option.splits if_splits)
  then show ?thesis using assms backoff_ok graft_frame_backoff [of bm p s False now]
    by (auto simp: graft_result_def addBackoff_def doAddBackoff_def mesh_of_def Let_def split: option.split)
qed


lemma in_backoff_score [simp]: "in_backoff (s\<lparr>rscore := x\<rparr>) = in_backoff s" "joined (s\<lparr>rscore := x\<rparr>) = joined s" "mesh_of (s\<lparr>rscore := x\<rparr>) = mesh_of s"
  by (simp_all add: fun_eq_iff in_backoff_def joined_def mesh_of_def)

lemma graft_score [simp]: "graft_open (s\<lparr>rscore := x\<rparr>) p bm = graft_open s p bm" "graft_ok (s\<lparr>rscore := x\<rparr>) p sc now bm = graft_ok s p sc now bm"
  by (simp_all add: graft_ok_def graft_open_def)

lemma graft_result_score: "graft_result p sc now bm pr (s\<lparr>rscore := x\<rparr>) pr' s' = graft_result p sc now bm pr s pr' s'"
  by (simp add: graft_result_def graft_frame_score)

lemma graft_skipped: "rt_ok s \<Longrightarrow> \<not> graft_open s p bm \<Longrightarrow> graft_result p sc now bm pr s pr s"
  by (simp add: graft_result_def graft_ok_def)

lemma graft_accept_exact:
  assumes ok: "rt_ok s" and g: "graft_open s p bm" "p \<notin> set (direct s)" "\<not> in_backoff s bm p now" and ps: "map_of (mesh s) bm = Some ps"
  shows "yields (graft_accept p sc now bm ps (pr, px, s)) (\<lambda>(pr', px', s'). graft_result p sc now bm pr s pr' s')"
proof -
  have m: "mesh_of s bm = ps" "joined s bm" using joinedD [OF ps] by simp_all
  show ?thesis
  proof (cases "graft_ok s p sc now bm")
    case True
    then have c: "\<not> sc < 0" "\<not> (int (length ps) \<ge> Dhi (params s) \<and> \<not> outbound s p)" using m by (auto simp: graft_ok_def)
    have "p \<notin> set ps" using g(1) m by (simp add: graft_open_def)
    have upd: "mesh_inv (AList.update bm (ps @ [p]) (mesh s)) (fanout s) (lastpub s) (direct s)"
      using rt_okD(1) [OF ok] g(2) \<open>p \<notin> set ps\<close> ps mesh_inv_meshD [OF rt_okD(1) [OF ok] ps] by (intro mesh_inv_update) auto
    have "yields (trace_Graft p bm now s) (\<lambda>s'. graft_result p sc now bm pr s pr (s'\<lparr>mesh := AList.update bm (ps @ [p]) (mesh s')\<rparr>))"
    proof (rule yields_mono [OF trace_yields(1) [OF rt_okD(4) [OF ok]]], elim exE conjE)
      fix s' x
      assume s': "s' = s\<lparr>rscore := x\<rparr>" "score_inv x"
      let ?t = "s\<lparr>rscore := x, mesh := AList.update bm (ps @ [p]) (mesh s)\<rparr>"
      have "rt_ok ?t" using rt_ok_upd(4) [OF rt_ok_upd(1) [OF ok s'(2)]] upd by simp
      moreover have "graft_frame bm p s ?t" using graft_frame_mesh [of "s\<lparr>rscore := x\<rparr>" bm p "ps @ [p]"] m(2) by (simp add: graft_frame_score)
      moreover have t: "mesh_of ?t bm = ps @ [p]" by (simp add: mesh_of_def update_conv')
      moreover have "\<not> graft_ok ?t p sc now bm" by (simp add: graft_ok_def graft_open_def t)
      ultimately show "graft_result p sc now bm pr s pr (s'\<lparr>mesh := AList.update bm (ps @ [p]) (mesh s')\<rparr>)"
        using True m(1) by (simp add: graft_result_def s'(1))
    qed
    then show ?thesis using c by (auto simp: graft_accept_def)
  next
    case False
    then have "sc < 0 \<or> int (length ps) \<ge> Dhi (params s) \<and> \<not> outbound s p" using g m by (auto simp: graft_ok_def)
    then show ?thesis using graft_refused [OF ok g(1) False] by (auto simp: graft_accept_def)
  qed
qed

lemma graft_one_exact:
  assumes ok: "rt_ok s"
  shows "yields (graft_one p sc now g (pr, px, s)) (\<lambda>(pr', px', s'). graft_result p sc now (GraftBitmask g) pr s pr' s')"
proof -
  let ?bm = "GraftBitmask g"
  consider (skip) "\<not> graft_open s p ?bm" | (direct) "graft_open s p ?bm" "p \<in> set (direct s)"
    | (held) "graft_open s p ?bm" "p \<notin> set (direct s)" "in_backoff s ?bm p now"
    | (ask) "graft_open s p ?bm" "p \<notin> set (direct s)" "\<not> in_backoff s ?bm p now" by blast
  then show ?thesis
  proof cases
    case skip
    then show ?thesis using graft_skipped [OF ok skip]
      by (auto simp: graft_one_def graft_open_def joined_def mesh_of_def Let_def split: option.split)
  next
    case direct
    then have "\<not> graft_ok s p sc now ?bm" by (simp add: graft_ok_def)
    with direct ok show ?thesis
      by (auto simp: graft_one_def graft_open_def joined_def mesh_of_def Let_def graft_result_def split: option.splits)
  next
    case held
    have no: "\<not> graft_ok s p sc now ?bm" using held(3) by (simp add: graft_ok_def)
    have pen: "graft_result p sc now ?bm pr s (pr @ [?bm]) (addBackoff p ?bm False now (t\<lparr>rscore := x\<rparr>))" if "rt_ok (t\<lparr>rscore := x\<rparr>)" "\<exists>y. t = s\<lparr>rscore := y\<rparr>" for t x
      using graft_refused [of "s\<lparr>rscore := x\<rparr>" p ?bm sc now pr] that held(1) no by (auto simp: graft_result_score)
    have pen: "graft_result p sc now ?bm pr s (pr @ [?bm]) (addBackoff p ?bm False now (add_penalty p 1 (add_penalty p 1 s)))"
      "graft_result p sc now ?bm pr s (pr @ [?bm]) (addBackoff p ?bm False now (add_penalty p 1 s))"
      unfolding add_penalty_def by (rule pen; use ok penalty_ok [of s p 1] penalty_ok [OF penalty_ok [of s p 1], of p 1] in \<open>auto simp: add_penalty_def intro: exI [of _ "rscore s"]\<close>)+
    obtain t where t: "prune_backoff s ?bm p = Some t" "now < t" using held(3) by (auto simp: in_backoff_def split: option.splits)
    show ?thesis using held pen t by (auto simp: graft_one_def graft_open_def joined_def mesh_of_def Let_def split: option.split)
  next
    case ask
    obtain ps where ps: "map_of (mesh s) ?bm = Some ps" using ask(1) by (auto simp: graft_open_def joined_def)
    have "graft_one p sc now g (pr, px, s) = graft_accept p sc now ?bm ps (pr, px, s)"
      using ask ps by (auto simp: graft_one_def graft_open_def mesh_of_def in_backoff_def Let_def split: option.split)
    then show ?thesis using graft_accept_exact [OF ok ask ps] by simp
  qed
qed


definition graft_final :: "peer_id \<Rightarrow> real \<Rightarrow> time \<Rightarrow> bitmask set \<Rightarrow> bitmask set \<Rightarrow> router \<Rightarrow> bitmask set \<Rightarrow> router \<Rightarrow> bool" where
  "graft_final p sc now G P s P' s' \<longleftrightarrow> rt_ok s' \<and> (\<forall>b. mesh_of s' b = (if b \<in> G \<and> graft_ok s p sc now b then mesh_of s b @ [p] else mesh_of s b))
     \<and> P' = P \<union> {b \<in> G. graft_open s p b \<and> \<not> graft_ok s p sc now b}"

lemma graft_final_step:
  assumes r: "graft_result p sc now bm pr s pr1 s1" and f: "graft_final p sc now G (set pr1) s1 P s'"
  shows "graft_final p sc now (insert bm G) (set pr) s P s'"
proof -
  have fr: "graft_frame bm p s s1" and no: "\<not> graft_ok s1 p sc now bm"
    and m1: "mesh_of s1 bm = (if graft_ok s p sc now bm then mesh_of s bm @ [p] else mesh_of s bm)"
    and p1: "set pr1 = (if graft_open s p bm \<and> \<not> graft_ok s p sc now bm then insert bm (set pr) else set pr)"
    using r by (auto simp: graft_result_def)
  have same: "p_peerFilter s1 = p_peerFilter s" "joined s1 = joined s" using fr by (simp_all add: graft_frame_def)
  have op: "graft_open s1 p bm \<longleftrightarrow> graft_open s p bm \<and> \<not> graft_ok s p sc now bm"
    using m1 by (auto simp: graft_open_def same graft_ok_def)
  have "mesh_of s' b = (if b \<in> insert bm G \<and> graft_ok s p sc now b then mesh_of s b @ [p] else mesh_of s b)" for b
    using f no m1 graft_frameD [OF fr, of b sc now] by (cases "b = bm") (simp_all add: graft_final_def)
  moreover have "P = set pr \<union> {b \<in> insert bm G. graft_open s p b \<and> \<not> graft_ok s p sc now b}"
  proof -
    have "P = set pr1 \<union> {b \<in> G. graft_open s1 p b \<and> \<not> graft_ok s1 p sc now b}" using f by (simp add: graft_final_def)
    also have "\<dots> = set pr \<union> {b \<in> insert bm G. graft_open s p b \<and> \<not> graft_ok s p sc now b}"
    proof (rule set_eqI)
      fix b
      show "b \<in> set pr1 \<union> {b \<in> G. graft_open s1 p b \<and> \<not> graft_ok s1 p sc now b} \<longleftrightarrow>
        b \<in> set pr \<union> {b \<in> insert bm G. graft_open s p b \<and> \<not> graft_ok s p sc now b}"
        using graft_frameD [OF fr, of b sc now] op no p1 by (cases "b = bm") auto
    qed
    finally show ?thesis .
  qed
  ultimately show ?thesis using f by (simp add: graft_final_def)
qed

lemma graft_fold_exact:
  assumes "rt_ok s"
  shows "yields (fold_opt (graft_one p sc now) gs (pr, px, s)) (\<lambda>x. graft_final p sc now (GraftBitmask ` set gs) (set pr) s (set (fst x)) (snd (snd x)))"
  using assms
proof (induction gs arbitrary: pr px s)
  case (Cons g gs)
  show ?case unfolding fold_opt.simps yields_bind
  proof (rule yields_mono [OF graft_one_exact [OF Cons.prems]])
    fix st :: "bitmask list \<times> bool \<times> router"
    assume "case st of (pr', px', s') \<Rightarrow> graft_result p sc now (GraftBitmask g) pr s pr' s'"
    then obtain pr1 px1 s1 where st: "st = (pr1, px1, s1)" and r: "graft_result p sc now (GraftBitmask g) pr s pr1 s1" by (cases st) auto
    have "rt_ok s1" using r by (simp add: graft_result_def)
    from Cons.IH [OF this, of pr1 px1]
    show "yields (fold_opt (graft_one p sc now) gs st) (\<lambda>x. graft_final p sc now (GraftBitmask ` set (g # gs)) (set pr) s (set (fst x)) (snd (snd x)))"
      unfolding st by (rule yields_mono) (use graft_final_step [OF r] in auto)
  qed
qed (simp add: graft_final_def)

lemma handleGraft_post:
  assumes ok: "rt_ok s" and sc: "PeerScore s p = Some sc"
  shows "yields (handleGraft p ctl now s) (\<lambda>x. graft_final p sc now (GraftBitmask ` set (elems (Graft ctl))) {} s (PruneBitmask ` set (elems (fst x))) (snd x))"
proof -
  let ?G = "GraftBitmask ` set (elems (Graft ctl))"
  have "yields (makePrunes p bms px False t) (\<lambda>x. graft_final p sc now ?G {} s (PruneBitmask ` set (fst x)) (snd x))"
    if t: "graft_final p sc now ?G {} s (set bms) t" for bms px t
  proof -
    have t_ok: "rt_ok t" using t by (simp add: graft_final_def)
    show ?thesis
    proof (rule yields_mono [OF makePrunes_yields [OF rt_okD(9) [OF t_ok] rt_okD(10) [OF t_ok] rt_okD(4) [OF t_ok]]])
      fix x :: "ControlPrune list \<times> router"
      assume "case x of (xs, s') \<Rightarrow> map PruneBitmask xs = bms \<and> (\<exists>r. s' = t\<lparr>rnd := r\<rparr>)"
      then obtain r where x: "map PruneBitmask (fst x) = bms" "snd x = t\<lparr>rnd := r\<rparr>" by (cases x) auto
      have "PruneBitmask ` set (fst x) = set bms" using x(1) by (metis set_map)
      then show "graft_final p sc now ?G {} s (PruneBitmask ` set (fst x)) (snd x)" using t by (simp add: graft_final_def x(2) mesh_of_def)
    qed
  qed
  then have "yields (fold_opt (graft_one p sc now) (elems (Graft ctl)) ([], doPX s, s)) (\<lambda>x.
     (fst x = [] \<longrightarrow> graft_final p sc now ?G {} s {} (snd (snd x))) \<and> (fst x \<noteq> [] \<longrightarrow>
       yields (makePrunes p (fst x) (fst (snd x)) False (snd (snd x))) (\<lambda>y. graft_final p sc now ?G {} s (PruneBitmask ` set (fst y)) (snd y))))"
    by (intro yields_mono [OF graft_fold_exact [OF ok]]) (auto split: if_split)
  then show ?thesis unfolding handleGraft_def sc by (simp add: case_prod_unfold)
qed

end
