(* ===== verification/Router_Properties.thy ===== *)
theory Router_Properties
  imports Router_Beat Router_Graft Peer_Score_Properties
begin

text \<open>
  Properties of the BlossomSub router (src/go-libp2p-blossomsub/blossomsub.go): what a heartbeat leaves behind, which peers
  an overfull mesh keeps, which GRAFT requests are granted, and to whom a message is never sent. The concrete router at the
  start has a mesh with a peer of negative score.
\<close>

section \<open>A concrete router\<close>

definition ex_msgid :: "Message \<Rightarrow> message_id \<times> Message" where
  "ex_msgid m = (Data (pbm m), m)"

definition ex_router :: router where
  "ex_router = \<lparr>params = DefaultBlossomSubParams, feature = BlossomSubDefaultFeatures, protos = BlossomSubDefaultProtocols,
     peers = [''p'' \<mapsto> BlossomSubID_v21, ''q'' \<mapsto> BlossomSubID_v21], direct = [''d''], mesh = [([1], [''p'', ''q''])], fanout = [],
     lastpub = Map.empty, gossip = [], control = [], peerhave = (\<lambda>_. 0), peerdontwant = (\<lambda>_. 0), unwanted = Map.empty,
     iasked = (\<lambda>_. 0), outbound = (\<lambda>p. p = ''q''), prune_backoff = (\<lambda>_. Map.empty), connect = [], dialers = [],
     mcache = \<lparr>msgs = Map.empty, peertx = Map.empty, history = replicate 9 [], mc_gossip = 6, msgID = ex_msgid\<rparr>,
     rscore = Some ex_score, gtracer = Some (gt_Start (newMsgIdGenerator Data) (3 * Second) (newGossipTracer Data)), doPX = False, acceptPXThreshold = 0, gossipThreshold = -10,
     publishThreshold = -20, graylistThreshold = -30, opportunisticGraftThreshold = 1, floodPublish = False, heartbeatTicks = 0,
     p_self = ''self'', p_bitmasks = [[1] \<mapsto> [''p'', ''q'', ''r'']], p_peers = Map.empty, p_done = False,
     p_idGen = newMsgIdGenerator Data, p_seen = (\<lambda>_. False), p_peerFilter = (\<lambda>_ _. True), p_softMax = 1000, p_hardMax = 2000,
     rpc_size = (\<lambda>r. int (length (Publish r))), peer_record = (\<lambda>_. None), record_peer = (\<lambda>_. None), rnd = (\<lambda>_. 0)\<rparr>"

lemma ex_router_simps [simp]:
  "params ex_router = DefaultBlossomSubParams" "mesh ex_router = [([1], [''p'', ''q''])]" "direct ex_router = [''d'']"
  "outbound ex_router = (\<lambda>p. p = ''q'')" "prune_backoff ex_router = (\<lambda>_. Map.empty)" "rscore ex_router = Some ex_score"
  "p_peerFilter ex_router = (\<lambda>_ _. True)" "p_bitmasks ex_router = [[1] \<mapsto> [''p'', ''q'', ''r'']]" "feature ex_router = BlossomSubDefaultFeatures"
  "p_peers ex_router = Map.empty"
  by (simp_all add: ex_router_def)

lemma default_sane: "params_sane DefaultBlossomSubParams"
  by (simp add: params_sane_def DefaultBlossomSubParams_def)

lemma ex_router_ok: "rt_ok ex_router"
  using ex_score_ok(1) default_sane
  by (simp add: rt_ok_def ex_router_def mesh_inv_def peer_map_ok_def count_inv_def ctl_inv_def score_inv_def tracer_inv_def cache_inv_def
      total_features_def topics_ok_def BlossomSubDefaultFeatures_def DefaultBlossomSubParams_def newGossipTracer_ok)


section \<open>The heartbeat\<close>

text \<open>
  C5. A heartbeat always returns and keeps the router's invariant; afterwards the same bitmasks are joined, no mesh holds a direct
  peer or a peer whose score (after the heartbeat's own penalties) is negative, every mesh has at most Dhi peers plus the outbound quota and
  the opportunistic grafts, and every peer that left a mesh is backed off for at least PruneBackoff.\<close>

theorem heartbeat_tidies_meshes:
  assumes "rt_ok s"
  shows "\<exists>s'. heartbeat now s = Some s' \<and> rt_ok s' \<and> fst ` set (mesh s') = fst ` set (mesh s)
     \<and> (\<forall>bm p. p \<in> set (mesh_of s' bm) \<longrightarrow> p \<notin> set (direct s) \<and> (\<exists>x. PeerScore (heartbeat_start now s) p = Some x \<and> 0 \<le> x))
     \<and> (0 < OpportunisticGraftPeers (params s) \<longrightarrow>
          (\<forall>bm. int (length (mesh_of s' bm)) \<le> Dhi (params s) + max 0 (Dout (params s)) + OpportunisticGraftPeers (params s)))
     \<and> (\<forall>bm p. p \<in> set (mesh_of s bm) - set (mesh_of s' bm) \<longrightarrow> (\<exists>t. prune_backoff s' bm p = Some t \<and> now + PruneBackoff (params s) \<le> t))"
proof -
  let ?S = "\<lambda>p. the (PeerScore (heartbeat_start now s) p)"
  have "score_inv (rscore (heartbeat_start now s))" using rt_okD(4) heartbeat_start_ok(1) [OF assms] by blast
  from PeerScore_yields [OF this, of "\<lambda>_. True"] have S: "PeerScore (heartbeat_start now s) p = Some (?S p)" for p by (auto simp: yields_iff)
  from heartbeat_post [OF assms, of now ?S, OF S] obtain s' where s': "heartbeat now s = Some s'" "rt_ok s'" "mesh_post ?S now s s'"
    unfolding yields_iff by blast
  have t: "tidy ?S now s s' bm" for bm using s'(3) by (simp add: mesh_post_def)
  have 1: "\<forall>bm p. p \<in> set (mesh_of s' bm) \<longrightarrow> p \<notin> set (direct s) \<and> (\<exists>x. PeerScore (heartbeat_start now s) p = Some x \<and> 0 \<le> x)"
  proof (intro allI impI)
    fix bm p
    assume p: "p \<in> set (mesh_of s' bm)"
    have "direct s' = direct s" using s'(3) by (simp add: mesh_post_def)
    then have "p \<notin> set (direct s)" using mesh_of_ok(1) [OF s'(2), of bm] p by auto
    moreover have "0 \<le> ?S p" using t [of bm] p by (simp add: tidy_def)
    ultimately show "p \<notin> set (direct s) \<and> (\<exists>x. PeerScore (heartbeat_start now s) p = Some x \<and> 0 \<le> x)" using S [of p] by blast
  qed
  have 2: "0 < OpportunisticGraftPeers (params s) \<longrightarrow>
      (\<forall>bm. int (length (mesh_of s' bm)) \<le> Dhi (params s) + max 0 (Dout (params s)) + OpportunisticGraftPeers (params s))"
    using t by (simp add: tidy_def mesh_max_def)
  have 3: "\<forall>bm p. p \<in> set (mesh_of s bm) - set (mesh_of s' bm) \<longrightarrow> (\<exists>t. prune_backoff s' bm p = Some t \<and> now + PruneBackoff (params s) \<le> t)"
    using t by (simp add: tidy_def backed_for_def)
  have "fst ` set (mesh s') = fst ` set (mesh s)" using s'(3) by (simp add: mesh_post_def)
  with s'(1,2) 1 2 3 show ?thesis by (intro exI [of _ s'] conjI)
qed

theorem heartbeat_tidies_meshes_witness:
  "rt_ok ex_router \<and> (\<exists>s'. heartbeat 7 ex_router = Some s' \<and> fst ` set (mesh s') = {[1]} \<and> ''d'' \<notin> set (mesh_of s' [1]) \<and> length (mesh_of s' [1]) \<le> 16)"
proof -
  have prm: "0 < OpportunisticGraftPeers (params ex_router)"
    "Dhi (params ex_router) + max 0 (Dout (params ex_router)) + OpportunisticGraftPeers (params ex_router) = 16"
    by (simp_all add: DefaultBlossomSubParams_def)
  obtain s' where s': "heartbeat 7 ex_router = Some s'" "fst ` set (mesh s') = fst ` set (mesh ex_router)"
    "\<forall>bm p. p \<in> set (mesh_of s' bm) \<longrightarrow> p \<notin> set (direct ex_router) \<and> (\<exists>x. PeerScore (heartbeat_start 7 ex_router) p = Some x \<and> 0 \<le> x)"
    "\<forall>bm. int (length (mesh_of s' bm)) \<le> Dhi (params ex_router) + max 0 (Dout (params ex_router)) + OpportunisticGraftPeers (params ex_router)"
    using heartbeat_tidies_meshes [OF ex_router_ok, of 7] prm(1) by blast
  have "''d'' \<notin> set (mesh_of s' [1])" using s'(3) by auto
  moreover have "length (mesh_of s' [1]) \<le> 16" using spec [OF s'(4), of "[1]"] unfolding prm(2) by simp
  ultimately show ?thesis using s'(1,2) ex_router_ok by (intro conjI exI [of _ s']) simp_all
qed


text \<open>
  C7. An overfull mesh (more than Dhi peers) is pruned to exactly D of its peers. With an outbound quota that leaves room
  for the Dscore best peers, the peers kept include Dscore peers whose scores are at least those of all others, and the outbound quota as far as the mesh
  can meet it; every pruned peer is backed off.\<close>

theorem prune_excess_keeps_best:
  assumes ok: "rt_ok s" and old: "map_of (mesh s) bm = Some old" "int (length old) > Dhi (params s)"
    and quota: "0 \<le> Dout (params s)" "Dscore (params s) + Dout (params s) \<le> D (params s)"
  shows "\<exists>h new. prune_excess bm now \<lparr>hb = s, scores = Map.empty, tograft = [], toprune = [], noPX = (\<lambda>_. False)\<rparr> = Some h
     \<and> new = mesh_of (hb h) bm \<and> int (length new) = D (params s) \<and> set new \<subseteq> set old
     \<and> (\<exists>T \<subseteq> set new. int (card T) = Dscore (params s) \<and> (\<forall>p \<in> T. \<forall>q \<in> set old - T. the (PeerScore s q) \<le> the (PeerScore s p)))
     \<and> min (Dout (params s)) (int (length (filter (outbound s) old))) \<le> int (length (filter (outbound s) new))
     \<and> (\<forall>p \<in> set old - set new. \<exists>t. prune_backoff (hb h) bm p = Some t \<and> now + PruneBackoff (params s) \<le> t)"
proof -
  let ?h = "\<lparr>hb = s, scores = Map.empty, tograft = [], toprune = [], noPX = (\<lambda>_. False)\<rparr>" and ?S = "\<lambda>p. the (PeerScore s p)"
  let ?K = "fst ` set (mesh s)"
  have "PeerScore s p = Some (?S p)" for p using PeerScore_yields [OF rt_okD(4) [OF ok], of "\<lambda>_. True" p] by (auto simp: yields_iff)
  then have inv: "hb_inv ?K (direct s) (params s) ?S ?h" using ok by (simp add: hb_inv_def cache_law_def)
  have bm: "bm \<in> ?K" using map_of_SomeD [OF old(1)] by force
  have m: "mesh_of s bm = old" using old(1) by (simp add: mesh_of_def)
  have big: "mesh_size ?h bm > Dhi (params s)" using old(2) by (simp add: mesh_size_def m)
  obtain h where h: "prune_excess bm now ?h = Some h" "stage ?K (direct s) (params s) ?S now bm ?h h"
    "good_cut (params s) ?S (outbound s) old (mesh_of (hb h) bm)"
    using prune_excess_stage [OF inv bm rt_okD(8) [OF ok], of now] big m by (auto simp: yields_iff)
  have "hb_step now bm s (hb h)" using h(2) by (simp add: stage_def)
  then have "\<forall>p \<in> set old - set (mesh_of (hb h) bm). \<exists>t. prune_backoff (hb h) bm p = Some t \<and> now + PruneBackoff (params s) \<le> t"
    using m hb_stepD(4) by blast
  then show ?thesis using h(1,3) quota unfolding good_cut_def by blast
qed

definition ex_crowd :: "peer_id list" where
  "ex_crowd = map (\<lambda>c. [c]) ''pabcefghijklmno''"

lemma ex_crowd_ok: "rt_ok (ex_router\<lparr>mesh := [([1], ex_crowd)]\<rparr>)"
  by (rule rt_ok_upd(4) [OF ex_router_ok]) (simp add: mesh_inv_def peer_map_ok_def ex_crowd_def ex_router_def)

theorem prune_excess_keeps_best_witness:
  "\<exists>h. prune_excess [1] 7 \<lparr>hb = ex_router\<lparr>mesh := [([1], ex_crowd)]\<rparr>, scores = Map.empty, tograft = [], toprune = [], noPX = (\<lambda>_. False)\<rparr> = Some h
     \<and> length (mesh_of (hb h) [1]) = 8 \<and> set (mesh_of (hb h) [1]) \<subseteq> set ex_crowd"
proof -
  let ?s = "ex_router\<lparr>mesh := [([1], ex_crowd)]\<rparr>"
  have "map_of (mesh ?s) [1] = Some ex_crowd" "int (length ex_crowd) > Dhi (params ?s)" "0 \<le> Dout (params ?s)" "Dscore (params ?s) + Dout (params ?s) \<le> D (params ?s)"
    "D (params ?s) = 8" by (simp_all add: ex_crowd_def DefaultBlossomSubParams_def)
  then show ?thesis using prune_excess_keeps_best [OF ex_crowd_ok, of "[1]" ex_crowd 7] by fastforce
qed

section \<open>GRAFT\<close>

text \<open>
  C6. Handling the GRAFT messages of a peer always returns. The peer joins exactly those requested meshes that the
  router has joined, that the peer filter allows, in which the peer is neither a member nor a direct peer nor backed off, with a
  non-negative score and room in the mesh or an outbound connection. No other mesh membership changes, and exactly the other requests for joined and allowed meshes
  the peer is not in are answered with a PRUNE.\<close>

theorem handleGraft_exact:
  assumes ok: "rt_ok s" and sc: "PeerScore s p = Some sc"
  shows "\<exists>prune s'. handleGraft p ctl now s = Some (prune, s') \<and> rt_ok s'
     \<and> (\<forall>bm. mesh_of s' bm = mesh_of s bm @ (if bm \<in> GraftBitmask ` set (elems (Graft ctl)) \<and> p_peerFilter s p bm \<and> map_of (mesh s) bm \<noteq> None
          \<and> p \<notin> set (mesh_of s bm) \<and> p \<notin> set (direct s) \<and> (case prune_backoff s bm p of None \<Rightarrow> True | Some t \<Rightarrow> t \<le> now) \<and> 0 \<le> sc
          \<and> (int (length (mesh_of s bm)) < Dhi (params s) \<or> outbound s p) then [p] else []))
     \<and> PruneBitmask ` set (elems prune) = {bm \<in> GraftBitmask ` set (elems (Graft ctl)). p_peerFilter s p bm \<and> map_of (mesh s) bm \<noteq> None \<and> p \<notin> set (mesh_of s' bm)}"
proof -
  let ?G = "GraftBitmask ` set (elems (Graft ctl))"
  obtain prune s' where h: "handleGraft p ctl now s = Some (prune, s')" "graft_final p sc now ?G {} s (PruneBitmask ` set (elems prune)) s'"
    using handleGraft_post [OF ok sc, of ctl now] by (auto simp: yields_iff)
  have ib: "in_backoff s bm p now \<longleftrightarrow> \<not> (case prune_backoff s bm p of None \<Rightarrow> True | Some t \<Rightarrow> t \<le> now)" for bm
    by (auto simp: in_backoff_def split: option.split)
  have m: "mesh_of s' bm = mesh_of s bm @ (if bm \<in> ?G \<and> graft_ok s p sc now bm then [p] else [])" for bm
    using h(2) by (simp add: graft_final_def)
  have "{bm \<in> ?G. graft_open s p bm \<and> \<not> graft_ok s p sc now bm} = {bm \<in> ?G. p_peerFilter s p bm \<and> map_of (mesh s) bm \<noteq> None \<and> p \<notin> set (mesh_of s' bm)}"
    unfolding m by (auto simp: graft_open_def joined_def graft_ok_def)
  then have "PruneBitmask ` set (elems prune) = {bm \<in> ?G. p_peerFilter s p bm \<and> map_of (mesh s) bm \<noteq> None \<and> p \<notin> set (mesh_of s' bm)}"
    using h(2) by (simp add: graft_final_def)
  moreover have "rt_ok s'" using h(2) by (simp add: graft_final_def)
  moreover have "mesh_of s' bm = mesh_of s bm @ (if bm \<in> ?G \<and> p_peerFilter s p bm \<and> map_of (mesh s) bm \<noteq> None
          \<and> p \<notin> set (mesh_of s bm) \<and> p \<notin> set (direct s) \<and> (case prune_backoff s bm p of None \<Rightarrow> True | Some t \<Rightarrow> t \<le> now) \<and> 0 \<le> sc
          \<and> (int (length (mesh_of s bm)) < Dhi (params s) \<or> outbound s p) then [p] else [])" for bm
    unfolding m graft_ok_def graft_open_def joined_def ib by (simp only: not_not conj_assoc)
  ultimately show ?thesis using h(1) by (intro exI [of _ prune] exI [of _ s'] conjI allI)
qed

theorem handleGraft_exact_witness:
  "\<exists>prune s'. handleGraft ''r'' \<lparr>Ihave = [], Iwant = [], Graft = Some [\<lparr>GraftBitmask = [1]\<rparr>, \<lparr>GraftBitmask = [2]\<rparr>], Prune = None, Idontwant = []\<rparr> 7 ex_router = Some (prune, s')
     \<and> mesh_of s' [1] = [''p'', ''q'', ''r''] \<and> PruneBitmask ` set (elems prune) = {}"
proof -
  have sc: "PeerScore ex_router ''r'' = Some 0"
    by (simp add: PeerScore_def Score_def score_def ex_score_def newPeerScore_def)
  let ?ctl = "\<lparr>Ihave = [], Iwant = [], Graft = Some [\<lparr>GraftBitmask = [1]\<rparr>, \<lparr>GraftBitmask = [2]\<rparr>], Prune = None, Idontwant = []\<rparr>"
  have ex: "mesh_of ex_router [1] = [''p'', ''q'']" "Dhi DefaultBlossomSubParams = 12" by (simp_all add: mesh_of_def DefaultBlossomSubParams_def)
  obtain prune s' where h: "handleGraft ''r'' ?ctl 7 ex_router = Some (prune, s')"
    "\<forall>bm. mesh_of s' bm = mesh_of ex_router bm @ (if bm \<in> GraftBitmask ` set (elems (Graft ?ctl)) \<and> p_peerFilter ex_router ''r'' bm \<and> map_of (mesh ex_router) bm \<noteq> None
          \<and> ''r'' \<notin> set (mesh_of ex_router bm) \<and> ''r'' \<notin> set (direct ex_router) \<and> (case prune_backoff ex_router bm ''r'' of None \<Rightarrow> True | Some t \<Rightarrow> t \<le> 7) \<and> 0 \<le> (0 :: real)
          \<and> (int (length (mesh_of ex_router bm)) < Dhi (params ex_router) \<or> outbound ex_router ''r'') then [''r''] else [])"
    "PruneBitmask ` set (elems prune) = {bm \<in> GraftBitmask ` set (elems (Graft ?ctl)). p_peerFilter ex_router ''r'' bm \<and> map_of (mesh ex_router) bm \<noteq> None \<and> ''r'' \<notin> set (mesh_of s' bm)}"
    using handleGraft_exact [OF ex_router_ok sc, of ?ctl 7] by blast
  have m: "mesh_of s' [1] = [''p'', ''q'', ''r'']" using spec [OF h(2), of "[1]"] by (simp add: ex)
  have "PruneBitmask ` set (elems prune) = {}" unfolding h(3) using m by auto
  with h(1) m show ?thesis by blast
qed


section \<open>Publishing\<close>

definition barred :: "router \<Rightarrow> Message \<Rightarrow> peer_id \<Rightarrow> bool" where
  "barred s msg q \<longleftrightarrow> q = ReceivedFrom msg \<or> q = GetFrom msg \<or> unwants s q (mid_of (p_idGen s) msg)"

definition pub_frame :: "router \<Rightarrow> router \<Rightarrow> bool" where
  "pub_frame s s' \<longleftrightarrow> p_peers s' = p_peers s \<and> unwanted s' = unwanted s \<and> p_idGen s' = p_idGen s"

lemma pub_frame_trans: "pub_frame a b \<Longrightarrow> pub_frame b c \<Longrightarrow> pub_frame a c"
  by (simp add: pub_frame_def)

lemma barred_frame: "pub_frame s s' \<Longrightarrow> barred s' msg q = barred s msg q"
  by (simp add: barred_def pub_frame_def unwants_def)

lemma getPeers_frame: "getPeers bm n f c s = Some (ps, c', s') \<Longrightarrow> pub_frame s s'"
  by (auto simp: getPeers_def pub_frame_def case_prod_unfold Let_def split: bind_splits option.splits)

lemma mesh_or_fanout_frame: "mesh_or_fanout sl now s = Some (g, s') \<Longrightarrow> pub_frame s s'"
proof (cases "map_of (mesh s) sl")
  case None
  assume "mesh_or_fanout sl now s = Some (g, s')"
  then show ?thesis using None unfolding mesh_or_fanout_def
    by (auto simp: case_prod_unfold split: bind_splits if_splits dest!: getPeers_frame) (simp_all add: pub_frame_def split: if_splits)
qed (simp add: mesh_or_fanout_def pub_frame_def)

lemma publish_slice_frame:
  assumes "publish_slice msg now sl s = Some (r, s')"
  shows "pub_frame s s' \<and> (\<forall>ts. r = Some ts \<longrightarrow> list_all (\<lambda>q. \<not> barred s msg q) ts)"
proof -
  have "pub_frame s s'" using assms unfolding publish_slice_def
    by (auto simp: case_prod_unfold Let_def split: option.splits bind_splits if_splits dest!: mesh_or_fanout_frame) (simp_all add: pub_frame_def)
  moreover have "list_all (\<lambda>q. \<not> barred s' msg q) ts" if "r = Some ts" for ts using assms that unfolding publish_slice_def
    by (auto simp: case_prod_unfold Let_def list_all_iff barred_def split: option.splits bind_splits)
  ultimately show ?thesis using barred_frame [of s s'] by (simp add: list_all_iff)
qed

lemma publish_slices_frame:
  assumes "publish_slices msg now sls acc s = Some (r, s')" "list_all (list_all (\<lambda>q. \<not> barred s msg q)) acc"
  shows "pub_frame s s' \<and> (\<forall>all. r = Some all \<longrightarrow> list_all (list_all (\<lambda>q. \<not> barred s msg q)) all)"
  using assms
proof (induction sls arbitrary: acc s)
  case (Cons sl sls)
  from Cons.prems(1) obtain x t where x: "publish_slice msg now sl s = Some (x, t)" by (auto split: bind_splits)
  have t: "pub_frame s t" "\<forall>ts. x = Some ts \<longrightarrow> list_all (\<lambda>q. \<not> barred s msg q) ts" using publish_slice_frame [OF x] by simp_all
  have b: "barred t msg = barred s msg" using barred_frame [OF t(1)] by (simp add: fun_eq_iff)
  show ?case
  proof (cases x)
    case (Some ts)
    have "list_all (list_all (\<lambda>q. \<not> barred t msg q)) (if ts = [] then acc else acc @ [ts])" using t(2) Some Cons.prems(2) b by simp
    from Cons.IH [OF _ this] show ?thesis using Cons.prems(1) x Some b pub_frame_trans [OF t(1)] by simp
  qed (use Cons.prems(1) x t(1) in simp)
qed (auto simp: pub_frame_def)

lemma sendRPC_other:
  assumes "q \<noteq> p"
  shows "p_peers (sendRPC p out fast s) q = p_peers s q"
proof -
  have drop: "p_peers (doDropRPC rpc p s) = p_peers s" for rpc s
    by (simp add: doDropRPC_def pushControl_def Let_def split: option.split)
  have send: "p_peers (doSendRPC rpc p c fast s) q = p_peers s q" for rpc c s
    using assms by (simp add: doSendRPC_def Let_def case_prod_unfold drop split: option.split)
  have "p_peers (send_part out p fast rpc s) q = p_peers s q" for out rpc s by (simp add: send_part_def drop send split: option.split)
  then have "p_peers (fold (send_part out p fast) rs s) q = p_peers s q" for out rs s by (induction rs arbitrary: s) simp_all
  then show ?thesis unfolding sendRPC_def
    by (simp add: take_control_def take_gossip_def send Let_def case_prod_unfold split: option.split)
qed

text \<open>
  C8. Publishing a message always returns, and queues nothing for the peer the message came from, for its author, or for a peer
  that announced with IDONTWANT that it has the message.\<close>

theorem Publish_no_echo:
  assumes "rt_ok s"
  shows "\<exists>s'. rt_Publish msg now s = Some s' \<and> (\<forall>q. q = ReceivedFrom msg \<or> q = GetFrom msg \<or> unwants s q (mid_of (p_idGen s) msg)
     \<longrightarrow> p_peers s' q = p_peers s q)"
proof -
  obtain s' where s': "rt_Publish msg now s = Some s'" using Publish_rt [OF assms, of msg now] by (auto simp: yields_iff)
  have "p_peers s' q = p_peers s q" if q: "barred s msg q" for q
  proof -
    obtain mc where mc: "Put msg (mcache s) = Some mc" using s' by (auto simp: rt_Publish_def split: bind_splits)
    let ?s = "s\<lparr>mcache := mc\<rparr>"
    obtain r t where rt: "publish_slices msg now (SliceBitmask (GetBitmask msg)) [] ?s = Some (r, t)" using s' mc by (auto simp: rt_Publish_def split: bind_splits)
    have f: "pub_frame s ?s" "pub_frame ?s t" "\<forall>all. r = Some all \<longrightarrow> list_all (list_all (\<lambda>q. \<not> barred s msg q)) all"
      using publish_slices_frame [OF rt] barred_frame [of s ?s] by (simp_all add: pub_frame_def)
    have t: "p_peers t = p_peers s" using f(1,2) by (simp add: pub_frame_def)
    have fold: "p_peers (fold (\<lambda>p. sendRPC p (rpcWithMessages [pbm msg]) False) ps u) q = p_peers u q" if "q \<notin> set ps" for ps u
      using that by (induction ps arbitrary: u) (auto simp: sendRPC_other)
    have "p_peers (fold (\<lambda>p. sendRPC p (rpcWithMessages [pbm msg]) False) (fst (range_of ts u)) (snd (range_of ts u))) q = p_peers u q"
      if "list_all (\<lambda>q. \<not> barred s msg q) ts" for ts u
      using that q by (subst fold) (auto simp: list_all_iff, simp add: range_of_def case_prod_unfold Let_def)
    moreover have "list_all (\<lambda>q. \<not> barred s msg q) ((x # xs) ! (k mod Suc (length xs)))" if r: "r = Some (x # xs)" for x xs k
    proof -
      have "list_all (list_all (\<lambda>q. \<not> barred s msg q)) (x # xs)" using f(3) r by blast
      then show ?thesis unfolding list_all_length [of _ "x # xs"] by simp
    qed
    ultimately show ?thesis using s' mc rt t unfolding rt_Publish_def
      by (auto simp: case_prod_unfold Let_def Intn_def split: option.splits list.splits)
  qed
  then show ?thesis using s' unfolding barred_def by blast
qed

theorem Publish_no_echo_witness:
  "\<exists>s'. rt_Publish \<lparr>pbm = \<lparr>From = None, Data = [7], Seqno = None, MBitmask = [1], Signature = None, Key = None\<rparr>, ID = [], ReceivedFrom = ''q'', Local = False\<rparr> 5 ex_router = Some s'
     \<and> p_peers s' ''q'' = None"
  using Publish_no_echo [OF ex_router_ok, of "\<lparr>pbm = \<lparr>From = None, Data = [7], Seqno = None, MBitmask = [1], Signature = None, Key = None\<rparr>, ID = [], ReceivedFrom = ''q'', Local = False\<rparr>" 5]
  by auto


section \<open>Networks other than 0\<close>

text \<open>
  C39. A router built for a network other than 0 panics when it selects peers among subscribers one of which
  has no recorded protocol, as a peer whose stream to us opened before ours to it: the feature test
  of such a router indexes a second protocol, and the list of protocols has one entry.\<close>

theorem network_router_panics:
  assumes "NewBlossomSubRouter prm network base = Some s" "network \<noteq> 0" "feature t = feature s"
    and "SliceBitmask bm = [bm]" "p_bitmasks t bm = Some tmap" "p \<in> set tmap" "peers t p = None"
  shows "getPeers bm n filt c t = None"
proof -
  have "protos s = [network_proto network BlossomSubID_v21] \<and> feature s = network_features [network_proto network BlossomSubID_v21]"
    using assms(1,2) by (auto simp: NewBlossomSubRouter_def fresh_router_def BlossomSubDefaultProtocols_def Let_def split: bind_splits if_splits)
  then have f: "feature t BlossomSubFeatureMesh [] = None" using assms(3) by (simp add: network_features_def go_nth_def network_proto_def BlossomSubID_v21_def)
  have e: "eligible t filt bm p c = None" for c using f assms(7) by (simp add: eligible_def has_feature_def proto_of_def)
  have "filter_opt (eligible t filt bm) xs c = None" if "p \<in> set xs" for xs c
    using that by (induction xs arbitrary: c) (auto simp: e split: bind_splits)
  then show ?thesis using assms(4-6) by (simp add: getPeers_def)
qed

theorem network_router_panics_witness:
  "\<exists>s. NewBlossomSubRouter DefaultBlossomSubParams 2 ex_router = Some s \<and> getPeers [1] 8 (plain (\<lambda>_. Some True)) () s = None"
proof -
  obtain s where s: "NewBlossomSubRouter DefaultBlossomSubParams 2 ex_router = Some s" "p_bitmasks s [1] = Some [''p'', ''q'', ''r'']" "peers s = Map.empty"
    by (simp add: NewBlossomSubRouter_def fresh_router_def NewMessageCache_def DefaultBlossomSubParams_def Let_def)
  have "SliceBitmask [1] = [[1]]" by code_simp
  then show ?thesis using network_router_panics [OF s(1), of s "[1]" "[''p'', ''q'', ''r'']" "''r''" 8 "plain (\<lambda>_. Some True)" "()"] s by auto
qed

end
