(* ===== verification/Peer_Gater.thy ===== *)
theory Peer_Gater
  imports Pubsub_Types "HOL-Library.AList" Complex_Main
begin

text \<open>
  The peer gater of \<^verbatim>\<open>peer_gater.go\<close>, which throttles peers before validation when the validation queue overflows.
  Statistics are objects shared by all peers of an address, so they live in an explicit store; \<^verbatim>\<open>peerStats\<close> and
  \<^verbatim>\<open>ipStats\<close> hold their addresses. The connections of a peer, the clock and the draw of \<^verbatim>\<open>rand.Float64\<close>
  are arguments, floating-point numbers are reals, and \<open>None\<close> as a time is Go's zero time.
\<close>

section \<open>Parameters\<close>

record PeerGaterParams =
  Threshold :: real
  GlobalDecay :: real
  SourceDecay :: real
  GDecayInterval :: int
  GDecayToZero :: real
  RetainStats :: int
  Quiet :: int
  DuplicateWeight :: real
  IgnoreWeight :: real
  RejectWeight :: real
  BitmaskDeliveryWeights :: "bitmask \<rightharpoonup> real"

datatype gater_error = InvalidThreshold | InvalidGlobalDecay | InvalidSourceDecay | InvalidDecayInterval | InvalidDecayToZero
  | InvalidQuiet | InvalidDuplicateWeight | InvalidIgnoreWeight | InvalidRejectWeight

definition gater_validate :: "PeerGaterParams \<Rightarrow> gater_error option" where
  "gater_validate p =
     (if Threshold p \<le> 0 then Some InvalidThreshold
      else if GlobalDecay p \<le> 0 \<or> GlobalDecay p \<ge> 1 then Some InvalidGlobalDecay
      else if SourceDecay p \<le> 0 \<or> SourceDecay p \<ge> 1 then Some InvalidSourceDecay
      else if GDecayInterval p < Second then Some InvalidDecayInterval
      else if GDecayToZero p \<le> 0 \<or> GDecayToZero p \<ge> 1 then Some InvalidDecayToZero
      else if Quiet p < Second then Some InvalidQuiet
      else if DuplicateWeight p \<le> 0 then Some InvalidDuplicateWeight
      else if IgnoreWeight p < 1 then Some InvalidIgnoreWeight
      else if RejectWeight p < 1 then Some InvalidRejectWeight
      else None)"

definition WithBitmaskDeliveryWeights :: "(bitmask \<rightharpoonup> real) \<Rightarrow> PeerGaterParams \<Rightarrow> PeerGaterParams" where
  "WithBitmaskDeliveryWeights w p = p\<lparr>BitmaskDeliveryWeights := w\<rparr>"

definition NewPeerGaterParams :: "real \<Rightarrow> real \<Rightarrow> real \<Rightarrow> PeerGaterParams" where
  "NewPeerGaterParams thr globalDecay sourceDecay = \<lparr>Threshold = thr, GlobalDecay = globalDecay, SourceDecay = sourceDecay,
     GDecayInterval = Second, GDecayToZero = 1/100, RetainStats = 360 * Minute, Quiet = Minute, DuplicateWeight = 1/8,
     IgnoreWeight = 1, RejectWeight = 16, BitmaskDeliveryWeights = Map.empty\<rparr>"

section \<open>State\<close>

record peerGaterStats =
  g_connected :: int
  g_expire :: "time option"
  deliver :: real
  duplicate :: real
  ignore :: real
  reject :: real

record peerGater =
  g_params :: PeerGaterParams
  g_validate :: real
  g_throttle :: real
  lastThrottle :: "time option"
  g_peerStats :: "peer_id \<rightharpoonup> nat"
  g_ipStats :: "(string \<times> nat) list"
  g_store :: "nat \<Rightarrow> peerGaterStats"
  g_next :: nat

definition new_gater_stats :: peerGaterStats where
  "new_gater_stats = \<lparr>g_connected = 0, g_expire = None, deliver = 0, duplicate = 0, ignore = 0, reject = 0\<rparr>"

definition newPeerGater :: "PeerGaterParams \<Rightarrow> peerGater" where
  "newPeerGater params = \<lparr>g_params = params, g_validate = 0, g_throttle = 0, lastThrottle = None, g_peerStats = Map.empty,
     g_ipStats = [], g_store = (\<lambda>_. new_gater_stats), g_next = 0\<rparr>"

section \<open>Decay\<close>

definition g_decay :: "real \<Rightarrow> real \<Rightarrow> real \<Rightarrow> real" where
  "g_decay zero factor x = (if x * factor < zero then 0 else x * factor)"

definition decay_source :: "PeerGaterParams \<Rightarrow> peerGaterStats \<Rightarrow> peerGaterStats" where
  "decay_source p st = (let d = g_decay (GDecayToZero p) (SourceDecay p) in
     st\<lparr>deliver := d (deliver st), duplicate := d (duplicate st), ignore := d (ignore st), reject := d (reject st)\<rparr>)"

definition decay_ip :: "time \<Rightarrow> string \<times> nat \<Rightarrow> peerGater \<Rightarrow> peerGater" where
  "decay_ip now e pg = (case e of (ip, a) \<Rightarrow>
     if g_connected (g_store pg a) > 0 then pg\<lparr>g_store := (g_store pg)(a := decay_source (g_params pg) (g_store pg a))\<rparr>
     else if (case g_expire (g_store pg a) of None \<Rightarrow> True | Some t \<Rightarrow> t < now) then pg\<lparr>g_ipStats := AList.delete ip (g_ipStats pg)\<rparr>
     else pg)"

definition decayStats :: "time \<Rightarrow> peerGater \<Rightarrow> peerGater" where
  "decayStats now pg =
     (let d = g_decay (GDecayToZero (g_params pg)) (GlobalDecay (g_params pg));
          pg = pg\<lparr>g_validate := d (g_validate pg), g_throttle := d (g_throttle pg)\<rparr>
      in fold (decay_ip now) (g_ipStats pg) pg)"

section \<open>Statistics of a peer\<close>

record gater_conn =
  gc_limited :: bool
  gc_streams :: nat
  gc_ip :: "string option"

definition connToIP :: "gater_conn \<Rightarrow> string" where
  "connToIP c = (case gc_ip c of None \<Rightarrow> ''<unknown>'' | Some ip \<Rightarrow> ip)"

text \<open>Connections with equally many streams may come in any order; the list of connections is in an arbitrary order to begin with.\<close>

definition getPeerIP :: "gater_conn list \<Rightarrow> string" where
  "getPeerIP conns = (case conns of [] \<Rightarrow> ''<unknown>''
     | [c] \<Rightarrow> connToIP c
     | _ \<Rightarrow> connToIP (hd (sort_key (\<lambda>c. - (if gc_limited c then 0 else int (gc_streams c))) conns)))"

definition getIPStats :: "gater_conn list \<Rightarrow> peerGater \<Rightarrow> nat \<times> peerGater" where
  "getIPStats conns pg = (let ip = getPeerIP conns in
     case map_of (g_ipStats pg) ip of
       Some a \<Rightarrow> (a, pg)
     | None \<Rightarrow> let a = g_next pg in
         (a, pg\<lparr>g_store := (g_store pg)(a := new_gater_stats), g_next := Suc a, g_ipStats := (ip, a) # g_ipStats pg\<rparr>))"

definition getPeerStats :: "peer_id \<Rightarrow> gater_conn list \<Rightarrow> peerGater \<Rightarrow> nat \<times> peerGater" where
  "getPeerStats p conns pg = (case g_peerStats pg p of
       Some a \<Rightarrow> (a, pg)
     | None \<Rightarrow> let (a, pg) = getIPStats conns pg in (a, pg\<lparr>g_peerStats := (g_peerStats pg)(p \<mapsto> a)\<rparr>))"

definition on_gater_stats :: "peer_id \<Rightarrow> gater_conn list \<Rightarrow> (peerGaterStats \<Rightarrow> peerGaterStats) \<Rightarrow> peerGater \<Rightarrow> peerGater" where
  "on_gater_stats p conns f pg = (let (a, pg) = getPeerStats p conns pg in pg\<lparr>g_store := (g_store pg)(a := f (g_store pg a))\<rparr>)"

section \<open>The decision\<close>

datatype AcceptStatus = AcceptNone | AcceptControl | AcceptAll

definition goodput_total :: "PeerGaterParams \<Rightarrow> peerGaterStats \<Rightarrow> real" where
  "goodput_total p st = deliver st + DuplicateWeight p * duplicate st + IgnoreWeight p * ignore st + RejectWeight p * reject st"

definition gater_open :: "time \<Rightarrow> peerGater \<Rightarrow> bool" where
  "gater_open now pg \<longleftrightarrow> (case lastThrottle pg of None \<Rightarrow> True | Some t \<Rightarrow> now - t > Quiet (g_params pg))
     \<or> g_throttle pg = 0 \<or> g_validate pg \<noteq> 0 \<and> g_throttle pg / g_validate pg < Threshold (g_params pg)"

definition gater_AcceptFrom :: "peer_id \<Rightarrow> gater_conn list \<Rightarrow> time \<Rightarrow> real \<Rightarrow> peerGater \<Rightarrow> AcceptStatus \<times> peerGater" where
  "gater_AcceptFrom p conns now draw pg =
     (if gater_open now pg then (AcceptAll, pg)
      else let (a, pg) = getPeerStats p conns pg; st = g_store pg a; total = goodput_total (g_params pg) st in
        if total = 0 then (AcceptAll, pg)
        else let threshold = (1 + deliver st) / (1 + total) in
          if draw < threshold then (AcceptAll, pg) else (AcceptControl, pg))"

section \<open>Trace calls\<close>

definition gater_AddPeer :: "peer_id \<Rightarrow> gater_conn list \<Rightarrow> peerGater \<Rightarrow> peerGater" where
  "gater_AddPeer p conns = on_gater_stats p conns (\<lambda>st. st\<lparr>g_connected := g_connected st + 1\<rparr>)"

definition gater_RemovePeer :: "peer_id \<Rightarrow> gater_conn list \<Rightarrow> time \<Rightarrow> peerGater \<Rightarrow> peerGater" where
  "gater_RemovePeer p conns now pg =
     (let pg = on_gater_stats p conns (\<lambda>st. st\<lparr>g_connected := g_connected st - 1, g_expire := Some (now + RetainStats (g_params pg))\<rparr>) pg
      in pg\<lparr>g_peerStats := (g_peerStats pg)(p := None)\<rparr>)"

definition gater_ValidateMessage :: "peerGater \<Rightarrow> peerGater" where
  "gater_ValidateMessage pg = pg\<lparr>g_validate := g_validate pg + 1\<rparr>"

definition gater_DeliverMessage :: "Message \<Rightarrow> gater_conn list \<Rightarrow> peerGater \<Rightarrow> peerGater" where
  "gater_DeliverMessage msg conns pg =
     (let w = (case BitmaskDeliveryWeights (g_params pg) (GetBitmask msg) of None \<Rightarrow> 0 | Some w \<Rightarrow> w);
          weight = (if w = 0 then 1 else w)
      in on_gater_stats (ReceivedFrom msg) conns (\<lambda>st. st\<lparr>deliver := deliver st + weight\<rparr>) pg)"

definition gater_RejectMessage :: "Message \<Rightarrow> string \<Rightarrow> gater_conn list \<Rightarrow> time \<Rightarrow> peerGater \<Rightarrow> peerGater" where
  "gater_RejectMessage msg reason conns now pg =
     (if reason = RejectValidationQueueFull \<or> reason = RejectValidationThrottled
      then pg\<lparr>lastThrottle := Some now, g_throttle := g_throttle pg + 1\<rparr>
      else if reason = RejectValidationIgnored then on_gater_stats (ReceivedFrom msg) conns (\<lambda>st. st\<lparr>ignore := ignore st + 1\<rparr>) pg
      else on_gater_stats (ReceivedFrom msg) conns (\<lambda>st. st\<lparr>reject := reject st + 1\<rparr>) pg)"

definition gater_DuplicateMessage :: "Message \<Rightarrow> gater_conn list \<Rightarrow> peerGater \<Rightarrow> peerGater" where
  "gater_DuplicateMessage msg conns = on_gater_stats (ReceivedFrom msg) conns (\<lambda>st. st\<lparr>duplicate := duplicate st + 1\<rparr>)"


section \<open>Runs of the gater\<close>

datatype gater_op = GAddPeer peer_id "gater_conn list" | GRemovePeer peer_id "gater_conn list" time | GValidate
  | GDeliver Message "gater_conn list" | GReject Message string "gater_conn list" time | GDuplicate Message "gater_conn list"
  | GDecay time | GAcceptFrom peer_id "gater_conn list" time real

fun gater_step :: "gater_op \<Rightarrow> peerGater \<Rightarrow> peerGater" where
  "gater_step (GAddPeer p c) pg = gater_AddPeer p c pg"
| "gater_step (GRemovePeer p c now) pg = gater_RemovePeer p c now pg"
| "gater_step GValidate pg = gater_ValidateMessage pg"
| "gater_step (GDeliver m c) pg = gater_DeliverMessage m c pg"
| "gater_step (GReject m r c now) pg = gater_RejectMessage m r c now pg"
| "gater_step (GDuplicate m c) pg = gater_DuplicateMessage m c pg"
| "gater_step (GDecay now) pg = decayStats now pg"
| "gater_step (GAcceptFrom p c now draw) pg = snd (gater_AcceptFrom p c now draw pg)"

text \<open>No counter is ever negative, provided no bitmask has a negative delivery weight.\<close>

definition stats_nonneg :: "peerGaterStats \<Rightarrow> bool" where
  "stats_nonneg st \<longleftrightarrow> 0 \<le> deliver st \<and> 0 \<le> duplicate st \<and> 0 \<le> ignore st \<and> 0 \<le> reject st"

definition weights_ok :: "PeerGaterParams \<Rightarrow> bool" where
  "weights_ok p \<longleftrightarrow> (\<forall>bm w. BitmaskDeliveryWeights p bm = Some w \<longrightarrow> 0 \<le> w)"

definition gater_ok :: "PeerGaterParams \<Rightarrow> peerGater \<Rightarrow> bool" where
  "gater_ok prm pg \<longleftrightarrow> g_params pg = prm \<and> (\<forall>a. stats_nonneg (g_store pg a))"

lemma getPeerStats_ok: "gater_ok prm pg \<Longrightarrow> gater_ok prm (snd (getPeerStats p c pg))"
  by (auto simp: getPeerStats_def getIPStats_def gater_ok_def Let_def new_gater_stats_def stats_nonneg_def split: option.split)

lemma on_gater_stats_ok: "gater_ok prm pg \<Longrightarrow> (\<And>st. stats_nonneg st \<Longrightarrow> stats_nonneg (f st)) \<Longrightarrow> gater_ok prm (on_gater_stats p c f pg)"
  using getPeerStats_ok [of prm pg p c] by (auto simp: on_gater_stats_def gater_ok_def case_prod_unfold Let_def)

lemma g_decay_nonneg: "0 \<le> x \<Longrightarrow> 0 < factor \<Longrightarrow> 0 \<le> g_decay z factor x"
  by (simp add: g_decay_def)

lemma decayStats_ok:
  assumes "gater_ok prm pg" "0 < SourceDecay prm"
  shows "gater_ok prm (decayStats now pg)"
proof -
  have step: "gater_ok prm (decay_ip now e pg)" if "gater_ok prm pg" for e pg
    using that assms(2) by (auto simp: decay_ip_def gater_ok_def decay_source_def stats_nonneg_def g_decay_nonneg Let_def split: prod.split option.split)
  have "gater_ok prm (fold (decay_ip now) es pg)" if "gater_ok prm pg" for es pg
    using that by (induction es arbitrary: pg) (simp_all add: step)
  then show ?thesis using assms(1) by (simp add: decayStats_def gater_ok_def Let_def)
qed

lemma gater_step_ok:
  assumes "gater_ok prm pg" "0 < SourceDecay prm" "weights_ok prm"
  shows "gater_ok prm (gater_step x pg)"
proof (cases x)
  case (GAcceptFrom p c now draw)
  then show ?thesis using assms(1) getPeerStats_ok [OF assms(1)] by (simp add: gater_AcceptFrom_def case_prod_unfold Let_def)
next
  case (GDeliver m c)
  have "0 \<le> (case BitmaskDeliveryWeights prm (GetBitmask m) of None \<Rightarrow> 0 | Some w \<Rightarrow> w)" using assms(3) by (auto simp: weights_ok_def split: option.split)
  moreover have "g_params pg = prm" using assms(1) by (simp add: gater_ok_def)
  ultimately show ?thesis using GDeliver assms(1) by (auto simp: gater_DeliverMessage_def Let_def stats_nonneg_def intro!: on_gater_stats_ok)
next
  case (GRemovePeer p c now)
  have "gater_ok prm (on_gater_stats p c (\<lambda>st. st\<lparr>g_connected := g_connected st - 1, g_expire := e\<rparr>) pg)" for e
    using assms(1) by (rule on_gater_stats_ok) (simp add: stats_nonneg_def)
  then show ?thesis using GRemovePeer by (simp add: gater_RemovePeer_def gater_ok_def Let_def)
next
  case (GReject m r c now)
  then show ?thesis using assms(1)
    by (auto simp: gater_RejectMessage_def stats_nonneg_def intro!: on_gater_stats_ok) (simp_all add: gater_ok_def stats_nonneg_def)
qed (use assms in \<open>auto simp: gater_AddPeer_def gater_DuplicateMessage_def gater_ValidateMessage_def stats_nonneg_def decayStats_ok intro!: on_gater_stats_ok\<close>,
     simp add: gater_ok_def)

lemma gater_run_ok: "0 < SourceDecay prm \<Longrightarrow> weights_ok prm \<Longrightarrow> gater_ok prm (fold gater_step xs (newPeerGater prm))"
proof -
  assume prm: "0 < SourceDecay prm" "weights_ok prm"
  have "gater_ok prm (fold gater_step xs pg)" if "gater_ok prm pg" for pg
    using that by (induction xs arbitrary: pg) (simp_all add: gater_step_ok prm)
  then show ?thesis by (simp add: newPeerGater_def gater_ok_def new_gater_stats_def stats_nonneg_def)
qed

section \<open>The probability of acceptance\<close>

definition gater_threshold :: "peer_id \<Rightarrow> gater_conn list \<Rightarrow> time \<Rightarrow> peerGater \<Rightarrow> real" where
  "gater_threshold p c now pg =
     (if gater_open now pg then 1
      else let (a, pg) = getPeerStats p c pg; st = g_store pg a in (1 + deliver st) / (1 + goodput_total (g_params pg) st))"

lemma gater_validateD:
  assumes "gater_validate prm = None"
  shows "0 < SourceDecay prm" "0 < DuplicateWeight prm" "0 < IgnoreWeight prm" "0 < RejectWeight prm"
  using assms by (auto simp: gater_validate_def split: if_splits)

lemma goodput_bounds:
  assumes "gater_validate prm = None" "stats_nonneg st"
  shows "deliver st \<le> goodput_total prm st" "0 \<le> deliver st" "duplicate st = 0 \<and> ignore st = 0 \<and> reject st = 0 \<Longrightarrow> goodput_total prm st = deliver st"
  using assms(2) gater_validateD [OF assms(1)] by (auto simp: goodput_total_def stats_nonneg_def)

text \<open>
  C33. After every run of a gater with validated parameters and non-negative delivery weights, a peer is never
  refused outright: there is a probability above 0 and at most 1, the goodput ratio of its address, such that its messages are accepted exactly for the
  draws below it. The probability is 1 while the gater is off and for a peer whose address has
  no duplicate, ignored or rejected messages.\<close>

theorem gater_never_sinks:
  assumes "gater_validate prm = None" "weights_ok prm" and pg: "pg = fold gater_step xs (newPeerGater prm)"
  shows "0 < gater_threshold p c now pg \<and> gater_threshold p c now pg \<le> 1
    \<and> (0 \<le> draw \<and> draw < 1 \<longrightarrow> fst (gater_AcceptFrom p c now draw pg) = (if draw < gater_threshold p c now pg then AcceptAll else AcceptControl))
    \<and> (gater_open now pg \<longrightarrow> gater_threshold p c now pg = 1)
    \<and> (\<forall>a pg' st. getPeerStats p c pg = (a, pg') \<and> st = g_store pg' a \<and> duplicate st = 0 \<and> ignore st = 0 \<and> reject st = 0 \<longrightarrow> gater_threshold p c now pg = 1)"
proof -
  obtain a pg' where g: "getPeerStats p c pg = (a, pg')" by force
  have "gater_ok prm pg" unfolding pg by (rule gater_run_ok [OF gater_validateD(1) [OF assms(1)] assms(2)])
  from getPeerStats_ok [OF this, of p c] have ok: "gater_ok prm pg'" by (simp add: g)
  let ?st = "g_store pg' a"
  have st: "stats_nonneg ?st" "g_params pg' = prm" using ok by (simp_all add: gater_ok_def)
  note b = goodput_bounds [OF assms(1) st(1)]
  have thr: "gater_threshold p c now pg = (if gater_open now pg then 1 else (1 + deliver ?st) / (1 + goodput_total prm ?st))"
    by (simp add: gater_threshold_def g st(2) Let_def)
  have pos: "0 < 1 + deliver ?st" "0 < 1 + goodput_total prm ?st" using b(1,2) by linarith+
  then have t: "0 < (1 + deliver ?st) / (1 + goodput_total prm ?st)" "(1 + deliver ?st) / (1 + goodput_total prm ?st) \<le> 1" using b(1) by auto
  have zero: "deliver ?st = 0" if "goodput_total prm ?st = 0" using b(1,2) that by linarith
  have one: "(1 + deliver ?st) / (1 + goodput_total prm ?st) = 1" if "duplicate ?st = 0 \<and> ignore ?st = 0 \<and> reject ?st = 0"
    using b(3) [OF that] pos by simp
  have "fst (gater_AcceptFrom p c now draw pg) = (if draw < gater_threshold p c now pg then AcceptAll else AcceptControl)" if "0 \<le> draw" "draw < 1"
    using that zero by (simp add: gater_AcceptFrom_def thr g st(2) Let_def)
  then show ?thesis using t one by (auto simp: thr g)
qed

theorem gater_never_sinks_witness:
  "gater_validate (NewPeerGaterParams (33/100) (9/10) (9/10)) = None
   \<and> 0 < gater_threshold ''p'' [] 5 (fold gater_step [GValidate, GReject \<lparr>pbm = \<lparr>From = None, Data = [], Seqno = None, MBitmask = [], Signature = None, Key = None\<rparr>, ID = [], ReceivedFrom = ''p'', Local = False\<rparr>
        RejectValidationThrottled [] 4, GDecay 5] (newPeerGater (NewPeerGaterParams (33/100) (9/10) (9/10))))"
proof -
  let ?prm = "NewPeerGaterParams (33/100) (9/10) (9/10)"
  have v: "gater_validate ?prm = None" "weights_ok ?prm"
    by (simp_all add: gater_validate_def NewPeerGaterParams_def weights_ok_def Second_def Minute_def Millisecond_def)
  show ?thesis using gater_never_sinks [OF v refl] v(1) by blast
qed


section \<open>Orphaned statistics\<close>

lemma decayStats_other:
  assumes "a \<notin> snd ` set (g_ipStats pg)"
  shows "g_store (decayStats now pg) a = g_store pg a \<and> a \<notin> snd ` set (g_ipStats (decayStats now pg))"
proof -
  have "g_store (fold (decay_ip now) es q) a = g_store q a \<and> a \<notin> snd ` set (g_ipStats (fold (decay_ip now) es q))"
    if "a \<notin> snd ` set es" "a \<notin> snd ` set (g_ipStats q)" for es q
    using that
  proof (induction es arbitrary: q)
    case (Cons e es)
    have "g_store (decay_ip now e q) a = g_store q a" using Cons.prems(1) by (auto simp: decay_ip_def split: prod.split option.split)
    moreover have "a \<notin> snd ` set (g_ipStats (decay_ip now e q))"
      using Cons.prems(2) by (auto simp: decay_ip_def AList.delete_eq split: prod.split option.split)
    ultimately show ?case using Cons by simp
  qed simp
  then show ?thesis using assms by (simp add: decayStats_def Let_def)
qed

text \<open>
  A message of a peer that arrives after the peer was removed makes the gater keep the
  address of its statistics for good. When the statistics of the IP address expire and the peer comes back, it is counted in an object that
  belongs to no IP address: its counters never decay while it is connected.\<close>

lemma gater_orphans_stats:
  fixes prm msg c
  defines "p \<equiv> ReceivedFrom msg"
  defines "pg \<equiv> fold gater_step [GAddPeer p c, GRemovePeer p c 0, GDuplicate msg c, GDecay (RetainStats prm + 1), GAddPeer p c] (newPeerGater prm)"
  shows "\<exists>a. g_peerStats pg p = Some a \<and> g_connected (g_store pg a) = 1 \<and> duplicate (g_store pg a) = 1
     \<and> map_of (g_ipStats pg) (getPeerIP c) = None \<and> g_store (fold decayStats ts pg) a = g_store pg a"
proof -
  have run: "g_peerStats pg p = Some 0" "g_connected (g_store pg 0) = 1" "duplicate (g_store pg 0) = 1" "g_ipStats pg = []"
    by (simp_all add: pg_def p_def gater_AddPeer_def gater_RemovePeer_def gater_DuplicateMessage_def on_gater_stats_def getPeerStats_def getIPStats_def
        newPeerGater_def new_gater_stats_def decayStats_def decay_ip_def Let_def case_prod_unfold)
  have "g_store (fold decayStats ts q) 0 = g_store q 0" if "0 \<notin> snd ` set (g_ipStats q)" for q
    using that by (induction ts arbitrary: q) (simp_all add: decayStats_other)
  then show ?thesis using run by (intro exI [of _ 0]) simp
qed

end
