(* ===== verification/Validation.thy ===== *)
theory Validation
  imports Pubsub_Types "HOL-Library.Monad_Syntax" "HOL-Library.Multiset"
begin

text \<open>
  The pure parts of message validation: signature policies and signatures (\<^verbatim>\<open>sign.go\<close>, \<^verbatim>\<open>checkSigningPolicy\<close> of
  \<^verbatim>\<open>pubsub.go\<close>), the registry of validators and the combination of their verdicts (\<^verbatim>\<open>validation.go\<close>).
  User validators, cryptographic keys, peer identifiers (multihashes) and the protobuf encoding are external: they are arguments.
\<close>

unbundle bit_operations_syntax

section \<open>Signature policies\<close>

type_synonym MessageSignaturePolicy = "8 word"

definition msgSigning :: MessageSignaturePolicy where "msgSigning = 1"
definition msgVerification :: MessageSignaturePolicy where "msgVerification = 2"
definition StrictSign :: MessageSignaturePolicy where "StrictSign = msgSigning OR msgVerification"
definition StrictNoSign :: MessageSignaturePolicy where "StrictNoSign = msgVerification"
definition LaxSign :: MessageSignaturePolicy where "LaxSign = msgSigning"
definition LaxNoSign :: MessageSignaturePolicy where "LaxNoSign = 0"

definition mustVerify :: "MessageSignaturePolicy \<Rightarrow> bool" where
  "mustVerify policy \<longleftrightarrow> policy AND msgVerification \<noteq> 0"

definition mustSign :: "MessageSignaturePolicy \<Rightarrow> bool" where
  "mustSign policy \<longleftrightarrow> policy AND msgSigning \<noteq> 0"

text \<open>The reason of a rejection, or \<open>None\<close> for a message that passes.\<close>

definition checkSigningPolicy :: "MessageSignaturePolicy \<Rightarrow> peer_id \<Rightarrow> pbMessage \<Rightarrow> string option" where
  "checkSigningPolicy policy signID m =
     (if mustVerify policy then
        (if mustSign policy then
           (if Signature m = None then Some RejectMissingSignature else None)
         else if Signature m \<noteq> None then Some RejectUnexpectedSignature
         else if signID = [] \<and> (Seqno m \<noteq> None \<or> From m \<noteq> None \<or> Key m \<noteq> None) then Some RejectUnexpectedAuthInfo
         else None)
      else None)"

section \<open>Signatures\<close>

text \<open>What the code uses of keys, peer identifiers and the encoding of messages.\<close>

record ('sk, 'pk) key_ops =
  ko_IDFromBytes :: "bytes \<Rightarrow> peer_id option"
  ko_ExtractPublicKey :: "peer_id \<Rightarrow> 'pk option"
  ko_UnmarshalPublicKey :: "bytes \<Rightarrow> 'pk option"
  ko_MarshalPublicKey :: "'pk \<Rightarrow> bytes option"
  ko_MatchesPublicKey :: "peer_id \<Rightarrow> 'pk \<Rightarrow> bool"
  ko_GetPublic :: "'sk \<Rightarrow> 'pk"
  ko_Sign :: "'sk \<Rightarrow> bytes \<Rightarrow> bytes option"
  ko_Verify :: "'pk \<Rightarrow> bytes \<Rightarrow> bytes \<Rightarrow> bool option"
  ko_Marshal :: "pbMessage \<Rightarrow> bytes option"

definition SignPrefix :: bytes where
  "SignPrefix = map (\<lambda>c. of_char c) ''libp2p-pubsub:''"

definition withSignPrefix :: "bytes \<Rightarrow> bytes" where
  "withSignPrefix b = SignPrefix @ b"

definition messagePubKey :: "('sk, 'pk) key_ops \<Rightarrow> pbMessage \<Rightarrow> 'pk option" where
  "messagePubKey ko m = do {
     pid \<leftarrow> ko_IDFromBytes ko (elems (From m));
     case Key m of
       None \<Rightarrow> ko_ExtractPublicKey ko pid
     | Some k \<Rightarrow> do { pubk \<leftarrow> ko_UnmarshalPublicKey ko k; if ko_MatchesPublicKey ko pid pubk then Some pubk else None } }"

definition verifyMessageSignature :: "('sk, 'pk) key_ops \<Rightarrow> pbMessage \<Rightarrow> bool" where
  "verifyMessageSignature ko m = (case do {
       pubk \<leftarrow> messagePubKey ko m;
       b \<leftarrow> ko_Marshal ko (m\<lparr>Signature := None, Key := None\<rparr>);
       ko_Verify ko pubk (withSignPrefix b) (elems (Signature m)) } of
     None \<Rightarrow> False | Some valid \<Rightarrow> valid)"

definition signMessage :: "('sk, 'pk) key_ops \<Rightarrow> peer_id \<Rightarrow> 'sk \<Rightarrow> pbMessage \<Rightarrow> pbMessage option" where
  "signMessage ko pid key m = do {
     b \<leftarrow> ko_Marshal ko m;
     sig \<leftarrow> ko_Sign ko key (withSignPrefix b);
     let m = m\<lparr>Signature := Some sig\<rparr>;
     case ko_ExtractPublicKey ko pid of
       Some _ \<Rightarrow> Some m
     | None \<Rightarrow> do { k \<leftarrow> ko_MarshalPublicKey ko (ko_GetPublic ko key); Some (m\<lparr>Key := Some k\<rparr>) } }"

section \<open>Validators\<close>

datatype ValidationResult = ValidationAccept | ValidationReject | ValidationIgnore | validationThrottled

text \<open>A user validator gets to see whether its context is cancelled (its timeout passed, for one), and returns any integer.\<close>

record validatorImpl =
  v_bitmask :: bitmask
  v_validate :: "bool \<Rightarrow> peer_id \<Rightarrow> Message \<Rightarrow> int"
  v_timeout :: int
  v_throttle :: int
  v_inline :: bool

definition validateMsg :: "validatorImpl \<Rightarrow> bool \<Rightarrow> peer_id \<Rightarrow> Message \<Rightarrow> ValidationResult" where
  "validateMsg v cancelled src msg =
     (let r = v_validate v cancelled src msg in
      if r = 0 then ValidationAccept else if r = 1 then ValidationReject else ValidationIgnore)"

datatype 'v user_validator = BoolValidator "bool \<Rightarrow> peer_id \<Rightarrow> Message \<Rightarrow> bool" | ExValidator "bool \<Rightarrow> peer_id \<Rightarrow> Message \<Rightarrow> int" | NotAValidator 'v

record 'v addValReq =
  av_bitmask :: bitmask
  av_validate :: "'v user_validator"
  av_timeout :: int
  av_throttle :: int
  av_inline :: bool

definition DefaultValidateConcurrency :: int where
  "DefaultValidateConcurrency = 1024"

definition makeValidator :: "'v addValReq \<Rightarrow> validatorImpl option" where
  "makeValidator req =
     (let mk = (\<lambda>f. Some \<lparr>v_bitmask = av_bitmask req, v_validate = f,
                v_timeout = (if av_timeout req > 0 then av_timeout req else 0),
                v_throttle = (if av_throttle req > 0 then av_throttle req else DefaultValidateConcurrency), v_inline = av_inline req\<rparr>)
      in case av_validate req of
           BoolValidator v \<Rightarrow> mk (\<lambda>c p m. if v c p m then 0 else 1)
         | ExValidator v \<Rightarrow> mk v
         | NotAValidator _ \<Rightarrow> None)"

record validators =
  bitmaskVals :: "bitmask \<rightharpoonup> validatorImpl"
  defaultVals :: "validatorImpl list"

datatype val_error = UnknownValidatorType | DuplicateValidator | NoValidator

definition AddValidator :: "'v addValReq \<Rightarrow> validators \<Rightarrow> val_error option \<times> validators" where
  "AddValidator req v = (case makeValidator req of
       None \<Rightarrow> (Some UnknownValidatorType, v)
     | Some val \<Rightarrow>
         if bitmaskVals v (v_bitmask val) \<noteq> None then (Some DuplicateValidator, v)
         else (None, v\<lparr>bitmaskVals := (bitmaskVals v)(v_bitmask val \<mapsto> val)\<rparr>))"

definition RemoveValidator :: "bitmask \<Rightarrow> validators \<Rightarrow> val_error option \<times> validators" where
  "RemoveValidator bm v =
     (if bitmaskVals v bm \<noteq> None then (None, v\<lparr>bitmaskVals := (bitmaskVals v)(bm := None)\<rparr>) else (Some NoValidator, v))"

definition getValidators :: "Message \<Rightarrow> validators \<Rightarrow> validatorImpl list" where
  "getValidators msg v = defaultVals v @ (case bitmaskVals v (GetBitmask msg) of None \<Rightarrow> [] | Some val \<Rightarrow> [val])"

section \<open>Verdicts\<close>

text \<open>The inline validators run in order until one rejects.\<close>

fun inline_verdict :: "ValidationResult list \<Rightarrow> ValidationResult \<Rightarrow> ValidationResult" where
  "inline_verdict [] r = r"
| "inline_verdict (x # xs) r = (case x of ValidationReject \<Rightarrow> ValidationReject
     | ValidationIgnore \<Rightarrow> inline_verdict xs ValidationIgnore
     | _ \<Rightarrow> inline_verdict xs r)"

text \<open>The verdicts of asynchronous validators, in the order in which they arrive.\<close>

fun collect_verdicts :: "ValidationResult list \<Rightarrow> ValidationResult \<Rightarrow> ValidationResult" where
  "collect_verdicts [] r = r"
| "collect_verdicts (x # xs) r = (case x of ValidationAccept \<Rightarrow> collect_verdicts xs r
     | ValidationReject \<Rightarrow> ValidationReject
     | ValidationIgnore \<Rightarrow> collect_verdicts xs (if r \<noteq> validationThrottled then ValidationIgnore else r)
     | validationThrottled \<Rightarrow> collect_verdicts xs validationThrottled)"

text \<open>
  One asynchronous validator: the throttle of its bitmask may be full. With several validators the context they get is
  cancelled as soon as all are started, so that each may or may not see it cancelled, and results come in any order. A single validator
  can see its context cancelled only when it has a timeout.
\<close>

definition validate_one :: "validatorImpl \<Rightarrow> bool \<Rightarrow> bool \<Rightarrow> peer_id \<Rightarrow> Message \<Rightarrow> ValidationResult" where
  "validate_one v room cancelled src msg = (if room then validateMsg v cancelled src msg else validationThrottled)"

definition validateBitmask :: "(validatorImpl \<times> bool \<times> bool) list \<Rightarrow> peer_id \<Rightarrow> Message \<Rightarrow> ValidationResult list \<Rightarrow> ValidationResult \<Rightarrow> bool" where
  "validateBitmask vals src msg arrivals r \<longleftrightarrow>
     (case vals of [(v, room, cancelled)] \<Rightarrow> r = validate_one v room (cancelled \<and> v_timeout v > 0) src msg
      | _ \<Rightarrow> mset arrivals = mset (map (\<lambda>(v, room, cancelled). validate_one v room cancelled src msg) vals)
             \<and> r = collect_verdicts arrivals ValidationAccept)"

text \<open>The verdict of \<^verbatim>\<open>doValidateBitmask\<close>, given the verdict of the inline validators.\<close>

definition combined_verdict :: "ValidationResult \<Rightarrow> ValidationResult \<Rightarrow> ValidationResult" where
  "combined_verdict inline result = (if result = ValidationAccept \<and> inline \<noteq> ValidationAccept then inline else result)"


definition worst_verdict :: "ValidationResult set \<Rightarrow> ValidationResult" where
  "worst_verdict R = (if ValidationReject \<in> R then ValidationReject else if validationThrottled \<in> R then validationThrottled
     else if ValidationIgnore \<in> R then ValidationIgnore else ValidationAccept)"

lemma collect_verdicts_worst: "r \<noteq> ValidationReject \<Longrightarrow> collect_verdicts xs r = worst_verdict (insert r (set xs))"
  by (induction xs r rule: collect_verdicts.induct) (auto simp: worst_verdict_def split: ValidationResult.split, metis ValidationResult.exhaust)

lemma inline_verdict_worst: "r \<noteq> ValidationReject \<Longrightarrow> validationThrottled \<notin> insert r (set xs) \<Longrightarrow> inline_verdict xs r = worst_verdict (insert r (set xs))"
  by (induction xs r rule: inline_verdict.induct) (auto simp: worst_verdict_def split: ValidationResult.split, metis ValidationResult.exhaust)

lemma validateMsg_not_throttled: "validateMsg v c src msg \<noteq> validationThrottled"
  by (simp add: validateMsg_def Let_def)

text \<open>
  C30. The verdict over the asynchronous validators does not depend on the order in which their results arrive: a rejection
  decides, otherwise a throttled validator, otherwise one that ignores the message; the message is accepted exactly when all validators ran and accepted
  it.\<close>

theorem validateBitmask_worst:
  assumes "vals \<noteq> []" "list_all (\<lambda>(v, room, cancelled). length vals = 1 \<longrightarrow> cancelled \<longrightarrow> v_timeout v > 0) vals" "validateBitmask vals src msg arrivals r"
  shows "r = worst_verdict ((\<lambda>(v, room, cancelled). validate_one v room cancelled src msg) ` set vals)
     \<and> (r = ValidationAccept \<longleftrightarrow> (\<forall>(v, room, cancelled) \<in> set vals. room \<and> v_validate v cancelled src msg = 0))"
proof -
  let ?f = "\<lambda>(v, room, cancelled). validate_one v room cancelled src msg"
  have r: "r = worst_verdict (?f ` set vals)"
  proof (cases "length vals = 1")
    case True
    then obtain v room c where v: "vals = [(v, room, c)]" by (cases vals) auto
    then have "(c \<and> v_timeout v > 0) = c" using assms(2) by auto
    then show ?thesis using assms(3) v by (cases "validate_one v room c src msg") (auto simp: validateBitmask_def worst_verdict_def)
  next
    case False
    then have m: "mset arrivals = mset (map ?f vals)" "r = collect_verdicts arrivals ValidationAccept"
      using assms(3) assms(1) by (auto simp: validateBitmask_def neq_Nil_conv split: list.splits prod.splits)
    have "set arrivals = ?f ` set vals" using mset_eq_setD [OF m(1)] by simp
    then show ?thesis using m(2) collect_verdicts_worst [of ValidationAccept arrivals] by (auto simp: worst_verdict_def)
  qed
  have one: "?f x = ValidationAccept \<longleftrightarrow> (case x of (v, room, c) \<Rightarrow> room \<and> v_validate v c src msg = 0)" for x
    by (auto simp: validate_one_def validateMsg_def Let_def split: prod.split)
  have "worst_verdict R = ValidationAccept \<longleftrightarrow> R \<subseteq> {ValidationAccept}" for R
    by (auto simp: worst_verdict_def split: if_splits) (metis ValidationResult.exhaust)
  then show ?thesis using r one by (auto split: prod.splits)
qed

theorem validateBitmask_worst_witness:
  "validateBitmask [(\<lparr>v_bitmask = [], v_validate = (\<lambda>_ _ _. 0), v_timeout = 0, v_throttle = 4, v_inline = False\<rparr>, True, False),
      (\<lparr>v_bitmask = [1], v_validate = (\<lambda>c _ _. if c then 2 else 0), v_timeout = 0, v_throttle = 4, v_inline = False\<rparr>, True, True)]
     ''p'' \<lparr>pbm = \<lparr>From = None, Data = [], Seqno = None, MBitmask = [1], Signature = None, Key = None\<rparr>, ID = [], ReceivedFrom = ''p'', Local = False\<rparr>
     [ValidationIgnore, ValidationAccept] ValidationIgnore
   \<and> ValidationIgnore = worst_verdict {ValidationAccept, ValidationIgnore}"
proof -
  let ?vals = "[(\<lparr>v_bitmask = [], v_validate = (\<lambda>_ _ _. 0), v_timeout = 0, v_throttle = 4, v_inline = False\<rparr>, True, False),
      (\<lparr>v_bitmask = [1], v_validate = (\<lambda>c _ _. if c then 2 else 0), v_timeout = 0, v_throttle = 4, v_inline = False\<rparr>, True, True)]"
  let ?m = "\<lparr>pbm = \<lparr>From = None, Data = [], Seqno = None, MBitmask = [1], Signature = None, Key = None\<rparr>, ID = [], ReceivedFrom = ''p'', Local = False\<rparr>"
  have v: "validateBitmask ?vals ''p'' ?m [ValidationIgnore, ValidationAccept] ValidationIgnore"
    by (simp add: validateBitmask_def validate_one_def validateMsg_def)
  from validateBitmask_worst [OF _ _ v] have "ValidationIgnore = worst_verdict ((\<lambda>(v, room, cancelled). validate_one v room cancelled ''p'' ?m) ` set ?vals)" by simp
  then show ?thesis using v by (simp add: validate_one_def validateMsg_def)
qed

text \<open>
  C31. A message that was signed with the key of its author passes verification, for every key system in which a key pair verifies its own signatures, the
  author's identifier belongs to the key, an extractable key is that key, and public keys survive their encoding.\<close>

theorem sign_then_verify:
  assumes sig: "signMessage ko pid key m = Some m'" and fresh: "Signature m = None" "Key m = None"
    and author: "ko_IDFromBytes ko (elems (From m)) = Some pid" "ko_MatchesPublicKey ko pid (ko_GetPublic ko key)"
    and extracted: "\<And>pk. ko_ExtractPublicKey ko pid = Some pk \<Longrightarrow> pk = ko_GetPublic ko key"
    and keys: "\<And>pk b. ko_MarshalPublicKey ko pk = Some b \<Longrightarrow> ko_UnmarshalPublicKey ko b = Some pk"
    and pair: "\<And>b s. ko_Sign ko key b = Some s \<Longrightarrow> ko_Verify ko (ko_GetPublic ko key) b s = Some True"
  shows "verifyMessageSignature ko m' \<and> Data m' = Data m \<and> MBitmask m' = MBitmask m \<and> From m' = From m \<and> Seqno m' = Seqno m"
proof -
  obtain b s where b: "ko_Marshal ko m = Some b" "ko_Sign ko key (withSignPrefix b) = Some s"
    using sig by (auto simp: signMessage_def split: bind_splits)
  have plain: "m\<lparr>Signature := None, Key := None\<rparr> = m" using fresh by simp
  show ?thesis
  proof (cases "ko_ExtractPublicKey ko pid")
    case (Some pk)
    then have "m' = m\<lparr>Signature := Some s\<rparr>" using sig b by (simp add: signMessage_def)
    then show ?thesis using b(1) pair [OF b(2)] Some extracted [OF Some] author(1) fresh
      by (simp add: verifyMessageSignature_def messagePubKey_def elems_def plain)
  next
    case None
    then obtain k where k: "ko_MarshalPublicKey ko (ko_GetPublic ko key) = Some k" "m' = m\<lparr>Signature := Some s, Key := Some k\<rparr>"
      using sig b by (auto simp: signMessage_def split: bind_splits)
    then show ?thesis using b(1) pair [OF b(2)] keys [OF k(1)] author fresh
      by (simp add: verifyMessageSignature_def messagePubKey_def elems_def plain)
  qed
qed

text \<open>A key system in which a key is a byte string, its own public key, and the signature prefixes the key.\<close>

definition toy_keys :: "(bytes, bytes) key_ops" where
  "toy_keys = \<lparr>ko_IDFromBytes = (\<lambda>b. Some (peer_ID b)), ko_ExtractPublicKey = (\<lambda>_. None), ko_UnmarshalPublicKey = Some, ko_MarshalPublicKey = Some,
     ko_MatchesPublicKey = (\<lambda>p k. p = peer_ID k), ko_GetPublic = (\<lambda>k. k), ko_Sign = (\<lambda>k b. Some (k @ b)), ko_Verify = (\<lambda>k b s. Some (s = k @ b)),
     ko_Marshal = (\<lambda>m. Some (Data m))\<rparr>"

theorem sign_then_verify_witness:
  "\<exists>m'. signMessage toy_keys (peer_ID [7]) [7] \<lparr>From = Some [7], Data = [1, 2], Seqno = None, MBitmask = [1], Signature = None, Key = None\<rparr> = Some m'
     \<and> verifyMessageSignature toy_keys m'"
proof -
  let ?m = "\<lparr>From = Some [7], Data = [1, 2], Seqno = None, MBitmask = [1], Signature = None, Key = None\<rparr>"
  obtain m' where m': "signMessage toy_keys (peer_ID [7]) [7] ?m = Some m'" by (simp add: signMessage_def toy_keys_def)
  have "verifyMessageSignature toy_keys m'" using sign_then_verify [OF m'] by (simp add: toy_keys_def elems_def)
  with m' show ?thesis by blast
qed

end
