(* ===== verification/Event_Log.thy ===== *)
theory Event_Log
  imports Pubsub_Types "HOL-Library.AList"
begin

text \<open>
  The event handlers of a bitmask handle, \<^verbatim>\<open>bitmask.go\<close>: the log in which an event of a peer cancels the opposite
  event that nobody has read yet, and the channel of capacity one that wakes a reader. \<open>ev_step\<close> runs a handler with any number of
  concurrent readers: a reader in \<^verbatim>\<open>NextPeerEvent\<close> is about to look at the log (\<open>looking\<close>) or waits in the select (\<open>waiting\<close>). What the
  readers have been told so far is \<open>told\<close>.
\<close>

section \<open>The log\<close>

datatype EventType = PeerJoin | PeerLeave

record BitmaskEventHandler =
  evtLog :: "(peer_id \<times> EventType) list"
  evtLogCh :: bool

definition signal :: "BitmaskEventHandler \<Rightarrow> BitmaskEventHandler" where
  "signal h = h\<lparr>evtLogCh := True\<rparr>"

definition addToEventLog :: "peer_id \<Rightarrow> EventType \<Rightarrow> BitmaskEventHandler \<Rightarrow> BitmaskEventHandler" where
  "addToEventLog p e h = (case map_of (evtLog h) p of
       None \<Rightarrow> signal (h\<lparr>evtLog := (p, e) # evtLog h\<rparr>)
     | Some e' \<Rightarrow> if e' \<noteq> e then h\<lparr>evtLog := AList.delete p (evtLog h)\<rparr> else h)"

text \<open>Go enumerates the log in any order, so that any entry \<open>i\<close> may be the first.\<close>

definition pullFromEventLog :: "nat \<Rightarrow> BitmaskEventHandler \<Rightarrow> (peer_id \<times> EventType) option \<times> BitmaskEventHandler" where
  "pullFromEventLog i h =
     (if evtLog h = [] then (None, h)
      else let (p, e) = evtLog h ! (i mod length (evtLog h)) in (Some (p, e), h\<lparr>evtLog := AList.delete p (evtLog h)\<rparr>))"

text \<open>One turn of the loop of \<^verbatim>\<open>NextPeerEvent\<close>: the event it returns, or nothing when it goes on to wait.\<close>

definition NextPeerEvent_turn :: "nat \<Rightarrow> BitmaskEventHandler \<Rightarrow> (peer_id \<times> EventType) option \<times> BitmaskEventHandler" where
  "NextPeerEvent_turn i h = (let (r, h) = pullFromEventLog i h in
     (r, if r \<noteq> None \<and> evtLog h \<noteq> [] then signal h else h))"

definition new_handler :: "peer_id list \<Rightarrow> BitmaskEventHandler" where
  "new_handler ps = \<lparr>evtLog = map (\<lambda>p. (p, PeerJoin)) ps, evtLogCh = False\<rparr>"

section \<open>Readers\<close>

record ev_sys =
  hdl :: BitmaskEventHandler
  looking :: nat
  waiting :: nat
  members :: "peer_id set"
  told :: "peer_id set"

fun hear :: "(peer_id \<times> EventType) option \<Rightarrow> peer_id set \<Rightarrow> peer_id set" where
  "hear None v = v"
| "hear (Some (p, PeerJoin)) v = insert p v"
| "hear (Some (p, PeerLeave)) v = v - {p}"

inductive ev_step :: "ev_sys \<Rightarrow> ev_sys \<Rightarrow> bool" where
  call: "ev_step s (s\<lparr>looking := Suc (looking s)\<rparr>)"
| turn: "looking s = Suc n \<Longrightarrow> NextPeerEvent_turn i (hdl s) = (r, h) \<Longrightarrow>
    ev_step s (s\<lparr>hdl := h, looking := n, waiting := (if r = None then Suc (waiting s) else waiting s), told := hear r (told s)\<rparr>)"
| wake: "evtLogCh (hdl s) \<Longrightarrow> waiting s = Suc n \<Longrightarrow>
    ev_step s (s\<lparr>hdl := (hdl s)\<lparr>evtLogCh := False\<rparr>, waiting := n, looking := Suc (looking s)\<rparr>)"
| give_up: "waiting s = Suc n \<Longrightarrow> ev_step s (s\<lparr>waiting := n\<rparr>)"
| joined: "p \<notin> members s \<Longrightarrow> ev_step s (s\<lparr>hdl := addToEventLog p PeerJoin (hdl s), members := insert p (members s)\<rparr>)"
| left: "p \<in> members s \<Longrightarrow> ev_step s (s\<lparr>hdl := addToEventLog p PeerLeave (hdl s), members := members s - {p}\<rparr>)"

definition ev_init :: "peer_id list \<Rightarrow> ev_sys" where
  "ev_init ps = \<lparr>hdl = new_handler ps, looking = 0, waiting = 0, members = set ps, told = {}\<rparr>"

section \<open>The log is the difference between the subscribers and what the readers know\<close>

definition log_inv :: "(peer_id \<rightharpoonup> EventType) \<Rightarrow> peer_id set \<Rightarrow> peer_id set \<Rightarrow> bool" where
  "log_inv l m v \<longleftrightarrow> (\<forall>p. l p = (if p \<in> m \<and> p \<notin> v then Some PeerJoin else if p \<notin> m \<and> p \<in> v then Some PeerLeave else None))"

definition ev_inv :: "ev_sys \<Rightarrow> bool" where
  "ev_inv s \<longleftrightarrow> distinct (map fst (evtLog (hdl s))) \<and> log_inv (map_of (evtLog (hdl s))) (members s) (told s)
     \<and> (evtLog (hdl s) \<noteq> [] \<longrightarrow> waiting s > 0 \<longrightarrow> evtLogCh (hdl s) \<or> looking s > 0)"

lemma ev_init_inv: "distinct ps \<Longrightarrow> ev_inv (ev_init ps)"
proof -
  have "map_of (map (\<lambda>p. (p, PeerJoin)) ps) p = (if p \<in> set ps then Some PeerJoin else None)" for p by (induction ps) auto
  then show "distinct ps \<Longrightarrow> ev_inv (ev_init ps)"
    by (auto simp: ev_inv_def ev_init_def new_handler_def log_inv_def comp_def)
qed

lemma pull_cases:
  assumes "NextPeerEvent_turn i h = (r, h')" "distinct (map fst (evtLog h))"
  obtains "evtLog h = []" "r = None" "h' = h"
    | p e where "evtLog h \<noteq> []" "r = Some (p, e)" "map_of (evtLog h) p = Some e" "evtLog h' = AList.delete p (evtLog h)"
        "evtLog h' \<noteq> [] \<Longrightarrow> evtLogCh h'" "evtLog h' = [] \<Longrightarrow> evtLogCh h' = evtLogCh h"
proof (cases "evtLog h = []")
  case True
  then show ?thesis using that(1) assms(1) by (simp add: NextPeerEvent_turn_def pullFromEventLog_def)
next
  case False
  obtain p e where pe: "evtLog h ! (i mod length (evtLog h)) = (p, e)" by fastforce
  have "(p, e) \<in> set (evtLog h)" using pe False by (metis length_greater_0_conv mod_less_divisor nth_mem)
  then have "map_of (evtLog h) p = Some e" using assms(2) by simp
  then show ?thesis using that(2) [of p e] assms(1) False pe
    by (auto simp: NextPeerEvent_turn_def pullFromEventLog_def signal_def Let_def split: if_splits)
qed

lemma add_inv:
  assumes "distinct (map fst (evtLog h))" "log_inv (map_of (evtLog h)) m v"
  shows "p \<notin> m \<Longrightarrow> log_inv (map_of (evtLog (addToEventLog p PeerJoin h))) (insert p m) v"
    "p \<in> m \<Longrightarrow> log_inv (map_of (evtLog (addToEventLog p PeerLeave h))) (m - {p}) v"
    "distinct (map fst (evtLog (addToEventLog p e h)))"
    "evtLog (addToEventLog p e h) \<noteq> [] \<Longrightarrow> evtLogCh (addToEventLog p e h) \<or> evtLog h \<noteq> [] \<and> evtLogCh (addToEventLog p e h) = evtLogCh h"
proof -
  show "p \<notin> m \<Longrightarrow> log_inv (map_of (evtLog (addToEventLog p PeerJoin h))) (insert p m) v"
    using assms(2) by (auto simp: log_inv_def addToEventLog_def signal_def AList.delete_conv' split: option.split)
  show "p \<in> m \<Longrightarrow> log_inv (map_of (evtLog (addToEventLog p PeerLeave h))) (m - {p}) v"
    using assms(2) by (auto simp: log_inv_def addToEventLog_def signal_def AList.delete_conv' split: option.split)
  show "distinct (map fst (evtLog (addToEventLog p e h)))"
    using assms(1) by (auto simp: addToEventLog_def signal_def distinct_delete map_of_eq_None_iff split: option.split)
  show "evtLog (addToEventLog p e h) \<noteq> [] \<Longrightarrow> evtLogCh (addToEventLog p e h) \<or> evtLog h \<noteq> [] \<and> evtLogCh (addToEventLog p e h) = evtLogCh h"
    by (auto simp: addToEventLog_def signal_def split: option.split)
qed

lemma ev_step_inv: "ev_step s s' \<Longrightarrow> ev_inv s \<Longrightarrow> ev_inv s'"
proof (induction rule: ev_step.induct)
  case (turn s n i r h)
  then have d: "distinct (map fst (evtLog (hdl s)))" and l: "log_inv (map_of (evtLog (hdl s))) (members s) (told s)" by (auto simp: ev_inv_def)
  from turn.hyps(2) d show ?case
  proof (cases rule: pull_cases)
    case 1
    then show ?thesis using turn.prems by (auto simp: ev_inv_def)
  next
    case (2 p e)
    have "log_inv ((map_of (evtLog (hdl s)))(p := None)) (members s) (hear r (told s))"
      using l 2(2,3) by (cases e) (auto simp: log_inv_def split: if_splits)
    then show ?thesis using 2 d by (auto simp: ev_inv_def AList.delete_conv' distinct_delete)
  qed
next
  case (joined p s)
  then show ?case using add_inv [of "hdl s" "members s" "told s" p] by (auto simp: ev_inv_def)
next
  case (left p s)
  then show ?case using add_inv [of "hdl s" "members s" "told s" p] by (auto simp: ev_inv_def)
qed (auto simp: ev_inv_def)

lemma ev_run_inv: "ev_step\<^sup>*\<^sup>* s s' \<Longrightarrow> ev_inv s \<Longrightarrow> ev_inv s'"
  by (induction rule: rtranclp_induct) (auto intro: ev_step_inv)

text \<open>
  C26. However peers join and leave and however many readers call \<^verbatim>\<open>NextPeerEvent\<close>, the unread log of an event handler is exactly the
  difference between the current subscribers and what the readers were told: a join is pending for every subscriber they do not know of, a leave
  for every peer they wrongly believe subscribed, and nothing else. No wake-up is lost: while an event is unread and a reader waits, the
  channel holds a signal or another reader is about to look.\<close>

theorem event_log_tracks:
  assumes "distinct ps" "ev_step\<^sup>*\<^sup>* (ev_init ps) s"
  shows "{p. map_of (evtLog (hdl s)) p = Some PeerJoin} = members s - told s
    \<and> {p. map_of (evtLog (hdl s)) p = Some PeerLeave} = told s - members s
    \<and> (evtLog (hdl s) = [] \<longleftrightarrow> told s = members s)
    \<and> (evtLog (hdl s) \<noteq> [] \<and> waiting s > 0 \<longrightarrow> evtLogCh (hdl s) \<or> looking s > 0)"
proof -
  have i: "ev_inv s" by (rule ev_run_inv [OF assms(2) ev_init_inv [OF assms(1)]])
  then have l: "map_of (evtLog (hdl s)) p = (if p \<in> members s \<and> p \<notin> told s then Some PeerJoin
      else if p \<notin> members s \<and> p \<in> told s then Some PeerLeave else None)" for p
    by (simp add: ev_inv_def log_inv_def)
  have "evtLog (hdl s) = [] \<longleftrightarrow> (\<forall>p. map_of (evtLog (hdl s)) p = None)" by (cases "evtLog (hdl s)") auto
  then have "evtLog (hdl s) = [] \<longleftrightarrow> told s = members s" unfolding l by auto
  then show ?thesis using i unfolding l by (auto simp: ev_inv_def)
qed

theorem event_log_tracks_witness:
  "\<exists>s. ev_step\<^sup>*\<^sup>* (ev_init [''a'']) s \<and> evtLog (hdl s) = [] \<and> told s = {''a''} \<and> members s = {''a''}"
proof -
  let ?s1 = "(ev_init [''a''])\<lparr>looking := Suc (looking (ev_init [''a'']))\<rparr>"
  let ?s2 = "?s1\<lparr>hdl := (hdl ?s1)\<lparr>evtLog := []\<rparr>, looking := 0, waiting := waiting ?s1, told := hear (Some (''a'', PeerJoin)) (told ?s1)\<rparr>"
  have t: "NextPeerEvent_turn 0 (hdl ?s1) = (Some (''a'', PeerJoin), (hdl ?s1)\<lparr>evtLog := []\<rparr>)"
    by (simp add: NextPeerEvent_turn_def pullFromEventLog_def ev_init_def new_handler_def)
  have "ev_step (ev_init [''a'']) ?s1" by (rule call)
  moreover have "ev_step ?s1 ?s2" using turn [of ?s1 0 0, OF _ t] by (simp add: ev_init_def)
  ultimately have r: "ev_step\<^sup>*\<^sup>* (ev_init [''a'']) ?s2" by (meson r_into_rtranclp rtranclp.rtrancl_into_rtrancl)
  have "evtLog (hdl ?s2) = []" by simp
  with event_log_tracks [OF _ r] have "told ?s2 = members ?s2" by simp
  then show ?thesis using r by (intro exI [of _ ?s2]) (simp add: ev_init_def)
qed

end
