(* ===== verification/Pubsub_State.thy ===== *)
theory Pubsub_State
  imports Router_Heartbeat Peer_Gater Validation Event_Log Time_Cache Backoff Subscription_Filter
begin

text \<open>
  The state of the PubSub object of \<^verbatim>\<open>pubsub.go\<close>, its trace calls (\<^verbatim>\<open>trace.go\<close>), subscriptions (\<^verbatim>\<open>subscription.go\<close>)
  and announcements. The fields that the router reads live in the record of the router, with prefix \<open>p_\<close>; \<open>peer_keys\<close> lists the peers that
  have an outbound queue. Subscriptions and bitmask handles are objects: the maps hold addresses in a store. Goroutines that wait to run appear as lists of what they
  will do: announcements to retry, outbound streams to open, validations in progress; messages that passed validation and those whose sender waits for
  room in the channel \<^verbatim>\<open>sendMsg\<close> form one queue. The seen cache is the one of the default strategy, the blacklist the default one. The
  field \<open>delivered_log\<close> lists the messages in the order they are delivered (the calls of \<^verbatim>\<open>DeliverMessage\<close>). \<open>None\<close> is a panic. Discovery (an external
  service), logging and metrics have no effect on this state.
\<close>

section \<open>State\<close>

record Subscription =
  sub_bitmask :: bitmask
  sub_size :: nat
  sub_ch :: "Message list"
  sub_closed :: bool

record Bitmask_handle =
  h_bitmask :: bitmask
  evtHandlers :: "nat list"
  h_closed :: bool

record validateReq =
  vr_vals :: "validatorImpl list"
  vr_src :: peer_id
  vr_msg :: Message

record pubsub =
  rt :: router
  gate :: "peerGater option"
  val :: validators
  validateQ :: "validateReq list"
  validateQ_size :: nat
  validateThrottle :: nat
  validating :: "(validateReq \<times> ValidationResult) list"
  sendMsg :: "Message list"
  seenMessages :: FirstSeenCache
  blacklist :: "peer_id set"
  signID :: peer_id
  signPolicy :: MessageSignaturePolicy
  subFilter :: "SubscriptionFilter option"
  appSpecificRpcInspector :: "(peer_id \<Rightarrow> RPC \<Rightarrow> bool) option"
  peerOutboundQueueSize :: nat
  peer_keys :: "peer_id list"
  newPeersPend :: "peer_id list"
  peerDeadPend :: "peer_id list"
  deadPeerBackoff :: backoff
  starting :: "(peer_id \<times> int) list"
  mySubs :: "(bitmask \<times> nat list) list"
  subs :: "nat \<Rightarrow> Subscription"
  next_sub :: nat
  myRelays :: "(bitmask \<times> int) list"
  myBitmasks :: "(bitmask \<times> nat) list"
  handles :: "nat \<Rightarrow> Bitmask_handle"
  next_handle :: nat
  handlers :: "nat \<Rightarrow> BitmaskEventHandler"
  next_handler :: nat
  retries :: "(peer_id \<times> bitmask \<times> bool) list"
  counter :: nat
  delivered_log :: "Message list"

definition DefaultPeerOutboundQueueSize :: nat where
  "DefaultPeerOutboundQueueSize = 128"

definition DefaultValidateQueueSize :: nat where
  "DefaultValidateQueueSize = 16384"

definition DefaultValidateThrottle :: nat where
  "DefaultValidateThrottle = 8192"

definition DefaultSubscriptionQueueSize :: nat where
  "DefaultSubscriptionQueueSize = 16384"

text \<open>The constructor, for a router whose \<^verbatim>\<open>PubSub\<close> fields are those of a fresh object; \<open>nanos\<close> is the time that starts the counter.\<close>

definition NewPubSub :: "router \<Rightarrow> nat \<Rightarrow> pubsub" where
  "NewPubSub r nanos = \<lparr>rt = r\<lparr>p_bitmasks := Map.empty, p_peers := Map.empty\<rparr>, gate = None, val = \<lparr>bitmaskVals = Map.empty, defaultVals = []\<rparr>,
     validateQ = [], validateQ_size = DefaultValidateQueueSize, validateThrottle = DefaultValidateThrottle, validating = [], sendMsg = [],
     seenMessages = newFirstSeenCache TimeCacheDuration, blacklist = NewMapBlacklist, signID = p_self r, signPolicy = LaxSign,
     subFilter = None, appSpecificRpcInspector = None, peerOutboundQueueSize = DefaultPeerOutboundQueueSize, peer_keys = [],
     newPeersPend = [], peerDeadPend = [], deadPeerBackoff = newBackoff 1000 Minute MaxBackoffAttempts, starting = [], mySubs = [],
     subs = (\<lambda>_. \<lparr>sub_bitmask = [], sub_size = 0, sub_ch = [], sub_closed = False\<rparr>), next_sub = 0, myRelays = [], myBitmasks = [],
     handles = (\<lambda>_. \<lparr>h_bitmask = [], evtHandlers = [], h_closed = False\<rparr>), next_handle = 0, handlers = (\<lambda>_. new_handler []), next_handler = 0, retries = [],
     counter = nanos mod 2 ^ 64, delivered_log = []\<rparr>"

text \<open>What the environment answers while one event is handled: the clock, who is connected, the connections of a peer, and how selects between
  several ready cases are decided.\<close>

record env =
  now :: time
  connected :: "peer_id \<Rightarrow> bool"
  gconns :: "peer_id \<Rightarrow> gater_conn list"
  jitter :: "peer_id \<Rightarrow> int"

definition on_rt :: "(router \<Rightarrow> router option) \<Rightarrow> pubsub \<Rightarrow> pubsub option" where
  "on_rt f s = do { r \<leftarrow> f (rt s); Some (s\<lparr>rt := r\<rparr>) }"

definition draw :: "nat \<Rightarrow> pubsub \<Rightarrow> nat \<times> pubsub" where
  "draw n s = (let (i, r) = Intn n (rnd (rt s)) in (i, s\<lparr>rt := (rt s)\<lparr>rnd := r\<rparr>\<rparr>))"

definition ranged :: "'a list \<Rightarrow> pubsub \<Rightarrow> 'a list \<times> pubsub" where
  "ranged xs s = (let (ys, r) = range_of xs (rt s) in (ys, s\<lparr>rt := r\<rparr>))"

section \<open>Trace calls\<close>

text \<open>The raw tracers that change state are the score, the gossip tracer and the gater; messages of our own are not reported to them.\<close>

definition trace_msg :: "(peerScore \<Rightarrow> peerScore option) \<Rightarrow> (gossipTracer \<Rightarrow> gossipTracer) \<Rightarrow> (peerGater \<Rightarrow> peerGater) \<Rightarrow> Message \<Rightarrow> pubsub \<Rightarrow> pubsub option" where
  "trace_msg sc gt ga msg s =
     (if ReceivedFrom msg = p_self (rt s) then Some s
      else do {
        r \<leftarrow> trace_score sc (rt s);
        Some (s\<lparr>rt := r\<lparr>gtracer := map_option gt (gtracer r)\<rparr>, gate := map_option ga (gate s)\<rparr>) })"

definition tr_ValidateMessage :: "env \<Rightarrow> Message \<Rightarrow> pubsub \<Rightarrow> pubsub option" where
  "tr_ValidateMessage e msg = trace_msg (\<lambda>ps. Some (score_ValidateMessage msg (now e) ps)) (gt_ValidateMessage msg) gater_ValidateMessage msg"

definition tr_RejectMessage :: "env \<Rightarrow> Message \<Rightarrow> string \<Rightarrow> pubsub \<Rightarrow> pubsub option" where
  "tr_RejectMessage e msg reason =
     trace_msg (score_RejectMessage msg reason (now e)) (gt_RejectMessage msg reason) (gater_RejectMessage msg reason (gconns e (ReceivedFrom msg)) (now e)) msg"

definition tr_DuplicateMessage :: "env \<Rightarrow> Message \<Rightarrow> pubsub \<Rightarrow> pubsub option" where
  "tr_DuplicateMessage e msg =
     trace_msg (score_DuplicateMessage msg (now e)) (\<lambda>gt. gt) (gater_DuplicateMessage msg (gconns e (ReceivedFrom msg))) msg"

definition tr_DeliverMessage :: "env \<Rightarrow> Message \<Rightarrow> pubsub \<Rightarrow> pubsub option" where
  "tr_DeliverMessage e msg s =
     trace_msg (score_DeliverMessage msg (now e)) (gt_DeliverMessage msg) (gater_DeliverMessage msg (gconns e (ReceivedFrom msg))) msg
       (s\<lparr>delivered_log := delivered_log s @ [msg]\<rparr>)"

definition tr_ThrottlePeer :: "peer_id \<Rightarrow> pubsub \<Rightarrow> pubsub" where
  "tr_ThrottlePeer p s = s\<lparr>rt := (rt s)\<lparr>gtracer := map_option (gt_ThrottlePeer p) (gtracer (rt s))\<rparr>\<rparr>"

section \<open>Peers entering and leaving the router\<close>

definition ps_AddPeer :: "env \<Rightarrow> peer_id \<Rightarrow> protocol \<Rightarrow> conn_info list \<Rightarrow> string list \<Rightarrow> pubsub \<Rightarrow> pubsub option" where
  "ps_AddPeer e p proto conns addrs s =
     on_rt (rt_AddPeer p proto conns addrs) (s\<lparr>gate := map_option (gater_AddPeer p (gconns e p)) (gate s)\<rparr>)"

definition ps_RemovePeer :: "env \<Rightarrow> peer_id \<Rightarrow> pubsub \<Rightarrow> pubsub option" where
  "ps_RemovePeer e p s =
     on_rt (rt_RemovePeer p (now e)) (s\<lparr>gate := map_option (gater_RemovePeer p (gconns e p) (now e)) (gate s)\<rparr>)"

text \<open>The router vets a peer: direct peers pass, graylisted ones do not, and the gater decides over the others.\<close>

definition rt_AcceptFrom :: "env \<Rightarrow> peer_id \<Rightarrow> real \<Rightarrow> pubsub \<Rightarrow> (AcceptStatus \<times> pubsub) option" where
  "rt_AcceptFrom e p d s =
     (if p \<in> set (direct (rt s)) then Some (AcceptAll, s)
      else do {
        sc \<leftarrow> PeerScore (rt s) p;
        if sc < graylistThreshold (rt s) then Some (AcceptNone, s)
        else case gate s of None \<Rightarrow> Some (AcceptAll, s)
          | Some pg \<Rightarrow> let (a, pg) = gater_AcceptFrom p (gconns e p) (now e) d pg in Some (a, s\<lparr>gate := Some pg\<rparr>) })"

definition set_queue :: "peer_id \<Rightarrow> RPC rpcQueue \<Rightarrow> pubsub \<Rightarrow> pubsub" where
  "set_queue p q s = s\<lparr>rt := (rt s)\<lparr>p_peers := (p_peers (rt s))(p \<mapsto> q)\<rparr>, peer_keys := List.insert p (peer_keys s)\<rparr>"

definition drop_queue :: "peer_id \<Rightarrow> pubsub \<Rightarrow> pubsub" where
  "drop_queue p s = s\<lparr>rt := (rt s)\<lparr>p_peers := (p_peers (rt s))(p := None)\<rparr>, peer_keys := removeAll p (peer_keys s)\<rparr>"

section \<open>Events of a bitmask\<close>

definition sendNotification :: "EventType \<Rightarrow> peer_id \<Rightarrow> nat \<Rightarrow> pubsub \<Rightarrow> pubsub" where
  "sendNotification ev p h s =
     fold (\<lambda>a s. s\<lparr>handlers := (handlers s)(a := addToEventLog p ev (handlers s a))\<rparr>) (evtHandlers (handles s h)) s"

definition notify :: "EventType \<Rightarrow> peer_id \<Rightarrow> bitmask \<Rightarrow> pubsub \<Rightarrow> pubsub" where
  "notify ev p bm s = (case map_of (myBitmasks s) bm of None \<Rightarrow> s | Some h \<Rightarrow> sendNotification ev p h s)"

definition notifyLeave :: "bitmask \<Rightarrow> peer_id \<Rightarrow> pubsub \<Rightarrow> pubsub" where
  "notifyLeave bm p = notify PeerLeave p bm"

text \<open>The peer leaves every bitmask; the handles of different bitmasks have different event handlers, so that the order does not matter.\<close>

definition drop_subscriber :: "peer_id \<Rightarrow> pubsub \<Rightarrow> pubsub" where
  "drop_subscriber p s =
     (let left = filter (\<lambda>bm. p \<in> set (subscribers (rt s) bm)) (map fst (myBitmasks s)) in
      fold (\<lambda>bm. notifyLeave bm p) left (s\<lparr>rt := (rt s)\<lparr>p_bitmasks := (\<lambda>bm. map_option (removeAll p) (p_bitmasks (rt s) bm))\<rparr>\<rparr>))"

section \<open>Announcements\<close>

definition announce_to :: "bitmask \<Rightarrow> bool \<Rightarrow> peer_id \<Rightarrow> pubsub \<Rightarrow> pubsub" where
  "announce_to bm sub p s = (case p_peers (rt s) p of None \<Rightarrow> s
     | Some q \<Rightarrow>
         let outs = TryPush (p_done (rt s)) (rpcWithSubs [\<lparr>Subscribe = sub, SubBitmask = bm\<rparr>]) False q;
             (i, s) = draw (length outs) s;
             (err, q) = outs ! i;
             s = s\<lparr>rt := (rt s)\<lparr>p_peers := (p_peers (rt s))(p \<mapsto> q)\<rparr>\<rparr>
         in case err of None \<Rightarrow> s | Some _ \<Rightarrow> s\<lparr>retries := retries s @ [(p, bm, sub)]\<rparr>)"

definition announce :: "bitmask \<Rightarrow> bool \<Rightarrow> pubsub \<Rightarrow> pubsub" where
  "announce bm sub s = (let (ps, s) = ranged (peer_keys s) s in fold (announce_to bm sub) ps s)"

definition interested :: "pubsub \<Rightarrow> bitmask \<Rightarrow> bool" where
  "interested s bm \<longleftrightarrow> map_of (mySubs s) bm \<noteq> None \<or> map_of (myRelays s) bm \<noteq> None"

definition announceRetry :: "peer_id \<Rightarrow> bitmask \<Rightarrow> bool \<Rightarrow> pubsub \<Rightarrow> pubsub" where
  "announceRetry p bm sub s = (if interested s bm = sub then announce_to bm sub p s else s)"

definition getHelloPacket :: "pubsub \<Rightarrow> RPC \<times> pubsub" where
  "getHelloPacket s = (let (bms, s) = ranged (remdups (map fst (mySubs s) @ map fst (myRelays s))) s in
     (rpcWithSubs (map (\<lambda>bm. \<lparr>Subscribe = True, SubBitmask = bm\<rparr>) bms), s))"

end
