(* ===== verification/Seqno_Validator.thy ===== *)
theory Seqno_Validator
  imports Validation
begin

text \<open>
  The sequence-number validator of \<^verbatim>\<open>validation_builtin.go\<close>. The peer metadata store maps a peer to the bytes last
  put for it (no bytes when there are none). The validator reads it twice: under a read lock, when other
  validations may still be about to write, and again under the exclusive lock in which it writes; the first reading is therefore an argument. Errors of the
  store are arguments too. \<open>None\<close> is the panic of \<^verbatim>\<open>binary.BigEndian.Uint64\<close> on fewer than eight bytes.
\<close>

section \<open>Big-endian integers\<close>

definition be_uint64 :: "bytes \<Rightarrow> nat option" where
  "be_uint64 b = (if length b < 8 then None else Some (foldl (\<lambda>n x. n * 256 + unat x) 0 (take 8 b)))"

definition be_put64 :: "nat \<Rightarrow> bytes" where
  "be_put64 n = map (\<lambda>i. of_nat (n div 256 ^ (7 - i))) [0..<8]"

lemma be_roundtrip: "n < 2 ^ 64 \<Longrightarrow> be_uint64 (be_put64 n) = Some n"
proof -
  assume n: "n < 2 ^ 64"
  have u: "unat (of_nat k :: 8 word) = k mod 256" for k by (simp add: unat_of_nat)
  let ?f = "\<lambda>m x. m * 256 + unat (x :: 8 word)"
  have step: "foldl ?f 0 (map (\<lambda>i. of_nat (n div 256 ^ (7 - i))) [0..<k]) = n div 256 ^ (8 - k)" if "k \<le> 8" for k
    using that
  proof (induction k)
    case 0
    have "n < 256 ^ 8" using n by simp
    then show ?case by simp
  next
    case (Suc k)
    then have k: "8 - k = Suc (7 - k)" by simp
    have "n div 256 ^ (8 - k) * 256 + n div 256 ^ (7 - k) mod 256 = n div 256 ^ (7 - k)"
      unfolding k power_Suc2 div_mult2_eq by simp
    then show ?case using Suc by (simp add: u)
  qed
  show ?thesis using step [of 8] by (simp add: be_uint64_def be_put64_def)
qed

section \<open>The validator\<close>

definition read_nonce :: "bytes \<Rightarrow> nat \<Rightarrow> nat option" where
  "read_nonce b old = (if b = [] then Some old else be_uint64 b)"

definition seqno_of :: "Message \<Rightarrow> nat option" where
  "seqno_of m = read_nonce (elems (Seqno (pbm m))) 0"

definition seqno_validate :: "bool \<Rightarrow> bytes \<Rightarrow> bool \<Rightarrow> bool \<Rightarrow> Message \<Rightarrow> (peer_id \<Rightarrow> bytes) \<Rightarrow> (ValidationResult \<times> (peer_id \<Rightarrow> bytes)) option" where
  "seqno_validate err1 stored err2 putErr m meta =
     (if err1 then Some (ValidationIgnore, meta)
      else do {
        nonce \<leftarrow> read_nonce stored 0;
        seqno \<leftarrow> seqno_of m;
        if seqno \<le> nonce then Some (ValidationIgnore, meta)
        else if err2 then Some (ValidationIgnore, meta)
        else do {
          nonce \<leftarrow> read_nonce (meta (GetFrom m)) nonce;
          if seqno \<le> nonce then Some (ValidationIgnore, meta)
          else Some (ValidationAccept, if putErr then meta else meta(GetFrom m := be_put64 seqno)) } })"

section \<open>No replays\<close>

text \<open>The exclusive sections of a run in their order; the result are the accepted messages and the store.\<close>

fun seqno_run :: "(bool \<times> bytes \<times> bool \<times> Message) list \<Rightarrow> (peer_id \<Rightarrow> bytes) \<Rightarrow> (Message list \<times> (peer_id \<Rightarrow> bytes)) option" where
  "seqno_run [] meta = Some ([], meta)"
| "seqno_run ((err1, stored, err2, m) # xs) meta = do {
     (r, meta) \<leftarrow> seqno_validate err1 stored err2 False m meta;
     (acc, meta) \<leftarrow> seqno_run xs meta;
     Some (if r = ValidationAccept then m # acc else acc, meta) }"

definition whole :: "bytes \<Rightarrow> bool" where
  "whole b \<longleftrightarrow> b = [] \<or> length b \<ge> 8"

definition nonce_of :: "bytes \<Rightarrow> nat" where
  "nonce_of b = (case read_nonce b 0 of None \<Rightarrow> 0 | Some n \<Rightarrow> n)"

lemma whole_read: "whole b \<Longrightarrow> read_nonce b old = Some (if b = [] then old else nonce_of b)"
  by (auto simp: whole_def read_nonce_def nonce_of_def be_uint64_def)

lemma be_bound: "be_uint64 b = Some n \<Longrightarrow> n < 2 ^ 64"
proof -
  have b: "foldl (\<lambda>m x. m * 256 + unat (x :: 8 word)) a xs < (a + 1) * 256 ^ length xs" for a xs
  proof (induction xs arbitrary: a)
    case (Cons x xs)
    have "unat x < 256" using unsigned_less [of x, where 'a = nat] by simp
    then have "a * 256 + unat x + 1 \<le> (a + 1) * 256" by simp
    then have "(a * 256 + unat x + 1) * 256 ^ length xs \<le> (a + 1) * 256 * 256 ^ length xs" by (rule mult_le_mono1)
    with Cons.IH [of "a * 256 + unat x"] have "foldl (\<lambda>m x. m * 256 + unat x) (a * 256 + unat x) xs < (a + 1) * 256 * 256 ^ length xs"
      by (rule less_le_trans)
    moreover have "(a + 1) * 256 ^ length (x # xs) = (a + 1) * 256 * 256 ^ length xs" by (simp add: algebra_simps)
    ultimately show ?case by (simp only: foldl_Cons)
  qed simp
  assume "be_uint64 b = Some n"
  then have "n = foldl (\<lambda>m x. m * 256 + unat x) 0 (take 8 b)" "length (take 8 b) = 8" by (auto simp: be_uint64_def split: if_splits)
  then show ?thesis using b [of 0 "take 8 b"] by simp
qed

lemma seqno_step:
  assumes "whole stored" "whole (elems (Seqno (pbm m)))" "whole (meta (GetFrom m))"
  shows "\<exists>sq. seqno_of m = Some sq \<and> sq < 2 ^ 64 \<and> (\<exists>ok. seqno_validate err1 stored err2 False m meta =
      Some (if ok then (ValidationAccept, meta(GetFrom m := be_put64 sq)) else (ValidationIgnore, meta))
      \<and> (ok \<longrightarrow> nonce_of (meta (GetFrom m)) < sq))"
proof -
  obtain sq where sq: "seqno_of m = Some sq" using whole_read [OF assms(2)] by (simp add: seqno_of_def)
  then have lt: "sq < 2 ^ 64" using be_bound by (auto simp: seqno_of_def read_nonce_def split: if_splits)
  have "nonce_of [] = 0" by (simp add: nonce_of_def read_nonce_def)
  then show ?thesis using sq lt
    by (auto simp: seqno_validate_def whole_read [OF assms(1)] whole_read [OF assms(3)] intro: exI [of _ False] exI [of _ True])
qed

lemma seqno_run_increasing:
  assumes "list_all (\<lambda>(err1, stored, err2, m). whole stored \<and> whole (elems (Seqno (pbm m)))) xs" "\<forall>q. whole (meta q)"
  shows "\<exists>acc meta'. seqno_run xs meta = Some (acc, meta') \<and> list_all (\<lambda>m. GetFrom m = p \<longrightarrow> nonce_of (meta p) < the (seqno_of m)) acc
     \<and> sorted_wrt (<) (map (\<lambda>m. the (seqno_of m)) (filter (\<lambda>m. GetFrom m = p) acc))"
  using assms
proof (induction xs arbitrary: meta)
  case (Cons x xs)
  obtain err1 stored err2 m where x: "x = (err1, stored, err2, m)" by (cases x)
  obtain sq ok where s: "seqno_of m = Some sq" "sq < 2 ^ 64" "seqno_validate err1 stored err2 False m meta =
      Some (if ok then (ValidationAccept, meta(GetFrom m := be_put64 sq)) else (ValidationIgnore, meta))" "ok \<longrightarrow> nonce_of (meta (GetFrom m)) < sq"
    using seqno_step [of stored m meta err1 err2] Cons.prems x by auto
  have xs: "list_all (\<lambda>(err1, stored, err2, m). whole stored \<and> whole (elems (Seqno (pbm m)))) xs" using Cons.prems(1) by simp
  show ?case
  proof (cases ok)
    case False
    then show ?thesis using Cons.IH [OF xs Cons.prems(2)] s(3) x by auto
  next
    case True
    let ?meta = "meta(GetFrom m := be_put64 sq)"
    have n: "nonce_of (be_put64 sq) = sq" using be_roundtrip [OF s(2)] by (simp add: nonce_of_def read_nonce_def be_put64_def)
    have "\<forall>q. whole (?meta q)" using Cons.prems(2) by (simp add: whole_def be_put64_def)
    from Cons.IH [OF xs this] obtain acc meta' where a: "seqno_run xs ?meta = Some (acc, meta')"
      "list_all (\<lambda>m'. GetFrom m' = p \<longrightarrow> nonce_of (?meta p) < the (seqno_of m')) acc"
      "sorted_wrt (<) (map (\<lambda>m. the (seqno_of m)) (filter (\<lambda>m. GetFrom m = p) acc))" by blast
    have "seqno_run (x # xs) meta = Some (m # acc, meta')" using a(1) s(3) True by (simp add: x)
    moreover have "list_all (\<lambda>m'. GetFrom m' = p \<longrightarrow> nonce_of (meta p) < the (seqno_of m')) (m # acc)"
      using a(2) s(1,4) True n by (cases "GetFrom m = p") (auto simp: list_all_iff)
    moreover have "sorted_wrt (<) (map (\<lambda>m. the (seqno_of m)) (filter (\<lambda>m. GetFrom m = p) (m # acc)))"
      using a(2,3) s(1) n by (auto simp: list_all_iff)
    ultimately show ?thesis by blast
  qed
qed simp

text \<open>
  C32. However the validations of messages interleave, the sequence-number validator accepts the messages of an author only with strictly
  increasing sequence numbers, all above the stored one, so no message is ever accepted twice; this needs a store that does
  not fail to write, and sequence numbers that are absent or at least eight bytes long.\<close>

theorem seqno_no_replay:
  assumes "list_all (\<lambda>(err1, stored, err2, m). whole stored \<and> whole (elems (Seqno (pbm m)))) xs" "\<And>q. whole (meta q)"
  shows "\<exists>acc meta'. seqno_run xs meta = Some (acc, meta') \<and> list_all (\<lambda>m. GetFrom m = p \<longrightarrow> nonce_of (meta p) < the (seqno_of m)) acc
     \<and> sorted_wrt (<) (map (\<lambda>m. the (seqno_of m)) (filter (\<lambda>m. GetFrom m = p) acc))"
  using seqno_run_increasing assms by blast

definition seqno_message :: "nat \<Rightarrow> Message" where
  "seqno_message n = \<lparr>pbm = \<lparr>From = Some [1], Data = [], Seqno = Some (be_put64 n), MBitmask = [1], Signature = None, Key = None\<rparr>, ID = [], ReceivedFrom = [], Local = False\<rparr>"

theorem seqno_no_replay_witness:
  "\<exists>acc meta'. seqno_run [(False, [], False, seqno_message 5), (False, [], False, seqno_message 5), (False, [], False, seqno_message 9)] (\<lambda>_. []) = Some (acc, meta')
     \<and> sorted_wrt (<) (map (\<lambda>m. the (seqno_of m)) (filter (\<lambda>m. GetFrom m = peer_ID [1]) acc))"
proof -
  have "list_all (\<lambda>(err1, stored, err2, m). whole stored \<and> whole (elems (Seqno (pbm m))))
      [(False, [], False, seqno_message 5), (False, [], False, seqno_message 5), (False, [], False, seqno_message 9)]"
    by (simp add: whole_def seqno_message_def be_put64_def elems_def)
  from seqno_no_replay [OF this, of "\<lambda>_. []" "peer_ID [1]"] show ?thesis by (auto simp: whole_def)
qed

text \<open>
  A message whose sequence number has between one and seven bytes makes the validator panic.\<close>

lemma seqno_short_panics:
  assumes "Seqno (pbm m) = Some sq" "0 < length sq" "length sq < 8" "whole stored"
  shows "seqno_validate False stored err2 putErr m meta = None"
  using assms by (auto simp: seqno_validate_def seqno_of_def read_nonce_def be_uint64_def elems_def split: bind_splits)

end
