(* ===== verification/Pubsub_Loop.thy ===== *)
theory Pubsub_Loop
  imports Pubsub_State Seqno_Validator
begin

text \<open>
  The event loop of \<^verbatim>\<open>pubsub.go\<close> (\<^verbatim>\<open>processLoop\<close> and its handlers), the validation pipeline of \<^verbatim>\<open>validation.go\<close> around it, and publishing
  through a bitmask handle (\<^verbatim>\<open>bitmask.go\<close>). \<open>ps_handle\<close> performs one event; a run of the program is a list of events.
\<close>

section \<open>Peers\<close>

definition notifyNewPeer :: "peer_id \<Rightarrow> pubsub \<Rightarrow> pubsub" where
  "notifyNewPeer p s = s\<lparr>newPeersPend := List.insert p (newPeersPend s)\<rparr>"

definition notifyPeerDead :: "peer_id \<Rightarrow> pubsub \<Rightarrow> pubsub" where
  "notifyPeerDead p s = s\<lparr>peerDeadPend := List.insert p (peerDeadPend s)\<rparr>"

text \<open>A queue for a peer that starts with the hello packet. A queue without room would block the loop for ever, which \<open>None\<close> stands for.\<close>

definition greet :: "peer_id \<Rightarrow> int \<Rightarrow> pubsub \<Rightarrow> pubsub option" where
  "greet p delay s =
     (let (hello, s) = getHelloPacket s;
          outs = Push (p_done (rt s)) hello True (newRPCQueue (peerOutboundQueueSize s) (peerOutboundQueueSize s))
      in if outs = [] then None
         else let (i, s) = draw (length outs) s; (err, q) = outs ! i in
           Some (case err of Some _ \<Rightarrow> s | None \<Rightarrow> (set_queue p q s)\<lparr>starting := starting s @ [(p, delay)]\<rparr>))"

definition pending_peer :: "env \<Rightarrow> peer_id \<Rightarrow> pubsub \<Rightarrow> pubsub option" where
  "pending_peer e p s =
     (if \<not> connected e p then Some s
      else if p_peers (rt s) p \<noteq> None then Some s
      else if MapBlacklist_Contains p (blacklist s) then Some s
      else greet p 0 s)"

definition handlePendingPeers :: "env \<Rightarrow> pubsub \<Rightarrow> pubsub option" where
  "handlePendingPeers e s = (let (ps, s) = ranged (newPeersPend s) s in fold_opt (pending_peer e) ps (s\<lparr>newPeersPend := []\<rparr>))"

definition dead_peer :: "env \<Rightarrow> peer_id \<Rightarrow> pubsub \<Rightarrow> pubsub option" where
  "dead_peer e p s = (case p_peers (rt s) p of None \<Rightarrow> Some s
     | Some q \<Rightarrow> do {
         s \<leftarrow> ps_RemovePeer e p (drop_subscriber p (drop_queue p s));
         if connected e p then
           case updateAndGet p (now e) (now e) (jitter e p) (deadPeerBackoff s) of
             (Inl _, b) \<Rightarrow> Some (s\<lparr>deadPeerBackoff := b\<rparr>)
           | (Inr d, b) \<Rightarrow> greet p d (s\<lparr>deadPeerBackoff := b\<rparr>)
         else Some s })"

definition handleDeadPeers :: "env \<Rightarrow> pubsub \<Rightarrow> pubsub option" where
  "handleDeadPeers e s = (let (ps, s) = ranged (peerDeadPend s) s in fold_opt (dead_peer e) ps (s\<lparr>peerDeadPend := []\<rparr>))"

definition new_stream :: "env \<Rightarrow> peer_id \<Rightarrow> protocol \<Rightarrow> conn_info list \<Rightarrow> string list \<Rightarrow> pubsub \<Rightarrow> pubsub option" where
  "new_stream e p proto conns addrs s =
     (if p_peers (rt s) p = None then Some s
      else if MapBlacklist_Contains p (blacklist s) then Some (drop_queue p s)
      else ps_AddPeer e p proto conns addrs s)"

definition blacklist_peer :: "env \<Rightarrow> peer_id \<Rightarrow> pubsub \<Rightarrow> pubsub option" where
  "blacklist_peer e p s =
     (let s = s\<lparr>blacklist := snd (MapBlacklist_Add p (blacklist s))\<rparr> in
      if p_peers (rt s) p = None then Some s else ps_RemovePeer e p (drop_subscriber p (drop_queue p s)))"

text \<open>The peers of a bitmask, with the same loop over its slices as \<^verbatim>\<open>getPeers\<close> of the router; nobody subscribed to a slice means no peers.\<close>

fun peers_in_slices :: "pubsub \<Rightarrow> bitmask list \<Rightarrow> peer_id list \<Rightarrow> peer_id list" where
  "peers_in_slices s [] acc = acc"
| "peers_in_slices s (sl # sls) acc = (case p_bitmasks (rt s) sl of None \<Rightarrow> []
     | Some tmap \<Rightarrow>
         let peerset = filter (\<lambda>p. p \<in> set tmap) (peer_keys s) in
         if acc = [] then peers_in_slices s sls peerset
         else let update = filter (\<lambda>p. p \<in> set peerset) acc in
           if update = [] then [] else peers_in_slices s sls update)"

definition getPeersInBitmask :: "bitmask \<Rightarrow> pubsub \<Rightarrow> peer_id list" where
  "getPeersInBitmask bm s = peers_in_slices s (SliceBitmask bm) []"

section \<open>Bitmask handles, subscriptions, relays\<close>

definition handleAddBitmask :: "bitmask \<Rightarrow> pubsub \<Rightarrow> nat \<times> pubsub" where
  "handleAddBitmask bm s = (case map_of (myBitmasks s) bm of Some h \<Rightarrow> (h, s)
     | None \<Rightarrow> let h = next_handle s in
         (h, s\<lparr>handles := (handles s)(h := \<lparr>h_bitmask = bm, evtHandlers = [], h_closed = False\<rparr>), next_handle := Suc h, myBitmasks := (bm, h) # myBitmasks s\<rparr>))"

definition subs_of :: "pubsub \<Rightarrow> bitmask \<Rightarrow> nat list" where
  "subs_of s bm = (case map_of (mySubs s) bm of None \<Rightarrow> [] | Some xs \<Rightarrow> xs)"

definition relays_of :: "pubsub \<Rightarrow> bitmask \<Rightarrow> int" where
  "relays_of s bm = (case map_of (myRelays s) bm of None \<Rightarrow> 0 | Some n \<Rightarrow> n)"

text \<open>The error is \<open>False\<close>.\<close>

definition handleRemoveBitmask :: "bitmask \<Rightarrow> pubsub \<Rightarrow> bool \<times> pubsub" where
  "handleRemoveBitmask bm s = (case map_of (myBitmasks s) bm of None \<Rightarrow> (True, s)
     | Some h \<Rightarrow> if evtHandlers (handles s h) = [] \<and> subs_of s bm = [] \<and> relays_of s bm = 0
         then (True, s\<lparr>myBitmasks := AList.delete bm (myBitmasks s)\<rparr>) else (False, s))"

definition sub_close :: "nat \<Rightarrow> pubsub \<Rightarrow> pubsub" where
  "sub_close a s = s\<lparr>subs := (subs s)(a := (subs s a)\<lparr>sub_closed := True\<rparr>)\<rparr>"

definition lose_interest :: "env \<Rightarrow> bitmask \<Rightarrow> pubsub \<Rightarrow> pubsub option" where
  "lose_interest e bm s = on_rt (rt_Leave bm (now e)) (announce bm False s)"

definition gain_interest :: "env \<Rightarrow> bitmask \<Rightarrow> pubsub \<Rightarrow> pubsub option" where
  "gain_interest e bm s = on_rt (rt_Join bm (now e)) (announce bm True s)"

definition handleRemoveSubscription :: "env \<Rightarrow> nat \<Rightarrow> pubsub \<Rightarrow> pubsub option" where
  "handleRemoveSubscription e a s = (let bm = sub_bitmask (subs s a) in
     case map_of (mySubs s) bm of None \<Rightarrow> Some s
     | Some xs \<Rightarrow>
         let s = sub_close a s; xs = removeAll a xs in
         if xs = [] then
           let s = s\<lparr>mySubs := AList.delete bm (mySubs s)\<rparr> in
           if relays_of s bm = 0 then lose_interest e bm s else Some s
         else Some (s\<lparr>mySubs := AList.update bm xs (mySubs s)\<rparr>))"

definition handleAddSubscription :: "env \<Rightarrow> bitmask \<Rightarrow> nat \<Rightarrow> pubsub \<Rightarrow> pubsub option" where
  "handleAddSubscription e bm sz s = (let a = next_sub s in do {
     s \<leftarrow> (if subs_of s bm = [] \<and> relays_of s bm = 0 then gain_interest e bm s else Some s);
     Some (s\<lparr>subs := (subs s)(a := \<lparr>sub_bitmask = bm, sub_size = sz, sub_ch = [], sub_closed = False\<rparr>), next_sub := Suc a,
             mySubs := AList.update bm (subs_of s bm @ [a]) (mySubs s)\<rparr>) })"

definition handleAddRelay :: "env \<Rightarrow> bitmask \<Rightarrow> pubsub \<Rightarrow> pubsub option" where
  "handleAddRelay e bm s =
     (let s = s\<lparr>myRelays := AList.update bm (relays_of s bm + 1) (myRelays s)\<rparr> in
      if relays_of s bm = 1 \<and> subs_of s bm = [] then gain_interest e bm s else Some s)"

definition handleRemoveRelay :: "env \<Rightarrow> bitmask \<Rightarrow> pubsub \<Rightarrow> pubsub option" where
  "handleRemoveRelay e bm s =
     (if relays_of s bm = 0 then Some s
      else let s = s\<lparr>myRelays := AList.update bm (relays_of s bm - 1) (myRelays s)\<rparr> in
        if relays_of s bm = 0 then
          let s = s\<lparr>myRelays := AList.delete bm (myRelays s)\<rparr> in
          if subs_of s bm = [] then lose_interest e bm s else Some s
        else Some s)"

section \<open>Delivery\<close>

text \<open>Sending on a closed channel panics, even in a select with a default.\<close>

definition notify_sub :: "Message \<Rightarrow> nat \<Rightarrow> pubsub \<Rightarrow> pubsub option" where
  "notify_sub msg a s = (let f = subs s a in
     if sub_closed f then None
     else if length (sub_ch f) < sub_size f then Some (s\<lparr>subs := (subs s)(a := f\<lparr>sub_ch := sub_ch f @ [msg]\<rparr>)\<rparr>) else Some s)"

definition notifySubs :: "Message \<Rightarrow> pubsub \<Rightarrow> pubsub option" where
  "notifySubs msg s = do {
     sl \<leftarrow> go_nth (SliceBitmask (GetBitmask msg)) 0;
     fold_opt (notify_sub msg) (subs_of s sl) s }"

definition publishMessage :: "env \<Rightarrow> Message \<Rightarrow> pubsub \<Rightarrow> pubsub option" where
  "publishMessage e msg s = do {
     s \<leftarrow> tr_DeliverMessage e msg s;
     s \<leftarrow> notifySubs msg s;
     if Local msg then Some s else on_rt (rt_Publish msg (now e)) s }"

definition seenMessage :: "message_id \<Rightarrow> pubsub \<Rightarrow> bool" where
  "seenMessage i s = fst (FirstSeen_Has (peer_ID i) 0 (seenMessages s))"

definition markSeen :: "env \<Rightarrow> message_id \<Rightarrow> pubsub \<Rightarrow> bool \<times> pubsub" where
  "markSeen e i s = (let (b, c) = FirstSeen_Add (peer_ID i) (now e) (seenMessages s) in (b, s\<lparr>seenMessages := c\<rparr>))"

section \<open>Validation\<close>

text \<open>The outcome of a validation: no error, a rejection, or the error of the cancelled context.\<close>

datatype val_outcome = ValOk | ValErr string | ValCtx

definition val_Push :: "env \<Rightarrow> peer_id \<Rightarrow> Message \<Rightarrow> pubsub \<Rightarrow> (bool \<times> pubsub) option" where
  "val_Push e src msg s = (let vals = getValidators msg (val s) in
     if vals \<noteq> [] \<or> Signature (pbm msg) \<noteq> None then
       if length (validateQ s) < validateQ_size s
       then Some (False, s\<lparr>validateQ := validateQ s @ [\<lparr>vr_vals = vals, vr_src = src, vr_msg = msg\<rparr>]\<rparr>)
       else do { s \<leftarrow> tr_RejectMessage e msg RejectValidationQueueFull s; Some (False, s) }
     else Some (True, s))"

text \<open>\<open>late\<close> says which validators with a timeout see their context expire. The throttle counts the validations in progress. \<open>quits\<close> decides the
  last select when the context is done.\<close>

definition val_validate :: "('sk, 'pk) key_ops \<Rightarrow> env \<Rightarrow> (validatorImpl \<Rightarrow> bool) \<Rightarrow> bool \<Rightarrow> validatorImpl list \<Rightarrow> peer_id \<Rightarrow> Message \<Rightarrow> bool \<Rightarrow>
    pubsub \<Rightarrow> (val_outcome \<times> pubsub) option" where
  "val_validate ko e late quits vals src msg synchronous s =
     (if Signature (pbm msg) \<noteq> None \<and> mustVerify (signPolicy s) \<and> \<not> verifyMessageSignature ko (pbm msg) then do {
        s \<leftarrow> tr_RejectMessage e msg RejectInvalidSignature s;
        Some (ValErr RejectInvalidSignature, s) }
      else
        let (i, msg) = idGen_ID (p_idGen (rt s)) msg; (fresh, s) = markSeen e i s in
        if \<not> fresh then do { s \<leftarrow> tr_DuplicateMessage e msg s; Some (ValOk, s) }
        else do {
          s \<leftarrow> tr_ValidateMessage e msg s;
          let inline = filter (\<lambda>v. v_inline v \<or> synchronous) vals;
          let async = filter (\<lambda>v. \<not> (v_inline v \<or> synchronous)) vals;
          let result = inline_verdict (map (\<lambda>v. validateMsg v (late v \<and> v_timeout v > 0) src msg) inline) ValidationAccept;
          if result = ValidationReject then do {
            s \<leftarrow> tr_RejectMessage e msg RejectValidationFailed s;
            Some (ValErr RejectValidationFailed, s) }
          else if async \<noteq> [] then
            if length (validating s) < validateThrottle s
            then Some (ValOk, s\<lparr>validating := validating s @ [(\<lparr>vr_vals = async, vr_src = src, vr_msg = msg\<rparr>, result)]\<rparr>)
            else do { s \<leftarrow> tr_RejectMessage e msg RejectValidationThrottled s; Some (ValOk, s) }
          else if result = ValidationIgnore then do {
            s \<leftarrow> tr_RejectMessage e msg RejectValidationIgnored s;
            Some (ValErr RejectValidationIgnored, s) }
          else if p_done (rt s) \<and> quits then Some (ValCtx, s)
          else Some (ValOk, s\<lparr>sendMsg := sendMsg s @ [msg]\<rparr>) })"

text \<open>The end of an asynchronous validation: \<open>flags\<close> says for every validator whether its throttle has room and whether its context is cancelled,
  and \<open>arrivals\<close> is the order of the results.\<close>

definition async_verdict :: "(validatorImpl \<times> bool \<times> bool) list \<Rightarrow> peer_id \<Rightarrow> Message \<Rightarrow> ValidationResult list \<Rightarrow> ValidationResult" where
  "async_verdict vals src msg arrivals = (case vals of
       [(v, room, cancelled)] \<Rightarrow> validate_one v room (cancelled \<and> v_timeout v > 0) src msg
     | _ \<Rightarrow> collect_verdicts arrivals ValidationAccept)"

definition doValidateBitmask :: "env \<Rightarrow> validateReq \<Rightarrow> ValidationResult \<Rightarrow> ValidationResult \<Rightarrow> pubsub \<Rightarrow> pubsub option" where
  "doValidateBitmask e req r verdict s = (let msg = vr_msg req in
     case combined_verdict r verdict of
       ValidationAccept \<Rightarrow> Some (s\<lparr>sendMsg := sendMsg s @ [msg]\<rparr>)
     | ValidationReject \<Rightarrow> tr_RejectMessage e msg RejectValidationFailed s
     | ValidationIgnore \<Rightarrow> tr_RejectMessage e msg RejectValidationIgnored s
     | validationThrottled \<Rightarrow> tr_RejectMessage e msg RejectValidationThrottled s)"

section \<open>Incoming RPCs\<close>

definition subscribedToMsg :: "pbMessage \<Rightarrow> pubsub \<Rightarrow> bool" where
  "subscribedToMsg m s \<longleftrightarrow> mySubs s \<noteq> [] \<and> list_all (\<lambda>sl. map_of (mySubs s) sl \<noteq> None) (SliceBitmask (MBitmask m))"

definition canRelayMsg :: "pbMessage \<Rightarrow> pubsub \<Rightarrow> bool" where
  "canRelayMsg m s \<longleftrightarrow> myRelays s \<noteq> [] \<and> list_ex (\<lambda>sl. relays_of s sl > 0) (SliceBitmask (MBitmask m))"

definition shouldPush :: "env \<Rightarrow> Message \<Rightarrow> pubsub \<Rightarrow> (bool \<times> Message \<times> pubsub) option" where
  "shouldPush e msg s = (let src = ReceivedFrom msg; refuse = (\<lambda>reason. do { s \<leftarrow> tr_RejectMessage e msg reason s; Some (False, msg, s) }) in
     if MapBlacklist_Contains src (blacklist s) then refuse RejectBlacklstedPeer
     else if MapBlacklist_Contains (GetFrom msg) (blacklist s) then refuse RejectBlacklistedSource
     else case checkSigningPolicy (signPolicy s) (signID s) (pbm msg) of
       Some reason \<Rightarrow> refuse reason
     | None \<Rightarrow>
         if GetFrom msg = p_self (rt s) \<and> src \<noteq> p_self (rt s) then refuse RejectSelfOrigin
         else let (i, msg) = idGen_ID (p_idGen (rt s)) msg in
           if seenMessage i s then do { s \<leftarrow> tr_DuplicateMessage e msg s; Some (False, msg, s) }
           else Some (True, msg, s))"

definition pushMsg :: "env \<Rightarrow> Message \<Rightarrow> pubsub \<Rightarrow> pubsub option" where
  "pushMsg e msg s = (let (i, msg) = idGen_ID (p_idGen (rt s)) msg in do {
     (go, s) \<leftarrow> val_Push e (ReceivedFrom msg) msg s;
     if \<not> go then Some s
     else let (fresh, s) = markSeen e i s in if fresh then publishMessage e msg s else Some s })"

definition incoming_sub :: "peer_id \<Rightarrow> SubOpts \<Rightarrow> pubsub \<Rightarrow> pubsub" where
  "incoming_sub from so s = (let t = SubBitmask so; r = rt s in
     if \<not> p_peerFilter r from t then s
     else if Subscribe so then
       let tmap = subscribers r t in
       if from \<in> set tmap then s
       else notify PeerJoin from t (s\<lparr>rt := r\<lparr>p_bitmasks := (p_bitmasks r)(t \<mapsto> tmap @ [from])\<rparr>\<rparr>)
     else case p_bitmasks r t of None \<Rightarrow> s
       | Some tmap \<Rightarrow>
           if from \<in> set tmap
           then notifyLeave t from (s\<lparr>rt := r\<lparr>p_bitmasks := (p_bitmasks r)(t \<mapsto> removeAll from tmap)\<rparr>\<rparr>)
           else s)"

text \<open>The messages of the RPC that go on to validation.\<close>

fun collect_push :: "env \<Rightarrow> peer_id \<Rightarrow> pbMessage list \<Rightarrow> pubsub \<Rightarrow> (Message list \<times> pubsub) option" where
  "collect_push e from [] s = Some ([], s)"
| "collect_push e from (m # ms) s =
     (if \<not> (subscribedToMsg m s \<or> canRelayMsg m s) then collect_push e from ms s
      else do {
        (b, msg, s) \<leftarrow> shouldPush e \<lparr>pbm = m, ID = [], ReceivedFrom = from, Local = False\<rparr> s;
        (rest, s) \<leftarrow> collect_push e from ms s;
        Some (if b then msg # rest else rest, s) })"

text \<open>What the router sees of the seen cache.\<close>

definition sync_seen :: "pubsub \<Rightarrow> pubsub" where
  "sync_seen s = s\<lparr>rt := (rt s)\<lparr>p_seen := (\<lambda>i. seenMessage i s)\<rparr>\<rparr>"

definition handleIncomingRPC :: "env \<Rightarrow> real \<Rightarrow> RPC \<Rightarrow> pubsub \<Rightarrow> pubsub option" where
  "handleIncomingRPC e d rpc s = (let from = rpc_from rpc in
     if (case appSpecificRpcInspector s of None \<Rightarrow> False | Some inspect \<Rightarrow> \<not> inspect from rpc) then Some s
     else case (if Subscriptions rpc = [] then Inr [] else case subFilter s of None \<Rightarrow> Inr (Subscriptions rpc)
                | Some f \<Rightarrow> FilterIncomingSubscriptions f from (Subscriptions rpc)) of
       Inl _ \<Rightarrow> Some s
     | Inr sos \<Rightarrow> do {
         (a, s) \<leftarrow> rt_AcceptFrom e from d (fold (incoming_sub from) sos s);
         case a of AcceptNone \<Rightarrow> Some s
         | AcceptControl \<Rightarrow> on_rt (HandleRPC rpc (now e)) (sync_seen (tr_ThrottlePeer from s))
         | AcceptAll \<Rightarrow> do {
             (toPush, s) \<leftarrow> collect_push e from (Publish rpc) s;
             s \<leftarrow> on_rt (PreValidation toPush) s;
             s \<leftarrow> fold_opt (pushMsg e) toPush s;
             on_rt (HandleRPC rpc (now e)) (sync_seen s) } })"

section \<open>Publishing through a handle\<close>

definition nextSeqno :: "pubsub \<Rightarrow> bytes \<times> pubsub" where
  "nextSeqno s = (let c = (counter s + 1) mod 2 ^ 64 in (be_put64 c, s\<lparr>counter := c\<rparr>))"

text \<open>Building and signing the message of a publication: the author and key of the object, or those given with the publication.\<close>

datatype publish_error = ErrNilSignKey | ErrEmptyPeerID | ErrSign

definition make_message :: "('sk, 'pk) key_ops \<Rightarrow> 'sk option \<Rightarrow> ('sk option \<times> peer_id) option \<Rightarrow> bitmask \<Rightarrow> bytes \<Rightarrow> bool \<Rightarrow> pubsub \<Rightarrow>
    (publish_error + Message) \<times> pubsub" where
  "make_message ko signKey customKey bm data local s =
     (let (key, pid) = (case customKey of Some k \<Rightarrow> if local then (signKey, signID s) else k | None \<Rightarrow> (signKey, signID s));
          custom = customKey \<noteq> None \<and> \<not> local
      in if custom \<and> key = None then (Inl ErrNilSignKey, s)
         else if custom \<and> pid = [] then (Inl ErrEmptyPeerID, s)
         else
           let m = \<lparr>From = None, Data = data, Seqno = None, MBitmask = bm, Signature = None, Key = None\<rparr>;
               (m, s) = (if pid \<noteq> [] then let (n, s) = nextSeqno s in (m\<lparr>From := Some (peer_bytes pid), Seqno := Some n\<rparr>, s) else (m, s));
               wrap = (\<lambda>m. \<lparr>pbm = m, ID = [], ReceivedFrom = p_self (rt s), Local = local\<rparr>)
           in case key of None \<Rightarrow> (Inr (wrap m), s)
              | Some k \<Rightarrow> (case signMessage ko pid k (m\<lparr>From := Some (peer_bytes pid)\<rparr>) of None \<Rightarrow> (Inl ErrSign, s) | Some m \<Rightarrow> (Inr (wrap m), s)))"

definition PushLocal :: "('sk, 'pk) key_ops \<Rightarrow> env \<Rightarrow> (validatorImpl \<Rightarrow> bool) \<Rightarrow> bool \<Rightarrow> Message \<Rightarrow> pubsub \<Rightarrow> (val_outcome \<times> pubsub) option" where
  "PushLocal ko e late quits msg s = (case checkSigningPolicy (signPolicy s) (signID s) (pbm msg) of
       Some reason \<Rightarrow> do { s \<leftarrow> tr_RejectMessage e msg reason s; Some (ValErr reason, s) }
     | None \<Rightarrow> val_validate ko e late quits (getValidators msg (val s)) (ReceivedFrom msg) msg True s)"

section \<open>Bitmask handles\<close>

datatype bitmask_error = ErrBitmaskClosed | ErrOutstanding | ErrNotAllowed | ErrPublish publish_error

definition Bitmask_Publish :: "('sk, 'pk) key_ops \<Rightarrow> env \<Rightarrow> (validatorImpl \<Rightarrow> bool) \<Rightarrow> bool \<Rightarrow> 'sk option \<Rightarrow> ('sk option \<times> peer_id) option \<Rightarrow>
    nat \<Rightarrow> bitmask \<Rightarrow> bytes \<Rightarrow> bool \<Rightarrow> pubsub \<Rightarrow> ((bitmask_error + val_outcome) \<times> pubsub) option" where
  "Bitmask_Publish ko e late quits signKey customKey h bm data local s =
     (if h_closed (handles s h) then Some (Inl ErrBitmaskClosed, s)
      else case make_message ko signKey customKey bm data local s of
        (Inl err, s) \<Rightarrow> Some (Inl (ErrPublish err), s)
      | (Inr msg, s) \<Rightarrow> do { (r, s) \<leftarrow> PushLocal ko e late quits msg s; Some (Inr r, s) })"

definition Bitmask_Subscribe :: "env \<Rightarrow> nat \<Rightarrow> nat \<Rightarrow> pubsub \<Rightarrow> ((bitmask_error + nat) \<times> pubsub) option" where
  "Bitmask_Subscribe e h sz s =
     (if h_closed (handles s h) then Some (Inl ErrBitmaskClosed, s)
      else do { s' \<leftarrow> handleAddSubscription e (h_bitmask (handles s h)) sz s; Some (Inr (next_sub s), s') })"

definition Bitmask_Relay :: "env \<Rightarrow> nat \<Rightarrow> pubsub \<Rightarrow> (bitmask_error option \<times> pubsub) option" where
  "Bitmask_Relay e h s =
     (if h_closed (handles s h) then Some (Some ErrBitmaskClosed, s)
      else do { s \<leftarrow> handleAddRelay e (h_bitmask (handles s h)) s; Some (None, s) })"

definition EventHandler :: "nat \<Rightarrow> pubsub \<Rightarrow> (bitmask_error + nat) \<times> pubsub" where
  "EventHandler h s =
     (if h_closed (handles s h) then (Inl ErrBitmaskClosed, s)
      else let a = next_handler s; t = handles s h in
        (Inr a, s\<lparr>handlers := (handlers s)(a := new_handler (subscribers (rt s) (h_bitmask t))), next_handler := Suc a,
                 handles := (handles s)(h := t\<lparr>evtHandlers := a # evtHandlers t\<rparr>)\<rparr>))"

definition EventHandler_Cancel :: "nat \<Rightarrow> nat \<Rightarrow> pubsub \<Rightarrow> pubsub" where
  "EventHandler_Cancel h a s = s\<lparr>handles := (handles s)(h := (handles s h)\<lparr>evtHandlers := removeAll a (evtHandlers (handles s h))\<rparr>)\<rparr>"

definition Bitmask_Close :: "nat \<Rightarrow> pubsub \<Rightarrow> bitmask_error option \<times> pubsub" where
  "Bitmask_Close h s =
     (if h_closed (handles s h) then (None, s)
      else let (ok, s) = handleRemoveBitmask (h_bitmask (handles s h)) s in
        if ok then (None, s\<lparr>handles := (handles s)(h := (handles s h)\<lparr>h_closed := True\<rparr>)\<rparr>) else (Some ErrOutstanding, s))"

text \<open>Joining a bitmask makes or finds one handle for each of its slices.\<close>

fun join_slices :: "bitmask list \<Rightarrow> pubsub \<Rightarrow> nat list \<times> pubsub" where
  "join_slices [] s = ([], s)"
| "join_slices (sl # sls) s = (let (h, s) = handleAddBitmask sl s; (hs, s) = join_slices sls s in (h # hs, s))"

definition tryJoin :: "bitmask \<Rightarrow> pubsub \<Rightarrow> (bitmask_error + nat list) \<times> pubsub" where
  "tryJoin bm s =
     (if (case subFilter s of None \<Rightarrow> False | Some f \<Rightarrow> \<not> CanSubscribe f bm) then (Inl ErrNotAllowed, s)
      else let (hs, s) = join_slices (SliceBitmask bm) s in (Inr hs, s))"

fun subscribe_all :: "env \<Rightarrow> nat list \<Rightarrow> nat \<Rightarrow> pubsub \<Rightarrow> ((bitmask_error + nat list) \<times> pubsub) option" where
  "subscribe_all e [] sz s = Some (Inr [], s)"
| "subscribe_all e (h # hs) sz s = do {
     (r, s) \<leftarrow> Bitmask_Subscribe e h sz s;
     case r of Inl err \<Rightarrow> Some (Inl err, s)
     | Inr a \<Rightarrow> do {
         (r, s) \<leftarrow> subscribe_all e hs sz s;
         Some (case r of Inl err \<Rightarrow> Inl err | Inr as \<Rightarrow> Inr (a # as), s) } }"

definition ps_Subscribe :: "env \<Rightarrow> bitmask \<Rightarrow> nat \<Rightarrow> pubsub \<Rightarrow> ((bitmask_error + nat list) \<times> pubsub) option" where
  "ps_Subscribe e bm sz s = (case tryJoin bm s of
       (Inl err, s) \<Rightarrow> Some (Inl err, s)
     | (Inr hs, s) \<Rightarrow> subscribe_all e hs sz s)"

section \<open>The loop\<close>

text \<open>What makes the program do something. Events about a validation in progress, a retry or a subscription that does not exist do nothing.\<close>

datatype ('sk, 'v) ps_event =
    NewPeer peer_id | PeerDead peer_id | PendingPeers | DeadPeers
  | NewStream peer_id protocol "conn_info list" "string list" | PeerError peer_id
  | JoinBitmask bitmask | CloseBitmask nat | AddEventHandler nat | CancelEventHandler nat nat
  | SubscribeTo bitmask nat | SubscribeHandle nat nat | CancelSub nat | NextMessage nat
  | Relay nat | CancelRelay bitmask
  | Incoming RPC real | SendMsg | AddVal "'v addValReq" | RmVal bitmask | RetryAnnounce nat | BlacklistPeer peer_id
  | Worker "validatorImpl \<Rightarrow> bool" bool | FinishValidation nat "(bool \<times> bool) list" "ValidationResult list"
  | PublishTo "'sk option" "('sk option \<times> peer_id) option" nat bitmask bytes bool "validatorImpl \<Rightarrow> bool" bool
  | Heartbeat | Sweep | DecayGater

definition worker :: "('sk, 'pk) key_ops \<Rightarrow> env \<Rightarrow> (validatorImpl \<Rightarrow> bool) \<Rightarrow> bool \<Rightarrow> pubsub \<Rightarrow> pubsub option" where
  "worker ko e late quits s = (case validateQ s of [] \<Rightarrow> Some s
     | req # rest \<Rightarrow> map_option snd (val_validate ko e late quits (vr_vals req) (vr_src req) (vr_msg req) False (s\<lparr>validateQ := rest\<rparr>)))"

definition remove_at :: "nat \<Rightarrow> 'a list \<Rightarrow> 'a list" where
  "remove_at i xs = take i xs @ drop (Suc i) xs"

text \<open>An asynchronous validation ends. Its throttle slot is free as soon as its message is handed over; the code keeps the slot until the send to the
  loop is through, so the model can have more validations in progress than the code.\<close>

definition finish_validation :: "env \<Rightarrow> nat \<Rightarrow> (bool \<times> bool) list \<Rightarrow> ValidationResult list \<Rightarrow> pubsub \<Rightarrow> pubsub option" where
  "finish_validation e i flags arrivals s =
     (if i < length (validating s) then
        let (req, r) = validating s ! i; vals = zip (vr_vals req) flags in
        if length flags = length (vr_vals req) \<and>
           (length vals = 1 \<or> mset arrivals = mset (map (\<lambda>(v, room, cancelled). validate_one v room cancelled (vr_src req) (vr_msg req)) vals))
        then doValidateBitmask e req r (async_verdict vals (vr_src req) (vr_msg req) arrivals) (s\<lparr>validating := remove_at i (validating s)\<rparr>)
        else Some s
      else Some s)"

definition next_message :: "nat \<Rightarrow> pubsub \<Rightarrow> pubsub" where
  "next_message a s = s\<lparr>subs := (subs s)(a := (subs s a)\<lparr>sub_ch := tl (sub_ch (subs s a))\<rparr>)\<rparr>"

fun ps_handle :: "('sk, 'pk) key_ops \<Rightarrow> env \<Rightarrow> ('sk, 'v) ps_event \<Rightarrow> pubsub \<Rightarrow> pubsub option" where
  "ps_handle ko e (NewPeer p) s = Some (notifyNewPeer p s)"
| "ps_handle ko e (PeerDead p) s = Some (notifyPeerDead p s)"
| "ps_handle ko e PendingPeers s = handlePendingPeers e s"
| "ps_handle ko e DeadPeers s = handleDeadPeers e s"
| "ps_handle ko e (NewStream p proto conns addrs) s = new_stream e p proto conns addrs s"
| "ps_handle ko e (PeerError p) s = Some (drop_queue p s)"
| "ps_handle ko e (JoinBitmask bm) s = Some (snd (tryJoin bm s))"
| "ps_handle ko e (CloseBitmask h) s = Some (snd (Bitmask_Close h s))"
| "ps_handle ko e (AddEventHandler h) s = Some (snd (EventHandler h s))"
| "ps_handle ko e (CancelEventHandler h a) s = Some (EventHandler_Cancel h a s)"
| "ps_handle ko e (SubscribeTo bm sz) s = map_option snd (ps_Subscribe e bm sz s)"
| "ps_handle ko e (SubscribeHandle h sz) s = map_option snd (Bitmask_Subscribe e h sz s)"
| "ps_handle ko e (CancelSub a) s = (if a < next_sub s then handleRemoveSubscription e a s else Some s)"
| "ps_handle ko e (NextMessage a) s = Some (next_message a s)"
| "ps_handle ko e (Relay h) s = map_option snd (Bitmask_Relay e h s)"
| "ps_handle ko e (CancelRelay bm) s = handleRemoveRelay e bm s"
| "ps_handle ko e (Incoming rpc d) s = handleIncomingRPC e d rpc s"
| "ps_handle ko e SendMsg s = (case sendMsg s of [] \<Rightarrow> Some s | m # ms \<Rightarrow> publishMessage e m (s\<lparr>sendMsg := ms\<rparr>))"
| "ps_handle ko e (AddVal req) s = Some (s\<lparr>val := snd (AddValidator req (val s))\<rparr>)"
| "ps_handle ko e (RmVal bm) s = Some (s\<lparr>val := snd (RemoveValidator bm (val s))\<rparr>)"
| "ps_handle ko e (RetryAnnounce i) s = Some (if i < length (retries s)
     then case retries s ! i of (p, bm, sub) \<Rightarrow> announceRetry p bm sub (s\<lparr>retries := remove_at i (retries s)\<rparr>) else s)"
| "ps_handle ko e (BlacklistPeer p) s = blacklist_peer e p s"
| "ps_handle ko e (Worker late quits) s = worker ko e late quits s"
| "ps_handle ko e (FinishValidation i flags arrivals) s = finish_validation e i flags arrivals s"
| "ps_handle ko e (PublishTo signKey customKey h bm data local late quits) s =
     map_option snd (Bitmask_Publish ko e late quits signKey customKey h bm data local s)"
| "ps_handle ko e Heartbeat s = on_rt (heartbeat (now e)) s"
| "ps_handle ko e Sweep s = Some (s\<lparr>seenMessages := (seenMessages s)\<lparr>fs_m := sweep (fs_m (seenMessages s)) (now e)\<rparr>\<rparr>)"
| "ps_handle ko e DecayGater s = Some (s\<lparr>gate := map_option (decayStats (now e)) (gate s)\<rparr>)"

definition ps_run :: "('sk, 'pk) key_ops \<Rightarrow> (env \<times> ('sk, 'v) ps_event) list \<Rightarrow> pubsub \<Rightarrow> pubsub option" where
  "ps_run ko = fold_opt (\<lambda>(e, ev). ps_handle ko e ev)"

end
