(* ===== verification/Router_Frame.thy ===== *)
theory Router_Frame
  imports Router_Beat
begin

text \<open>
  What the router leaves alone: no handler changes the fields of the PubSub object except the contents of the outbound queues, and
  only joining and leaving change for which bitmasks there is a mesh.
\<close>

definition side :: "router \<Rightarrow> peer_id \<times> (bitmask \<rightharpoonup> peer_id list) \<times> msgIDGenerator \<times> peer_id set \<times> bool" where
  "side s = (p_self s, p_bitmasks s, p_idGen s, dom (p_peers s), p_done s)"

definition full :: "router \<Rightarrow> (peer_id \<times> (bitmask \<rightharpoonup> peer_id list) \<times> msgIDGenerator \<times> peer_id set \<times> bool) \<times> bitmask set" where
  "full s = (side s, fst ` set (mesh s))"

lemma full_upd [simp]:
  "full (s\<lparr>rnd := r\<rparr>) = full s" "full (s\<lparr>rscore := sc\<rparr>) = full s" "full (s\<lparr>gtracer := g\<rparr>) = full s" "full (s\<lparr>mcache := mc\<rparr>) = full s"
  "full (s\<lparr>peerhave := ph\<rparr>) = full s" "full (s\<lparr>iasked := ia\<rparr>) = full s" "full (s\<lparr>prune_backoff := pb\<rparr>) = full s" "full (s\<lparr>control := c\<rparr>) = full s"
  "full (s\<lparr>gossip := gs\<rparr>) = full s" "full (s\<lparr>fanout := f\<rparr>) = full s" "full (s\<lparr>lastpub := l\<rparr>) = full s" "full (s\<lparr>connect := cn\<rparr>) = full s"
  "full (s\<lparr>unwanted := u\<rparr>) = full s" "full (s\<lparr>peerdontwant := pd\<rparr>) = full s" "full (s\<lparr>peers := ps\<rparr>) = full s" "full (s\<lparr>outbound := ob\<rparr>) = full s"
  "full (s\<lparr>dialers := dl\<rparr>) = full s" "full (s\<lparr>heartbeatTicks := ht\<rparr>) = full s" "full (s\<lparr>p_seen := sn\<rparr>) = full s"
  "full (s\<lparr>mesh := drop_peer p (mesh s)\<rparr>) = full s"
  by (simp_all add: full_def side_def)

lemma full_queue: "p_peers s p \<noteq> None \<Longrightarrow> full (s\<lparr>p_peers := (p_peers s)(p \<mapsto> q)\<rparr>) = full s"
  by (auto simp: full_def side_def)

lemma full_mesh: "bm \<in> fst ` set (mesh s) \<Longrightarrow> full (s\<lparr>mesh := AList.update bm ps (mesh s)\<rparr>) = full s"
  by (auto simp: full_def side_def update_keys)

lemma full_keys: "full t = full s \<Longrightarrow> fst ` set (mesh t) = fst ` set (mesh s)"
  unfolding full_def by (rule Pair_inject)

lemma full_mesh_at: "full t = full s \<Longrightarrow> map_of (mesh s) bm = Some qs \<Longrightarrow> full (t\<lparr>mesh := AList.update bm ps (mesh t)\<rparr>) = full s"
proof -
  assume t: "full t = full s" and "map_of (mesh s) bm = Some qs"
  then have "bm \<in> fst ` set (mesh s)" by (metis map_of_None_keys option.distinct(1))
  then have "bm \<in> fst ` set (mesh t)" by (simp only: full_keys [OF t])
  then show ?thesis using full_mesh t by simp
qed

lemma side_full: "full s = full s' \<Longrightarrow> side s = side s'"
  by (simp add: full_def)

section \<open>Sending\<close>

lemma range_of_full [simp]: "full (snd (range_of xs s)) = full s"
  by (simp add: range_of_def case_prod_unfold Let_def)

lemma doDropRPC_full [simp]: "full (doDropRPC rpc p s) = full s"
  by (simp add: doDropRPC_def pushControl_def split: option.split)

lemma doSendRPC_full: "p_peers s p \<noteq> None \<Longrightarrow> full (doSendRPC rpc p q fast s) = full s"
  using full_queue [of "s\<lparr>rnd := r\<rparr>" p for r] by (simp add: doSendRPC_def case_prod_unfold Let_def split: option.split)

lemma send_part_full [simp]: "full (send_part out p fast rpc s) = full s"
  by (auto simp: send_part_def doSendRPC_full split: option.split)

lemma fold_full: "(\<And>x s. full (f x s) = full s) \<Longrightarrow> full (fold f xs s) = full s"
  by (induction xs arbitrary: s) auto

lemma sendRPC_full [simp]: "full (sendRPC p out fast s) = full s"
proof -
  have "full (snd (snd (take_control p out s))) = full s" by (simp add: take_control_def split: option.split)
  moreover have "full (snd (take_gossip p out own s)) = full s" for out own s by (simp add: take_gossip_def split: option.split)
  ultimately show ?thesis by (auto simp: sendRPC_def case_prod_unfold Let_def doSendRPC_full fold_full split: option.split)
qed

lemma sendGraft_full [simp]: "full (sendGraft p bm s) = full s"
  by (simp add: sendGraft_def)

lemma backoff_full [simp]: "full (doAddBackoff p bm i now s) = full s" "full (addBackoff p bm u now s) = full s"
  by (simp_all add: doAddBackoff_def addBackoff_def Let_def)

lemma add_penalty_full [simp]: "full (add_penalty p n s) = full s"
  by (simp add: add_penalty_def)

section \<open>Results of the option monad\<close>

text \<open>If the call returns, the state in its result has the same frame \<open>F\<close>.\<close>

definition kept :: "(router \<Rightarrow> 'f) \<Rightarrow> ('a \<Rightarrow> router) \<Rightarrow> 'a option \<Rightarrow> router \<Rightarrow> bool" where
  "kept F g r s \<longleftrightarrow> (\<forall>x. r = Some x \<longrightarrow> F (g x) = F s)"

abbreviation framed :: "('a \<Rightarrow> router) \<Rightarrow> 'a option \<Rightarrow> router \<Rightarrow> bool" where
  "framed \<equiv> kept full"

lemma framed_Some [simp]: "kept F g (Some x) s \<longleftrightarrow> F (g x) = F s"
  by (simp add: kept_def)

lemma framed_None [simp]: "kept F g None s"
  by (simp add: kept_def)

lemma framed_bind: "(\<And>x. r = Some x \<Longrightarrow> kept F g (f x) s) \<Longrightarrow> kept F g (Option.bind r f) s"
  by (cases r) auto

lemma framed_step: "kept F g r s \<Longrightarrow> (\<And>x. F (g x) = F s \<Longrightarrow> kept F h (f x) s) \<Longrightarrow> kept F h (Option.bind r f) s"
  by (cases r) auto

lemma framed_from: "kept F g r s' \<Longrightarrow> F s' = F s \<Longrightarrow> kept F g r s"
  by (simp add: kept_def)

lemma framed_fold: "(\<And>x s. kept F g (f x s) (g s)) \<Longrightarrow> kept F g (fold_opt f xs s) (g s)"
proof (induction xs arbitrary: s)
  case (Cons x xs)
  show ?case unfolding fold_opt.simps
    by (rule framed_step [OF Cons.prems]) (rule framed_from [OF Cons.IH [OF Cons.prems]])
qed simp

lemma framed_side: "framed g r s \<Longrightarrow> kept side g r s"
  by (simp add: kept_def full_def)

lemma trace_framed: "framed (\<lambda>x. x) (trace_score f s) s" "framed (\<lambda>x. x) (trace_Graft p bm now s) s" "framed (\<lambda>x. x) (trace_Prune p bm s) s"
  by (auto simp: trace_Graft_def trace_Prune_def trace_score_def split: option.split intro: framed_bind)

lemma getPeers_framed: "framed (\<lambda>x. snd (snd x)) (getPeers bm n filt c s) s"
  unfolding getPeers_def by (rule framed_bind) (auto simp: case_prod_unfold Let_def split: option.split)

lemma makePrune_framed: "framed snd (makePrune p bm px u s) s"
  unfolding makePrune_def Let_def
  by (rule framed_bind) (auto simp: case_prod_unfold intro!: framed_step [OF getPeers_framed])

lemma makePrunes_framed: "framed snd (makePrunes p bms px u s) s"
proof (induction bms arbitrary: s)
  case (Cons bm bms)
  show ?case unfolding makePrunes.simps case_prod_unfold
    by (rule framed_step [OF makePrune_framed], rule framed_step [OF framed_from [OF Cons.IH]]) auto
qed simp

section \<open>Handlers\<close>

lemma AddPeer_framed: "framed (\<lambda>x. x) (rt_AddPeer p proto conns addrs s) s"
  unfolding rt_AddPeer_def by (rule framed_step [OF trace_framed(1)]) simp

lemma RemovePeer_framed: "framed (\<lambda>x. x) (rt_RemovePeer p now s) s"
proof -
  have drop: "full (s\<lparr>peers := a, mesh := drop_peer p (mesh s), fanout := b, gossip := c, control := d, outbound := e, unwanted := f\<rparr>) = full s" for s a b c d e f
    by (simp add: full_def side_def)
  show ?thesis unfolding rt_RemovePeer_def Let_def case_prod_unfold
    by (rule framed_step [OF framed_from [OF framed_fold]], rule trace_framed, simp, rule framed_step [OF framed_from [OF trace_framed(1)]],
        assumption, simp only: framed_Some drop)
qed

lemma PreValidation_framed: "framed (\<lambda>x. x) (PreValidation ms s) s"
proof -
  have "full (send_idontwant ms p s) = full s" for p s by (simp add: send_idontwant_def case_prod_unfold Let_def)
  then show ?thesis unfolding PreValidation_def Let_def case_prod_unfold by (intro framed_bind) (simp add: fold_full)
qed

lemma handleIHave_framed: "framed snd (handleIHave p ctl now s) s"
proof -
  have "framed (\<lambda>x. x) (add_promise p mids now s) s" for mids s
    by (auto simp: add_promise_def case_prod_unfold Let_def split: option.split intro: framed_bind)
  then show ?thesis unfolding handleIHave_def Let_def case_prod_unfold
    by (intro framed_bind) (auto intro!: framed_step [OF framed_from])
qed

lemma handleIWant_framed: "framed snd (handleIWant p ctl s) s"
proof -
  have "full (snd (iwant_one p mid st)) = full (snd st)" for mid st
    by (simp add: iwant_one_def case_prod_unfold Let_def split: option.splits)
  then have "full (snd (fold (iwant_one p) mids st)) = full (snd st)" for mids st by (induction mids arbitrary: st) auto
  then show ?thesis unfolding handleIWant_def Let_def case_prod_unfold by (intro framed_bind) simp
qed

lemma graft_one_framed: "framed (\<lambda>x. snd (snd x)) (graft_one p sc now g st) (snd (snd st))"
proof -
  obtain prune px s where st: "st = (prune, px, s)" by (cases st)
  have a: "framed (\<lambda>x. snd (snd x)) (graft_accept p sc now bm ps (prune, px, s)) s" if "map_of (mesh s) bm = Some qs" for bm ps qs
    unfolding graft_accept_def by (auto intro!: framed_step [OF trace_framed(2)] full_mesh_at [OF _ that])
  show ?thesis unfolding graft_one_def st by (auto simp: Let_def intro: a split: option.split)
qed

lemma handleGraft_framed: "framed snd (handleGraft p ctl now s) s"
proof -
  have 1: "framed (\<lambda>x. snd (snd x)) (fold_opt (graft_one p sc now) gs (a, b, s)) s" for sc gs a b
    using framed_fold [where F = full and g = "\<lambda>x. snd (snd x)" and f = "graft_one p sc now" and s = "(a, b, s)"] graft_one_framed by simp
  have 2: "framed snd (do { (xs, s) \<leftarrow> makePrunes p prune px False t; Some (Some xs, s) }) s" if "full t = full s" for prune px t
    unfolding case_prod_unfold by (rule framed_step [OF framed_from [OF makePrunes_framed that]]) simp
  show ?thesis unfolding handleGraft_def by (rule framed_bind, rule framed_step [OF 1]) (auto intro: 2)
qed

lemma pxConnect_framed: "framed (\<lambda>x. x) (pxConnect pis s) s"
proof -
  have "full (fold push_connect cs t) = full t" for cs t by (rule fold_full) (simp add: push_connect_def)
  then show ?thesis unfolding pxConnect_def Let_def case_prod_unfold by (auto intro!: framed_bind split: if_splits)
qed

lemma handlePrune_framed: "framed (\<lambda>x. x) (handlePrune p ctl now s) s"
proof -
  have "framed (\<lambda>x. x) (prune_one p sc now x s) s" for x sc s
  proof (cases "map_of (mesh s) (PruneBitmask x)")
    case (Some ps)
    let ?bm = "PruneBitmask x"
    have 1: "framed (\<lambda>x. x) (if p \<in> set ps then do { s \<leftarrow> trace_Prune p ?bm s; Some (s\<lparr>mesh := AList.update ?bm (removeAll p ps) (mesh s)\<rparr>) } else Some s) s"
      by (auto intro!: framed_step [OF trace_framed(3)] full_mesh_at [OF _ Some])
    show ?thesis unfolding prune_one_def Let_def
      by (simp only: Some option.case) (rule framed_step [OF 1], auto intro!: framed_from [OF pxConnect_framed])
  qed (simp add: prune_one_def Let_def)
  then show ?thesis unfolding handlePrune_def by (intro framed_bind framed_fold)
qed

lemma HandleRPC_framed: "framed (\<lambda>x. x) (HandleRPC rpc now s) s"
proof (cases "Control rpc")
  case (Some ctl)
  have idw: "full (handleIDontWant p ctl t) = full t" for p t by (simp add: handleIDontWant_def Let_def)
  show ?thesis unfolding HandleRPC_def Some option.case Let_def case_prod_unfold
    by (rule framed_step [OF handleIHave_framed], rule framed_step [OF framed_from [OF handleIWant_framed]], assumption,
        rule framed_step [OF framed_from [OF handleGraft_framed]], assumption, rule framed_step [OF framed_from [OF handlePrune_framed]], assumption)
      (simp add: idw)
qed (simp add: HandleRPC_def)

lemma mesh_or_fanout_framed: "framed snd (mesh_or_fanout sl now s) s"
proof -
  have g: "framed snd (do { (ps, _, s) \<leftarrow> getPeers sl n f () s; Some (ps, if ps = [] then s else s\<lparr>fanout := AList.update sl ps (fanout s)\<rparr>) }) s" for n f
    unfolding case_prod_unfold by (rule framed_step [OF getPeers_framed]) simp
  have m: "framed snd (if fanout_of s sl \<noteq> [] then Some (fanout_of s sl, s)
      else do { (ps, _, s) \<leftarrow> getPeers sl n f () s; Some (ps, if ps = [] then s else s\<lparr>fanout := AList.update sl ps (fanout s)\<rparr>) }) s" for n f
    using g by simp
  show ?thesis
  proof (cases "map_of (mesh s) sl")
    case None
    show ?thesis unfolding mesh_or_fanout_def None option.case by (rule framed_step [OF m]) auto
  qed (simp add: mesh_or_fanout_def)
qed

lemma publish_slice_framed: "framed snd (publish_slice msg now sl s) s"
proof -
  have 1: "framed snd (do { (ts, _) \<leftarrow> r; Some (ts, s) }) s" for r :: "(peer_id list \<times> unit) option"
    by (rule framed_bind) auto
  have 2: "framed snd (do { (fl, _) \<leftarrow> r; (g, s) \<leftarrow> mesh_or_fanout sl now s; Some (remdups (ds @ fl @ g), s) }) s" for r :: "(peer_id list \<times> unit) option" and ds
    by (rule framed_bind) (auto intro: framed_step [OF mesh_or_fanout_framed])
  show ?thesis
  proof (cases "p_bitmasks s sl")
    case (Some tmap)
    show ?thesis unfolding publish_slice_def Let_def Some option.case
      by (rule framed_step [where g = snd]) (use 1 2 in auto)
  qed (simp add: publish_slice_def)
qed

lemma publish_slices_framed: "framed snd (publish_slices msg now sls acc s) s"
proof (induction sls arbitrary: acc s)
  case (Cons sl sls)
  show ?case unfolding publish_slices.simps case_prod_unfold
    by (rule framed_step [OF publish_slice_framed]) (auto split: option.split intro: framed_from [OF Cons.IH])
qed simp

lemma Publish_framed: "framed (\<lambda>x. x) (rt_Publish msg now s) s"
proof -
  have fin: "framed (\<lambda>x. x) (case r of None \<Rightarrow> Some t | Some [] \<Rightarrow> Some t
     | Some toSendAll \<Rightarrow> do {
         let (i, d) = Intn (length toSendAll) (rnd t);
         let (toSend, t) = range_of (toSendAll ! i) (t\<lparr>rnd := d\<rparr>);
         Some (fold (\<lambda>p. sendRPC p (rpcWithMessages [pbm msg]) False) toSend t) }) s" if "full t = full s" for r t
    using that by (auto simp: case_prod_unfold Let_def fold_full split: option.split list.split)
  show ?thesis unfolding rt_Publish_def
    by (rule framed_bind, rule framed_step [OF framed_from [OF publish_slices_framed]], simp) (use fin in auto)
qed

section \<open>Joining and leaving\<close>

lemma full_insert: "full (s\<lparr>mesh := AList.update bm ps (mesh s)\<rparr>) = (side s, insert bm (fst ` set (mesh s)))"
  by (simp add: full_def side_def update_keys)

lemma full_delete: "full (s\<lparr>mesh := AList.delete bm (mesh s)\<rparr>) = (side s, fst ` set (mesh s) - {bm})"
  by (simp add: full_def side_def delete_keys)

lemma full_eq: "full s = (a, b) \<longleftrightarrow> side s = a \<and> fst ` set (mesh s) = b"
  by (simp add: full_def)

lemma join_mesh_full: "join_mesh bm s = Some (g, s') \<Longrightarrow> full s' = (side s, insert bm (fst ` set (mesh s)))"
proof -
  have upd: "full (t\<lparr>mesh := AList.update bm ps (mesh t), fanout := f, lastpub := l\<rparr>) = (side s, insert bm (fst ` set (mesh s)))"
      "full (t\<lparr>mesh := AList.update bm ps (mesh t)\<rparr>) = (side s, insert bm (fst ` set (mesh s)))" if "full t = full s" for t ps f l
    using that full_insert [of bm ps t] by (simp_all only: full_upd full_eq) (simp_all add: full_def)
  have gp: "full t = full s" if "getPeers bm n f c s = Some (ps, c', t)" for n f c ps c' t
    using getPeers_framed [of bm n f c s] that by (auto simp: kept_def)
  assume "join_mesh bm s = Some (g, s')"
  then show ?thesis by (auto simp: join_mesh_def Let_def dest!: gp intro!: upd split: option.splits if_splits bind_splits)
qed

lemma Join_full: "rt_Join bm now s = Some s' \<Longrightarrow> full s' = (side s, insert bm (fst ` set (mesh s)))"
proof -
  assume j: "rt_Join bm now s = Some s'"
  show ?thesis
  proof (cases "map_of (mesh s) bm")
    case None
    then obtain g t where t: "join_mesh bm s = Some (g, t)" "fold_opt (graft_link bm now) (fst (range_of g t)) (snd (range_of g t)) = Some s'"
      using j by (auto simp: rt_Join_def Let_def case_prod_unfold split: bind_splits)
    have "framed (\<lambda>x. x) (graft_link bm now p s) s" for p s
      unfolding graft_link_def by (rule framed_step [OF trace_framed(2)]) simp
    then have "framed (\<lambda>x. x) (fold_opt (graft_link bm now) (fst (range_of g t)) (snd (range_of g t))) (snd (range_of g t))" by (rule framed_fold)
    then have "full s' = full t" using t(2) by (simp add: kept_def)
    then show ?thesis using join_mesh_full [OF t(1)] by simp
  next
    case (Some ps)
    then have "bm \<in> fst ` set (mesh s)" by (metis map_of_None_keys option.distinct(1))
    then show ?thesis using j Some by (simp add: rt_Join_def full_def insert_absorb)
  qed
qed

lemma Leave_full: "rt_Leave bm now s = Some s' \<Longrightarrow> full s' = (side s, fst ` set (mesh s) - {bm})"
proof -
  assume l: "rt_Leave bm now s = Some s'"
  show ?thesis
  proof (cases "map_of (mesh s) bm")
    case None
    then have "bm \<notin> fst ` set (mesh s)" by (simp add: map_of_None_keys)
    then show ?thesis using l None by (simp add: rt_Leave_def full_def)
  next
    case (Some ps)
    let ?r = "range_of ps (s\<lparr>mesh := AList.delete bm (mesh s)\<rparr>)"
    have sp: "framed (\<lambda>x. x) (sendPrune p bm u s) s" for p u s
      unfolding sendPrune_def case_prod_unfold by (rule framed_step [OF makePrune_framed]) simp
    have "framed (\<lambda>x. x) (leave_link bm now p s) s" for p s
      unfolding leave_link_def by (rule framed_step [OF trace_framed(3)], rule framed_step [OF framed_from [OF sp]], assumption) simp
    then have "framed (\<lambda>x. x) (fold_opt (leave_link bm now) (fst ?r) (snd ?r)) (snd ?r)" by (rule framed_fold)
    then have "full s' = full (s\<lparr>mesh := AList.delete bm (mesh s)\<rparr>)" using l Some by (simp add: rt_Leave_def Let_def case_prod_unfold kept_def)
    then show ?thesis by (simp add: full_delete)
  qed
qed

section \<open>The heartbeat\<close>

text \<open>The heartbeat keeps the frame; that it keeps the keys of the mesh is part of what it does to the meshes (\<open>mesh_post\<close>).\<close>

lemma side_upd [simp]: "side (s\<lparr>mesh := m\<rparr>) = side s" "side (s\<lparr>gossip := g\<rparr>) = side s" "side (s\<lparr>prune_backoff := pb\<rparr>) = side s"
  "side (s\<lparr>fanout := f\<rparr>) = side s" "side (s\<lparr>lastpub := l\<rparr>) = side s" "side (s\<lparr>rnd := r\<rparr>) = side s" "side (s\<lparr>dialers := dl\<rparr>) = side s"
  "side (s\<lparr>control := c\<rparr>) = side s" "side (s\<lparr>mcache := mc\<rparr>) = side s" "side (s\<lparr>gtracer := gt\<rparr>) = side s"
  by (simp_all add: side_def)

lemma side_ops [simp]: "side (addBackoff p bm u now s) = side s" "side (snd (range_of xs s)) = side s" "side (sendRPC p out fast s) = side s"
  "side (add_penalty p n s) = side s"
  using backoff_full(2) [of p bm u now s] range_of_full [of xs s] sendRPC_full [of p out fast s] add_penalty_full [of p n s]
  unfolding full_def by (blast dest: Pair_inject)+

lemma hb_range_side [simp]: "side (hb (snd (hb_range xs h))) = side (hb h)"
  by (simp add: hb_range_def case_prod_unfold Let_def)

lemmas side_trace = framed_side [OF trace_framed(2)] framed_side [OF trace_framed(3)]
lemmas side_getPeers = framed_side [OF getPeers_framed]
lemmas side_makePrunes = framed_side [OF makePrunes_framed]

lemma prune_graft_side: "kept side hb (prunePeer bm now p h) (hb h)" "kept side hb (graftPeer bm now p h) (hb h)"
  unfolding prunePeer_def graftPeer_def Let_def
  by (rule framed_step [OF side_trace(2)], simp) (rule framed_step [OF side_trace(1)], simp)

lemma graft_more_side: "kept side hb (graft_more bm now n pre ok h) (hb h)"
  unfolding graft_more_def case_prod_unfold
  by (rule framed_step [OF side_getPeers], rule framed_from [OF framed_fold]) (simp_all add: prune_graft_side)

lemma emitGossip_side: "kept side (\<lambda>x. x) (emitGossip bm ex s) s"
proof -
  have "side (gossip_to bm mids ps s) = side s" for mids ps s
    by (induction bm mids ps s rule: gossip_to.induct) (auto simp: enqueueGossip_def range_of_def case_prod_unfold Let_def)
  then show ?thesis unfolding emitGossip_def Let_def case_prod_unfold by (auto intro!: framed_bind)
qed

lemma maintain_mesh_side: "kept side hb (maintain_mesh now bm h) (hb h)"
proof -
  have drop1: "kept side hb (hb_drop bm now p h) (hb h)" for p h
    unfolding hb_drop_def Let_def case_prod_unfold by (rule framed_bind) (auto intro!: framed_step [OF framed_from [OF prune_graft_side(1)]])
  have 1: "kept side hb (drop_negative bm now h) (hb h)" for h
    unfolding drop_negative_def Let_def case_prod_unfold by (rule framed_from [OF framed_fold [OF drop1]]) simp
  have 2: "kept side hb (graft_missing bm now h) (hb h)" "kept side hb (graft_outbound bm now h) (hb h)" for h
    unfolding graft_missing_def graft_outbound_def Let_def by (simp_all add: graft_more_side)
  have rank: "kept side (\<lambda>x. hb (snd x)) (rank_peers bm h) (hb h)" for h
    unfolding rank_peers_def Let_def case_prod_unfold
    by (rule framed_bind, rule framed_step [where g = "\<lambda>x. hb (snd x)"]) (auto intro!: framed_bind)
  have 3: "kept side hb (prune_excess bm now h) (hb h)" for h
    unfolding prune_excess_def case_prod_unfold
    by (auto intro!: framed_step [OF rank] framed_from [OF framed_fold [OF prune_graft_side(1)]])
  have 4: "kept side hb (graft_opportunistic bm now h) (hb h)" for h
    unfolding graft_opportunistic_def Let_def case_prod_unfold by (auto intro!: framed_bind framed_from [OF graft_more_side])
  have step: "kept side hb r s \<Longrightarrow> (\<And>h. side (hb h) = side s \<Longrightarrow> kept side hb (f h) (hb h)) \<Longrightarrow> kept side hb (Option.bind r f) s" for r f s
    by (rule framed_step) (auto intro: framed_from)
  show ?thesis unfolding maintain_mesh_def
    by (rule step [OF 1], rule step [OF 2(1)], rule step [OF 3], rule step [OF 2(2)], rule step [OF 4], rule framed_step [OF emitGossip_side]) simp
qed

lemma maintain_fanout_side: "kept side hb (maintain_fanout bm h) (hb h)"
proof -
  have 1: "kept side (\<lambda>x. snd (snd x)) (if b then getPeers bm n f c (hb h) else Some ([], c, hb h)) (hb h)" for b n f c
    by (simp add: side_getPeers)
  show ?thesis unfolding maintain_fanout_def case_prod_unfold
    by (rule framed_bind, rule framed_step [OF 1], rule framed_step [OF framed_from [OF emitGossip_side]]) simp_all
qed

lemma sendGraftPrune_side: "kept side hb (sendGraftPrune h) (hb h)"
proof -
  have 1: "kept side hb (send_graft_prune p h) (hb h)" for p h
  proof (cases "map_of (toprune h) p")
    case (Some bms)
    show ?thesis unfolding send_graft_prune_def Some option.case Let_def case_prod_unfold
      by (rule framed_step [where g = snd], rule framed_step [OF side_makePrunes]) simp_all
  qed (simp add: send_graft_prune_def Let_def)
  have 2: "kept side hb (send_prune p h) (hb h)" for p h
    unfolding send_prune_def case_prod_unfold by (rule framed_step [OF side_makePrunes]) simp
  show ?thesis unfolding sendGraftPrune_def Let_def case_prod_unfold
    by (rule framed_step [OF framed_from [OF framed_fold [OF 1]]], simp) (rule framed_from [OF framed_fold [OF 2]], simp)
qed

lemma flush_side [simp]: "side (flush s) = side s"
proof -
  have f: "side (fold f xs s) = side s" if "\<And>x s. side (f x s) = side s" for f :: "peer_id \<Rightarrow> router \<Rightarrow> router" and xs s
    using that by (induction xs arbitrary: s) auto
  have "side (flush_gossip p s) = side s" "side (flush_control p s) = side s" for p s
    by (simp_all add: flush_gossip_def flush_control_def split: option.split)
  then show ?thesis unfolding flush_def Let_def case_prod_unfold by (simp add: f)
qed

lemma heartbeat_side: "kept side (\<lambda>x. x) (heartbeat now s) s"
proof -
  have pen: "side (fold (\<lambda>x. add_penalty (fst x) (snd x)) xs s) = side s" for xs s by (induction xs arbitrary: s) auto
  have start: "side (heartbeat_start now s) = side s" for s
    by (auto simp: heartbeat_start_def applyIwantPenalties_def clearIHaveCounters_def clearIDontWantCounters_def clearBackoff_def pen
        case_prod_unfold Let_def split: option.split) (simp_all add: side_def)
  have dc: "kept side (\<lambda>x. x) (directConnect s) s" for s
    by (auto simp: directConnect_def case_prod_unfold Let_def)
  have meshes: "kept side hb (heartbeat_meshes now s) s" for s
    unfolding heartbeat_meshes_def Let_def case_prod_unfold by (rule framed_from [OF framed_fold [OF maintain_mesh_side]]) simp
  have fans: "kept side hb (heartbeat_fanout now h) (hb h)" for h
    unfolding heartbeat_fanout_def Let_def case_prod_unfold
    by (rule framed_from [OF framed_fold [OF maintain_fanout_side]]) (simp add: expire_fanout_def Let_def)
  have fin: "kept side (\<lambda>x. x) (heartbeat_end h) (hb h)" for h
    unfolding heartbeat_end_def Let_def by (rule framed_step [OF sendGraftPrune_side], rule framed_bind) simp
  show ?thesis unfolding heartbeat_def
    by (rule framed_step [OF framed_from [OF dc]], rule start, rule framed_step [OF framed_from [OF meshes]], assumption,
        rule framed_step [OF framed_from [OF fans]], assumption, rule framed_from [OF fin], assumption)
qed

end
