(* ===== verification/Pubsub_Invariant.thy ===== *)
theory Pubsub_Invariant
  imports Pubsub_Loop Router_Frame
begin

text \<open>
  The invariant of the PubSub object: the router invariant; subscriptions in the table are open, non-empty channels of their bitmask within their
  buffers; relay counts are positive; the router has a mesh exactly for the bitmasks with a subscription or a relay; a blacklisted peer has no
  outbound queue; the validation queue and the validations in progress are within their limits. Every event of the loop is handled without a panic and
  keeps it.
\<close>

section \<open>The invariant\<close>

definition subs_ok :: "(bitmask \<times> nat list) list \<Rightarrow> (nat \<Rightarrow> Subscription) \<Rightarrow> nat \<Rightarrow> bool" where
  "subs_ok m st n \<longleftrightarrow> distinct (map fst m)
     \<and> (\<forall>(bm, xs) \<in> set m. xs \<noteq> [] \<and> distinct xs \<and> (\<forall>a \<in> set xs. a < n \<and> \<not> sub_closed (st a) \<and> sub_bitmask (st a) = bm))
     \<and> (\<forall>a. length (sub_ch (st a)) \<le> sub_size (st a))"

definition relays_ok :: "(bitmask \<times> int) list \<Rightarrow> bool" where
  "relays_ok m \<longleftrightarrow> distinct (map fst m) \<and> (\<forall>(bm, n) \<in> set m. 0 < n)"

definition joined_ok :: "pubsub \<Rightarrow> bool" where
  "joined_ok s \<longleftrightarrow> fst ` set (mesh (rt s)) = fst ` set (mySubs s) \<union> fst ` set (myRelays s)"

definition queues_ok :: "pubsub \<Rightarrow> bool" where
  "queues_ok s \<longleftrightarrow> set (peer_keys s) = dom (p_peers (rt s)) \<and> blacklist s \<inter> dom (p_peers (rt s)) = {} \<and> 0 < peerOutboundQueueSize s
     \<and> length (validateQ s) \<le> validateQ_size s \<and> length (validating s) \<le> validateThrottle s"

definition pubsub_ok :: "pubsub \<Rightarrow> bool" where
  "pubsub_ok s \<longleftrightarrow> rt_ok (rt s) \<and> subs_ok (mySubs s) (subs s) (next_sub s) \<and> relays_ok (myRelays s) \<and> joined_ok s \<and> queues_ok s"

lemma pubsub_okD:
  assumes "pubsub_ok s"
  shows "rt_ok (rt s)" "subs_ok (mySubs s) (subs s) (next_sub s)" "relays_ok (myRelays s)" "joined_ok s" "queues_ok s"
  using assms by (simp_all add: pubsub_ok_def)

section \<open>Steps that leave the core alone\<close>

definition view :: "router \<Rightarrow> bitmask set \<times> peer_id set \<times> peer_id \<times> msgIDGenerator" where
  "view r = (fst ` set (mesh r), dom (p_peers r), p_self r, p_idGen r)"

definition core where
  "core s = (view (rt s), (mySubs s, subs s, next_sub s, myRelays s, peer_keys s, blacklist s, peerOutboundQueueSize s),
     (validateQ s, validateQ_size s, validateThrottle s, validating s, sendMsg s, seenMessages s, delivered_log s))"

definition quiet :: "pubsub \<Rightarrow> pubsub \<Rightarrow> bool" where
  "quiet s s' \<longleftrightarrow> core s' = core s \<and> (rt_ok (rt s) \<longrightarrow> rt_ok (rt s'))"

lemma quiet_refl [simp]: "quiet s s"
  by (simp add: quiet_def)

lemma quiet_trans: "quiet a b \<Longrightarrow> quiet b c \<Longrightarrow> quiet a c"
  by (simp add: quiet_def)

lemma quiet_rt: "quiet s s' \<Longrightarrow> rt_ok (rt s) \<Longrightarrow> rt_ok (rt s')"
  by (simp add: quiet_def)

lemma quiet_core:
  assumes "quiet s s'"
  shows "fst ` set (mesh (rt s')) = fst ` set (mesh (rt s))" "dom (p_peers (rt s')) = dom (p_peers (rt s))" "p_idGen (rt s') = p_idGen (rt s)"
    "mySubs s' = mySubs s" "subs s' = subs s" "next_sub s' = next_sub s" "myRelays s' = myRelays s" "peer_keys s' = peer_keys s"
    "blacklist s' = blacklist s" "peerOutboundQueueSize s' = peerOutboundQueueSize s" "validateQ s' = validateQ s"
    "validateQ_size s' = validateQ_size s" "validateThrottle s' = validateThrottle s" "validating s' = validating s"
    "sendMsg s' = sendMsg s" "seenMessages s' = seenMessages s" "delivered_log s' = delivered_log s"
  using assms unfolding quiet_def core_def view_def by (simp_all only: prod.inject)

lemma quiet_ok: "quiet s s' \<Longrightarrow> pubsub_ok s \<Longrightarrow> pubsub_ok s'"
  using quiet_core [of s s'] quiet_rt [of s s'] by (simp add: pubsub_ok_def joined_ok_def queues_ok_def)

lemma view_full: "full r = full r' \<Longrightarrow> view r = view r'"
  unfolding full_def side_def view_def by (simp only: prod.inject)

lemma quiet_router: "full r = full (rt s) \<Longrightarrow> (rt_ok (rt s) \<Longrightarrow> rt_ok r) \<Longrightarrow> quiet s (s\<lparr>rt := r\<rparr>)"
  using view_full [of r "rt s"] by (simp add: quiet_def core_def)

lemma quiet_upd [simp]:
  "quiet s (s\<lparr>gate := g\<rparr>)" "quiet s (s\<lparr>retries := rs\<rparr>)" "quiet s (s\<lparr>handlers := hs\<rparr>)" "quiet s (s\<lparr>handles := h\<rparr>)" "quiet s (s\<lparr>val := v\<rparr>)"
  "quiet s (s\<lparr>newPeersPend := np\<rparr>)" "quiet s (s\<lparr>peerDeadPend := dp\<rparr>)" "quiet s (s\<lparr>deadPeerBackoff := db\<rparr>)" "quiet s (s\<lparr>starting := st\<rparr>)"
  "quiet s (s\<lparr>counter := c\<rparr>)" "quiet s (s\<lparr>myBitmasks := mb\<rparr>)" "quiet s (s\<lparr>next_handle := nh\<rparr>)" "quiet s (s\<lparr>next_handler := nr\<rparr>)"
  by (simp_all add: quiet_def core_def)

lemma quiet_fold: "(\<And>x s. quiet s (f x s)) \<Longrightarrow> quiet s (fold f xs s)"
  by (induction xs arbitrary: s) (auto intro: quiet_trans)

lemma yields_quiet_trans: "yields r (quiet b) \<Longrightarrow> quiet a b \<Longrightarrow> yields r (quiet a)"
  by (erule yields_mono) (auto intro: quiet_trans)

lemma on_rt_quiet: "(rt_ok (rt s) \<Longrightarrow> yields (f (rt s)) rt_ok) \<Longrightarrow> framed (\<lambda>x. x) (f (rt s)) (rt s) \<Longrightarrow> rt_ok (rt s) \<Longrightarrow> yields (on_rt f s) (quiet s)"
  by (auto simp: on_rt_def yields_iff kept_def intro!: quiet_router)

lemma draw_quiet [simp]: "quiet s (snd (draw n s))"
  by (auto simp: draw_def case_prod_unfold Let_def intro!: quiet_router)

lemma ranged_quiet [simp]: "quiet s (snd (ranged xs s))"
  by (auto simp: ranged_def case_prod_unfold Let_def intro!: quiet_router)

section \<open>Trace calls\<close>

lemma trace_msg_quiet:
  assumes "rt_ok (rt s)" "\<And>ps. ps_ok ps \<Longrightarrow> \<exists>ps'. sc ps = Some ps' \<and> ps_ok ps'" "\<And>g. gt_ok g \<Longrightarrow> gt_ok (gt g)"
  shows "yields (trace_msg sc gt ga msg s) (quiet s)"
proof -
  have "yields (trace_score sc (rt s)) (\<lambda>r. quiet s (s\<lparr>rt := r\<lparr>gtracer := map_option gt (gtracer r)\<rparr>, gate := map_option ga (gate s)\<rparr>))"
  proof (rule yields_mono [OF trace_score_yields [OF rt_okD(4) [OF assms(1)] assms(2)]])
    fix r
    assume r: "trace_score sc (rt s) = Some r" "\<exists>x. r = (rt s)\<lparr>rscore := x\<rparr> \<and> score_inv x"
    then have ok: "rt_ok r" using assms(1) by (auto intro: rt_ok_upd)
    then have "tracer_inv (map_option gt (gtracer r))" using assms(3) rt_okD(5) [OF ok] by (auto simp: tracer_inv_def)
    then have "rt_ok (r\<lparr>gtracer := map_option gt (gtracer r)\<rparr>)" using ok by (rule rt_ok_upd(2) [rotated])
    moreover have "full (r\<lparr>gtracer := map_option gt (gtracer r)\<rparr>) = full (rt s)" using r(2) by auto
    ultimately have "quiet s (s\<lparr>rt := r\<lparr>gtracer := map_option gt (gtracer r)\<rparr>\<rparr>)" by (intro quiet_router) auto
    then have "quiet s (s\<lparr>rt := r\<lparr>gtracer := map_option gt (gtracer r)\<rparr>\<rparr>\<lparr>gate := map_option ga (gate s)\<rparr>)" by (rule quiet_trans) (rule quiet_upd)
    then show "quiet s (s\<lparr>rt := r\<lparr>gtracer := map_option gt (gtracer r)\<rparr>, gate := map_option ga (gate s)\<rparr>)" by simp
  qed
  then show ?thesis by (simp add: trace_msg_def)
qed

lemma tr_quiet:
  assumes "rt_ok (rt s)"
  shows "yields (tr_ValidateMessage e msg s) (quiet s)" "yields (tr_RejectMessage e msg reason s) (quiet s)"
    "yields (tr_DuplicateMessage e msg s) (quiet s)" "yields (tr_DeliverMessage e msg s) (quiet (s\<lparr>delivered_log := delivered_log s @ [msg]\<rparr>))"
    "quiet s (tr_ThrottlePeer p s)"
proof -
  have ful: "gt_ok g \<Longrightarrow> gt_ok (fulfillPromise msg g)" for g using fulfillPromise_refines [of g msg] by blast
  show "yields (tr_ValidateMessage e msg s) (quiet s)" unfolding tr_ValidateMessage_def
    by (rule trace_msg_quiet [OF assms]) (simp_all add: ValidateMessage_ok gt_ValidateMessage_def ful)
  show "yields (tr_RejectMessage e msg reason s) (quiet s)" unfolding tr_RejectMessage_def
    by (rule trace_msg_quiet [OF assms]) (simp_all add: RejectMessage_ok gt_RejectMessage_def ful)
  show "yields (tr_DuplicateMessage e msg s) (quiet s)" unfolding tr_DuplicateMessage_def
    by (rule trace_msg_quiet [OF assms]) (simp_all add: DuplicateMessage_ok)
  show "yields (tr_DeliverMessage e msg s) (quiet (s\<lparr>delivered_log := delivered_log s @ [msg]\<rparr>))" unfolding tr_DeliverMessage_def
    by (rule trace_msg_quiet) (simp_all add: assms DeliverMessage_ok gt_DeliverMessage_def ful)
  have "rt_ok (rt s) \<Longrightarrow> rt_ok ((rt s)\<lparr>gtracer := map_option (gt_ThrottlePeer p) (gtracer (rt s))\<rparr>)"
    using ThrottlePeer_refines rt_okD(5) [of "rt s"] by (intro rt_ok_upd(2)) (auto simp: tracer_inv_def)
  then show "quiet s (tr_ThrottlePeer p s)" unfolding tr_ThrottlePeer_def by (intro quiet_router) auto
qed

section \<open>Peers and announcements\<close>

lemma ps_peer_quiet:
  assumes "rt_ok (rt s)"
  shows "yields (ps_AddPeer e p proto conns addrs s) (quiet s)" "yields (ps_RemovePeer e p s) (quiet s)"
proof -
  have "yields (on_rt (rt_AddPeer p proto conns addrs) (s\<lparr>gate := g\<rparr>)) (quiet s)" for g
    by (rule yields_quiet_trans [OF on_rt_quiet]) (simp_all add: assms AddPeer_rt AddPeer_framed)
  then show "yields (ps_AddPeer e p proto conns addrs s) (quiet s)" by (simp add: ps_AddPeer_def)
  have "yields (on_rt (rt_RemovePeer p (now e)) (s\<lparr>gate := g\<rparr>)) (quiet s)" for g
    by (rule yields_quiet_trans [OF on_rt_quiet]) (simp_all add: assms RemovePeer_rt RemovePeer_framed)
  then show "yields (ps_RemovePeer e p s) (quiet s)" by (simp add: ps_RemovePeer_def)
qed

lemma rt_AcceptFrom_quiet: "rt_ok (rt s) \<Longrightarrow> yields (rt_AcceptFrom e p d s) (\<lambda>x. quiet s (snd x))"
  by (auto simp: rt_AcceptFrom_def case_prod_unfold Let_def split: option.split intro!: PeerScore_yields rt_okD)

lemma notify_quiet [simp]: "quiet s (notify ev p bm s)"
proof -
  have "quiet s (sendNotification ev p h s)" for h unfolding sendNotification_def by (rule quiet_fold) simp
  then show ?thesis by (simp add: notify_def split: option.split)
qed

lemma topics_quiet: "(rt_ok (rt s) \<Longrightarrow> topics_ok t) \<Longrightarrow> quiet s (s\<lparr>rt := (rt s)\<lparr>p_bitmasks := t\<rparr>\<rparr>)"
  by (auto simp: quiet_def core_def view_def rt_ok_def total_features_def)

lemma drop_subscriber_quiet [simp]: "quiet s (drop_subscriber p s)"
proof -
  have "rt_ok (rt s) \<Longrightarrow> topics_ok (\<lambda>bm. map_option (removeAll p) (p_bitmasks (rt s) bm))"
    by (auto simp: rt_ok_def topics_ok_def distinct_removeAll)
  from quiet_trans [OF topics_quiet [OF this]] show ?thesis
    unfolding drop_subscriber_def Let_def notifyLeave_def by (blast intro: quiet_fold notify_quiet)
qed

lemma incoming_sub_quiet [simp]: "quiet s (incoming_sub from so s)"
proof -
  have 1: "quiet s (notify ev from bm (s\<lparr>rt := (rt s)\<lparr>p_bitmasks := t\<rparr>\<rparr>))" if "rt_ok (rt s) \<Longrightarrow> topics_ok t" for ev bm t
    by (rule quiet_trans [OF topics_quiet [OF that]]) simp_all
  have 2: "rt_ok (rt s) \<Longrightarrow> from \<notin> set (subscribers (rt s) bm) \<Longrightarrow> topics_ok ((p_bitmasks (rt s))(bm \<mapsto> subscribers (rt s) bm @ [from]))" for bm
    by (auto simp: rt_ok_def topics_ok_def subscribers_def split: option.splits)
  have 3: "rt_ok (rt s) \<Longrightarrow> p_bitmasks (rt s) bm = Some tmap \<Longrightarrow> topics_ok ((p_bitmasks (rt s))(bm \<mapsto> removeAll from tmap))" for bm tmap
    by (auto simp: rt_ok_def topics_ok_def distinct_removeAll)
  show ?thesis unfolding incoming_sub_def Let_def notifyLeave_def
    by (auto intro!: 1 2 3 split: option.split)
qed

lemma announce_to_quiet [simp]: "quiet s (announce_to bm sub p s)"
proof (cases "p_peers (rt s) p")
  case (Some q)
  have 1: "quiet t (t\<lparr>rt := (rt t)\<lparr>p_peers := (p_peers (rt t))(p \<mapsto> q')\<rparr>\<rparr>)" if "p_peers (rt t) p \<noteq> None" for t q'
    by (rule quiet_router) (use that in \<open>auto simp: full_queue rt_ok_def total_features_def\<close>)
  have "p_peers (rt (snd (draw n s))) p \<noteq> None" for n using Some by (simp add: draw_def case_prod_unfold Let_def)
  from 1 [OF this] have 2: "quiet s ((snd (draw n s))\<lparr>rt := (rt (snd (draw n s)))\<lparr>p_peers := (p_peers (rt (snd (draw n s))))(p \<mapsto> q')\<rparr>\<rparr>)" for n q'
    using quiet_trans [OF draw_quiet] by blast
  have "quiet s ((snd (draw n s))\<lparr>rt := (rt (snd (draw n s)))\<lparr>p_peers := (p_peers (rt (snd (draw n s))))(p \<mapsto> q')\<rparr>, retries := rs\<rparr>)" for n q' rs
    using quiet_trans [OF 2 quiet_upd(2)] by simp
  then show ?thesis using 2 unfolding announce_to_def Some option.case Let_def case_prod_unfold
    by (simp split: option.split)
qed (simp add: announce_to_def)

lemma announce_quiet [simp]: "quiet s (announce bm sub s)"
  unfolding announce_def Let_def case_prod_unfold by (rule quiet_trans [OF ranged_quiet quiet_fold]) simp

lemma announceRetry_quiet [simp]: "quiet s (announceRetry p bm sub s)"
  by (simp add: announceRetry_def)

lemma getHelloPacket_quiet [simp]: "quiet s (snd (getHelloPacket s))"
  by (simp add: getHelloPacket_def case_prod_unfold Let_def)

end
