(* ===== verification/Pubsub_Safety.thy ===== *)
theory Pubsub_Safety
  imports Pubsub_Invariant
begin

text \<open>
  Every event of the PubSub loop is handled without a panic, keeps the invariant, and does not raise the \<open>potential\<close> of any message identifier:
  the number of its messages that passed the seen cache (being validated, queued for delivery or delivered), plus one while the identifier is
  not in the cache. Only the sweep of the cache can raise it.
\<close>

section \<open>Potential\<close>

definition passed :: "pubsub \<Rightarrow> Message list" where
  "passed s = map (\<lambda>x. vr_msg (fst x)) (validating s) @ sendMsg s @ delivered_log s"

definition potential :: "message_id \<Rightarrow> pubsub \<Rightarrow> nat" where
  "potential i s = length (filter (\<lambda>m. mid_of (p_idGen (rt s)) m = i) (passed s)) + (if seenMessage i s then 0 else 1)"

text \<open>New entries of the seen cache expire one time to live after the event.\<close>

definition seen_grows :: "time \<Rightarrow> FirstSeenCache \<Rightarrow> FirstSeenCache \<Rightarrow> bool" where
  "seen_grows n c c' \<longleftrightarrow> fs_ttl c' = fs_ttl c \<and> (\<forall>x. fs_m c' x = fs_m c x \<or> fs_m c' x = Some (n + fs_ttl c))"

definition flow :: "time \<Rightarrow> pubsub \<Rightarrow> pubsub \<Rightarrow> bool" where
  "flow n s s' \<longleftrightarrow> (pubsub_ok s \<longrightarrow> pubsub_ok s') \<and> p_idGen (rt s') = p_idGen (rt s) \<and> (\<forall>i. potential i s' \<le> potential i s)
     \<and> seen_grows n (seenMessages s) (seenMessages s')"

text \<open>Steps outside the pipeline.\<close>

definition pipe where
  "pipe s = (p_idGen (rt s), validateQ s, validating s, sendMsg s, seenMessages s, delivered_log s)"

definition calm :: "pubsub \<Rightarrow> pubsub \<Rightarrow> bool" where
  "calm s s' \<longleftrightarrow> (pubsub_ok s \<longrightarrow> pubsub_ok s') \<and> pipe s' = pipe s"

lemma seen_grows_refl [simp]: "seen_grows n c c"
  by (simp add: seen_grows_def)

lemma seen_grows_trans: "seen_grows n a b \<Longrightarrow> seen_grows n b c \<Longrightarrow> seen_grows n a c"
  unfolding seen_grows_def by metis

lemma flow_refl [simp]: "flow n s s"
  by (simp add: flow_def)

lemma flow_trans: "flow n a b \<Longrightarrow> flow n b c \<Longrightarrow> flow n a c"
  using order.trans seen_grows_trans [of n "seenMessages a" "seenMessages b" "seenMessages c"] by (simp add: flow_def) blast

lemma calm_refl [simp]: "calm s s"
  by (simp add: calm_def)

lemma calm_trans: "calm a b \<Longrightarrow> calm b c \<Longrightarrow> calm a c"
  by (simp add: calm_def)

lemma potential_pipe: "pipe s' = pipe s \<Longrightarrow> potential i s' = potential i s"
  by (simp add: potential_def pipe_def passed_def seenMessage_def)

lemma calm_flow: "calm s s' \<Longrightarrow> flow n s s'"
  using potential_pipe [of s' s] by (auto simp: flow_def calm_def pipe_def)

lemma quiet_calm: "quiet s s' \<Longrightarrow> calm s s'"
  using quiet_ok [of s s'] quiet_core [of s s'] by (simp add: calm_def pipe_def)

lemma calm_ok: "calm s s' \<Longrightarrow> pubsub_ok s \<Longrightarrow> pubsub_ok s'"
  by (simp add: calm_def)

lemma yields_calm: "yields r (quiet s) \<Longrightarrow> yields r (calm s)"
  by (erule yields_mono) (rule quiet_calm)

lemma yields_calm_trans: "yields r (calm b) \<Longrightarrow> calm a b \<Longrightarrow> yields r (calm a)"
  by (erule yields_mono) (auto intro: calm_trans)

lemma yields_flow: "yields r (calm s) \<Longrightarrow> yields r (flow n s)"
  by (erule yields_mono) (rule calm_flow)

lemma calm_fold:
  assumes "pubsub_ok s" "\<And>x s. x \<in> set xs \<Longrightarrow> pubsub_ok s \<Longrightarrow> yields (f x s) (calm s)"
  shows "yields (fold_opt f xs s) (calm s)"
proof (rule yields_fold_opt)
  fix x t
  assume "x \<in> set xs" "calm s t"
  then show "yields (f x t) (calm s)" using assms calm_ok yields_calm_trans by blast
qed simp

lemma flow_fold:
  assumes "pubsub_ok s" "\<And>x s. x \<in> set xs \<Longrightarrow> pubsub_ok s \<Longrightarrow> yields (f x s) (flow n s)"
  shows "yields (fold_opt f xs s) (flow n s)"
proof (rule yields_fold_opt)
  fix x t
  assume x: "x \<in> set xs" and t: "flow n s t"
  then have "yields (f x t) (flow n t)" using assms by (simp add: flow_def)
  then show "yields (f x t) (flow n s)" by (rule yields_mono) (use t flow_trans in blast)
qed simp

section \<open>Peers\<close>

lemma set_queue_calm: "p \<notin> blacklist s \<Longrightarrow> calm s (set_queue p q s)"
  by (auto simp: calm_def pipe_def set_queue_def pubsub_ok_def joined_ok_def queues_ok_def rt_ok_def total_features_def)

lemma drop_queue_calm [simp]: "calm s (drop_queue p s)"
  by (auto simp: calm_def pipe_def drop_queue_def pubsub_ok_def joined_ok_def queues_ok_def rt_ok_def total_features_def)

lemma greet_calm: "pubsub_ok s \<Longrightarrow> p \<notin> blacklist s \<Longrightarrow> yields (greet p d s) (calm s)"
proof -
  assume ok: "pubsub_ok s" and p: "p \<notin> blacklist s"
  let ?s = "snd (getHelloPacket s)"
  have sz: "peerOutboundQueueSize ?s = peerOutboundQueueSize s" "blacklist ?s = blacklist s" by (rule quiet_core [OF getHelloPacket_quiet])+
  have push: "Push c x True (newRPCQueue n n) \<noteq> []" if "0 < n" for c n and x :: RPC using that by (simp add: Push_def send_case_def newRPCQueue_def)
  have ne: "Push (p_done (rt ?s)) x True (newRPCQueue (peerOutboundQueueSize ?s) (peerOutboundQueueSize ?s)) \<noteq> []" for x :: RPC
    by (rule push) (use ok sz in \<open>simp add: pubsub_ok_def queues_ok_def\<close>)
  have d: "calm s (snd (draw n ?s))" for n by (rule quiet_calm [OF quiet_trans [OF getHelloPacket_quiet draw_quiet]])
  have g: "calm s ((set_queue p q (snd (draw n ?s)))\<lparr>starting := st\<rparr>)" for n q st
  proof -
    have "p \<notin> blacklist (snd (draw n ?s))" using p by (simp only: quiet_core(9) [OF draw_quiet] sz(2)) simp
    from calm_trans [OF d set_queue_calm [OF this]] show ?thesis by (rule calm_trans) (rule quiet_calm [OF quiet_upd(9)])
  qed
  show ?thesis unfolding greet_def Let_def case_prod_unfold if_not_P [OF ne] yields_Some by (simp add: d g split: option.split)
qed

lemma pending_peer_calm: "pubsub_ok s \<Longrightarrow> yields (pending_peer e p s) (calm s)"
  using greet_calm by (auto simp: pending_peer_def MapBlacklist_Contains_def)

lemma handlePendingPeers_calm: "pubsub_ok s \<Longrightarrow> yields (handlePendingPeers e s) (calm s)"
proof -
  assume ok: "pubsub_ok s"
  let ?s = "(snd (ranged (newPeersPend s) s))\<lparr>newPeersPend := []\<rparr>"
  have c: "calm s ?s" by (rule quiet_calm [OF quiet_trans [OF ranged_quiet quiet_upd(6)]])
  have "yields (fold_opt (pending_peer e) ps ?s) (calm ?s)" for ps by (rule calm_fold [OF calm_ok [OF c ok] pending_peer_calm])
  from yields_calm_trans [OF this c] show ?thesis by (simp add: handlePendingPeers_def case_prod_unfold Let_def)
qed

lemma remove_all_calm: "pubsub_ok s \<Longrightarrow> yields (ps_RemovePeer e p (drop_subscriber p (drop_queue p s))) (\<lambda>s'. calm s s' \<and> blacklist s' = blacklist s)"
proof -
  assume ok: "pubsub_ok s"
  let ?s = "drop_subscriber p (drop_queue p s)"
  have c: "calm s ?s" by (rule calm_trans [OF drop_queue_calm quiet_calm [OF drop_subscriber_quiet]])
  have b: "blacklist ?s = blacklist s" by (simp add: quiet_core(9) [OF drop_subscriber_quiet] drop_queue_def)
  have "yields (ps_RemovePeer e p ?s) (quiet ?s)" using ps_peer_quiet(2) pubsub_okD(1) calm_ok [OF c ok] by blast
  then show ?thesis by (rule yields_mono) (use c b quiet_core(9) quiet_calm calm_trans in metis)
qed

lemma dead_peer_calm: "pubsub_ok s \<Longrightarrow> yields (dead_peer e p s) (calm s)"
proof (cases "p_peers (rt s) p")
  case (Some q)
  assume ok: "pubsub_ok s"
  then have p: "p \<notin> blacklist s" using Some by (auto simp: pubsub_ok_def queues_ok_def)
  have "yields (if connected e p then
           case updateAndGet p (now e) (now e) (jitter e p) (deadPeerBackoff t) of
             (Inl _, b) \<Rightarrow> Some (t\<lparr>deadPeerBackoff := b\<rparr>)
           | (Inr d, b) \<Rightarrow> greet p d (t\<lparr>deadPeerBackoff := b\<rparr>)
         else Some t) (calm s)" if t: "calm s t" "blacklist t = blacklist s" for t
  proof -
    have u: "calm s (t\<lparr>deadPeerBackoff := b\<rparr>)" for b by (rule calm_trans [OF t(1) quiet_calm]) simp
    have "yields (greet p d (t\<lparr>deadPeerBackoff := b\<rparr>)) (calm s)" for d b
      by (rule yields_calm_trans [OF greet_calm u]) (use calm_ok [OF u ok] p t(2) in auto)
    then show ?thesis using u t(1) by (auto split: prod.split sum.split)
  qed
  then show ?thesis unfolding dead_peer_def Some option.case yields_bind
    by (intro yields_mono [OF remove_all_calm [OF ok]]) blast
qed (simp add: dead_peer_def)

lemma handleDeadPeers_calm: "pubsub_ok s \<Longrightarrow> yields (handleDeadPeers e s) (calm s)"
proof -
  assume ok: "pubsub_ok s"
  let ?s = "(snd (ranged (peerDeadPend s) s))\<lparr>peerDeadPend := []\<rparr>"
  have c: "calm s ?s" by (rule quiet_calm [OF quiet_trans [OF ranged_quiet quiet_upd(7)]])
  have "yields (fold_opt (dead_peer e) ps ?s) (calm ?s)" for ps by (rule calm_fold [OF calm_ok [OF c ok] dead_peer_calm])
  from yields_calm_trans [OF this c] show ?thesis by (simp add: handleDeadPeers_def case_prod_unfold Let_def)
qed

lemma new_stream_calm: "pubsub_ok s \<Longrightarrow> yields (new_stream e p proto conns addrs s) (calm s)"
  using yields_calm [OF ps_peer_quiet(1)] pubsub_okD(1) by (simp add: new_stream_def)

text \<open>A blacklisted peer loses its queue; that the peer had none, or loses it in the same step, makes the order of the two updates immaterial.\<close>

lemma blacklist_peer_calm: "pubsub_ok s \<Longrightarrow> yields (blacklist_peer e p s) (calm s)"
proof -
  assume ok: "pubsub_ok s"
  let ?b = "\<lambda>s. s\<lparr>blacklist := insert p (blacklist s)\<rparr>"
  have clean: "calm t (?b t)" if "p_peers (rt t) p = None" for t
    using that by (auto simp: calm_def pipe_def pubsub_ok_def joined_ok_def queues_ok_def)
  let ?t = "drop_queue p s"
  have eq: "drop_queue p (?b s) = ?b ?t" by (simp add: drop_queue_def)
  have "calm s (drop_queue p (?b s))" unfolding eq
    by (rule calm_trans [OF drop_queue_calm clean]) (simp add: drop_queue_def)
  then have c: "calm s (drop_subscriber p (drop_queue p (?b s)))" by (rule calm_trans) (rule quiet_calm, simp)
  from yields_calm_trans [OF yields_calm [OF ps_peer_quiet(2)] this] have "yields (ps_RemovePeer e p (drop_subscriber p (drop_queue p (?b s)))) (calm s)"
    using pubsub_okD(1) [OF calm_ok [OF c ok]] by blast
  then show ?thesis using clean [of s] by (simp add: blacklist_peer_def MapBlacklist_Add_def Let_def)
qed

section \<open>Subscriptions and relays\<close>

definition unmeshed where
  "unmeshed s = (dom (p_peers (rt s)), p_idGen (rt s), (mySubs s, subs s, next_sub s, myRelays s, peer_keys s, blacklist s, peerOutboundQueueSize s),
     (validateQ s, validateQ_size s, validateThrottle s, validating s, sendMsg s, seenMessages s, delivered_log s))"

lemma quiet_unmeshed: "quiet s s' \<Longrightarrow> unmeshed s' = unmeshed s"
  unfolding quiet_def core_def unmeshed_def view_def by simp

definition with_keys :: "pubsub \<Rightarrow> bitmask set \<Rightarrow> pubsub \<Rightarrow> bool" where
  "with_keys s K s' \<longleftrightarrow> rt_ok (rt s') \<and> fst ` set (mesh (rt s')) = K \<and> unmeshed s' = unmeshed s"

lemma with_keysD:
  assumes "with_keys s K s'"
  shows "rt_ok (rt s')" "fst ` set (mesh (rt s')) = K" "dom (p_peers (rt s')) = dom (p_peers (rt s))" "pipe s' = pipe s"
    "mySubs s' = mySubs s" "subs s' = subs s" "next_sub s' = next_sub s" "myRelays s' = myRelays s" "queues_ok s' \<longleftrightarrow> queues_ok s"
  using assms unfolding with_keys_def unmeshed_def pipe_def queues_ok_def by simp_all

lemma unmeshed_router: "side r = side (rt s) \<Longrightarrow> unmeshed (s\<lparr>rt := r\<rparr>) = unmeshed s"
  unfolding side_def unmeshed_def by simp

lemma interest_keys:
  assumes "rt_ok (rt s)"
  shows "yields (gain_interest e bm s) (with_keys s (insert bm (fst ` set (mesh (rt s)))))"
    "yields (lose_interest e bm s) (with_keys s (fst ` set (mesh (rt s)) - {bm}))"
proof -
  let ?s = "\<lambda>b. announce bm b s"
  have q: "quiet s (?s b)" for b by simp
  have ok: "rt_ok (rt (?s b))" for b using quiet_rt [OF q assms] .
  have k: "fst ` set (mesh (rt (?s b))) = fst ` set (mesh (rt s))" "unmeshed (?s b) = unmeshed s" for b
    using quiet_core(1) [OF q] quiet_unmeshed [OF q] by blast+
  have j: "with_keys s (insert bm (fst ` set (mesh (rt s)))) ((?s True)\<lparr>rt := r\<rparr>)" if "rt_Join bm t (rt (?s True)) = Some r" "rt_ok r" for r t
  proof -
    have "side r = side (rt (?s True))" "fst ` set (mesh r) = insert bm (fst ` set (mesh (rt s)))"
      using Join_full [OF that(1)] k(1) [of True] unfolding full_eq by simp_all
    then show ?thesis using that(2) unmeshed_router [of r "?s True"] k(2) by (simp add: with_keys_def)
  qed
  show "yields (gain_interest e bm s) (with_keys s (insert bm (fst ` set (mesh (rt s)))))"
    unfolding gain_interest_def on_rt_def yields_bind yields_Some by (rule yields_mono [OF Join_rt [OF ok]]) (rule j)
  have l: "with_keys s (fst ` set (mesh (rt s)) - {bm}) ((?s False)\<lparr>rt := r\<rparr>)" if "rt_Leave bm t (rt (?s False)) = Some r" "rt_ok r" for r t
  proof -
    have "side r = side (rt (?s False))" "fst ` set (mesh r) = fst ` set (mesh (rt s)) - {bm}"
      using Leave_full [OF that(1)] k(1) [of False] unfolding full_eq by simp_all
    then show ?thesis using that(2) unmeshed_router [of r "?s False"] k(2) by (simp add: with_keys_def)
  qed
  show "yields (lose_interest e bm s) (with_keys s (fst ` set (mesh (rt s)) - {bm}))"
    unfolding lose_interest_def on_rt_def yields_bind yields_Some by (rule yields_mono [OF Leave_rt [OF ok]]) (rule l)
qed

definition sub_ok :: "(nat \<Rightarrow> Subscription) \<Rightarrow> nat \<Rightarrow> bitmask \<Rightarrow> nat list \<Rightarrow> bool" where
  "sub_ok st n bm xs \<longleftrightarrow> xs \<noteq> [] \<and> distinct xs \<and> (\<forall>a \<in> set xs. a < n \<and> \<not> sub_closed (st a) \<and> sub_bitmask (st a) = bm)"

lemma subs_ok_iff: "subs_ok m st n \<longleftrightarrow> distinct (map fst m) \<and> (\<forall>x \<in> set m. sub_ok st n (fst x) (snd x)) \<and> (\<forall>a. length (sub_ch (st a)) \<le> sub_size (st a))"
  by (auto simp: subs_ok_def sub_ok_def)

lemma subs_of_empty: "subs_ok (mySubs s) st n \<Longrightarrow> subs_of s bm = [] \<longleftrightarrow> bm \<notin> fst ` set (mySubs s)"
proof (cases "map_of (mySubs s) bm")
  case (Some xs)
  assume "subs_ok (mySubs s) st n"
  moreover have "(bm, xs) \<in> set (mySubs s)" using Some by (rule map_of_SomeD)
  ultimately have "xs \<noteq> []" by (auto simp: subs_ok_iff sub_ok_def)
  then show ?thesis using Some map_of_None_keys [of "mySubs s" bm] by (simp add: subs_of_def)
next
  case None
  then show ?thesis using map_of_None_keys [of "mySubs s" bm] by (simp add: subs_of_def)
qed

lemma relays_of_zero: "relays_ok (myRelays s) \<Longrightarrow> relays_of s bm = 0 \<longleftrightarrow> bm \<notin> fst ` set (myRelays s)"
proof (cases "map_of (myRelays s) bm")
  case (Some n)
  assume "relays_ok (myRelays s)"
  moreover have "(bm, n) \<in> set (myRelays s)" using Some by (rule map_of_SomeD)
  ultimately have "n > 0" by (auto simp: relays_ok_def)
  then show ?thesis using Some map_of_None_keys [of "myRelays s" bm] by (simp add: relays_of_def)
next
  case None
  then show ?thesis using map_of_None_keys [of "myRelays s" bm] by (simp add: relays_of_def)
qed

lemma relays_nonneg: "relays_ok (myRelays s) \<Longrightarrow> 0 \<le> relays_of s bm"
  by (auto simp: relays_of_def relays_ok_def split: option.splits dest!: map_of_SomeD)

lemma sub_ok_of: "subs_ok (mySubs s) st n \<Longrightarrow> subs_of s bm \<noteq> [] \<Longrightarrow> sub_ok st n bm (subs_of s bm)"
  by (auto simp: subs_of_def subs_ok_iff split: option.splits dest!: map_of_SomeD)

lemma subs_ok_add:
  assumes "subs_ok (mySubs s) (subs s) (next_sub s)"
  shows "subs_ok (AList.update bm (subs_of s bm @ [next_sub s]) (mySubs s))
     ((subs s)(next_sub s := \<lparr>sub_bitmask = bm, sub_size = sz, sub_ch = [], sub_closed = False\<rparr>)) (Suc (next_sub s))" (is "subs_ok ?m ?st ?n")
proof -
  have old: "sub_ok ?st ?n bm' xs" if "sub_ok (subs s) (next_sub s) bm' xs" for bm' xs
    using that by (auto simp: sub_ok_def)
  have "sub_ok ?st ?n bm (subs_of s bm @ [next_sub s])"
  proof (cases "subs_of s bm = []")
    case False
    then have "sub_ok (subs s) (next_sub s) bm (subs_of s bm)" using sub_ok_of assms by blast
    then show ?thesis by (auto simp: sub_ok_def)
  qed (simp add: sub_ok_def)
  then have "\<forall>x \<in> set ?m. sub_ok ?st ?n (fst x) (snd x)" using old assms update_subset [of bm "subs_of s bm @ [next_sub s]" "mySubs s"] unfolding subs_ok_iff by fastforce
  then show ?thesis using assms by (simp add: subs_ok_iff distinct_update)
qed

lemma handleAddSubscription_calm:
  assumes ok: "pubsub_ok s"
  shows "yields (handleAddSubscription e bm sz s) (calm s)"
proof -
  let ?new = "\<lparr>sub_bitmask = bm, sub_size = sz, sub_ch = [], sub_closed = False\<rparr>"
  let ?fin = "\<lambda>t. t\<lparr>subs := (subs t)(next_sub s := ?new), next_sub := Suc (next_sub s), mySubs := AList.update bm (subs_of t bm @ [next_sub s]) (mySubs t)\<rparr>"
  have sok: "subs_ok (mySubs s) (subs s) (next_sub s)" and rok: "relays_ok (myRelays s)" and j: "joined_ok s" using ok by (simp_all add: pubsub_ok_def)
  have fin: "calm s (?fin t)" if t: "with_keys s (insert bm (fst ` set (mesh (rt s)))) t" for t
  proof -
    have so: "subs_of t bm = subs_of s bm" using with_keysD(5) [OF t] by (simp add: subs_of_def)
    have "pubsub_ok (?fin t)" using subs_ok_add [OF sok, of bm sz] rok j with_keysD [OF t] ok so
      by (simp add: pubsub_ok_def joined_ok_def update_keys queues_ok_def)
    moreover have "pipe (?fin t) = pipe s" using with_keysD(4) [OF t] by (simp add: pipe_def)
    ultimately show ?thesis by (simp add: calm_def)
  qed
  show ?thesis
  proof (cases "subs_of s bm = [] \<and> relays_of s bm = 0")
    case True
    have "yields (gain_interest e bm s) (\<lambda>t. calm s (?fin t))" by (rule yields_mono [OF interest_keys(1) [OF pubsub_okD(1) [OF ok]] fin])
    then show ?thesis using True by (simp add: handleAddSubscription_def Let_def)
  next
    case False
    then have "bm \<in> fst ` set (mesh (rt s))" using subs_of_empty [OF sok] relays_of_zero [OF rok] j by (auto simp: joined_ok_def)
    then have "insert bm (fst ` set (mesh (rt s))) = fst ` set (mesh (rt s))" by (rule insert_absorb)
    then have "calm s (?fin s)" by (intro fin) (simp add: with_keys_def pubsub_okD(1) [OF ok])
    then show ?thesis using False by (auto simp: handleAddSubscription_def Let_def)
  qed
qed

lemma with_keys_calm:
  assumes "with_keys t K u" "subs_ok (mySubs t) (subs t) (next_sub t)" "relays_ok (myRelays t)" "queues_ok t"
    "K = fst ` set (mySubs t) \<union> fst ` set (myRelays t)" "pipe t = pipe s"
  shows "calm s u"
  using assms(2-) with_keysD [OF assms(1)] by (simp add: calm_def pubsub_ok_def joined_ok_def)

lemma with_keys_refl: "rt_ok (rt t) \<Longrightarrow> K = fst ` set (mesh (rt t)) \<Longrightarrow> with_keys t K t"
  by (simp add: with_keys_def)

lemma delete_set: "set (AList.delete k m) = {x \<in> set m. fst x \<noteq> k}"
  by (auto simp: AList.delete_eq)

lemma subs_ok_remove:
  assumes "subs_ok m st n" "map_of m (sub_bitmask (st a)) = Some xs"
  shows "subs_ok (AList.delete (sub_bitmask (st a)) m) (st(a := (st a)\<lparr>sub_closed := True\<rparr>)) n"
    "removeAll a xs \<noteq> [] \<Longrightarrow> subs_ok (AList.update (sub_bitmask (st a)) (removeAll a xs) m) (st(a := (st a)\<lparr>sub_closed := True\<rparr>)) n"
proof -
  let ?st = "st(a := (st a)\<lparr>sub_closed := True\<rparr>)" and ?bm = "sub_bitmask (st a)"
  have old: "sub_ok ?st n bm ys" if "sub_ok st n bm ys" "bm \<noteq> ?bm" for bm ys using that by (auto simp: sub_ok_def)
  have mine: "sub_ok st n ?bm xs" using assms by (auto simp: subs_ok_iff dest!: map_of_SomeD)
  have all: "sub_ok st n bm ys" if "(bm, ys) \<in> set m" for bm ys using assms(1) that by (auto simp: subs_ok_iff)
  have "sub_ok ?st n (fst x) (snd x)" if "x \<in> set (AList.delete ?bm m)" for x
    using that old [OF all] unfolding delete_set by (cases x) simp
  then show "subs_ok (AList.delete ?bm m) ?st n" using assms(1) by (simp add: subs_ok_iff distinct_delete)
  have "sub_ok ?st n ?bm (removeAll a xs)" if "removeAll a xs \<noteq> []" using mine that by (auto simp: sub_ok_def distinct_removeAll)
  moreover have "x = (?bm, removeAll a xs) \<or> x \<in> set m \<and> fst x \<noteq> ?bm" if "x \<in> set (AList.update ?bm (removeAll a xs) m)" for x
  proof -
    have "distinct (map fst (AList.update ?bm (removeAll a xs) m))" using assms(1) by (simp add: subs_ok_iff distinct_update)
    then have "map_of (AList.update ?bm (removeAll a xs) m) (fst x) = Some (snd x)" using that by (cases x) simp
    then show ?thesis by (cases x) (auto simp: update_conv' split: if_splits dest: map_of_SomeD)
  qed
  ultimately show "subs_ok (AList.update ?bm (removeAll a xs) m) ?st n" if "removeAll a xs \<noteq> []"
    using that assms(1) old all unfolding subs_ok_iff by (simp add: distinct_update) (metis prod.collapse fst_conv snd_conv)
qed

lemma handleRemoveSubscription_calm:
  assumes ok: "pubsub_ok s"
  shows "yields (handleRemoveSubscription e a s) (calm s)"
proof (cases "map_of (mySubs s) (sub_bitmask (subs s a))")
  case (Some xs)
  let ?bm = "sub_bitmask (subs s a)"
  let ?t = "(sub_close a s)\<lparr>mySubs := AList.delete ?bm (mySubs s)\<rparr>"
  have sok: "subs_ok (mySubs s) (subs s) (next_sub s)" and rok: "relays_ok (myRelays s)" and q: "queues_ok s"
    and j: "fst ` set (mesh (rt s)) = fst ` set (mySubs s) \<union> fst ` set (myRelays s)" using ok by (simp_all add: pubsub_ok_def joined_ok_def)
  have r: "rt_ok (rt s)" using pubsub_okD(1) [OF ok] .
  have k: "?bm \<in> fst ` set (mySubs s)" using Some map_of_None_keys [of "mySubs s" ?bm] by auto
  have t: "subs_ok (mySubs ?t) (subs ?t) (next_sub ?t)" "relays_ok (myRelays ?t)" "queues_ok ?t" "pipe ?t = pipe s" "rt ?t = rt s"
    using subs_ok_remove(1) [OF sok Some] rok q by (simp_all add: sub_close_def queues_ok_def pipe_def)
  have gone: "fst ` set (mySubs ?t) \<union> fst ` set (myRelays ?t) = (fst ` set (mySubs s) - {?bm}) \<union> fst ` set (myRelays s)"
    by (auto simp: delete_keys sub_close_def)
  have e: "?thesis" if "removeAll a xs = []"
  proof (cases "relays_of s ?bm = 0")
    case True
    then have "fst ` set (mesh (rt ?t)) - {?bm} = fst ` set (mySubs ?t) \<union> fst ` set (myRelays ?t)"
      using relays_of_zero [OF rok] j t(5) unfolding gone by auto
    then have "calm s u" if "with_keys ?t (fst ` set (mesh (rt ?t)) - {?bm}) u" for u by (rule with_keys_calm [OF that t(1-3) _ t(4)])
    then have "yields (lose_interest e ?bm ?t) (calm s)" using r t(5) by (intro yields_mono [OF interest_keys(2)]) simp_all
    then show ?thesis using Some that True by (simp add: handleRemoveSubscription_def Let_def relays_of_def sub_close_def)
  next
    case False
    then have "fst ` set (mesh (rt ?t)) = fst ` set (mySubs ?t) \<union> fst ` set (myRelays ?t)"
      using relays_of_zero [OF rok] j t(5) unfolding gone by auto
    then have "calm s ?t" using with_keys_calm [OF with_keys_refl [OF _ refl] t(1-3) _ t(4)] r t(5) by simp
    then show ?thesis using Some that False by (simp add: handleRemoveSubscription_def Let_def relays_of_def sub_close_def)
  qed
  have n: "?thesis" if ne: "removeAll a xs \<noteq> []"
  proof -
    let ?u = "(sub_close a s)\<lparr>mySubs := AList.update ?bm (removeAll a xs) (mySubs s)\<rparr>"
    have "insert ?bm (fst ` set (mySubs s)) = fst ` set (mySubs s)" using k by (rule insert_absorb)
    then have "pubsub_ok ?u" "pipe ?u = pipe s" using subs_ok_remove(2) [OF sok Some ne] rok q r j
      by (simp_all add: pubsub_ok_def joined_ok_def sub_close_def queues_ok_def pipe_def update_keys)
    then have "calm s ?u" by (simp add: calm_def)
    moreover have "handleRemoveSubscription e a s = Some ?u" using Some ne by (simp add: handleRemoveSubscription_def Let_def sub_close_def)
    ultimately show ?thesis by simp
  qed
  show ?thesis using e n by blast
qed (use calm_refl ok in \<open>simp add: handleRemoveSubscription_def\<close>)

lemma relays_ok_update: "relays_ok m \<Longrightarrow> n > 0 \<Longrightarrow> relays_ok (AList.update bm n m)"
  using update_subset [of bm n m] by (fastforce simp: relays_ok_def distinct_update)

lemma relays_ok_delete: "relays_ok m \<Longrightarrow> relays_ok (AList.delete bm m)"
  by (auto simp: relays_ok_def AList.delete_eq distinct_delete distinct_map_filter)

lemma delete_update_same: "AList.delete k (AList.update k v m) = AList.delete k m"
  by (induction m) (auto simp: AList.delete_eq)

lemma handleAddRelay_calm:
  assumes ok: "pubsub_ok s"
  shows "yields (handleAddRelay e bm s) (calm s)"
proof -
  let ?t = "s\<lparr>myRelays := AList.update bm (relays_of s bm + 1) (myRelays s)\<rparr>"
  have sok: "subs_ok (mySubs s) (subs s) (next_sub s)" and rok: "relays_ok (myRelays s)" and q: "queues_ok s" and r: "rt_ok (rt s)"
    and j: "fst ` set (mesh (rt s)) = fst ` set (mySubs s) \<union> fst ` set (myRelays s)" using ok by (simp_all add: pubsub_ok_def joined_ok_def)
  have t: "subs_ok (mySubs ?t) (subs ?t) (next_sub ?t)" "relays_ok (myRelays ?t)" "queues_ok ?t" "pipe ?t = pipe s" "rt ?t = rt s"
    using sok relays_ok_update [OF rok, of "relays_of s bm + 1" bm] relays_nonneg [OF rok, of bm] q by (simp_all add: queues_ok_def pipe_def)
  have k: "insert bm (fst ` set (mesh (rt s))) = fst ` set (mySubs ?t) \<union> fst ` set (myRelays ?t)" using j by (simp add: update_keys)
  have so: "subs_of ?t bm = subs_of s bm" "relays_of ?t bm = relays_of s bm + 1" by (simp_all add: subs_of_def relays_of_def update_conv')
  show ?thesis
  proof (cases "relays_of s bm = 0 \<and> subs_of s bm = []")
    case True
    have "calm s u" if "with_keys ?t (insert bm (fst ` set (mesh (rt ?t)))) u" for u using with_keys_calm [OF that t(1-3) _ t(4)] k t(5) by simp
    then have "yields (gain_interest e bm ?t) (calm s)" using r t(5) by (intro yields_mono [OF interest_keys(1)]) simp_all
    then show ?thesis using True so by (simp add: handleAddRelay_def)
  next
    case False
    then have "bm \<in> fst ` set (mesh (rt s))" using subs_of_empty [OF sok] relays_of_zero [OF rok] j by auto
    then have "calm s ?t" using k r t by (intro with_keys_calm [OF with_keys_refl]) (simp_all add: insert_absorb)
    then show ?thesis using False so by (auto simp: handleAddRelay_def Let_def)
  qed
qed

lemma handleRemoveRelay_calm:
  assumes ok: "pubsub_ok s"
  shows "yields (handleRemoveRelay e bm s) (calm s)"
proof (cases "relays_of s bm = 0")
  case False
  have sok: "subs_ok (mySubs s) (subs s) (next_sub s)" and rok: "relays_ok (myRelays s)" and q: "queues_ok s" and r: "rt_ok (rt s)"
    and j: "fst ` set (mesh (rt s)) = fst ` set (mySubs s) \<union> fst ` set (myRelays s)" using ok by (simp_all add: pubsub_ok_def joined_ok_def)
  let ?t = "s\<lparr>myRelays := AList.update bm (relays_of s bm - 1) (myRelays s)\<rparr>"
  let ?u = "?t\<lparr>myRelays := AList.delete bm (myRelays ?t)\<rparr>"
  have mine: "bm \<in> fst ` set (myRelays s)" using False relays_of_zero [OF rok] by blast
  have so: "relays_of ?t bm = relays_of s bm - 1" "subs_of ?u bm = subs_of s bm" by (simp_all add: subs_of_def relays_of_def update_conv')
  show ?thesis
  proof (cases "relays_of s bm = 1")
    case True
    have u: "subs_ok (mySubs ?u) (subs ?u) (next_sub ?u)" "relays_ok (myRelays ?u)" "queues_ok ?u" "pipe ?u = pipe s" "rt ?u = rt s"
      using sok relays_ok_delete [OF rok, of bm] q by (simp_all add: queues_ok_def pipe_def delete_update_same)
    have k: "fst ` set (mySubs ?u) \<union> fst ` set (myRelays ?u) = fst ` set (mySubs s) \<union> (fst ` set (myRelays s) - {bm})"
      by (auto simp: delete_keys update_keys)
    have h: "handleRemoveRelay e bm s = (if subs_of s bm = [] then lose_interest e bm ?u else Some ?u)"
      using False True so by (simp add: handleRemoveRelay_def Let_def)
    show ?thesis
    proof (cases "subs_of s bm = []")
      case True
      then have "fst ` set (mesh (rt ?u)) - {bm} = fst ` set (mySubs ?u) \<union> fst ` set (myRelays ?u)"
        using subs_of_empty [OF sok] j u(5) unfolding k by auto
      then have "calm s v" if "with_keys ?u (fst ` set (mesh (rt ?u)) - {bm}) v" for v by (rule with_keys_calm [OF that u(1-3) _ u(4)])
      then have "yields (lose_interest e bm ?u) (calm s)" using r u(5) by (intro yields_mono [OF interest_keys(2)]) simp_all
      then show ?thesis using True h by simp
    next
      case False
      then have "fst ` set (mesh (rt ?u)) = fst ` set (mySubs ?u) \<union> fst ` set (myRelays ?u)"
        using subs_of_empty [OF sok] j u(5) mine unfolding k by auto
      then have "calm s ?u" using r u by (intro with_keys_calm [OF with_keys_refl [OF _ refl]]) simp_all
      then show ?thesis using False h by simp
    qed
  next
    case two: False
    have "calm s ?t" using sok relays_ok_update [OF rok, of "relays_of s bm - 1" bm] relays_nonneg [OF rok, of bm] q r j mine two False
      by (intro with_keys_calm [OF with_keys_refl [OF _ refl]]) (simp_all add: queues_ok_def pipe_def update_keys insert_absorb)
    then show ?thesis using False two so by (simp add: handleRemoveRelay_def Let_def)
  qed
qed (simp add: handleRemoveRelay_def)

section \<open>Handles\<close>

lemma handles_quiet:
  "quiet s (snd (handleAddBitmask bm s))" "quiet s (snd (join_slices sls s))" "quiet s (snd (tryJoin bm s))" "quiet s (snd (Bitmask_Close h s))"
  "quiet s (snd (EventHandler h s))" "quiet s (EventHandler_Cancel h a s)"
proof -
  show add: "quiet s (snd (handleAddBitmask bm s))" for bm s by (simp add: handleAddBitmask_def Let_def quiet_def core_def split: option.split)
  show join: "quiet s (snd (join_slices sls s))" for sls s
  proof (induction sls arbitrary: s)
    case (Cons sl sls)
    show ?case using quiet_trans [OF add Cons.IH] by (simp add: case_prod_unfold Let_def)
  qed simp
  show "quiet s (snd (tryJoin bm s))" by (simp add: tryJoin_def case_prod_unfold Let_def join)
  show "quiet s (snd (Bitmask_Close h s))"
    by (simp add: Bitmask_Close_def handleRemoveBitmask_def Let_def quiet_def core_def split: option.split)
  show "quiet s (snd (EventHandler h s))" by (simp add: EventHandler_def Let_def quiet_def core_def)
  show "quiet s (EventHandler_Cancel h a s)" by (simp add: EventHandler_Cancel_def)
qed

lemma handle_steps_calm:
  assumes "pubsub_ok s"
  shows "yields (Bitmask_Subscribe e h sz s) (\<lambda>x. calm s (snd x))" "yields (Bitmask_Relay e h s) (\<lambda>x. calm s (snd x))"
  using handleAddSubscription_calm [OF assms] handleAddRelay_calm [OF assms] by (simp_all add: Bitmask_Subscribe_def Bitmask_Relay_def)

lemma subscribe_all_calm: "pubsub_ok s \<Longrightarrow> yields (subscribe_all e hs sz s) (\<lambda>x. calm s (snd x))"
proof (induction hs arbitrary: s)
  case (Cons h hs)
  have "yields (subscribe_all e hs sz t) (\<lambda>x. calm s (snd x))" if "calm s t" for t
    by (rule yields_mono [OF Cons.IH [OF calm_ok [OF that Cons.prems]]]) (rule calm_trans [OF that])
  then show ?case unfolding subscribe_all.simps yields_bind case_prod_unfold
    by (intro yields_mono [OF handle_steps_calm(1) [OF Cons.prems]]) (auto split: sum.split)
qed simp

lemma ps_Subscribe_calm:
  assumes "pubsub_ok s"
  shows "yields (ps_Subscribe e bm sz s) (\<lambda>x. calm s (snd x))"
proof -
  have c: "calm s (snd (tryJoin bm s))" by (rule quiet_calm [OF handles_quiet(3)])
  have "yields (subscribe_all e hs sz (snd (tryJoin bm s))) (\<lambda>x. calm s (snd x))" for hs
    by (rule yields_mono [OF subscribe_all_calm [OF calm_ok [OF c assms]]]) (rule calm_trans [OF c])
  then show ?thesis using c by (auto simp: ps_Subscribe_def case_prod_unfold split: prod.split sum.split)
qed

text \<open>Only the buffer of a subscription changes.\<close>

lemma buffer_calm:
  assumes "length ch \<le> sub_size (subs s a)"
  shows "calm s (s\<lparr>subs := (subs s)(a := (subs s a)\<lparr>sub_ch := ch\<rparr>)\<rparr>)"
  using assms by (auto simp: calm_def pipe_def pubsub_ok_def joined_ok_def queues_ok_def subs_ok_def)

lemma next_message_calm: "pubsub_ok s \<Longrightarrow> calm s (next_message a s)"
  unfolding next_message_def by (rule buffer_calm) (auto simp: pubsub_ok_def subs_ok_def intro: order.trans [OF diff_le_self])

section \<open>Delivery\<close>

lemma notify_sub_calm:
  assumes "\<not> sub_closed (subs s a)"
  shows "yields (notify_sub msg a s) (\<lambda>t. calm s t \<and> mySubs t = mySubs s \<and> (\<forall>b. sub_closed (subs t b) = sub_closed (subs s b)))"
  using assms buffer_calm [of "sub_ch (subs s a) @ [msg]" s a] by (simp add: notify_sub_def Let_def)

lemma notifySubs_calm:
  assumes ok: "pubsub_ok s"
  shows "yields (notifySubs msg s) (calm s)"
proof -
  let ?sl = "SliceBitmask (GetBitmask msg) ! 0"
  let ?I = "\<lambda>t. calm s t \<and> (\<forall>b. sub_closed (subs t b) = sub_closed (subs s b))"
  have "yields (fold_opt (notify_sub msg) (subs_of s ?sl) s) ?I"
  proof (rule yields_fold_opt)
    fix a t
    assume a: "a \<in> set (subs_of s ?sl)" and t: "?I t"
    have "subs_of s ?sl \<noteq> []" using a by auto
    then have "\<not> sub_closed (subs s a)" using sub_ok_of [OF pubsub_okD(2) [OF ok]] a by (simp add: sub_ok_def)
    then show "yields (notify_sub msg a t) ?I" using t by (intro yields_mono [OF notify_sub_calm]) (auto intro: calm_trans)
  qed simp
  moreover have "go_nth (SliceBitmask (GetBitmask msg)) 0 = Some ?sl" using SliceBitmask_nonempty by (simp add: go_nth_def)
  ultimately show ?thesis by (auto simp: notifySubs_def elim!: yields_mono)
qed

text \<open>A step that passes the seen cache, or takes a message out of the pipeline, gains a credit for the identifier.\<close>

definition credit :: "time \<Rightarrow> message_id \<Rightarrow> pubsub \<Rightarrow> pubsub \<Rightarrow> bool" where
  "credit n i s t \<longleftrightarrow> flow n s t \<and> potential i t < potential i s"

lemma credit_flow: "credit n i s t \<Longrightarrow> flow n s t"
  by (simp add: credit_def)

lemma credit_calm: "credit n i s t \<Longrightarrow> calm t u \<Longrightarrow> credit n i s u"
  using potential_pipe [of u t] calm_flow [of t u n] flow_trans [of n s t u] by (simp add: credit_def calm_def)

lemma flow_ok: "flow n s t \<Longrightarrow> pubsub_ok s \<Longrightarrow> pubsub_ok t"
  by (simp add: flow_def)

lemma spend:
  assumes "credit n (mid_of (p_idGen (rt s)) m) s t"
  shows "flow n s (t\<lparr>sendMsg := sendMsg t @ [m]\<rparr>)" "flow n s (t\<lparr>delivered_log := delivered_log t @ [m]\<rparr>)"
    "vr_msg (fst x) = m \<Longrightarrow> length (validating t) < validateThrottle t \<Longrightarrow> flow n s (t\<lparr>validating := validating t @ [x]\<rparr>)"
proof -
  have t: "flow n s t" "potential (mid_of (p_idGen (rt s)) m) t < potential (mid_of (p_idGen (rt s)) m) s" using assms by (auto simp: credit_def)
  have id: "p_idGen (rt t) = p_idGen (rt s)" using t(1) by (simp add: flow_def)
  have le: "potential i t + (if mid_of (p_idGen (rt s)) m = i then 1 else 0) \<le> potential i s" for i using t by (auto simp: flow_def)
  have go: "flow n s u" if "\<And>i. potential i u = potential i t + (if mid_of (p_idGen (rt t)) m = i then 1 else 0)" "pubsub_ok t \<Longrightarrow> pubsub_ok u" "rt u = rt t"
      "seenMessages u = seenMessages t" for u
    using that(2-4) t(1) le id by (simp add: flow_def that(1))
  show "flow n s (t\<lparr>sendMsg := sendMsg t @ [m]\<rparr>)"
    by (rule go) (simp_all add: potential_def passed_def seenMessage_def pubsub_ok_def joined_ok_def queues_ok_def)
  show "flow n s (t\<lparr>delivered_log := delivered_log t @ [m]\<rparr>)"
    by (rule go) (simp_all add: potential_def passed_def seenMessage_def pubsub_ok_def joined_ok_def queues_ok_def)
  show "vr_msg (fst x) = m \<Longrightarrow> length (validating t) < validateThrottle t \<Longrightarrow> flow n s (t\<lparr>validating := validating t @ [x]\<rparr>)"
    by (rule go) (simp_all add: potential_def passed_def seenMessage_def pubsub_ok_def joined_ok_def queues_ok_def)
qed

lemma publishMessage_flow:
  assumes c: "credit n (mid_of (p_idGen (rt s)) msg) s t" and ok: "pubsub_ok s"
  shows "yields (publishMessage e msg t) (flow n s)"
proof -
  let ?u = "t\<lparr>delivered_log := delivered_log t @ [msg]\<rparr>"
  have u: "flow n s ?u" by (rule spend(2) [OF c])
  have uok: "pubsub_ok ?u" by (rule flow_ok [OF u ok])
  have t: "rt_ok (rt t)" using pubsub_okD(1) [OF uok] by simp
  have "yields (if Local msg then Some w else on_rt (rt_Publish msg (now e)) w) (calm ?u)" if w: "calm ?u w" for w
  proof -
    have r: "rt_ok (rt w)" by (rule pubsub_okD(1) [OF calm_ok [OF w uok]])
    have "yields (on_rt (rt_Publish msg (now e)) w) (quiet w)" by (rule on_rt_quiet) (rule Publish_rt Publish_framed r | assumption)+
    then show ?thesis using w yields_calm_trans [OF yields_calm w] by simp
  qed
  moreover have "yields (notifySubs msg v) (calm ?u)" if "quiet ?u v" for v
    using notifySubs_calm [OF quiet_ok [OF that uok]] quiet_calm [OF that] by (rule yields_calm_trans)
  ultimately have "yields (notifySubs msg v) (\<lambda>w. yields (if Local msg then Some w else on_rt (rt_Publish msg (now e)) w) (calm ?u))" if "quiet ?u v" for v
    using that by (blast intro: yields_mono)
  then have "yields (publishMessage e msg t) (calm ?u)" unfolding publishMessage_def yields_bind by (rule yields_mono [OF tr_quiet(4) [OF t]])
  then show ?thesis by (rule yields_mono) (rule flow_trans [OF u calm_flow])
qed

section \<open>The validation pipeline\<close>

lemma seen_ok: "pubsub_ok (s\<lparr>seenMessages := c\<rparr>) \<longleftrightarrow> pubsub_ok s"
  by (simp add: pubsub_ok_def joined_ok_def queues_ok_def)

lemma markSeen_credit:
  "fst (markSeen e i s) \<Longrightarrow> credit (now e) i s (snd (markSeen e i s))" "\<not> fst (markSeen e i s) \<Longrightarrow> snd (markSeen e i s) = s"
proof -
  let ?c = "(seenMessages s)\<lparr>fs_m := (fs_m (seenMessages s))(peer_ID i \<mapsto> now e + fs_ttl (seenMessages s))\<rparr>"
  have c: "credit (now e) i s (s\<lparr>seenMessages := ?c\<rparr>)" if "fs_m (seenMessages s) (peer_ID i) = None"
  proof -
    have "potential j (s\<lparr>seenMessages := ?c\<rparr>) \<le> potential j s" for j
      by (simp add: potential_def passed_def seenMessage_def FirstSeen_Has_def)
    moreover have "potential i (s\<lparr>seenMessages := ?c\<rparr>) < potential i s"
      using that by (simp add: potential_def passed_def seenMessage_def FirstSeen_Has_def)
    ultimately show ?thesis by (simp add: credit_def flow_def seen_ok seen_grows_def)
  qed
  show "fst (markSeen e i s) \<Longrightarrow> credit (now e) i s (snd (markSeen e i s))"
    using c by (simp add: markSeen_def FirstSeen_Add_def split: if_splits)
  show "\<not> fst (markSeen e i s) \<Longrightarrow> snd (markSeen e i s) = s"
    by (simp add: markSeen_def FirstSeen_Add_def split: if_splits)
qed

lemma tr_flow:
  assumes "flow n s t" "pubsub_ok s"
  shows "yields (tr_RejectMessage e msg reason t) (flow n s)" "yields (tr_DuplicateMessage e msg t) (flow n s)"
proof -
  have r: "rt_ok (rt t)" by (rule pubsub_okD(1) [OF flow_ok [OF assms]])
  show "yields (tr_RejectMessage e msg reason t) (flow n s)"
    by (rule yields_mono [OF tr_quiet(2) [OF r]]) (rule flow_trans [OF assms(1) calm_flow [OF quiet_calm]])
  show "yields (tr_DuplicateMessage e msg t) (flow n s)"
    by (rule yields_mono [OF tr_quiet(3) [OF r]]) (rule flow_trans [OF assms(1) calm_flow [OF quiet_calm]])
qed

lemma val_Push_flow:
  assumes "pubsub_ok s"
  shows "yields (val_Push e src msg s) (\<lambda>x. flow n s (snd x) \<and> (fst x \<longrightarrow> snd x = s))"
proof -
  have "flow n s (s\<lparr>validateQ := validateQ s @ [r]\<rparr>)" if "length (validateQ s) < validateQ_size s" for r
    using that by (simp add: flow_def potential_def passed_def seenMessage_def pubsub_ok_def joined_ok_def queues_ok_def)
  then show ?thesis using tr_flow(1) [OF flow_refl assms] by (simp add: val_Push_def Let_def)
qed

lemma pushMsg_flow:
  assumes "pubsub_ok s"
  shows "yields (pushMsg e msg s) (flow (now e) s)"
proof -
  let ?i = "mid_of (p_idGen (rt s)) msg" and ?m = "snd (idGen_ID (p_idGen (rt s)) msg)"
  have "yields (if fst (markSeen e ?i s) then publishMessage e ?m (snd (markSeen e ?i s)) else Some (snd (markSeen e ?i s))) (flow (now e) s)"
  proof (cases "fst (markSeen e ?i s)")
    case True
    then have "credit (now e) (mid_of (p_idGen (rt s)) ?m) s (snd (markSeen e ?i s))" unfolding idGen_ID_cached by (rule markSeen_credit(1))
    then have "yields (publishMessage e ?m (snd (markSeen e ?i s))) (flow (now e) s)" using assms by (rule publishMessage_flow)
    then show ?thesis using True by simp
  next
    case False
    then show ?thesis using markSeen_credit(2) [OF False] by simp
  qed
  then show ?thesis unfolding pushMsg_def Let_def case_prod_unfold yields_bind
    by (intro yields_mono [OF val_Push_flow [OF assms]]) auto
qed

text \<open>The part of a validation after the seen cache.\<close>

definition after_seen :: "env \<Rightarrow> (validatorImpl \<Rightarrow> bool) \<Rightarrow> bool \<Rightarrow> validatorImpl list \<Rightarrow> peer_id \<Rightarrow> Message \<Rightarrow> bool \<Rightarrow> pubsub \<Rightarrow> (val_outcome \<times> pubsub) option" where
  "after_seen e late quits vals src msg synchronous s =
     (let inline = filter (\<lambda>v. v_inline v \<or> synchronous) vals;
          async = filter (\<lambda>v. \<not> (v_inline v \<or> synchronous)) vals;
          result = inline_verdict (map (\<lambda>v. validateMsg v (late v \<and> v_timeout v > 0) src msg) inline) ValidationAccept in
      if result = ValidationReject then do {
        s \<leftarrow> tr_RejectMessage e msg RejectValidationFailed s;
        Some (ValErr RejectValidationFailed, s) }
      else if async \<noteq> [] then
        if length (validating s) < validateThrottle s
        then Some (ValOk, s\<lparr>validating := validating s @ [(\<lparr>vr_vals = async, vr_src = src, vr_msg = msg\<rparr>, result)]\<rparr>)
        else do { s \<leftarrow> tr_RejectMessage e msg RejectValidationThrottled s; Some (ValOk, s) }
      else if result = ValidationIgnore then do {
        s \<leftarrow> tr_RejectMessage e msg RejectValidationIgnored s;
        Some (ValErr RejectValidationIgnored, s) }
      else if p_done (rt s) \<and> quits then Some (ValCtx, s)
      else Some (ValOk, s\<lparr>sendMsg := sendMsg s @ [msg]\<rparr>))"

lemma after_seen_flow:
  assumes c: "credit n (mid_of (p_idGen (rt s)) msg) s t" and ok: "pubsub_ok s"
  shows "yields (after_seen e late quits vals src msg synchronous t) (\<lambda>x. flow n s (snd x))"
  using tr_flow(1) [OF credit_flow [OF c] ok] spend(1) [OF c] spend(3) [OF c] credit_flow [OF c] unfolding after_seen_def Let_def by simp

lemma val_validate_flow:
  assumes ok: "pubsub_ok s"
  shows "yields (val_validate ko e late quits vals src msg synchronous s) (\<lambda>x. flow (now e) s (snd x))"
proof -
  let ?i = "mid_of (p_idGen (rt s)) msg" and ?m = "snd (idGen_ID (p_idGen (rt s)) msg)"
  let ?t = "snd (markSeen e ?i s)"
  have "yields (do { s \<leftarrow> tr_ValidateMessage e ?m ?t; after_seen e late quits vals src ?m synchronous s }) (\<lambda>x. flow (now e) s (snd x))" if "fst (markSeen e ?i s)"
  proof -
    have c: "credit (now e) (mid_of (p_idGen (rt s)) ?m) s ?t" unfolding idGen_ID_cached using that by (rule markSeen_credit(1))
    have r: "rt_ok (rt ?t)" by (rule pubsub_okD(1) [OF flow_ok [OF credit_flow [OF c] ok]])
    show ?thesis unfolding yields_bind
      by (rule yields_mono [OF tr_quiet(1) [OF r]]) (rule after_seen_flow [OF credit_calm [OF c quiet_calm] ok])
  qed
  moreover have "yields (do { s \<leftarrow> tr_DuplicateMessage e ?m ?t; Some (ValOk, s) }) (\<lambda>x. flow (now e) s (snd x))" if "\<not> fst (markSeen e ?i s)"
    using tr_flow(2) [OF flow_refl ok] markSeen_credit(2) [OF that] by simp
  moreover have "yields (do { s \<leftarrow> tr_RejectMessage e msg RejectInvalidSignature s; Some (ValErr RejectInvalidSignature, s) }) (\<lambda>x. flow (now e) s (snd x))"
    using tr_flow(1) [OF flow_refl ok] by simp
  ultimately show ?thesis unfolding val_validate_def after_seen_def Let_def case_prod_unfold by simp
qed

lemma queue_flow:
  assumes "validateQ s = req # rest"
  shows "flow n s (s\<lparr>validateQ := rest\<rparr>)"
  using assms by (simp add: flow_def potential_def passed_def seenMessage_def pubsub_ok_def joined_ok_def queues_ok_def)

lemma worker_flow:
  assumes "pubsub_ok s"
  shows "yields (worker ko e late quits s) (flow (now e) s)"
proof (cases "validateQ s")
  case (Cons req rest)
  have f: "flow (now e) s (s\<lparr>validateQ := rest\<rparr>)" by (rule queue_flow [OF Cons])
  have "yields (val_validate ko e late quits (vr_vals req) (vr_src req) (vr_msg req) False (s\<lparr>validateQ := rest\<rparr>)) (\<lambda>x. flow (now e) s (snd x))"
    by (rule yields_mono [OF val_validate_flow [OF flow_ok [OF f assms]]]) (rule flow_trans [OF f])
  then show ?thesis using Cons by (simp add: worker_def yields_map)
qed (simp add: worker_def)

lemma remove_at_split:
  assumes "i < length xs"
  obtains ys zs where "xs = ys @ xs ! i # zs" "remove_at i xs = ys @ zs"
  using assms id_take_nth_drop [OF assms] by (auto simp: remove_at_def)

lemma validating_credit:
  assumes "i < length (validating s)"
  shows "credit n (mid_of (p_idGen (rt s)) (vr_msg (fst (validating s ! i)))) s (s\<lparr>validating := remove_at i (validating s)\<rparr>)"
proof -
  obtain ys zs where v: "validating s = ys @ validating s ! i # zs" "remove_at i (validating s) = ys @ zs" using remove_at_split [OF assms] .
  let ?m = "vr_msg (fst (validating s ! i))" and ?t = "s\<lparr>validating := remove_at i (validating s)\<rparr>"
  have "passed s = map (\<lambda>x. vr_msg (fst x)) ys @ ?m # map (\<lambda>x. vr_msg (fst x)) zs @ sendMsg s @ delivered_log s"
    by (subst passed_def, subst v(1)) simp
  moreover have "passed ?t = map (\<lambda>x. vr_msg (fst x)) ys @ map (\<lambda>x. vr_msg (fst x)) zs @ sendMsg s @ delivered_log s"
    by (simp add: passed_def v(2))
  ultimately have p: "potential j s = potential j ?t + (if mid_of (p_idGen (rt s)) ?m = j then 1 else 0)" for j
    by (simp add: potential_def seenMessage_def)
  have "length (remove_at i (validating s)) \<le> length (validating s)" by (subst (2) v(1)) (simp add: v(2))
  then have "pubsub_ok s \<Longrightarrow> pubsub_ok ?t" by (simp add: pubsub_ok_def joined_ok_def queues_ok_def)
  then show ?thesis by (simp add: credit_def flow_def p)
qed

lemma finish_validation_flow:
  assumes ok: "pubsub_ok s"
  shows "yields (finish_validation e i flags arrivals s) (flow n s)"
proof (cases "i < length (validating s)")
  case True
  note c = validating_credit [OF True]
  have "yields (doValidateBitmask e (fst (validating s ! i)) r v (s\<lparr>validating := remove_at i (validating s)\<rparr>)) (flow n s)" for r v
    using spend(1) [OF c] tr_flow(1) [OF credit_flow [OF c] ok] by (simp add: doValidateBitmask_def Let_def split: ValidationResult.split)
  then show ?thesis using True by (simp add: finish_validation_def case_prod_unfold Let_def)
qed (simp add: finish_validation_def)

lemma sendMsg_credit:
  assumes "sendMsg s = m # ms"
  shows "credit n (mid_of (p_idGen (rt s)) m) s (s\<lparr>sendMsg := ms\<rparr>)"
  using assms by (simp add: credit_def flow_def potential_def passed_def seenMessage_def pubsub_ok_def joined_ok_def queues_ok_def)

section \<open>Incoming RPCs and publications\<close>

lemma sync_seen_quiet [simp]: "quiet s (sync_seen s)"
  unfolding sync_seen_def by (rule quiet_router) (simp_all add: rt_ok_def total_features_def full_def side_def)

lemma shouldPush_quiet:
  assumes "rt_ok (rt s)"
  shows "yields (shouldPush e msg s) (\<lambda>x. quiet s (snd (snd x)))"
proof -
  have "yields (tr_RejectMessage e m reason s) (quiet s)" "yields (tr_DuplicateMessage e m s) (quiet s)" for m reason
    by (rule tr_quiet [OF assms])+
  then show ?thesis unfolding shouldPush_def Let_def case_prod_unfold by (simp split: option.split)
qed

lemma collect_push_quiet: "rt_ok (rt s) \<Longrightarrow> yields (collect_push e from ms s) (\<lambda>x. quiet s (snd x))"
proof (induction ms arbitrary: s)
  case (Cons m ms)
  have "yields (collect_push e from ms t) (\<lambda>x. quiet s (snd x))" if "quiet s t" for t
    by (rule yields_mono [OF Cons.IH [OF quiet_rt [OF that Cons.prems]]]) (rule quiet_trans [OF that])
  then show ?case using Cons.IH [OF Cons.prems] unfolding collect_push.simps case_prod_unfold
    by (auto simp: yields_bind intro!: yields_mono [OF shouldPush_quiet [OF Cons.prems]])
qed simp

lemma HandleRPC_flow:
  assumes "flow n s t" "quiet t u" "pubsub_ok s"
  shows "yields (on_rt (HandleRPC rpc m) u) (flow n s)"
proof -
  have r: "rt_ok (rt u)" by (rule pubsub_okD(1) [OF quiet_ok [OF assms(2) flow_ok [OF assms(1,3)]]])
  have "yields (on_rt (HandleRPC rpc m) u) (quiet u)" by (rule on_rt_quiet) (rule HandleRPC_rt HandleRPC_framed r | assumption)+
  then show ?thesis by (rule yields_mono) (blast intro: flow_trans [OF assms(1)] flow_trans [OF calm_flow [OF quiet_calm [OF assms(2)]]] calm_flow quiet_calm)
qed

lemma push_all_flow:
  assumes ok: "pubsub_ok s"
  shows "yields (do {
             (toPush, t) \<leftarrow> collect_push e from ms s;
             t \<leftarrow> on_rt (PreValidation toPush) t;
             t \<leftarrow> fold_opt (pushMsg e) toPush t;
             on_rt (HandleRPC rpc m) (sync_seen t) }) (flow (now e) s)"
proof -
  have h: "yields (on_rt (HandleRPC rpc m) (sync_seen t)) (flow (now e) s)" if "flow (now e) s t" for t by (rule HandleRPC_flow [OF that sync_seen_quiet ok])
  have f: "yields (fold_opt (pushMsg e) xs t) (\<lambda>t. yields (on_rt (HandleRPC rpc m) (sync_seen t)) (flow (now e) s))" if "quiet s t" for xs t
  proof -
    have "yields (fold_opt (pushMsg e) xs t) (flow (now e) t)" by (rule flow_fold [OF quiet_ok [OF that ok]]) (rule pushMsg_flow)
    then show ?thesis by (rule yields_mono) (rule h [OF flow_trans [OF calm_flow [OF quiet_calm [OF that]]]])
  qed
  have p: "yields (on_rt (PreValidation xs) t) (\<lambda>t. yields (fold_opt (pushMsg e) xs t) (\<lambda>t. yields (on_rt (HandleRPC rpc m) (sync_seen t)) (flow (now e) s)))" if "quiet s t" for xs t
  proof -
    have r: "rt_ok (rt t)" by (rule quiet_rt [OF that pubsub_okD(1) [OF ok]])
    have "yields (on_rt (PreValidation xs) t) (quiet t)" by (rule on_rt_quiet) (rule PreValidation_rt PreValidation_framed r | assumption)+
    then show ?thesis by (rule yields_mono) (rule f [OF quiet_trans [OF that]])
  qed
  show ?thesis unfolding yields_bind case_prod_unfold
    by (rule yields_mono [OF collect_push_quiet [OF pubsub_okD(1) [OF ok]]]) (rule p)
qed

lemma handleIncomingRPC_flow:
  assumes ok: "pubsub_ok s"
  shows "yields (handleIncomingRPC e d rpc s) (flow (now e) s)"
proof -
  define acc :: "AcceptStatus \<times> pubsub \<Rightarrow> pubsub option" where "acc = (\<lambda>(a, t). case a of AcceptNone \<Rightarrow> Some t
         | AcceptControl \<Rightarrow> on_rt (HandleRPC rpc (now e)) (sync_seen (tr_ThrottlePeer (rpc_from rpc) t))
         | AcceptAll \<Rightarrow> do {
             (toPush, t) \<leftarrow> collect_push e (rpc_from rpc) (Publish rpc) t;
             t \<leftarrow> on_rt (PreValidation toPush) t;
             t \<leftarrow> fold_opt (pushMsg e) toPush t;
             on_rt (HandleRPC rpc (now e)) (sync_seen t) })"
  have acc: "yields (acc x) (flow (now e) s)" if q: "quiet s (snd x)" for x
  proof -
    let ?t = "snd x"
    have f: "flow (now e) s ?t" by (rule calm_flow [OF quiet_calm [OF q]])
    have t: "pubsub_ok ?t" by (rule quiet_ok [OF q ok])
    have "yields (on_rt (HandleRPC rpc (now e)) (sync_seen (tr_ThrottlePeer (rpc_from rpc) ?t))) (flow (now e) s)"
      by (rule HandleRPC_flow [OF f quiet_trans [OF tr_quiet(5) [OF pubsub_okD(1) [OF t]] sync_seen_quiet] ok])
    then show ?thesis using f yields_mono [OF push_all_flow [OF t] flow_trans [OF f]]
      unfolding acc_def case_prod_unfold by (simp split: AcceptStatus.split)
  qed
  have "yields (rt_AcceptFrom e (rpc_from rpc) d (fold (incoming_sub (rpc_from rpc)) sos s)) (\<lambda>x. yields (acc x) (flow (now e) s))" for sos
  proof -
    have q: "quiet s (fold (incoming_sub (rpc_from rpc)) sos s)" by (rule quiet_fold) simp
    show ?thesis by (rule yields_mono [OF rt_AcceptFrom_quiet [OF quiet_rt [OF q pubsub_okD(1) [OF ok]]]]) (rule acc [OF quiet_trans [OF q]])
  qed
  then have body: "yields (rt_AcceptFrom e (rpc_from rpc) d (fold (incoming_sub (rpc_from rpc)) sos s) \<bind> acc) (flow (now e) s)" for sos by (simp add: yields_bind)
  show ?thesis using body body [of "[]"] unfolding handleIncomingRPC_def Let_def acc_def [symmetric] by (simp split: sum.split)
qed

lemma make_message_quiet: "quiet s (snd (make_message ko signKey customKey bm data local s))"
  by (auto simp: make_message_def nextSeqno_def Let_def case_prod_unfold split: option.split)

lemma PushLocal_flow:
  assumes "pubsub_ok s"
  shows "yields (PushLocal ko e late quits msg s) (\<lambda>x. flow (now e) s (snd x))"
  using tr_flow(1) [OF flow_refl assms] by (simp add: PushLocal_def val_validate_flow [OF assms] split: option.split)

lemma Bitmask_Publish_flow:
  assumes "pubsub_ok s"
  shows "yields (Bitmask_Publish ko e late quits signKey customKey h bm data local s) (\<lambda>x. flow (now e) s (snd x))"
proof -
  let ?t = "snd (make_message ko signKey customKey bm data local s)"
  have f: "flow (now e) s ?t" by (rule calm_flow [OF quiet_calm [OF make_message_quiet]])
  have "yields (PushLocal ko e late quits msg ?t) (\<lambda>x. flow (now e) s (snd x))" for msg
    by (rule yields_mono [OF PushLocal_flow [OF flow_ok [OF f assms]]]) (rule flow_trans [OF f])
  then show ?thesis using f by (auto simp: Bitmask_Publish_def case_prod_unfold split: prod.split sum.split)
qed

section \<open>The whole loop\<close>

lemma heartbeat_calm:
  assumes ok: "pubsub_ok s"
  shows "yields (on_rt (heartbeat n) s) (calm s)"
proof -
  have r: "rt_ok (rt s)" by (rule pubsub_okD(1) [OF ok])
  have "\<exists>x. PeerScore (heartbeat_start n (rt s)) p = Some x" for p
    using PeerScore_yields [OF rt_okD(4) [OF heartbeat_start_ok(1) [OF r]], where Q = "\<lambda>_. True" and p = p] by (simp add: yields_iff)
  then obtain S where S: "\<And>p. PeerScore (heartbeat_start n (rt s)) p = Some (S p)" by metis
  have "calm s (s\<lparr>rt := r'\<rparr>)" if h: "heartbeat n (rt s) = Some r'" "rt_ok r' \<and> mesh_post S n (rt s) r'" for r'
  proof -
    have "side r' = side (rt s)" using heartbeat_side [of n "rt s"] h(1) by (simp add: kept_def)
    then have u: "unmeshed (s\<lparr>rt := r'\<rparr>) = unmeshed s" by (rule unmeshed_router)
    have "fst ` set (mesh r') = fst ` set (mesh (rt s))" using h(2) by (simp add: mesh_post_def)
    then have w: "with_keys s (fst ` set (mesh (rt s))) (s\<lparr>rt := r'\<rparr>)" using h(2) u by (simp add: with_keys_def)
    show ?thesis using pubsub_okD(4) [OF ok] by (intro with_keys_calm [OF w pubsub_okD(2,3,5) [OF ok]]) (simp_all add: joined_ok_def)
  qed
  then show ?thesis unfolding on_rt_def by (auto simp: yields_bind intro: yields_mono [OF heartbeat_post [OF r S]])
qed

lemmas quiet_flow = calm_flow [OF quiet_calm]

theorem ps_handle_flow:
  assumes ok: "pubsub_ok s" and "ev \<noteq> Sweep"
  shows "yields (ps_handle ko e ev s) (flow (now e) s)"
proof (cases ev)
  case (RetryAnnounce i)
  have "flow (now e) s (announceRetry p bm sub (s\<lparr>retries := rs\<rparr>))" for p bm sub rs
    by (rule quiet_flow [OF quiet_trans [OF quiet_upd(2) announceRetry_quiet]])
  then show ?thesis using RetryAnnounce by (auto split: prod.split)
next
  case SendMsg
  then show ?thesis using publishMessage_flow [OF sendMsg_credit ok] by (simp split: list.split)
qed (use assms in \<open>simp_all add: quiet_flow handles_quiet notifyNewPeer_def notifyPeerDead_def
      yields_flow [OF handlePendingPeers_calm] yields_flow [OF handleDeadPeers_calm] yields_flow [OF new_stream_calm] calm_flow [OF drop_queue_calm]
      yields_mono [OF ps_Subscribe_calm calm_flow] yields_mono [OF handle_steps_calm(1) calm_flow] yields_mono [OF handle_steps_calm(2) calm_flow]
      yields_flow [OF handleRemoveSubscription_calm] calm_flow [OF next_message_calm] yields_flow [OF handleRemoveRelay_calm]
      handleIncomingRPC_flow yields_flow [OF blacklist_peer_calm] worker_flow finish_validation_flow Bitmask_Publish_flow
      yields_flow [OF heartbeat_calm]\<close>)

end
