(* ===== verification/Pubsub_Properties.thy ===== *)
theory Pubsub_Properties
  imports Pubsub_Safety Router_Properties
begin

text \<open>
  What the PubSub loop promises for every sequence of events, in any order: it never panics and keeps its tables consistent, and within one time to
  live of the seen cache a message identifier is delivered at most once.
\<close>

section \<open>Sweeps and runs\<close>

lemma Sweep_ok: "pubsub_ok s \<Longrightarrow> yields (ps_handle ko e Sweep s) pubsub_ok"
  by (simp add: seen_ok)

lemma ps_handle_ok: "pubsub_ok s \<Longrightarrow> yields (ps_handle ko e ev s) pubsub_ok"
  using ps_handle_flow [of s ev ko e] Sweep_ok [of s ko e] by (cases "ev = Sweep") (auto elim!: yields_mono intro: flow_ok)

lemma ps_run_ok: "pubsub_ok s \<Longrightarrow> yields (ps_run ko evs s) pubsub_ok"
  unfolding ps_run_def by (rule yields_fold_opt) (auto simp: ps_handle_ok)

lemma NewPubSub_ok:
  assumes "rt_ok r" "mesh r = []"
  shows "pubsub_ok (NewPubSub r nanos)"
proof -
  have "rt_ok (r\<lparr>p_bitmasks := Map.empty, p_peers := Map.empty\<rparr>)" using assms(1) by (simp add: rt_ok_def total_features_def topics_ok_def)
  then show ?thesis using assms(2) by (simp add: NewPubSub_def pubsub_ok_def subs_ok_def relays_ok_def joined_ok_def queues_ok_def NewMapBlacklist_def
      DefaultPeerOutboundQueueSize_def)
qed

text \<open>The entry of an identifier that will outlive the window of one time to live after \<open>t0\<close>.\<close>

definition fresh_entry :: "time \<Rightarrow> message_id \<Rightarrow> pubsub \<Rightarrow> bool" where
  "fresh_entry t0 i s \<longleftrightarrow> (case fs_m (seenMessages s) (peer_ID i) of None \<Rightarrow> True | Some x \<Rightarrow> t0 + fs_ttl (seenMessages s) \<le> x)"

definition steady :: "time \<Rightarrow> message_id \<Rightarrow> pubsub \<Rightarrow> pubsub \<Rightarrow> bool" where
  "steady t0 i s s' \<longleftrightarrow> pubsub_ok s' \<and> fs_ttl (seenMessages s') = fs_ttl (seenMessages s) \<and> fresh_entry t0 i s' \<and> potential i s' \<le> potential i s
     \<and> p_idGen (rt s') = p_idGen (rt s)"

lemma flow_steady:
  assumes "flow n s s'" "pubsub_ok s" "fresh_entry t0 i s" "t0 \<le> n"
  shows "steady t0 i s s'"
proof -
  have g: "fs_ttl (seenMessages s') = fs_ttl (seenMessages s)"
    "fs_m (seenMessages s') (peer_ID i) = fs_m (seenMessages s) (peer_ID i) \<or> fs_m (seenMessages s') (peer_ID i) = Some (n + fs_ttl (seenMessages s))"
    using assms(1) by (auto simp: flow_def seen_grows_def)
  then have "fresh_entry t0 i s'" using assms(3,4) by (auto simp: fresh_entry_def split: option.splits)
  then show ?thesis using assms(1,2) g(1) by (simp add: steady_def flow_def)
qed

lemma Sweep_steady:
  assumes "pubsub_ok s" "fresh_entry t0 i s" "now e \<le> t0 + fs_ttl (seenMessages s)"
  shows "yields (ps_handle ko e Sweep s) (steady t0 i s)"
proof -
  have "sweep (fs_m (seenMessages s)) (now e) (peer_ID i) = fs_m (seenMessages s) (peer_ID i)"
    using assms(2,3) by (auto simp: sweep_def fresh_entry_def split: option.splits)
  then show ?thesis using assms(1,2)
    by (simp add: steady_def seen_ok fresh_entry_def potential_def passed_def seenMessage_def FirstSeen_Has_def split: option.splits)
qed

lemma ps_run_steady:
  assumes "pubsub_ok s" "fresh_entry t0 i s" "list_all (\<lambda>(e, ev). t0 \<le> now e \<and> now e \<le> t0 + fs_ttl (seenMessages s)) evs"
  shows "yields (ps_run ko evs s) (steady t0 i s)"
  unfolding ps_run_def
proof (rule yields_fold_opt)
  show "steady t0 i s s" using assms(1,2) by (simp add: steady_def)
  fix x t
  assume x: "x \<in> set evs" and t: "steady t0 i s t"
  obtain e ev where ev: "x = (e, ev)" by (cases x)
  have w: "t0 \<le> now e" "now e \<le> t0 + fs_ttl (seenMessages t)" using assms(3) x ev t by (auto simp: list_all_iff steady_def)
  have ok: "pubsub_ok t" "fresh_entry t0 i t" using t by (auto simp: steady_def)
  have "yields (ps_handle ko e ev t) (steady t0 i t)"
  proof (cases "ev = Sweep")
    case False
    show ?thesis by (rule yields_mono [OF ps_handle_flow [OF ok(1) False]]) (rule flow_steady [OF _ ok w(1)])
  qed (use Sweep_steady [OF ok w(2)] in simp)
  then have "yields (ps_handle ko e ev t) (steady t0 i s)" by (rule yields_mono) (use t in \<open>auto simp: steady_def\<close>)
  then show "yields ((\<lambda>(e, ev). ps_handle ko e ev) x t) (steady t0 i s)" by (simp add: ev)
qed

section \<open>A concrete network\<close>

text \<open>A router with no mesh, and two peers that send the same message about a subscribed bitmask.\<close>

definition ex_net :: pubsub where
  "ex_net = NewPubSub (ex_router\<lparr>mesh := []\<rparr>) 7"

definition ex_env :: "time \<Rightarrow> env" where
  "ex_env t = \<lparr>now = t, connected = (\<lambda>_. True), gconns = (\<lambda>_. []), jitter = (\<lambda>_. 0)\<rparr>"

definition ex_rpc :: "peer_id \<Rightarrow> RPC" where
  "ex_rpc p = \<lparr>Subscriptions = [], Publish = [\<lparr>From = Some [9], Data = [3], Seqno = Some [0], MBitmask = [1], Signature = None, Key = None\<rparr>], Control = None, rpc_from = p\<rparr>"

definition ex_events :: "(env \<times> (bytes, nat) ps_event) list" where
  "ex_events = [(ex_env 1, SubscribeTo [1] 16), (ex_env 2, Incoming (ex_rpc ''a'') 0), (ex_env 3, Sweep), (ex_env 4, Incoming (ex_rpc ''b'') 0), (ex_env 5, Heartbeat)]"

lemma ex_net_router_ok: "rt_ok (ex_router\<lparr>mesh := []\<rparr>)"
  using ex_router_ok by (simp add: rt_ok_def mesh_inv_def total_features_def peer_map_ok_def)

section \<open>The properties\<close>

text \<open>
  C2. A PubSub object made over a well-formed router with no mesh handles every sequence of events, from any mixture of peers, applications, validators
  and timers, without a panic. In particular nothing is ever sent on the closed channel of a cancelled subscription. Afterwards the router has
  joined exactly the bitmasks with a subscription or a relay, every registered subscription is open, belongs to its bitmask and
  holds no more messages than its buffer, no blacklisted peer has an outgoing queue, and the validation queue and the validations in progress
  respect their bounds.\<close>

theorem pubsub_loop_sound:
  assumes "rt_ok r" "mesh r = []"
  shows "\<exists>s. ps_run ko evs (NewPubSub r nanos) = Some s
    \<and> (\<forall>bm. bm \<in> fst ` set (mesh (rt s)) \<longleftrightarrow> subs_of s bm \<noteq> [] \<or> relays_of s bm > 0)
    \<and> (\<forall>bm. \<forall>a \<in> set (subs_of s bm). \<not> sub_closed (subs s a) \<and> sub_bitmask (subs s a) = bm \<and> length (sub_ch (subs s a)) \<le> sub_size (subs s a))
    \<and> (\<forall>p \<in> blacklist s. p_peers (rt s) p = None)
    \<and> length (validateQ s) \<le> validateQ_size s \<and> length (validating s) \<le> validateThrottle s"
proof -
  obtain s where s: "ps_run ko evs (NewPubSub r nanos) = Some s" "pubsub_ok s"
    using ps_run_ok [OF NewPubSub_ok [OF assms], of ko evs nanos] by (auto simp: yields_iff)
  note so = pubsub_okD(2) [OF s(2)] and ro = pubsub_okD(3) [OF s(2)]
  have "bm \<in> fst ` set (mesh (rt s)) \<longleftrightarrow> subs_of s bm \<noteq> [] \<or> relays_of s bm > 0" for bm
    using pubsub_okD(4) [OF s(2)] subs_of_empty [OF so, of bm] relays_of_zero [OF ro, of bm] relays_nonneg [OF ro, of bm] by (auto simp: joined_ok_def)
  moreover have "\<not> sub_closed (subs s a) \<and> sub_bitmask (subs s a) = bm \<and> length (sub_ch (subs s a)) \<le> sub_size (subs s a)" if "a \<in> set (subs_of s bm)" for a bm
  proof -
    have "subs_of s bm \<noteq> []" using that by auto
    then show ?thesis using sub_ok_of [OF so, of bm] so that by (simp add: sub_ok_def subs_ok_iff)
  qed
  moreover have "p_peers (rt s) p = None" if "p \<in> blacklist s" for p using pubsub_okD(5) [OF s(2)] that by (auto simp: queues_ok_def)
  ultimately show ?thesis using s(1) pubsub_okD(5) [OF s(2)] by (auto simp: queues_ok_def)
qed

theorem pubsub_loop_sound_witness:
  "\<exists>s. ps_run toy_keys ex_events ex_net = Some s \<and> list_all (\<lambda>bm. subs_of s bm \<noteq> [] \<or> relays_of s bm > 0) (map fst (mesh (rt s)))
     \<and> length (validateQ s) \<le> validateQ_size s"
  using pubsub_loop_sound [OF ex_net_router_ok, of toy_keys ex_events 7] by (auto simp: ex_net_def list_all_iff)

text \<open>
  C3. Messages are delivered at most once within the time to live of the seen cache. Take any state of the loop, and any further sequence of events
  whose times lie within one time to live after \<open>t0\<close>, including sweeps of the cache. A message identifier whose cache entry does not expire
  in that window is delivered at most as often as its messages had passed the seen cache before (delivered, queued or being validated),
  and once more only if it had not been seen.\<close>

theorem delivered_at_most_once:
  assumes "pubsub_ok s" "fresh_entry t0 i s" "list_all (\<lambda>(e, ev). t0 \<le> now e \<and> now e \<le> t0 + fs_ttl (seenMessages s)) evs"
  shows "\<exists>s'. ps_run ko evs s = Some s'
    \<and> length (filter (\<lambda>m. mid_of (p_idGen (rt s)) m = i) (delivered_log s'))
      \<le> length (filter (\<lambda>m. mid_of (p_idGen (rt s)) m = i) (passed s)) + (if seenMessage i s then 0 else 1)"
proof -
  obtain s' where s': "ps_run ko evs s = Some s'" "steady t0 i s s'" using ps_run_steady [OF assms, of ko] by (auto simp: yields_iff)
  have "length (filter (\<lambda>m. mid_of (p_idGen (rt s)) m = i) (delivered_log s')) \<le> potential i s'"
    using s'(2) by (simp add: potential_def passed_def steady_def)
  also have "\<dots> \<le> potential i s" using s'(2) by (simp add: steady_def)
  finally show ?thesis using s'(1) by (simp add: potential_def)
qed

theorem delivered_at_most_once_witness:
  "\<exists>s'. ps_run toy_keys ex_events ex_net = Some s' \<and> length (filter (\<lambda>m. mid_of (p_idGen (rt ex_net)) m = [3]) (delivered_log s')) \<le> 1"
proof -
  have "pubsub_ok ex_net" unfolding ex_net_def by (rule NewPubSub_ok [OF ex_net_router_ok]) simp
  moreover have "fresh_entry 0 [3] ex_net" "passed ex_net = []" "\<not> seenMessage [3] ex_net"
    by (simp_all add: ex_net_def NewPubSub_def fresh_entry_def passed_def seenMessage_def newFirstSeenCache_def FirstSeen_Has_def)
  moreover have "list_all (\<lambda>(e, ev). 0 \<le> now e \<and> now e \<le> 0 + fs_ttl (seenMessages ex_net)) ex_events"
    by (simp add: ex_events_def ex_env_def ex_net_def NewPubSub_def newFirstSeenCache_def TimeCacheDuration_def Minute_def Second_def Millisecond_def)
  ultimately show ?thesis using delivered_at_most_once [of ex_net 0 "[3]" ex_events toy_keys] by simp
qed

end
