(* ===== verification/Kad_Peerset.thy ===== *)
theory Kad_Peerset
  imports Prelude "HOL-Library.Multiset"
begin

text \<open>
  The peer set of a Kademlia lookup, \<^verbatim>\<open>qpeerset.go\<close> of \<^verbatim>\<open>go-libp2p-kad-dht\<close>. The distance of a peer to the key comes from an external package
  and is a parameter, the field \<open>metric\<close>. The sort is not stable in Go, which matters only for two peers at the same distance; the distances
  are exclusive-or distances of hashes. An index out of range panics, which is \<open>None\<close>. The contents are a map \<open>states\<close>
  from peers to their states, and every operation is shown to implement the corresponding operation on maps.
\<close>

section \<open>Operations\<close>

datatype PeerState = PeerHeard | PeerWaiting | PeerQueried | PeerUnreachable

record queryPeerState =
  qid :: peer_id
  distance :: nat
  qstate :: PeerState
  referredBy :: peer_id

record QueryPeerset =
  metric :: "peer_id \<Rightarrow> nat"
  all_peers :: "queryPeerState list"
  is_sorted :: bool

definition NewQueryPeerset :: "(string \<Rightarrow> peer_id \<Rightarrow> nat) \<Rightarrow> string \<Rightarrow> QueryPeerset" where
  "NewQueryPeerset keyspace key = \<lparr>metric = keyspace key, all_peers = [], is_sorted = False\<rparr>"

fun find_peer :: "peer_id \<Rightarrow> queryPeerState list \<Rightarrow> nat option" where
  "find_peer p [] = None"
| "find_peer p (x # xs) = (if qid x = p then Some 0 else map_option Suc (find_peer p xs))"

definition TryAdd :: "peer_id \<Rightarrow> peer_id \<Rightarrow> QueryPeerset \<Rightarrow> bool \<times> QueryPeerset" where
  "TryAdd p referrer qp =
     (if find_peer p (all_peers qp) \<noteq> None then (False, qp)
      else (True, qp\<lparr>all_peers := all_peers qp @ [\<lparr>qid = p, distance = metric qp p, qstate = PeerHeard, referredBy = referrer\<rparr>], is_sorted := False\<rparr>))"

definition sort_peers :: "QueryPeerset \<Rightarrow> QueryPeerset" where
  "sort_peers qp = (if is_sorted qp then qp else qp\<lparr>all_peers := sort_key distance (all_peers qp), is_sorted := True\<rparr>)"

definition SetState :: "peer_id \<Rightarrow> PeerState \<Rightarrow> QueryPeerset \<Rightarrow> QueryPeerset option" where
  "SetState p st qp = (case find_peer p (all_peers qp) of None \<Rightarrow> None
     | Some i \<Rightarrow> Some (qp\<lparr>all_peers := (all_peers qp)[i := (all_peers qp ! i)\<lparr>qstate := st\<rparr>]\<rparr>))"

definition GetState :: "peer_id \<Rightarrow> QueryPeerset \<Rightarrow> PeerState option" where
  "GetState p qp = map_option (\<lambda>i. qstate (all_peers qp ! i)) (find_peer p (all_peers qp))"

definition GetReferrer :: "peer_id \<Rightarrow> QueryPeerset \<Rightarrow> peer_id option" where
  "GetReferrer p qp = map_option (\<lambda>i. referredBy (all_peers qp ! i)) (find_peer p (all_peers qp))"

definition GetClosestNInStates :: "nat \<Rightarrow> PeerState list \<Rightarrow> QueryPeerset \<Rightarrow> peer_id list \<times> QueryPeerset" where
  "GetClosestNInStates n sts qp =
     (let qp = sort_peers qp; result = map qid (filter (\<lambda>x. qstate x \<in> set sts) (all_peers qp)) in
      (if length result \<ge> n then take n result else result, qp))"

definition GetClosestInStates :: "PeerState list \<Rightarrow> QueryPeerset \<Rightarrow> peer_id list \<times> QueryPeerset" where
  "GetClosestInStates sts qp = GetClosestNInStates (length (all_peers qp)) sts qp"

definition NumHeard :: "QueryPeerset \<Rightarrow> nat \<times> QueryPeerset" where
  "NumHeard qp = (let (r, qp) = GetClosestInStates [PeerHeard] qp in (length r, qp))"

definition NumWaiting :: "QueryPeerset \<Rightarrow> nat \<times> QueryPeerset" where
  "NumWaiting qp = (let (r, qp) = GetClosestInStates [PeerWaiting] qp in (length r, qp))"

section \<open>The map behind the list\<close>

definition states :: "QueryPeerset \<Rightarrow> peer_id \<rightharpoonup> PeerState" where
  "states qp = map_of (map (\<lambda>x. (qid x, qstate x)) (all_peers qp))"

definition peerset_ok :: "QueryPeerset \<Rightarrow> bool" where
  "peerset_ok qp \<longleftrightarrow> distinct (map qid (all_peers qp)) \<and> list_all (\<lambda>x. distance x = metric qp (qid x)) (all_peers qp)
     \<and> (is_sorted qp \<longrightarrow> sorted (map distance (all_peers qp)))"

lemma find_peer_Some:
  assumes "find_peer p xs = Some i"
  shows "i < length xs" "qid (xs ! i) = p" "map_of (map (\<lambda>x. (qid x, f x)) xs) p = Some (f (xs ! i))"
proof -
  have "i < length xs \<and> qid (xs ! i) = p \<and> map_of (map (\<lambda>x. (qid x, f x)) xs) p = Some (f (xs ! i))"
    using assms by (induction xs arbitrary: i) (auto split: if_splits)
  then show "i < length xs" "qid (xs ! i) = p" "map_of (map (\<lambda>x. (qid x, f x)) xs) p = Some (f (xs ! i))" by auto
qed

lemma find_peer_None: "find_peer p xs = None \<longleftrightarrow> p \<notin> qid ` set xs"
  by (induction xs) auto

lemma states_dom: "dom (states qp) = qid ` set (all_peers qp)"
  by (force simp: states_def dom_map_of_conv_image_fst)

lemma find_peer_states: "find_peer p (all_peers qp) = None \<longleftrightarrow> states qp p = None"
  using states_dom [of qp] by (auto simp: find_peer_None domIff)

lemma GetState_states: "GetState p qp = states qp p"
  using find_peer_states [of p qp] find_peer_Some(3) [of p "all_peers qp", where f = qstate]
  by (cases "find_peer p (all_peers qp)") (simp_all add: GetState_def states_def)

lemma GetReferrer_states: "GetReferrer p qp = None \<longleftrightarrow> states qp p = None"
  by (simp add: GetReferrer_def find_peer_states)

lemma New_ok: "peerset_ok (NewQueryPeerset ks key)" "states (NewQueryPeerset ks key) = Map.empty" "metric (NewQueryPeerset ks key) = ks key"
  by (simp_all add: NewQueryPeerset_def peerset_ok_def states_def)

lemma TryAdd_states:
  "states (snd (TryAdd p r qp)) = (if states qp p = None then (states qp)(p \<mapsto> PeerHeard) else states qp)"
  by (auto simp: TryAdd_def find_peer_states states_def map_add_def split: option.splits)

lemma TryAdd_ok: "peerset_ok qp \<Longrightarrow> peerset_ok (snd (TryAdd p r qp))" "metric (snd (TryAdd p r qp)) = metric qp"
  by (auto simp: TryAdd_def peerset_ok_def find_peer_None)

lemma map_of_update_nth:
  "distinct (map qid xs) \<Longrightarrow> i < length xs \<Longrightarrow>
   map_of (map (\<lambda>x. (qid x, qstate x)) (xs[i := (xs ! i)\<lparr>qstate := st\<rparr>])) = (map_of (map (\<lambda>x. (qid x, qstate x)) xs))(qid (xs ! i) \<mapsto> st)"
proof (induction xs arbitrary: i)
  case (Cons x xs)
  show ?case
  proof (cases i)
    case (Suc j)
    have "qid (xs ! j) \<noteq> qid x" using Cons.prems Suc by (metis Suc_less_eq distinct.simps(2) length_Cons length_map list.simps(9) nth_map nth_mem)
    then show ?thesis using Cons Suc by (auto simp: fun_upd_twist)
  qed (simp add: fun_eq_iff)
qed simp

lemma SetState_states:
  assumes "peerset_ok qp" "states qp p \<noteq> None"
  shows "\<exists>qp'. SetState p st qp = Some qp' \<and> states qp' = (states qp)(p \<mapsto> st) \<and> peerset_ok qp' \<and> metric qp' = metric qp"
proof -
  obtain i where i: "find_peer p (all_peers qp) = Some i" using assms(2) find_peer_states [of p qp] by (cases "find_peer p (all_peers qp)") auto
  note f = find_peer_Some(1,2) [OF i]
  let ?xs = "(all_peers qp)[i := (all_peers qp ! i)\<lparr>qstate := st\<rparr>]"
  have same: "map qid ?xs = map qid (all_peers qp)" "map distance ?xs = map distance (all_peers qp)"
    by (simp_all add: map_update list_update_same_conv f(1))
  have "list_all (\<lambda>x. distance x = metric qp (qid x)) ?xs"
    using assms(1) f(1) by (simp add: peerset_ok_def list_all_length nth_list_update)
  then have "peerset_ok (qp\<lparr>all_peers := ?xs\<rparr>)" using assms(1) same by (simp add: peerset_ok_def)
  moreover have "states (qp\<lparr>all_peers := ?xs\<rparr>) = (states qp)(p \<mapsto> st)"
    using map_of_update_nth [of "all_peers qp" i st] assms(1) f by (simp add: states_def peerset_ok_def)
  ultimately show ?thesis using i by (simp add: SetState_def)
qed

lemma states_iff: "peerset_ok qp \<Longrightarrow> states qp p = Some st \<longleftrightarrow> (\<exists>x \<in> set (all_peers qp). qid x = p \<and> qstate x = st)"
  by (auto simp: states_def peerset_ok_def comp_def map_of_eq_Some_iff)

lemma sort_peers_ok:
  assumes "peerset_ok qp"
  shows "peerset_ok (sort_peers qp)" "states (sort_peers qp) = states qp" "metric (sort_peers qp) = metric qp" "is_sorted (sort_peers qp)"
    "length (all_peers (sort_peers qp)) = length (all_peers qp)"
proof -
  have "mset (map qid (sort_key distance (all_peers qp))) = mset (map qid (all_peers qp))" by simp
  from mset_eq_imp_distinct_iff [OF this] have d: "distinct (map qid (sort_key distance (all_peers qp))) = distinct (map qid (all_peers qp))" .
  then show ok: "peerset_ok (sort_peers qp)" using assms by (simp add: sort_peers_def peerset_ok_def list_all_iff)
  have "set (all_peers (sort_peers qp)) = set (all_peers qp)" by (simp add: sort_peers_def)
  then have "states (sort_peers qp) p = Some st \<longleftrightarrow> states qp p = Some st" for p st unfolding states_iff [OF ok] states_iff [OF assms] by simp
  then show "states (sort_peers qp) = states qp" by (metis (no_types) ext not_None_eq)
qed (simp_all add: sort_peers_def)

section \<open>Rankings\<close>

text \<open>The peers in some states, closest first.\<close>

definition ranking :: "PeerState list \<Rightarrow> QueryPeerset \<Rightarrow> peer_id list \<Rightarrow> bool" where
  "ranking sts qp ps \<longleftrightarrow> distinct ps \<and> sorted (map (metric qp) ps) \<and> set ps = {p. \<exists>st \<in> set sts. states qp p = Some st}"

definition closest :: "PeerState list \<Rightarrow> QueryPeerset \<Rightarrow> peer_id list" where
  "closest sts qp = map qid (filter (\<lambda>x. qstate x \<in> set sts) (all_peers (sort_peers qp)))"

lemma closest_ranking:
  assumes "peerset_ok qp"
  shows "ranking sts qp (closest sts qp)"
proof -
  let ?q = "sort_peers qp"
  have ok: "peerset_ok ?q" "is_sorted ?q" "metric ?q = metric qp" "states ?q = states qp" using sort_peers_ok [OF assms] by auto
  then have s: "sorted (map distance (all_peers ?q))" "distinct (map qid (all_peers ?q))" by (auto simp: peerset_ok_def)
  have d: "distance x = metric qp (qid x)" if "x \<in> set (all_peers ?q)" for x using ok that by (auto simp: peerset_ok_def list_all_iff)
  have "map (metric qp) (closest sts qp) = map distance (filter (\<lambda>x. qstate x \<in> set sts) (all_peers ?q))"
    using d by (simp add: closest_def)
  then have "sorted (map (metric qp) (closest sts qp))" using sorted_filter [OF s(1)] by simp
  moreover have "distinct (closest sts qp)" using s(2) by (simp add: closest_def distinct_map_filter)
  moreover have "set (closest sts qp) = {p. \<exists>st \<in> set sts. states qp p = Some st}"
    using states_iff [OF ok(1)] unfolding ok(4) closest_def by auto
  ultimately show ?thesis by (simp add: ranking_def)
qed

lemma GetClosestN_closest: "GetClosestNInStates n sts qp = (take n (closest sts qp), sort_peers qp)"
  by (simp add: GetClosestNInStates_def Let_def closest_def)

lemma GetClosest_closest: "GetClosestInStates sts qp = (closest sts qp, sort_peers qp)"
proof -
  have "length (all_peers (sort_peers qp)) = length (all_peers qp)" by (simp add: sort_peers_def)
  then have "length (closest sts qp) \<le> length (all_peers qp)"
    using length_filter_le [of "\<lambda>x. qstate x \<in> set sts" "all_peers (sort_peers qp)"] by (simp add: closest_def)
  then show ?thesis by (simp add: GetClosestInStates_def GetClosestN_closest)
qed

lemma closest_card:
  assumes "peerset_ok qp"
  shows "length (closest sts qp) = card {p. \<exists>st \<in> set sts. states qp p = Some st}"
proof -
  have "distinct (closest sts qp)" "set (closest sts qp) = {p. \<exists>st \<in> set sts. states qp p = Some st}"
    using closest_ranking [OF assms, of sts] by (simp_all add: ranking_def)
  then show ?thesis using distinct_card [of "closest sts qp"] by simp
qed

lemma Num_closest: "NumHeard qp = (length (closest [PeerHeard] qp), sort_peers qp)" "NumWaiting qp = (length (closest [PeerWaiting] qp), sort_peers qp)"
  by (simp_all add: NumHeard_def NumWaiting_def GetClosest_closest)

lemma sort_sort [simp]: "sort_peers (sort_peers qp) = sort_peers qp"
  by (simp add: sort_peers_def)

lemma closest_sort [simp]: "closest sts (sort_peers qp) = closest sts qp"
  by (simp add: closest_def)

end
