(* ===== verification/Kad_Query.thy ===== *)
theory Kad_Query
  imports Kad_Peerset Partial
begin

text \<open>
  A Kademlia lookup, \<^verbatim>\<open>query.go\<close> of \<^verbatim>\<open>go-libp2p-kad-dht\<close>: the loop of \<^verbatim>\<open>query.run\<close>, the goroutines that query one peer each, and the channel
  of capacity \<^verbatim>\<open>alpha\<close> between them. The record holds the query and the fields of the DHT it reads; \<open>running\<close> lists the goroutines that have not
  sent their update yet (the wait group) and \<open>chan\<close> is the channel. What a remote peer answers, and the query filter, are
  arguments. The routing table and the peer store, which are external packages, do not influence a lookup once it runs.
\<close>

section \<open>State\<close>

datatype LookupTerminationReason = LookupStopped | LookupCancelled | LookupStarvation | LookupCompleted

record queryUpdate =
  cause :: peer_id
  queried :: "peer_id list"
  heard :: "peer_id list"
  unreachable :: "peer_id list"
  queryDuration :: int

record query =
  self :: peer_id
  q_key :: string
  alpha :: int
  beta :: nat
  bucketSize :: nat
  queryPeerFilter :: "peer_id \<Rightarrow> bool"
  stopFn :: "QueryPeerset \<Rightarrow> bool"
  seedPeers :: "peer_id list"
  peerTimes :: "peer_id \<rightharpoonup> int"
  queryPeers :: QueryPeerset
  terminated :: bool
  reason :: "LookupTerminationReason option"
  chan :: "queryUpdate list"
  running :: "peer_id list"

section \<open>Querying one peer\<close>

text \<open>The answer of a peer: dialling fails, the request fails, or it names peers.\<close>

datatype reply = DialError | RequestError | Closer "peer_id list"

definition unreachable_update :: "peer_id \<Rightarrow> queryUpdate" where
  "unreachable_update p = \<lparr>cause = p, queried = [], heard = [], unreachable = [p], queryDuration = 0\<rparr>"

definition queryPeer :: "query \<Rightarrow> peer_id \<Rightarrow> reply \<Rightarrow> int \<Rightarrow> queryUpdate" where
  "queryPeer q p r d = (case r of
       DialError \<Rightarrow> unreachable_update p
     | RequestError \<Rightarrow> unreachable_update p
     | Closer newPeers \<Rightarrow>
         \<lparr>cause = p, queried = [p], heard = filter (\<lambda>p. p \<noteq> self q \<and> (p = q_key q \<or> queryPeerFilter q p)) newPeers,
          unreachable = [], queryDuration = d\<rparr>)"

section \<open>The loop\<close>

definition hear_of :: "peer_id \<Rightarrow> peer_id \<Rightarrow> query \<Rightarrow> query" where
  "hear_of c p q = (if p = self q then q else q\<lparr>queryPeers := snd (TryAdd p c (queryPeers q))\<rparr>)"

definition mark_queried :: "int \<Rightarrow> peer_id \<Rightarrow> query \<Rightarrow> query option" where
  "mark_queried d p q =
     (if p = self q then Some q
      else do {
        st \<leftarrow> GetState p (queryPeers q);
        if st = PeerWaiting then do {
          qp \<leftarrow> SetState p PeerQueried (queryPeers q);
          Some (q\<lparr>queryPeers := qp, peerTimes := (peerTimes q)(p \<mapsto> d)\<rparr>) }
        else None })"

definition mark_unreachable :: "peer_id \<Rightarrow> query \<Rightarrow> query option" where
  "mark_unreachable p q =
     (if p = self q then Some q
      else do {
        st \<leftarrow> GetState p (queryPeers q);
        if st = PeerWaiting then do {
          qp \<leftarrow> SetState p PeerUnreachable (queryPeers q);
          Some (q\<lparr>queryPeers := qp\<rparr>) }
        else None })"

definition updateState :: "queryUpdate \<Rightarrow> query \<Rightarrow> query option" where
  "updateState up q =
     (if terminated q then None
      else do {
        q \<leftarrow> fold_opt (mark_queried (queryDuration up)) (queried up) (fold (hear_of (cause up)) (heard up) q);
        fold_opt mark_unreachable (unreachable up) q })"

definition isStarvationTermination :: "query \<Rightarrow> bool \<times> query" where
  "isStarvationTermination q =
     (let (h, qp) = NumHeard (queryPeers q) in
      if h \<noteq> 0 then (False, q\<lparr>queryPeers := qp\<rparr>)
      else let (w, qp) = NumWaiting qp in (w = 0, q\<lparr>queryPeers := qp\<rparr>))"

fun all_queried :: "QueryPeerset \<Rightarrow> peer_id list \<Rightarrow> bool option" where
  "all_queried qp [] = Some True"
| "all_queried qp (p # ps) = do { st \<leftarrow> GetState p qp; if st \<noteq> PeerQueried then Some False else all_queried qp ps }"

definition isLookupTermination :: "query \<Rightarrow> (bool \<times> query) option" where
  "isLookupTermination q =
     (let (ps, qp) = GetClosestNInStates (beta q) [PeerHeard, PeerWaiting, PeerQueried] (queryPeers q) in
      do { b \<leftarrow> all_queried qp ps; Some (b, q\<lparr>queryPeers := qp\<rparr>) })"

text \<open>The loop that collects the peers to query next counts up to \<open>n\<close>.\<close>

fun collect_peers :: "int \<Rightarrow> int \<Rightarrow> peer_id list \<Rightarrow> peer_id list" where
  "collect_peers n c [] = []"
| "collect_peers n c (p # ps) = p # (if c + 1 = n then [] else collect_peers n (c + 1) ps)"

definition isReadyToTerminate :: "int \<Rightarrow> query \<Rightarrow> ((LookupTerminationReason option \<times> peer_id list) \<times> query) option" where
  "isReadyToTerminate n q =
     (if stopFn q (queryPeers q) then Some ((Some LookupStopped, []), q)
      else let (starved, q) = isStarvationTermination q in
        if starved then Some ((Some LookupStarvation, []), q)
        else do {
          (over, q) \<leftarrow> isLookupTermination q;
          if over then Some ((Some LookupCompleted, []), q)
          else let (ps, qp) = GetClosestInStates [PeerHeard] (queryPeers q) in
            Some ((None, collect_peers n 0 ps), q\<lparr>queryPeers := qp\<rparr>) })"

definition terminate :: "LookupTerminationReason \<Rightarrow> query \<Rightarrow> query" where
  "terminate r q = (if terminated q then q else q\<lparr>terminated := True, reason := Some r\<rparr>)"

definition spawnQuery :: "peer_id \<Rightarrow> query \<Rightarrow> query option" where
  "spawnQuery p q = do {
     _ \<leftarrow> GetReferrer p (queryPeers q);
     qp \<leftarrow> SetState p PeerWaiting (queryPeers q);
     Some (q\<lparr>queryPeers := qp, running := running q @ [p]\<rparr>) }"

text \<open>The part of a turn after the select, and the turn for an update or for the cancelled context.\<close>

definition after_select :: "query \<Rightarrow> query option" where
  "after_select q =
     (let (w, qp) = NumWaiting (queryPeers q) in do {
        ((r, ps), q) \<leftarrow> isReadyToTerminate (alpha q - int w) (q\<lparr>queryPeers := qp\<rparr>);
        let q = (case r of None \<Rightarrow> q | Some r \<Rightarrow> terminate r q);
        if terminated q then Some q else fold_opt spawnQuery ps q })"

definition run_update :: "queryUpdate \<Rightarrow> query \<Rightarrow> query option" where
  "run_update up q = do { q \<leftarrow> updateState up q; after_select q }"

definition run_cancelled :: "query \<Rightarrow> query option" where
  "run_cancelled q = after_select (terminate LookupCancelled q)"

text \<open>The query that \<^verbatim>\<open>runQuery\<close> makes, with the first update already in the channel.\<close>

definition newQuery :: "(string \<Rightarrow> peer_id \<Rightarrow> nat) \<Rightarrow> peer_id \<Rightarrow> int \<Rightarrow> nat \<Rightarrow> nat \<Rightarrow> (peer_id \<Rightarrow> bool) \<Rightarrow> (QueryPeerset \<Rightarrow> bool) \<Rightarrow> string \<Rightarrow> peer_id list \<Rightarrow> query" where
  "newQuery keyspace me a b k flt stop target seeds =
     \<lparr>self = me, q_key = target, alpha = a, beta = b, bucketSize = k, queryPeerFilter = flt, stopFn = stop, seedPeers = seeds, peerTimes = Map.empty,
      queryPeers = NewQueryPeerset keyspace target, terminated = False, reason = None,
      chan = [\<lparr>cause = me, queried = [], heard = seeds, unreachable = [], queryDuration = 0\<rparr>], running = []\<rparr>"

section \<open>The loop and its goroutines\<close>

text \<open>A step of the lookup: a goroutine sends its update, for which the channel must have room; the loop takes an update, or sees the context
  cancelled. \<open>ans p r\<close> says that peer \<open>p\<close> may answer \<open>r\<close>. The stop function is a closure that may read state from outside of the lookup,
  such as the values received so far, so it may be another function \<open>f\<close> at each turn. The lookup has returned when it is terminated and no goroutine is left.\<close>

inductive kad_step :: "(peer_id \<Rightarrow> reply \<Rightarrow> bool) \<Rightarrow> query \<Rightarrow> query \<Rightarrow> bool" for ans where
  send: "p \<in> set (running q) \<Longrightarrow> ans p r \<Longrightarrow> int (length (chan q)) < alpha q \<Longrightarrow>
    kad_step ans q (q\<lparr>running := remove1 p (running q), chan := chan q @ [queryPeer q p r d]\<rparr>)"
| take: "\<not> terminated q \<Longrightarrow> chan q = up # ups \<Longrightarrow> run_update up (q\<lparr>stopFn := f, chan := ups\<rparr>) = Some q' \<Longrightarrow> kad_step ans q q'"
| cancelled: "\<not> terminated q \<Longrightarrow> run_cancelled (q\<lparr>stopFn := f\<rparr>) = Some q' \<Longrightarrow> kad_step ans q q'"

section \<open>The result\<close>

record lookupWithFollowupResult =
  res_peers :: "peer_id list"
  res_state :: "PeerState list"
  res_closest :: "peer_id list"
  completed :: bool

fun get_states :: "QueryPeerset \<Rightarrow> peer_id list \<Rightarrow> (peer_id \<times> PeerState) list option" where
  "get_states qp [] = Some []"
| "get_states qp (p # ps) = do { st \<leftarrow> GetState p qp; rest \<leftarrow> get_states qp ps; Some ((p, st) # rest) }"

text \<open>\<open>sortc\<close> is the sort by distance of the external package \<^verbatim>\<open>go-libp2p-kbucket\<close>. A missing map entry is the zero state.\<close>

definition constructLookupResult :: "(peer_id list \<Rightarrow> peer_id list) \<Rightarrow> query \<Rightarrow> (lookupWithFollowupResult \<times> query) option" where
  "constructLookupResult sortc q = do {
     (looked, q) \<leftarrow> isLookupTermination q;
     let (ended, q) = (if looked then (True, q) else isStarvationTermination q);
     let (qps, qp) = GetClosestNInStates (bucketSize q) [PeerHeard, PeerWaiting, PeerQueried] (queryPeers q);
     peerState \<leftarrow> get_states qp qps;
     let sortedPeers = take (bucketSize q) (sortc qps);
     let (cl, qp) = GetClosestNInStates (bucketSize q) [PeerHeard, PeerWaiting, PeerQueried, PeerUnreachable] qp;
     Some (\<lparr>res_peers = sortedPeers,
            res_state = map (\<lambda>p. case map_of peerState p of None \<Rightarrow> PeerHeard | Some st \<Rightarrow> st) sortedPeers,
            res_closest = cl, completed = ended\<rparr>, q\<lparr>queryPeers := qp\<rparr>) }"

text \<open>The peers that the follow-up queries.\<close>

definition followup_peers :: "lookupWithFollowupResult \<Rightarrow> peer_id list" where
  "followup_peers res = map fst (filter (\<lambda>(p, st). st = PeerHeard \<or> st = PeerWaiting) (zip (res_peers res) (res_state res)))"

text \<open>The seed peers whose answer was fast: less than twice the fastest one, in 64-bit arithmetic.\<close>

definition mvpDuration :: "query \<Rightarrow> int" where
  "mvpDuration q = fold (\<lambda>p m. case peerTimes q p of Some t \<Rightarrow> if t < m then t else m | None \<Rightarrow> m) (seedPeers q) MaxInt64"

definition recordValuablePeers :: "query \<Rightarrow> peer_id list" where
  "recordValuablePeers q =
     filter (\<lambda>p. case peerTimes q p of Some t \<Rightarrow> t < wrap64 (mvpDuration q * 2) | None \<Rightarrow> False) (seedPeers q)"

end
