(* ===== verification/Kad_Lookup.thy ===== *)
theory Kad_Lookup
  imports Kad_Query
begin

text \<open>
  Correctness of a Kademlia lookup: it never panics, never has more than \<^verbatim>\<open>alpha\<close> queries outstanding, so that no goroutine blocks on the channel,
  and ends after a number of steps that is bounded by the number of peers the network knows; its result lists the closest peers.
\<close>

section \<open>Operations on the states\<close>

abbreviation st_of :: "query \<Rightarrow> peer_id \<rightharpoonup> PeerState" where
  "st_of q \<equiv> states (queryPeers q)"

lemma hear_fold:
  assumes "peerset_ok (queryPeers q)"
  shows "\<exists>qp. fold (hear_of c) ps q = q\<lparr>queryPeers := qp\<rparr> \<and> peerset_ok qp
    \<and> states qp = (\<lambda>p. if st_of q p = None \<and> p \<in> set ps \<and> p \<noteq> self q then Some PeerHeard else st_of q p)"
  using assms
proof (induction ps arbitrary: q)
  case Nil
  show ?case by (rule exI [of _ "queryPeers q"]) (use Nil in auto)
next
  case (Cons p ps)
  obtain qp where h: "hear_of c p q = q\<lparr>queryPeers := qp\<rparr>" "peerset_ok qp"
    "states qp = (if st_of q p = None \<and> p \<noteq> self q then (st_of q)(p \<mapsto> PeerHeard) else st_of q)"
  proof (cases "p = self q")
    case True
    then show ?thesis using that [of "queryPeers q"] Cons.prems by (simp add: hear_of_def)
  next
    case False
    then show ?thesis using that [of "snd (TryAdd p c (queryPeers q))"] Cons.prems by (simp add: hear_of_def TryAdd_ok TryAdd_states)
  qed
  obtain qp' where "fold (hear_of c) ps (q\<lparr>queryPeers := qp\<rparr>) = q\<lparr>queryPeers := qp\<rparr>\<lparr>queryPeers := qp'\<rparr>" "peerset_ok qp'"
    "states qp' = (\<lambda>x. if states qp x = None \<and> x \<in> set ps \<and> x \<noteq> self q then Some PeerHeard else states qp x)"
    using Cons.IH [of "q\<lparr>queryPeers := qp\<rparr>"] h(2) by (auto cong: if_cong)
  then show ?case using h by (intro exI [of _ qp']) (auto simp: fun_eq_iff)
qed

lemma mark_waiting:
  assumes "peerset_ok (queryPeers q)" "st_of q p = Some PeerWaiting" "p \<noteq> self q"
  shows "\<exists>qp. mark_queried d p q = Some (q\<lparr>queryPeers := qp, peerTimes := (peerTimes q)(p \<mapsto> d)\<rparr>) \<and> peerset_ok qp \<and> states qp = (st_of q)(p \<mapsto> PeerQueried)"
    "\<exists>qp. mark_unreachable p q = Some (q\<lparr>queryPeers := qp\<rparr>) \<and> peerset_ok qp \<and> states qp = (st_of q)(p \<mapsto> PeerUnreachable)"
  using assms SetState_states [OF assms(1), of p PeerQueried] SetState_states [OF assms(1), of p PeerUnreachable]
  by (auto simp: mark_queried_def mark_unreachable_def GetState_states)

text \<open>Updates name one peer that was queried or found unreachable, except the first one.\<close>

definition about :: "queryUpdate \<Rightarrow> peer_id list" where
  "about up = queried up @ unreachable up"

definition settled :: "query \<Rightarrow> peer_id set" where
  "settled q = {p. st_of q p = Some PeerQueried \<or> st_of q p = Some PeerUnreachable}"

definition waiting_peers :: "query \<Rightarrow> peer_id set" where
  "waiting_peers q = {p. st_of q p = Some PeerWaiting}"

lemma updateState_about:
  assumes ok: "peerset_ok (queryPeers q)" and t: "\<not> terminated q" and a: "about up = [p]" "st_of q p = Some PeerWaiting" "p \<noteq> self q"
  shows "\<exists>qp pt X. updateState up q = Some (q\<lparr>queryPeers := qp, peerTimes := pt\<rparr>) \<and> peerset_ok qp \<and> X \<in> {PeerQueried, PeerUnreachable}
    \<and> states qp = (\<lambda>x. if x = p then Some X else if st_of q x = None \<and> x \<in> set (heard up) \<and> x \<noteq> self q then Some PeerHeard else st_of q x)"
proof -
  obtain qp where h: "fold (hear_of (cause up)) (heard up) q = q\<lparr>queryPeers := qp\<rparr>" "peerset_ok qp"
    "states qp = (\<lambda>p. if st_of q p = None \<and> p \<in> set (heard up) \<and> p \<noteq> self q then Some PeerHeard else st_of q p)"
    using hear_fold [OF ok] by blast
  let ?q = "q\<lparr>queryPeers := qp\<rparr>"
  have w: "peerset_ok (queryPeers ?q)" "st_of ?q p = Some PeerWaiting" "p \<noteq> self ?q" using h(2,3) a(2,3) by simp_all
  consider "queried up = [p]" "unreachable up = []" | "queried up = []" "unreachable up = [p]"
    using a(1) by (auto simp: about_def append_eq_Cons_conv)
  then show ?thesis
  proof cases
    case 1
    obtain qp' where m: "mark_queried (queryDuration up) p ?q = Some (?q\<lparr>queryPeers := qp', peerTimes := (peerTimes ?q)(p \<mapsto> queryDuration up)\<rparr>)"
      "peerset_ok qp'" "states qp' = (st_of ?q)(p \<mapsto> PeerQueried)" using mark_waiting(1) [OF w, of "queryDuration up"] by blast
    show ?thesis using m h 1 t by (intro exI [of _ qp'] exI [of _ "(peerTimes q)(p \<mapsto> queryDuration up)"] exI [of _ PeerQueried])
        (auto simp: updateState_def fun_eq_iff)
  next
    case 2
    obtain qp' where m: "mark_unreachable p ?q = Some (?q\<lparr>queryPeers := qp'\<rparr>)" "peerset_ok qp'" "states qp' = (st_of ?q)(p \<mapsto> PeerUnreachable)"
      using mark_waiting(2) [OF w] by blast
    show ?thesis using m h 2 t by (intro exI [of _ qp'] exI [of _ "peerTimes q"] exI [of _ PeerUnreachable]) (auto simp: updateState_def fun_eq_iff)
  qed
qed

lemma updateState_first:
  assumes ok: "peerset_ok (queryPeers q)" and t: "\<not> terminated q" and a: "about up = []"
  shows "\<exists>qp. updateState up q = Some (q\<lparr>queryPeers := qp\<rparr>) \<and> peerset_ok qp
    \<and> states qp = (\<lambda>x. if st_of q x = None \<and> x \<in> set (heard up) \<and> x \<noteq> self q then Some PeerHeard else st_of q x)"
  using hear_fold [OF ok, of "cause up" "heard up"] t a by (auto simp: updateState_def about_def)

section \<open>After the select\<close>

definition looked :: "query \<Rightarrow> bool" where
  "looked q \<longleftrightarrow> list_all (\<lambda>p. st_of q p = Some PeerQueried) (take (beta q) (closest [PeerHeard, PeerWaiting, PeerQueried] (queryPeers q)))"

definition starved :: "query \<Rightarrow> bool" where
  "starved q \<longleftrightarrow> (\<forall>p. st_of q p \<noteq> Some PeerHeard \<and> st_of q p \<noteq> Some PeerWaiting)"

definition tidied :: "query \<Rightarrow> query" where
  "tidied q = q\<lparr>queryPeers := sort_peers (queryPeers q)\<rparr>"

lemma tidied_idem [simp]: "tidied (tidied q) = tidied q"
  by (simp add: tidied_def)

lemma tidied_fold: "q\<lparr>queryPeers := sort_peers (queryPeers q)\<rparr> = tidied q"
  by (simp add: tidied_def)

lemma all_queried_total: "\<forall>p \<in> set ps. states qp p \<noteq> None \<Longrightarrow> all_queried qp ps = Some (list_all (\<lambda>p. states qp p = Some PeerQueried) ps)"
  by (induction ps) (auto simp: GetState_states)

lemma closest_states: "peerset_ok qp \<Longrightarrow> p \<in> set (closest sts qp) \<Longrightarrow> \<exists>st \<in> set sts. states qp p = Some st"
  using closest_ranking [of qp sts] by (auto simp: ranking_def)

lemma isLookupTermination_looked:
  assumes "peerset_ok (queryPeers q)"
  shows "isLookupTermination q = Some (looked q, tidied q)"
proof -
  let ?ps = "take (beta q) (closest [PeerHeard, PeerWaiting, PeerQueried] (queryPeers q))"
  have "states (sort_peers (queryPeers q)) p \<noteq> None" if "p \<in> set ?ps" for p
    using closest_states [OF assms in_set_takeD [OF that]] unfolding sort_peers_ok(2) [OF assms] by auto
  then have "all_queried (sort_peers (queryPeers q)) ?ps = Some (list_all (\<lambda>p. st_of q p = Some PeerQueried) ?ps)"
    using all_queried_total [of ?ps "sort_peers (queryPeers q)"] unfolding sort_peers_ok(2) [OF assms] by blast
  then show ?thesis by (simp add: isLookupTermination_def GetClosestN_closest looked_def tidied_fold)
qed

lemma closest_empty:
  assumes "peerset_ok qp"
  shows "closest [s] qp = [] \<longleftrightarrow> (\<forall>p. states qp p \<noteq> Some s)"
proof -
  have "set (closest [s] qp) = {p. states qp p = Some s}" using closest_ranking [OF assms, of "[s]"] by (simp add: ranking_def)
  then have "closest [s] qp = [] \<longleftrightarrow> {p. states qp p = Some s} = {}" by (simp flip: set_empty)
  then show ?thesis by simp
qed

lemma isStarvation_starved:
  assumes "peerset_ok (queryPeers q)"
  shows "isStarvationTermination q = (starved q, tidied q)"
proof -
  have "starved q \<longleftrightarrow> closest [PeerHeard] (queryPeers q) = [] \<and> closest [PeerWaiting] (queryPeers q) = []"
    unfolding closest_empty [OF assms] starved_def by blast
  then show ?thesis by (simp add: isStarvationTermination_def Num_closest tidied_fold)
qed

lemma collect_peers_take: "c < n \<Longrightarrow> collect_peers n c ps = take (nat (n - c)) ps"
proof (induction ps arbitrary: c)
  case (Cons p ps)
  show ?case
  proof (cases "c + 1 = n")
    case True
    then have k: "nat (n - c) = Suc 0" by simp
    show ?thesis using True unfolding k by simp
  next
    case False
    then have "nat (n - c) = Suc (nat (n - (c + 1)))" using Cons.prems by simp
    then show ?thesis using False Cons.prems Cons.IH [of "c + 1"] by simp
  qed
qed simp

lemma isReady_cases:
  assumes ok: "peerset_ok (queryPeers q)" and s: "tidied q = q"
  shows "\<exists>r ps. isReadyToTerminate n q = Some ((r, ps), q)
    \<and> (r = None \<longrightarrow> ps = collect_peers n 0 (closest [PeerHeard] (queryPeers q)) \<and> \<not> starved q)
    \<and> (r = Some LookupCompleted \<longrightarrow> looked q) \<and> (r = Some LookupStarvation \<longrightarrow> starved q)"
  using isStarvation_starved [OF ok] isLookupTermination_looked [OF ok] s
  by (auto simp: isReadyToTerminate_def GetClosest_closest tidied_fold)

lemma spawn_fold:
  assumes "peerset_ok (queryPeers q)" "\<forall>p \<in> set ps. st_of q p \<noteq> None"
  shows "\<exists>qp. fold_opt spawnQuery ps q = Some (q\<lparr>queryPeers := qp, running := running q @ ps\<rparr>) \<and> peerset_ok qp
    \<and> states qp = (\<lambda>x. if x \<in> set ps then Some PeerWaiting else st_of q x)"
  using assms
proof (induction ps arbitrary: q)
  case Nil
  show ?case by (rule exI [of _ "queryPeers q"]) (use Nil in auto)
next
  case (Cons p ps)
  obtain qp where s: "SetState p PeerWaiting (queryPeers q) = Some qp" "states qp = (st_of q)(p \<mapsto> PeerWaiting)" "peerset_ok qp"
    using SetState_states [OF Cons.prems(1), of p PeerWaiting] Cons.prems(2) by auto
  let ?q = "q\<lparr>queryPeers := qp, running := running q @ [p]\<rparr>"
  have "\<forall>x \<in> set ps. st_of ?q x \<noteq> None" using Cons.prems(2) s(2) by auto
  then obtain qp' where "fold_opt spawnQuery ps ?q = Some (?q\<lparr>queryPeers := qp', running := running ?q @ ps\<rparr>)" "peerset_ok qp'"
    "states qp' = (\<lambda>x. if x \<in> set ps then Some PeerWaiting else st_of ?q x)" using Cons.IH [of ?q] s(3) by auto
  moreover obtain r where "GetReferrer p (queryPeers q) = Some r" using GetReferrer_states [of p "queryPeers q"] Cons.prems(2) by auto
  then have "spawnQuery p q = Some ?q" using s(1) by (simp add: spawnQuery_def)
  ultimately show ?case using s(2) by (intro exI [of _ qp']) (auto simp: fun_eq_iff)
qed

section \<open>The invariant\<close>

text \<open>The peers being queried: their goroutine runs, or its update is in the channel.\<close>

definition busy :: "query \<Rightarrow> peer_id list" where
  "busy q = running q @ concat (map about (chan q))"

definition kad_core :: "peer_id set \<Rightarrow> query \<Rightarrow> bool" where
  "kad_core U q \<longleftrightarrow> peerset_ok (queryPeers q) \<and> dom (st_of q) \<subseteq> U - {self q} \<and> waiting_peers q = set (busy q) \<and> distinct (busy q)
     \<and> (\<forall>up \<in> set (chan q). set (heard up) \<subseteq> U \<and> length (about up) = 1)"

definition kad_first :: "peer_id set \<Rightarrow> query \<Rightarrow> bool" where
  "kad_first U q \<longleftrightarrow> peerset_ok (queryPeers q) \<and> st_of q = Map.empty \<and> running q = [] \<and> (\<exists>up. chan q = [up] \<and> about up = [] \<and> set (heard up) \<subseteq> U)"

definition kad_ended :: "query \<Rightarrow> bool" where
  "kad_ended q \<longleftrightarrow> (terminated q \<longleftrightarrow> reason q \<noteq> None) \<and> (reason q = Some LookupCompleted \<longrightarrow> looked q) \<and> (reason q = Some LookupStarvation \<longrightarrow> starved q)"

definition kad_inv :: "peer_id set \<Rightarrow> int \<Rightarrow> query \<Rightarrow> bool" where
  "kad_inv U a q \<longleftrightarrow> alpha q = a \<and> 1 \<le> a \<and> kad_ended q
     \<and> (kad_first U q \<or> kad_core U q \<and> int (length (busy q)) \<le> a \<and> (\<not> terminated q \<longrightarrow> busy q \<noteq> []))"

lemma tidied_core:
  assumes "peerset_ok (queryPeers q)"
  shows "peerset_ok (queryPeers (tidied q))" "st_of (tidied q) = st_of q" "self (tidied q) = self q" "alpha (tidied q) = alpha q" "chan (tidied q) = chan q"
    "running (tidied q) = running q" "terminated (tidied q) = terminated q" "reason (tidied q) = reason q" "looked (tidied q) = looked q" "starved (tidied q) = starved q"
    "closest sts (queryPeers (tidied q)) = closest sts (queryPeers q)"
  using sort_peers_ok [OF assms] by (simp_all add: tidied_def looked_def starved_def)

lemma after_select_terminated:
  assumes ok: "peerset_ok (queryPeers q)" and t: "terminated q"
  shows "after_select q = Some (tidied q)"
proof -
  obtain r ps where "isReadyToTerminate (alpha q - int (length (closest [PeerWaiting] (queryPeers q)))) (tidied q) = Some ((r, ps), tidied q)"
    using isReady_cases [OF tidied_core(1) [OF ok] tidied_idem] by blast
  then show ?thesis using t by (auto simp: after_select_def Num_closest terminate_def tidied_fold tidied_core(7) [OF ok] split: option.split)
qed

lemma after_select_inv:
  assumes core: "kad_core U q" and t: "\<not> terminated q" "reason q = None" and room: "int (length (busy q)) < alpha q" and a: "alpha q = a"
  shows "\<exists>q'. after_select q = Some q' \<and> kad_inv U a q' \<and> settled q' = settled q \<and> chan q' = chan q"
proof -
  have ok: "peerset_ok (queryPeers q)" and W: "waiting_peers q = set (busy q)" "distinct (busy q)" using core by (auto simp: kad_core_def)
  note T = tidied_core [OF ok]
  let ?t = "tidied q" and ?n = "alpha q - int (length (busy q))"
  have "length (closest [PeerWaiting] (queryPeers q)) = length (busy q)"
    using closest_card [OF ok, of "[PeerWaiting]"] W by (simp add: waiting_peers_def distinct_card)
  then have as: "after_select q = (case isReadyToTerminate ?n ?t of None \<Rightarrow> None
      | Some ((r, ps), q) \<Rightarrow> (let q = (case r of None \<Rightarrow> q | Some r \<Rightarrow> terminate r q) in if terminated q then Some q else fold_opt spawnQuery ps q))"
    by (simp add: after_select_def Num_closest case_prod_unfold tidied_fold split: option.split)
  obtain r ps where r: "isReadyToTerminate ?n ?t = Some ((r, ps), ?t)"
    "r = None \<longrightarrow> ps = collect_peers ?n 0 (closest [PeerHeard] (queryPeers ?t)) \<and> \<not> starved ?t"
    "r = Some LookupCompleted \<longrightarrow> looked ?t" "r = Some LookupStarvation \<longrightarrow> starved ?t"
    using isReady_cases [OF T(1), of ?n] by auto
  have "1 \<le> a" using room a by simp
  show ?thesis
  proof (cases r)
    case (Some x)
    let ?e = "?t\<lparr>terminated := True, reason := Some x\<rparr>"
    have "kad_core U ?e" using core T(1-6) by (simp add: kad_core_def waiting_peers_def busy_def)
    moreover have "kad_ended ?e" using r(3,4) Some by (simp add: kad_ended_def looked_def starved_def)
    moreover have "length (busy ?e) = length (busy q)" "settled ?e = settled q" using T(2,5,6) by (simp_all add: busy_def settled_def)
    ultimately have "kad_inv U a ?e" using room a T(4) \<open>1 \<le> a\<close> by (simp add: kad_inv_def)
    then show ?thesis using as r(1) Some t(1) T(5,7) \<open>settled ?e = settled q\<close> by (simp add: terminate_def)
  next
    case None
    let ?c = "closest [PeerHeard] (queryPeers q)"
    have ps: "ps = take (nat ?n) ?c" using r(2) None room T(11) by (simp add: collect_peers_take)
    have c: "distinct ?c" "set ?c = {p. st_of q p = Some PeerHeard}" using closest_ranking [OF ok, of "[PeerHeard]"] by (auto simp: ranking_def)
    have h: "set ps \<subseteq> {p. st_of q p = Some PeerHeard}" "distinct ps" using c set_take_subset [of "nat ?n" ?c] ps by auto
    then have "\<forall>p \<in> set ps. st_of ?t p \<noteq> None" using T(2) by auto
    from spawn_fold [OF T(1) this] obtain qp where s: "fold_opt spawnQuery ps ?t = Some (?t\<lparr>queryPeers := qp, running := running ?t @ ps\<rparr>)" "peerset_ok qp"
      "states qp = (\<lambda>x. if x \<in> set ps then Some PeerWaiting else st_of q x)" unfolding T(2) by blast
    let ?e = "?t\<lparr>queryPeers := qp, running := running ?t @ ps\<rparr>"
    have b: "set (busy ?e) = set (busy q) \<union> set ps" "length (busy ?e) = length (busy q) + length ps" using T(5,6) by (auto simp: busy_def)
    have "p \<notin> set ps" if "p \<in> set (busy q)" for p
    proof -
      have "st_of q p = Some PeerWaiting" using that unfolding W(1) [symmetric] waiting_peers_def by simp
      then show ?thesis using h(1) by auto
    qed
    then have "set (busy q) \<inter> set ps = {}" by blast
    then have d: "distinct (busy ?e)" using W(2) h(2) T(5,6) by (auto simp: busy_def)
    have "waiting_peers ?e = set (busy ?e)" using W(1) s(3) b(1) by (auto simp: waiting_peers_def)
    moreover have "set ps \<subseteq> dom (st_of q)" using h(1) by auto
    then have "dom (st_of ?e) \<subseteq> dom (st_of q)" using s(3) by (auto split: if_splits)
    then have "dom (st_of ?e) \<subseteq> U - {self ?e}" using core T(3) by (auto simp: kad_core_def)
    ultimately have core': "kad_core U ?e" using core s(2) d T(5) by (simp add: kad_core_def)
    have "busy ?e \<noteq> []"
    proof (cases "busy q = []")
      case True
      then have "\<exists>p. st_of q p = Some PeerHeard" using r(2) None W(1) T(10) by (auto simp: starved_def waiting_peers_def)
      then have "?c \<noteq> []" using c(2) by auto
      then have "ps \<noteq> []" using ps room by simp
      then show ?thesis using T(5,6) by (simp add: busy_def)
    qed (use b(2) in auto)
    moreover have "length ps \<le> nat ?n" using ps by simp
    then have "int (length (busy ?e)) \<le> a" using b(2) room a by simp
    moreover have "kad_ended ?e" using t T(7,8) by (simp add: kad_ended_def)
    ultimately have "kad_inv U a ?e" using core' a T(4) \<open>1 \<le> a\<close> by (simp add: kad_inv_def)
    moreover have "settled ?e = settled q" using s(3) h(1) by (auto simp: settled_def)
    ultimately show ?thesis using as r(1) None t(1) T(5,7) s(1) by simp
  qed
qed

section \<open>Steps\<close>

lemma take_core:
  assumes core: "kad_core U q" and i: "\<not> terminated q" "reason q = None" "int (length (busy q)) \<le> a" "alpha q = a" and c: "chan q = up # ups"
  shows "\<exists>p q'. about up = [p] \<and> p \<in> U - settled q \<and> run_update up (q\<lparr>chan := ups\<rparr>) = Some q' \<and> kad_inv U a q' \<and> settled q' = insert p (settled q) \<and> chan q' = ups"
proof -
  let ?q = "q\<lparr>chan := ups\<rparr>"
  have "length (about up) = 1" using core c by (simp add: kad_core_def)
  then obtain p where p: "about up = [p]" by (metis One_nat_def length_0_conv length_Suc_conv)
  have W: "waiting_peers q = set (busy q)" "distinct (busy q)" "dom (st_of q) \<subseteq> U - {self q}" "peerset_ok (queryPeers q)" "set (heard up) \<subseteq> U"
    using core c by (auto simp: kad_core_def)
  have b: "p \<in> set (busy q)" "set (busy ?q) = set (busy q) - {p}" "distinct (busy ?q)" "length (busy q) = Suc (length (busy ?q))"
    using W(2) p c by (auto simp: busy_def)
  then have w: "st_of q p = Some PeerWaiting" using W(1) by (auto simp: waiting_peers_def)
  then have pU: "p \<in> U" "p \<noteq> self q" using W(3) by auto
  obtain qp pt X where u: "updateState up ?q = Some (?q\<lparr>queryPeers := qp, peerTimes := pt\<rparr>)" "peerset_ok qp" "X \<in> {PeerQueried, PeerUnreachable}"
    "states qp = (\<lambda>x. if x = p then Some X else if st_of q x = None \<and> x \<in> set (heard up) \<and> x \<noteq> self q then Some PeerHeard else st_of q x)"
    using updateState_about [of ?q up p] p W(4) i(1) w pU(2) by (auto cong: if_cong)
  let ?r = "?q\<lparr>queryPeers := qp, peerTimes := pt\<rparr>"
  have br: "busy ?r = busy ?q" by (simp add: busy_def)
  have "waiting_peers ?r = waiting_peers q - {p}" using u(3,4) by (auto simp: waiting_peers_def split: if_splits)
  moreover have "dom (st_of ?r) \<subseteq> insert p (dom (st_of q) \<union> (set (heard up) - {self q}))" using u(4) by (auto split: if_splits)
  then have "dom (st_of ?r) \<subseteq> U - {self ?r}" using W(3,5) pU by (simp add: subset_iff) blast
  ultimately have "kad_core U ?r" using core c W(1) b br u(2) by (simp add: kad_core_def)
  from after_select_inv [OF this] obtain q' where q': "after_select ?r = Some q'" "kad_inv U a q'" "settled q' = settled ?r" "chan q' = ups"
    using i b(4) br by auto
  have "settled ?r = insert p (settled q)" using u(3,4) w by (auto simp: settled_def split: if_splits)
  moreover have "p \<notin> settled q" using w by (simp add: settled_def)
  ultimately show ?thesis using p pU(1) q' u(1) by (auto simp: run_update_def)
qed

lemma take_first:
  assumes f: "kad_first U q" and i: "\<not> terminated q" "reason q = None" "1 \<le> a" "alpha q = a"
  shows "\<exists>up q'. chan q = [up] \<and> about up = [] \<and> run_update up (q\<lparr>chan := []\<rparr>) = Some q' \<and> kad_inv U a q' \<and> settled q' = settled q \<and> chan q' = []"
proof -
  obtain up where up: "chan q = [up]" "about up = []" "set (heard up) \<subseteq> U" "running q = []" "st_of q = Map.empty" "peerset_ok (queryPeers q)"
    using f by (auto simp: kad_first_def)
  let ?q = "q\<lparr>chan := []\<rparr>"
  obtain qp where u: "updateState up ?q = Some (?q\<lparr>queryPeers := qp\<rparr>)" "peerset_ok qp"
    "states qp = (\<lambda>x. if x \<in> set (heard up) \<and> x \<noteq> self q then Some PeerHeard else None)"
    using updateState_first [of ?q up] up i(1) by (auto cong: if_cong)
  let ?r = "?q\<lparr>queryPeers := qp\<rparr>"
  have "kad_core U ?r" using u(2,3) up(3,4) by (auto simp: kad_core_def busy_def waiting_peers_def split: if_splits)
  from after_select_inv [OF this] obtain q' where "after_select ?r = Some q'" "kad_inv U a q'" "settled q' = settled ?r" "chan q' = []"
    using i up(4) by (auto simp: busy_def)
  moreover have "settled ?r = settled q" using u(3) up(5) by (auto simp: settled_def split: if_splits)
  ultimately show ?thesis using up u(1) by (auto simp: run_update_def)
qed

lemma queryPeer_about: "about (queryPeer q p r d) = [p]" "set (heard (queryPeer q p r d)) \<subseteq> (case r of Closer ps \<Rightarrow> set ps | _ \<Rightarrow> {})"
  by (auto simp: queryPeer_def about_def unreachable_update_def split: reply.splits)

lemma send_inv:
  assumes "kad_inv U a q" "p \<in> set (running q)" "case r of Closer ps \<Rightarrow> set ps \<subseteq> U | _ \<Rightarrow> True"
  shows "kad_inv U a (q\<lparr>running := remove1 p (running q), chan := chan q @ [queryPeer q p r d]\<rparr>)" (is "kad_inv U a ?q")
proof -
  have core: "kad_core U q" "int (length (busy q)) \<le> a" and i: "alpha q = a" "1 \<le> a" "kad_ended q"
    using assms(1,2) by (auto simp: kad_inv_def kad_first_def)
  have m: "mset (busy ?q) = mset (busy q)" using assms(2) by (simp add: busy_def queryPeer_about)
  have s: "set (busy ?q) = set (busy q)" "distinct (busy ?q) = distinct (busy q)" "length (busy ?q) = length (busy q)"
    using mset_eq_setD [OF m] mset_eq_imp_distinct_iff [OF m] mset_eq_length [OF m] by auto
  have "set (heard (queryPeer q p r d)) \<subseteq> U" using queryPeer_about(2) [of q p r d] assms(3) by (auto split: reply.splits)
  then have "kad_core U ?q" using core(1) s by (auto simp: kad_core_def waiting_peers_def queryPeer_about)
  moreover have "busy ?q \<noteq> []" by (simp add: busy_def queryPeer_about)
  ultimately show ?thesis using i core(2) s(3) by (simp add: kad_inv_def kad_ended_def looked_def starved_def)
qed

lemma cancelled_inv:
  assumes "kad_inv U a q" "\<not> terminated q"
  shows "\<exists>q'. run_cancelled q = Some q' \<and> kad_inv U a q' \<and> settled q' = settled q \<and> chan q' = chan q \<and> terminated q'"
proof -
  let ?t = "q\<lparr>terminated := True, reason := Some LookupCancelled\<rparr>"
  have ok: "peerset_ok (queryPeers ?t)" using assms(1) by (auto simp: kad_inv_def kad_first_def kad_core_def)
  note T = tidied_core [OF ok]
  have r: "run_cancelled q = Some (tidied ?t)" using after_select_terminated [OF ok] assms(2) by (simp add: run_cancelled_def terminate_def)
  have "busy (tidied ?t) = busy q" "waiting_peers (tidied ?t) = waiting_peers q" "settled (tidied ?t) = settled q" using T
    by (simp_all add: busy_def waiting_peers_def settled_def)
  then have "kad_inv U a (tidied ?t)" using assms(1) T by (auto simp: kad_inv_def kad_first_def kad_core_def kad_ended_def)
  then show ?thesis using r T \<open>settled (tidied ?t) = settled q\<close> by auto
qed

section \<open>The number of steps\<close>

definition credits :: "peer_id set \<Rightarrow> query \<Rightarrow> int" where
  "credits U q = 2 * int (card (U - settled q)) - int (length (concat (map about (chan q)))) + (if list_ex (\<lambda>up. about up = []) (chan q) then 1 else 0)
     + (if terminated q then 0 else 1)"

lemma credits_nonneg:
  assumes "kad_inv U a q" "finite U"
  shows "0 \<le> credits U q"
proof -
  consider "kad_first U q" | "kad_core U q" using assms(1) by (auto simp: kad_inv_def)
  then have "length (concat (map about (chan q))) \<le> card (U - settled q)"
  proof cases
    case 2
    let ?xs = "concat (map about (chan q))"
    have "set ?xs \<subseteq> waiting_peers q" "distinct ?xs" "waiting_peers q \<subseteq> U" using 2 by (auto simp: kad_core_def busy_def waiting_peers_def)
    then have "set ?xs \<subseteq> U - settled q" by (auto simp: waiting_peers_def settled_def)
    from card_mono [OF _ this] show ?thesis using assms(2) distinct_card [OF \<open>distinct ?xs\<close>] by simp
  qed (auto simp: kad_first_def)
  then show ?thesis by (simp add: credits_def)
qed

lemma kad_stop [simp]:
  "busy (q\<lparr>stopFn := f\<rparr>) = busy q" "looked (q\<lparr>stopFn := f\<rparr>) = looked q" "starved (q\<lparr>stopFn := f\<rparr>) = starved q"
  "settled (q\<lparr>stopFn := f\<rparr>) = settled q" "kad_first U (q\<lparr>stopFn := f\<rparr>) = kad_first U q" "kad_core U (q\<lparr>stopFn := f\<rparr>) = kad_core U q"
  "kad_inv U a (q\<lparr>stopFn := f\<rparr>) = kad_inv U a q"
  by (simp_all add: busy_def looked_def starved_def settled_def kad_inv_def kad_ended_def kad_first_def kad_core_def waiting_peers_def)

lemma kad_step_inv:
  assumes "kad_step ans q q'" "kad_inv U a q" "finite U" "\<And>p ps. ans p (Closer ps) \<Longrightarrow> set ps \<subseteq> U"
  shows "kad_inv U a q' \<and> credits U q' < credits U q"
  using assms(1)
proof cases
  case (send p r d)
  have "case r of Closer ps \<Rightarrow> set ps \<subseteq> U | _ \<Rightarrow> True" using assms(4) send(3) by (auto split: reply.split)
  from send_inv [OF assms(2) send(2) this] show ?thesis unfolding send(1)
    by (simp add: credits_def settled_def queryPeer_about)
next
  case (take up ups f)
  let ?q = "q\<lparr>stopFn := f\<rparr>"
  have run: "run_update up (?q\<lparr>chan := ups\<rparr>) = Some q'" using take(3) by simp
  have e: "reason q = None" using assms(2) take(1) by (auto simp: kad_inv_def kad_ended_def)
  show ?thesis
  proof (cases "kad_first U q")
    case True
    obtain up' where "chan q = [up']" "about up' = []" "kad_inv U a q'" "settled q' = settled q" "chan q' = []"
      using take_first [of U ?q a] True take(1) e assms(2) take(2) run by (auto simp: kad_inv_def)
    then show ?thesis using take(1) by (simp add: credits_def)
  next
    case False
    then have core: "kad_core U q" "int (length (busy q)) \<le> a" "alpha q = a" using assms(2) by (auto simp: kad_inv_def)
    obtain p where p: "about up = [p]" "p \<in> U - settled q" "kad_inv U a q'" "settled q' = insert p (settled q)" "chan q' = ups"
      using take_core [of U ?q a up ups] core take(1,2) e run by auto
    have "U - settled q = insert p (U - settled q')" "p \<notin> U - settled q'" using p(2,4) by auto
    then have "card (U - settled q) = Suc (card (U - settled q'))" using assms(3) by simp
    moreover have "\<not> list_ex (\<lambda>up. about up = []) ups" using core(1) take(2) by (auto simp: kad_core_def list_ex_iff)
    ultimately show ?thesis using p take(1,2) by (simp add: credits_def)
  qed
next
  case (cancelled f)
  have "kad_inv U a (q\<lparr>stopFn := f\<rparr>)" "\<not> terminated (q\<lparr>stopFn := f\<rparr>)" using assms(2) cancelled(1) by simp_all
  from cancelled_inv [OF this] show ?thesis using cancelled by (auto simp: credits_def)
qed

lemma kad_run_inv:
  assumes "(kad_step ans ^^ n) q q'" "kad_inv U a q" "finite U" "\<And>p ps. ans p (Closer ps) \<Longrightarrow> set ps \<subseteq> U"
  shows "kad_inv U a q' \<and> int n + credits U q' \<le> credits U q"
  using assms(1)
proof (induction n arbitrary: q')
  case 0
  then show ?case using assms(2) by simp
next
  case (Suc n)
  then obtain x where x: "(kad_step ans ^^ n) q x" "kad_step ans x q'" by auto
  have "kad_inv U a x" "int n + credits U x \<le> credits U q" using Suc.IH [OF x(1)] by auto
  then show ?case using kad_step_inv [OF x(2) _ assms(3,4)] by fastforce
qed

lemma newQuery_inv:
  assumes "1 \<le> a" "set seeds \<subseteq> U"
  shows "kad_inv U a (newQuery ks me a b k flt stop target seeds)" "credits U (newQuery ks me a b k flt stop target seeds) = 2 * int (card U) + 2"
  using assms New_ok by (simp_all add: kad_inv_def kad_first_def kad_ended_def newQuery_def about_def credits_def settled_def)

section \<open>The result\<close>

lemma get_states_total: "\<forall>p \<in> set ps. states qp p \<noteq> None \<Longrightarrow> get_states qp ps = Some (map (\<lambda>p. (p, the (states qp p))) ps)"
  by (induction ps) (auto simp: GetState_states)

lemma map_of_graph: "p \<in> set ps \<Longrightarrow> map_of (map (\<lambda>p. (p, f p)) ps) p = Some (f p)"
  by (induction ps) auto

lemma constructLookupResult_closest:
  assumes ok: "peerset_ok (queryPeers q)" and perm: "\<And>xs. mset (sortc xs) = mset xs"
  defines "reach \<equiv> closest [PeerHeard, PeerWaiting, PeerQueried] (queryPeers q)"
  shows "\<exists>res q'. constructLookupResult sortc q = Some (res, q') \<and> mset (res_peers res) = mset (take (bucketSize q) reach)
    \<and> res_closest res = take (bucketSize q) (closest [PeerHeard, PeerWaiting, PeerQueried, PeerUnreachable] (queryPeers q))
    \<and> map Some (res_state res) = map (st_of q) (res_peers res) \<and> completed res = (looked q \<or> starved q)"
proof -
  let ?qps = "take (bucketSize q) reach" and ?qp = "sort_peers (queryPeers q)"
  note T = tidied_core [OF ok] and S = sort_peers_ok(2) [OF ok]
  have b: "bucketSize (tidied q) = bucketSize q" "queryPeers (tidied q) = ?qp" by (simp_all add: tidied_def)
  have m: "mset (sortc ?qps) = mset ?qps" by (rule perm)
  then have len: "length (sortc ?qps) \<le> bucketSize q" using mset_eq_length [OF m] by simp
  have known: "st_of q p \<noteq> None" if "p \<in> set ?qps" for p
    using closest_states [OF ok, of p "[PeerHeard, PeerWaiting, PeerQueried]"] in_set_takeD [OF that] unfolding reach_def by auto
  then have g: "get_states ?qp ?qps = Some (map (\<lambda>p. (p, the (st_of q p))) ?qps)" using get_states_total [of ?qps ?qp] unfolding S by blast
  let ?st = "\<lambda>p. case map_of (map (\<lambda>p. (p, the (st_of q p))) ?qps) p of None \<Rightarrow> PeerHeard | Some st \<Rightarrow> st"
  have st: "Some (?st p) = st_of q p" if "p \<in> set (sortc ?qps)" for p
  proof -
    have p: "p \<in> set ?qps" using that mset_eq_setD [OF m] by simp
    obtain x where "st_of q p = Some x" using known [OF p] by blast
    then show ?thesis using map_of_graph [OF p, of "\<lambda>p. the (st_of q p)"] by simp
  qed
  have "constructLookupResult sortc q = Some (\<lparr>res_peers = sortc ?qps, res_state = map ?st (sortc ?qps),
      res_closest = take (bucketSize q) (closest [PeerHeard, PeerWaiting, PeerQueried, PeerUnreachable] (queryPeers q)), completed = looked q \<or> starved q\<rparr>, tidied q)"
    using isLookupTermination_looked [OF ok] isStarvation_starved [OF T(1)] T(10) g len
    by (simp add: constructLookupResult_def b GetClosestN_closest reach_def [symmetric] tidied_def Let_def)
  moreover have "map Some (map ?st (sortc ?qps)) = map (st_of q) (sortc ?qps)" unfolding list.map_comp comp_def by (rule map_cong [OF refl st])
  ultimately show ?thesis using m by (simp only: option.inject prod.inject) auto
qed

section \<open>The configuration\<close>

definition config :: "query \<Rightarrow> peer_id \<times> string \<times> int \<times> nat \<times> nat \<times> (peer_id \<Rightarrow> bool)" where
  "config q = (self q, q_key q, alpha q, beta q, bucketSize q, queryPeerFilter q)"

lemma config_hear: "config (fold (hear_of c) ps q) = config q"
  by (induction ps arbitrary: q) (auto simp: hear_of_def config_def)

lemma config_fold_opt:
  assumes "\<And>x q q'. f x q = Some q' \<Longrightarrow> config q' = config q"
  shows "fold_opt f xs q = Some q' \<Longrightarrow> config q' = config q"
proof (induction xs arbitrary: q)
  case (Cons x xs)
  then obtain q1 where "f x q = Some q1" "fold_opt f xs q1 = Some q'" by (auto simp: bind_eq_Some_conv)
  then show ?case using Cons.IH assms by metis
qed simp

lemma config_updateState:
  assumes "updateState up q = Some q'"
  shows "config q' = config q"
proof -
  let ?q = "fold (hear_of (cause up)) (heard up) q"
  obtain q1 where q1: "fold_opt (mark_queried (queryDuration up)) (queried up) ?q = Some q1" "fold_opt mark_unreachable (unreachable up) q1 = Some q'"
    using assms by (auto simp: updateState_def bind_eq_Some_conv split: if_splits)
  have "config q1 = config ?q"
    by (rule config_fold_opt [OF _ q1(1)]) (auto simp: mark_queried_def config_def bind_eq_Some_conv split: if_splits)
  moreover have "config q' = config q1"
    by (rule config_fold_opt [OF _ q1(2)]) (auto simp: mark_unreachable_def config_def bind_eq_Some_conv split: if_splits)
  ultimately show ?thesis by (simp add: config_hear)
qed

lemma config_queryPeers [simp]: "config (q\<lparr>queryPeers := qp\<rparr>) = config q"
  by (simp add: config_def)

lemma config_isReady:
  assumes "isReadyToTerminate n q = Some (x, q')"
  shows "config q' = config q"
proof -
  obtain b q1 where s: "isStarvationTermination q = (b, q1)" by fastforce
  then have c1: "config q1 = config q" by (auto simp: isStarvationTermination_def Let_def split_beta split: if_splits)
  have l: "config q2 = config q1" if "isLookupTermination q1 = Some (o2, q2)" for o2 q2
    using that by (auto simp: isLookupTermination_def Let_def split_beta bind_eq_Some_conv)
  show ?thesis
    using assms s c1 l by (auto simp: isReadyToTerminate_def Let_def split_beta bind_eq_Some_conv split: if_splits)
qed

lemma config_after_select:
  assumes "after_select q = Some q'"
  shows "config q' = config q"
proof -
  obtain w qp where w: "NumWaiting (queryPeers q) = (w, qp)" by fastforce
  obtain r ps q1 where r: "isReadyToTerminate (alpha q - int w) (q\<lparr>queryPeers := qp\<rparr>) = Some ((r, ps), q1)"
    using assms w by (auto simp: after_select_def bind_eq_Some_conv)
  define q2 where "q2 = (case r of None \<Rightarrow> q1 | Some r \<Rightarrow> terminate r q1)"
  have "config q2 = config q" using config_isReady [OF r] by (simp add: q2_def terminate_def config_def split: option.split)
  moreover have "q' = q2 \<or> fold_opt spawnQuery ps q2 = Some q'"
    using assms w r by (auto simp: after_select_def q2_def Let_def split: if_splits)
  moreover have "config q' = config q2" if "fold_opt spawnQuery ps q2 = Some q'"
    by (rule config_fold_opt [OF _ that]) (auto simp: spawnQuery_def config_def bind_eq_Some_conv)
  ultimately show ?thesis by auto
qed

lemma config_step: "kad_step ans q q' \<Longrightarrow> config q' = config q"
proof (induction rule: kad_step.induct)
  case (take q up ups f q')
  then obtain q1 where "updateState up (q\<lparr>stopFn := f, chan := ups\<rparr>) = Some q1" "after_select q1 = Some q'"
    by (auto simp: run_update_def bind_eq_Some_conv)
  then have "config q' = config (q\<lparr>stopFn := f, chan := ups\<rparr>)" using config_updateState config_after_select by metis
  then show ?case by (simp add: config_def)
next
  case (cancelled q f q')
  then show ?case using config_after_select [of _ q'] by (simp add: run_cancelled_def terminate_def) (simp add: config_def)
qed (simp add: config_def)

lemma config_run: "(kad_step ans ^^ n) q q' \<Longrightarrow> config q' = config q"
  by (induction n arbitrary: q') (auto dest: config_step)

section \<open>A concrete lookup\<close>

lemmas ex_run = newQuery_def NewQueryPeerset_def run_update_def updateState_def after_select_def hear_of_def TryAdd_def NumWaiting_def NumHeard_def
  GetClosestInStates_def GetClosestNInStates_def sort_peers_def isReadyToTerminate_def isStarvationTermination_def isLookupTermination_def
  GetState_def GetReferrer_def SetState_def spawnQuery_def terminate_def

definition ex_q0 :: query where
  "ex_q0 = newQuery (\<lambda>_ p. length p) ''me'' 3 2 20 (\<lambda>_. True) (\<lambda>_. False) ''key'' [''a'']"

definition ex_q1 :: query where
  "ex_q1 = the (run_update (hd (chan ex_q0)) (ex_q0\<lparr>stopFn := \<lambda>_. False, chan := []\<rparr>))"

definition ex_q2 :: query where
  "ex_q2 = ex_q1\<lparr>running := [], chan := [queryPeer ex_q1 ''a'' (Closer []) 5]\<rparr>"

definition ex_q3 :: query where
  "ex_q3 = the (run_update (hd (chan ex_q2)) (ex_q2\<lparr>stopFn := \<lambda>_. False, chan := []\<rparr>))"

text \<open>The only peer is asked, names nobody, and the lookup ends for want of peers.\<close>

lemma ex_lookup:
  "run_update (hd (chan ex_q0)) (ex_q0\<lparr>stopFn := \<lambda>_. False, chan := []\<rparr>) = Some ex_q1" "running ex_q1 = [''a'']" "chan ex_q1 = []"
  "alpha ex_q1 = 3" "\<not> terminated ex_q1"
  "run_update (hd (chan ex_q2)) (ex_q2\<lparr>stopFn := \<lambda>_. False, chan := []\<rparr>) = Some ex_q3" "reason ex_q3 = Some LookupStarvation"
  "st_of ex_q3 = [''a'' \<mapsto> PeerQueried]"
  by (simp_all add: ex_q3_def ex_q2_def ex_q1_def ex_q0_def ex_run mark_queried_def queryPeer_def states_def)

section \<open>The properties\<close>

text \<open>
  C4. A Kademlia lookup terminates. Let the network know finitely many peers, the set \<open>U\<close>. Whatever the peers answer, in whatever order, and wherever
  the context is cancelled, a lookup makes at most \<open>2 * card U + 2\<close> steps (an update sent or an update taken). At any moment at most \<^verbatim>\<open>alpha\<close> queries
  run, and a goroutine that has an answer finds room in the channel, so none is left blocked when the lookup waits for them. While the lookup
  is not terminated, an update is ready or a query is running. Taking an update never panics: every answer is about a peer that is being
  queried.\<close>

theorem lookup_terminates:
  assumes "1 \<le> a" "finite U" "set seeds \<subseteq> U" "\<And>p ps. ans p (Closer ps) \<Longrightarrow> set ps \<subseteq> U"
    and "(kad_step ans ^^ n) (newQuery ks me a b k flt stop target seeds) q"
  shows "n \<le> 2 * card U + 2 \<and> int (length (running q)) \<le> a \<and> (running q \<noteq> [] \<longrightarrow> int (length (chan q)) < a)
    \<and> (\<not> terminated q \<longrightarrow> chan q \<noteq> [] \<or> running q \<noteq> [])
    \<and> (\<forall>up ups f. \<not> terminated q \<longrightarrow> chan q = up # ups \<longrightarrow> run_update up (q\<lparr>stopFn := f, chan := ups\<rparr>) \<noteq> None)"
proof -
  have i: "kad_inv U a q" "int n + credits U q \<le> 2 * int (card U) + 2"
    using kad_run_inv [OF assms(5) newQuery_inv(1) [OF assms(1,3)] assms(2,4)] newQuery_inv(2) [OF assms(1,3)] by simp_all
  have n: "n \<le> 2 * card U + 2" using i(2) credits_nonneg [OF i(1) assms(2)] by simp
  have e: "\<not> terminated q \<Longrightarrow> reason q = None" using i(1) by (auto simp: kad_inv_def kad_ended_def)
  show ?thesis
  proof (cases "kad_first U q")
    case True
    then have "running q = []" "chan q \<noteq> []" by (auto simp: kad_first_def)
    moreover have "run_update up (q\<lparr>stopFn := f, chan := ups\<rparr>) \<noteq> None" if "\<not> terminated q" "chan q = up # ups" for up ups f
      using take_first [of U "q\<lparr>stopFn := f\<rparr>" a] True that e [OF that(1)] i(1) by (auto simp: kad_inv_def)
    ultimately show ?thesis using n assms(1) by simp
  next
    case False
    then have c: "kad_core U q" "int (length (busy q)) \<le> a" "\<not> terminated q \<longrightarrow> busy q \<noteq> []" "alpha q = a" using i(1) by (auto simp: kad_inv_def)
    have "length (concat (map about xs)) = length xs" if "\<forall>up \<in> set xs. length (about up) = 1" for xs using that by (induction xs) auto
    then have b: "length (busy q) = length (running q) + length (chan q)" using c(1) by (simp add: busy_def kad_core_def)
    have "int (length (running q)) \<le> a" using b c(2) by simp
    moreover have "int (length (chan q)) < a" if "running q \<noteq> []" using b c(2) that by (cases "running q") simp_all
    moreover have "chan q \<noteq> [] \<or> running q \<noteq> []" if "\<not> terminated q" using c(3) that by (auto simp: busy_def)
    moreover have "run_update up (q\<lparr>stopFn := f, chan := ups\<rparr>) \<noteq> None" if "\<not> terminated q" "chan q = up # ups" for up ups f
      using take_core [of U "q\<lparr>stopFn := f\<rparr>" a up ups] c that e [OF that(1)] by auto
    ultimately show ?thesis using n by blast
  qed
qed

theorem lookup_terminates_witness:
  "\<exists>q. (kad_step (\<lambda>_ r. r = Closer [''b'']) ^^ 1) (newQuery (\<lambda>_ p. length p) ''me'' 3 2 20 (\<lambda>_. True) (\<lambda>_. False) ''key'' [''a'']) q
     \<and> running q = [''a''] \<and> length (chan q) < 3"
proof -
  let ?q0 = "newQuery (\<lambda>_ p. length p) ''me'' 3 2 20 (\<lambda>_. True) (\<lambda>_. False) ''key'' [''a'']"
  obtain q where q: "run_update (hd (chan ?q0)) (?q0\<lparr>chan := []\<rparr>) = Some q" "running q = [''a'']"
    by (simp add: ex_run)
  have "kad_step (\<lambda>_ r. r = Closer [''b'']) ?q0 q" using q(1) by (intro kad_step.take [of _ "hd (chan ?q0)" "[]" "\<lambda>_. False"]) (simp_all add: newQuery_def)
  then have "(kad_step (\<lambda>_ r. r = Closer [''b'']) ^^ 1) ?q0 q" by (simp add: eq_OO)
  moreover have "int (length (chan q)) < 3" using lookup_terminates [of 3 "{''a'', ''b''}" "[''a'']" "\<lambda>_ r. r = Closer [''b'']" 1, OF _ _ _ _ calculation] q(2) by simp
  ultimately show ?thesis using q(2) by force
qed

lemma ex_lookup_run: "(kad_step (\<lambda>p r. p = ''a'' \<and> r = Closer []) ^^ 3) ex_q0 ex_q3"
proof -
  let ?step = "kad_step (\<lambda>p r. p = ''a'' \<and> r = Closer [])"
  have 1: "?step ex_q0 ex_q1"
    by (rule kad_step.take [OF _ _ ex_lookup(1)]) (simp_all add: ex_q0_def newQuery_def)
  have 2: "?step ex_q1 ex_q2"
    using kad_step.send [of "''a''" ex_q1 "\<lambda>p r. p = ''a'' \<and> r = Closer []" "Closer []" 5] ex_lookup by (simp add: ex_q2_def)
  have 3: "?step ex_q2 ex_q3"
    by (rule kad_step.take [OF _ _ ex_lookup(6)]) (simp_all add: ex_q2_def ex_lookup)
  from 1 2 3 show ?thesis by (auto simp: numeral_3_eq_3 relcompp_apply eq_OO)
qed

text \<open>
  C22. The result of a lookup is exact. At any point of any run the result can be built without a panic: its peers are the \<open>k\<close> (\<^verbatim>\<open>bucketSize\<close>) closest known
  peers that are not unreachable, up to the order of the external sort, with their states; \<^verbatim>\<open>closest\<close> lists the \<open>k\<close> closest known peers in order of their
  distance; and it is marked completed exactly when the \<open>b\<close> (\<^verbatim>\<open>beta\<close>) closest peers that are not unreachable have all been queried, or no
  peer is left to query. So a lookup that ended for one of these two reasons is marked completed; but the mark depends on the states of the
  peers alone and not on why the lookup ended: whenever no peer is known, the result has no peers and is marked completed, as after a
  cancellation before the first update. The hypothesis on the external sort is that it permutes its argument.\<close>

theorem lookup_result_exact:
  assumes "1 \<le> a" "finite U" "set seeds \<subseteq> U" "\<And>p ps. ans p (Closer ps) \<Longrightarrow> set ps \<subseteq> U"
    and "(kad_step ans ^^ n) (newQuery ks me a b k flt stop target seeds) q" and "\<And>xs. mset (sortc xs) = mset xs"
  shows "\<exists>res q' reach near. constructLookupResult sortc q = Some (res, q')
    \<and> ranking [PeerHeard, PeerWaiting, PeerQueried] (queryPeers q) reach \<and> ranking [PeerHeard, PeerWaiting, PeerQueried, PeerUnreachable] (queryPeers q) near
    \<and> mset (res_peers res) = mset (take k reach) \<and> map Some (res_state res) = map (states (queryPeers q)) (res_peers res)
    \<and> res_closest res = take k near
    \<and> (completed res \<longleftrightarrow> list_all (\<lambda>p. states (queryPeers q) p = Some PeerQueried) (take b reach)
         \<or> (\<forall>p. states (queryPeers q) p \<noteq> Some PeerHeard \<and> states (queryPeers q) p \<noteq> Some PeerWaiting))
    \<and> (reason q = Some LookupCompleted \<or> reason q = Some LookupStarvation \<longrightarrow> completed res)
    \<and> (states (queryPeers q) = Map.empty \<longrightarrow> completed res \<and> res_peers res = [])"
proof -
  have i: "kad_inv U a q" using kad_run_inv [OF assms(5) newQuery_inv(1) [OF assms(1,3)] assms(2,4)] by simp
  then have ok: "peerset_ok (queryPeers q)" and e: "kad_ended q" by (auto simp: kad_inv_def kad_first_def kad_core_def)
  have c: "bucketSize q = k" "beta q = b" using config_run [OF assms(5)] by (simp_all add: config_def newQuery_def)
  obtain res q' where r: "constructLookupResult sortc q = Some (res, q')" "mset (res_peers res) = mset (take k (closest [PeerHeard, PeerWaiting, PeerQueried] (queryPeers q)))"
    "res_closest res = take k (closest [PeerHeard, PeerWaiting, PeerQueried, PeerUnreachable] (queryPeers q))"
    "map Some (res_state res) = map (st_of q) (res_peers res)" "completed res = (looked q \<or> starved q)"
    using constructLookupResult_closest [OF ok assms(6)] unfolding c by blast
  note R = closest_ranking [OF ok]
  have "reason q = Some LookupCompleted \<or> reason q = Some LookupStarvation \<longrightarrow> completed res" using e r(5) by (auto simp: kad_ended_def)
  moreover have "completed res \<and> res_peers res = []" if "st_of q = Map.empty"
    using that r(2,5) R [of "[PeerHeard, PeerWaiting, PeerQueried]"] by (simp add: starved_def ranking_def)
  ultimately show ?thesis using r R unfolding looked_def starved_def c by blast
qed

theorem lookup_result_exact_witness:
  "(kad_step (\<lambda>p r. p = ''a'' \<and> r = Closer []) ^^ 3) ex_q0 ex_q3 \<and> reason ex_q3 = Some LookupStarvation
   \<and> (\<exists>res q'. constructLookupResult (sort_key length) ex_q3 = Some (res, q') \<and> completed res \<and> res_peers res = [''a''] \<and> res_state res = [PeerQueried])"
proof -
  note T = lookup_result_exact [of 3 "{''a''}" "[''a'']" "\<lambda>p r. p = ''a'' \<and> r = Closer []" 3 "\<lambda>_ p. length p" "''me''" 2 20 "\<lambda>_. True" "\<lambda>_. False" "''key''" ex_q3
      "sort_key length", folded ex_q0_def]
  obtain res q' reach where r: "constructLookupResult (sort_key length) ex_q3 = Some (res, q')"
    "ranking [PeerHeard, PeerWaiting, PeerQueried] (queryPeers ex_q3) reach" "mset (res_peers res) = mset (take 20 reach)"
    "map Some (res_state res) = map (st_of ex_q3) (res_peers res)" "completed res"
    using T ex_lookup_run ex_lookup(7) by auto
  have "distinct reach" "set reach = {''a''}" using r(2) unfolding ranking_def ex_lookup(8) by (auto split: if_splits)
  then have "reach = [''a'']" by (cases reach; cases "tl reach") auto
  then have p: "res_peers res = [''a'']" using r(3) by simp
  then have "res_state res = [PeerQueried]" using r(4) by (auto simp: ex_lookup(8))
  then show ?thesis using r p ex_lookup_run ex_lookup(7) by blast
qed

text \<open>
  C40. A lookup whose context is cancelled before it takes the first update ends cancelled without having looked at a single peer, and yet its
  result is marked completed, against the comment on the field, which excludes a premature end by cancellation.\<close>

theorem cancelled_lookup_completed:
  assumes "\<And>xs. mset (sortc xs) = mset xs"
  shows "\<exists>q res q'. kad_step ans (newQuery ks me a b k flt stop target seeds) q \<and> terminated q \<and> running q = [] \<and> reason q = Some LookupCancelled
    \<and> constructLookupResult sortc q = Some (res, q') \<and> completed res \<and> res_peers res = [] \<and> followup_peers res = []"
proof -
  let ?q0 = "newQuery ks me a b k flt stop target seeds"
  let ?t = "?q0\<lparr>terminated := True, reason := Some LookupCancelled\<rparr>"
  have ok: "peerset_ok (queryPeers ?t)" "st_of ?t = Map.empty" using New_ok by (simp_all add: newQuery_def)
  note T = tidied_core [OF ok(1)]
  have "run_cancelled ?q0 = Some (tidied ?t)" using after_select_terminated [OF ok(1)] by (simp add: run_cancelled_def terminate_def newQuery_def)
  then have step: "kad_step ans ?q0 (tidied ?t)"
    by (intro kad_step.cancelled [of _ stop]) (simp_all add: newQuery_def)
  have e: "st_of (tidied ?t) = Map.empty" using T(2) ok(2) by simp
  obtain res q' where r: "constructLookupResult sortc (tidied ?t) = Some (res, q')"
    "mset (res_peers res) = mset (take (bucketSize (tidied ?t)) (closest [PeerHeard, PeerWaiting, PeerQueried] (queryPeers (tidied ?t))))"
    "completed res = (looked (tidied ?t) \<or> starved (tidied ?t))"
    using constructLookupResult_closest [OF T(1) assms] by blast
  have p: "res_peers res = []" using r(2) e closest_ranking [OF T(1), of "[PeerHeard, PeerWaiting, PeerQueried]"] by (simp add: ranking_def)
  moreover have "completed res" using r(3) e by (simp add: starved_def)
  moreover have "followup_peers res = []" using p by (simp add: followup_peers_def)
  ultimately show ?thesis using step r(1) T by (intro exI [of _ "tidied ?t"] exI [of _ res] exI [of _ q']) (simp add: newQuery_def)
qed

theorem cancelled_lookup_completed_witness:
  "\<exists>q res q'. kad_step (\<lambda>_ _. False) ex_q0 q \<and> reason q = Some LookupCancelled
     \<and> constructLookupResult (sort_key length) q = Some (res, q') \<and> completed res \<and> res_peers res = []"
proof -
  have "mset (sort_key length xs) = mset xs" for xs :: "peer_id list" by simp
  from cancelled_lookup_completed [of "sort_key length", OF this, of "\<lambda>_ _. False" "\<lambda>_ p. length p" "''me''" 3 2 20 "\<lambda>_. True" "\<lambda>_. False" "''key''" "[''a'']"]
  show ?thesis unfolding ex_q0_def by blast
qed

end
