(* ===== verification/Spec2Isabelle.thy ===== *)
theory Spec2Isabelle
  imports Rcmgr_Attach Message_Cache Time_Cache Backoff Gossip_Tracer Rpc_Queue Subscription_Filter Rpc_Split Peer_Score_Properties Router_Properties Peer_Gater Pubsub_Properties Kad_Lookup
begin

text \<open>
  \<^bold>\<open>Verification of the Go libp2p stack.\<close>

  The repository holds five Go modules: \<^verbatim>\<open>go-libp2p\<close>, the publish-subscribe router \<^verbatim>\<open>go-libp2p-blossomsub\<close>, the Kademlia
  implementation \<^verbatim>\<open>go-libp2p-kad-dht\<close>, and the address libraries \<^verbatim>\<open>go-multiaddr\<close> and \<^verbatim>\<open>go-multiaddr-dns\<close>. This development
  models the parts whose state and decisions are programs of their own: the resource manager of \<^verbatim>\<open>go-libp2p\<close>
  (\<^verbatim>\<open>p2p/host/resource-manager\<close>), nearly all of BlossomSub, and the lookup of the DHT. Source paths below are relative to these modules.

  \<^bold>\<open>Conventions.\<close> A Go struct is a record, a handler a function on it, and a handler that may panic returns an option whose
  \<open>None\<close> is the panic (\<open>Partial\<close>: loops whose body may panic). Errors are values of sum or option types. A Go map is a function, a partial function
  or, where its enumeration matters, an association list; a slice that may be nil is an option (\<open>slice\<close>), and so is a map that is written
  without having been made. Pointers shared between structs (scopes, subscriptions, handlers, statistics of the gater) are identifiers into a store.
  Times and durations are integers in nanoseconds, addresses and hashes are words, memory amounts are 64-bit
  integers with the wrap-around written out (\<open>wrap64\<close>). Floating-point numbers are reals. Randomness is an argument: a
  stream of draws for the router, and an explicit jitter or draw elsewhere. Clock readings, answers of remote peers, user validators, cryptographic
  keys, encoded sizes and the sort of external packages are arguments too, with what is relied on as hypotheses of the properties. Code that a mutex or the event loop makes atomic is one step; where goroutines
  interleave, there is a step relation.

  \<^bold>\<open>Prelude.\<close> 64-bit arithmetic, decimal printing, generic facts, and the collections of simplification and introduction rules.

  \<^bold>\<open>Resource manager.\<close>
  \<^item> \<open>Rcmgr_Resources\<close>: the counters and limits of one scope (\<^verbatim>\<open>scope.go\<close>, \<^verbatim>\<open>limit.go\<close>); the checked arithmetic is exact, and the memory check accepts
    exactly the priority's share of the limit.
  \<^item> \<open>Rcmgr_Scope\<close>: scopes, spans and their edges in a store (\<^verbatim>\<open>scope.go\<close>). The locales \<open>releasing\<close> and its extension for reservations state what the
    three kinds of reservation share; their interpretations give the all-or-nothing theorems. Owners are older than their spans,
    which makes the recursion over owners terminate.
  \<^item> \<open>Rcmgr_Interleaving\<close>: the mutex-protected sections as a step relation that over-approximates the code; limits hold along every interleaving; closing
    a scope or span returns exactly its holdings.
  \<^item> \<open>Rcmgr_Manager\<close>, \<open>Rcmgr_Invariant\<close>, \<open>Rcmgr_Handlers\<close>, \<open>Rcmgr_Attach\<close>: the manager (\<^verbatim>\<open>rcmgr.go\<close>), its invariant (roles of scopes, maps, tables), every handler and garbage
    collection against it, whole runs, and the exact effect of \<^verbatim>\<open>openConnection\<close>, \<^verbatim>\<open>SetPeer\<close>, \<^verbatim>\<open>SetProtocol\<close> and \<^verbatim>\<open>SetService\<close> on success and on refusal.
  \<^item> \<open>Netip\<close>, \<open>Allowlist\<close>, \<open>Conn_Limiter\<close>: prefixes (the standard library's \<^verbatim>\<open>netip\<close>), \<^verbatim>\<open>allowlist.go\<close>, and the per-address limiter \<^verbatim>\<open>conn_limiter.go\<close>.

  \<^bold>\<open>BlossomSub, components without the event loop.\<close>
  \<^item> \<open>Pubsub_Types\<close>, \<open>Bitmask\<close>: wire types, message identifiers, and the slices of a bitmask.
  \<^item> \<open>Message_Cache\<close>, \<open>Time_Cache\<close>, \<open>Backoff\<close>, \<open>Gossip_Tracer\<close>, \<open>Subscription_Filter\<close>, \<open>Peer_Gater\<close>: \<^verbatim>\<open>mcache.go\<close>, \<^verbatim>\<open>timecache/\<close> and \<^verbatim>\<open>blacklist.go\<close>, \<^verbatim>\<open>backoff.go\<close>,
    \<^verbatim>\<open>gossip_tracer.go\<close>, \<^verbatim>\<open>subscription_filter.go\<close>, \<^verbatim>\<open>peer_gater.go\<close>; for each the observable behaviour along every sequence of its operations.
  \<^item> \<open>Rpc_Queue\<close>, \<open>Event_Log\<close>: the outbound queue (\<^verbatim>\<open>rpc_queue.go\<close>) and the event handlers of a bitmask (\<^verbatim>\<open>bitmask.go\<close>) with any number of concurrent
    callers; a Go select is the list of its possible outcomes.
  \<^item> \<open>Rpc_Split\<close>: \<^verbatim>\<open>appendOrMergeRPC\<close>; what it keeps, what it drops, and the sizes.
  \<^item> \<open>Score_Params\<close>, \<open>Peer_Score\<close>, \<open>Peer_Score_Invariant\<close>, \<open>Peer_Score_Properties\<close>: \<^verbatim>\<open>score_params.go\<close> and \<^verbatim>\<open>score.go\<close>; what validation guarantees, the
    invariant of the statistics, and bounds and monotonicity of the score.
  \<^item> \<open>Validation\<close>, \<open>Seqno_Validator\<close>: \<^verbatim>\<open>validation.go\<close>, \<^verbatim>\<open>sign.go\<close> and \<^verbatim>\<open>validation_builtin.go\<close>.

  \<^bold>\<open>BlossomSub, router and event loop.\<close>
  \<^item> \<open>Router_State\<close>, \<open>Router_Send\<close>, \<open>Router_Handlers\<close>, \<open>Router_Heartbeat\<close>: the definitions of \<^verbatim>\<open>blossomsub.go\<close>. The heartbeat and the handlers may
    panic, so they are options; that they return is part of their theorems. There is no fuel: every loop is over a finite list.
  \<^item> \<open>Router_Select\<close>, \<open>Router_Invariant\<close>, \<open>Router_Safety\<close>, \<open>Router_Mesh\<close>, \<open>Router_Prefer\<close>, \<open>Router_Maintain\<close>, \<open>Router_Beat\<close>, \<open>Router_Beat_Safety\<close>, \<open>Router_Graft\<close>, \<open>Router_Frame\<close>:
    peer selection, the router invariant and that every handler returns and keeps it, the bounds of a mesh, the order of preference of the pruning, the stages of the
    heartbeat, GRAFT handling, and the frame of the handlers. \<open>Router_Properties\<close> holds the results.
  \<^item> \<open>Pubsub_State\<close>, \<open>Pubsub_Loop\<close>: the PubSub object and its event loop (\<^verbatim>\<open>pubsub.go\<close>, \<^verbatim>\<open>subscription.go\<close>, \<^verbatim>\<open>bitmask.go\<close>), which own the router, the seen cache, the score, the gater and the validation
    pipeline; \<open>Pubsub_Invariant\<close>, \<open>Pubsub_Safety\<close> and \<open>Pubsub_Properties\<close> show that every sequence of events runs without a panic, keeps the invariant, and
    delivers a message at most once within the seen cache's time to live. A validation that finishes gives its throttle slot back in the step
    that hands its message to the loop; the code holds the slot while that send blocks, so the model admits every concurrency of the code and more.

  \<^bold>\<open>Kademlia lookup.\<close> \<open>Kad_Peerset\<close> (\<^verbatim>\<open>qpeerset.go\<close>), \<open>Kad_Query\<close> and \<open>Kad_Lookup\<close> (\<^verbatim>\<open>query.go\<close>): the loop of a lookup, its goroutines and its channel as a
  step relation; the answers, their order, cancellation and the outcome of the stop function at each turn are arbitrary. A lookup over \<open>n\<close> peers ends
  within \<open>2 n + 2\<close> steps, and its result is exact.

  \<^bold>\<open>Not modelled.\<close> Sockets, transports, security channels, hosts and their services, the swarm, stream protocols, and the connection manager of
  \<^verbatim>\<open>go-libp2p\<close>; the stream goroutines of BlossomSub (\<^verbatim>\<open>comm.go\<close>), its discovery, tag tracer and trace sinks; the tickers that call the modelled maintenance functions; metrics and logging; the DHT outside
  of lookups, which serves an external routing table and datastore; the wait for the follow-up queries of a lookup; and the two
  address libraries. They are input and output, bindings of external libraries or generated code, or, for the address libraries, left to an extension.
  Integer counters of live objects and sequence counters are unbounded, and NaN and infinity do not occur in the real numbers that stand for floats.
\<close>

end
